(* ===== verification/Prelude.thy ===== *)
theory Prelude
  imports Main "HOL-Library.Sublist" "HOL-Library.List_Lexorder"
begin

text \<open>
  Shared vocabulary of the development: the types that stand for Python text and bytes,
  the collections of rewrite rules the component theories extend, and list facts that more
  than one component uses.

  A Python \<open>str\<close> is the list of its code points and a Python \<open>bytes\<close> object the list of its
  values, so both are lists of \<open>int\<close>. A literal of the source is written \<open>str ''...''\<close>; a
  character that a HOL string cannot show is written by its code point.
\<close>

type_synonym cp = int
type_synonym pystr = "int list"
type_synonym bytes = "int list"

definition str :: "string \<Rightarrow> pystr" where
  "str s = map of_char s"

named_theorems text_simps \<open>equations that evaluate the text primitives\<close>
named_theorems outcome_simps \<open>equations that evaluate outcomes of checks\<close>

section \<open>Lists\<close>

lemma dropWhile_idem [simp]: "dropWhile P (dropWhile P xs) = dropWhile P xs"
  by (induction xs) auto

lemma length_filter_concat_map:
  "length (concat (map f xs)) = sum_list (map (\<lambda>x. length (f x)) xs)"
  by (simp add: length_concat comp_def)

lemma map_of_mapk: "map_of xs k = Some v \<Longrightarrow> (k, v) \<in> set xs"
  by (rule map_of_SomeD)

lemma find_None_all: "List.find P xs = None \<longleftrightarrow> (\<forall>x \<in> set xs. \<not> P x)"
  by (auto simp: find_None_iff)

lemma concat_map_singleton_filter:
  "concat (map (\<lambda>x. if P x then [f x] else []) xs) = map f (filter P xs)"
  by (induction xs) auto

lemma all_Cons_append:
  "(\<forall>u t. c # cs = u @ t \<longrightarrow> P u t) \<longleftrightarrow> P [] (c # cs) \<and> (\<forall>u t. cs = u @ t \<longrightarrow> P (c # u) t)"
  (is "?l \<longleftrightarrow> ?r")
proof
  assume ?r
  then show ?l by (simp add: Cons_eq_append_conv) blast
qed simp

lemma sorted_wrt_hd_le:
  "sorted_wrt R (x # xs) \<Longrightarrow> y \<in> set xs \<Longrightarrow> R x y"
  by auto

lemma count_list_append_nl: "count_list (xs @ ys) a = count_list xs a + count_list ys a"
  by simp

end
