(* ===== verification/Py_Text.thy ===== *)
theory Py_Text
  imports Prelude
begin

text \<open>
  The operations of Python's \<open>str\<close> that the scripts use: substring search, slices with
  negative and out-of-range bounds, line splitting, splitting and joining, stripping,
  case folding and replacement. Each follows the language reference; the line boundaries
  are those of \<open>str.splitlines\<close> and the white space that of \<open>str.isspace\<close>.
\<close>

section \<open>Character classes\<close>

definition is_space :: "cp \<Rightarrow> bool" where
  "is_space c \<longleftrightarrow>
     (9 \<le> c \<and> c \<le> 13) \<or> (28 \<le> c \<and> c \<le> 32) \<or> c = 133 \<or> c = 160 \<or> c = 5760
     \<or> (8192 \<le> c \<and> c \<le> 8202) \<or> c = 8232 \<or> c = 8233 \<or> c = 8239 \<or> c = 8287 \<or> c = 12288"

definition is_linebreak :: "cp \<Rightarrow> bool" where
  "is_linebreak c \<longleftrightarrow>
     (10 \<le> c \<and> c \<le> 13) \<or> (28 \<le> c \<and> c \<le> 30) \<or> c = 133 \<or> c = 8232 \<or> c = 8233"

definition is_digit :: "cp \<Rightarrow> bool" where
  "is_digit c \<longleftrightarrow> 48 \<le> c \<and> c \<le> 57"

definition is_upper :: "cp \<Rightarrow> bool" where
  "is_upper c \<longleftrightarrow> 65 \<le> c \<and> c \<le> 90"

definition is_lower :: "cp \<Rightarrow> bool" where
  "is_lower c \<longleftrightarrow> 97 \<le> c \<and> c \<le> 122"

text \<open>
  The word characters of a regular expression, restricted to ASCII: the texts the scripts
  scan are assembly, C and tool output, whose identifiers are ASCII.
\<close>

definition is_word :: "cp \<Rightarrow> bool" where
  "is_word c \<longleftrightarrow> is_digit c \<or> is_upper c \<or> is_lower c \<or> c = 95"

lemma linebreak_is_space: "is_linebreak c \<Longrightarrow> is_space c"
  by (auto simp: is_linebreak_def is_space_def)

section \<open>Prefixes, suffixes and substrings\<close>

definition startswith :: "pystr \<Rightarrow> pystr \<Rightarrow> bool" where
  "startswith s p \<longleftrightarrow> prefix p s"

definition endswith :: "pystr \<Rightarrow> pystr \<Rightarrow> bool" where
  "endswith s p \<longleftrightarrow> suffix p s"

text \<open>\<open>p in s\<close> for strings.\<close>

definition contains :: "pystr \<Rightarrow> pystr \<Rightarrow> bool" where
  "contains s p \<longleftrightarrow> sublist p s"

definition removeprefix :: "pystr \<Rightarrow> pystr \<Rightarrow> pystr" where
  "removeprefix s p = (if startswith s p then drop (length p) s else s)"

lemma contains_mono: "contains s p \<Longrightarrow> sublist s t \<Longrightarrow> contains t p"
  unfolding contains_def by (rule sublist_order.order.trans)

text \<open>\<open>str.find\<close> and \<open>str.index\<close>: the first position of the pattern, -1 when there is none.\<close>

fun find_at :: "int \<Rightarrow> pystr \<Rightarrow> pystr \<Rightarrow> int" where
  "find_at i p [] = (if p = [] then i else -1)"
| "find_at i p (c # cs) = (if prefix p (c # cs) then i else find_at (i + 1) p cs)"

definition py_find :: "pystr \<Rightarrow> pystr \<Rightarrow> int" where
  "py_find s p = find_at 0 p s"

text \<open>A slice \<open>s[a:b]\<close>: a negative bound counts from the end, every bound is clamped.\<close>

definition slice_bound :: "pystr \<Rightarrow> int \<Rightarrow> nat" where
  "slice_bound s a =
     (let n = int (length s); b = (if a < 0 then a + n else a)
      in nat (max 0 (min n b)))"

definition py_slice :: "pystr \<Rightarrow> int \<Rightarrow> int \<Rightarrow> pystr" where
  "py_slice s a b =
     (let i = slice_bound s a; j = slice_bound s b in take (j - i) (drop i s))"

definition py_from :: "pystr \<Rightarrow> int \<Rightarrow> pystr" where
  "py_from s a = drop (slice_bound s a) s"

text \<open>\<open>s.find(p, start)\<close> for the non-negative starts the scripts use.\<close>

definition py_find_from :: "pystr \<Rightarrow> pystr \<Rightarrow> int \<Rightarrow> int" where
  "py_find_from s p start =
     (let i = slice_bound s start
      in if int (length s) < start then -1 else find_at (int i) p (drop i s))"

lemma find_at_neg: "0 \<le> i \<Longrightarrow> find_at i p s < 0 \<longleftrightarrow> \<not> sublist p s"
proof (induction i p s rule: find_at.induct)
  case (1 i p)
  then show ?case by auto
next
  case (2 i p c cs)
  then show ?case by (auto simp: sublist_Cons_right)
qed

lemma py_find_neg: "py_find s p < 0 \<longleftrightarrow> \<not> contains s p"
  by (simp add: py_find_def contains_def find_at_neg)

lemma find_at_absent: "\<not> sublist p s \<Longrightarrow> find_at i p s = -1"
  by (induction i p s rule: find_at.induct) (auto simp: sublist_Cons_right)

lemma py_find_absent: "\<not> contains s p \<Longrightarrow> py_find s p = -1"
  by (simp add: py_find_def contains_def find_at_absent)

lemma find_at_bound:
  "0 \<le> i \<Longrightarrow> 0 \<le> find_at i p s \<Longrightarrow> i \<le> find_at i p s \<and> find_at i p s + int (length p) \<le> i + int (length s)"
proof (induction i p s rule: find_at.induct)
  case (1 i p)
  then show ?case by (auto split: if_splits)
next
  case (2 i p c cs)
  then show ?case by (auto split: if_splits dest: prefix_length_le)
qed

lemma find_at_shift: "0 \<le> i \<Longrightarrow> 0 \<le> find_at i p s \<Longrightarrow> find_at i p s = i + find_at 0 p s"
proof (induction s arbitrary: i)
  case Nil
  then show ?case by (auto split: if_splits)
next
  case (Cons c cs)
  show ?case
  proof (cases "prefix p (c # cs)")
    case False
    with Cons.prems have "0 \<le> find_at (i + 1) p cs" by simp
    moreover from this Cons.prems(1) have "0 \<le> find_at 1 p cs"
      using find_at_neg [of "i + 1" p cs] find_at_neg [of 1 p cs] by linarith
    ultimately show ?thesis
      using False Cons.prems(1) Cons.IH [of "i + 1"] Cons.IH [of 1] by simp
  qed simp
qed

lemma find_at_prefix:
  "0 \<le> find_at 0 p s \<Longrightarrow> prefix p (drop (nat (find_at 0 p s)) s)"
proof (induction s)
  case Nil
  then show ?case by (auto split: if_splits)
next
  case (Cons c cs)
  show ?case
  proof (cases "prefix p (c # cs)")
    case True
    then show ?thesis by simp
  next
    case False
    with Cons.prems have ge: "0 \<le> find_at 1 p cs" by simp
    then have eq: "find_at 1 p cs = 1 + find_at 0 p cs" by (intro find_at_shift) auto
    moreover have nn: "0 \<le> find_at 0 p cs"
      using ge find_at_neg [of 1 p cs] find_at_neg [of 0 p cs] by auto
    ultimately show ?thesis using False Cons.IH by (simp add: nat_add_distrib)
  qed
qed

lemma py_find_prefix: "0 \<le> py_find s p \<Longrightarrow> prefix p (drop (nat (py_find s p)) s)"
  by (simp add: py_find_def find_at_prefix)

lemma py_find_bound: "0 \<le> py_find s p \<Longrightarrow> py_find s p + int (length p) \<le> int (length s)"
  using find_at_bound [of 0 p s] by (simp add: py_find_def)

section \<open>Lines\<close>

fun cons_line :: "cp \<Rightarrow> pystr list \<Rightarrow> pystr list" where
  "cons_line c [] = [[c]]"
| "cons_line c (l # ls) = (c # l) # ls"

fun splitlines :: "pystr \<Rightarrow> pystr list" where
  "splitlines [] = []"
| "splitlines [c] = (if is_linebreak c then [[]] else [[c]])"
| "splitlines (c # d # s) =
     (if c = 13 \<and> d = 10 then [] # splitlines s
      else if is_linebreak c then [] # splitlines (d # s)
      else cons_line c (splitlines (d # s)))"

fun join :: "pystr \<Rightarrow> pystr list \<Rightarrow> pystr" where
  "join sep [] = []"
| "join sep [x] = x"
| "join sep (x # y # ys) = x @ sep @ join sep (y # ys)"

definition nl :: pystr where
  "nl = [10]"

lemma splitlines_ne [simp]: "splitlines (c # s) \<noteq> []"
  by (cases s; cases "splitlines s") (auto elim: cons_line.elims)

lemma set_cons_line:
  "ls \<noteq> [] \<Longrightarrow> set (cons_line c ls) = insert (c # hd ls) (set (tl ls))"
  by (cases ls) auto

lemma splitlines_no_break: "l \<in> set (splitlines s) \<Longrightarrow> \<forall>c \<in> set l. \<not> is_linebreak c"
proof (induction s arbitrary: l rule: splitlines.induct)
  case 1
  then show ?case by simp
next
  case (2 c)
  then show ?case by (simp split: if_splits)
next
  case (3 c d s)
  show ?case
  proof (cases "is_linebreak c")
    case True
    with 3 show ?thesis by (auto split: if_splits)
  next
    case False
    then have ne: "\<not> (c = 13 \<and> d = 10)" by (auto simp: is_linebreak_def)
    with False 3 have IH: "\<And>l. l \<in> set (splitlines (d # s)) \<Longrightarrow> \<forall>c \<in> set l. \<not> is_linebreak c"
      by blast
    obtain h t where ht: "splitlines (d # s) = h # t"
      using splitlines_ne by (meson neq_Nil_conv)
    have "l = c # h \<or> l \<in> set t" using "3.prems" ne False by (auto simp: ht)
    moreover have "\<forall>c \<in> set h. \<not> is_linebreak c" by (rule IH) (simp add: ht)
    moreover have "l \<in> set t \<Longrightarrow> \<forall>c \<in> set l. \<not> is_linebreak c" by (rule IH) (simp add: ht)
    ultimately show ?thesis using False by auto
  qed
qed

lemma set_cons_line_subset: "l \<in> set (cons_line c ls) \<Longrightarrow> \<forall>k \<in> set ls. set k \<subseteq> A \<Longrightarrow> set l \<subseteq> insert c A"
  by (cases ls) auto

lemma splitlines_subset: "l \<in> set (splitlines s) \<Longrightarrow> set l \<subseteq> set s"
proof (induction s arbitrary: l rule: splitlines.induct)
  case (3 c d s)
  show ?case
  proof (cases "c = 13 \<and> d = 10 \<or> is_linebreak c")
    case True
    with 3 show ?thesis by (fastforce split: if_splits)
  next
    case False
    with 3 have "l \<in> set (cons_line c (splitlines (d # s)))"
      "\<forall>k \<in> set (splitlines (d # s)). set k \<subseteq> set (d # s)" by auto
    from set_cons_line_subset [OF this] show ?thesis by simp
  qed
qed (auto split: if_splits)

lemma splitlines_code_char:
  "\<not> is_linebreak c \<Longrightarrow> splitlines (c # s) = cons_line c (splitlines s)"
  by (cases s) (auto simp: is_linebreak_def)

lemma splitlines_newline: "splitlines (10 # s) = [] # splitlines s"
  by (cases s) (auto simp: is_linebreak_def)

lemma splitlines_append_line:
  assumes "\<forall>c \<in> set l. \<not> is_linebreak c"
  shows "splitlines (l @ 10 # s) = l # splitlines s"
  using assms
  by (induction l) (simp_all add: splitlines_newline splitlines_code_char)

lemma splitlines_single:
  assumes "\<forall>c \<in> set l. \<not> is_linebreak c" and "l \<noteq> []"
  shows "splitlines l = [l]"
  using assms(2,1)
  by (induction l rule: list_nonempty_induct) (simp_all add: splitlines_code_char)

text \<open>
  Joining non-empty lines with newlines and splitting again gives the lines back. The last
  line must be non-empty, because a trailing newline ends a line rather than starting one.
\<close>

lemma splitlines_join:
  assumes "\<And>l. l \<in> set ls \<Longrightarrow> \<forall>c \<in> set l. \<not> is_linebreak c" and "\<And>l. l \<in> set ls \<Longrightarrow> l \<noteq> []"
  shows "splitlines (join nl ls) = ls"
  using assms
proof (induction "nl :: pystr" ls rule: join.induct)
  case 1
  then show ?case by simp
next
  case (2 x)
  then show ?case by (simp add: splitlines_single)
next
  case (3 x y ys)
  have "splitlines (join nl (y # ys)) = y # ys" using "3.hyps" "3.prems" by (metis list.set_intros(2))
  moreover have "\<forall>c \<in> set x. \<not> is_linebreak c" by (rule "3.prems") simp
  ultimately show ?case by (simp add: nl_def splitlines_append_line)
qed

section \<open>Splitting\<close>

text \<open>Splits at the first occurrence of a separator.\<close>

fun cut :: "pystr \<Rightarrow> pystr \<Rightarrow> (pystr \<times> pystr) option" where
  "cut sep [] = (if sep = [] then Some ([], []) else None)"
| "cut sep (c # cs) =
     (if prefix sep (c # cs) then Some ([], drop (length sep) (c # cs))
      else map_option (\<lambda>(a, b). (c # a, b)) (cut sep cs))"

lemma cut_Some: "cut sep s = Some (a, b) \<Longrightarrow> s = a @ sep @ b"
proof (induction s arbitrary: a)
  case Nil
  then show ?case by (auto split: if_splits)
next
  case (Cons c cs)
  then show ?case by (auto split: if_splits simp: prefix_def)
qed

lemma cut_None: "cut sep s = None \<longleftrightarrow> \<not> sublist sep s"
proof (induction s)
  case Nil
  then show ?case by auto
next
  case (Cons c cs)
  then show ?case by (auto simp: sublist_Cons_right)
qed

lemma cut_length: "cut sep s = Some (a, b) \<Longrightarrow> sep \<noteq> [] \<Longrightarrow> length b < length s"
  by (drule cut_Some) simp

text \<open>\<open>s.split(sep)\<close> for a non-empty separator.\<close>

function split_str :: "pystr \<Rightarrow> pystr \<Rightarrow> pystr list" where
  "split_str sep s =
     (if sep = [] then [s]
      else case cut sep s of None \<Rightarrow> [s] | Some (a, b) \<Rightarrow> a # split_str sep b)"
  by pat_completeness auto
termination
  by (relation "measure (\<lambda>(sep, s). length s)") (auto dest: cut_length)

declare split_str.simps [simp del]

lemma join_split_str: "sep \<noteq> [] \<Longrightarrow> join sep (split_str sep s) = s"
proof (induction sep s rule: split_str.induct)
  case (1 sep s)
  show ?case
  proof (cases "cut sep s")
    case None
    then show ?thesis by (simp add: split_str.simps [of sep s])
  next
    case (Some ab)
    obtain a b where ab: "ab = (a, b)" by (cases ab)
    with Some 1 have IH: "join sep (split_str sep b) = b" by simp
    have "split_str sep b \<noteq> []" by (subst split_str.simps) (auto split: option.splits)
    then obtain y ys where "split_str sep b = y # ys" by (cases "split_str sep b") auto
    moreover have "split_str sep s = a # split_str sep b"
      using Some ab 1 by (simp add: split_str.simps [of sep s])
    moreover have "s = a @ sep @ b" using Some ab by (simp add: cut_Some)
    ultimately show ?thesis using IH by simp
  qed
qed

text \<open>\<open>s.split()\<close>: the maximal runs of characters that are not white space.\<close>

function words :: "pystr \<Rightarrow> pystr list" where
  "words s =
     (case dropWhile is_space s of
        [] \<Rightarrow> []
      | c # cs \<Rightarrow>
          (c # takeWhile (\<lambda>x. \<not> is_space x) cs) # words (dropWhile (\<lambda>x. \<not> is_space x) cs))"
  by pat_completeness auto
termination
proof (relation "measure length")
  show "wf (measure (length :: pystr \<Rightarrow> nat))" by simp
next
  fix s c cs
  assume "dropWhile is_space s = c # (cs :: pystr)"
  then have "length (c # cs) \<le> length s" by (metis length_dropWhile_le)
  moreover have "length (dropWhile (\<lambda>x. \<not> is_space x) cs) \<le> length cs"
    by (rule length_dropWhile_le)
  ultimately show "(dropWhile (\<lambda>x. \<not> is_space x) cs, s) \<in> measure length" by simp
qed

declare words.simps [simp del]

section \<open>Stripping, case and replacement\<close>

definition lstrip_of :: "(cp \<Rightarrow> bool) \<Rightarrow> pystr \<Rightarrow> pystr" where
  "lstrip_of P s = dropWhile P s"

definition rstrip_of :: "(cp \<Rightarrow> bool) \<Rightarrow> pystr \<Rightarrow> pystr" where
  "rstrip_of P s = rev (dropWhile P (rev s))"

definition strip :: "pystr \<Rightarrow> pystr" where
  "strip s = rstrip_of is_space (lstrip_of is_space s)"

definition rstrip :: "pystr \<Rightarrow> pystr" where
  "rstrip s = rstrip_of is_space s"

definition lstrip :: "pystr \<Rightarrow> pystr" where
  "lstrip s = lstrip_of is_space s"

lemma rstrip_of_prefix: "prefix (rstrip_of P s) s"
  unfolding rstrip_of_def
  by (metis rev_rev_ident suffix_dropWhile suffix_to_prefix)

lemma rstrip_of_idem [simp]: "rstrip_of P (rstrip_of P s) = rstrip_of P s"
  by (simp add: rstrip_of_def)

lemma strip_Nil_iff: "strip s = [] \<longleftrightarrow> (\<forall>c \<in> set s. is_space c)"
proof -
  have "strip s = [] \<longleftrightarrow> dropWhile is_space (rev (dropWhile is_space s)) = []"
    by (simp add: strip_def rstrip_of_def lstrip_of_def)
  also have "\<dots> \<longleftrightarrow> (\<forall>c \<in> set (dropWhile is_space s). is_space c)"
    by (simp add: dropWhile_eq_Nil_conv)
  also have "\<dots> \<longleftrightarrow> (\<forall>c \<in> set s. is_space c)"
    by (metis dropWhile_eq_Nil_conv dropWhile_idem)
  finally show ?thesis .
qed

text \<open>
  \<open>str.lower\<close> on the code points whose lower case contains an ASCII letter: A to Z, the
  dotted capital I and the Kelvin sign. Every other code point is left alone; its lower
  case is not ASCII, and the scripts compare lowered text with ASCII words only.
\<close>

fun lower_cp :: "cp \<Rightarrow> pystr" where
  "lower_cp c =
     (if is_upper c then [c + 32]
      else if c = 304 then [105, 775]
      else if c = 8490 then [107]
      else [c])"

definition lower :: "pystr \<Rightarrow> pystr" where
  "lower s = concat (map lower_cp s)"

definition upper_ascii :: "pystr \<Rightarrow> pystr" where
  "upper_ascii s = map (\<lambda>c. if is_lower c then c - 32 else c) s"

text \<open>\<open>s.replace(old, new)\<close> for a non-empty \<open>old\<close>.\<close>

definition replace :: "pystr \<Rightarrow> pystr \<Rightarrow> pystr \<Rightarrow> pystr" where
  "replace s old new = join new (split_str old s)"

text \<open>\<open>s.partition(sep)[2]\<close>: what follows the first separator, empty when there is none.\<close>

definition after_first :: "pystr \<Rightarrow> pystr \<Rightarrow> pystr" where
  "after_first s sep = (case cut sep s of None \<Rightarrow> [] | Some (a, b) \<Rightarrow> b)"

text \<open>\<open>s.split(sep, 1)[0]\<close>: what precedes the first separator.\<close>

definition before_first :: "pystr \<Rightarrow> pystr \<Rightarrow> pystr" where
  "before_first s sep = (case cut sep s of None \<Rightarrow> s | Some (a, b) \<Rightarrow> a)"

text \<open>\<open>sorted(set(xs))\<close> for strings: code-point order, no duplicates.\<close>

definition sorted_set :: "pystr list \<Rightarrow> pystr list" where
  "sorted_set xs = sort (remdups xs)"

lemma set_sorted_set [simp]: "set (sorted_set xs) = set xs"
  by (simp add: sorted_set_def)

lemma sorted_set_Nil [simp]: "sorted_set xs = [] \<longleftrightarrow> xs = []"
  by (metis set_empty set_sorted_set)

end
