(* ===== verification/Utf8.thy ===== *)
theory Utf8
  imports Py_Text
begin

text \<open>
  UTF-8 as Python's strict codec reads and writes it, and the newline translation of a file
  opened in text mode. The scripts read every file with \<open>encoding="utf-8"\<close>; a byte sequence
  that is not UTF-8 raises \<open>UnicodeDecodeError\<close>, and a lone surrogate cannot be encoded.
\<close>

definition scalar :: "cp \<Rightarrow> bool" where
  "scalar c \<longleftrightarrow> 0 \<le> c \<and> c \<le> 1114111 \<and> \<not> (55296 \<le> c \<and> c \<le> 57343)"

definition cont_byte :: "int \<Rightarrow> bool" where
  "cont_byte b \<longleftrightarrow> 128 \<le> b \<and> b \<le> 191"

definition utf8_cp :: "cp \<Rightarrow> bytes" where
  "utf8_cp c =
     (if c < 128 then [c]
      else if c < 2048 then [192 + c div 64, 128 + c mod 64]
      else if c < 65536 then [224 + c div 4096, 128 + c div 64 mod 64, 128 + c mod 64]
      else [240 + c div 262144, 128 + c div 4096 mod 64, 128 + c div 64 mod 64, 128 + c mod 64])"

definition utf8_encode :: "pystr \<Rightarrow> bytes option" where
  "utf8_encode s = (if list_all scalar s then Some (concat (map utf8_cp s)) else None)"

text \<open>One code point off the front of a byte sequence.\<close>

fun utf8_step :: "bytes \<Rightarrow> (cp \<times> bytes) option" where
  "utf8_step [] = None"
| "utf8_step (a # bs) =
     (if 0 \<le> a \<and> a < 128 then Some (a, bs)
      else if 194 \<le> a \<and> a \<le> 223 then
        (case bs of
           b # t \<Rightarrow> if cont_byte b then Some ((a - 192) * 64 + (b - 128), t) else None
         | _ \<Rightarrow> None)
      else if 224 \<le> a \<and> a \<le> 239 then
        (case bs of
           b # c # t \<Rightarrow>
             (let v = (a - 224) * 4096 + (b - 128) * 64 + (c - 128)
              in if cont_byte b \<and> cont_byte c \<and> 2048 \<le> v \<and> scalar v then Some (v, t) else None)
         | _ \<Rightarrow> None)
      else if 240 \<le> a \<and> a \<le> 244 then
        (case bs of
           b # c # d # t \<Rightarrow>
             (let v = (a - 240) * 262144 + (b - 128) * 4096 + (c - 128) * 64 + (d - 128)
              in if cont_byte b \<and> cont_byte c \<and> cont_byte d \<and> 65536 \<le> v \<and> scalar v
                 then Some (v, t) else None)
         | _ \<Rightarrow> None)
      else None)"

lemma utf8_step_length: "utf8_step bs = Some (c, t) \<Longrightarrow> length t < length bs"
  by (cases bs) (auto simp: Let_def split: if_splits list.splits)

function utf8_decode :: "bytes \<Rightarrow> pystr option" where
  "utf8_decode bs =
     (if bs = [] then Some []
      else case utf8_step bs of
             None \<Rightarrow> None
           | Some (c, t) \<Rightarrow> map_option (\<lambda>s. c # s) (utf8_decode t))"
  by pat_completeness auto
termination
  by (relation "measure length") (auto dest: utf8_step_length)

declare utf8_decode.simps [simp del]

lemma utf8_decode_Nil [simp]: "utf8_decode [] = Some []"
  by (simp add: utf8_decode.simps)

lemma utf8_decode_step:
  "utf8_step bs = Some (c, t) \<Longrightarrow> utf8_decode bs = map_option (\<lambda>s. c # s) (utf8_decode t)"
  by (cases bs) (simp_all add: utf8_decode.simps)

lemma base64_digits2: "(c::int) div 4096 * 4096 + c div 64 mod 64 * 64 + c mod 64 = c"
proof -
  have "c div 4096 = c div 64 div 64" by (simp add: div_mult2_eq [symmetric] zdiv_zmult2_eq [symmetric])
  moreover have "c div 64 div 64 * 64 + c div 64 mod 64 = c div 64" by simp
  moreover have "c div 64 * 64 + c mod 64 = c" by simp
  ultimately show ?thesis by linarith
qed

lemma base64_digits3:
  "(c::int) div 262144 * 262144 + c div 4096 mod 64 * 4096 + c div 64 mod 64 * 64 + c mod 64 = c"
proof -
  have "c div 262144 = c div 4096 div 64" by (simp add: zdiv_zmult2_eq [symmetric])
  moreover have "c div 4096 div 64 * 64 + c div 4096 mod 64 = c div 4096" by simp
  ultimately show ?thesis using base64_digits2 [of c] by linarith
qed

lemma utf8_step3:
  "0 \<le> a \<Longrightarrow> a < 16 \<Longrightarrow> 0 \<le> b \<Longrightarrow> b < 64 \<Longrightarrow> 0 \<le> d \<Longrightarrow> d < 64 \<Longrightarrow>
   v = a * 4096 + b * 64 + d \<Longrightarrow> 2048 \<le> v \<Longrightarrow> scalar v \<Longrightarrow>
   utf8_step ((224 + a) # (128 + b) # (128 + d) # t) = Some (v, t)"
  by (simp add: cont_byte_def Let_def add.assoc)

lemma utf8_step4:
  "0 \<le> a \<Longrightarrow> a \<le> 4 \<Longrightarrow> 0 \<le> b \<Longrightarrow> b < 64 \<Longrightarrow> 0 \<le> d \<Longrightarrow> d < 64 \<Longrightarrow> 0 \<le> e \<Longrightarrow> e < 64 \<Longrightarrow>
   v = a * 262144 + b * 4096 + d * 64 + e \<Longrightarrow> 65536 \<le> v \<Longrightarrow> scalar v \<Longrightarrow>
   utf8_step ((240 + a) # (128 + b) # (128 + d) # (128 + e) # t) = Some (v, t)"
  by (simp add: cont_byte_def Let_def add.assoc)

lemma utf8_step_encode: "scalar c \<Longrightarrow> utf8_step (utf8_cp c @ t) = Some (c, t)"
proof -
  assume c: "scalar c"
  consider "c < 128" | "128 \<le> c" "c < 2048" | "2048 \<le> c" "c < 65536" | "65536 \<le> c" by linarith
  then show ?thesis
  proof cases
    case 1
    with c show ?thesis by (simp add: utf8_cp_def scalar_def)
  next
    case 2
    then have "2 \<le> c div 64" "c div 64 < 32" by auto
    with 2 show ?thesis by (simp add: utf8_cp_def cont_byte_def)
  next
    case 3
    then have "c div 4096 < 16" "0 \<le> c div 4096" by auto
    then have "utf8_step ((224 + c div 4096) # (128 + c div 64 mod 64) # (128 + c mod 64) # t) = Some (c, t)"
      by (intro utf8_step3) (use 3 c in \<open>simp_all add: base64_digits2\<close>)
    with 3 show ?thesis by (simp add: utf8_cp_def del: utf8_step.simps)
  next
    case 4
    with c have "c div 262144 \<le> 4" "0 \<le> c div 262144" by (auto simp: scalar_def)
    then have "utf8_step ((240 + c div 262144) # (128 + c div 4096 mod 64) # (128 + c div 64 mod 64) #
        (128 + c mod 64) # t) = Some (c, t)"
      by (intro utf8_step4) (use 4 c in \<open>simp_all add: base64_digits3\<close>)
    with 4 show ?thesis by (simp add: utf8_cp_def del: utf8_step.simps)
  qed
qed

lemma utf8_decode_concat: "list_all scalar s \<Longrightarrow> utf8_decode (concat (map utf8_cp s)) = Some s"
  by (induction s) (simp_all add: utf8_decode_step [OF utf8_step_encode])

text \<open>What is encoded decodes to itself.\<close>

lemma utf8_roundtrip: "utf8_encode s = Some bs \<Longrightarrow> utf8_decode bs = Some s"
  by (auto simp: utf8_encode_def utf8_decode_concat split: if_splits)

lemma utf8_step_scalar: "utf8_step bs = Some (c, t) \<Longrightarrow> scalar c"
  by (cases bs) (auto simp: Let_def scalar_def cont_byte_def split: if_splits list.splits)

text \<open>Universal newlines: a carriage return, alone or before a line feed, becomes a line feed.\<close>

fun universal_newlines :: "pystr \<Rightarrow> pystr" where
  "universal_newlines [] = []"
| "universal_newlines [c] = [if c = 13 then 10 else c]"
| "universal_newlines (c # d # s) =
     (if c = 13 \<and> d = 10 then 10 # universal_newlines s
      else (if c = 13 then 10 else c) # universal_newlines (d # s))"

lemma universal_newlines_no_cr: "13 \<notin> set (universal_newlines s)"
  by (induction s rule: universal_newlines.induct) auto

lemma universal_newlines_id: "13 \<notin> set s \<Longrightarrow> universal_newlines s = s"
  by (induction s rule: universal_newlines.induct) auto

end
