(* ===== verification/Py_Regex.thy ===== *)
theory Py_Regex
  imports Py_Text
begin

text \<open>
  The part of Python's \<open>re\<close> module that the scripts use. A pattern is a value of \<open>rx\<close>; the
  matcher \<open>rxm\<close> lists the ways it can match at a position, in the order in which a
  backtracking engine tries them, so the first is the match Python reports. A position is
  the character before it, the text after it and the groups captured so far.

  \<open>rx_rel\<close> says which matches exist without saying in which order they are tried. The
  matcher returns exactly those (\<open>rxm_iff\<close>), and \<open>rx_search\<close> returns a match at the
  leftmost position that has one (\<open>rx_search_leftmost\<close>).
\<close>

section \<open>Patterns\<close>

datatype rx =
    Eps
  | Cls bool "(int \<times> int) list"   \<comment> \<open>a class: \<open>False\<close> for [...], \<open>True\<close> for [^...]\<close>
  | Cat rx rx
  | Alt rx rx
  | Star rx                        \<comment> \<open>greedy\<close>
  | LStar rx                       \<comment> \<open>reluctant\<close>
  | Grp nat rx
  | Bol                            \<comment> \<open>^ under MULTILINE\<close>
  | Eol                            \<comment> \<open>$ under MULTILINE\<close>
  | Bot                            \<comment> \<open>^ without MULTILINE\<close>
  | Eot                            \<comment> \<open>$ without MULTILINE\<close>
  | WordB
  | NotAhead rx

fun in_cls :: "bool \<Rightarrow> (int \<times> int) list \<Rightarrow> cp \<Rightarrow> bool" where
  "in_cls neg rs c = (list_ex (\<lambda>(a, b). a \<le> c \<and> c \<le> b) rs \<noteq> neg)"

declare in_cls.simps [simp del]

fun rx_seq :: "rx list \<Rightarrow> rx" where
  "rx_seq [] = Eps"
| "rx_seq [r] = r"
| "rx_seq (r # rs) = Cat r (rx_seq rs)"

fun rx_alts :: "rx list \<Rightarrow> rx" where
  "rx_alts [] = Cls False []"
| "rx_alts [r] = r"
| "rx_alts (r # rs) = Alt r (rx_alts rs)"

definition rx_chr :: "cp \<Rightarrow> rx" where
  "rx_chr c = Cls False [(c, c)]"

definition rx_str :: "pystr \<Rightarrow> rx" where
  "rx_str w = foldr (\<lambda>c r. Cat (rx_chr c) r) w Eps"

definition rx_lit :: "string \<Rightarrow> rx" where
  "rx_lit w = rx_str (str w)"

definition rx_plus :: "rx \<Rightarrow> rx" where
  "rx_plus r = Cat r (Star r)"

definition rx_opt :: "rx \<Rightarrow> rx" where
  "rx_opt r = Alt r Eps"

fun rx_times :: "nat \<Rightarrow> rx \<Rightarrow> rx" where
  "rx_times 0 r = Eps"
| "rx_times (Suc n) r = Cat r (rx_times n r)"

text \<open>White space \<open>\s\<close> and its complement, \<open>\w\<close>, \<open>\d\<close>, and the dot.\<close>

definition space_ranges :: "(int \<times> int) list" where
  "space_ranges = [(9, 13), (28, 32), (133, 133), (160, 160), (5760, 5760), (8192, 8202),
     (8232, 8233), (8239, 8239), (8287, 8287), (12288, 12288)]"

definition word_ranges :: "(int \<times> int) list" where
  "word_ranges = [(48, 57), (65, 90), (95, 95), (97, 122)]"

definition rx_space :: rx where "rx_space = Cls False space_ranges"
definition rx_nonspace :: rx where "rx_nonspace = Cls True space_ranges"
definition rx_word :: rx where "rx_word = Cls False word_ranges"
definition rx_digit :: rx where "rx_digit = Cls False [(48, 57)]"
definition rx_dot :: rx where "rx_dot = Cls True [(10, 10)]"
definition rx_any :: rx where "rx_any = Cls True []"

lemma list_ex_Cons_Nil: "list_ex P (x # xs) \<longleftrightarrow> P x \<or> list_ex P xs" "list_ex P [] \<longleftrightarrow> False"
  by simp_all

lemma point_range: "(a::int) \<le> c \<and> c \<le> a \<longleftrightarrow> c = a"
  by auto

lemma in_cls_space: "in_cls False space_ranges c \<longleftrightarrow> is_space c"
proof -
  have "8232 \<le> c \<and> c \<le> 8233 \<longleftrightarrow> c = 8232 \<or> c = 8233" by arith
  then show ?thesis
    by (simp only: space_ranges_def is_space_def in_cls.simps list_ex_Cons_Nil point_range prod.case
        disj_assoc simp_thms)
qed

lemma in_cls_word: "in_cls False word_ranges c \<longleftrightarrow> is_word c"
  by (simp only: word_ranges_def is_word_def is_digit_def is_upper_def is_lower_def in_cls.simps
      list_ex_Cons_Nil point_range prod.case simp_thms) blast

section \<open>The matcher\<close>

type_synonym pos = "cp option \<times> pystr"
type_synonym mst = "cp option \<times> pystr \<times> (nat \<times> pystr) list"

definition word_opt :: "cp option \<Rightarrow> bool" where
  "word_opt p = (case p of None \<Rightarrow> False | Some c \<Rightarrow> is_word c)"

definition head_opt :: "pystr \<Rightarrow> cp option" where
  "head_opt s = (case s of [] \<Rightarrow> None | c # _ \<Rightarrow> Some c)"

definition rest_of :: "mst \<Rightarrow> pystr" where
  "rest_of m = fst (snd m)"

function (sequential) rxm :: "rx \<Rightarrow> mst \<Rightarrow> mst list" where
  "rxm Eps m = [m]"
| "rxm (Cls neg rs) (p, s, g) =
     (case s of [] \<Rightarrow> [] | c # cs \<Rightarrow> if in_cls neg rs c then [(Some c, cs, g)] else [])"
| "rxm (Cat a b) m = concat (map (rxm b) (rxm a m))"
| "rxm (Alt a b) m = rxm a m @ rxm b m"
| "rxm (Star a) m =
     concat (map (\<lambda>m'. if length (rest_of m') < length (rest_of m) then rxm (Star a) m' else [])
       (rxm a m)) @ [m]"
| "rxm (LStar a) m =
     m # concat (map (\<lambda>m'. if length (rest_of m') < length (rest_of m) then rxm (LStar a) m' else [])
       (rxm a m))"
| "rxm (Grp n a) (p, s, g) =
     map (\<lambda>(p', s', g'). (p', s', (n, take (length s - length s') s) # g')) (rxm a (p, s, g))"
| "rxm Bol (p, s, g) = (if p = None \<or> p = Some 10 then [(p, s, g)] else [])"
| "rxm Eol (p, s, g) = (if s = [] \<or> head_opt s = Some 10 then [(p, s, g)] else [])"
| "rxm Bot (p, s, g) = (if p = None then [(p, s, g)] else [])"
| "rxm Eot (p, s, g) = (if s = [] \<or> s = [10] then [(p, s, g)] else [])"
| "rxm WordB (p, s, g) = (if word_opt p \<noteq> word_opt (head_opt s) then [(p, s, g)] else [])"
| "rxm (NotAhead a) m = (if rxm a m = [] then [m] else [])"
  by pat_completeness auto
termination
  by (relation "measures [\<lambda>(r, m). size r, \<lambda>(r, m). length (rest_of m)]") auto

declare rxm.simps(5,6) [simp del]

text \<open>The first match at a position, the leftmost match, and a match of the whole text.\<close>

definition rx_match_at :: "rx \<Rightarrow> cp option \<Rightarrow> pystr \<Rightarrow> mst option" where
  "rx_match_at r p s = (case rxm r (p, s, []) of [] \<Rightarrow> None | m # _ \<Rightarrow> Some m)"

definition rx_match :: "rx \<Rightarrow> pystr \<Rightarrow> mst option" where
  "rx_match r s = rx_match_at r None s"

fun rx_search_from :: "rx \<Rightarrow> cp option \<Rightarrow> pystr \<Rightarrow> (pos \<times> mst) option" where
  "rx_search_from r p [] =
     (case rx_match_at r p [] of Some m \<Rightarrow> Some ((p, []), m) | None \<Rightarrow> None)"
| "rx_search_from r p (c # cs) =
     (case rx_match_at r p (c # cs) of
        Some m \<Rightarrow> Some ((p, c # cs), m)
      | None \<Rightarrow> rx_search_from r (Some c) cs)"

definition rx_search :: "rx \<Rightarrow> pystr \<Rightarrow> (pos \<times> mst) option" where
  "rx_search r s = rx_search_from r None s"

definition rx_found :: "rx \<Rightarrow> pystr \<Rightarrow> bool" where
  "rx_found r s \<longleftrightarrow> rx_search r s \<noteq> None"

definition rx_fullmatch :: "rx \<Rightarrow> pystr \<Rightarrow> bool" where
  "rx_fullmatch r s \<longleftrightarrow> list_ex (\<lambda>m. rest_of m = []) (rxm r (None, s, []))"

text \<open>\<open>m.group(n)\<close>: the latest capture of the group; \<open>m.group(0)\<close>, \<open>m.start()\<close> and \<open>m.end()\<close>.\<close>

definition group_of :: "nat \<Rightarrow> mst \<Rightarrow> pystr" where
  "group_of n m = (case map_of (snd (snd m)) n of Some t \<Rightarrow> t | None \<Rightarrow> [])"

definition match_text :: "pos \<times> mst \<Rightarrow> pystr" where
  "match_text x = (let s = snd (fst x) in take (length s - length (rest_of (snd x))) s)"

definition match_start :: "pystr \<Rightarrow> pos \<times> mst \<Rightarrow> int" where
  "match_start whole x = int (length whole) - int (length (snd (fst x)))"

definition match_end :: "pystr \<Rightarrow> pos \<times> mst \<Rightarrow> int" where
  "match_end whole x = int (length whole) - int (length (rest_of (snd x)))"

text \<open>
  \<open>finditer\<close>: the non-overlapping matches from left to right. A match that consumes nothing
  moves the scan on by one character; no pattern of the scripts matches the empty text.
\<close>

lemma rx_search_from_length:
  "rx_search_from r p s = Some ((q, t), m) \<Longrightarrow> length t \<le> length s"
proof (induction s arbitrary: p)
  case Nil
  then show ?case by (auto split: option.splits)
next
  case (Cons c cs)
  then show ?case by (auto split: option.splits intro: le_SucI)
qed

function rx_iter :: "rx \<Rightarrow> cp option \<Rightarrow> pystr \<Rightarrow> (pos \<times> mst) list" where
  "rx_iter r p s =
     (case rx_search_from r p s of
        None \<Rightarrow> []
      | Some ((q, t), m) \<Rightarrow>
          if length (rest_of m) < length t then ((q, t), m) # rx_iter r (fst m) (rest_of m)
          else (case t of [] \<Rightarrow> [((q, t), m)] | c # cs \<Rightarrow> ((q, t), m) # rx_iter r (Some c) cs))"
  by pat_completeness auto
termination
  by (relation "measure (\<lambda>(r, p, s). length s)") (auto dest: rx_search_from_length)

declare rx_iter.simps [simp del]

definition rx_finditer :: "rx \<Rightarrow> pystr \<Rightarrow> (pos \<times> mst) list" where
  "rx_finditer r s = rx_iter r None s"

text \<open>\<open>findall\<close> with one group, and with none.\<close>

definition rx_findall :: "nat \<Rightarrow> rx \<Rightarrow> pystr \<Rightarrow> pystr list" where
  "rx_findall n r s = map (\<lambda>x. group_of n (snd x)) (rx_finditer r s)"

definition rx_findall0 :: "rx \<Rightarrow> pystr \<Rightarrow> pystr list" where
  "rx_findall0 r s = map match_text (rx_finditer r s)"

text \<open>\<open>re.sub\<close> with a replacement that refers to no group.\<close>

function rx_sub_from :: "rx \<Rightarrow> pystr \<Rightarrow> cp option \<Rightarrow> pystr \<Rightarrow> pystr" where
  "rx_sub_from r new p s =
     (case rx_search_from r p s of
        None \<Rightarrow> s
      | Some ((q, t), m) \<Rightarrow>
          take (length s - length t) s @ new @
          (if length (rest_of m) < length t then rx_sub_from r new (fst m) (rest_of m)
           else (case t of [] \<Rightarrow> [] | c # cs \<Rightarrow> c # rx_sub_from r new (Some c) cs)))"
  by pat_completeness auto
termination
  by (relation "measure (\<lambda>(r, new, p, s). length s)") (auto dest: rx_search_from_length)

declare rx_sub_from.simps [simp del]

definition rx_sub :: "rx \<Rightarrow> pystr \<Rightarrow> pystr \<Rightarrow> pystr" where
  "rx_sub r new s = rx_sub_from r new None s"

section \<open>Which matches exist\<close>

inductive rx_rel :: "rx \<Rightarrow> pos \<Rightarrow> pos \<Rightarrow> bool" where
  rel_eps: "rx_rel Eps x x"
| rel_cls: "in_cls neg rs c \<Longrightarrow> rx_rel (Cls neg rs) (p, c # s) (Some c, s)"
| rel_cat: "rx_rel a x y \<Longrightarrow> rx_rel b y z \<Longrightarrow> rx_rel (Cat a b) x z"
| rel_alt1: "rx_rel a x y \<Longrightarrow> rx_rel (Alt a b) x y"
| rel_alt2: "rx_rel b x y \<Longrightarrow> rx_rel (Alt a b) x y"
| rel_star0: "rx_rel (Star a) x x"
| rel_star1: "rx_rel a x y \<Longrightarrow> length (snd y) < length (snd x) \<Longrightarrow> rx_rel (Star a) y z \<Longrightarrow> rx_rel (Star a) x z"
| rel_lstar0: "rx_rel (LStar a) x x"
| rel_lstar1: "rx_rel a x y \<Longrightarrow> length (snd y) < length (snd x) \<Longrightarrow> rx_rel (LStar a) y z \<Longrightarrow> rx_rel (LStar a) x z"
| rel_grp: "rx_rel a x y \<Longrightarrow> rx_rel (Grp n a) x y"
| rel_bol: "p = None \<or> p = Some 10 \<Longrightarrow> rx_rel Bol (p, s) (p, s)"
| rel_eol: "s = [] \<or> head_opt s = Some 10 \<Longrightarrow> rx_rel Eol (p, s) (p, s)"
| rel_bot: "rx_rel Bot (None, s) (None, s)"
| rel_eot: "s = [] \<or> s = [10] \<Longrightarrow> rx_rel Eot (p, s) (p, s)"
| rel_wordb: "word_opt p \<noteq> word_opt (head_opt s) \<Longrightarrow> rx_rel WordB (p, s) (p, s)"
| rel_notahead: "rxm a (fst x, snd x, []) = [] \<Longrightarrow> rx_rel (NotAhead a) x x"

inductive_cases rel_epsE [elim!]: "rx_rel Eps x y"
inductive_cases rel_clsE [elim!]: "rx_rel (Cls neg rs) x y"
inductive_cases rel_catE [elim!]: "rx_rel (Cat a b) x z"
inductive_cases rel_altE [elim!]: "rx_rel (Alt a b) x y"
inductive_cases rel_starE [elim]: "rx_rel (Star a) x y"
inductive_cases rel_lstarE [elim]: "rx_rel (LStar a) x y"
inductive_cases rel_grpE [elim!]: "rx_rel (Grp n a) x y"
inductive_cases rel_bolE [elim!]: "rx_rel Bol x y"
inductive_cases rel_eolE [elim!]: "rx_rel Eol x y"
inductive_cases rel_botE [elim!]: "rx_rel Bot x y"
inductive_cases rel_eotE [elim!]: "rx_rel Eot x y"
inductive_cases rel_wordbE [elim!]: "rx_rel WordB x y"
inductive_cases rel_notaheadE [elim!]: "rx_rel (NotAhead a) x y"

definition pos_of :: "mst \<Rightarrow> pos" where
  "pos_of m = (fst m, rest_of m)"

lemma pos_of_simps [simp]: "pos_of (p, s, g) = (p, s)" "rest_of (p, s, g) = s"
  by (simp_all add: pos_of_def rest_of_def)

lemma length_snd_pos [simp]: "snd (pos_of m) = rest_of m" "fst (pos_of m) = fst m"
  by (simp_all add: pos_of_def)

definition exact :: "rx \<Rightarrow> bool" where
  "exact r \<longleftrightarrow> (\<forall>m y. (y \<in> pos_of ` set (rxm r m)) \<longleftrightarrow> rx_rel r (pos_of m) y)"

lemma exactD: "exact r \<Longrightarrow> (y \<in> pos_of ` set (rxm r m)) \<longleftrightarrow> rx_rel r (pos_of m) y"
  unfolding exact_def by blast

lemma exactI: "(\<And>m y. (y \<in> pos_of ` set (rxm r m)) \<longleftrightarrow> rx_rel r (pos_of m) y) \<Longrightarrow> exact r"
  unfolding exact_def by blast

lemma exact_cat:
  assumes "exact a" and "exact b" shows "exact (Cat a b)"
proof (rule exactI)
  fix m y
  have "y \<in> pos_of ` set (rxm (Cat a b) m) \<longleftrightarrow> (\<exists>k \<in> set (rxm a m). y \<in> pos_of ` set (rxm b k))"
    by auto
  also have "\<dots> \<longleftrightarrow> (\<exists>x \<in> pos_of ` set (rxm a m). rx_rel b x y)"
    by (simp only: exactD [OF assms(2)] bex_simps)
  also have "\<dots> \<longleftrightarrow> rx_rel (Cat a b) (pos_of m) y"
    unfolding Bex_def exactD [OF assms(1)] by (blast intro: rel_cat)
  finally show "y \<in> pos_of ` set (rxm (Cat a b) m) \<longleftrightarrow> rx_rel (Cat a b) (pos_of m) y" .
qed

lemma exact_star:
  assumes a: "exact a" shows "exact (Star a)"
proof -
  have "y \<in> pos_of ` set (rxm (Star a) m) \<longleftrightarrow> rx_rel (Star a) (pos_of m) y" for m y
  proof (induction "length (rest_of m)" arbitrary: m rule: less_induct)
    case less
    have "y \<in> pos_of ` set (rxm (Star a) m) \<longleftrightarrow> y = pos_of m \<or>
        (\<exists>k \<in> set (rxm a m). length (rest_of k) < length (rest_of m) \<and> y \<in> pos_of ` set (rxm (Star a) k))"
      by (subst rxm.simps(5)) (auto split: if_splits)
    also have "\<dots> \<longleftrightarrow> y = pos_of m \<or>
        (\<exists>k \<in> set (rxm a m). length (rest_of k) < length (rest_of m) \<and> rx_rel (Star a) (pos_of k) y)"
      using less.hyps by blast
    also have "\<dots> \<longleftrightarrow> y = pos_of m \<or>
        (\<exists>x \<in> pos_of ` set (rxm a m). length (snd x) < length (snd (pos_of m)) \<and> rx_rel (Star a) x y)"
      by auto
    also have "\<dots> \<longleftrightarrow> rx_rel (Star a) (pos_of m) y"
      using exactD [OF a] by (blast intro: rel_star0 rel_star1 elim: rel_starE)
    finally show ?case .
  qed
  then show ?thesis by (rule exactI)
qed

lemma exact_lstar:
  assumes a: "exact a" shows "exact (LStar a)"
proof -
  have "y \<in> pos_of ` set (rxm (LStar a) m) \<longleftrightarrow> rx_rel (LStar a) (pos_of m) y" for m y
  proof (induction "length (rest_of m)" arbitrary: m rule: less_induct)
    case less
    have "y \<in> pos_of ` set (rxm (LStar a) m) \<longleftrightarrow> y = pos_of m \<or>
        (\<exists>k \<in> set (rxm a m). length (rest_of k) < length (rest_of m) \<and> y \<in> pos_of ` set (rxm (LStar a) k))"
      by (subst rxm.simps(6)) (auto split: if_splits)
    also have "\<dots> \<longleftrightarrow> y = pos_of m \<or>
        (\<exists>k \<in> set (rxm a m). length (rest_of k) < length (rest_of m) \<and> rx_rel (LStar a) (pos_of k) y)"
      using less.hyps by blast
    also have "\<dots> \<longleftrightarrow> y = pos_of m \<or>
        (\<exists>x \<in> pos_of ` set (rxm a m). length (snd x) < length (snd (pos_of m)) \<and> rx_rel (LStar a) x y)"
      by auto
    also have "\<dots> \<longleftrightarrow> rx_rel (LStar a) (pos_of m) y"
      using exactD [OF a] by (blast intro: rel_lstar0 rel_lstar1 elim: rel_lstarE)
    finally show ?case .
  qed
  then show ?thesis by (rule exactI)
qed

lemma exact_Nil: "exact a \<Longrightarrow> rxm a m = [] \<longleftrightarrow> (\<nexists>y. rx_rel a (pos_of m) y)"
  using exactD [of a] by (metis image_eqI image_is_empty empty_iff set_empty all_not_in_conv)

theorem rxm_exact: "exact r"
proof (induction r)
  case (Cat a b) then show ?case by (rule exact_cat)
next
  case (Star a) then show ?case by (rule exact_star)
next
  case (LStar a) then show ?case by (rule exact_lstar)
next
  case (NotAhead a)
  have "rxm a m = [] \<longleftrightarrow> rxm a (fst m, rest_of m, []) = []" for m
    using exact_Nil [OF NotAhead, of m] exact_Nil [OF NotAhead, of "(fst m, rest_of m, [])"]
    by (simp add: pos_of_def)
  then have "set (rxm (NotAhead a) m) = (if rxm a (fst m, rest_of m, []) = [] then {m} else {})" for m
    by simp
  then show ?case
    by (intro exactI) (auto intro!: rel_notahead)
next
  case (Grp n a)
  have "pos_of ` set (rxm (Grp n a) m) = pos_of ` set (rxm a m)" for m
    by (cases m) (force simp: image_iff)
  with Grp show ?case unfolding exact_def by (auto intro: rel_grp)
next
  case (Alt a b)
  then show ?case unfolding exact_def by (auto simp: image_Un intro: rel_alt1 rel_alt2)
qed (auto simp: exact_def intro: rx_rel.intros split: list.splits)

lemma rxm_iff: "(p', s') \<in> pos_of ` set (rxm r (p, s, g)) \<longleftrightarrow> rx_rel r (p, s) (p', s')"
  using exactD [OF rxm_exact] by force

lemma rxm_Nil_iff: "rxm r (p, s, g) = [] \<longleftrightarrow> (\<nexists>y. rx_rel r (p, s) y)"
  using exact_Nil [OF rxm_exact] by force

lemma rel_notahead_iff: "rx_rel (NotAhead a) x y \<longleftrightarrow> y = x \<and> (\<nexists>z. rx_rel a x z)"
  by (cases x) (auto simp: rxm_Nil_iff intro!: rel_notahead)

section \<open>What a match consumes\<close>

lemma rel_suffix: "rx_rel r x y \<Longrightarrow> \<exists>u. snd x = u @ snd y"
  by (induction rule: rx_rel.induct) auto

lemma rel_length: "rx_rel r x y \<Longrightarrow> length (snd y) \<le> length (snd x)"
  by (drule rel_suffix) auto

definition end_pos :: "cp option \<Rightarrow> pystr \<Rightarrow> pystr \<Rightarrow> pos" where
  "end_pos p u s' = ((if u = [] then p else Some (last u)), s')"

lemma end_pos_Nil [simp]: "end_pos p [] s = (p, s)"
  by (simp add: end_pos_def)

lemma end_pos_Cons [simp]: "end_pos p (c # u) s = end_pos (Some c) u s"
  by (simp add: end_pos_def)

lemma snd_end_pos [simp]: "snd (end_pos p u s) = s"
  by (simp add: end_pos_def)

lemma end_pos_append: "end_pos (fst (end_pos p u t)) v s = end_pos p (u @ v) s"
  by (auto simp: end_pos_def)

lemma rel_end_pos: "rx_rel r x y \<Longrightarrow> \<exists>u. snd x = u @ snd y \<and> y = end_pos (fst x) u (snd y)"
proof (induction rule: rx_rel.induct)
  case (rel_cat a x y b z)
  then show ?case by (metis append_assoc end_pos_append)
next
  case (rel_star1 a x y z)
  then show ?case by (metis append_assoc end_pos_append)
next
  case (rel_lstar1 a x y z)
  then show ?case by (metis append_assoc end_pos_append)
next
  case (rel_cls neg rs c p s)
  show ?case by (rule exI [of _ "[c]"]) (simp add: end_pos_def)
qed (auto intro!: exI [of _ "[]"] simp: end_pos_def)

text \<open>The matches of the building blocks, as facts about the consumed text.\<close>

lemma rel_cls_iff: "rx_rel (Cls neg rs) (p, s) y \<longleftrightarrow> (\<exists>c t. s = c # t \<and> in_cls neg rs c \<and> y = (Some c, t))"
  by (auto intro: rel_cls)

lemma rel_chr_iff: "rx_rel (rx_chr c) (p, s) y \<longleftrightarrow> (\<exists>t. s = c # t \<and> y = (Some c, t))"
  by (auto simp: rx_chr_def rel_cls_iff in_cls.simps)

lemma rel_cat_iff: "rx_rel (Cat a b) x z \<longleftrightarrow> (\<exists>y. rx_rel a x y \<and> rx_rel b y z)"
  by (auto intro: rel_cat)

lemma rel_alt_iff: "rx_rel (Alt a b) x y \<longleftrightarrow> rx_rel a x y \<or> rx_rel b x y"
  by (auto intro: rel_alt1 rel_alt2)

lemma rel_eps_iff: "rx_rel Eps x y \<longleftrightarrow> y = x"
  by (auto intro: rel_eps)

lemma rel_grp_iff: "rx_rel (Grp n a) x y \<longleftrightarrow> rx_rel a x y"
  by (auto intro: rel_grp)

lemma rel_bol_iff: "rx_rel Bol (p, s) y \<longleftrightarrow> (p = None \<or> p = Some 10) \<and> y = (p, s)"
  by (auto intro: rel_bol)

lemma rel_bot_iff: "rx_rel Bot (p, s) y \<longleftrightarrow> p = None \<and> y = (p, s)"
  by (auto intro: rel_bot)

lemma rel_eot_iff: "rx_rel Eot (p, s) y \<longleftrightarrow> (s = [] \<or> s = [10]) \<and> y = (p, s)"
  by (auto intro: rel_eot)

lemma rel_wordb_iff: "rx_rel WordB (p, s) y \<longleftrightarrow> word_opt p \<noteq> word_opt (head_opt s) \<and> y = (p, s)"
  by (auto intro: rel_wordb)

lemma rel_opt_iff: "rx_rel (rx_opt a) x y \<longleftrightarrow> rx_rel a x y \<or> y = x"
  by (simp add: rx_opt_def rel_alt_iff rel_eps_iff)

lemma rel_str_iff: "rx_rel (rx_str w) (p, s) y \<longleftrightarrow> (\<exists>t. s = w @ t \<and> y = end_pos p w t)"
proof (induction w arbitrary: p s)
  case Nil
  then show ?case by (auto simp: rx_str_def rel_eps_iff)
next
  case (Cons c w)
  have "rx_rel (rx_str (c # w)) (p, s) y \<longleftrightarrow> (\<exists>t. s = c # t \<and> rx_rel (rx_str w) (Some c, t) y)"
    by (auto simp: rx_str_def rel_cat_iff rel_chr_iff)
  also have "\<dots> \<longleftrightarrow> (\<exists>t. s = c # w @ t \<and> y = end_pos (Some c) w t)"
    by (auto simp: Cons.IH)
  finally show ?case by simp
qed

text \<open>A greedy or reluctant repetition of a class consumes a run of its characters.\<close>

lemma rel_star_cls_sound:
  "rx_rel r x y \<Longrightarrow> r = Star (Cls neg rs) \<Longrightarrow>
     \<exists>u. snd x = u @ snd y \<and> (\<forall>c \<in> set u. in_cls neg rs c) \<and> y = end_pos (fst x) u (snd y)"
proof (induction rule: rx_rel.induct)
  case (rel_star0 a x)
  show ?case by (rule exI [of _ "[]"]) (simp add: end_pos_def)
next
  case (rel_star1 a x y z)
  then obtain u where u: "snd y = u @ snd z" "\<forall>c \<in> set u. in_cls neg rs c" "z = end_pos (fst y) u (snd z)"
    by blast
  from rel_star1 obtain p c t where "x = (p, c # t)" "in_cls neg rs c" "y = (Some c, t)"
    by (cases x) (auto simp: rel_cls_iff)
  with u show ?case
    by (intro exI [of _ "c # u"]) (auto simp: end_pos_def)
qed auto

lemma rel_star_cls_complete:
  "\<forall>c \<in> set u. in_cls neg rs c \<Longrightarrow> rx_rel (Star (Cls neg rs)) (p, u @ t) (end_pos p u t)"
proof (induction u arbitrary: p)
  case Nil
  then show ?case by (simp add: rel_star0)
next
  case (Cons c u)
  have one: "rx_rel (Cls neg rs) (p, c # u @ t) (Some c, u @ t)" using Cons.prems by (simp add: rel_cls)
  have more: "rx_rel (Star (Cls neg rs)) (Some c, u @ t) (end_pos (Some c) u t)"
    using Cons by simp
  show ?case using rel_star1 [OF one _ more] by simp
qed

lemma rel_star_cls_iff:
  "rx_rel (Star (Cls neg rs)) (p, s) y \<longleftrightarrow>
     (\<exists>u t. s = u @ t \<and> (\<forall>c \<in> set u. in_cls neg rs c) \<and> y = end_pos p u t)"
proof
  assume "rx_rel (Star (Cls neg rs)) (p, s) y"
  from rel_star_cls_sound [OF this refl]
  show "\<exists>u t. s = u @ t \<and> (\<forall>c \<in> set u. in_cls neg rs c) \<and> y = end_pos p u t"
    by (metis fst_conv snd_conv)
qed (auto intro: rel_star_cls_complete)

lemma rel_plus_cls_iff:
  "rx_rel (rx_plus (Cls neg rs)) (p, s) y \<longleftrightarrow>
     (\<exists>u t. s = u @ t \<and> u \<noteq> [] \<and> (\<forall>c \<in> set u. in_cls neg rs c) \<and> y = end_pos p u t)"
proof -
  have "rx_rel (rx_plus (Cls neg rs)) (p, s) y \<longleftrightarrow>
      (\<exists>c u t. s = c # u @ t \<and> in_cls neg rs c \<and> (\<forall>d \<in> set u. in_cls neg rs d) \<and> y = end_pos (Some c) u t)"
    by (auto simp: rx_plus_def rel_cat_iff rel_cls_iff rel_star_cls_iff)
  also have "\<dots> \<longleftrightarrow>
      (\<exists>u t. s = u @ t \<and> u \<noteq> [] \<and> (\<forall>c \<in> set u. in_cls neg rs c) \<and> y = end_pos p u t)"
    (is "?l \<longleftrightarrow> ?r")
  proof
    assume ?l
    then obtain c u t where "s = (c # u) @ t" "in_cls neg rs c" "\<forall>d \<in> set u. in_cls neg rs d"
      "y = end_pos p (c # u) t" by auto
    then show ?r by (metis list.distinct(1) set_ConsD)
  next
    assume ?r
    then obtain u t where u: "s = u @ t" "u \<noteq> []" "\<forall>c \<in> set u. in_cls neg rs c" "y = end_pos p u t" by blast
    then show ?l by (cases u) auto
  qed
  finally show ?thesis .
qed

text \<open>Whether a concatenation matches, one factor at a time.\<close>

definition rx_can :: "rx \<Rightarrow> pos \<Rightarrow> bool" where
  "rx_can r x \<longleftrightarrow> (\<exists>y. rx_rel r x y)"

lemma can_cat: "rx_can (Cat a b) x \<longleftrightarrow> (\<exists>y. rx_rel a x y \<and> rx_can b y)"
  by (auto simp: rx_can_def rel_cat_iff)

lemma can_bol: "rx_can (Cat Bol b) (p, s) \<longleftrightarrow> (p = None \<or> p = Some 10) \<and> rx_can b (p, s)"
  unfolding can_cat rel_bol_iff by blast

lemma can_bot: "rx_can (Cat Bot b) (p, s) \<longleftrightarrow> p = None \<and> rx_can b (p, s)"
  unfolding can_cat rel_bot_iff by blast

lemma can_star_cls:
  "rx_can (Cat (Star (Cls neg rs)) b) (p, s) \<longleftrightarrow>
     (\<exists>u t. s = u @ t \<and> (\<forall>c \<in> set u. in_cls neg rs c) \<and> rx_can b (end_pos p u t))"
  unfolding can_cat rel_star_cls_iff by blast

lemma can_plus_cls:
  "rx_can (Cat (rx_plus (Cls neg rs)) b) (p, s) \<longleftrightarrow>
     (\<exists>u t. s = u @ t \<and> u \<noteq> [] \<and> (\<forall>c \<in> set u. in_cls neg rs c) \<and> rx_can b (end_pos p u t))"
  unfolding can_cat rel_plus_cls_iff by blast

lemma can_cls:
  "rx_can (Cat (Cls neg rs) b) (p, s) \<longleftrightarrow> (\<exists>c t. s = c # t \<and> in_cls neg rs c \<and> rx_can b (Some c, t))"
  unfolding can_cat rel_cls_iff by blast

lemma can_str:
  "rx_can (Cat (rx_str w) b) (p, s) \<longleftrightarrow> (\<exists>t. s = w @ t \<and> rx_can b (end_pos p w t))"
  unfolding can_cat rel_str_iff by blast

lemma can_grp: "rx_can (Cat (Grp n a) b) x \<longleftrightarrow> rx_can (Cat a b) x"
  unfolding can_cat rel_grp_iff ..

lemma can_plus_cls_last:
  "rx_can (rx_plus (Cls neg rs)) (p, s) \<longleftrightarrow> (\<exists>u t. s = u @ t \<and> u \<noteq> [] \<and> (\<forall>c \<in> set u. in_cls neg rs c))"
  unfolding rx_can_def rel_plus_cls_iff by blast

lemma can_str_last: "rx_can (rx_str w) (p, s) \<longleftrightarrow> (\<exists>t. s = w @ t)"
  unfolding rx_can_def rel_str_iff by blast

lemma can_notahead_last: "rx_can (NotAhead a) x \<longleftrightarrow> \<not> rx_can a x"
  by (auto simp: rx_can_def rel_notahead_iff)

lemma can_cls_last: "rx_can (Cls neg rs) (p, s) \<longleftrightarrow> (\<exists>c t. s = c # t \<and> in_cls neg rs c)"
  unfolding rx_can_def rel_cls_iff by blast

lemmas can_simps = can_bol can_bot can_star_cls can_plus_cls can_cls can_str can_grp
  can_plus_cls_last can_str_last can_notahead_last can_cls_last

section \<open>Searching\<close>

lemma rx_match_at_None: "rx_match_at r p s = None \<longleftrightarrow> (\<nexists>y. rx_rel r (p, s) y)"
  using rxm_Nil_iff [of r p s "[]"] by (auto simp: rx_match_at_def split: list.splits)

lemma rx_match_at_Some: "rx_match_at r p s = Some m \<Longrightarrow> rx_rel r (p, s) (pos_of m)"
  using exactD [OF rxm_exact, of "pos_of m" r "(p, s, [])"]
  by (auto simp: rx_match_at_def split: list.splits)

text \<open>The position reached after consuming a prefix of the text.\<close>

definition pos_after :: "cp option \<Rightarrow> pystr \<Rightarrow> cp option" where
  "pos_after p u = (if u = [] then p else Some (last u))"

lemma rx_search_from_Some:
  "rx_search_from r p s = Some ((q, t), m) \<Longrightarrow>
     \<exists>u. s = u @ t \<and> q = pos_after p u \<and> rx_match_at r q t = Some m \<and>
         (\<forall>v w. u = v @ w \<longrightarrow> w \<noteq> [] \<longrightarrow> (\<nexists>y. rx_rel r (pos_after p v, w @ t) y))"
proof (induction s arbitrary: p)
  case Nil
  then show ?case by (intro exI [of _ "[]"]) (auto simp: pos_after_def split: option.splits)
next
  case (Cons c cs)
  show ?case
  proof (cases "rx_match_at r p (c # cs)")
    case (Some m')
    with Cons.prems show ?thesis by (intro exI [of _ "[]"]) (simp add: pos_after_def)
  next
    case None
    with Cons.prems have "rx_search_from r (Some c) cs = Some ((q, t), m)" by simp
    from Cons.IH [OF this] obtain u where u: "cs = u @ t" "q = pos_after (Some c) u"
      "rx_match_at r q t = Some m"
      "\<And>v w. u = v @ w \<Longrightarrow> w \<noteq> [] \<Longrightarrow> (\<nexists>y. rx_rel r (pos_after (Some c) v, w @ t) y)" by blast
    have "\<nexists>y. rx_rel r (pos_after p v, w @ t) y" if "c # u = v @ w" "w \<noteq> []" for v w
    proof (cases v)
      case Nil
      with that(1) have "w @ t = c # cs" using u(1) by auto
      with Nil None show ?thesis by (simp add: rx_match_at_None pos_after_def)
    next
      case (Cons d v')
      with that have "u = v' @ w" "d = c" by auto
      moreover have "pos_after p v = pos_after (Some c) v'" using Cons \<open>d = c\<close> by (simp add: pos_after_def)
      ultimately show ?thesis using u(4) that(2) by simp
    qed
    with u show ?thesis by (intro exI [of _ "c # u"]) (auto simp: pos_after_def)
  qed
qed

lemma rx_search_from_None:
  "rx_search_from r p s = None \<longleftrightarrow> (\<forall>u t. s = u @ t \<longrightarrow> (\<nexists>y. rx_rel r (pos_after p u, t) y))"
proof (induction s arbitrary: p)
  case Nil
  show ?case
    using rx_match_at_None [of r p "[]"]
    by (cases "rx_match_at r p []") (simp_all add: pos_after_def)
next
  case (Cons c cs)
  have "(\<forall>u t. c # cs = u @ t \<longrightarrow> (\<nexists>y. rx_rel r (pos_after p u, t) y)) \<longleftrightarrow>
     (\<nexists>y. rx_rel r (p, c # cs) y) \<and> (\<forall>u t. cs = u @ t \<longrightarrow> (\<nexists>y. rx_rel r (pos_after (Some c) u, t) y))"
    unfolding all_Cons_append by (simp add: pos_after_def if_distrib [of Some] cong: if_cong)
  then show ?case
    using rx_match_at_None [of r p "c # cs"] by (cases "rx_match_at r p (c # cs)") (simp_all add: Cons.IH)
qed

lemma rx_found_iff:
  "rx_found r s \<longleftrightarrow> (\<exists>u t y. s = u @ t \<and> rx_rel r (pos_after None u, t) y)"
  using rx_search_from_None [of r None s] by (auto simp: rx_found_def rx_search_def)

lemma rx_found_can: "rx_found r s \<longleftrightarrow> (\<exists>u t. s = u @ t \<and> rx_can r (pos_after None u, t))"
  unfolding rx_found_iff rx_can_def by blast

lemma rx_match_can: "rx_match r s \<noteq> None \<longleftrightarrow> rx_can r (None, s)"
  unfolding rx_match_def rx_can_def by (simp add: rx_match_at_None)

text \<open>A literal pattern is found exactly in the texts that contain it.\<close>

lemma rx_found_str: "rx_found (rx_str w) s \<longleftrightarrow> contains s w"
proof -
  have "rx_found (rx_str w) s \<longleftrightarrow> (\<exists>u t. s = u @ t \<and> (\<exists>t'. t = w @ t'))"
    unfolding rx_found_iff rel_str_iff by blast
  then show ?thesis by (auto simp: contains_def sublist_def)
qed

lemma rx_fullmatch_iff: "rx_fullmatch r s \<longleftrightarrow> (\<exists>q. rx_rel r (None, s) (q, []))"
proof -
  have "rx_fullmatch r s \<longleftrightarrow> (\<exists>q. (q, []) \<in> pos_of ` set (rxm r (None, s, [])))"
    by (force simp: rx_fullmatch_def list_ex_iff pos_of_def)
  then show ?thesis by (simp only: rxm_iff)
qed

end
