(* ===== verification/Repo_Model.thy ===== *)
theory Repo_Model
  imports Utf8 Py_Regex
begin

text \<open>
  What the scripts run against, and how a script ends. The world is the checked-out tree, the
  build directory and the external tools; a check of a script is a function of the world that
  returns the lines it prints and the exception that ended it, if one did.

  \<^item> A path is the text of its position below \<open>ROOT\<close>, with \<open>/\<close> between components;
    \<open>root_parts\<close> holds the components of \<open>ROOT\<close> itself, which \<open>Path.parts\<close> of an absolute
    path includes. A path that begins with \<open>/\<close> is a file of the host outside \<open>ROOT\<close>, which no
    listing of the tree returns.
  \<^item> The order of \<open>tree\<close> is the order in which the operating system lists the tree, which
    Python's \<open>glob\<close> and \<open>rglob\<close> do not fix.
  \<^item> An external program (\<open>objdump\<close>, \<open>nm\<close>, \<open>readelf\<close>, \<open>git\<close>, the built binaries, the
    unit tests) is the field \<open>proc\<close>: a function of the command line, since none of their
    sources are part of the scripts.
  \<^item> A printed line is its constant text with the values substituted into it.
\<close>

section \<open>The world\<close>

datatype node = Directory | File (content: bytes) (mode: int)

datatype procres = Done (returncode: int) (stdout: pystr) (stderr: pystr) | TimedOut | NotFound

record repo =
  root_parts :: "pystr list"
  tree :: "(pystr \<times> node) list"
  build_dir :: pystr
  build_tree :: "(pystr \<times> node) list"
  proc :: "pystr list \<Rightarrow> procres"

datatype pyexn =
    GateError string "pystr list"
  | ValidationError string "pystr list"
  | AuditError string "pystr list"
  | OsError pystr
  | DecodeError pystr
  | JsonError pystr
  | SyntaxErr pystr
  | ValueErr string
  | KeyErr pystr
  | IndexErr
  | TypeErr
  | AttrErr
  | TimeoutErr

section \<open>Paths\<close>

definition parts :: "pystr \<Rightarrow> pystr list" where
  "parts p = (if p = [] then [] else split_str (str ''/'') p)"

definition abs_parts :: "repo \<Rightarrow> pystr \<Rightarrow> pystr list" where
  "abs_parts w p = root_parts w @ parts p"

definition path_name :: "pystr \<Rightarrow> pystr" where
  "path_name p = (case parts p of [] \<Rightarrow> [] | x # xs \<Rightarrow> last (x # xs))"

text \<open>\<open>Path.suffix\<close>: from the last dot of the name, unless the dot is its first or last character.\<close>

definition path_suffix :: "pystr \<Rightarrow> pystr" where
  "path_suffix p =
     (let n = path_name p;
          ext = takeWhile (\<lambda>c. c \<noteq> 46) (rev n);
          stem = length n - length ext - 1
      in if length ext = length n \<or> ext = [] \<or> stem = 0 then [] else 46 # rev ext)"

text \<open>\<open>sorted\<close> on paths compares their components.\<close>

definition sort_paths :: "pystr list \<Rightarrow> pystr list" where
  "sort_paths ps = sort_key parts ps"

lemma set_sort_paths [simp]: "set (sort_paths ps) = set ps"
  by (simp add: sort_paths_def)

section \<open>Files\<close>

definition node_at :: "repo \<Rightarrow> pystr \<Rightarrow> node option" where
  "node_at w p = map_of (tree w) p"

definition is_file :: "repo \<Rightarrow> pystr \<Rightarrow> bool" where
  "is_file w p = (case node_at w p of Some (File _ _) \<Rightarrow> True | _ \<Rightarrow> False)"

definition is_dir :: "repo \<Rightarrow> pystr \<Rightarrow> bool" where
  "is_dir w p = (node_at w p = Some Directory)"

definition build_is_file :: "repo \<Rightarrow> pystr \<Rightarrow> bool" where
  "build_is_file w p = (case map_of (build_tree w) p of Some (File _ _) \<Rightarrow> True | _ \<Rightarrow> False)"

definition path_exists :: "repo \<Rightarrow> pystr \<Rightarrow> bool" where
  "path_exists w p \<longleftrightarrow> node_at w p \<noteq> None"

definition build_exists :: "repo \<Rightarrow> pystr \<Rightarrow> bool" where
  "build_exists w p \<longleftrightarrow> map_of (build_tree w) p \<noteq> None"

text \<open>The absolute path of a build product, as the scripts pass it to a tool.\<close>

definition build_path :: "repo \<Rightarrow> pystr \<Rightarrow> pystr" where
  "build_path w p = build_dir w @ str ''/'' @ p"

definition decode_text :: "bytes \<Rightarrow> pystr option" where
  "decode_text bs = map_option universal_newlines (utf8_decode bs)"

definition read_bytes :: "repo \<Rightarrow> pystr \<Rightarrow> pyexn + bytes" where
  "read_bytes w p = (case node_at w p of Some (File b _) \<Rightarrow> Inr b | _ \<Rightarrow> Inl (OsError p))"

definition read_text :: "repo \<Rightarrow> pystr \<Rightarrow> pyexn + pystr" where
  "read_text w p =
     (case read_bytes w p of
        Inl e \<Rightarrow> Inl e
      | Inr b \<Rightarrow> (case decode_text b of None \<Rightarrow> Inl (DecodeError p) | Some t \<Rightarrow> Inr t))"

text \<open>Reading a list of files, in order; the first failure ends it.\<close>

fun read_all :: "repo \<Rightarrow> pystr list \<Rightarrow> pyexn + (pystr \<times> pystr) list" where
  "read_all w [] = Inr []"
| "read_all w (p # ps) =
     (case read_text w p of
        Inl e \<Rightarrow> Inl e
      | Inr t \<Rightarrow> (case read_all w ps of Inl e \<Rightarrow> Inl e | Inr ts \<Rightarrow> Inr ((p, t) # ts)))"

lemma read_all_Inr:
  "read_all w ps = Inr ts \<Longrightarrow> map fst ts = ps \<and> (\<forall>(p, t) \<in> set ts. read_text w p = Inr t)"
  by (induction ps arbitrary: ts) (auto split: sum.splits)

section \<open>Globs\<close>

text \<open>One component of a pattern: \<open>*\<close> stands for any run of characters.\<close>

fun glob_part :: "pystr \<Rightarrow> pystr \<Rightarrow> bool" where
  "glob_part [] s = (s = [])"
| "glob_part (c # cs) s =
     (if c = 42 then
        glob_part cs s \<or> (case s of [] \<Rightarrow> False | _ # t \<Rightarrow> glob_part (c # cs) t)
      else (case s of [] \<Rightarrow> False | d # t \<Rightarrow> c = d \<and> glob_part cs t))"

text \<open>A pattern of components; \<open>**\<close> stands for any number of directories.\<close>

fun glob_parts :: "pystr list \<Rightarrow> pystr list \<Rightarrow> bool" where
  "glob_parts [] qs = (qs = [])"
| "glob_parts (p # ps) qs =
     (if p = [42, 42] then
        glob_parts ps qs \<or> (case qs of [] \<Rightarrow> False | _ # rs \<Rightarrow> glob_parts (p # ps) rs)
      else (case qs of [] \<Rightarrow> False | q # rs \<Rightarrow> glob_part p q \<and> glob_parts ps rs))"

definition glob :: "repo \<Rightarrow> pystr \<Rightarrow> pystr list" where
  "glob w pat =
     filter (\<lambda>p. \<not> startswith p (str ''/'') \<and> glob_parts (parts pat) (parts p)) (map fst (tree w))"

lemma glob_in_tree: "p \<in> set (glob w pat) \<Longrightarrow> p \<in> fst ` set (tree w)"
  by (auto simp: glob_def)

section \<open>Outcomes\<close>

datatype event = Fail string "pystr list" | Okay string "int list"

type_synonym outcome = "event list \<times> pyexn option"

fun is_fail :: "event \<Rightarrow> bool" where
  "is_fail (Fail _ _) = True"
| "is_fail (Okay _ _) = False"

definition passed :: "outcome \<Rightarrow> bool" where
  "passed r \<longleftrightarrow> snd r = None \<and> \<not> list_ex is_fail (fst r)"

definition nothing :: outcome where "nothing = ([], None)"
definition okay :: "string \<Rightarrow> int list \<Rightarrow> outcome" where "okay l ns = ([Okay l ns], None)"
definition failed :: "string \<Rightarrow> pystr list \<Rightarrow> outcome" where "failed m as = ([Fail m as], None)"
definition raised :: "pyexn \<Rightarrow> outcome" where "raised e = ([], Some e)"

text \<open>Statements in sequence: an exception ends the run.\<close>

definition and_then :: "outcome \<Rightarrow> outcome \<Rightarrow> outcome" where
  "and_then a b = (case snd a of Some e \<Rightarrow> a | None \<Rightarrow> (fst a @ fst b, snd b))"

definition run_all :: "outcome list \<Rightarrow> outcome" where
  "run_all rs = foldr and_then rs nothing"

lemma passed_simps [simp, outcome_simps]:
  "passed nothing" "passed (okay l ns)" "\<not> passed (failed m as)" "\<not> passed (raised e)"
  by (simp_all add: passed_def nothing_def okay_def failed_def raised_def)

lemma passed_and_then [simp, outcome_simps]: "passed (and_then a b) \<longleftrightarrow> passed a \<and> passed b"
  by (auto simp: passed_def and_then_def split: option.splits)

lemma passed_run_all [simp, outcome_simps]: "passed (run_all rs) \<longleftrightarrow> (\<forall>r \<in> set rs. passed r)"
  by (induction rs) (auto simp: run_all_def)

text \<open>Reading a file, then going on with its text.\<close>

definition reading :: "repo \<Rightarrow> string \<Rightarrow> (pystr \<Rightarrow> outcome) \<Rightarrow> outcome" where
  "reading w p k = (case read_text w (str p) of Inl e \<Rightarrow> raised e | Inr t \<Rightarrow> k t)"

lemma passed_reading [simp, outcome_simps]:
  "passed (reading w p k) \<longleftrightarrow> (\<exists>t. read_text w (str p) = Inr t \<and> passed (k t))"
  by (auto simp: reading_def split: sum.splits)

text \<open>Reading a file of any path.\<close>

definition reading_path :: "repo \<Rightarrow> pystr \<Rightarrow> (pystr \<Rightarrow> outcome) \<Rightarrow> outcome" where
  "reading_path w p k = (case read_text w p of Inl e \<Rightarrow> raised e | Inr t \<Rightarrow> k t)"

lemma passed_reading_path [simp, outcome_simps]:
  "passed (reading_path w p k) \<longleftrightarrow> (\<exists>t. read_text w p = Inr t \<and> passed (k t))"
  by (auto simp: reading_path_def split: sum.splits)

text \<open>A loop over a list whose body may fail or raise.\<close>

definition for_each :: "'a list \<Rightarrow> ('a \<Rightarrow> outcome) \<Rightarrow> outcome" where
  "for_each xs f = run_all (map f xs)"

lemma passed_for_each [simp, outcome_simps]: "passed (for_each xs f) \<longleftrightarrow> (\<forall>x \<in> set xs. passed (f x))"
  by (simp add: for_each_def)

lemma passed_if [outcome_simps]: "passed (if b then x else y) \<longleftrightarrow> (if b then passed x else passed y)"
  by simp

section \<open>How a gate ends\<close>

text \<open>
  The scripts end in one of two ways. A gate with a module flag \<open>FAILED\<close> runs every check and
  returns 1 when one of them called \<open>fail\<close>; an uncaught exception is a traceback, which is
  exit status 1 as well. A gate that raises stops at the first check that does, having
  printed the labels of those before it.
\<close>

definition gate_exit :: "outcome \<Rightarrow> int" where
  "gate_exit r = (if snd r \<noteq> None then 1 else if list_ex is_fail (fst r) then 1 else 0)"

lemma gate_exit_0: "gate_exit r = 0 \<longleftrightarrow> passed r"
  by (auto simp: gate_exit_def passed_def)

fun run_labelled :: "(string \<times> outcome) list \<Rightarrow> string list \<times> int" where
  "run_labelled [] = ([], 0)"
| "run_labelled ((l, r) # rest) =
     (if passed r then (let (ls, x) = run_labelled rest in (l # ls, x)) else ([], 1))"

lemma run_labelled_0: "snd (run_labelled cs) = 0 \<longleftrightarrow> (\<forall>(l, r) \<in> set cs. passed r)"
  by (induction cs rule: run_labelled.induct) (auto split: prod.splits)

lemma run_labelled_code: "snd (run_labelled cs) = 0 \<or> snd (run_labelled cs) = 1"
  by (induction cs rule: run_labelled.induct) (auto split: prod.splits)

lemma run_labelled_labels:
  "fst (run_labelled cs) = map fst (takeWhile (\<lambda>(l, r). passed r) cs)"
  by (induction cs rule: run_labelled.induct) (auto split: prod.splits)

text \<open>The contract of a gate that accumulates failures.\<close>

locale accumulating_gate =
  fixes checks :: "repo \<Rightarrow> outcome list" and main :: "repo \<Rightarrow> int"
  assumes main_exit: "main w = gate_exit (run_all (checks w))"
begin

lemma exit_zero: "main w = 0 \<longleftrightarrow> (\<forall>c \<in> set (checks w). passed c)"
  by (simp add: main_exit gate_exit_0)

lemma exit_code: "main w = 0 \<or> main w = 1"
  by (simp add: main_exit gate_exit_def)

lemma failure_is_reported: "c \<in> set (checks w) \<Longrightarrow> \<not> passed c \<Longrightarrow> main w = 1"
  using exit_zero exit_code by blast

end

text \<open>The contract of a gate that stops at the first failure.\<close>

locale fail_fast_gate =
  fixes checks :: "repo \<Rightarrow> (string \<times> outcome) list" and main :: "repo \<Rightarrow> string list \<times> int"
  assumes main_runs: "main w = run_labelled (checks w)"
begin

lemma stops_at_first:
  "fst (main w) = map fst (takeWhile (\<lambda>(l, r). passed r) (checks w))"
  by (simp add: main_runs run_labelled_labels)

lemma all_or_nothing:
  "snd (main w) = (if \<forall>(l, r) \<in> set (checks w). passed r then 0 else 1)"
  using run_labelled_0 [of "checks w"] run_labelled_code [of "checks w"] by (auto simp: main_runs)

lemma all_labels: "snd (main w) = 0 \<Longrightarrow> fst (main w) = map fst (checks w)"
  unfolding main_runs run_labelled_labels run_labelled_0 by (simp add: takeWhile_eq_all_conv [THEN iffD2])

end

end
