(* ===== verification/Abi_Audit.thy ===== *)
theory Abi_Audit
  imports Repo_Model "HOL-Library.Multiset"
begin

text \<open>
  \<open>scripts/abi_audit.py\<close>: the static audit of the callee-saved registers. The disassembly and
  the symbol table come from \<open>objdump\<close> and \<open>nm\<close>, which are tools of the world; parsing them,
  classifying each function and deciding the verdict are modelled here.

  The last section runs push and pop on a register file, to say what the accepted epilogues
  do to the registers of the caller.
\<close>

section \<open>Registers and instructions\<close>

type_synonym insn = "pystr \<times> pystr"

definition CALLEE_SAVED :: "pystr list" where
  "CALLEE_SAVED = map str [''rbx'', ''rbp'', ''r12'', ''r13'', ''r14'', ''r15'']"

definition EXEMPT :: "pystr list" where
  "EXEMPT = [str ''af_abi_bad_callee'']"

definition ALIASES :: "(pystr \<times> pystr) list" where
  "ALIASES = map (\<lambda>(a, b). (str a, str b))
     [(''ebx'', ''rbx''), (''bx'', ''rbx''), (''bl'', ''rbx''), (''bh'', ''rbx''),
      (''ebp'', ''rbp''), (''bp'', ''rbp''), (''bpl'', ''rbp''),
      (''r12d'', ''r12''), (''r12w'', ''r12''), (''r12b'', ''r12''),
      (''r13d'', ''r13''), (''r13w'', ''r13''), (''r13b'', ''r13''),
      (''r14d'', ''r14''), (''r14w'', ''r14''), (''r14b'', ''r14''),
      (''r15d'', ''r15''), (''r15w'', ''r15''), (''r15b'', ''r15'')]"

definition EXPECTED_PROLOGUE :: "insn list" where
  "EXPECTED_PROLOGUE = map (\<lambda>(a, b). (str a, str b))
     [(''push'', ''rbp''), (''mov'', ''rbp,rsp''), (''push'', ''rbx''), (''push'', ''r12''),
      (''push'', ''r13''), (''push'', ''r14''), (''push'', ''r15'')]"

definition WRITE_FIRST_OPERAND :: "pystr list" where
  "WRITE_FIRST_OPERAND = map str
     [''mov'', ''movzx'', ''movsx'', ''movsxd'', ''lea'', ''add'', ''sub'', ''and'', ''or'', ''xor'',
      ''adc'', ''sbb'', ''inc'', ''dec'', ''neg'', ''not'', ''shl'', ''shr'', ''sar'', ''rol'', ''ror'',
      ''imul'', ''xchg'', ''sete'', ''setne'', ''seta'', ''setae'', ''setb'', ''setbe'', ''setg'',
      ''setge'', ''setl'', ''setle'', ''setz'', ''setnz'', ''cmov'', ''bswap'', ''pop'']"

definition canonical :: "pystr \<Rightarrow> pystr option" where
  "canonical r =
     (let a = lstrip_of (\<lambda>c. c = 37) (strip r);
          b = (case map_of ALIASES a of Some x \<Rightarrow> x | None \<Rightarrow> a)
      in if b \<in> set CALLEE_SAVED then Some b else None)"

section \<open>Tools\<close>

definition disassemble :: "repo \<Rightarrow> pystr \<Rightarrow> pyexn + pystr" where
  "disassemble w binary =
     (case proc w [str ''objdump'', str ''-d'', str ''--no-show-raw-insn'', str ''-M'', str ''intel'',
                   build_path w binary] of
        Done rc out err \<Rightarrow>
          if rc \<noteq> 0 then Inl (AuditError ''objdump failed'' [strip err]) else Inr out
      | TimedOut \<Rightarrow> Inl TimeoutErr
      | NotFound \<Rightarrow> Inl (OsError (str ''objdump'')))"

definition nm :: "repo \<Rightarrow> pystr \<Rightarrow> pyexn + pystr list list" where
  "nm w binary =
     (case proc w [str ''nm'', str ''--defined-only'', build_path w binary] of
        Done rc out err \<Rightarrow>
          if rc \<noteq> 0 then Inl (AuditError ''nm failed'' [strip err]) else Inr (map words (splitlines out))
      | TimedOut \<Rightarrow> Inl TimeoutErr
      | NotFound \<Rightarrow> Inl (OsError (str ''nm'')))"

definition all_defined_symbols :: "pystr list list \<Rightarrow> pystr set" where
  "all_defined_symbols rows =
     set (map (\<lambda>ps. ps ! 2)
       (filter (\<lambda>ps. 3 \<le> length ps \<and> startswith (ps ! 2) (str ''af_'')) rows))"

definition text_symbols :: "pystr list list \<Rightarrow> pystr set" where
  "text_symbols rows =
     set (map (\<lambda>ps. ps ! 2)
       (filter (\<lambda>ps. \<not> (length ps < 3 \<or> ps ! 1 \<notin> {str ''T'', str ''t''})
          \<and> startswith (ps ! 2) (str ''af_'') \<and> \<not> contains (ps ! 2) (str ''.'')) rows))"

section \<open>Patterns\<close>

definition rx_hex :: rx where "rx_hex = Cls False [(48, 57), (97, 102)]"
definition rx_ident :: rx where "rx_ident = Cls False [(65, 90), (97, 122), (48, 57), (95, 95)]"

definition SYMBOL_RE :: rx where
  "SYMBOL_RE = rx_seq [Bot, rx_plus rx_hex, rx_lit '' <'', Grp 1 (rx_plus (Cls True [(62, 62)])), rx_lit ''>:'', Eot]"

definition INSN_RE :: rx where
  "INSN_RE = rx_seq [Bot, rx_plus rx_space, rx_plus rx_hex, rx_lit '':'', rx_plus rx_space,
     Grp 1 (rx_plus rx_nonspace), Star rx_space, Grp 2 (Star rx_dot), Eot]"

definition ASM_GLOBAL_RE :: rx where
  "ASM_GLOBAL_RE = rx_seq [Bol, Star rx_space, rx_lit ''global'', rx_plus rx_space,
     Grp 1 (Cat (rx_lit ''af_'') (rx_plus rx_ident)), Star rx_space, Eol]"

definition C_FUNC_RE :: rx where
  "C_FUNC_RE = rx_seq [Bol, Cls False [(65, 90), (97, 122), (95, 95)],
     Star (Cls False [(65, 90), (97, 122), (48, 57), (95, 95), (32, 32), (42, 42)]), WordB,
     Grp 1 (Cat (rx_lit ''af_'') (rx_plus rx_ident)), Star rx_space, rx_lit ''('']"

section \<open>Exports\<close>

definition c_defined_symbols :: "repo \<Rightarrow> pyexn + pystr set" where
  "c_defined_symbols w =
     (case read_all w (glob w (str ''src/**/*.c'') @ glob w (str ''tests/ffi/*.c'')) of
        Inl e \<Rightarrow> Inl e
      | Inr ts \<Rightarrow> Inr (set (concat (map (\<lambda>(p, t). rx_findall 1 C_FUNC_RE t) ts))))"

definition assembly_exports :: "repo \<Rightarrow> pyexn + pystr set" where
  "assembly_exports w =
     (case read_all w (glob w (str ''src/**/*.asm'') @ glob w (str ''tests/asm/*.asm'')) of
        Inl e \<Rightarrow> Inl e
      | Inr ts \<Rightarrow> Inr (set (concat (map (\<lambda>(p, t). rx_findall 1 ASM_GLOBAL_RE t) ts))))"

section \<open>Grouping the disassembly by function\<close>

type_synonym funs = "(pystr \<times> insn list) list"

fun append_insn :: "pystr \<Rightarrow> insn \<Rightarrow> funs \<Rightarrow> funs" where
  "append_insn n x [] = []"
| "append_insn n x ((m, b) # fs) = (if m = n then (m, b @ [x]) # fs else (m, b) # append_insn n x fs)"

definition setdefault :: "pystr \<Rightarrow> funs \<Rightarrow> funs" where
  "setdefault n fs = (if n \<in> fst ` set fs then fs else fs @ [(n, [])])"

text \<open>One iteration of the loop over the lines: the dictionary and the current function.\<close>

definition parse_line :: "funs \<times> pystr option \<Rightarrow> pystr \<Rightarrow> funs \<times> pystr option" where
  "parse_line st line =
     (case st of (fs, cur) \<Rightarrow>
        (case rx_match SYMBOL_RE line of
           Some m \<Rightarrow>
             (let name = group_of 1 m in
              case cur of
                Some c \<Rightarrow>
                  if contains name (str ''.'') \<and> startswith name (c @ str ''.'') then (fs, cur)
                  else (setdefault name fs, Some name)
              | None \<Rightarrow> (setdefault name fs, Some name))
         | None \<Rightarrow>
             (case cur of
                None \<Rightarrow> (fs, cur)
              | Some c \<Rightarrow>
                  (case rx_match INSN_RE line of
                     None \<Rightarrow> (fs, cur)
                   | Some m \<Rightarrow> (append_insn c (group_of 1 m, strip (group_of 2 m)) fs, cur)))))"

definition parse_functions :: "pystr \<Rightarrow> funs" where
  "parse_functions disasm = fst (foldl parse_line ([], None) (splitlines disasm))"

section \<open>The checks on one function\<close>

definition written_reg :: "insn \<Rightarrow> pystr option" where
  "written_reg i =
     (case i of (mnemonic, operands) \<Rightarrow>
        (let b0 = before_first mnemonic (str ''.'');
             base = (if startswith b0 (str ''cmov'') then str ''cmov'' else b0);
             first = strip (before_first operands (str '',''))
         in if base \<notin> set WRITE_FIRST_OPERAND then None
            else if operands = [] then None
            else if contains first (str ''['') then None
            else canonical first))"

definition written_callee_saved :: "insn list \<Rightarrow> nat \<Rightarrow> pystr set" where
  "written_callee_saved body skip = set (List.map_filter written_reg (drop skip body))"

definition has_expected_prologue :: "insn list \<Rightarrow> bool" where
  "has_expected_prologue body \<longleftrightarrow>
     \<not> length body < length EXPECTED_PROLOGUE \<and>
     list_all (\<lambda>((m, ops), (em, eops)). m = em \<and> filter (\<lambda>c. c \<noteq> 32) ops = eops)
       (zip body EXPECTED_PROLOGUE)"

text \<open>The inner loop of \<open>epilogue_is_complete\<close>: at most six pops, read backwards.\<close>

fun pops_back :: "nat \<Rightarrow> insn list \<Rightarrow> pystr list" where
  "pops_back 0 rs = []"
| "pops_back (Suc n) [] = []"
| "pops_back (Suc n) ((m, ops) # rs) =
     (if m \<noteq> str ''pop'' then [] else strip ops # pops_back n rs)"

definition expected_pops :: "pystr list" where
  "expected_pops = map str [''rbp'', ''rbx'', ''r12'', ''r13'', ''r14'', ''r15'']"

definition epilogue_is_complete :: "insn list \<Rightarrow> bool" where
  "epilogue_is_complete body \<longleftrightarrow>
     list_all (\<lambda>i. fst (body ! i) \<noteq> str ''ret'' \<or>
         sort (pops_back 6 (rev (take i body))) = sort expected_pops)
       [0..<length body]"

section \<open>The audit\<close>

datatype problem =
    IncompleteEpilogue pystr
  | WritesWithoutFrame pystr "pystr list"
  | NotLinked pystr
  | NoDisassembly pystr

record tally =
  framed :: nat
  leaves :: nat
  seen :: "pystr list"
  problems :: "problem list"

text \<open>The body of the loop over the functions, for a function of the audit set.\<close>

definition audit_function :: "pystr set \<Rightarrow> tally \<Rightarrow> pystr \<times> insn list \<Rightarrow> tally" where
  "audit_function audit_set t f =
     (case f of (name, body) \<Rightarrow>
        if name \<notin> audit_set then t
        else if body = [] then t
        else
          (let t1 = t\<lparr>seen := seen t @ [name]\<rparr> in
           if has_expected_prologue body then
             (let t2 = t1\<lparr>framed := framed t1 + 1\<rparr> in
              if epilogue_is_complete body then t2
              else t2\<lparr>problems := problems t2 @ [IncompleteEpilogue name]\<rparr>)
           else
             (let written = sorted_set (List.map_filter written_reg body) in
              if written \<noteq> [] then t1\<lparr>problems := problems t1 @ [WritesWithoutFrame name written]\<rparr>
              else t1\<lparr>leaves := leaves t1 + 1\<rparr>)))"

definition no_tally :: tally where
  "no_tally = \<lparr>framed = 0, leaves = 0, seen = [], problems = []\<rparr>"

definition audit_all :: "pystr set \<Rightarrow> funs \<Rightarrow> tally" where
  "audit_all audit_set fs = foldl (audit_function audit_set) no_tally (sort_key fst fs)"

definition audit :: "repo \<Rightarrow> pystr \<Rightarrow> problem list \<times> (pyexn + nat \<times> nat \<times> nat)" where
  "audit w binary =
     (case disassemble w binary of Inl e \<Rightarrow> ([], Inl e) | Inr out \<Rightarrow>
      (case nm w binary of Inl e \<Rightarrow> ([], Inl e) | Inr rows \<Rightarrow>
       (case c_defined_symbols w of Inl e \<Rightarrow> ([], Inl e) | Inr csyms \<Rightarrow>
         (let audit_set = text_symbols rows - csyms - set EXEMPT;
              t = audit_all audit_set (parse_functions out) in
          case assembly_exports w of Inl e \<Rightarrow> ([], Inl e) | Inr exports \<Rightarrow>
            (let ps = problems t
                 @ map NotLinked (sorted_list_of_set (exports - all_defined_symbols rows))
                 @ map NoDisassembly (sorted_list_of_set (audit_set - set (seen t)))
             in if ps \<noteq> [] then
                  (ps, Inl (AuditError ''function(s) violate the callee-saved contract'' []))
                else ([], Inr (framed t, leaves t, length EXEMPT)))))))"

definition abi_main :: "repo \<Rightarrow> pystr \<Rightarrow> int" where
  "abi_main w binary =
     (if \<not> build_is_file w binary then 1
      else case snd (audit w binary) of Inl e \<Rightarrow> 1 | Inr _ \<Rightarrow> 0)"


section \<open>Parsing loses no instruction\<close>

text \<open>The instruction a line of the listing shows, if it shows one.\<close>

definition is_symbol_line :: "pystr \<Rightarrow> bool" where
  "is_symbol_line line \<longleftrightarrow> rx_match SYMBOL_RE line \<noteq> None"

definition insn_of :: "pystr \<Rightarrow> insn option" where
  "insn_of line =
     (if is_symbol_line line then None
      else map_option (\<lambda>m. (group_of 1 m, strip (group_of 2 m))) (rx_match INSN_RE line))"

lemma fst_append_insn [simp]: "map fst (append_insn n x fs) = map fst fs"
  by (induction n x fs rule: append_insn.induct) auto

lemma mset_append_insn:
  "n \<in> fst ` set fs \<Longrightarrow>
   mset (concat (map snd (append_insn n x fs))) = add_mset x (mset (concat (map snd fs)))"
  by (induction n x fs rule: append_insn.induct) auto

definition parse_inv :: "funs \<times> pystr option \<Rightarrow> insn multiset \<Rightarrow> bool" where
  "parse_inv st M \<longleftrightarrow>
     distinct (map fst (fst st)) \<and> mset (concat (map snd (fst st))) = M \<and>
     (case snd st of None \<Rightarrow> fst st = [] | Some c \<Rightarrow> c \<in> fst ` set (fst st))"

lemma parse_line_inv:
  assumes "parse_inv st M"
  shows "parse_inv (parse_line st line)
           (case (snd st, insn_of line) of (Some c, Some x) \<Rightarrow> add_mset x M | _ \<Rightarrow> M)"
  using assms
  by (cases st) (auto simp: parse_inv_def parse_line_def insn_of_def is_symbol_line_def setdefault_def
      Let_def mset_append_insn image_iff simp flip: set_map split: option.splits if_splits)

lemma parse_line_snd:
  "snd (parse_line st line) = None \<longleftrightarrow> snd st = None \<and> \<not> is_symbol_line line"
  by (cases st) (auto simp: parse_line_def is_symbol_line_def Let_def split: option.splits)

lemma parse_fold_started:
  "snd st \<noteq> None \<Longrightarrow> parse_inv st M \<Longrightarrow>
   parse_inv (foldl parse_line st ls) (M + mset (List.map_filter insn_of ls))"
proof (induction ls arbitrary: st M)
  case (Cons l ls)
  have "snd (parse_line st l) \<noteq> None" using Cons.prems by (simp add: parse_line_snd)
  moreover have "parse_inv (parse_line st l) (M + mset (List.map_filter insn_of [l]))"
    using parse_line_inv [OF Cons.prems(2), of l] Cons.prems(1)
    by (auto simp: map_filter_simps split: option.splits)
  ultimately have "parse_inv (foldl parse_line (parse_line st l) ls)
      (M + mset (List.map_filter insn_of [l]) + mset (List.map_filter insn_of ls))"
    by (rule Cons.IH)
  then show ?case by (cases "insn_of l") (simp_all add: map_filter_simps)
qed (simp add: map_filter_simps)

lemma parse_fold_start:
  "parse_inv (foldl parse_line ([], None) ls)
     (mset (List.map_filter insn_of (dropWhile (\<lambda>l. \<not> is_symbol_line l) ls)))"
proof (induction ls)
  case Nil
  then show ?case by (simp add: parse_inv_def map_filter_simps)
next
  case (Cons l ls)
  show ?case
  proof (cases "is_symbol_line l")
    case True
    then have "parse_inv (parse_line ([], None) l) {#}" "snd (parse_line ([], None) l) \<noteq> None"
      by (auto simp: parse_inv_def parse_line_def is_symbol_line_def setdefault_def Let_def)
    moreover have "insn_of l = None" using True by (simp add: insn_of_def)
    ultimately show ?thesis using parse_fold_started [of "parse_line ([], None) l" "{#}" ls] True
      by (simp add: map_filter_simps)
  next
    case False
    then have "parse_line ([], None) l = ([], None)"
      by (auto simp: parse_line_def is_symbol_line_def split: option.splits)
    with False Cons show ?thesis by simp
  qed
qed

text \<open>
  The grouping of the disassembly into functions is a partition. No function name occurs
  twice, and the bodies together hold exactly the instructions that follow the first symbol
  line, each as often as the listing shows it: no instruction is lost and none is invented.
\<close>

lemma parse_functions_partition:
  "distinct (map fst (parse_functions d)) \<and>
   mset (concat (map snd (parse_functions d))) =
     mset (List.map_filter insn_of (dropWhile (\<lambda>l. \<not> is_symbol_line l) (splitlines d)))"
  using parse_fold_start [of "splitlines d"] by (simp add: parse_inv_def parse_functions_def)

section \<open>The epilogue test\<close>

lemma pops_back_take:
  "pops_back n rs = map (\<lambda>x. strip (snd x)) (takeWhile (\<lambda>x. fst x = str ''pop'') (take n rs))"
  by (induction n rs rule: pops_back.induct) auto

lemma sort_eq_iff_mset: "sort (xs :: pystr list) = sort ys \<longleftrightarrow> mset xs = mset ys"
  by (metis mset_sort properties_for_sort sorted_sort)

lemma length_expected_pops: "length expected_pops = 6"
  by (simp add: expected_pops_def)

lemma rev_take_window: "k \<le> i \<Longrightarrow> i \<le> length xs \<Longrightarrow> take k (rev (take i xs)) = rev (map ((!) xs) [i - k..<i])"
  by (rule nth_equalityI) (auto simp: rev_nth)

lemma pops_ok_iff:
  assumes i: "i \<le> length body"
  shows "mset (pops_back 6 (rev (take i body))) = mset expected_pops \<longleftrightarrow>
     6 \<le> i \<and> (\<forall>j \<in> {i - 6..<i}. fst (body ! j) = str ''pop'') \<and>
     mset (map (\<lambda>j. strip (snd (body ! j))) [i - 6..<i]) = mset expected_pops" (is "?l \<longleftrightarrow> ?r")
proof
  let ?w = "take 6 (rev (take i body))"
  assume l: ?l
  then have "length (takeWhile (\<lambda>x. fst x = str ''pop'') ?w) = 6"
    unfolding pops_back_take by (metis length_map length_expected_pops size_mset)
  then have l6: "length (takeWhile (\<lambda>x. fst x = str ''pop'') ?w) = 6" .
  then have i6: "6 \<le> i" using length_takeWhile_le [of "\<lambda>x. fst x = str ''pop''" ?w] i by simp
  have tw: "takeWhile (\<lambda>x. fst x = str ''pop'') ?w = ?w"
    by (subst takeWhile_eq_take) (simp only: l6 take_take min.idem)
  have w: "?w = rev (map ((!) body) [i - 6..<i])" using i i6 by (rule rev_take_window [rotated])
  have all: "\<forall>x \<in> set ?w. fst x = str ''pop''"
    using set_takeWhileD [of _ "\<lambda>x. fst x = str ''pop''" ?w] unfolding tw by blast
  have "mset (map (\<lambda>x. strip (snd x)) ?w) = mset expected_pops" using l unfolding pops_back_take tw .
  then have "mset (map (\<lambda>j. strip (snd (body ! j))) [i - 6..<i]) = mset expected_pops"
    unfolding w by (simp add: comp_def multiset.map_comp)
  moreover have "\<forall>j \<in> {i - 6..<i}. fst (body ! j) = str ''pop''" using all unfolding w by simp
  ultimately show ?r using i6 by blast
next
  assume r: ?r
  then have w: "take 6 (rev (take i body)) = rev (map ((!) body) [i - 6..<i])"
    using i by (intro rev_take_window) auto
  have tw: "takeWhile (\<lambda>x. fst x = str ''pop'') (take 6 (rev (take i body))) = take 6 (rev (take i body))"
    using r by (subst takeWhile_eq_all_conv) (auto simp: w)
  show ?l unfolding pops_back_take tw using r by (simp add: w comp_def multiset.map_comp)
qed

text \<open>
  The epilogue test accepts a function exactly when each of its \<open>ret\<close> instructions is
  directly preceded by six \<open>pop\<close> instructions whose operands are, in some order, the six
  callee-saved registers. An early return that skips the restore sequence is refused, and so is
  a restore sequence that pops a register twice or one that begins at the function's first
  instructions.
\<close>

lemma epilogue_is_complete_iff:
  "epilogue_is_complete body \<longleftrightarrow>
     (\<forall>i < length body. fst (body ! i) = str ''ret'' \<longrightarrow>
        6 \<le> i \<and> (\<forall>j \<in> {i - 6..<i}. fst (body ! j) = str ''pop'') \<and>
        mset (map (\<lambda>j. strip (snd (body ! j))) [i - 6..<i]) = mset expected_pops)"
  unfolding epilogue_is_complete_def list_all_iff sort_eq_iff_mset
  using pops_ok_iff [of _ body] by (auto simp: less_imp_le)

definition one_return :: "insn list" where
  "one_return = EXPECTED_PROLOGUE @ [(str ''call'', str ''401000'')] @
     map (\<lambda>r. (str ''pop'', str r)) [''r15'', ''r14'', ''r13'', ''r12'', ''rbx'', ''rbp''] @ [(str ''ret'', [])]"

lemma epilogue_is_complete_iff_witness:
  "epilogue_is_complete one_return \<and> fst (one_return ! 14) = str ''ret'' \<and>
   mset (map (\<lambda>j. strip (snd (one_return ! j))) [14 - 6..<14]) = mset expected_pops"
proof -
  have "epilogue_is_complete one_return" "14 < length one_return" "fst (one_return ! 14) = str ''ret''"
    by code_simp+
  then show ?thesis using epilogue_is_complete_iff [of one_return] by blast
qed

section \<open>What the registers hold after an accepted epilogue\<close>

text \<open>
  The instructions of \<open>AF_ENTER\<close> and \<open>AF_LEAVE\<close> that touch the saved registers, on a register
  file and the stack below the return address. The rest of the function is any change of the
  registers: between the two macros the stack pointer comes back to the saved frame, which
  \<open>AF_LEAVE\<close> does from \<open>rbp\<close>.
\<close>

type_synonym machine = "(pystr \<Rightarrow> int) \<times> int list"

fun exec_insn :: "machine \<Rightarrow> insn \<Rightarrow> machine" where
  "exec_insn (regs, st) (m, ops) =
     (if m = str ''push'' then (regs, regs ops # st)
      else if m = str ''pop'' then (case st of [] \<Rightarrow> (regs, st) | v # st' \<Rightarrow> (regs(ops := v), st'))
      else if (m, ops) = (str ''mov'', str ''rbp,rsp'') then (regs(str ''rbp'' := regs (str ''rsp'')), st)
      else (regs, st))"

definition exec_all :: "insn list \<Rightarrow> machine \<Rightarrow> machine" where
  "exec_all is m = foldl exec_insn m is"

definition pops_of :: "pystr list \<Rightarrow> insn list" where
  "pops_of ps = map (\<lambda>r. (str ''pop'', r)) ps"

text \<open>Popping in the order \<open>ps\<close> gives the caller its registers back, whatever the body did.\<close>

definition restores :: "pystr list \<Rightarrow> bool" where
  "restores ps \<longleftrightarrow>
     (\<forall>regs regs' st. \<forall>r \<in> set CALLEE_SAVED.
        fst (exec_all (pops_of ps) (regs', snd (exec_all EXPECTED_PROLOGUE (regs, st)))) r = regs r)"

definition leave_order :: "pystr list" where
  "leave_order = map str [''r15'', ''r14'', ''r13'', ''r12'', ''rbx'', ''rbp'']"

lemma prologue_frame:
  "snd (exec_all EXPECTED_PROLOGUE (regs, st)) = map regs leave_order @ st"
  by (simp add: exec_all_def EXPECTED_PROLOGUE_def leave_order_def str_def)

lemma pops_load:
  "distinct ps \<Longrightarrow> length ps = length vs \<Longrightarrow>
   fst (exec_all (pops_of ps) (regs, vs @ st)) =
     (\<lambda>r. case map_of (zip ps vs) r of Some v \<Rightarrow> v | None \<Rightarrow> regs r)"
proof (induction ps arbitrary: vs regs)
  case (Cons p ps)
  then obtain v vs' where [simp]: "vs = v # vs'" by (cases vs) auto
  have "fst (exec_all (pops_of (p # ps)) (regs, vs @ st)) = fst (exec_all (pops_of ps) (regs(p := v), vs' @ st))"
    by (simp add: exec_all_def pops_of_def str_def)
  also have "\<dots> = (\<lambda>r. case map_of (zip ps vs') r of Some v \<Rightarrow> v | None \<Rightarrow> (regs(p := v)) r)"
    using Cons by (intro Cons.IH) auto
  also have "\<dots> = (\<lambda>r. case map_of (zip (p # ps) vs) r of Some v \<Rightarrow> v | None \<Rightarrow> regs r)"
    using Cons.prems by (auto split: option.splits intro!: ext dest!: map_of_SomeD set_zip_leftD)
  finally show ?case .
qed (simp add: exec_all_def pops_of_def)

lemma distinct_leave: "distinct leave_order" "length leave_order = 6" "distinct expected_pops"
  "set expected_pops = set CALLEE_SAVED" "mset leave_order = mset expected_pops"
  by (simp_all add: leave_order_def expected_pops_def CALLEE_SAVED_def str_def insert_commute)

lemma permuted_pops:
  assumes "mset ps = mset expected_pops"
  shows "distinct ps" "length ps = 6" "set ps = set CALLEE_SAVED"
  using assms distinct_leave(3,4)
  by (metis distinct_leave(3) mset_eq_imp_distinct_iff, metis length_expected_pops size_mset,
      metis distinct_leave(4) set_mset_mset)

lemma restores_iff_loads:
  assumes "mset ps = mset expected_pops"
  shows "restores ps \<longleftrightarrow> (\<forall>regs :: pystr \<Rightarrow> int. map regs ps = map regs leave_order)"
proof -
  note p = permuted_pops [OF assms]
  have "fst (exec_all (pops_of ps) (regs', snd (exec_all EXPECTED_PROLOGUE (regs, st)))) (ps ! i) =
      regs (leave_order ! i)" if "i < 6" for regs regs' st i
  proof -
    have "map_of (zip ps (map regs leave_order)) (ps ! i) = Some (regs (leave_order ! i))"
      using that p distinct_leave by (intro map_of_is_SomeI) (auto simp: in_set_zip)
    then show ?thesis using p distinct_leave by (simp add: prologue_frame pops_load)
  qed
  moreover have "(\<forall>r \<in> set CALLEE_SAVED. Q r) \<longleftrightarrow> (\<forall>i < 6. Q (ps ! i))" for Q
    using p by (metis in_set_conv_nth)
  ultimately have "restores ps \<longleftrightarrow> (\<forall>regs :: pystr \<Rightarrow> int. \<forall>i < 6. regs (leave_order ! i) = regs (ps ! i))"
    by (simp add: restores_def)
  also have "\<dots> \<longleftrightarrow> (\<forall>regs :: pystr \<Rightarrow> int. map regs ps = map regs leave_order)"
    using p(2) distinct_leave(2) by (simp add: list_eq_iff_nth_eq eq_commute)
  finally show ?thesis .
qed

lemma separating_regs:
  assumes "\<forall>regs :: pystr \<Rightarrow> int. map regs xs = map regs ys"
  shows "xs = ys"
proof -
  have "length xs = length ys" using assms map_eq_imp_length_eq by blast
  moreover have "xs ! i = ys ! i" if "i < length xs" for i
  proof -
    have "map (\<lambda>r. if r = xs ! i then 1 else 0 :: int) xs ! i = map (\<lambda>r. if r = xs ! i then 1 else 0) ys ! i"
      using assms by metis
    with that \<open>length xs = length ys\<close> show ?thesis by (simp split: if_splits)
  qed
  ultimately show ?thesis by (simp add: list_eq_iff_nth_eq)
qed

lemma epilogue_after_prologue:
  assumes "map strip ps = ps" "length ps = 6"
  shows "epilogue_is_complete (EXPECTED_PROLOGUE @ pops_of ps @ [(str ''ret'', [])]) \<longleftrightarrow>
         mset ps = mset expected_pops"
proof -
  let ?b = "EXPECTED_PROLOGUE @ pops_of ps @ [(str ''ret'', [])]"
  have len: "length EXPECTED_PROLOGUE = 7" "length ?b = 14"
    using assms by (simp_all add: EXPECTED_PROLOGUE_def pops_of_def)
  have no_ret: "fst x \<noteq> str ''ret''" if "x \<in> set (EXPECTED_PROLOGUE @ pops_of ps)" for x
    using that by (auto simp: EXPECTED_PROLOGUE_def pops_of_def str_def)
  have early: "fst (?b ! i) \<noteq> str ''ret''" if "i < 13" for i
    using that assms no_ret [of "?b ! i"] len(1)
    by (auto simp: nth_append pops_of_def)
  have late: "fst (?b ! 13) = str ''ret''" using assms len(1) by (simp add: nth_append pops_of_def)
  have split: "(\<forall>i \<in> set [0..<14]. P i) \<longleftrightarrow> (\<forall>i < 13. P i) \<and> P 13" for P :: "nat \<Rightarrow> bool"
    using All_less_Suc [of 13 P] by (simp add: Ball_def conj_commute)
  have "epilogue_is_complete ?b \<longleftrightarrow> mset (pops_back 6 (rev (take 13 ?b))) = mset expected_pops"
    unfolding epilogue_is_complete_def list_all_iff sort_eq_iff_mset len(2) split late
    using early by blast
  moreover have "pops_back 6 (rev (take 13 ?b)) = rev ps"
    using assms len(1) by (simp add: pops_back_take pops_of_def rev_map comp_def takeWhile_map
        takeWhile_eq_all_conv [THEN iffD2] flip: rev_map)
  ultimately show ?thesis by simp
qed

text \<open>
  C35: Of all the pop orders the epilogue test accepts, only one gives the caller its registers
  back: the order of \<open>AF_LEAVE\<close>, which reverses the pushes of the prologue. The test compares
  sorted lists, so it accepts the other orders as well.
\<close>

theorem accepted_epilogue_restores_iff:
  assumes "sort (map strip ps) = sort expected_pops" and "map strip ps = ps"
  shows "epilogue_is_complete (EXPECTED_PROLOGUE @ pops_of ps @ [(str ''ret'', [])]) \<and>
         (restores ps \<longleftrightarrow> ps = leave_order)"
proof -
  have m: "mset ps = mset expected_pops" using assms by (simp add: sort_eq_iff_mset)
  then have "length ps = 6" by (rule permuted_pops)
  then have "epilogue_is_complete (EXPECTED_PROLOGUE @ pops_of ps @ [(str ''ret'', [])])"
    using m assms by (simp add: epilogue_after_prologue)
  moreover have "restores ps \<longleftrightarrow> ps = leave_order"
    using restores_iff_loads [OF m] separating_regs by auto
  ultimately show ?thesis by simp
qed

theorem accepted_epilogue_restores_iff_witness:
  "let ps = map str [''r14'', ''r15'', ''r13'', ''r12'', ''rbx'', ''rbp''] in
   epilogue_is_complete (EXPECTED_PROLOGUE @ pops_of ps @ [(str ''ret'', [])]) \<and> \<not> restores ps"
proof -
  let ?ps = "map str [''r14'', ''r15'', ''r13'', ''r12'', ''rbx'', ''rbp'']"
  have "sort (map strip ?ps) = sort expected_pops" by code_simp
  moreover have "map strip ?ps = ?ps" by code_simp
  moreover have "?ps \<noteq> leave_order" by code_simp
  ultimately show ?thesis unfolding Let_def using accepted_epilogue_restores_iff [of ?ps] by blast
qed

section \<open>The verdict\<close>

text \<open>What the audit asks of one function.\<close>

definition conforming :: "insn list \<Rightarrow> bool" where
  "conforming body \<longleftrightarrow>
     (if has_expected_prologue body then epilogue_is_complete body
      else written_callee_saved body 0 = {})"

definition audited :: "pystr set \<Rightarrow> pystr \<times> insn list \<Rightarrow> bool" where
  "audited A f \<longleftrightarrow> fst f \<in> A \<and> snd f \<noteq> []"

definition problem_of :: "pystr \<times> insn list \<Rightarrow> problem list" where
  "problem_of f =
     (if conforming (snd f) then []
      else if has_expected_prologue (snd f) then [IncompleteEpilogue (fst f)]
      else [WritesWithoutFrame (fst f) (sorted_set (List.map_filter written_reg (snd f)))])"

lemma audit_function_closed:
  "audit_function A t f =
     (if audited A f then
        t\<lparr>framed := framed t + (if has_expected_prologue (snd f) then 1 else 0),
          leaves := leaves t + (if \<not> has_expected_prologue (snd f) \<and> conforming (snd f) then 1 else 0),
          seen := seen t @ [fst f],
          problems := problems t @ problem_of f\<rparr>
      else t)"
  by (cases f) (auto simp: audit_function_def audited_def problem_of_def conforming_def
      written_callee_saved_def Let_def)

lemma audit_fold_closed:
  "foldl (audit_function A) t fs =
     t\<lparr>framed := framed t + length (filter (\<lambda>f. has_expected_prologue (snd f)) (filter (audited A) fs)),
       leaves := leaves t +
         length (filter (\<lambda>f. \<not> has_expected_prologue (snd f) \<and> conforming (snd f)) (filter (audited A) fs)),
       seen := seen t @ map fst (filter (audited A) fs),
       problems := problems t @ concat (map problem_of (filter (audited A) fs))\<rparr>"
proof (induction fs arbitrary: t)
  case (Cons f fs)
  show ?case by (cases "audited A f") (simp_all add: Cons.IH audit_function_closed [of A t f])
qed simp

lemma problem_of_Nil: "problem_of f = [] \<longleftrightarrow> conforming (snd f)"
  by (simp add: problem_of_def)

lemma audit_all_problems:
  "problems (audit_all A fs) = [] \<longleftrightarrow> (\<forall>f \<in> set fs. audited A f \<longrightarrow> conforming (snd f))"
  by (auto simp: audit_all_def audit_fold_closed no_tally_def problem_of_Nil)

lemma audit_all_seen: "set (seen (audit_all A fs)) = fst ` {f \<in> set fs. audited A f}"
  by (auto simp: audit_all_def audit_fold_closed no_tally_def)

lemma finite_audit_sets [simp]: "finite (text_symbols rows)" "finite (all_defined_symbols rows)"
  by (simp_all add: text_symbols_def all_defined_symbols_def)

lemma finite_exports [simp]: "assembly_exports w = Inr ex \<Longrightarrow> finite ex"
  by (auto simp: assembly_exports_def split: sum.splits)

definition audit_set_of :: "pystr list list \<Rightarrow> pystr set \<Rightarrow> pystr set" where
  "audit_set_of rows cs = text_symbols rows - cs - set EXEMPT"

lemma coverage_iff:
  assumes "distinct (map fst fs)"
  shows "(\<forall>f \<in> set fs. audited A f \<longrightarrow> conforming (snd f)) \<and> A \<subseteq> fst ` {f \<in> set fs. audited A f} \<longleftrightarrow>
         (\<forall>n \<in> A. \<exists>body. map_of fs n = Some body \<and> body \<noteq> [] \<and> conforming body)" (is "?l \<longleftrightarrow> ?r")
proof
  assume ?l
  then show ?r using assms by (fastforce simp: audited_def map_of_eq_Some_iff)
next
  assume r: ?r
  have "conforming b" if "(n, b) \<in> set fs" "n \<in> A" for n b
    using r that assms by (metis map_of_eq_Some_iff option.inject)
  moreover have "n \<in> fst ` {f \<in> set fs. audited A f}" if "n \<in> A" for n
    using r that by (force simp: audited_def dest: map_of_SomeD)
  ultimately show ?l by (auto simp: audited_def)
qed

lemma distinct_parse: "distinct (map fst (parse_functions d))"
  using parse_fold_start [of "splitlines d"] by (simp add: parse_inv_def parse_functions_def)

lemma verdict_iff:
  "(problems (audit_all A (parse_functions out)) = [] \<and> ex \<subseteq> D \<and>
      A \<subseteq> set (seen (audit_all A (parse_functions out)))) \<longleftrightarrow>
   (ex \<subseteq> D \<and> (\<forall>n \<in> A. \<exists>body. map_of (parse_functions out) n = Some body \<and> body \<noteq> [] \<and> conforming body))"
  using coverage_iff [OF distinct_parse, of out A] unfolding audit_all_problems audit_all_seen by blast

lemma abi_main_problems:
  "abi_main w b = 0 \<longleftrightarrow>
     build_is_file w b \<and>
     (\<exists>out rows cs ex. disassemble w b = Inr out \<and> nm w b = Inr rows \<and>
        c_defined_symbols w = Inr cs \<and> assembly_exports w = Inr ex \<and>
        (let A = audit_set_of rows cs; t = audit_all A (parse_functions out) in
         problems t = [] \<and> ex \<subseteq> all_defined_symbols rows \<and> A \<subseteq> set (seen t)))"
  by (auto simp: abi_main_def audit_def audit_set_of_def Let_def split: sum.splits)

text \<open>
  C30: The audit exits with 0 exactly when the binary exists, the tools and the sources could be
  read, every \<open>global\<close> of the assembly sources is a symbol of the binary, and every audited
  symbol of the binary (text, not from C, not exempt) has a disassembly with at least one
  instruction that conforms: the \<open>AF_ENTER\<close> prologue with complete epilogues, or no write to a
  callee-saved register that the audit sees.
\<close>

theorem abi_main_iff:
  "abi_main w b = 0 \<longleftrightarrow>
     build_is_file w b \<and>
     (\<exists>out rows cs ex. disassemble w b = Inr out \<and> nm w b = Inr rows \<and>
        c_defined_symbols w = Inr cs \<and> assembly_exports w = Inr ex \<and>
        ex \<subseteq> all_defined_symbols rows \<and>
        (\<forall>n \<in> audit_set_of rows cs.
           \<exists>body. map_of (parse_functions out) n = Some body \<and> body \<noteq> [] \<and> conforming body))"
  unfolding abi_main_problems Let_def verdict_iff ..

definition leaf_listing :: pystr where
  "leaf_listing = str ''0000000000401000 <af_leaf>:'' @ nl @ str ''  401000:  xor    eax,eax'' @ nl
     @ str ''0000000000401002 <af_leaf.done>:'' @ nl @ str ''  401002:  ret'' @ nl"

definition leaf_world :: repo where
  "leaf_world = \<lparr>root_parts = [], tree = [(str ''src/a.asm'', File (str ''global af_leaf'') 420)],
     build_dir = str ''build'', build_tree = [(str ''asmflow'', File [] 493)],
     proc = (\<lambda>argv. if hd argv = str ''objdump'' then Done 0 leaf_listing []
                    else Done 0 (str ''0000000000401000 T af_leaf'') [])\<rparr>"

theorem abi_main_iff_witness:
  "abi_main leaf_world (str ''asmflow'') = 0 \<and>
   map_of (parse_functions leaf_listing) (str ''af_leaf'') =
     Some [(str ''xor'', str ''eax,eax''), (str ''ret'', [])]"
proof -
  have p: "map_of (parse_functions leaf_listing) (str ''af_leaf'') =
     Some [(str ''xor'', str ''eax,eax''), (str ''ret'', [])]" by code_simp
  have c: "conforming [(str ''xor'', str ''eax,eax''), (str ''ret'', [])]" by code_simp
  have a: "audit_set_of [words (str ''0000000000401000 T af_leaf'')] {} = {str ''af_leaf''}" by code_simp
  have "build_is_file leaf_world (str ''asmflow'')" by code_simp
  moreover have "disassemble leaf_world (str ''asmflow'') = Inr leaf_listing" by code_simp
  moreover have "nm leaf_world (str ''asmflow'') = Inr [words (str ''0000000000401000 T af_leaf'')]" by code_simp
  moreover have "c_defined_symbols leaf_world = Inr {}" by code_simp
  moreover have "assembly_exports leaf_world = Inr {str ''af_leaf''}" by code_simp
  moreover have "{str ''af_leaf''} \<subseteq> all_defined_symbols [words (str ''0000000000401000 T af_leaf'')]" by code_simp
  ultimately have "abi_main leaf_world (str ''asmflow'') = 0"
    unfolding abi_main_iff using p c a by fastforce
  with p show ?thesis by simp
qed

text \<open>
  The audit misses two ways to write a callee-saved register. \<open>movabs\<close>, the name
  \<open>objdump\<close> gives a 64-bit immediate move, is not among the writing mnemonics whatever its
  operands, and of \<open>xchg\<close> only the first operand counts; so a function without a frame that
  loads \<open>rbx\<close> or exchanges it passes as a conforming leaf.
\<close>

lemma leaf_writes_unseen:
  "written_reg (str ''movabs'', ops) = None \<and>
   conforming [(str ''movabs'', str ''rbx,0x1122334455667788''), (str ''ret'', [])] \<and>
   conforming [(str ''xchg'', str ''rax,rbx''), (str ''ret'', [])]"
proof -
  have "before_first (str ''movabs'') (str ''.'') = str ''movabs''"
    "\<not> startswith (str ''movabs'') (str ''cmov'')" "str ''movabs'' \<notin> set WRITE_FIRST_OPERAND" by code_simp+
  then have "written_reg (str ''movabs'', ops) = None" by (simp add: written_reg_def)
  moreover have "conforming [(str ''movabs'', str ''rbx,0x1122334455667788''), (str ''ret'', [])]" by code_simp
  moreover have "conforming [(str ''xchg'', str ''rax,rbx''), (str ''ret'', [])]" by code_simp
  ultimately show ?thesis by simp
qed

end
