(* ===== verification/Source_Text.thy ===== *)
theory Source_Text
  imports Repo_Model
begin

text \<open>
  The text tools the gates share: the comment strippers for assembly and C, the extraction of
  a function's body, and the readers of the Makefile. The gates of milestones 8, 9 and 11
  carry one stripper each with the same text; milestones 7 and 10 have variants of their own.

  A stripper works line by line, so what it does to a file follows from what it does to a
  line: that is the locale \<open>line_stripper\<close>, interpreted for the three variants.
\<close>

section \<open>Assembly comments\<close>

text \<open>
  One line of \<open>strip_asm_comments\<close> of milestones 8, 9 and 11: the variables are the open quote
  and whether the last character was a backslash inside a string.
\<close>

fun strip_asm_line :: "cp option \<Rightarrow> bool \<Rightarrow> pystr \<Rightarrow> pystr" where
  "strip_asm_line q esc [] = []"
| "strip_asm_line q esc (c # cs) =
     (if esc then c # strip_asm_line q False cs
      else if q \<noteq> None \<and> c = 92 then c # strip_asm_line q True cs
      else if c = 39 \<or> c = 34 then
        c # strip_asm_line (if q = Some c then None else if q = None then Some c else q) False cs
      else if c = 59 \<and> q = None then []
      else c # strip_asm_line q False cs)"

text \<open>One line of the variant of milestone 10, which knows no backslash.\<close>

fun strip_asm_line_m10 :: "cp option \<Rightarrow> pystr \<Rightarrow> pystr" where
  "strip_asm_line_m10 q [] = []"
| "strip_asm_line_m10 q (c # cs) =
     (let q' = (if c = 39 \<or> c = 34 then (if q = Some c then None else if q = None then Some c else q)
                else q)
      in if c = 59 \<and> q' = None then [] else c # strip_asm_line_m10 q' cs)"

text \<open>One line of \<open>code_of\<close> of milestone 7: everything up to the first semicolon.\<close>

definition strip_asm_line_m7 :: "pystr \<Rightarrow> pystr" where
  "strip_asm_line_m7 l = before_first l (str '';'')"

text \<open>The loop over the lines: blank results are dropped, the rest joined with newlines.\<close>

definition nonblank :: "pystr \<Rightarrow> bool" where
  "nonblank l \<longleftrightarrow> strip l \<noteq> []"

definition strip_lines :: "(pystr \<Rightarrow> pystr) \<Rightarrow> pystr \<Rightarrow> pystr" where
  "strip_lines f t = join nl (filter nonblank (map f (splitlines t)))"

definition strip_asm_comments :: "pystr \<Rightarrow> pystr" where
  "strip_asm_comments t = strip_lines (strip_asm_line None False) t"

definition strip_asm_comments_m9 :: "pystr \<Rightarrow> pystr" where
  "strip_asm_comments_m9 t = strip_lines (strip_asm_line None False) t"

definition strip_asm_comments_m11 :: "pystr \<Rightarrow> pystr" where
  "strip_asm_comments_m11 t = strip_lines (strip_asm_line None False) t"

definition strip_asm_comments_m10 :: "pystr \<Rightarrow> pystr" where
  "strip_asm_comments_m10 t = strip_lines (strip_asm_line_m10 None) t"

definition code_of_m7 :: "pystr \<Rightarrow> pystr" where
  "code_of_m7 t = strip_lines strip_asm_line_m7 t"

section \<open>C comments\<close>

datatype cstate = Code | LineComment | BlockComment | CString cp

fun strip_c_from :: "cstate \<Rightarrow> pystr \<Rightarrow> pystr" where
  "strip_c_from st [] = []"
| "strip_c_from LineComment (c # cs) =
     (if c = 10 then c # strip_c_from Code cs else strip_c_from LineComment cs)"
| "strip_c_from BlockComment [c] = (if c = 10 then [c] else [])"
| "strip_c_from BlockComment (c # d # cs) =
     (if c = 42 \<and> d = 47 then strip_c_from Code cs
      else (if c = 10 then [c] else []) @ strip_c_from BlockComment (d # cs))"
| "strip_c_from (CString q) [c] = [c]"
| "strip_c_from (CString q) (c # d # cs) =
     (if c = 92 then c # d # strip_c_from (CString q) cs
      else c # strip_c_from (if c = q then Code else CString q) (d # cs))"
| "strip_c_from Code [c] = [c]"
| "strip_c_from Code (c # d # cs) =
     (if c = 47 \<and> d = 47 then strip_c_from LineComment cs
      else if c = 47 \<and> d = 42 then strip_c_from BlockComment cs
      else c # strip_c_from (if c = 39 \<or> c = 34 then CString c else Code) (d # cs))"

definition strip_c_comments :: "pystr \<Rightarrow> pystr" where
  "strip_c_comments t = strip_c_from Code t"

definition strip_c_comments_m9 :: "pystr \<Rightarrow> pystr" where
  "strip_c_comments_m9 t = strip_c_from Code t"

definition strip_c_comments_m11 :: "pystr \<Rightarrow> pystr" where
  "strip_c_comments_m11 t = strip_c_from Code t"

section \<open>Functions of an assembly file\<close>

text \<open>The pattern \<open>(?m)^\s*global\s+\<close>.\<close>

definition GLOBAL_RE :: rx where
  "GLOBAL_RE = rx_seq [Bol, Star rx_space, rx_lit ''global'', rx_plus rx_space]"

definition function_body :: "pystr \<Rightarrow> pystr \<Rightarrow> pystr" where
  "function_body source name =
     (let start = py_find source (name @ str '':'') in
      if start < 0 then []
      else
        (let skip = start + int (length name) + 1; tail = py_from source skip in
         case rx_search GLOBAL_RE tail of
           None \<Rightarrow> py_from source start
         | Some m \<Rightarrow> py_slice source start (skip + match_start tail m)))"

definition function_body_m9 :: "pystr \<Rightarrow> pystr \<Rightarrow> pystr" where
  "function_body_m9 source name = function_body source name"

definition function_body_m11 :: "pystr \<Rightarrow> pystr \<Rightarrow> pystr" where
  "function_body_m11 source name = function_body source name"

section \<open>The Makefile\<close>

text \<open>\<open>re.match(rf"^{re.escape(target)}\s*:", line)\<close>.\<close>

definition target_line :: "pystr \<Rightarrow> pystr \<Rightarrow> bool" where
  "target_line target line \<longleftrightarrow>
     rx_match (rx_seq [Bot, rx_str target, Star rx_space, rx_lit '':'']) line \<noteq> None"

text \<open>The loop of \<open>make_recipe\<close> after the target's line, with the recipe collected so far.\<close>

fun collect_recipe :: "pystr list \<Rightarrow> pystr list \<Rightarrow> pystr list" where
  "collect_recipe acc [] = acc"
| "collect_recipe acc (l # ls) =
     (if startswith l [9] then collect_recipe (acc @ [l]) ls
      else if strip l = [] then (if acc \<noteq> [] then acc else collect_recipe acc ls)
      else if acc \<noteq> [] then acc
      else collect_recipe acc ls)"

fun after_target :: "pystr \<Rightarrow> pystr list \<Rightarrow> pystr list option" where
  "after_target target [] = None"
| "after_target target (l # ls) = (if target_line target l then Some ls else after_target target ls)"

definition make_recipe :: "pystr \<Rightarrow> pystr \<Rightarrow> pystr" where
  "make_recipe makefile target =
     (case after_target target (splitlines makefile) of
        None \<Rightarrow> []
      | Some ls \<Rightarrow> join nl (collect_recipe [] ls))"

definition make_recipe_m9 :: "pystr \<Rightarrow> pystr \<Rightarrow> pystr" where
  "make_recipe_m9 makefile target = make_recipe makefile target"

definition make_recipe_m11 :: "pystr \<Rightarrow> pystr \<Rightarrow> pystr" where
  "make_recipe_m11 makefile target = make_recipe makefile target"

text \<open>The variant of milestone 10 stops at the first line that is neither blank nor indented.\<close>

fun collect_recipe_m10 :: "pystr list \<Rightarrow> pystr list \<Rightarrow> pystr list" where
  "collect_recipe_m10 acc [] = acc"
| "collect_recipe_m10 acc (l # ls) =
     (if startswith l [9] then collect_recipe_m10 (acc @ [l]) ls
      else if acc = [] \<and> (strip l = [] \<or> startswith l [32]) then collect_recipe_m10 acc ls
      else acc)"

definition make_recipe_m10 :: "pystr \<Rightarrow> pystr \<Rightarrow> pystr" where
  "make_recipe_m10 makefile target =
     (case after_target target (splitlines makefile) of
        None \<Rightarrow> []
      | Some ls \<Rightarrow> join nl (collect_recipe_m10 [] ls))"

text \<open>Continuation lines joined; \<open>cur\<close> is the text gathered so far.\<close>

fun logical_lines_from :: "pystr \<Rightarrow> pystr list \<Rightarrow> pystr list" where
  "logical_lines_from cur [] = (if cur = [] then [] else [cur])"
| "logical_lines_from cur (l # ls) =
     (let now = strip (cur @ [32] @ strip l)
      in if endswith now [92] then logical_lines_from (rstrip (butlast now)) ls
         else (if now = [] then [] else [now]) @ logical_lines_from [] ls)"

definition logical_make_lines :: "pystr \<Rightarrow> pystr list" where
  "logical_make_lines source = logical_lines_from [] (splitlines source)"

definition logical_make_lines_m10 :: "pystr \<Rightarrow> pystr list" where
  "logical_make_lines_m10 source = logical_lines_from [] (splitlines source)"

definition logical_make_lines_m11 :: "pystr \<Rightarrow> pystr list" where
  "logical_make_lines_m11 source = logical_lines_from [] (splitlines source)"

section \<open>What a line-by-line stripper does to a file\<close>

locale line_stripper =
  fixes strip_line :: "pystr \<Rightarrow> pystr"
  assumes line_prefix: "prefix (strip_line l) l"
    and line_idem: "strip_line (strip_line l) = strip_line l"
begin

lemma no_new_break:
  "\<forall>c \<in> set l. \<not> is_linebreak c \<Longrightarrow> \<forall>c \<in> set (strip_line l). \<not> is_linebreak c"
  using line_prefix set_mono_prefix by blast

lemma lines_of_result:
  "splitlines (strip_lines strip_line t) = filter nonblank (map strip_line (splitlines t))"
  unfolding strip_lines_def
proof (rule splitlines_join)
  fix l assume l: "l \<in> set (filter nonblank (map strip_line (splitlines t)))"
  then obtain k where "k \<in> set (splitlines t)" "l = strip_line k" by auto
  then show "\<forall>c \<in> set l. \<not> is_linebreak c"
    using no_new_break splitlines_no_break by blast
  show "l \<noteq> []" using l by (auto simp: nonblank_def strip_def rstrip_of_def lstrip_of_def)
qed

lemma filter_map_idem:
  "filter nonblank (map strip_line (filter nonblank (map strip_line ls)))
     = filter nonblank (map strip_line ls)"
  by (induction ls) (simp_all add: line_idem)

lemma file_idem: "strip_lines strip_line (strip_lines strip_line t) = strip_lines strip_line t"
  using lines_of_result [of t] filter_map_idem [of "splitlines t"]
  by (simp add: strip_lines_def)

lemma output_line: "l \<in> set (splitlines (strip_lines strip_line t)) \<Longrightarrow>
    \<exists>k \<in> set (splitlines t). l = strip_line k \<and> prefix l k \<and> nonblank l"
  using line_prefix by (auto simp: lines_of_result)

end

lemma prefix_strip_asm_line: "prefix (strip_asm_line q e l) l"
  by (induction q e l rule: strip_asm_line.induct) auto

lemma strip_asm_line_idem: "strip_asm_line q e (strip_asm_line q e l) = strip_asm_line q e l"
  by (induction q e l rule: strip_asm_line.induct) auto

lemma prefix_strip_asm_line_m10: "prefix (strip_asm_line_m10 q l) l"
  by (induction q l rule: strip_asm_line_m10.induct) (auto simp: Let_def)

lemma strip_asm_line_m10_idem: "strip_asm_line_m10 q (strip_asm_line_m10 q l) = strip_asm_line_m10 q l"
  by (induction q l rule: strip_asm_line_m10.induct) (auto simp: Let_def)

lemma before_first_char: "before_first l [c] = takeWhile (\<lambda>x. x \<noteq> c) l"
proof (induction l)
  case Nil
  then show ?case by (simp add: before_first_def)
next
  case (Cons x xs)
  then show ?case by (auto simp: before_first_def split: option.splits)
qed

lemma semicolon [text_simps]: "str '';'' = [59]"
  by code_simp

lemma strip_asm_line_m7_eq: "strip_asm_line_m7 l = takeWhile (\<lambda>c. c \<noteq> 59) l"
  by (simp add: strip_asm_line_m7_def semicolon before_first_char)

interpretation asm: line_stripper "strip_asm_line None False"
  by unfold_locales (simp_all add: prefix_strip_asm_line strip_asm_line_idem)

interpretation asm10: line_stripper "strip_asm_line_m10 None"
  by unfold_locales (simp_all add: prefix_strip_asm_line_m10 strip_asm_line_m10_idem)

interpretation asm7: line_stripper strip_asm_line_m7
proof
  show "prefix (strip_asm_line_m7 l) l" for l
    unfolding strip_asm_line_m7_eq by (rule takeWhile_is_prefix)
  show "strip_asm_line_m7 (strip_asm_line_m7 l) = strip_asm_line_m7 l" for l
    unfolding strip_asm_line_m7_eq by (induction l) (auto dest: set_takeWhileD)
qed

section \<open>Where a comment starts\<close>

text \<open>
  The state of the quote scanner after a prefix of a line, and the positions at which a
  comment starts: a semicolon outside a string.
\<close>

fun quote_step :: "cp option \<times> bool \<Rightarrow> cp \<Rightarrow> cp option \<times> bool" where
  "quote_step (q, esc) c =
     (if esc then (q, False)
      else if q \<noteq> None \<and> c = 92 then (q, True)
      else if c = 39 \<or> c = 34 then ((if q = Some c then None else if q = None then Some c else q), False)
      else (q, False))"

definition comment_at :: "cp option \<times> bool \<Rightarrow> pystr \<Rightarrow> nat \<Rightarrow> bool" where
  "comment_at st l n \<longleftrightarrow> n < length l \<and> l ! n = 59 \<and> foldl quote_step st (take n l) = (None, False)"

lemma comment_at_0: "comment_at st (c # cs) 0 \<longleftrightarrow> c = 59 \<and> st = (None, False)"
  by (auto simp: comment_at_def)

lemma comment_at_Suc: "comment_at st (c # cs) (Suc n) \<longleftrightarrow> comment_at (quote_step st c) cs n"
  by (auto simp: comment_at_def)

lemma strip_asm_line_step:
  "strip_asm_line q e (c # cs) =
     (if c = 59 \<and> (q, e) = (None, False) then []
      else c # strip_asm_line (fst (quote_step (q, e) c)) (snd (quote_step (q, e) c)) cs)"
  by auto

lemma strip_asm_line_cut:
  "(\<forall>m < length (strip_asm_line q e l). \<not> comment_at (q, e) l m) \<and>
   (length (strip_asm_line q e l) < length l \<longrightarrow> comment_at (q, e) l (length (strip_asm_line q e l)))"
proof (induction l arbitrary: q e)
  case Nil
  then show ?case by simp
next
  case (Cons c cs)
  show ?case
  proof (cases "c = 59 \<and> (q, e) = (None, False)")
    case True
    then show ?thesis by (simp add: comment_at_0)
  next
    case False
    obtain q' e' where qe: "quote_step (q, e) c = (q', e')" by (cases "quote_step (q, e) c")
    with False have eq: "strip_asm_line q e (c # cs) = c # strip_asm_line q' e' cs"
      by (simp only: strip_asm_line_step if_False fst_conv snd_conv)
    have "\<not> comment_at (q, e) (c # cs) m" if "m < Suc (length (strip_asm_line q' e' cs))" for m
      using that False Cons [of q' e'] qe
      by (cases m) (auto simp: comment_at_0 comment_at_Suc)
    then show ?thesis using Cons [of q' e'] qe unfolding eq by (auto simp: comment_at_Suc)
  qed
qed

text \<open>
  C38: the assembly stripper cuts each line exactly at its first comment, and at nothing else:
  the result is the part of the line before the first semicolon that stands outside a
  string, and the whole line when there is none.
\<close>

theorem strip_asm_line_exact:
  "strip_asm_line None False l =
     take (length (strip_asm_line None False l)) l \<and>
   (\<forall>m < length (strip_asm_line None False l). \<not> comment_at (None, False) l m) \<and>
   (length (strip_asm_line None False l) = length l \<or>
    comment_at (None, False) l (length (strip_asm_line None False l)))"
  using strip_asm_line_cut [of None False l] prefix_strip_asm_line [of None False l]
  by (metis (no_types, lifting) append_eq_conv_conj le_neq_implies_less prefixE prefix_length_le)

theorem strip_asm_line_exact_witness:
  "strip_asm_line None False (str ''ret ; x'') = str ''ret '' \<and>
   \<not> comment_at (None, False) (str ''ret ; x'') 2 \<and> comment_at (None, False) (str ''ret ; x'') 4"
proof -
  have l: "strip_asm_line None False (str ''ret ; x'') = str ''ret ''" by code_simp
  moreover have "length (str ''ret '') = 4" "length (str ''ret ; x'') = 7" by (simp_all add: str_def)
  ultimately show ?thesis using strip_asm_line_exact [of "str ''ret ; x''"] by simp
qed

text \<open>
  stripping the comments of an assembly file twice is the same as stripping them once,
  for the strippers of milestones 8, 9 and 11, of milestone 10 and of milestone 7.
\<close>

lemma strip_asm_idempotent:
  "strip_asm_comments (strip_asm_comments t) = strip_asm_comments t \<and>
   strip_asm_comments_m10 (strip_asm_comments_m10 t) = strip_asm_comments_m10 t \<and>
   code_of_m7 (code_of_m7 t) = code_of_m7 t"
  by (simp add: strip_asm_comments_def strip_asm_comments_m10_def code_of_m7_def asm.file_idem
      asm10.file_idem asm7.file_idem)

lemma strip_m10_no_backslash:
  "92 \<notin> set l \<Longrightarrow> strip_asm_line_m10 q l = strip_asm_line q False l"
  by (induction l arbitrary: q) (auto simp: Let_def)

lemma strip_m7_no_quote:
  "39 \<notin> set l \<Longrightarrow> 34 \<notin> set l \<Longrightarrow> strip_asm_line None False l = takeWhile (\<lambda>c. c \<noteq> 59) l"
  by (induction l) auto

text \<open>
  the three strippers agree on a file that has neither a quote nor a backslash in it.
\<close>

lemma strippers_agree:
  assumes "39 \<notin> set t" and "34 \<notin> set t" and "92 \<notin> set t"
  shows "strip_asm_comments_m10 t = strip_asm_comments t \<and> code_of_m7 t = strip_asm_comments t"
proof -
  have line: "39 \<notin> set l \<and> 34 \<notin> set l \<and> 92 \<notin> set l" if "l \<in> set (splitlines t)" for l
    using that assms splitlines_subset by blast
  have "map (strip_asm_line_m10 None) (splitlines t) = map (strip_asm_line None False) (splitlines t)"
    using line by (simp add: strip_m10_no_backslash)
  moreover have "map strip_asm_line_m7 (splitlines t) = map (strip_asm_line None False) (splitlines t)"
    using line by (simp add: strip_m7_no_quote strip_asm_line_m7_eq)
  ultimately show ?thesis
    by (simp only: strip_asm_comments_def strip_asm_comments_m10_def code_of_m7_def strip_lines_def simp_thms)
qed

lemma strippers_agree_witness:
  "strip_asm_comments_m10 (str ''ret ; done'') = strip_asm_comments (str ''ret ; done'') \<and>
   code_of_m7 (str ''ret ; done'') = strip_asm_comments (str ''ret ; done'')"
proof (rule strippers_agree)
  show "39 \<notin> set (str ''ret ; done'')" by code_simp
  show "34 \<notin> set (str ''ret ; done'')" by code_simp
  show "92 \<notin> set (str ''ret ; done'')" by code_simp
qed

text \<open>
  The stripper of milestone 7 has no notion of a string: it cuts \<open>db "a;b"\<close> at the
  semicolon inside the literal, where the stripper of milestone 8 keeps the line.
\<close>

lemma code_of_m7_cuts_strings:
  "code_of_m7 [100, 98, 32, 34, 97, 59, 98, 34] = [100, 98, 32, 34, 97] \<and>
   strip_asm_comments [100, 98, 32, 34, 97, 59, 98, 34] = [100, 98, 32, 34, 97, 59, 98, 34]"
  by code_simp

section \<open>C comments: lines and a second pass\<close>

lemma strip_c_newlines: "count_list (strip_c_from st t) 10 = count_list t 10"
  by (induction st t rule: strip_c_from.induct) auto

text \<open>The state in which a second pass reads what the first pass wrote.\<close>

fun resume :: "cstate \<Rightarrow> cstate" where
  "resume (CString q) = CString q"
| "resume st = Code"

lemma hd_strip_c: "d \<noteq> 47 \<Longrightarrow> \<exists>u. strip_c_from Code (d # cs) = d # u"
  by (cases cs) auto

lemma strip_c_Code_keep:
  assumes X: "strip_c_from (if c = 39 \<or> c = 34 then CString c else Code) X = X"
    and ok: "\<And>x xs. X = x # xs \<Longrightarrow> c = 47 \<Longrightarrow> x \<noteq> 47 \<and> x \<noteq> 42"
  shows "strip_c_from Code (c # X) = c # X"
proof (cases X)
  case (Cons x xs)
  with ok X show ?thesis by (auto simp: Cons)
qed simp

lemma strip_c_again: "strip_c_from (resume st) (strip_c_from st t) = strip_c_from st t"
proof (induction st t rule: strip_c_from.induct)
  case (8 c d cs)
  show ?case
  proof (cases "c = 47 \<and> (d = 47 \<or> d = 42)")
    case True
    with 8 show ?thesis by auto
  next
    case False
    let ?st = "if c = 39 \<or> c = 34 then CString c else Code"
    have eq: "strip_c_from Code (c # d # cs) = c # strip_c_from ?st (d # cs)" using False by auto
    have "strip_c_from ?st (strip_c_from ?st (d # cs)) = strip_c_from ?st (d # cs)"
      using 8(3) False by (cases "c = 39 \<or> c = 34") auto
    moreover have "x \<noteq> 47 \<and> x \<noteq> 42" if "strip_c_from ?st (d # cs) = x # xs" "c = 47" for x xs
      using hd_strip_c [of d cs] that False by auto
    ultimately have "strip_c_from Code (c # strip_c_from ?st (d # cs)) = c # strip_c_from ?st (d # cs)"
      by (intro strip_c_Code_keep) auto
    then show ?thesis unfolding eq by simp
  qed
next
  case (6 q c d cs)
  show ?case
  proof (cases "c = 92")
    case True
    with 6 show ?thesis by simp
  next
    case False
    with 6 have IH: "strip_c_from (if c = q then Code else CString q)
        (strip_c_from (if c = q then Code else CString q) (d # cs)) =
        strip_c_from (if c = q then Code else CString q) (d # cs)" by (auto split: if_splits)
    then show ?thesis
      using False by (cases "strip_c_from (if c = q then Code else CString q) (d # cs)") auto
  qed
next
  case (4 c d cs)
  then show ?case by (auto simp: strip_c_Code_keep)
next
  case (2 c cs)
  then show ?case by (auto simp: strip_c_Code_keep)
qed auto

text \<open>
  the C comment stripper keeps every line boundary of its input, so line numbers in
  what it returns are those of the file, and a second pass changes nothing: what is left
  holds no comment.
\<close>

lemma strip_c_lines_and_idempotent:
  "count_list (strip_c_comments t) 10 = count_list t 10 \<and>
   strip_c_comments (strip_c_comments t) = strip_c_comments t"
  using strip_c_newlines [of Code t] strip_c_again [of Code t] by (simp add: strip_c_comments_def)

section \<open>Function bodies\<close>

lemma slice_bound_id: "0 \<le> a \<Longrightarrow> a \<le> int (length s) \<Longrightarrow> slice_bound s a = nat a"
  by (simp add: slice_bound_def Let_def)

lemma py_from_eq: "0 \<le> a \<Longrightarrow> a \<le> int (length s) \<Longrightarrow> py_from s a = drop (nat a) s"
  by (simp add: py_from_def slice_bound_id)

lemma py_slice_eq:
  "0 \<le> a \<Longrightarrow> a \<le> b \<Longrightarrow> b \<le> int (length s) \<Longrightarrow> py_slice s a b = take (nat (b - a)) (drop (nat a) s)"
  by (simp add: py_slice_def slice_bound_id Let_def nat_diff_distrib)

text \<open>
  A match of \<open>GLOBAL_RE\<close> looks at no character after itself, so a match in a prefix of a text is a
  match in the text.
\<close>

lemma GLOBAL_can:
  "rx_can GLOBAL_RE (p, s) \<longleftrightarrow>
     (p = None \<or> p = Some 10) \<and>
     (\<exists>a t. s = a @ t \<and> (\<forall>c \<in> set a. is_space c) \<and> (\<exists>r. t = str ''global'' @ r \<and>
       (\<exists>b v. r = b @ v \<and> b \<noteq> [] \<and> (\<forall>c \<in> set b. is_space c))))"
  by (simp only: GLOBAL_RE_def rx_seq.simps rx_space_def rx_lit_def can_simps in_cls_space end_pos_def)

lemma GLOBAL_can_append: "rx_can GLOBAL_RE (p, s) \<Longrightarrow> rx_can GLOBAL_RE (p, s @ t)"
  unfolding GLOBAL_can by (metis append_assoc)

lemma GLOBAL_mono: "rx_found GLOBAL_RE (take n s) \<Longrightarrow> rx_found GLOBAL_RE s"
proof -
  assume "rx_found GLOBAL_RE (take n s)"
  then obtain u t where ut: "take n s = u @ t" and y: "rx_can GLOBAL_RE (pos_after None u, t)"
    by (auto simp: rx_found_can)
  from ut have "s = u @ (t @ drop n s)" by (metis append_assoc append_take_drop_id)
  with GLOBAL_can_append [OF y] show ?thesis unfolding rx_found_can by blast
qed

lemma not_found_before_match:
  assumes "rx_search GLOBAL_RE tail = Some ((q, t), m)"
  shows "\<exists>u. tail = u @ t \<and> \<not> rx_found GLOBAL_RE u \<and> rx_can GLOBAL_RE (pos_after None u, t)"
proof -
  from rx_search_from_Some [OF assms [unfolded rx_search_def]]
  obtain u where u: "tail = u @ t" "q = pos_after None u" "rx_match_at GLOBAL_RE q t = Some m"
    "\<And>v w. u = v @ w \<Longrightarrow> w \<noteq> [] \<Longrightarrow> (\<nexists>y. rx_rel GLOBAL_RE (pos_after None v, w @ t) y)" by blast
  have "\<not> rx_can GLOBAL_RE (pos_after None v, w)" if "u = v @ w" for v w
  proof (cases "w = []")
    case True
    then show ?thesis by (simp add: GLOBAL_can str_def)
  next
    case False
    with u(4) [OF that False] GLOBAL_can_append [of "pos_after None v" w t] show ?thesis
      by (auto simp: rx_can_def)
  qed
  moreover have "rx_can GLOBAL_RE (pos_after None u, t)"
    using rx_match_at_Some [OF u(3)] u(2) unfolding rx_can_def by blast
  ultimately show ?thesis using u(1) by (auto simp: rx_found_can)
qed

text \<open>
  \<open>function_body\<close> is empty exactly when the file has no such label; otherwise it is the
  piece of the file that starts at the label's first occurrence and runs to the next
  \<open>global\<close> directive or to the end of the file, and there is no directive inside it.
\<close>

lemma function_body_piece:
  "(if contains source (name @ str '':'') then
      \<exists>pre tail post. source = pre @ (name @ str '':'' @ tail) @ post \<and>
        function_body source name = name @ str '':'' @ tail \<and>
        int (length pre) = py_find source (name @ str '':'') \<and>
        \<not> rx_found GLOBAL_RE tail \<and>
        (post = [] \<or> rx_can GLOBAL_RE (pos_after None tail, post))
    else function_body source name = [])"
proof (cases "contains source (name @ str '':'')")
  case False
  then have "py_find source (name @ str '':'') < 0" by (simp add: py_find_neg)
  with False show ?thesis by (simp add: function_body_def Let_def)
next
  case True
  define lab where "lab = name @ str '':''"
  define i where "i = py_find source lab"
  have len: "length lab = length name + 1" by (simp add: lab_def str_def)
  have i0: "0 \<le> i" using True py_find_neg [of source lab] by (simp add: lab_def i_def)
  have ib: "i + int (length lab) \<le> int (length source)" using py_find_bound i0 by (simp add: i_def)
  have "prefix lab (drop (nat i) source)" using py_find_prefix i0 by (simp add: i_def)
  then obtain tail where tail: "drop (nat i) source = lab @ tail" by (auto simp: prefix_def)
  define pre where "pre = take (nat i) source"
  have src: "source = pre @ lab @ tail" using tail by (metis append_take_drop_id pre_def)
  have lp: "int (length pre) = i" using i0 ib by (simp add: pre_def)
  have pf: "py_from source (i + int (length name) + 1) = tail"
  proof -
    have "drop (nat (i + int (length name) + 1)) source = drop (length pre + length lab) source"
      using lp len by (simp add: nat_add_distrib i0) (metis Suc_eq_plus1 lp nat_int add_Suc_right)
    also have "\<dots> = tail" by (simp add: src)
    finally show ?thesis using i0 ib len by (simp add: py_from_eq)
  qed
  show ?thesis
  proof (cases "rx_search GLOBAL_RE tail")
    case None
    then have "function_body source name = lab @ tail"
      using i0 ib pf tail unfolding function_body_def Let_def lab_def [symmetric] i_def [symmetric]
      by (simp add: py_from_eq)
    then have "source = pre @ (name @ str '':'' @ tail) @ [] \<and>
        function_body source name = name @ str '':'' @ tail \<and>
        int (length pre) = py_find source (name @ str '':'') \<and> \<not> rx_found GLOBAL_RE tail"
      using None src lp by (simp add: lab_def i_def rx_found_def)
    with True show ?thesis unfolding if_P [OF True] by blast
  next
    case (Some x)
    obtain q t m where x: "x = ((q, t), m)" by (cases x) auto
    from not_found_before_match Some x obtain u where
      u: "tail = u @ t" "\<not> rx_found GLOBAL_RE u" "rx_can GLOBAL_RE (pos_after None u, t)" by blast
    have st: "match_start tail x = int (length u)" by (simp add: match_start_def x u(1))
    let ?j = "i + int (length name) + 1 + int (length u)"
    have ls: "int (length source) = i + int (length lab) + int (length tail)"
      using arg_cong [OF src, of length] lp by simp
    then have "?j \<le> int (length source)" using len u(1) by simp
    then have "function_body source name = take (nat (?j - i)) (lab @ tail)"
      using i0 pf Some st tail unfolding function_body_def Let_def lab_def [symmetric] i_def [symmetric]
      by (simp add: py_slice_eq)
    also have "\<dots> = lab @ u" using len u(1) by (simp add: nat_add_distrib)
    finally have fb: "function_body source name = lab @ u" .
    then have "source = pre @ (name @ str '':'' @ u) @ t \<and>
        function_body source name = name @ str '':'' @ u \<and>
        int (length pre) = py_find source (name @ str '':'')"
      using src lp u(1) by (simp add: lab_def i_def)
    with u(2,3) show ?thesis unfolding if_P [OF True] by blast
  qed
qed

section \<open>Recipes and logical lines\<close>

definition is_tab_line :: "pystr \<Rightarrow> bool" where
  "is_tab_line l \<longleftrightarrow> startswith l [9]"

lemma collect_recipe_acc:
  "acc \<noteq> [] \<Longrightarrow> collect_recipe acc ls = acc @ takeWhile is_tab_line ls"
  by (induction acc ls rule: collect_recipe.induct) (auto simp: is_tab_line_def)

lemma collect_recipe_eq:
  "collect_recipe [] ls = takeWhile is_tab_line (dropWhile (\<lambda>l. \<not> is_tab_line l) ls)"
  by (induction ls) (auto simp: collect_recipe_acc simp flip: is_tab_line_def)

lemma collect_recipe_m10_acc:
  "acc \<noteq> [] \<Longrightarrow> collect_recipe_m10 acc ls = acc @ takeWhile is_tab_line ls"
  by (induction acc ls rule: collect_recipe_m10.induct) (auto simp: is_tab_line_def)

lemma collect_recipe_m10_eq:
  "collect_recipe_m10 [] ls =
     takeWhile is_tab_line
       (dropWhile (\<lambda>l. \<not> is_tab_line l \<and> (strip l = [] \<or> startswith l [32])) ls)"
  by (induction ls) (auto simp: collect_recipe_m10_acc simp flip: is_tab_line_def)

text \<open>
  \<open>make_recipe\<close> returns the first run of tab-indented lines below the target's line, after
  however many lines of any other kind; the variant of milestone 10 skips only blank lines
  and lines indented with a space before the run, so it returns nothing when something else
  comes first.
\<close>

lemma make_recipe_is_next_tab_run:
  "make_recipe makefile target =
     (case after_target target (splitlines makefile) of
        None \<Rightarrow> []
      | Some ls \<Rightarrow> join nl (takeWhile is_tab_line (dropWhile (\<lambda>l. \<not> is_tab_line l) ls))) \<and>
   make_recipe_m10 makefile target =
     (case after_target target (splitlines makefile) of
        None \<Rightarrow> []
      | Some ls \<Rightarrow> join nl (takeWhile is_tab_line
          (dropWhile (\<lambda>l. \<not> is_tab_line l \<and> (strip l = [] \<or> startswith l [32])) ls)))"
  by (simp add: make_recipe_def make_recipe_m10_def collect_recipe_eq collect_recipe_m10_eq
      split: option.splits)

text \<open>
  A target without a recipe of its own is given the recipe of the target below it. In a
  Makefile whose lines are \<open>a:\<close>, \<open>b:\<close> and a recipe line, \<open>make_recipe\<close> returns that line for
  \<open>a\<close> as it does for \<open>b\<close>, so the checks for a missing recipe do not see that \<open>a\<close> has none;
  the variant of milestone 10 returns nothing for \<open>a\<close>.
\<close>

lemma make_recipe_borrows:
  "make_recipe (join nl [str ''a:'', str ''b:'', [9, 120]]) (str ''a'') = [9, 120] \<and>
   make_recipe (join nl [str ''a:'', str ''b:'', [9, 120]]) (str ''b'') = [9, 120] \<and>
   make_recipe_m10 (join nl [str ''a:'', str ''b:'', [9, 120]]) (str ''a'') = []"
  by code_simp

definition trimmed :: "pystr \<Rightarrow> bool" where
  "trimmed s \<longleftrightarrow> s \<noteq> [] \<longrightarrow> \<not> is_space (hd s) \<and> \<not> is_space (last s)"

lemma hd_rev_dropWhile: "dropWhile P xs \<noteq> [] \<Longrightarrow> \<not> P (hd (dropWhile P xs))"
  by (rule hd_dropWhile) (simp add: dropWhile_eq_Nil_conv)

lemma hd_rstrip_of: "rstrip_of P s \<noteq> [] \<Longrightarrow> hd (rstrip_of P s) = hd s"
  using rstrip_of_prefix [of P s] by (metis hd_append2 prefixE)

lemma last_rstrip_of: "rstrip_of P s \<noteq> [] \<Longrightarrow> \<not> P (last (rstrip_of P s))"
  unfolding rstrip_of_def by (simp add: last_rev hd_rev_dropWhile)

lemma trimmed_strip: "trimmed (strip s)"
proof -
  have "\<not> is_space (hd (strip s))" if ne: "strip s \<noteq> []"
  proof -
    have "lstrip_of is_space s \<noteq> []" using ne by (auto simp: strip_def rstrip_of_def)
    then have "\<not> is_space (hd (lstrip_of is_space s))" unfolding lstrip_of_def by (rule hd_rev_dropWhile)
    then show ?thesis using ne by (simp add: strip_def hd_rstrip_of)
  qed
  then show ?thesis by (auto simp: trimmed_def strip_def dest: last_rstrip_of)
qed

lemma trimmed_rstrip_butlast: "trimmed s \<Longrightarrow> trimmed (rstrip (butlast s))"
proof -
  assume s: "trimmed s"
  have "hd (rstrip (butlast s)) = hd s" if ne: "rstrip (butlast s) \<noteq> []"
  proof -
    have "butlast s \<noteq> []" using ne by (auto simp: rstrip_def rstrip_of_def)
    then have "hd (butlast s) = hd s" by (cases s) auto
    then show ?thesis using ne by (simp add: rstrip_def hd_rstrip_of)
  qed
  moreover have "s \<noteq> []" if "rstrip (butlast s) \<noteq> []" using that by (auto simp: rstrip_def rstrip_of_def)
  ultimately show ?thesis using s by (auto simp: trimmed_def rstrip_def dest: last_rstrip_of)
qed

lemma logical_lines_trimmed:
  "trimmed cur \<Longrightarrow> l \<in> set (logical_lines_from cur ls) \<Longrightarrow> l \<noteq> [] \<and> trimmed l"
proof (induction cur ls rule: logical_lines_from.induct)
  case (1 cur)
  then show ?case by (auto split: if_splits)
next
  case (2 cur k ks)
  let ?now = "strip (cur @ [32] @ strip k)"
  have now: "trimmed ?now" by (rule trimmed_strip)
  have nil: "trimmed []" by (simp add: trimmed_def)
  show ?case
  proof (cases "endswith ?now [92]")
    case True
    with 2 trimmed_rstrip_butlast [OF now] show ?thesis by (simp add: Let_def)
  next
    case False
    with "2.prems" have "l = ?now \<and> ?now \<noteq> [] \<or> l \<in> set (logical_lines_from [] ks)"
      by (auto simp: Let_def split: if_splits)
    then show ?thesis using "2.IH"(2) [OF refl False nil] now by auto
  qed
qed

text \<open>
  Every logical line of the Makefile is non-empty and has no white space at its ends.
\<close>

lemma logical_make_lines_trimmed:
  "l \<in> set (logical_make_lines source) \<Longrightarrow> l \<noteq> [] \<and> \<not> is_space (hd l) \<and> \<not> is_space (last l)"
proof -
  assume "l \<in> set (logical_make_lines source)"
  then have "l \<noteq> [] \<and> trimmed l"
    unfolding logical_make_lines_def by (rule logical_lines_trimmed [rotated]) (simp add: trimmed_def)
  then show ?thesis by (simp add: trimmed_def)
qed

end
