(* ===== verification/Json.thy ===== *)
theory Json
  imports Repo_Model
begin

text \<open>
  \<open>json.loads\<close> as Python's decoder reads a document: the four white-space characters, strings
  with escapes and surrogate pairs, integers of any size, the literals \<open>NaN\<close> and \<open>Infinity\<close>,
  objects in which a repeated key keeps its first position and its last value. A float is kept
  as the text of its literal. Python's limits on nesting depth and on the digits of an integer
  are not modelled.

  The decoder recurses with fuel; \<open>loads\<close> gives it twice the length of the text, and
  \<open>jvalue_fuel\<close> shows that more would change nothing, so \<open>None\<close> always means that the text is
  not a document.
\<close>

datatype json =
    JNull
  | JBool bool
  | JInt int
  | JFloat pystr
  | JStr pystr
  | JArr "json list"
  | JObj "(pystr \<times> json) list"

definition skip_ws :: "pystr \<Rightarrow> pystr" where
  "skip_ws s = dropWhile (\<lambda>c. c \<in> {32, 9, 10, 13}) s"

section \<open>Strings\<close>

definition hex_digit :: "cp \<Rightarrow> int option" where
  "hex_digit c =
     (if is_digit c then Some (c - 48)
      else if 97 \<le> c \<and> c \<le> 102 then Some (c - 87)
      else if 65 \<le> c \<and> c \<le> 70 then Some (c - 55) else None)"

fun hex4 :: "pystr \<Rightarrow> (int \<times> pystr) option" where
  "hex4 (a # b # c # d # r) =
     (case (hex_digit a, hex_digit b, hex_digit c, hex_digit d) of
        (Some x, Some y, Some z, Some w) \<Rightarrow> Some (((x * 16 + y) * 16 + z) * 16 + w, r)
      | _ \<Rightarrow> None)"
| "hex4 _ = None"

text \<open>What follows a backslash: the character it stands for, and the rest.\<close>

definition simple_escape :: "cp \<Rightarrow> cp option" where
  "simple_escape c = map_of [(34, 34), (92, 92), (47, 47), (98, 8), (102, 12), (110, 10), (114, 13), (116, 9)] c"

definition high_surrogate :: "int \<Rightarrow> bool" where
  "high_surrogate u \<longleftrightarrow> 55296 \<le> u \<and> u \<le> 56319"

definition low_surrogate :: "int \<Rightarrow> bool" where
  "low_surrogate u \<longleftrightarrow> 56320 \<le> u \<and> u \<le> 57343"

definition pair_up :: "int \<Rightarrow> pystr \<Rightarrow> int \<times> pystr" where
  "pair_up u r =
     (case (if high_surrogate u \<and> prefix [92, 117] r then hex4 (drop 2 r) else None) of
        Some (v, r') \<Rightarrow>
          if low_surrogate v then (65536 + (u - 55296) * 1024 + (v - 56320), r') else (u, r)
      | None \<Rightarrow> (u, r))"

definition escape :: "pystr \<Rightarrow> (cp \<times> pystr) option" where
  "escape s =
     (case s of
        [] \<Rightarrow> None
      | c # r \<Rightarrow>
          if c = 117 then map_option (\<lambda>(u, r'). pair_up u r') (hex4 r)
          else map_option (\<lambda>d. (d, r)) (simple_escape c))"

lemma hex4_length: "hex4 s = Some (u, r) \<Longrightarrow> length s = length r + 4"
  by (induction s rule: hex4.induct) (auto split: option.splits)

lemma pair_up_length: "length (snd (pair_up u r)) \<le> length r"
  by (auto simp: pair_up_def split: option.splits if_splits dest: hex4_length)

lemma escape_length: "escape s = Some (c, r) \<Longrightarrow> length r < length s"
proof -
  have *: "pair_up u r' = (c, r) \<Longrightarrow> length r \<le> length r'" for u r'
    using pair_up_length [of u r'] by simp
  assume "escape s = Some (c, r)"
  then show ?thesis
    by (cases s) (auto simp: escape_def split: if_splits dest!: hex4_length *)
qed

function scanstring :: "pystr \<Rightarrow> (pystr \<times> pystr) option" where
  "scanstring s =
     (case s of
        [] \<Rightarrow> None
      | c # r \<Rightarrow>
          if c = 34 then Some ([], r)
          else if c = 92 then
            (case escape r of
               None \<Rightarrow> None
             | Some (d, r') \<Rightarrow> map_option (\<lambda>(t, q). (d # t, q)) (scanstring r'))
          else if c < 32 then None
          else map_option (\<lambda>(t, q). (c # t, q)) (scanstring r))"
  by pat_completeness auto
termination
  by (relation "measure length") (auto dest!: escape_length)

declare scanstring.simps [simp del]

lemma scanstring_length: "scanstring s = Some (t, r) \<Longrightarrow> length r < length s"
proof (induction s arbitrary: t rule: scanstring.induct)
  case (1 s)
  show ?case
    using 1(3) 1(1,2) escape_length
    by (subst (asm) scanstring.simps) (fastforce split: list.splits if_splits option.splits)
qed

section \<open>Numbers\<close>

definition digits_of :: "pystr \<Rightarrow> pystr" where
  "digits_of s = takeWhile is_digit s"

definition nat_text :: "pystr \<Rightarrow> int" where
  "nat_text ds = foldl (\<lambda>n d. 10 * n + (d - 48)) 0 ds"

text \<open>\<open>-?(?:0|[1-9]\d*)\<close>, then an optional fraction and exponent.\<close>

definition int_part :: "pystr \<Rightarrow> pystr option" where
  "int_part s =
     (let sign = (if prefix [45] s then [45] else []); ds = digits_of (drop (length sign) s)
      in if ds = [] then None else if hd ds = 48 then Some (sign @ [48]) else Some (sign @ ds))"

definition frac_part :: "pystr \<Rightarrow> pystr" where
  "frac_part s = (if prefix [46] s \<and> digits_of (tl s) \<noteq> [] then 46 # digits_of (tl s) else [])"

definition exp_part :: "pystr \<Rightarrow> pystr" where
  "exp_part s =
     (case s of
        [] \<Rightarrow> []
      | c # r \<Rightarrow>
          (let sign = (if prefix [45] r \<or> prefix [43] r then take 1 r else []);
               ds = digits_of (drop (length sign) r)
           in if (c = 101 \<or> c = 69) \<and> ds \<noteq> [] then c # sign @ ds else []))"

definition number :: "pystr \<Rightarrow> (json \<times> pystr) option" where
  "number s =
     (case int_part s of
        None \<Rightarrow> None
      | Some i \<Rightarrow>
          (let r1 = drop (length i) s; f = frac_part r1;
               r2 = drop (length f) r1; e = exp_part r2;
               r3 = drop (length e) r2
           in if f = [] \<and> e = [] then
                Some (JInt (if prefix [45] i then - nat_text (tl i) else nat_text i), r3)
              else Some (JFloat (i @ f @ e), r3)))"

lemma int_part_ne: "int_part s = Some i \<Longrightarrow> i \<noteq> []"
  by (auto simp: int_part_def Let_def split: if_splits)

lemma number_length: "number s = Some (v, r) \<Longrightarrow> length r < length s"
proof -
  assume n: "number s = Some (v, r)"
  then obtain i where i: "int_part s = Some i" by (auto simp: number_def split: option.splits)
  then have "i \<noteq> []" "s \<noteq> []" by (auto simp: int_part_ne) (simp add: int_part_def digits_of_def)
  with n i show ?thesis by (auto simp: number_def Let_def split: if_splits)
qed

section \<open>Values\<close>

definition literals :: "(pystr \<times> json) list" where
  "literals = [(str ''null'', JNull), (str ''true'', JBool True), (str ''false'', JBool False),
     (str ''NaN'', JFloat (str ''NaN'')), (str ''Infinity'', JFloat (str ''Infinity'')),
     (str ''-Infinity'', JFloat (str ''-Infinity''))]"

definition scalar_value :: "pystr \<Rightarrow> (json \<times> pystr) option" where
  "scalar_value s =
     (case List.find (\<lambda>(t, v). prefix t s) literals of
        Some (t, v) \<Rightarrow> Some (v, drop (length t) s)
      | None \<Rightarrow> number s)"

fun dict_set :: "(pystr \<times> json) list \<Rightarrow> pystr \<Rightarrow> json \<Rightarrow> (pystr \<times> json) list" where
  "dict_set [] k v = [(k, v)]"
| "dict_set ((k', v') # d) k v = (if k' = k then (k, v) # d else (k', v') # dict_set d k v)"

definition dict_of :: "(pystr \<times> json) list \<Rightarrow> (pystr \<times> json) list" where
  "dict_of ms = foldl (\<lambda>d (k, v). dict_set d k v) [] ms"

fun jvalue :: "nat \<Rightarrow> pystr \<Rightarrow> (json \<times> pystr) option"
  and jelems :: "nat \<Rightarrow> pystr \<Rightarrow> (json list \<times> pystr) option"
  and jmembers :: "nat \<Rightarrow> pystr \<Rightarrow> ((pystr \<times> json) list \<times> pystr) option" where
  "jvalue 0 s = None"
| "jvalue (Suc n) s =
     (case s of
        [] \<Rightarrow> None
      | c # r \<Rightarrow>
          if c = 34 then map_option (\<lambda>(t, q). (JStr t, q)) (scanstring r)
          else if c = 123 then
            (if prefix [125] (skip_ws r) then Some (JObj [], tl (skip_ws r))
             else map_option (\<lambda>(ms, q). (JObj (dict_of ms), q)) (jmembers n (skip_ws r)))
          else if c = 91 then
            (if prefix [93] (skip_ws r) then Some (JArr [], tl (skip_ws r))
             else map_option (\<lambda>(vs, q). (JArr vs, q)) (jelems n (skip_ws r)))
          else scalar_value s)"
| "jelems 0 s = None"
| "jelems (Suc n) s =
     (case jvalue n s of
        None \<Rightarrow> None
      | Some (v, r) \<Rightarrow>
          (case skip_ws r of
             [] \<Rightarrow> None
           | c # q \<Rightarrow>
               if c = 93 then Some ([v], q)
               else if c = 44 then map_option (\<lambda>(vs, z). (v # vs, z)) (jelems n (skip_ws q))
               else None))"
| "jmembers 0 s = None"
| "jmembers (Suc n) s =
     (if \<not> prefix [34] s then None
      else
        (case scanstring (tl s) of
           None \<Rightarrow> None
         | Some (k, r) \<Rightarrow>
             (case skip_ws r of
                [] \<Rightarrow> None
              | c # q \<Rightarrow>
                  if c \<noteq> 58 then None
                  else
                    (case jvalue n (skip_ws q) of
                       None \<Rightarrow> None
                     | Some (v, y) \<Rightarrow>
                         (case skip_ws y of
                            [] \<Rightarrow> None
                          | d # z \<Rightarrow>
                              if d = 125 then Some ([(k, v)], z)
                              else if d = 44 then map_option (\<lambda>(ms, x). ((k, v) # ms, x)) (jmembers n (skip_ws z))
                              else None)))))"

definition loads :: "pystr \<Rightarrow> json option" where
  "loads s =
     (if prefix [65279] s then None
      else
        (case jvalue (2 * length s + 2) (skip_ws s) of
           None \<Rightarrow> None
         | Some (v, r) \<Rightarrow> if skip_ws r = [] then Some v else None))"

section \<open>Enough fuel\<close>

lemma skip_ws_length: "length (skip_ws s) \<le> length s"
  by (simp add: skip_ws_def length_dropWhile_le)

lemma skip_ws_Cons: "skip_ws s = c # r \<Longrightarrow> length r < length s"
  using skip_ws_length [of s] by simp

lemma scalar_value_length: "scalar_value s = Some (v, r) \<Longrightarrow> s \<noteq> [] \<Longrightarrow> length r < length s"
  by (auto simp: scalar_value_def literals_def str_def number_length split: option.splits if_splits
      dest!: prefix_length_le)

lemma jelems_Some:
  assumes "jelems (Suc n) s = Some (vs, r)"
  obtains v q where "jvalue n s = Some (v, q)" "skip_ws q = 93 # r" "vs = [v]"
  | v q z vs' where "jvalue n s = Some (v, q)" "skip_ws q = 44 # z" "jelems n (skip_ws z) = Some (vs', r)" "vs = v # vs'"
  using assms by (auto split: option.splits list.splits if_splits)

lemma jmembers_Some:
  assumes "jmembers (Suc n) s = Some (ms, r)"
  obtains k u q v y where "prefix [34] s" "scanstring (tl s) = Some (k, u)" "skip_ws u = 58 # q"
    "jvalue n (skip_ws q) = Some (v, y)" "skip_ws y = 125 # r" "ms = [(k, v)]"
  | k u q v y z ms' where "prefix [34] s" "scanstring (tl s) = Some (k, u)" "skip_ws u = 58 # q"
    "jvalue n (skip_ws q) = Some (v, y)" "skip_ws y = 44 # z" "jmembers n (skip_ws z) = Some (ms', r)" "ms = (k, v) # ms'"
  using assms by (auto split: option.splits list.splits if_splits)

lemma json_consumes:
  "jvalue n s = Some (v, r) \<Longrightarrow> length r < length s"
  "jelems n s = Some (vs, r) \<Longrightarrow> length r < length s"
  "jmembers n s = Some (ms, r) \<Longrightarrow> length r < length s"
proof (induction n s and n s and n s arbitrary: v r and vs r and ms r rule: jvalue_jelems_jmembers.induct)
  case (2 n s)
  then obtain c t where [simp]: "s = c # t" by (cases s) auto
  consider "c = 34" | "c = 123" | "c = 91" | "c \<notin> {34, 123, 91}" by auto
  then show ?case
  proof cases
    case 1
    with 2 show ?thesis by (auto dest!: scanstring_length)
  next
    case a: 2
    with 2 skip_ws_length [of t] show ?thesis
      by (fastforce split: if_splits)
  next
    case 3
    with 2 skip_ws_length [of t] show ?thesis
      by (fastforce split: if_splits)
  next
    case 4
    with 2 show ?thesis using scalar_value_length [of s v r] by simp
  qed
next
  case (4 n s)
  from 4(3) show ?case
  proof (cases rule: jelems_Some)
    case (1 v q)
    then show ?thesis using 4(1) skip_ws_Cons by fastforce
  next
    case (2 v q z vs')
    then have "length q < length s" "length z < length q" "length r < length (skip_ws z)"
      using 4(1,2) skip_ws_Cons by (auto simp: 2)
    then show ?thesis using skip_ws_length [of z] by linarith
  qed
next
  case (6 n s)
  have tl: "prefix [34] s \<Longrightarrow> length (tl s) < length s" by (cases s) auto
  from 6(3) show ?case
  proof (cases rule: jmembers_Some)
    case (1 k u q v y)
    have "length y < length (skip_ws q)" by (rule 6(1)) (use 1 in simp_all)
    then show ?thesis
      using scanstring_length [OF 1(2)] skip_ws_Cons [OF 1(3)] skip_ws_Cons [OF 1(5)] skip_ws_length [of q]
        tl [OF 1(1)] by linarith
  next
    case (2 k u q v y z ms')
    have "length y < length (skip_ws q)" by (rule 6(1)) (use 2 in simp_all)
    moreover have "length r < length (skip_ws z)" by (rule 6(2)) (use 2 in simp_all)
    ultimately show ?thesis
      using scanstring_length [OF 2(2)] skip_ws_Cons [OF 2(3)] skip_ws_Cons [OF 2(5)] skip_ws_length [of q]
        skip_ws_length [of z] tl [OF 2(1)] by linarith
  qed
qed simp_all

lemma json_fuel_step:
  "(2 * length s < n \<longrightarrow> jvalue (Suc n) s = jvalue n s) \<and>
   (2 * length s + 1 < n \<longrightarrow> jelems (Suc n) s = jelems n s) \<and>
   (2 * length s + 1 < n \<longrightarrow> jmembers (Suc n) s = jmembers n s)"
proof (induction n arbitrary: s)
  case (Suc n)
  have V: "2 * length t < n \<Longrightarrow> jvalue (Suc n) t = jvalue n t"
    and E: "2 * length t + 1 < n \<Longrightarrow> jelems (Suc n) t = jelems n t"
    and M: "2 * length t + 1 < n \<Longrightarrow> jmembers (Suc n) t = jmembers n t" for t
    using Suc.IH by blast+
  have "jvalue (Suc (Suc n)) s = jvalue (Suc n) s" if "2 * length s < Suc n"
  proof (cases s)
    case (Cons c r)
    then have "2 * length (skip_ws r) + 1 < n" using that skip_ws_length [of r] by simp
    then show ?thesis using E M Cons by (simp del: jelems.simps jmembers.simps)
  qed simp
  moreover have "jelems (Suc (Suc n)) s = jelems (Suc n) s" if "2 * length s + 1 < Suc n"
  proof -
    have "jvalue (Suc n) s = jvalue n s" using that V by simp
    moreover have "jelems (Suc n) (skip_ws q) = jelems n (skip_ws q)"
      if "jvalue n s = Some (v, r)" "skip_ws r = c # q" for v r c q
      using json_consumes(1) [OF that(1)] skip_ws_Cons [OF that(2)] skip_ws_length [of q]
        \<open>2 * length s + 1 < Suc n\<close> by (intro E) linarith
    ultimately show ?thesis
      by (simp only: jelems.simps) (simp del: jelems.simps split: option.splits list.splits)
  qed
  moreover have "jmembers (Suc (Suc n)) s = jmembers (Suc n) s" if "2 * length s + 1 < Suc n"
  proof -
    have "jvalue (Suc n) (skip_ws q) = jvalue n (skip_ws q)" 
      if "prefix [34] s" "scanstring (tl s) = Some (k, r)" "skip_ws r = c # q" for k r c q
      using scanstring_length [OF that(2)] skip_ws_Cons [OF that(3)] skip_ws_length [of q]
        \<open>2 * length s + 1 < Suc n\<close> by (intro V) (cases s; simp)
    moreover have "jmembers (Suc n) (skip_ws z) = jmembers n (skip_ws z)"
      if "prefix [34] s" "scanstring (tl s) = Some (k, r)" "skip_ws r = c # q"
        "jvalue n (skip_ws q) = Some (v, y)" "skip_ws y = d # z" for k r c q v y d z
      using scanstring_length [OF that(2)] skip_ws_Cons [OF that(3)] skip_ws_length [of q]
        json_consumes(1) [OF that(4)] skip_ws_Cons [OF that(5)] skip_ws_length [of z]
        \<open>2 * length s + 1 < Suc n\<close> by (intro M) (cases s; simp)
    ultimately show ?thesis
      by (simp only: jmembers.simps) (simp del: jmembers.simps jvalue.simps split: option.splits list.splits)
  qed
  ultimately show ?case by blast
qed simp

lemma jvalue_fuel: "2 * length s < n \<Longrightarrow> jvalue (n + k) s = jvalue n s"
proof (induction k)
  case (Suc k)
  then show ?case using json_fuel_step [of s "n + k"] by simp
qed simp

section \<open>Reading a document\<close>

definition json_get :: "pystr \<Rightarrow> json \<Rightarrow> pyexn + json" where
  "json_get k v =
     (case v of
        JObj d \<Rightarrow> (case map_of d k of Some x \<Rightarrow> Inr x | None \<Rightarrow> Inl (KeyErr k))
      | _ \<Rightarrow> Inl TypeErr)"

text \<open>A chain of subscripts, \<open>v[k1][k2]...\<close>.\<close>

fun json_path :: "string list \<Rightarrow> json \<Rightarrow> pyexn + json" where
  "json_path [] v = Inr v"
| "json_path (k # ks) v = (case json_get (str k) v of Inl e \<Rightarrow> Inl e | Inr x \<Rightarrow> json_path ks x)"

text \<open>The values of \<open>read_text\<close> and \<open>json.loads\<close> in sequence.\<close>

definition load_json :: "repo \<Rightarrow> pystr \<Rightarrow> pyexn + json" where
  "load_json w p =
     (case read_text w p of
        Inl e \<Rightarrow> Inl e
      | Inr t \<Rightarrow> (case loads t of None \<Rightarrow> Inl (JsonError p) | Some v \<Rightarrow> Inr v))"

lemma dict_set_keys: "set (map fst (dict_set d k v)) = insert k (set (map fst d))"
  by (induction d k v rule: dict_set.induct) auto

lemma dict_set_distinct: "distinct (map fst d) \<Longrightarrow> distinct (map fst (dict_set d k v))"
proof (induction d k v rule: dict_set.induct)
  case (2 k' v' d k v)
  then show ?case using dict_set_keys [of d k v] by auto
qed simp

lemma dict_set_lookup: "map_of (dict_set d k v) = (map_of d)(k \<mapsto> v)"
  by (induction d k v rule: dict_set.induct) (auto simp: fun_eq_iff)

text \<open>A dictionary has each key once, with the value of its last occurrence in the text.\<close>

lemma dict_of_map: "distinct (map fst (dict_of ms)) \<and> map_of (dict_of ms) = map_of (rev ms)"
proof (induction ms rule: rev_induct)
  case (snoc m ms)
  obtain k v where "m = (k, v)" by (cases m)
  with snoc show ?case by (simp add: dict_of_def dict_set_distinct dict_set_lookup fun_upd_def map_add_def fun_eq_iff)
qed (simp add: dict_of_def)

end
