(* ===== verification/Gate_Core.thy ===== *)
theory Gate_Core
  imports Source_Text
begin

text \<open>
  What the milestone gates share: going on with a value that may be an exception, running a
  tool, the tokens a text lacks, the symbols \<open>nm\<close> prints, the source of a file with its
  comments removed, and the runner of the unit-test suites in the three forms it has.

  The suite runner has a contract of its own, the locale \<open>strict_suite\<close>: a suite that is
  accepted ran at least one test and skipped none. The runners of milestones 8 to 11 keep it;
  the one of milestones 5 to 7 does not.
\<close>

section \<open>Sequencing\<close>

definition attempt :: "pyexn + 'a \<Rightarrow> ('a \<Rightarrow> outcome) \<Rightarrow> outcome" where
  "attempt x k = (case x of Inl e \<Rightarrow> raised e | Inr v \<Rightarrow> k v)"

lemma passed_attempt [simp, outcome_simps]:
  "passed (attempt x k) \<longleftrightarrow> (\<exists>v. x = Inr v \<and> passed (k v))"
  by (auto simp: attempt_def split: sum.splits)

definition running :: "repo \<Rightarrow> pystr list \<Rightarrow> (int \<Rightarrow> pystr \<Rightarrow> pystr \<Rightarrow> outcome) \<Rightarrow> outcome" where
  "running w argv k =
     (case proc w argv of
        Done rc out err \<Rightarrow> k rc out err
      | TimedOut \<Rightarrow> raised TimeoutErr
      | NotFound \<Rightarrow> raised (OsError (hd argv)))"

lemma passed_running [simp, outcome_simps]:
  "passed (running w argv k) \<longleftrightarrow> (\<exists>rc out err. proc w argv = Done rc out err \<and> passed (k rc out err))"
  by (auto simp: running_def split: procres.splits)

text \<open>A failure that does not end the check.\<close>

definition fail_if :: "bool \<Rightarrow> string \<Rightarrow> pystr list \<Rightarrow> outcome" where
  "fail_if b m as = (if b then failed m as else nothing)"

lemma passed_fail_if [simp, outcome_simps]: "passed (fail_if b m as) \<longleftrightarrow> \<not> b"
  by (simp add: fail_if_def)

text \<open>The gates of milestones 1, 3 and 4 raise at the first violation.\<close>

definition gate_error :: "string \<Rightarrow> pystr list \<Rightarrow> outcome" where
  "gate_error m as = raised (GateError m as)"

definition raise_if :: "bool \<Rightarrow> string \<Rightarrow> pystr list \<Rightarrow> outcome" where
  "raise_if b m as = (if b then gate_error m as else nothing)"

lemma passed_gate_error [simp, outcome_simps]: "\<not> passed (gate_error m as)"
  by (simp add: gate_error_def)

lemma passed_raise_if [simp, outcome_simps]: "passed (raise_if b m as) \<longleftrightarrow> \<not> b"
  by (simp add: raise_if_def)

section \<open>Tokens\<close>

definition absent :: "string list \<Rightarrow> pystr \<Rightarrow> pystr list" where
  "absent tokens s = filter (\<lambda>t. \<not> contains s t) (map str tokens)"

lemma absent_Nil [simp]: "absent tokens s = [] \<longleftrightarrow> (\<forall>t \<in> set tokens. contains s (str t))"
  by (auto simp: absent_def filter_empty_conv)

text \<open>\<open>str.count\<close>: occurrences that do not overlap.\<close>

definition py_count :: "pystr \<Rightarrow> pystr \<Rightarrow> nat" where
  "py_count s p = length (split_str p s) - 1"

text \<open>\<open>next((line for line in lines if line.startswith(p)), "")\<close>.\<close>

definition first_starting :: "pystr \<Rightarrow> pystr list \<Rightarrow> pystr" where
  "first_starting p ls = (case List.find (\<lambda>l. startswith l p) ls of Some l \<Rightarrow> l | None \<Rightarrow> [])"

text \<open>The words after the colon of the rule that starts with the target.\<close>

definition dependencies_of :: "string \<Rightarrow> pystr list \<Rightarrow> pystr list" where
  "dependencies_of target ls = words (after_first (first_starting (str target @ str '':'') ls) (str '':''))"

text \<open>The last column of each line of a symbol table that is not blank.\<close>

definition last_columns :: "pystr \<Rightarrow> pystr list" where
  "last_columns out = map (\<lambda>l. last (words l)) (filter (\<lambda>l. strip l \<noteq> []) (splitlines out))"

text \<open>The sorted elements of a set of names that a table lacks.\<close>

definition lacking :: "string list \<Rightarrow> pystr list \<Rightarrow> pystr list" where
  "lacking required have = sorted_set (filter (\<lambda>n. n \<notin> set have) (map str required))"

lemma lacking_Nil [simp]: "lacking required have = [] \<longleftrightarrow> (\<forall>n \<in> set required. str n \<in> set have)"
  by (auto simp: lacking_def filter_empty_conv)

text \<open>\<open>\bcall\s+name\b\<close>.\<close>

definition rx_call :: "string \<Rightarrow> rx" where
  "rx_call n = rx_seq [WordB, rx_lit ''call'', rx_plus rx_space, rx_lit n, WordB]"

text \<open>A literal under \<open>re.IGNORECASE\<close>: both cases of an ASCII letter.\<close>

definition rx_ichr :: "cp \<Rightarrow> rx" where
  "rx_ichr c =
     Cls False
       (if is_lower c then [(c, c), (c - 32, c - 32)]
        else if is_upper c then [(c, c), (c + 32, c + 32)] else [(c, c)])"

definition rx_ilit :: "string \<Rightarrow> rx" where
  "rx_ilit s = rx_seq (map rx_ichr (str s))"

text \<open>The value of a run of decimal digits.\<close>

definition int_of :: "pystr \<Rightarrow> int" where
  "int_of ds = foldl (\<lambda>n d. 10 * n + (d - 48)) 0 ds"

section \<open>Words in a text\<close>

definition ends_word :: "pystr \<Rightarrow> bool" where
  "ends_word u \<longleftrightarrow> word_opt (pos_after None u)"

definition starts_word :: "pystr \<Rightarrow> bool" where
  "starts_word t \<longleftrightarrow> word_opt (head_opt t)"

definition wordlike :: "pystr \<Rightarrow> bool" where
  "wordlike w \<longleftrightarrow> w \<noteq> [] \<and> is_word (hd w) \<and> is_word (last w)"

text \<open>A whole word of the text, and a word with an opening parenthesis after it.\<close>

definition whole_word :: "pystr \<Rightarrow> pystr \<Rightarrow> bool" where
  "whole_word w s \<longleftrightarrow> (\<exists>u t. s = u @ w @ t \<and> \<not> ends_word u \<and> \<not> starts_word t)"

definition called_in :: "pystr \<Rightarrow> pystr \<Rightarrow> bool" where
  "called_in w s \<longleftrightarrow>
     (\<exists>u sp t. s = u @ w @ sp @ [40] @ t \<and> (\<forall>c \<in> set sp. is_space c) \<and> \<not> ends_word u)"

definition fold_case :: "cp \<Rightarrow> cp" where
  "fold_case c = (if is_upper c then c + 32 else c)"

definition whole_word_any_case :: "pystr \<Rightarrow> pystr \<Rightarrow> bool" where
  "whole_word_any_case w s \<longleftrightarrow> (\<exists>v. map fold_case v = map fold_case w \<and> whole_word v s)"

lemma rel_alts_iff: "rx_rel (rx_alts rs) (p, s) y \<longleftrightarrow> (\<exists>r \<in> set rs. rx_rel r (p, s) y)"
  by (induction rs rule: rx_alts.induct) (simp_all add: rel_cls_iff rel_alt_iff in_cls.simps)

lemma can_wordb: "rx_can (Cat WordB b) (p, s) \<longleftrightarrow> word_opt p \<noteq> word_opt (head_opt s) \<and> rx_can b (p, s)"
  unfolding can_cat rel_wordb_iff by blast

lemma wordlike_starts: "wordlike w \<Longrightarrow> word_opt (head_opt (w @ t))"
  by (cases w) (auto simp: wordlike_def word_opt_def head_opt_def)

lemma can_wordb_after: "wordlike w \<Longrightarrow> rx_can WordB (end_pos p w t) \<longleftrightarrow> \<not> starts_word t"
  by (simp add: rx_can_def end_pos_def rel_wordb_iff wordlike_def starts_word_def word_opt_def [of "Some _"])

lemma can_alts:
  "rx_can (Cat (rx_alts (map rx_lit ns)) b) (p, s) \<longleftrightarrow>
     (\<exists>n \<in> set ns. \<exists>t. s = str n @ t \<and> rx_can b (end_pos p (str n) t))"
proof -
  have eq: "(\<exists>r \<in> set (map rx_lit ns). rx_rel r (p, s) y) \<longleftrightarrow>
      (\<exists>n \<in> set ns. \<exists>t. s = str n @ t \<and> y = end_pos p (str n) t)" for y
    by (simp add: rx_lit_def rel_str_iff)
  show ?thesis unfolding can_cat rel_alts_iff eq by blast
qed

lemma found_boundary:
  assumes "\<And>n. n \<in> set ns \<Longrightarrow> wordlike (str n)"
  shows "rx_found (Cat WordB (Cat (rx_alts (map rx_lit ns)) b)) s \<longleftrightarrow>
     (\<exists>n \<in> set ns. \<exists>u t. s = u @ str n @ t \<and> \<not> ends_word u \<and>
        rx_can b (end_pos (pos_after None u) (str n) t))"
proof -
  have "word_opt (head_opt (str n @ t))" if "n \<in> set ns" for n t
    using wordlike_starts [OF assms [OF that]] .
  then have "rx_can (Cat WordB (Cat (rx_alts (map rx_lit ns)) b)) (p, v) \<longleftrightarrow>
      (\<exists>n \<in> set ns. \<exists>t. v = str n @ t \<and> \<not> word_opt p \<and> rx_can b (end_pos p (str n) t))" for p v
    unfolding can_wordb can_alts by blast
  then show ?thesis unfolding rx_found_can ends_word_def by blast
qed

lemma found_words:
  assumes "\<And>n. n \<in> set ns \<Longrightarrow> wordlike (str n)"
  shows "rx_found (rx_seq [WordB, rx_alts (map rx_lit ns), WordB]) s \<longleftrightarrow>
     (\<exists>n \<in> set ns. whole_word (str n) s)"
  using found_boundary [of ns WordB s, OF assms] can_wordb_after [OF assms]
  by (simp add: whole_word_def)

lemma can_open_paren:
  "rx_can (Cat (Star rx_space) (rx_lit ''('')) (p, s) \<longleftrightarrow>
     (\<exists>sp t. s = sp @ [40] @ t \<and> (\<forall>c \<in> set sp. is_space c))"
proof -
  have "rx_can (rx_lit ''('') (end_pos q u t) \<longleftrightarrow> (\<exists>v. t = [40] @ v)" for q u t
    unfolding end_pos_def rx_lit_def can_str_last by (simp add: str_def)
  then show ?thesis unfolding rx_space_def can_star_cls in_cls_space by blast
qed

lemma found_calls:
  assumes "\<And>n. n \<in> set ns \<Longrightarrow> wordlike (str n)"
  shows "rx_found (rx_seq [WordB, rx_alts (map rx_lit ns), Star rx_space, rx_lit ''('']) s \<longleftrightarrow>
     (\<exists>n \<in> set ns. called_in (str n) s)"
proof -
  have paren: "rx_can (Cat (Star rx_space) (rx_lit ''('')) (end_pos q w v) \<longleftrightarrow>
      (\<exists>sp t. v = sp @ [40] @ t \<and> (\<forall>c \<in> set sp. is_space c))" for q w v
    unfolding end_pos_def can_open_paren ..
  have "(\<exists>u t. s = u @ w @ t \<and> \<not> ends_word u \<and> (\<exists>sp v. t = sp @ [40] @ v \<and> (\<forall>c \<in> set sp. is_space c)))
      \<longleftrightarrow> called_in w s" for w
    unfolding called_in_def by blast
  then show ?thesis
    using found_boundary [of ns "Cat (Star rx_space) (rx_lit ''('')" s, OF assms]
    by (simp only: rx_seq.simps paren)
qed

text \<open>The same for a word in any case.\<close>

lemma in_cls_ichr: "rx_rel (rx_ichr c) (p, s) y \<longleftrightarrow>
    (\<exists>d t. s = d # t \<and> fold_case d = fold_case c \<and> y = (Some d, t))"
proof -
  have "in_cls False (if is_lower c then [(c, c), (c - 32, c - 32)]
        else if is_upper c then [(c, c), (c + 32, c + 32)] else [(c, c)]) d \<longleftrightarrow> fold_case d = fold_case c" for d
    by (auto simp: in_cls.simps fold_case_def is_lower_def is_upper_def)
  then show ?thesis by (simp add: rx_ichr_def rel_cls_iff)
qed

lemma rel_iseq: "rx_rel (rx_seq (map rx_ichr w)) (p, s) y \<longleftrightarrow>
    (\<exists>v t. s = v @ t \<and> map fold_case v = map fold_case w \<and> y = end_pos p v t)"
proof (induction w arbitrary: p s)
  case (Cons c w)
  have "rx_rel (rx_seq (map rx_ichr (c # w))) (p, s) y \<longleftrightarrow>
      (\<exists>d t. s = d # t \<and> fold_case d = fold_case c \<and> rx_rel (rx_seq (map rx_ichr w)) (Some d, t) y)"
    by (cases w) (auto simp: rel_cat_iff in_cls_ichr rel_eps_iff)
  also have "\<dots> \<longleftrightarrow> (\<exists>d v t. s = (d # v) @ t \<and> map fold_case (d # v) = map fold_case (c # w) \<and>
      y = end_pos p (d # v) t)" unfolding Cons.IH by auto
  also have "\<dots> \<longleftrightarrow> (\<exists>v t. s = v @ t \<and> map fold_case v = map fold_case (c # w) \<and> y = end_pos p v t)"
    by (metis list.distinct(1) list.map_disc_iff list.exhaust)
  finally show ?case .
qed (auto simp: rel_eps_iff)

lemma is_word_fold [simp]: "is_word (fold_case c) \<longleftrightarrow> is_word c"
  by (auto simp: fold_case_def is_word_def is_upper_def is_lower_def is_digit_def)

lemma wordlike_fold:
  assumes "map fold_case v = map fold_case w" shows "wordlike v \<longleftrightarrow> wordlike w"
proof -
  have "v = [] \<longleftrightarrow> w = []" using assms by (metis map_is_Nil_conv)
  moreover have "v \<noteq> [] \<Longrightarrow> is_word (hd v) = is_word (hd w) \<and> is_word (last v) = is_word (last w)"
    using assms calculation by (metis hd_map is_word_fold last_map)
  ultimately show ?thesis by (auto simp: wordlike_def)
qed

lemma can_ialts:
  "rx_can (Cat (rx_alts (map rx_ilit ns)) b) (p, s) \<longleftrightarrow>
     (\<exists>n \<in> set ns. \<exists>v t. s = v @ t \<and> map fold_case v = map fold_case (str n) \<and> rx_can b (end_pos p v t))"
proof -
  have eq: "(\<exists>r \<in> set (map rx_ilit ns). rx_rel r (p, s) y) \<longleftrightarrow>
      (\<exists>n \<in> set ns. \<exists>v t. s = v @ t \<and> map fold_case v = map fold_case (str n) \<and> y = end_pos p v t)" for y
    by (simp add: rx_ilit_def rel_iseq)
  show ?thesis unfolding can_cat rel_alts_iff eq by blast
qed

lemma found_words_any_case:
  assumes wl: "\<And>n. n \<in> set ns \<Longrightarrow> wordlike (str n)"
  shows "rx_found (rx_seq [WordB, rx_alts (map rx_ilit ns), WordB]) s \<longleftrightarrow>
     (\<exists>n \<in> set ns. whole_word_any_case (str n) s)"
proof -
  have word: "wordlike v" if "n \<in> set ns" "map fold_case v = map fold_case (str n)" for n v
    using that wl wordlike_fold by blast
  have "rx_can (Cat WordB (Cat (rx_alts (map rx_ilit ns)) WordB)) (p, x) \<longleftrightarrow>
      (\<exists>n \<in> set ns. \<exists>v t. x = v @ t \<and> map fold_case v = map fold_case (str n) \<and>
         \<not> word_opt p \<and> \<not> starts_word t)" for p x
    unfolding can_wordb can_ialts using word wordlike_starts can_wordb_after by blast
  then have "rx_found (rx_seq [WordB, rx_alts (map rx_ilit ns), WordB]) s \<longleftrightarrow>
      (\<exists>u x. s = u @ x \<and> (\<exists>n \<in> set ns. \<exists>v t. x = v @ t \<and> map fold_case v = map fold_case (str n) \<and>
         \<not> ends_word u \<and> \<not> starts_word t))"
    by (simp add: rx_found_can ends_word_def)
  then show ?thesis unfolding whole_word_any_case_def whole_word_def by blast
qed

section \<open>Sources without comments\<close>

definition code_of :: "repo \<Rightarrow> pystr \<Rightarrow> pyexn + pystr" where
  "code_of w rel =
     (case read_text w rel of
        Inl e \<Rightarrow> Inl e
      | Inr t \<Rightarrow>
          if path_suffix rel \<in> {str ''.asm'', str ''.inc''} then Inr (strip_asm_comments t)
          else if path_suffix rel \<in> {str ''.c'', str ''.h''} then Inr (strip_c_comments t)
          else Inl (ValueErr ''no comment stripper''))"

text \<open>The code of several files, in order.\<close>

fun code_of_all :: "repo \<Rightarrow> pystr list \<Rightarrow> pyexn + pystr list" where
  "code_of_all w [] = Inr []"
| "code_of_all w (p # ps) =
     (case code_of w p of
        Inl e \<Rightarrow> Inl e
      | Inr t \<Rightarrow> (case code_of_all w ps of Inl e \<Rightarrow> Inl e | Inr ts \<Rightarrow> Inr (t # ts)))"

lemma code_of_all_Inr:
  "code_of_all w ps = Inr ts \<longleftrightarrow> list_all2 (\<lambda>p t. code_of w p = Inr t) ps ts"
proof (induction ps arbitrary: ts)
  case (Cons p ps)
  show ?case by (cases ts; cases "code_of w p"; cases "code_of_all w ps") (simp_all flip: Cons.IH)
qed auto

section \<open>Suites\<close>

definition COUNT_RE :: rx where
  "COUNT_RE = rx_seq [rx_lit ''Ran '', Grp 1 (rx_plus rx_digit), rx_lit '' test'', rx_opt (rx_lit ''s'')]"

definition SKIPPED_RE :: rx where
  "SKIPPED_RE = rx_seq [rx_lit ''skipped='', Grp 1 (rx_plus rx_digit)]"

definition group1 :: "rx \<Rightarrow> pystr \<Rightarrow> pystr option" where
  "group1 r s = map_option (\<lambda>x. group_of 1 (snd x)) (rx_search r s)"

text \<open>
  The command line of a suite. The environment variable the runner sets is written in front,
  as the shell would write it.
\<close>

definition suite_argv :: "repo \<Rightarrow> pystr list \<Rightarrow> pystr list" where
  "suite_argv w tests =
     [str ''BUILD_DIR='' @ build_dir w, str ''python3'', str ''-m'', str ''unittest'', str ''-v''] @ tests"

definition run_suite :: "repo \<Rightarrow> pystr \<Rightarrow> pystr list \<Rightarrow> outcome" where
  "run_suite w name tests =
     running w (suite_argv w tests) (\<lambda>rc out err.
       let output = out @ err; count = group1 COUNT_RE output; skipped = group1 SKIPPED_RE output in
       if rc \<noteq> 0 then failed ''failed'' [name, output]
       else if count = None \<or> int_of (the count) = 0 then
         failed ''ran zero or an uncountable number of tests'' [name, output]
       else if skipped \<noteq> None \<and> int_of (the skipped) \<noteq> 0 then
         failed ''skipped tests under the gate'' [name, output]
       else okay ''tests'' [int_of (the count)])"

text \<open>What a suite runner that takes its verdict from the report promises.\<close>

definition ran_and_skipped_none :: "repo \<Rightarrow> pystr list \<Rightarrow> bool" where
  "ran_and_skipped_none w argv \<longleftrightarrow>
     (\<exists>out err n. proc w argv = Done 0 out err \<and>
        group1 COUNT_RE (out @ err) = Some n \<and> int_of n \<noteq> 0 \<and>
        (\<forall>k. group1 SKIPPED_RE (out @ err) = Some k \<longrightarrow> int_of k = 0))"

locale strict_suite =
  fixes runner :: "repo \<Rightarrow> pystr \<Rightarrow> pystr list \<Rightarrow> outcome" and argv :: "repo \<Rightarrow> pystr list \<Rightarrow> pystr list"
  assumes verdict: "passed (runner w name tests) \<longleftrightarrow> ran_and_skipped_none w (argv w tests)"
begin

lemma all_suites:
  "passed (for_each suites (\<lambda>(name, tests). runner w name tests)) \<longleftrightarrow>
     (\<forall>(name, tests) \<in> set suites. ran_and_skipped_none w (argv w tests))"
  by (auto simp: verdict)

lemma silent_report_fails:
  "proc w (argv w tests) = Done rc out err \<Longrightarrow> group1 COUNT_RE (out @ err) = None \<Longrightarrow>
   \<not> passed (runner w name tests)"
  by (auto simp: verdict ran_and_skipped_none_def)

end

lemma run_suite_verdict:
  "passed (run_suite w name tests) \<longleftrightarrow> ran_and_skipped_none w (suite_argv w tests)"
proof (cases "proc w (suite_argv w tests)")
  case (Done rc out err)
  then show ?thesis
    by (cases "group1 COUNT_RE (out @ err)"; cases "group1 SKIPPED_RE (out @ err)")
      (simp_all add: run_suite_def ran_and_skipped_none_def Let_def)
qed (simp_all add: run_suite_def ran_and_skipped_none_def)

interpretation suite8: strict_suite run_suite suite_argv
  by unfold_locales (rule run_suite_verdict)

text \<open>
  The runner of milestones 9 to 11, with a floor on the number of tests; a suite that takes too
  long is a failure of the gate, not a traceback.
\<close>

definition counted_suite :: "repo \<Rightarrow> pystr \<Rightarrow> pystr \<Rightarrow> int \<Rightarrow> outcome" where
  "counted_suite w name module minimum =
     (case proc w (suite_argv w [module]) of
        TimedOut \<Rightarrow> failed ''exceeded the 900 second gate budget'' [name]
      | NotFound \<Rightarrow> raised (OsError (str ''python3''))
      | Done rc out err \<Rightarrow>
          (let output = out @ err; count = group1 COUNT_RE output; skipped = group1 SKIPPED_RE output in
           if rc \<noteq> 0 then failed ''failed'' [name, output]
           else if count = None \<or> int_of (the count) < minimum then failed ''ran too few tests'' [name, output]
           else if skipped \<noteq> None \<and> int_of (the skipped) \<noteq> 0 then
             failed ''skipped tests under the gate'' [name, output]
           else okay ''tests'' [int_of (the count)]))"

definition ran_at_least :: "repo \<Rightarrow> pystr list \<Rightarrow> int \<Rightarrow> bool" where
  "ran_at_least w argv k \<longleftrightarrow>
     (\<exists>out err n. proc w argv = Done 0 out err \<and>
        group1 COUNT_RE (out @ err) = Some n \<and> k \<le> int_of n \<and>
        (\<forall>s. group1 SKIPPED_RE (out @ err) = Some s \<longrightarrow> int_of s = 0))"

lemma counted_suite_verdict:
  "passed (counted_suite w name m k) \<longleftrightarrow> ran_at_least w (suite_argv w [m]) k"
proof (cases "proc w (suite_argv w [m])")
  case (Done rc out err)
  then show ?thesis
    by (cases "group1 COUNT_RE (out @ err)"; cases "group1 SKIPPED_RE (out @ err)")
      (auto simp: counted_suite_def ran_at_least_def Let_def)
qed (simp_all add: counted_suite_def ran_at_least_def)

text \<open>A floor above zero gives the contract of the plain runner.\<close>

lemma ran_at_least_strict: "ran_at_least w argv k \<Longrightarrow> 0 < k \<Longrightarrow> ran_and_skipped_none w argv"
  by (fastforce simp: ran_at_least_def ran_and_skipped_none_def)

locale floor_suite =
  fixes runner :: "repo \<Rightarrow> pystr \<Rightarrow> pystr \<Rightarrow> int \<Rightarrow> outcome"
  assumes floor: "passed (runner w name m k) \<longleftrightarrow> ran_at_least w (suite_argv w [m]) k"
begin

lemma every_suite:
  "passed (for_each suites (\<lambda>(name, m, k). runner w (str name) (str m) k)) \<longleftrightarrow>
     list_all (\<lambda>(name, m, k). ran_at_least w (suite_argv w [str m]) k) suites"
  by (auto simp: floor list_all_iff)

lemma positive_floor: "0 < k \<Longrightarrow> passed (runner w name m k) \<Longrightarrow> ran_and_skipped_none w (suite_argv w [m])"
  using ran_at_least_strict by (simp add: floor)

end

text \<open>
  The runner of milestones 5 to 7, which takes a module: the report must not mention a skipped
  test or say that no test ran, but it need not report anything at all.
\<close>

definition module_argv :: "repo \<Rightarrow> pystr \<Rightarrow> pystr list" where
  "module_argv w m =
     [str ''BUILD_DIR='' @ build_dir w, str ''python3'', str ''-m'', str ''unittest'', m]"

definition COUNT_M5_RE :: rx where
  "COUNT_M5_RE = rx_seq [rx_lit ''Ran '', Grp 1 (rx_plus rx_digit), rx_lit '' test'']"

definition module_suite :: "repo \<Rightarrow> pystr \<Rightarrow> pystr \<Rightarrow> outcome" where
  "module_suite w name module =
     running w (module_argv w module) (\<lambda>rc out err.
       if rc \<noteq> 0 then failed ''failed'' [name, out, err]
       else if contains err (str ''skipped='') \<or> rx_found (rx_lit ''Ran 0 tests'') err then
         failed ''skipped tests under the gate'' [name, err]
       else
         (case group1 COUNT_M5_RE err of
            Some n \<Rightarrow> okay ''tests'' [int_of n]
          | None \<Rightarrow> okay ''tests'' []))"

lemma module_suite_verdict:
  "passed (module_suite w name m) \<longleftrightarrow>
     (\<exists>out err. proc w (module_argv w m) = Done 0 out err \<and>
        \<not> contains err (str ''skipped='') \<and> \<not> contains err (str ''Ran 0 tests''))"
proof (cases "proc w (module_argv w m)")
  case (Done rc out err)
  then show ?thesis
    by (cases "group1 COUNT_M5_RE err") (simp_all add: module_suite_def rx_lit_def rx_found_str)
qed (simp_all add: module_suite_def)

section \<open>Indexing\<close>

text \<open>\<open>str.index\<close>, which raises when the text is absent.\<close>

definition py_index :: "pystr \<Rightarrow> pystr \<Rightarrow> pyexn + int" where
  "py_index s p = (if py_find s p < 0 then Inl (ValueErr ''substring not found'') else Inr (py_find s p))"

text \<open>\<open>read_text(errors="ignore")\<close>: bytes that are not UTF-8 are dropped one by one.\<close>

function utf8_decode_ignore :: "bytes \<Rightarrow> pystr" where
  "utf8_decode_ignore bs =
     (if bs = [] then []
      else case utf8_step bs of
             None \<Rightarrow> utf8_decode_ignore (tl bs)
           | Some (c, t) \<Rightarrow> c # utf8_decode_ignore t)"
  by pat_completeness auto
termination
  by (relation "measure length") (auto dest: utf8_step_length)

declare utf8_decode_ignore.simps [simp del]

lemma utf8_decode_ignore_step:
  "utf8_step bs = Some (c, t) \<Longrightarrow> utf8_decode_ignore bs = c # utf8_decode_ignore t"
proof -
  assume step: "utf8_step bs = Some (c, t)"
  then have "bs \<noteq> []" by auto
  with step show ?thesis by (simp add: utf8_decode_ignore.simps [of bs] del: utf8_step.simps)
qed

lemma utf8_decode_ignore_valid: "utf8_decode bs = Some s \<Longrightarrow> utf8_decode_ignore bs = s"
proof (induction s arbitrary: bs)
  case Nil
  then have "bs = []" by (simp add: utf8_decode.simps [of bs] split: if_splits option.splits prod.splits)
  then show ?case by (simp add: utf8_decode_ignore.simps)
next
  case (Cons c s)
  then obtain t where "utf8_step bs = Some (c, t)" "utf8_decode t = Some s"
    by (auto simp: utf8_decode.simps [of bs] split: if_splits option.splits prod.splits)
  then show ?case using Cons.IH utf8_decode_ignore_step by simp
qed

definition read_text_ignore :: "repo \<Rightarrow> pystr \<Rightarrow> pyexn + pystr" where
  "read_text_ignore w p =
     (case read_bytes w p of Inl e \<Rightarrow> Inl e | Inr b \<Rightarrow> Inr (universal_newlines (utf8_decode_ignore b)))"

end
