(* ===== verification/Py_Value.thy ===== *)
theory Py_Value
  imports Json Gate_Core
begin

text \<open>
  Operations of Python on the values of a JSON document: \<open>dict.get\<close>, truth, length, iteration,
  equality and hashing, with the exceptions they raise on a value of another type; the walk
  over a document; and decimal numerals.

  Equality follows Python's numeric tower: \<open>True\<close>, \<open>1\<close> and \<open>1.0\<close> are equal. Two float literals
  are compared by their decimal value, without rounding to a binary float. Containers are
  compared by structure; the scripts only compare a container with a scalar.
\<close>

section \<open>Numbers\<close>

definition float_parts :: "pystr \<Rightarrow> int \<times> int" where
  "float_parts t =
     (let neg = prefix [45] t;
          u = (if neg then tl t else t);
          i = digits_of u;
          r = drop (length i) u;
          f = (if prefix [46] r then digits_of (tl r) else []);
          r2 = (if prefix [46] r then drop (length f + 1) r else r);
          x = (if r2 = [] then 0
               else if prefix [45] (tl r2) then - nat_text (tl (tl r2))
               else if prefix [43] (tl r2) then nat_text (tl (tl r2)) else nat_text (tl r2));
          m = nat_text (i @ f)
      in (if neg then - m else m, x - int (length f)))"

definition num_of :: "json \<Rightarrow> (int \<times> int) option" where
  "num_of v =
     (case v of
        JBool b \<Rightarrow> Some (if b then 1 else 0, 0)
      | JInt n \<Rightarrow> Some (n, 0)
      | JFloat t \<Rightarrow> if t \<in> {str ''NaN'', str ''Infinity'', str ''-Infinity''} then None else Some (float_parts t)
      | _ \<Rightarrow> None)"

definition same_number :: "int \<times> int \<Rightarrow> int \<times> int \<Rightarrow> bool" where
  "same_number a b =
     (case (a, b) of ((m, e), (n, f)) \<Rightarrow>
        if e \<le> f then m = n * 10 ^ nat (f - e) else m * 10 ^ nat (e - f) = n)"

definition py_eq :: "json \<Rightarrow> json \<Rightarrow> bool" where
  "py_eq a b =
     (case (num_of a, num_of b) of
        (Some x, Some y) \<Rightarrow> same_number x y
      | (None, None) \<Rightarrow> a = b
      | _ \<Rightarrow> False)"

section \<open>Objects and sequences\<close>

definition py_get :: "pystr \<Rightarrow> json \<Rightarrow> json \<Rightarrow> pyexn + json" where
  "py_get k dflt v =
     (case v of
        JObj d \<Rightarrow> Inr (case map_of d k of Some x \<Rightarrow> x | None \<Rightarrow> dflt)
      | _ \<Rightarrow> Inl AttrErr)"

definition hashable :: "json \<Rightarrow> bool" where
  "hashable v = (case v of JArr _ \<Rightarrow> False | JObj _ \<Rightarrow> False | _ \<Rightarrow> True)"

definition truthy :: "json \<Rightarrow> bool" where
  "truthy v =
     (case v of
        JNull \<Rightarrow> False
      | JBool b \<Rightarrow> b
      | JInt n \<Rightarrow> n \<noteq> 0
      | JFloat t \<Rightarrow> (case num_of v of Some (m, e) \<Rightarrow> m \<noteq> 0 | None \<Rightarrow> True)
      | JStr s \<Rightarrow> s \<noteq> []
      | JArr vs \<Rightarrow> vs \<noteq> []
      | JObj d \<Rightarrow> d \<noteq> [])"

definition py_len :: "json \<Rightarrow> pyexn + int" where
  "py_len v =
     (case v of
        JStr s \<Rightarrow> Inr (int (length s))
      | JArr vs \<Rightarrow> Inr (int (length vs))
      | JObj d \<Rightarrow> Inr (int (length d))
      | _ \<Rightarrow> Inl TypeErr)"

definition py_iter :: "json \<Rightarrow> pyexn + json list" where
  "py_iter v =
     (case v of
        JStr s \<Rightarrow> Inr (map (\<lambda>c. JStr [c]) s)
      | JArr vs \<Rightarrow> Inr vs
      | JObj d \<Rightarrow> Inr (map (\<lambda>(k, x). JStr k) d)
      | _ \<Rightarrow> Inl TypeErr)"

text \<open>A comprehension \<open>[f(x) for x in xs]\<close> whose element may raise.\<close>

fun collect_all :: "('a \<Rightarrow> pyexn + 'b) \<Rightarrow> 'a list \<Rightarrow> pyexn + 'b list" where
  "collect_all f [] = Inr []"
| "collect_all f (x # xs) =
     (case f x of
        Inl e \<Rightarrow> Inl e
      | Inr y \<Rightarrow> (case collect_all f xs of Inl e \<Rightarrow> Inl e | Inr ys \<Rightarrow> Inr (y # ys)))"

lemma collect_all_Inr: "collect_all f xs = Inr ys \<Longrightarrow> list_all2 (\<lambda>x y. f x = Inr y) xs ys"
  by (induction xs arbitrary: ys) (auto split: sum.splits)

definition andthen :: "pyexn + 'a \<Rightarrow> ('a \<Rightarrow> pyexn + 'b) \<Rightarrow> pyexn + 'b" where
  "andthen x f = (case x of Inl e \<Rightarrow> Inl e | Inr v \<Rightarrow> f v)"

text \<open>\<open>len(set(xs))\<close>: elements equal to an earlier one are dropped.\<close>

fun py_dedup :: "json list \<Rightarrow> json list" where
  "py_dedup [] = []"
| "py_dedup (x # xs) = (if list_ex (py_eq x) xs then py_dedup xs else x # py_dedup xs)"

lemma py_dedup_length: "length (py_dedup xs) \<le> length xs"
  by (induction xs) auto

lemma py_dedup_all: "length (py_dedup xs) = length xs \<longleftrightarrow> sorted_wrt (\<lambda>x y. \<not> py_eq x y) xs"
proof (induction xs)
  case (Cons x xs)
  then show ?case using py_dedup_length [of xs] by (auto simp: list_ex_iff)
qed simp

section \<open>Walking a document\<close>

function dec_text :: "nat \<Rightarrow> pystr" where
  "dec_text n = (if n < 10 then [48 + int n] else dec_text (n div 10) @ [48 + int (n mod 10)])"
  by pat_completeness auto
termination
  by (relation "measure id") auto

declare dec_text.simps [simp del]

text \<open>The steps out of a value: each child with the text of its key or index.\<close>

definition children :: "json \<Rightarrow> (pystr \<times> json) list" where
  "children v =
     (case v of
        JObj d \<Rightarrow> d
      | JArr vs \<Rightarrow> map (\<lambda>(i, c). (dec_text i, c)) (List.enumerate 0 vs)
      | _ \<Rightarrow> [])"

lemma children_size: "(k, c) \<in> set (children v) \<Longrightarrow> size c < size v"
proof (cases v)
  case (JArr vs)
  assume "(k, c) \<in> set (children v)"
  then have "c \<in> set vs" using JArr by (auto simp: children_def in_set_enumerate_eq)
  then show ?thesis using JArr size_list_estimation' [of c vs "size c" size] by simp
next
  case (JObj d)
  assume "(k, c) \<in> set (children v)"
  then have "(k, c) \<in> set d" using JObj by (simp add: children_def)
  then have "size c \<le> size_list (size_prod (\<lambda>x. 0) size) d" by (rule size_list_estimation') simp
  then show ?thesis using JObj by simp
qed (simp_all add: children_def)

function walk_json :: "pystr list \<Rightarrow> json \<Rightarrow> (pystr list \<times> json) list" where
  "walk_json path v = (path, v) # concat (map (\<lambda>(k, c). walk_json (path @ [k]) c) (children v))"
  by pat_completeness auto
termination
  by (relation "measure (\<lambda>(path, v). size v)") (auto dest: children_size)

declare walk_json.simps [simp del]

text \<open>The values of a document, each with the path that leads to it.\<close>

inductive within :: "json \<Rightarrow> pystr list \<Rightarrow> json \<Rightarrow> bool" where
  within_here: "within v [] v"
| within_step: "(k, c) \<in> set (children v) \<Longrightarrow> within c p x \<Longrightarrow> within v (k # p) x"

inductive_simps within_Nil: "within v [] x"
inductive_simps within_Cons: "within v (k # p) x"

lemma walk_json_within: "(q, x) \<in> set (walk_json path v) \<longleftrightarrow> (\<exists>p. q = path @ p \<and> within v p x)"
proof (induction path v arbitrary: q rule: walk_json.induct)
  case (1 path v)
  have "(q, x) \<in> set (walk_json path v) \<longleftrightarrow>
      q = path \<and> x = v \<or> (\<exists>k c. (k, c) \<in> set (children v) \<and> (q, x) \<in> set (walk_json (path @ [k]) c))"
    by (subst walk_json.simps) auto
  also have "\<dots> \<longleftrightarrow> q = path \<and> x = v \<or>
      (\<exists>k c p. (k, c) \<in> set (children v) \<and> q = path @ k # p \<and> within c p x)"
    using 1 by auto
  also have "\<dots> \<longleftrightarrow> (\<exists>p. q = path @ p \<and> within v p x)"
    by (metis within_Nil within_Cons append_Nil2 list.exhaust)
  finally show ?case .
qed

section \<open>Membership\<close>

text \<open>\<open>text in v\<close>: an element of a list, a key of an object, a part of a string.\<close>

definition py_in :: "pystr \<Rightarrow> json \<Rightarrow> pyexn + bool" where
  "py_in t v =
     (case v of
        JArr vs \<Rightarrow> Inr (list_ex (\<lambda>x. py_eq x (JStr t)) vs)
      | JObj d \<Rightarrow> Inr (t \<in> fst ` set d)
      | JStr s \<Rightarrow> Inr (contains s t)
      | _ \<Rightarrow> Inl TypeErr)"

lemma py_eq_str: "py_eq x (JStr t) \<longleftrightarrow> x = JStr t"
  by (cases x) (auto simp: py_eq_def num_of_def)

end
