(* ===== verification/Validate_Repo.thy ===== *)
theory Validate_Repo
  imports Py_Value
begin

text \<open>
  \<open>scripts/validate_repo.py\<close>: the eleven checks of the repository gate in the order of
  \<open>main\<close>, which stops at the first that raises. \<open>fail\<close> raises \<open>ValidationError\<close>, so a check of
  this script never prints a failure and goes on.
\<close>

definition vfail :: "string \<Rightarrow> pystr list \<Rightarrow> outcome" where
  "vfail m as = raised (ValidationError m as)"

definition vfail_if :: "bool \<Rightarrow> string \<Rightarrow> pystr list \<Rightarrow> outcome" where
  "vfail_if b m as = (if b then vfail m as else nothing)"

lemma passed_vfail [simp, outcome_simps]: "\<not> passed (vfail m as)" "passed (vfail_if b m as) \<longleftrightarrow> \<not> b"
  by (simp_all add: vfail_def vfail_if_def)

section \<open>Layout\<close>

definition REQUIRED_ROOT_FILES :: "string list" where
  "REQUIRED_ROOT_FILES = [''README.md'', ''.gitattributes'', ''LICENSE'', ''NOTICE'', ''CONTRIBUTING.md'',
     ''CODE_OF_CONDUCT.md'', ''SECURITY.md'', ''CHANGELOG.md'', ''ROADMAP.md'', ''ARCHITECTURE.md'', ''HARNESS.md'',
     ''AGENTS.md'', ''PROGRESS.md'', ''Makefile'', ''VERSION'']"

definition REQUIRED_DIRECTORIES :: "string list" where
  "REQUIRED_DIRECTORIES = [''.github'', ''config'', ''docs'', ''examples'', ''include'', ''packaging'', ''scripts'',
     ''src'', ''tests'']"

definition REQUIRED_DOCS :: "string list" where
  "REQUIRED_DOCS = [''docs/README.md'', ''docs/TECHNICAL_WHITEPAPER_KR.md'', ''docs/DESIGN_WHITEPAPER_KR.md'',
     ''docs/API_CONTRACT.md'', ''docs/BUILD_AND_RELEASE.md'', ''docs/CONFIGURATION.md'', ''docs/FILE_TREE.md'',
     ''docs/GLOSSARY.md'', ''docs/MCP_COMPATIBILITY.md'', ''docs/SECURITY_MODEL.md'', ''docs/TEST_STRATEGY.md'']"

definition REQUIRED_GITHUB_FILES :: "string list" where
  "REQUIRED_GITHUB_FILES = [''.github/workflows/ci.yml'', ''.github/ISSUE_TEMPLATE/bug_report.yml'',
     ''.github/ISSUE_TEMPLATE/feature_request.yml'', ''.github/ISSUE_TEMPLATE/config.yml'',
     ''.github/pull_request_template.md'', ''.github/dependabot.yml'']"

definition REQUIRED_SOURCE_BOUNDARIES :: "string list" where
  "REQUIRED_SOURCE_BOUNDARIES = [''src/platform/linux_x86_64'', ''src/memory'', ''src/core'', ''src/json'', ''src/http'',
     ''src/providers'', ''src/routing'', ''src/mcp'', ''src/storage'', ''src/control'', ''src/tui'', ''src/ffi'']"

definition require_files :: "repo \<Rightarrow> string list \<Rightarrow> outcome" where
  "require_files w ps =
     for_each (sorted_set (map str ps)) (\<lambda>p. vfail_if (\<not> is_file w p) ''required file is missing'' [p])"

definition require_directories :: "repo \<Rightarrow> string list \<Rightarrow> outcome" where
  "require_directories w ps =
     for_each (sorted_set (map str ps)) (\<lambda>p. vfail_if (\<not> is_dir w p) ''required directory is missing'' [p])"

definition check_layout :: "repo \<Rightarrow> outcome" where
  "check_layout w =
     and_then (require_files w (REQUIRED_ROOT_FILES @ REQUIRED_DOCS @ REQUIRED_GITHUB_FILES))
       (require_directories w (REQUIRED_DIRECTORIES @ REQUIRED_SOURCE_BOUNDARIES))"

section \<open>Version and licence\<close>

definition VERSION_RE :: rx where
  "VERSION_RE = rx_seq [Bot, rx_plus rx_digit, rx_lit ''.'', rx_plus rx_digit, rx_lit ''.'', rx_plus rx_digit,
     rx_opt (Cat (rx_lit ''-'') (rx_plus (Cls False [(48, 57), (65, 90), (97, 122), (46, 46), (45, 45)]))), Eot]"

definition check_version :: "repo \<Rightarrow> outcome" where
  "check_version w =
     reading w ''VERSION'' (\<lambda>t.
       let version = strip t in
       if \<not> rx_fullmatch VERSION_RE version then vfail ''VERSION is not SemVer-compatible'' [version]
       else reading w ''README.md'' (\<lambda>readme.
         vfail_if (\<not> contains readme version) ''README.md must state the current specification version'' []))"

definition LICENSE_FRAGMENTS :: "string list" where
  "LICENSE_FRAGMENTS = [''Apache License'', ''Version 2.0, January 2004'', ''http://www.apache.org/licenses/'',
     ''END OF TERMS AND CONDITIONS'']"

definition check_license :: "repo \<Rightarrow> outcome" where
  "check_license w =
     reading w ''LICENSE'' (\<lambda>license_text.
       and_then
         (for_each LICENSE_FRAGMENTS (\<lambda>f.
            vfail_if (\<not> contains license_text (str f)) ''LICENSE is not a complete Apache-2.0 text; missing'' [str f]))
         (reading w ''NOTICE'' (\<lambda>notice.
            vfail_if (\<not> contains notice (str ''AsmFlow'') \<or> \<not> contains notice (str ''Apache License, Version 2.0''))
              ''NOTICE must identify AsmFlow and Apache-2.0'' [])))"

section \<open>Text and JSON files\<close>

text \<open>\<open>any(part in excluded for part in path.parts)\<close>, on the absolute path.\<close>

definition excluded :: "string list \<Rightarrow> repo \<Rightarrow> pystr \<Rightarrow> bool" where
  "excluded names w p \<longleftrightarrow> list_ex (\<lambda>part. part \<in> set (map str names)) (abs_parts w p)"

definition tree_paths :: "repo \<Rightarrow> pystr list" where
  "tree_paths w = glob w (str ''**/*'')"

definition iter_text_files :: "repo \<Rightarrow> pystr list" where
  "iter_text_files w =
     filter (\<lambda>p. \<not> (\<not> is_file w p \<or> excluded [''.git'', ''dist'', ''build'', ''__pycache__''] w p) \<and>
         (lower (path_suffix p) \<in> {str ''.md'', str ''.txt''} \<or>
          path_name p \<in> set (map str [''Makefile'', ''VERSION'', ''LICENSE'', ''NOTICE''])))
       (tree_paths w)"

definition TEMPLATE_MARKERS :: "pystr list" where
  "TEMPLATE_MARKERS =
     [str ''{{'', str ''}}'', [91, 54532, 47196, 51229, 53944, 32, 47749, 93], str ''[YYYY'',
      [91, 51089, 49457, 51088, 47, 54016, 32, 47749, 93],
      [91, 44060, 48156, 54016, 47, 51089, 49457, 51088, 32, 47749, 93], [42, 40, 44032, 51060, 46300, 58]]"

definition check_template_markers :: "repo \<Rightarrow> outcome" where
  "check_template_markers w =
     for_each (iter_text_files w) (\<lambda>p.
       if path_name p = str ''LICENSE'' then nothing
       else reading_path w p (\<lambda>t.
         for_each TEMPLATE_MARKERS (\<lambda>m. vfail_if (contains t m) ''unresolved template marker'' [m, p])))"

text \<open>\<open>load_json\<close> turns a read, decode or syntax error into a \<open>ValidationError\<close>.\<close>

definition load_json_v :: "repo \<Rightarrow> pystr \<Rightarrow> pyexn + json" where
  "load_json_v w p =
     (case load_json w p of Inl e \<Rightarrow> Inl (ValidationError ''invalid JSON'' [p]) | Inr v \<Rightarrow> Inr v)"

definition check_json_files :: "repo \<Rightarrow> outcome" where
  "check_json_files w =
     for_each (glob w (str ''**/*.json'')) (\<lambda>p.
       if excluded [''dist'', ''build'', ''.git''] w p then nothing else attempt (load_json_v w p) (\<lambda>_. nothing))"

section \<open>Examples\<close>

definition SECRET_KEY_NAMES :: "string list" where
  "SECRET_KEY_NAMES = [''api_key'', ''apikey'', ''secret'', ''password'', ''token'', ''authorization'', ''private_key'']"

definition ENV_NAME_RE :: rx where
  "ENV_NAME_RE = rx_seq [Bot, Cls False [(65, 90), (95, 95)], Star (Cls False [(65, 90), (48, 57), (95, 95)]), Eot]"

definition ids_of :: "string \<Rightarrow> json \<Rightarrow> pyexn + json list" where
  "ids_of field config =
     andthen (py_get (str field) (JArr []) config) (\<lambda>xs.
     andthen (py_iter xs) (\<lambda>items. collect_all (py_get (str ''id'') JNull) items))"

text \<open>\<open>not ids or len(ids) != len(set(ids))\<close>.\<close>

definition ids_bad :: "json list \<Rightarrow> pyexn + bool" where
  "ids_bad ids =
     (if ids = [] then Inr True
      else if \<not> list_all hashable ids then Inl TypeErr
      else Inr (length ids \<noteq> length (py_dedup ids)))"

text \<open>\<open>isinstance(n, int) and 1 <= n <= len(targets)\<close>; a \<open>bool\<close> is an \<open>int\<close>.\<close>

definition attempts_ok :: "json \<Rightarrow> json \<Rightarrow> pyexn + bool" where
  "attempts_ok n targets =
     (case n of
        JInt k \<Rightarrow> if 1 \<le> k then andthen (py_len targets) (\<lambda>l. Inr (k \<le> l)) else Inr False
      | JBool b \<Rightarrow> if b then andthen (py_len targets) (\<lambda>l. Inr (1 \<le> l)) else Inr False
      | _ \<Rightarrow> Inr False)"

definition check_route :: "json list \<Rightarrow> json \<Rightarrow> outcome" where
  "check_route provider_ids route =
     attempt (py_get (str ''targets'') (JArr []) route) (\<lambda>targets.
       if \<not> truthy targets then vfail ''route has no targets'' []
       else
         attempt (andthen (py_get (str ''fallback'') (JObj []) route) (py_get (str ''max_attempts'') JNull)) (\<lambda>n.
         attempt (attempts_ok n targets) (\<lambda>ok.
         if \<not> ok then vfail ''route has invalid max_attempts'' []
         else
           attempt (py_iter targets) (\<lambda>ts.
             for_each ts (\<lambda>target.
               attempt (py_get (str ''provider_id'') JNull target) (\<lambda>pid.
                 vfail_if (\<not> list_ex (py_eq pid) provider_ids) ''route references an unknown provider'' []))))))"

definition check_node :: "pystr list \<times> json \<Rightarrow> outcome" where
  "check_node n =
     (case n of (path, v) \<Rightarrow>
        (case v of
           JObj d \<Rightarrow>
             and_then
               (for_each (map fst d) (\<lambda>k.
                  vfail_if (lower k \<in> set (map str SECRET_KEY_NAMES))
                    ''plaintext secret-shaped key in safe example'' [join (str ''.'') (path @ [k])]))
               (if py_eq (case map_of d (str ''source'') of Some x \<Rightarrow> x | None \<Rightarrow> JNull) (JStr (str ''env'')) then
                  (case map_of d (str ''name'') of
                     Some (JStr name) \<Rightarrow>
                       vfail_if (\<not> rx_fullmatch ENV_NAME_RE name) ''invalid environment SecretRef'' [join (str ''.'') path]
                   | _ \<Rightarrow> vfail ''invalid environment SecretRef'' [join (str ''.'') path])
                else nothing)
         | _ \<Rightarrow> nothing))"

definition check_example :: "repo \<Rightarrow> pystr \<Rightarrow> outcome" where
  "check_example w p =
     attempt (load_json_v w p) (\<lambda>config.
     attempt (py_get (str ''schema_version'') JNull config) (\<lambda>version.
       if \<not> py_eq version (JInt 1) then vfail ''must use schema_version 1'' [p]
       else
         attempt (ids_of ''providers'' config) (\<lambda>provider_ids.
         attempt (ids_bad provider_ids) (\<lambda>bad.
         if bad then vfail ''provider IDs must be non-empty and unique in'' [p]
         else
           attempt (ids_of ''routes'' config) (\<lambda>route_ids.
           attempt (ids_bad route_ids) (\<lambda>bad.
           if bad then vfail ''route IDs must be non-empty and unique in'' [p]
           else
             attempt (andthen (py_get (str ''routes'') (JArr []) config) py_iter) (\<lambda>routes.
               and_then (for_each routes (check_route provider_ids))
                 (for_each (walk_json [] config) check_node))))))))"

definition EXAMPLES :: "string list" where
  "EXAMPLES = [''examples/asmflow.minimal.json'', ''examples/asmflow.full.json'']"

definition check_minimal_listener :: "json \<Rightarrow> outcome" where
  "check_minimal_listener minimal =
     attempt (py_get (str ''listener'') (JObj []) minimal) (\<lambda>listener.
     attempt (andthen (py_get (str ''auth'') (JObj []) listener) (py_get (str ''type'') JNull)) (\<lambda>ty.
       if py_eq ty (JStr (str ''none'')) then
         attempt (py_get (str ''host'') JNull listener) (\<lambda>host.
           if \<not> hashable host then raised TypeErr
           else vfail_if (\<not> list_ex (\<lambda>h. py_eq host (JStr (str h))) [''127.0.0.1'', ''::1'', ''localhost''])
             ''an unauthenticated example listener must be loopback-only'' [])
       else nothing))"

definition check_examples :: "repo \<Rightarrow> outcome" where
  "check_examples w =
     and_then (for_each (map str EXAMPLES) (check_example w))
       (attempt (load_json_v w (str ''examples/asmflow.minimal.json'')) check_minimal_listener)"

section \<open>Contract fixtures\<close>

text \<open>One line of an event stream.\<close>

definition check_sse_line :: "pystr \<Rightarrow> pystr \<Rightarrow> outcome" where
  "check_sse_line p line =
     (if \<not> startswith line (str ''data:'') then nothing
      else
        (let payload = strip (removeprefix line (str ''data:'')) in
         if payload = [] \<or> payload = str ''[DONE]'' then nothing
         else
           (case loads payload of
              None \<Rightarrow> vfail ''invalid SSE JSON in'' [p]
            | Some (JObj d) \<Rightarrow> nothing
            | Some _ \<Rightarrow> vfail ''SSE data must decode to an object in'' [p])))"

definition check_contract_fixtures :: "repo \<Rightarrow> outcome" where
  "check_contract_fixtures w =
     attempt (load_json_v w (str ''tests/fixtures/mcp/discover_request_2026-07-28.json'')) (\<lambda>modern.
     attempt (andthen (andthen (py_get (str ''params'') (JObj []) modern) (py_get (str ''_meta'') (JObj [])))
         (py_get (str ''io.modelcontextprotocol/protocolVersion'') JNull)) (\<lambda>version.
       if \<not> py_eq version (JStr (str ''2026-07-28'')) then
         vfail ''modern MCP discovery fixture lacks 2026-07-28 per-request metadata'' []
       else
         attempt (load_json_v w (str ''tests/fixtures/mcp/initialize_request_2025-11-25.json'')) (\<lambda>legacy.
         attempt (py_get (str ''method'') JNull legacy) (\<lambda>meth.
         if \<not> py_eq meth (JStr (str ''initialize'')) then
           vfail ''legacy MCP compatibility fixture must use initialize'' []
         else
           for_each (sort_paths (glob w (str ''tests/fixtures/openai/*.sse''))) (\<lambda>p.
             reading_path w p (\<lambda>t. for_each (splitlines t) (check_sse_line p)))))))"

section \<open>Scripts\<close>

text \<open>\<open>line.split(maxsplit=3)\<close>: three words and the rest of the line.\<close>

fun split_max :: "nat \<Rightarrow> pystr \<Rightarrow> pystr list" where
  "split_max 0 s = (let t = lstrip s in if t = [] then [] else [t])"
| "split_max (Suc n) s =
     (let t = lstrip s in
      if t = [] then []
      else takeWhile (\<lambda>c. \<not> is_space c) t # split_max n (dropWhile (\<lambda>c. \<not> is_space c) t))"

definition octal :: "pystr \<Rightarrow> pyexn + int" where
  "octal t =
     (if t \<noteq> [] \<and> list_all (\<lambda>c. 48 \<le> c \<and> c \<le> 55) t then Inr (foldl (\<lambda>n c. 8 * n + (c - 48)) 0 t)
      else Inl (ValueErr ''invalid literal for int() with base 8''))"

fun modes_of :: "pystr list \<Rightarrow> (pystr \<times> int) list \<Rightarrow> pyexn + (pystr \<times> int) list" where
  "modes_of [] ms = Inr ms"
| "modes_of (line # ls) ms =
     (let fields = split_max 3 line in
      if length fields = 4 then
        (case octal (fields ! 0) of
           Inl e \<Rightarrow> Inl e
         | Inr m \<Rightarrow> modes_of ls ((strip (fields ! 3), m) # ms))
      else modes_of ls ms)"

definition git_recorded_modes :: "repo \<Rightarrow> pyexn + (pystr \<times> int) list option" where
  "git_recorded_modes w =
     (case proc w (map str [''git'', ''ls-files'', ''--stage'', ''--'', ''scripts'', ''examples'', ''tests'']) of
        Done rc out err \<Rightarrow>
          if rc \<noteq> 0 then Inr None
          else (case modes_of (splitlines out) [] of Inl e \<Rightarrow> Inl e | Inr ms \<Rightarrow> Inr (Some ms))
      | TimedOut \<Rightarrow> Inl TimeoutErr
      | NotFound \<Rightarrow> Inr None)"

definition git_untracked_paths :: "repo \<Rightarrow> pyexn + pystr list option" where
  "git_untracked_paths w =
     (case proc w (map str [''git'', ''ls-files'', ''--others'', ''--exclude-standard'', ''--'', ''scripts'',
             ''examples'', ''tests'']) of
        Done rc out err \<Rightarrow>
          if rc \<noteq> 0 then Inr None else Inr (Some (filter (\<lambda>l. l \<noteq> []) (map strip (splitlines out))))
      | TimedOut \<Rightarrow> Inl TimeoutErr
      | NotFound \<Rightarrow> Inr None)"

definition script_candidates :: "repo \<Rightarrow> pystr list" where
  "script_candidates w =
     sort_paths (glob w (str ''scripts/*.py'') @ glob w (str ''scripts/*.sh'') @ glob w (str ''examples/*.sh'')
       @ glob w (str ''tests/mock_*.py''))"

definition any_exec_bit :: "int \<Rightarrow> bool" where
  "any_exec_bit m \<longleftrightarrow> odd (m div 64) \<or> odd (m div 8) \<or> odd m"

definition user_exec_bit :: "int \<Rightarrow> bool" where
  "user_exec_bit m \<longleftrightarrow> odd (m div 64)"

definition file_mode :: "repo \<Rightarrow> pystr \<Rightarrow> int" where
  "file_mode w p = (case node_at w p of Some (File _ m) \<Rightarrow> m | _ \<Rightarrow> 0)"

text \<open>The verdict on one candidate that carries a shebang.\<close>

definition check_script ::
  "repo \<Rightarrow> (pystr \<times> int) list option \<Rightarrow> pystr list option \<Rightarrow> pystr \<Rightarrow> outcome" where
  "check_script w recorded untracked p =
     (case recorded of
        Some ms \<Rightarrow>
          (case map_of ms p of
             Some m \<Rightarrow> vfail_if (\<not> any_exec_bit m) ''script is not executable in the git index'' [p]
           | None \<Rightarrow>
               if (case untracked of None \<Rightarrow> True | Some us \<Rightarrow> p \<notin> set us) then
                 vfail ''script is neither tracked nor an unignored working-tree file'' [p]
               else vfail_if (\<not> user_exec_bit (file_mode w p)) ''script is not executable'' [p])
      | None \<Rightarrow> vfail_if (\<not> user_exec_bit (file_mode w p)) ''script is not executable'' [p])"

definition check_scripts :: "repo \<Rightarrow> outcome" where
  "check_scripts w =
     (if script_candidates w = [] then vfail ''no scripts were found to check'' []
      else
        attempt (git_recorded_modes w) (\<lambda>recorded.
        attempt (if recorded = None then Inr None else git_untracked_paths w) (\<lambda>untracked.
          for_each (script_candidates w) (\<lambda>p.
            attempt (read_bytes w p) (\<lambda>b.
              if take 2 b \<noteq> [35, 33] then nothing else check_script w recorded untracked p)))))"

section \<open>Macro names\<close>

definition DEFINE_RE :: rx where
  "DEFINE_RE = rx_seq [Star rx_space, rx_lit ''%'', rx_opt (rx_lit ''i''), rx_lit ''define'', rx_plus rx_space,
     Grp 1 (Cat (Cls False [(65, 90), (97, 122), (95, 95)])
       (Star (Cls False [(65, 90), (97, 122), (48, 57), (95, 95)]))),
     NotAhead (Cls False (word_ranges @ [(40, 40)]))]"

definition macro_definitions :: "pystr \<Rightarrow> (pystr \<times> nat) list" where
  "macro_definitions t =
     List.map_filter (\<lambda>(i, l). map_option (\<lambda>m. (group_of 1 m, Suc i)) (rx_match DEFINE_RE l))
       (List.enumerate 0 (splitlines t))"

text \<open>The two loops: headers add to the owners and must be new, sources must not be owners.\<close>

fun own_names :: "(pystr \<times> nat) list \<Rightarrow> pystr list \<Rightarrow> pystr list option" where
  "own_names [] owner = Some owner"
| "own_names ((n, k) # ns) owner = (if n \<in> set owner then None else own_names ns (n # owner))"

fun own_headers :: "repo \<Rightarrow> pystr list \<Rightarrow> pystr list \<Rightarrow> pyexn + pystr list" where
  "own_headers w [] owner = Inr owner"
| "own_headers w (p # ps) owner =
     (case read_text w p of
        Inl e \<Rightarrow> Inl e
      | Inr t \<Rightarrow>
          (case own_names (macro_definitions t) owner of
             None \<Rightarrow> Inl (ValidationError ''macro is defined twice'' [p])
           | Some owner' \<Rightarrow> own_headers w ps owner'))"

definition header_paths :: "repo \<Rightarrow> pystr list" where
  "header_paths w = sort_paths (glob w (str ''include/*.inc''))"

definition source_paths :: "repo \<Rightarrow> pystr list" where
  "source_paths w = sort_paths (glob w (str ''src/**/*.asm'') @ glob w (str ''tests/**/*.asm''))"

definition check_macro_namespace :: "repo \<Rightarrow> outcome" where
  "check_macro_namespace w =
     attempt (own_headers w (header_paths w) []) (\<lambda>owner.
       for_each (source_paths w) (\<lambda>p.
         reading_path w p (\<lambda>t.
           for_each (macro_definitions t) (\<lambda>(n, k). vfail_if (n \<in> set owner) ''redefines'' [p, n]))))"

section \<open>Sizes and status\<close>

definition check_size_and_binary_policy :: "repo \<Rightarrow> outcome" where
  "check_size_and_binary_policy w =
     for_each (tree_paths w) (\<lambda>p.
       if \<not> is_file w p \<or> excluded [''.git'', ''dist'', ''build'', ''__pycache__''] w p then nothing
       else attempt (read_bytes w p) (\<lambda>b.
         if 2097152 < length b then vfail ''unexpected file larger than 2 MiB'' [p]
         else if lower (path_suffix p) \<in> set (map str [''.png'', ''.jpg'', ''.jpeg'', ''.webp'', ''.gif'']) then nothing
         else vfail_if (0 \<in> set (take 4096 b)) ''unexpected binary file in source scaffold'' [p]))"

definition PHASE_RE :: rx where
  "PHASE_RE = rx_seq [Bol, rx_lit ''## Current phase'', Star rx_space, rx_plus (rx_chr 10), rx_chr 96,
     Grp 1 (rx_plus (Cls True [(96, 96)])), rx_chr 96]"

definition check_status_disclosure :: "repo \<Rightarrow> outcome" where
  "check_status_disclosure w =
     reading w ''README.md'' (\<lambda>readme.
       and_then
         (for_each [''**Project status:**'', ''Apache License 2.0''] (\<lambda>f.
            vfail_if (\<not> contains readme (str f)) ''README.md is missing required project-status disclosure'' [str f]))
         (reading w ''PROGRESS.md'' (\<lambda>progress.
            case group1 PHASE_RE progress of
              None \<Rightarrow> vfail ''PROGRESS.md must name the current phase'' []
            | Some phase \<Rightarrow>
                vfail_if (\<not> contains readme (strip phase)) ''README.md does not state the current phase'' [strip phase])))"

section \<open>The gate\<close>

definition checks_repo :: "repo \<Rightarrow> (string \<times> outcome) list" where
  "checks_repo w =
     [(''layout'', check_layout w), (''version'', check_version w), (''license'', check_license w),
      (''template markers'', check_template_markers w), (''JSON'', check_json_files w),
      (''examples'', check_examples w), (''contract fixtures'', check_contract_fixtures w),
      (''scripts'', check_scripts w), (''macro namespace'', check_macro_namespace w),
      (''size/binary policy'', check_size_and_binary_policy w), (''status disclosure'', check_status_disclosure w)]"

definition main_repo :: "repo \<Rightarrow> string list \<times> int" where
  "main_repo w = run_labelled (checks_repo w)"

interpretation validate: fail_fast_gate checks_repo main_repo
  by unfold_locales (rule main_repo_def)

section \<open>The macro namespace\<close>

definition macro_names :: "(pystr \<times> pystr) list \<Rightarrow> pystr list" where
  "macro_names files = concat (map (\<lambda>(p, t). map fst (macro_definitions t)) files)"

lemma macro_names_simps [simp]:
  "macro_names [] = []" "macro_names ((p, t) # files) = map fst (macro_definitions t) @ macro_names files"
  by (simp_all add: macro_names_def)

lemma own_names_Some:
  "own_names ns owner = Some o' \<longleftrightarrow>
     distinct (map fst ns) \<and> set (map fst ns) \<inter> set owner = {} \<and> o' = rev (map fst ns) @ owner"
  by (induction ns owner arbitrary: o' rule: own_names.induct) auto

lemma own_headers_Inr:
  "own_headers w ps owner = Inr o' \<longleftrightarrow>
     (\<exists>files. read_all w ps = Inr files \<and> distinct (macro_names files) \<and>
        set (macro_names files) \<inter> set owner = {} \<and> o' = rev (macro_names files) @ owner)"
proof (induction ps arbitrary: owner o')
  case (Cons p ps)
  show ?case
  proof (cases "read_text w p")
    case (Inr t)
    let ?N = "map fst (macro_definitions t)"
    have "own_headers w (p # ps) owner = Inr o' \<longleftrightarrow>
        (\<exists>o1. own_names (macro_definitions t) owner = Some o1 \<and> own_headers w ps o1 = Inr o')"
      using Inr by (simp split: option.splits)
    also have "\<dots> \<longleftrightarrow> distinct ?N \<and> set ?N \<inter> set owner = {} \<and> own_headers w ps (rev ?N @ owner) = Inr o'"
      unfolding own_names_Some by blast
    also have "\<dots> \<longleftrightarrow> (\<exists>files. read_all w ps = Inr files \<and> distinct (?N @ macro_names files) \<and>
        set (?N @ macro_names files) \<inter> set owner = {} \<and> o' = rev (?N @ macro_names files) @ owner)"
      unfolding Cons.IH by auto
    also have "\<dots> \<longleftrightarrow> (\<exists>files. read_all w (p # ps) = Inr files \<and> distinct (macro_names files) \<and>
        set (macro_names files) \<inter> set owner = {} \<and> o' = rev (macro_names files) @ owner)"
      using Inr by (cases "read_all w ps") simp_all
    finally show ?thesis .
  qed simp
qed auto

lemma passed_redefines:
  "passed (for_each (macro_definitions t) (\<lambda>(n, k). vfail_if (n \<in> set owner) ''redefines'' [p, n])) \<longleftrightarrow>
   set (map fst (macro_definitions t)) \<inter> set owner = {}"
  by auto

lemma passed_sources:
  "passed (for_each ps (\<lambda>p. reading_path w p (\<lambda>t.
      for_each (macro_definitions t) (\<lambda>(n, k). vfail_if (n \<in> set owner) ''redefines'' [p, n])))) \<longleftrightarrow>
   (\<exists>files. read_all w ps = Inr files \<and> set (macro_names files) \<inter> set owner = {})"
proof (induction ps)
  case (Cons p ps)
  show ?case
  proof (cases "read_text w p")
    case (Inr t)
    have "(\<exists>files. read_all w (p # ps) = Inr files \<and> set (macro_names files) \<inter> set owner = {}) \<longleftrightarrow>
        set (map fst (macro_definitions t)) \<inter> set owner = {} \<and>
        (\<exists>files. read_all w ps = Inr files \<and> set (macro_names files) \<inter> set owner = {})"
      using Inr by (cases "read_all w ps") (simp_all add: Int_Un_distrib2)
    then show ?thesis using Inr unfolding Cons.IH [symmetric] passed_redefines [of t owner p, symmetric] by simp
  qed simp
qed simp

text \<open>
  The macro check passes exactly when every header and every assembly source can be read,
  no macro name is defined twice in the headers taken together, and no source defines a name
  that a header defines. Two definitions of a name within the sources are not refused.
\<close>

lemma macro_namespace_iff:
  "passed (check_macro_namespace w) \<longleftrightarrow>
     (\<exists>headers sources. read_all w (header_paths w) = Inr headers \<and> read_all w (source_paths w) = Inr sources \<and>
        distinct (macro_names headers) \<and> set (macro_names headers) \<inter> set (macro_names sources) = {})"
  unfolding check_macro_namespace_def passed_attempt passed_sources own_headers_Inr by auto

section \<open>Order and exit\<close>

text \<open>
  The repository gate prints the labels of the checks before the first one that raises and
  exits with 1, or prints all eleven labels and exits with 0 when none raises.
\<close>

lemma main_repo_verdict:
  "main_repo w =
     (map fst (takeWhile (\<lambda>(l, r). passed r) (checks_repo w)),
      if list_all (\<lambda>(l, r). passed r) (checks_repo w) then 0 else 1)"
  using validate.stops_at_first [of w] validate.all_or_nothing [of w]
  by (cases "main_repo w") (auto simp: list_all_iff)

section \<open>Where the checkout lies\<close>

text \<open>
  The excluded directory names are looked up in the absolute path of a file. In a checkout
  that itself lies below a directory called \<open>build\<close> or \<open>dist\<close>, every file is excluded, and the
  template-marker, JSON and size checks pass whatever the tree holds.
\<close>

lemma checkout_below_build_is_unchecked:
  assumes "str ''build'' \<in> set (root_parts w) \<or> str ''dist'' \<in> set (root_parts w)"
  shows "passed (check_template_markers w) \<and> passed (check_json_files w) \<and> passed (check_size_and_binary_policy w)"
proof -
  have ex: "excluded names w p" if "''build'' \<in> set names" "''dist'' \<in> set names" for names p
    using assms that by (auto simp: excluded_def abs_parts_def list_ex_iff)
  then have "iter_text_files w = []" by (simp add: iter_text_files_def)
  with ex show ?thesis
    by (simp add: check_template_markers_def check_json_files_def check_size_and_binary_policy_def passed_if)
qed

definition unchecked_world :: repo where
  "unchecked_world = \<lparr>root_parts = map str [''/'', ''home'', ''build'', ''asmflow''],
     tree = [(str ''README.md'', File (str ''{{name}}'') 420), (str ''a.json'', File (str ''{'') 420)],
     build_dir = [], build_tree = [], proc = (\<lambda>_. NotFound)\<rparr>"

lemma checkout_below_build_is_unchecked_witness:
  "passed (check_template_markers unchecked_world) \<and> passed (check_json_files unchecked_world) \<and>
   loads (str ''{'') = None \<and> contains (str ''{{name}}'') (str ''{{'')"
proof -
  have "str ''build'' \<in> set (root_parts unchecked_world)" by code_simp
  then have "passed (check_template_markers unchecked_world) \<and> passed (check_json_files unchecked_world)"
    using checkout_below_build_is_unchecked [of unchecked_world] by blast
  moreover have "loads (str ''{'') = None" "contains (str ''{{name}}'') (str ''{{'')" by code_simp+
  ultimately show ?thesis by blast
qed

section \<open>What a passing example satisfies\<close>

lemma passed_check_node:
  "passed (check_node (p, JObj d)) \<longleftrightarrow>
     (\<forall>k \<in> fst ` set d. lower k \<notin> set (map str SECRET_KEY_NAMES)) \<and>
     (map_of d (str ''source'') = Some (JStr (str ''env'')) \<longrightarrow>
        (\<exists>n. map_of d (str ''name'') = Some (JStr n) \<and> rx_fullmatch ENV_NAME_RE n))"
proof -
  have "py_eq (case map_of d (str ''source'') of Some x \<Rightarrow> x | None \<Rightarrow> JNull) (JStr (str ''env'')) \<longleftrightarrow>
      map_of d (str ''source'') = Some (JStr (str ''env''))"
    by (auto simp: py_eq_def num_of_def split: option.splits json.splits if_splits)
  then show ?thesis
    by (auto simp: check_node_def split: option.splits json.splits)
qed

lemma passed_check_example:
  assumes "passed (check_example w p)"
  shows "\<exists>config. load_json w p = Inr config \<and> (\<forall>q d. within config q (JObj d) \<longrightarrow> passed (check_node (q, JObj d)))"
proof -
  from assms obtain config where c: "load_json_v w p = Inr config"
    "\<forall>n \<in> set (walk_json [] config). passed (check_node n)"
    by (auto simp: check_example_def split: if_splits)
  then have "load_json w p = Inr config" by (auto simp: load_json_v_def split: sum.splits)
  moreover have "passed (check_node (q, JObj d))" if "within config q (JObj d)" for q d
    using c(2) that walk_json_within [of q "JObj d" "[]" config] by auto
  ultimately show ?thesis by blast
qed

text \<open>
  C36: When the example check passes, each of the two example configurations is a JSON document
  in which no object, at any depth, has a key that names a secret, in any case, and every
  object whose \<open>source\<close> is \<open>env\<close> has as its \<open>name\<close> a string that is an environment variable name.
\<close>

theorem examples_hold_no_secret:
  assumes "passed (check_examples w)" and "e \<in> set EXAMPLES"
  shows "\<exists>config. load_json w (str e) = Inr config \<and>
    (\<forall>p d k. within config p (JObj d) \<and> k \<in> fst ` set d \<longrightarrow> lower k \<notin> set (map str SECRET_KEY_NAMES)) \<and>
    (\<forall>p d. within config p (JObj d) \<and> map_of d (str ''source'') = Some (JStr (str ''env'')) \<longrightarrow>
       (\<exists>n. map_of d (str ''name'') = Some (JStr n) \<and> rx_fullmatch ENV_NAME_RE n))"
proof -
  have "passed (check_example w (str e))" using assms by (auto simp: check_examples_def)
  from passed_check_example [OF this] show ?thesis unfolding passed_check_node by blast
qed

text \<open>A small configuration, with a hash for each double quote.\<close>

definition quoted :: "string \<Rightarrow> pystr" where
  "quoted s = map (\<lambda>c. if c = 35 then 34 else c) (str s)"

definition example_text :: pystr where
  "example_text = quoted
     ''{#schema_version#: 1, #providers#: [{#id#: #p#, #key#: {#source#: #env#, #name#: #K_1#}}], #routes#: [{#id#: #r#, #targets#: [{#provider_id#: #p#}], #fallback#: {#max_attempts#: 1}}]}''"

definition example_world :: repo where
  "example_world = \<lparr>root_parts = [],
     tree = map (\<lambda>e. (str e, File example_text 420)) EXAMPLES,
     build_dir = [], build_tree = [], proc = (\<lambda>_. NotFound)\<rparr>"

theorem examples_hold_no_secret_witness:
  "passed (check_examples example_world) \<and>
   (\<exists>config. load_json example_world (str ''examples/asmflow.full.json'') = Inr config)"
proof -
  have p: "passed (check_examples example_world)" by code_simp
  moreover have "''examples/asmflow.full.json'' \<in> set EXAMPLES" by code_simp
  ultimately show ?thesis using examples_hold_no_secret [of example_world] by blast
qed

section \<open>Routes\<close>

text \<open>The value of a Python \<open>int\<close>, of which \<open>bool\<close> is a subclass.\<close>

definition int_value :: "json option \<Rightarrow> int option" where
  "int_value v =
     (case v of Some (JInt k) \<Rightarrow> Some k | Some (JBool b) \<Rightarrow> Some (if b then 1 else 0) | _ \<Rightarrow> None)"

definition max_attempts_of :: "(pystr \<times> json) list \<Rightarrow> int option" where
  "max_attempts_of rd =
     (case map_of rd (str ''fallback'') of
        Some (JObj fd) \<Rightarrow> int_value (map_of fd (str ''max_attempts''))
      | _ \<Rightarrow> None)"

definition names_known_provider :: "json list \<Rightarrow> json \<Rightarrow> bool" where
  "names_known_provider ids t =
     (case t of
        JObj td \<Rightarrow> list_ex (py_eq (case map_of td (str ''provider_id'') of Some x \<Rightarrow> x | None \<Rightarrow> JNull)) ids
      | _ \<Rightarrow> False)"

lemma targets_known:
  "passed (for_each ts (\<lambda>t. attempt (py_get (str ''provider_id'') JNull t) (\<lambda>pid.
      vfail_if (\<not> list_ex (py_eq pid) ids) m as))) \<longleftrightarrow> list_all (names_known_provider ids) ts"
  by (auto simp: list_all_iff names_known_provider_def py_get_def split: json.splits)

lemma attempts_ok_iff:
  "attempts_ok n targets = Inr True \<longleftrightarrow>
     (\<exists>k l. int_value (Some n) = Some k \<and> 1 \<le> k \<and> py_len targets = Inr l \<and> k \<le> l)"
  by (cases n; cases "py_len targets") (auto simp: attempts_ok_def int_value_def andthen_def split: if_splits)

lemma fallback_attempts:
  "(\<exists>n. andthen (py_get (str ''fallback'') (JObj []) (JObj rd)) (py_get (str ''max_attempts'') JNull) = Inr n \<and>
        int_value (Some n) = Some k) \<longleftrightarrow> max_attempts_of rd = Some k"
  by (cases "map_of rd (str ''fallback'')")
    (auto simp: andthen_def py_get_def max_attempts_of_def int_value_def split: json.splits option.splits)

lemma passed_check_route:
  "passed (check_route ids route) \<longleftrightarrow>
     (\<exists>targets n ts. py_get (str ''targets'') (JArr []) route = Inr targets \<and>
        andthen (py_get (str ''fallback'') (JObj []) route) (py_get (str ''max_attempts'') JNull) = Inr n \<and>
        attempts_ok n targets = Inr True \<and>
        truthy targets \<and> py_iter targets = Inr ts \<and> list_all (names_known_provider ids) ts)"
  unfolding check_route_def passed_attempt passed_if targets_known by (auto split: if_splits)

text \<open>Only a list of objects can be iterated to known providers.\<close>

lemma targets_are_list:
  "truthy targets \<and> py_iter targets = Inr ts \<and> list_all (names_known_provider ids) ts \<longleftrightarrow>
   targets = JArr ts \<and> ts \<noteq> [] \<and> list_all (names_known_provider ids) ts"
  by (cases targets) (auto simp: py_iter_def truthy_def names_known_provider_def neq_Nil_conv)

text \<open>
  A route of an example passes exactly when it is an object with a non-empty list of
  targets, its fallback states a \<open>max_attempts\<close> from 1 up to the number of targets, and every
  target is an object that names one of the providers of the configuration.
\<close>

lemma route_accepted_iff:
  "passed (check_route ids route) \<longleftrightarrow>
     (\<exists>rd ts k. route = JObj rd \<and> map_of rd (str ''targets'') = Some (JArr ts) \<and> ts \<noteq> [] \<and>
        max_attempts_of rd = Some k \<and> 1 \<le> k \<and> k \<le> int (length ts) \<and>
        list_all (names_known_provider ids) ts)"
proof (cases route)
  case (JObj rd)
  let ?fb = "andthen (py_get (str ''fallback'') (JObj []) route) (py_get (str ''max_attempts'') JNull)"
  have get: "py_get (str ''targets'') (JArr []) route = Inr (JArr ts) \<and> ts \<noteq> [] \<longleftrightarrow>
      map_of rd (str ''targets'') = Some (JArr ts) \<and> ts \<noteq> []" for ts
    using JObj by (auto simp: py_get_def split: option.splits)
  have "passed (check_route ids route) \<longleftrightarrow>
      (\<exists>ts n. py_get (str ''targets'') (JArr []) route = Inr (JArr ts) \<and> ts \<noteq> [] \<and> ?fb = Inr n \<and>
         attempts_ok n (JArr ts) = Inr True \<and> list_all (names_known_provider ids) ts)"
    unfolding passed_check_route targets_are_list by auto
  also have "\<dots> \<longleftrightarrow>
      (\<exists>ts k. map_of rd (str ''targets'') = Some (JArr ts) \<and> ts \<noteq> [] \<and> max_attempts_of rd = Some k \<and>
         1 \<le> k \<and> k \<le> int (length ts) \<and> list_all (names_known_provider ids) ts)"
    unfolding attempts_ok_iff fallback_attempts [symmetric] using get JObj
    by (auto simp: py_len_def)
  finally show ?thesis using JObj by auto
qed (simp_all add: passed_check_route py_get_def)

end
