(* ===== verification/Gate_M1.thy ===== *)
theory Gate_M1
  imports Gate_Core
begin

text \<open>
  \<open>scripts/gate_m1.py\<close>, the gate of the build foundation: the versions and options of the two
  binaries, the terminal modes, the symbol policy, the link flags, a rebuild without warnings, CI
  and the ignored artifacts. Each check raises at its first violation and the gate stops there.

  Parameters of the checks: \<open>os.access\<close>, and the run of a binary on a pseudo-terminal (its exit
  status with the terminal modes before and after, or \<open>None\<close> when it takes too long). The rebuild
  changes the build directory, which no later check reads.
\<close>

section \<open>The binaries\<close>

definition BINARIES :: "string list" where
  "BINARIES = [''asmflowd'', ''asmflow-tui'']"

definition modes :: "string list" where
  "modes = [''debug'', ''release'']"

definition artifact :: "string \<Rightarrow> string \<Rightarrow> pystr" where
  "artifact flavour name = str flavour @ str ''/'' @ str name"

text \<open>\<open>for mode in ("debug", "release"): for name in BINARIES\<close>.\<close>

definition for_binaries :: "(string \<Rightarrow> string \<Rightarrow> outcome) \<Rightarrow> outcome" where
  "for_binaries f = for_each modes (\<lambda>flavour. for_each BINARIES (f flavour))"

lemma passed_for_binaries [simp, outcome_simps]:
  "passed (for_binaries f) \<longleftrightarrow> (\<forall>flavour \<in> set modes. \<forall>name \<in> set BINARIES. passed (f flavour name))"
  by (simp add: for_binaries_def)

section \<open>Tools, versions and options\<close>

definition need_tool :: "repo \<Rightarrow> string \<Rightarrow> outcome" where
  "need_tool w name =
     running w [str ''sh'', str ''-c'', str ''command -v '' @ str name] (\<lambda>rc out err.
       raise_if (rc \<noteq> 0) ''required tool not found on PATH'' [str name])"

definition check_help :: "repo \<Rightarrow> pystr \<Rightarrow> string \<Rightarrow> outcome" where
  "check_help w path flag =
     running w [path, str flag] (\<lambda>rc out err.
       if rc \<noteq> 0 then gate_error ''exited'' [path, str flag]
       else raise_if (strip out = []) ''produced no output'' [path, str flag])"

definition check_binary :: "(pystr \<Rightarrow> bool) \<Rightarrow> repo \<Rightarrow> pystr \<Rightarrow> string \<Rightarrow> string \<Rightarrow> outcome" where
  "check_binary access w version flavour name =
     (let path = build_path w (artifact flavour name) in
      if \<not> build_is_file w (artifact flavour name) then gate_error ''missing build artifact'' [path]
      else if \<not> access path then gate_error ''build artifact is not executable'' [path]
      else
        running w [path, str ''--version''] (\<lambda>rc out err.
          let line = strip out in
          if rc \<noteq> 0 then gate_error ''--version exited'' [path, strip err]
          else if \<not> startswith line (str name @ str '' '' @ version @ str '' ('') then
            gate_error ''--version and VERSION drift'' [path, line]
          else if \<not> contains line (str flavour) then gate_error ''does not report its build mode'' [path, line]
          else
            and_then (for_each [''--help'', ''-h''] (check_help w path))
              (running w [path, str ''--definitely-not-an-option''] (\<lambda>rc out err.
                 raise_if (rc \<noteq> 2) ''accepted an unknown option'' [path]))))"

definition check_version_and_help :: "(pystr \<Rightarrow> bool) \<Rightarrow> repo \<Rightarrow> pystr \<Rightarrow> outcome" where
  "check_version_and_help access w version = for_binaries (check_binary access w version)"

definition check_terminal_mode_preserved :: "(pystr list \<Rightarrow> (int \<times> 'm \<times> 'm) option) \<Rightarrow> repo \<Rightarrow> outcome" where
  "check_terminal_mode_preserved pty w =
     for_binaries (\<lambda>flavour name.
       let path = build_path w (artifact flavour name) in
       case pty [path, str ''--help''] of
         None \<Rightarrow> raised TimeoutErr
       | Some (rc, before, after) \<Rightarrow>
           if rc \<noteq> 0 then gate_error ''--help on a pty exited'' [path]
           else raise_if (before \<noteq> after) ''--help changed terminal modes'' [path])"

section \<open>Symbols and link flags\<close>

text \<open>The output of \<open>readelf\<close>, whatever its exit status.\<close>

definition readelf :: "repo \<Rightarrow> string \<Rightarrow> pystr \<Rightarrow> (pystr \<Rightarrow> outcome) \<Rightarrow> outcome" where
  "readelf w flag path k = running w [str ''readelf'', str flag, path] (\<lambda>rc out err. k out)"

definition check_symbols :: "repo \<Rightarrow> outcome" where
  "check_symbols w =
     for_each BINARIES (\<lambda>name.
       let debug = build_path w (artifact ''debug'' name); release = build_path w (artifact ''release'' name) in
       readelf w ''-WS'' debug (\<lambda>out.
         if \<not> contains out (str ''.debug_info'') then gate_error ''debug build has no DWARF .debug_info'' [debug]
         else
           readelf w ''-WS'' release (\<lambda>out.
             if contains out (str ''.debug_info'') then gate_error ''release build still carries DWARF'' [release]
             else if contains out (str ''.symtab'') then gate_error ''release build still carries a symbol table'' [release]
             else if \<not> build_is_file w (artifact ''release'' name @ str ''.debug'') then
               gate_error ''release build did not produce separate debug symbols'' [str name]
             else raise_if (\<not> contains out (str ''.gnu_debuglink'')) ''release build is missing .gnu_debuglink'' [str name])))"

text \<open>\<open>re.search(r"\bRWE\b|\bE\b", line.split("0x")[-1])\<close>.\<close>

definition STACK_RE :: rx where
  "STACK_RE = Alt (rx_seq [WordB, rx_lit ''RWE'', WordB]) (rx_seq [WordB, rx_lit ''E'', WordB])"

definition stack_flag :: "pystr \<Rightarrow> bool" where
  "stack_flag line = rx_found STACK_RE (last (split_str (str ''0x'') line))"

definition stack_lines :: "pystr \<Rightarrow> pystr list" where
  "stack_lines segments = filter (\<lambda>l. contains l (str ''GNU_STACK'')) (splitlines segments)"

definition check_segments :: "pystr \<Rightarrow> pystr \<Rightarrow> outcome \<Rightarrow> outcome" where
  "check_segments path segments k =
     (case stack_lines segments of
        [] \<Rightarrow> gate_error ''has no GNU_STACK segment'' [path]
      | l # _ \<Rightarrow>
          if stack_flag l then gate_error ''has an executable stack'' [path, strip l]
          else if \<not> contains segments (str ''GNU_RELRO'') then gate_error ''was linked without RELRO'' [path]
          else k)"

definition check_dynamic :: "pystr \<Rightarrow> pystr \<Rightarrow> outcome \<Rightarrow> outcome" where
  "check_dynamic path dynamic k =
     (if contains dynamic (str ''TEXTREL'') then gate_error ''contains text relocations'' [path]
      else if \<not> contains dynamic (str ''BIND_NOW'') \<and> \<not> contains dynamic (str ''(FLAGS)'') then
        gate_error ''was not linked with -z now'' [path]
      else k)"

definition check_link_security :: "repo \<Rightarrow> outcome" where
  "check_link_security w =
     for_binaries (\<lambda>flavour name.
       let path = build_path w (artifact flavour name) in
       readelf w ''-Wl'' path (\<lambda>segments.
         check_segments path segments
           (readelf w ''-Wd'' path (\<lambda>dynamic.
              check_dynamic path dynamic
                (readelf w ''-Wh'' path (\<lambda>header.
                   raise_if (\<not> contains header (str ''DYN ('')) ''is not a position-independent executable'' [path]))))))"

section \<open>The rebuild\<close>

text \<open>The components of a path of the host, as \<open>Path.parts\<close> gives them.\<close>

definition host_parts :: "pystr \<Rightarrow> pystr list" where
  "host_parts p =
     (if startswith p (str ''/'') then [str ''/''] else []) @ filter (\<lambda>c. c \<noteq> []) (split_str (str ''/'') p)"

definition inside_repo :: "repo \<Rightarrow> bool" where
  "inside_repo w \<longleftrightarrow> prefix (root_parts w) (host_parts (build_dir w))"

text \<open>\<open>build_dir.relative_to(ROOT)\<close> where that is possible.\<close>

definition make_build_dir :: "repo \<Rightarrow> pystr" where
  "make_build_dir w =
     (if inside_repo w then
        (case drop (length (root_parts w)) (host_parts (build_dir w)) of
           [] \<Rightarrow> str ''.''
         | p # ps \<Rightarrow> join (str ''/'') (p # ps))
      else build_dir w)"

definition noise :: "pystr \<Rightarrow> pystr list" where
  "noise err = filter (\<lambda>l. contains (lower l) (str ''warning'') \<or> contains (lower l) (str ''error'')) (splitlines err)"

definition check_no_linker_warnings :: "repo \<Rightarrow> outcome" where
  "check_no_linker_warnings w =
     running w [str ''make'', str ''--no-print-directory'', str ''build'', str ''BUILD_DIR='' @ make_build_dir w]
       (\<lambda>rc out err.
          if rc \<noteq> 0 then gate_error ''rebuild failed'' [out, err]
          else raise_if (noise err \<noteq> []) ''toolchain emitted warnings'' (noise err))"

section \<open>CI and tracked artifacts\<close>

definition check_ci_uses_make :: "repo \<Rightarrow> outcome" where
  "check_ci_uses_make w =
     reading w ''.github/workflows/ci.yml'' (\<lambda>ci.
       for_each [''make check'', ''make gate-m1''] (\<lambda>t.
         raise_if (\<not> contains ci (str t)) ''CI does not run'' [str t]))"

definition check_artifacts_untracked :: "repo \<Rightarrow> outcome" where
  "check_artifacts_untracked w =
     reading w ''.gitignore'' (\<lambda>ignore.
       and_then
         (for_each [''build/'', ''dist/'', ''*.o''] (\<lambda>p.
            raise_if (\<not> contains ignore (str p)) ''.gitignore does not exclude'' [str p]))
         (if inside_repo w \<and> path_exists w (str ''.git'') then
            running w [str ''git'', str ''ls-files'', str ''--error-unmatch'', path_name (build_dir w)]
              (\<lambda>rc out err. raise_if (rc = 0) ''is tracked by git'' [build_dir w])
          else nothing))"

section \<open>The gate\<close>

definition checks_m1 ::
  "(pystr \<Rightarrow> bool) \<Rightarrow> (pystr list \<Rightarrow> (int \<times> 'm \<times> 'm) option) \<Rightarrow> pystr \<Rightarrow> repo \<Rightarrow> (string \<times> outcome) list" where
  "checks_m1 access pty version w =
     [(''toolchain present'', for_each [''nasm'', ''gcc'', ''readelf'', ''objcopy''] (need_tool w)),
      (''version and help'', check_version_and_help access w version),
      (''terminal modes preserved'', check_terminal_mode_preserved pty w),
      (''symbol policy'', check_symbols w),
      (''link security'', check_link_security w),
      (''no toolchain warnings'', check_no_linker_warnings w),
      (''CI parity'', check_ci_uses_make w),
      (''artifacts untracked'', check_artifacts_untracked w)]"

definition main_m1 ::
  "(pystr \<Rightarrow> bool) \<Rightarrow> (pystr list \<Rightarrow> (int \<times> 'm \<times> 'm) option) \<Rightarrow> pystr \<Rightarrow> repo \<Rightarrow> string list \<times> int" where
  "main_m1 access pty version w = run_labelled (checks_m1 access pty version w)"

interpretation gate1: fail_fast_gate "checks_m1 access pty version" "main_m1 access pty version"
  for access pty version
  by unfold_locales (rule main_m1_def)

section \<open>The executable-stack test\<close>

lemma split_str_ne: "split_str sep s \<noteq> []"
  by (subst split_str.simps) (simp split: option.split prod.split)

lemma last_split_0x:
  "\<not> contains t [48, 120] \<Longrightarrow> last (split_str [48, 120] (u @ [48, 120] @ t)) = t"
proof (induction u rule: length_induct)
  case (1 u)
  let ?s = "u @ [48, 120] @ t"
  have "sublist [48, 120] ?s" by (rule sublist_appendI)
  then obtain a b where cut: "cut [48, 120] ?s = Some (a, b)"
    using cut_None [of "[48, 120]" ?s] by (cases "cut [48, 120] ?s") auto
  have unfold: "split_str [48, 120] ?s = a # split_str [48, 120] b"
    by (subst split_str.simps) (simp only: cut list.distinct if_False option.case prod.case)
  have last: "last (split_str [48, 120] ?s) = last (split_str [48, 120] b)"
    unfolding unfold using split_str_ne [of "[48, 120]" b] by simp
  have stop: "last (split_str [48, 120] t) = t"
    using "1.prems" cut_None [of "[48, 120]" t]
    by (subst split_str.simps) (simp add: contains_def)
  have eq: "?s = a @ [48, 120] @ b" by (rule cut_Some [OF cut])
  then obtain v where "u = a @ v \<and> v @ [48, 120] @ t = [48, 120] @ b \<or> u @ v = a \<and> [48, 120] @ t = v @ [48, 120] @ b"
    using append_eq_append_conv2 [THEN iffD1, OF eq] by (elim exE)
  then consider "b = t" | v' where "b = v' @ [48, 120] @ t" "length v' < length u" | "sublist [48, 120] t"
    using sublist_appendI [of "[48, 120]" _ b] by (auto simp: Cons_eq_append_conv append_eq_Cons_conv)
  then show ?case
    using last stop 1 by cases (auto simp: contains_def)
qed

lemma stack_re_letter: "rx_found STACK_RE s \<Longrightarrow> 69 \<in> set s"
proof -
  assume "rx_found STACK_RE s"
  then obtain u t where s: "s = u @ t" and can: "rx_can STACK_RE (pos_after None u, t)"
    by (auto simp: rx_found_can)
  have "rx_can (Cat WordB (Cat (rx_lit ''RWE'') WordB)) x \<or> rx_can (Cat WordB (Cat (rx_lit ''E'') WordB)) x \<Longrightarrow>
      69 \<in> set (snd x)" for x :: pos
    by (cases x) (auto simp: can_wordb rx_lit_def can_str str_def)
  moreover have "rx_can STACK_RE x \<longleftrightarrow> rx_can (Cat WordB (Cat (rx_lit ''RWE'') WordB)) x \<or>
      rx_can (Cat WordB (Cat (rx_lit ''E'') WordB)) x" for x
    unfolding STACK_RE_def rx_can_def rel_alt_iff rx_seq.simps by metis
  ultimately show ?thesis using can s by fastforce
qed

text \<open>
  C39: The test for an executable stack never fires on a line of \<open>readelf -Wl\<close>: the text after the
  last \<open>0x\<close> is the alignment, not the flags before it, so whatever the columns before it say,
  the segments pass exactly when \<open>GNU_RELRO\<close> is named and the rest of the check passes.
\<close>

theorem executable_stack_missed:
  assumes "stack_lines segments = (cols @ str ''0x'' @ align) # rest"
    and "list_all (\<lambda>c. is_digit c \<or> 97 \<le> c \<and> c \<le> 102) align"
  shows "passed (check_segments path segments k) \<longleftrightarrow> contains segments (str ''GNU_RELRO'') \<and> passed k"
proof -
  have "120 \<notin> set align" "69 \<notin> set align" using assms(2) by (auto simp: list_all_iff is_digit_def)
  then have "\<not> contains align [48, 120]" by (auto simp: contains_def dest: set_mono_sublist)
  then have "last (split_str (str ''0x'') (cols @ str ''0x'' @ align)) = align"
    using last_split_0x by (simp add: str_def)
  with \<open>69 \<notin> set align\<close> have "\<not> stack_flag (cols @ str ''0x'' @ align)"
    using stack_re_letter by (auto simp: stack_flag_def)
  with assms(1) show ?thesis by (simp add: check_segments_def)
qed

definition rwe_columns :: pystr where
  "rwe_columns = str ''  GNU_STACK      0x000000 0x0000000000000000 0x0000000000000000 0x000000 0x000000 RWE ''"

definition rwe_segments :: pystr where
  "rwe_segments = join nl [str ''  GNU_RELRO      0x002df0 R   0x1'', rwe_columns @ str ''0x'' @ str ''10'']"

theorem executable_stack_missed_witness: "passed (check_segments [] rwe_segments nothing)"
proof -
  have "stack_lines rwe_segments = (rwe_columns @ str ''0x'' @ str ''10'') # []" by code_simp
  moreover have "list_all (\<lambda>c. is_digit c \<or> 97 \<le> c \<and> c \<le> 102) (str ''10'')" by code_simp
  ultimately have "passed (check_segments [] rwe_segments nothing) \<longleftrightarrow>
      contains rwe_segments (str ''GNU_RELRO'') \<and> passed nothing"
    by (rule executable_stack_missed)
  moreover have "contains rwe_segments (str ''GNU_RELRO'')" by code_simp
  ultimately show ?thesis by simp
qed

end
