(* ===== verification/Json_Text.thy ===== *)
theory Json_Text
  imports Py_Value
begin

text \<open>
  What a printer of JSON has to satisfy for the decoder of \<open>Json\<close> to read its texts back. Both
  printers of the program, \<open>json.dumps\<close> in the scripts and the writer of the daemon, print
  numbers and brackets alike; they differ in how they quote a string and in the gap after a
  separator, which are the parameters of \<open>render\<close> and of the locale \<open>json_printer\<close>.
\<close>

section \<open>Escapes\<close>

definition hex_char :: "int \<Rightarrow> cp" where
  "hex_char n = (if n < 10 then 48 + n else 87 + n)"

text \<open>\<open>'\\u{0:04x}'.format(n)\<close>.\<close>

definition u_escape :: "int \<Rightarrow> pystr" where
  "u_escape n = [92, 117, hex_char (n div 4096 mod 16), hex_char (n div 256 mod 16), hex_char (n div 16 mod 16),
     hex_char (n mod 16)]"

lemma hex_digit_char: "0 \<le> n \<Longrightarrow> n < 16 \<Longrightarrow> hex_digit (hex_char n) = Some n"
  by (auto simp: hex_digit_def hex_char_def is_digit_def)

lemma hex_value: "0 \<le> n \<Longrightarrow> n < 65536 \<Longrightarrow>
    ((n div 4096 mod 16 * 16 + n div 256 mod 16) * 16 + n div 16 mod 16) * 16 + n mod 16 = (n::int)"
proof -
  assume n: "0 \<le> n" "n < 65536"
  have top: "n div 4096 mod 16 = n div 4096" by (rule mod_pos_pos_trivial) (use n in auto)
  have "n div 256 = n div 16 div 16" "n div 4096 = n div 256 div 16"
    using zdiv_zmult2_eq [of 16 n 16] zdiv_zmult2_eq [of 16 n 256] by simp_all
  then have "n div 16 = n div 256 * 16 + n div 16 mod 16" "n div 256 = n div 4096 * 16 + n div 256 mod 16"
    by (simp_all only: div_mult_mod_eq)
  moreover have "n = n div 16 * 16 + n mod 16" by (simp only: div_mult_mod_eq)
  ultimately show ?thesis unfolding top by argo
qed

lemma hex4_chars:
  assumes "x \<in> {0..<16}" and "y \<in> {0..<16}" and "z \<in> {0..<16}" and "v \<in> {0..<16}"
  shows "hex4 ([hex_char x, hex_char y, hex_char z, hex_char v] @ r) = Some (((x * 16 + y) * 16 + z) * 16 + v, r)"
  using assms by (simp add: hex_digit_char)

lemma hex4_escape:
  "0 \<le> n \<Longrightarrow> n < 65536 \<Longrightarrow> hex4 (drop 2 (u_escape n) @ r) = Some (n, r)"
proof -
  assume n: "0 \<le> n" "n < 65536"
  have "hex4 (drop 2 (u_escape n) @ r) =
      Some (((n div 4096 mod 16 * 16 + n div 256 mod 16) * 16 + n div 16 mod 16) * 16 + n mod 16, r)"
    using hex4_chars [of "n div 4096 mod 16" "n div 256 mod 16" "n div 16 mod 16" "n mod 16" r]
    by (simp only: u_escape_def) simp
  then show ?thesis by (simp only: hex_value [OF n])
qed

lemma u_escape_Cons: "u_escape n = 92 # 117 # drop 2 (u_escape n)"
  by (simp add: u_escape_def)

lemma escape_u: "0 \<le> n \<Longrightarrow> n < 65536 \<Longrightarrow> escape (tl (u_escape n) @ r) = Some (pair_up n r)"
  using hex4_escape [of n r] by (subst u_escape_Cons) (simp add: escape_def)

lemma pair_up_plain: "\<not> high_surrogate n \<Longrightarrow> pair_up n r = (n, r)"
  by (simp add: pair_up_def)

lemma pair_up_pair:
  assumes "65536 \<le> c" and "c < 1114112"
  shows "pair_up (55296 + (c - 65536) div 1024) (u_escape (56320 + (c - 65536) mod 1024) @ r) = (c, r)"
proof -
  let ?h = "55296 + (c - 65536) div 1024" and ?l = "56320 + (c - 65536) mod 1024"
  have "(c - 65536) div 1024 < 1024" "0 \<le> (c - 65536) div 1024" using assms by auto
  then have h: "high_surrogate ?h" by (simp add: high_surrogate_def)
  have l: "low_surrogate ?l" "0 \<le> ?l" "?l < 65536"
    using pos_mod_bound [of 1024 "c - 65536"] by (auto simp: low_surrogate_def simp del: pos_mod_bound)
  have "prefix [92, 117] (u_escape ?l @ r)" by (simp add: u_escape_def)
  moreover have "hex4 (drop 2 (u_escape ?l @ r)) = Some (?l, r)"
    using hex4_escape [OF l(2,3), of r] by (simp add: u_escape_def)
  moreover have "65536 + (?h - 55296) * 1024 + (?l - 56320) = c"
    using mult_div_mod_eq [of 1024 "c - 65536"] by simp
  ultimately show ?thesis using h l(1) by (simp add: pair_up_def)
qed

lemma scan_backslash:
  "escape s = Some (d, r) \<Longrightarrow> scanstring (92 # s) = map_option (\<lambda>(t, q). (d # t, q)) (scanstring r)"
  by (subst scanstring.simps) simp

definition int_text :: "int \<Rightarrow> pystr" where
  "int_text n = (if n < 0 then [45] else []) @ dec_text (nat \<bar>n\<bar>)"

section \<open>Numbers\<close>

text \<open>What follows a value inside a document: the end, a comma or a closing bracket.\<close>

definition stops :: "pystr \<Rightarrow> bool" where
  "stops r \<longleftrightarrow> r = [] \<or> hd r \<in> {44, 93, 125}"

lemma dec_text_digits: "list_all is_digit (dec_text n) \<and> dec_text n \<noteq> []"
proof (induction n rule: dec_text.induct)
  case (1 n)
  have "is_digit (48 + int (n mod 10))" by (auto simp: is_digit_def)
  moreover have "n < 10 \<Longrightarrow> is_digit (48 + int n)" by (simp add: is_digit_def)
  ultimately show ?case using 1 by (subst (1 2) dec_text.simps) simp
qed

lemma dec_text_value: "nat_text (dec_text n) = int n"
proof (induction n rule: dec_text.induct)
  case (1 n)
  show ?case
  proof (cases "n < 10")
    case True
    then show ?thesis by (subst dec_text.simps) (simp add: nat_text_def)
  next
    case False
    then have "nat_text (dec_text n) = 10 * nat_text (dec_text (n div 10)) + int (n mod 10)"
      by (subst dec_text.simps) (simp add: nat_text_def)
    also have "\<dots> = int (10 * (n div 10) + n mod 10)" using 1 False by (simp only: of_nat_add of_nat_mult) simp
    finally show ?thesis by (simp only: mult_div_mod_eq)
  qed
qed

lemma dec_text_zero: "hd (dec_text n) = 48 \<longleftrightarrow> n = 0"
proof (induction n rule: dec_text.induct)
  case (1 n)
  show ?case
  proof (cases "n < 10")
    case True
    then show ?thesis by (subst dec_text.simps) simp
  next
    case False
    with 1 dec_text_digits [of "n div 10"] show ?thesis by (subst dec_text.simps) (auto simp: hd_append)
  qed
qed

lemma digits_stop: "list_all is_digit ds \<Longrightarrow> stops r \<Longrightarrow> digits_of (ds @ r) = ds"
  by (induction ds) (auto simp: digits_of_def stops_def is_digit_def takeWhile_eq_Nil_iff neq_Nil_conv)

lemma digits_nonstop: "stops r \<Longrightarrow> frac_part r = [] \<and> exp_part r = []"
  by (cases r) (auto simp: stops_def frac_part_def exp_part_def)

lemma int_part_text:
  "stops r \<Longrightarrow> int_part (int_text n @ r) = Some (int_text n)"
proof -
  assume r: "stops r"
  let ?d = "dec_text (nat \<bar>n\<bar>)"
  have d: "list_all is_digit ?d" "?d \<noteq> []" using dec_text_digits by auto
  have digits: "digits_of (?d @ r) = ?d" by (rule digits_stop [OF d(1) r])
  have zero: "hd ?d = 48 \<Longrightarrow> ?d = [48]" by (simp add: dec_text_zero dec_text.simps [of 0])
  have "\<not> prefix [45] (?d @ r)" using d by (cases ?d) (auto simp: is_digit_def)
  moreover have "hd (?d @ r) = hd ?d" using d(2) by simp
  ultimately show ?thesis using digits d(2) zero
    by (cases "n < 0"; cases "hd ?d = 48") (simp_all add: int_part_def int_text_def Let_def)
qed

lemma number_text: "stops r \<Longrightarrow> number (int_text n @ r) = Some (JInt n, r)"
proof -
  assume r: "stops r"
  have "list_all is_digit (dec_text (nat n))" "dec_text (nat n) \<noteq> []" using dec_text_digits by auto
  then have "\<not> prefix [45] (dec_text (nat n))" by (cases "dec_text (nat n)") (auto simp: is_digit_def)
  then have "(if prefix [45] (int_text n) then - nat_text (tl (int_text n)) else nat_text (int_text n)) = n"
    by (auto simp: int_text_def dec_text_value)
  then show ?thesis using int_part_text [OF r] digits_nonstop [OF r] by (simp add: number_def Let_def)
qed

lemma int_text_head: "\<exists>c t. int_text n = c # t \<and> (is_digit c \<or> c = 45 \<and> t \<noteq> [] \<and> is_digit (hd t))"
proof -
  have "list_all is_digit (dec_text (nat \<bar>n\<bar>))" "dec_text (nat \<bar>n\<bar>) \<noteq> []" using dec_text_digits by auto
  then obtain c t where "dec_text (nat \<bar>n\<bar>) = c # t" "is_digit c" by (cases "dec_text (nat \<bar>n\<bar>)") auto
  then show ?thesis by (cases "n < 0") (auto simp: int_text_def)
qed

lemma scalar_value_int: "stops r \<Longrightarrow> scalar_value (int_text n @ r) = Some (JInt n, r)"
proof -
  assume r: "stops r"
  obtain c t where c: "int_text n = c # t" "is_digit c \<or> c = 45 \<and> t \<noteq> [] \<and> is_digit (hd t)"
    using int_text_head by blast
  from c(2) have "c \<notin> {110, 116, 102, 78, 73}" "c = 45 \<longrightarrow> t \<noteq> [] \<and> hd t \<noteq> 73" by (auto simp: is_digit_def)
  then have "List.find (\<lambda>(x, v). prefix x (int_text n @ r)) literals = None"
    by (cases t; cases "c = 45") (simp_all add: c(1) literals_def str_def)
  then show ?thesis using number_text [OF r] by (simp add: scalar_value_def)
qed

section \<open>Documents\<close>

fun render :: "(pystr \<Rightarrow> pystr) \<Rightarrow> pystr \<Rightarrow> json \<Rightarrow> pystr" where
  "render quote gap JNull = str ''null''"
| "render quote gap (JBool b) = str (if b then ''true'' else ''false'')"
| "render quote gap (JInt n) = int_text n"
| "render quote gap (JFloat t) = t"
| "render quote gap (JStr s) = quote s"
| "render quote gap (JArr vs) = [91] @ join (44 # gap) (map (render quote gap) vs) @ [93]"
| "render quote gap (JObj d) =
     [123] @ join (44 # gap) (map (\<lambda>m. quote (fst m) @ (58 # gap) @ render quote gap (snd m)) d) @ [125]"

text \<open>Values without floats, of Unicode scalar values; and what repeated keys leave of a value.\<close>

fun printable :: "json \<Rightarrow> bool" where
  "printable (JFloat t) = False"
| "printable (JStr s) = list_all scalar s"
| "printable (JArr vs) = list_all printable vs"
| "printable (JObj d) = list_all (\<lambda>m. list_all scalar (fst m) \<and> printable (snd m)) d"
| "printable v = True"

fun collapse :: "json \<Rightarrow> json" where
  "collapse (JArr vs) = JArr (map collapse vs)"
| "collapse (JObj d) = JObj (dict_of (map (\<lambda>m. (fst m, collapse (snd m))) d))"
| "collapse v = v"

lemma dict_set_new: "k \<notin> fst ` set d \<Longrightarrow> dict_set d k v = d @ [(k, v)]"
  by (induction d k v rule: dict_set.induct) auto

lemma dict_of_distinct: "distinct (map fst d) \<Longrightarrow> dict_of d = d"
proof (induction d rule: rev_induct)
  case (snoc m d)
  then show ?case by (cases m) (simp add: dict_of_def dict_set_new)
qed (simp add: dict_of_def)

lemma dict_set_values: "m \<in> set (dict_set d k v) \<Longrightarrow> m \<in> set d \<or> m = (k, v)"
  by (induction d k v rule: dict_set.induct) (auto split: if_splits)

lemma dict_of_values: "set (dict_of ms) \<subseteq> set ms"
proof (induction ms rule: rev_induct)
  case (snoc m ms)
  then show ?case using dict_set_values by (cases m) (fastforce simp: dict_of_def)
qed (simp add: dict_of_def)

lemma from_Suc: "\<forall>n \<ge> N. P (Suc n) \<Longrightarrow> \<exists>N. \<forall>n \<ge> N. P n"
  by (metis Suc_le_D Suc_le_mono)

lemma stops_simps [simp]: "stops (44 # r)" "stops (93 # r)" "stops (125 # r)" "stops []"
  by (simp_all add: stops_def)

lemma skip_ws_stop [simp]:
  "skip_ws (44 # r) = 44 # r" "skip_ws (93 # r) = 93 # r" "skip_ws (125 # r) = 125 # r" "skip_ws (58 # r) = 58 # r"
  "skip_ws (34 # r) = 34 # r" "skip_ws (32 # r) = skip_ws r"
  by (simp_all add: skip_ws_def)

text \<open>What a value can start with.\<close>

definition value_start :: "cp \<Rightarrow> bool" where
  "value_start c \<longleftrightarrow> c \<notin> {32, 9, 10, 13, 93, 125, 65279}"

text \<open>Printable ASCII.\<close>

definition ascii :: "pystr \<Rightarrow> bool" where
  "ascii s \<longleftrightarrow> list_all (\<lambda>c. 32 \<le> c \<and> c \<le> 126) s"

lemma ascii_append [simp]: "ascii (s @ t) \<longleftrightarrow> ascii s \<and> ascii t"
  by (simp add: ascii_def)

lemma ascii_Cons [simp]: "ascii (c # t) \<longleftrightarrow> 32 \<le> c \<and> c \<le> 126 \<and> ascii t" "ascii []"
  by (auto simp: ascii_def)

lemma ascii_u_escape: "ascii (u_escape n)"
proof -
  have "32 \<le> hex_char (m mod 16) \<and> hex_char (m mod 16) \<le> 126" for m
  proof -
    have "m mod 16 \<in> {0..<16}" by simp
    then show ?thesis by (auto simp: hex_char_def)
  qed
  then show ?thesis by (simp add: u_escape_def)
qed

lemma ascii_int_text: "ascii (int_text n)"
  using dec_text_digits [of "nat \<bar>n\<bar>"] by (auto simp: int_text_def ascii_def is_digit_def list_all_iff)

lemma list_all_join: "list_all (list_all P) ss \<Longrightarrow> list_all P sep \<Longrightarrow> list_all P (join sep ss)"
  by (induction sep ss rule: join.induct) auto

locale json_printer =
  fixes quote :: "pystr \<Rightarrow> pystr" and gap :: pystr
  assumes quote_head: "quote s = 34 # tl (quote s)"
    and scan_quote: "list_all scalar s \<Longrightarrow> scanstring (tl (quote s) @ r) = Some (s, r)"
    and gap_skipped: "skip_ws (gap @ r) = skip_ws r"
begin

abbreviation text_of :: "json \<Rightarrow> pystr" where "text_of \<equiv> render quote gap"

lemma render_head: "printable v \<Longrightarrow> \<exists>c t. text_of v = c # t \<and> value_start c"
proof (cases v)
  case (JInt n)
  then show ?thesis using int_text_head [of n] by (auto simp: value_start_def is_digit_def)
next
  case (JStr s)
  then show ?thesis using quote_head [of s] by (intro exI [of _ 34] exI [of _ "tl (quote s)"]) (simp add: value_start_def)
qed (auto simp: value_start_def str_def)

lemma skip_ws_render: "printable v \<Longrightarrow> skip_ws (text_of v @ r) = text_of v @ r"
  using render_head [of v] by (auto simp: skip_ws_def value_start_def)

lemma skip_gap_render: "printable v \<Longrightarrow> skip_ws (gap @ text_of v @ r) = text_of v @ r"
  by (simp add: gap_skipped skip_ws_render)

definition reads_back :: "json \<Rightarrow> bool" where
  "reads_back v \<longleftrightarrow> (\<forall>r. stops r \<longrightarrow> (\<exists>N. \<forall>n \<ge> N. jvalue n (text_of v @ r) = Some (collapse v, r)))"

lemma reads_backD: "reads_back v \<Longrightarrow> stops r \<Longrightarrow> \<exists>N. \<forall>n \<ge> N. jvalue n (text_of v @ r) = Some (collapse v, r)"
  by (simp add: reads_back_def)

lemma reads_backI:
  "(\<And>r. stops r \<Longrightarrow> \<exists>N. \<forall>n \<ge> N. jvalue (Suc n) (text_of v @ r) = Some (collapse v, r)) \<Longrightarrow> reads_back v"
  unfolding reads_back_def by (metis Suc_le_D Suc_le_mono)

lemma read_elems:
  "vs \<noteq> [] \<Longrightarrow> list_all reads_back vs \<Longrightarrow> list_all printable vs \<Longrightarrow>
   \<exists>N. \<forall>n \<ge> N. jelems n (join (44 # gap) (map text_of vs) @ 93 # r) = Some (map collapse vs, r)"
proof (induction vs rule: list_nonempty_induct)
  case (single v)
  then obtain N where "\<forall>n \<ge> N. jvalue n (text_of v @ 93 # r) = Some (collapse v, 93 # r)"
    using reads_backD [of v "93 # r"] by auto
  then show ?case by (intro from_Suc [of N]) simp
next
  case (cons v vs)
  let ?vs = "join (44 # gap) (map text_of vs) @ 93 # r"
  obtain N where N: "\<forall>n \<ge> N. jelems n ?vs = Some (map collapse vs, r)"
    using cons by auto
  let ?t = "44 # gap @ ?vs"
  obtain M where M: "\<forall>n \<ge> M. jvalue n (text_of v @ ?t) = Some (collapse v, ?t)"
    using cons reads_backD [of v ?t] by auto
  obtain u us where us: "vs = u # us" using cons by (cases vs) auto
  then have "printable u" using cons by simp
  then have skip: "skip_ws (gap @ ?vs) = ?vs"
    using skip_ws_render [of u] us by (cases us) (simp_all add: gap_skipped)
  have eq: "join (44 # gap) (map text_of (v # vs)) @ 93 # r = text_of v @ ?t"
    using us by simp
  show ?case
  proof (rule from_Suc [of "max N M"], intro allI impI)
    fix n assume "max N M \<le> n"
    with N M skip show "jelems (Suc n) (join (44 # gap) (map text_of (v # vs)) @ 93 # r) = Some (map collapse (v # vs), r)"
      unfolding eq by simp
  qed
qed

definition member_text :: "pystr \<times> json \<Rightarrow> pystr" where
  "member_text m = quote (fst m) @ (58 # gap) @ text_of (snd m)"

abbreviation collapse_member :: "pystr \<times> json \<Rightarrow> pystr \<times> json" where
  "collapse_member m \<equiv> (fst m, collapse (snd m))"

lemma scan_key: "list_all scalar k \<Longrightarrow> scanstring (tl (quote k @ r)) = Some (k, r)"
  using scan_quote [of k r] quote_head [of k] by (metis append_Cons list.sel(3))

lemma key_start: "prefix [34] (quote k @ t)" "skip_ws (quote k @ t) = quote k @ t"
  using quote_head [of k] by (metis Cons_prefix_Cons Nil_prefix append_Cons) (metis append_Cons skip_ws_stop(5) quote_head)

lemma read_members:
  "d \<noteq> [] \<Longrightarrow> list_all (\<lambda>m. reads_back (snd m)) d \<Longrightarrow> list_all (\<lambda>m. list_all scalar (fst m) \<and> printable (snd m)) d \<Longrightarrow>
   \<exists>N. \<forall>n \<ge> N. jmembers n (join (44 # gap) (map member_text d) @ 125 # r) = Some (map collapse_member d, r)"
proof (induction d rule: list_nonempty_induct)
  case (single m)
  obtain k v where m: "m = (k, v)" by (cases m)
  with single obtain N where "\<forall>n \<ge> N. jvalue n (text_of v @ 125 # r) = Some (collapse v, 125 # r)"
    using reads_backD [of v "125 # r"] by auto
  then show ?case using single m
    by (intro from_Suc [of N]) (simp add: member_text_def scan_key key_start skip_gap_render)
next
  case (cons m d)
  obtain k v where m: "m = (k, v)" by (cases m)
  let ?d = "join (44 # gap) (map member_text d) @ 125 # r"
  obtain N where N: "\<forall>n \<ge> N. jmembers n ?d = Some (map collapse_member d, r)" using cons by auto
  let ?t = "44 # gap @ ?d"
  obtain M where M: "\<forall>n \<ge> M. jvalue n (text_of v @ ?t) = Some (collapse v, ?t)"
    using cons m reads_backD [of v ?t] by auto
  have skip: "skip_ws (gap @ ?d) = ?d"
    using cons.hyps by (cases d; cases "tl d") (simp_all add: member_text_def key_start gap_skipped)
  have eq: "join (44 # gap) (map member_text (m # d)) @ 125 # r = quote k @ 58 # gap @ text_of v @ ?t"
    using cons.hyps m by (cases d) (simp_all add: member_text_def)
  have k: "list_all scalar k" "printable v" using cons.prems m by auto
  show ?case
  proof (rule from_Suc [of "max N M"], intro allI impI)
    fix n assume "max N M \<le> n"
    with N M skip k m show "jmembers (Suc n) (join (44 # gap) (map member_text (m # d)) @ 125 # r) =
        Some (map collapse_member (m # d), r)"
      unfolding eq by (simp add: scan_key key_start skip_gap_render)
  qed
qed

lemma printable_reads_back: "printable v \<Longrightarrow> reads_back v"
proof (induction v)
  case (JInt n)
  show ?case
  proof (rule reads_backI)
    fix r assume "stops r"
    then show "\<exists>N. \<forall>m \<ge> N. jvalue (Suc m) (text_of (JInt n) @ r) = Some (collapse (JInt n), r)"
      using scalar_value_int [of r n] int_text_head [of n] by (auto simp: is_digit_def)
  qed
next
  case (JStr s)
  show ?case
  proof (rule reads_backI)
    fix r
    obtain t where t: "quote s = 34 # t" using quote_head [of s] by blast
    then have "scanstring (t @ r) = Some (s, r)" using scan_quote [of s r] JStr by simp
    with t show "\<exists>N. \<forall>n \<ge> N. jvalue (Suc n) (text_of (JStr s) @ r) = Some (collapse (JStr s), r)" by simp
  qed
next
  case (JArr vs)
  show ?case
  proof (cases "vs = []")
    case False
    then obtain u us where us: "vs = u # us" by (cases vs) auto
    let ?vs = "join (44 # gap) (map text_of vs)"
    have skip: "skip_ws (?vs @ t) = ?vs @ t" for t
      using skip_ws_render [of u] us JArr.prems by (cases us) simp_all
    have first: "\<not> prefix [93] (?vs @ t)" for t
      using render_head [of u] us JArr.prems by (cases us) (auto simp: value_start_def)
    have "list_all reads_back vs" "list_all printable vs" using JArr by (auto simp: list_all_iff)
    then have "\<exists>N. \<forall>n \<ge> N. jelems n (?vs @ 93 # r) = Some (map collapse vs, r)" for r
      by (rule read_elems [OF False])
    then show ?thesis using skip first by (intro reads_backI) fastforce
  qed (intro reads_backI, simp add: skip_ws_def)
next
  case (JObj d)
  show ?case
  proof (cases "d = []")
    case False
    then obtain u us where us: "d = u # us" by (cases d) auto
    let ?ms = "map (\<lambda>m. quote (fst m) @ (58 # gap) @ text_of (snd m)) d"
    obtain q where "quote (fst u) = 34 # q" using quote_head by blast
    then have start: "\<exists>x. join (44 # gap) ?ms @ t = 34 # x" for t using us by (cases us) simp_all
    have skip: "skip_ws (join (44 # gap) ?ms @ t) = join (44 # gap) ?ms @ t" for t
      using start [of t] by auto
    have first: "\<not> prefix [125] (join (44 # gap) ?ms @ t)" for t
      using start [of t] by auto
    have "list_all (\<lambda>m. reads_back (snd m)) d" "list_all (\<lambda>m. list_all scalar (fst m) \<and> printable (snd m)) d"
      using JObj by (auto simp: list_all_iff snds.simps split: prod.splits)
    then have "\<exists>N. \<forall>n \<ge> N. jmembers n (join (44 # gap) ?ms @ 125 # r) = Some (map collapse_member d, r)" for r
      using read_members [OF False] by (simp add: member_text_def [abs_def])
    then show ?thesis using skip first by (intro reads_backI) fastforce
  qed (intro reads_backI, simp add: skip_ws_def dict_of_def)
qed (intro reads_backI, auto simp: scalar_value_def literals_def str_def split: if_splits)+

text \<open>The decoder reads back what is printed; a repeated key keeps its last value.\<close>

lemma loads_render:
  assumes "printable v"
  shows "loads (text_of v) = Some (collapse v)"
proof -
  obtain N where N: "\<forall>n \<ge> N. jvalue n (text_of v @ []) = Some (collapse v, [])"
    using reads_backD [OF printable_reads_back [OF assms]] stops_simps(4) by blast
  let ?f = "2 * length (text_of v) + 2"
  have "jvalue ?f (text_of v) = jvalue (?f + N) (text_of v)" by (rule jvalue_fuel [symmetric]) simp
  also have "\<dots> = Some (collapse v, [])" using N by (simp del: jvalue.simps)
  finally have "jvalue ?f (skip_ws (text_of v)) = Some (collapse v, [])" using skip_ws_render [OF assms, of "[]"] by simp
  moreover have "\<not> prefix [65279] (text_of v)" using render_head [OF assms] by (auto simp: value_start_def)
  ultimately show ?thesis by (simp add: loads_def skip_ws_def)
qed

text \<open>What holds of printable ASCII and of every string holds of the whole text.\<close>

lemma render_all:
  assumes "\<And>c. 32 \<le> c \<Longrightarrow> c \<le> 126 \<Longrightarrow> P c" "\<And>s. list_all scalar s \<Longrightarrow> list_all P (quote s)" "list_all P gap"
  shows "printable v \<Longrightarrow> list_all P (text_of v)"
proof (induction v)
  case (JInt n)
  show ?case using ascii_int_text [of n] assms(1) by (auto simp: ascii_def list_all_iff)
next
  case (JArr vs)
  then have "list_all (list_all P) (map text_of vs)" by (auto simp: list_all_iff)
  with assms(1,3) show ?case by (simp add: list_all_join)
next
  case (JObj d)
  then have "list_all (list_all P) (map (\<lambda>m. quote (fst m) @ (58 # gap) @ text_of (snd m)) d)"
    using assms by (auto simp: list_all_iff snds.simps)
  with assms(1,3) show ?case by (simp add: list_all_join)
qed (use assms in \<open>auto simp: str_def\<close>)

end

end
