(* ===== verification/Json_Dumps.thy ===== *)
theory Json_Dumps
  imports Json_Text
begin

text \<open>
  \<open>json.dumps\<close> with its default arguments: ASCII output, \<open>", "\<close> and \<open>": "\<close> as separators, and the
  escapes of the encoder. A float is printed as the text it was read from, which is not always
  the representation Python prints; \<open>plain\<close> values have none.

  \<open>loads_dumps\<close> shows that the decoder reads back every plain value from what the encoder wrote.
\<close>

section \<open>The encoder\<close>

definition escape_cp :: "cp \<Rightarrow> pystr" where
  "escape_cp c =
     (if c = 34 \<or> c = 92 then [92, c]
      else if c = 10 then [92, 110]
      else if c = 13 then [92, 114]
      else if c = 9 then [92, 116]
      else if c = 12 then [92, 102]
      else if c = 8 then [92, 98]
      else if 32 \<le> c \<and> c \<le> 126 then [c]
      else if c < 65536 then u_escape c
      else u_escape (55296 + (c - 65536) div 1024) @ u_escape (56320 + (c - 65536) mod 1024))"

definition dumps_str :: "pystr \<Rightarrow> pystr" where
  "dumps_str s = [34] @ concat (map escape_cp s) @ [34]"

fun dumps :: "json \<Rightarrow> pystr" where
  "dumps JNull = str ''null''"
| "dumps (JBool b) = str (if b then ''true'' else ''false'')"
| "dumps (JInt n) = int_text n"
| "dumps (JFloat t) = t"
| "dumps (JStr s) = dumps_str s"
| "dumps (JArr vs) = [91] @ join (str '', '') (map dumps vs) @ [93]"
| "dumps (JObj d) = [123] @ join (str '', '') (map (\<lambda>m. dumps_str (fst m) @ str '': '' @ dumps (snd m)) d) @ [125]"

text \<open>Values without floats, of Unicode scalar values, whose objects have each key once.\<close>

fun plain :: "json \<Rightarrow> bool" where
  "plain (JFloat t) = False"
| "plain (JStr s) = list_all scalar s"
| "plain (JArr vs) = list_all plain vs"
| "plain (JObj d) = (distinct (map fst d) \<and> list_all (\<lambda>m. list_all scalar (fst m) \<and> plain (snd m)) d)"
| "plain v = True"

section \<open>Strings\<close>

lemma escape_cp_simple:
  "c \<in> {34, 92, 10, 13, 9, 12, 8} \<Longrightarrow> \<exists>d. escape_cp c = [92, d] \<and> simple_escape d = Some c \<and> d \<noteq> 117"
  by (auto simp: escape_cp_def simple_escape_def)

lemma escape_cp_self: "32 \<le> c \<Longrightarrow> c \<le> 126 \<Longrightarrow> c \<noteq> 34 \<Longrightarrow> c \<noteq> 92 \<Longrightarrow> escape_cp c = [c]"
  by (simp add: escape_cp_def)

lemma escape_cp_bmp:
  "c \<notin> {34, 92, 10, 13, 9, 12, 8} \<Longrightarrow> \<not> (32 \<le> c \<and> c \<le> 126) \<Longrightarrow> c < 65536 \<Longrightarrow> escape_cp c = u_escape c"
  unfolding escape_cp_def by (simp only: insert_iff empty_iff de_Morgan_disj if_False simp_thms if_True)

lemma escape_cp_pair:
  "65536 \<le> c \<Longrightarrow> escape_cp c = u_escape (55296 + (c - 65536) div 1024) @ u_escape (56320 + (c - 65536) mod 1024)"
  unfolding escape_cp_def by simp

lemma scan_escape_cp:
  assumes "scalar c"
  shows "scanstring (escape_cp c @ r) = map_option (\<lambda>(t, q). (c # t, q)) (scanstring r)"
proof -
  consider (simple) d where "escape_cp c = [92, d]" "simple_escape d = Some c" "d \<noteq> 117"
    | (self) "escape_cp c = [c]" "c \<noteq> 34" "c \<noteq> 92" "\<not> c < 32"
    | (bmp) "escape_cp c = u_escape c" "0 \<le> c" "c < 65536"
    | (pair) "escape_cp c = u_escape (55296 + (c - 65536) div 1024) @ u_escape (56320 + (c - 65536) mod 1024)"
        "65536 \<le> c" "c < 1114112"
  proof (cases "c \<in> {34, 92, 10, 13, 9, 12, 8}")
    case True
    with escape_cp_simple that(1) show thesis by blast
  next
    case False
    have c: "0 \<le> c" "c < 1114112" using assms by (auto simp: scalar_def)
    consider "32 \<le> c \<and> c \<le> 126" | "\<not> (32 \<le> c \<and> c \<le> 126)" "c < 65536" | "65536 \<le> c" by linarith
    then show thesis
    proof cases
      case 1
      with False escape_cp_self that(2) show thesis by simp
    next
      case 2
      with False escape_cp_bmp c(1) that(3) show thesis by blast
    next
      case 3
      with escape_cp_pair c(2) that(4) show thesis by blast
    qed
  qed
  then show ?thesis
  proof cases
    case simple
    then show ?thesis by (simp add: scan_backslash escape_def)
  next
    case self
    then show ?thesis by (subst scanstring.simps) simp
  next
    case bmp
    have "\<not> high_surrogate c" using assms by (auto simp: scalar_def high_surrogate_def)
    then have "escape (tl (u_escape c) @ r) = Some (c, r)"
      using escape_u [OF bmp(2,3)] by (simp add: pair_up_plain)
    moreover have "u_escape c @ r = 92 # tl (u_escape c) @ r" by (simp add: u_escape_def)
    ultimately show ?thesis unfolding bmp(1) by (metis scan_backslash)
  next
    case pair
    let ?h = "55296 + (c - 65536) div 1024" and ?l = "56320 + (c - 65536) mod 1024"
    have "0 \<le> ?h" "?h < 65536" using pair by auto
    then have "escape (tl (u_escape ?h) @ u_escape ?l @ r) = Some (c, r)"
      using escape_u [of ?h "u_escape ?l @ r"] pair_up_pair [OF pair(2,3)] by simp
    moreover have "u_escape ?h @ u_escape ?l @ r = 92 # tl (u_escape ?h) @ u_escape ?l @ r"
      by (simp add: u_escape_def)
    ultimately show ?thesis unfolding pair(1) append_assoc by (metis scan_backslash)
  qed
qed

lemma scan_dumps: "list_all scalar s \<Longrightarrow> scanstring (concat (map escape_cp s) @ 34 # r) = Some (s, r)"
proof (induction s)
  case Nil
  show ?case by (subst scanstring.simps) simp
next
  case (Cons c s)
  then show ?case by (simp add: scan_escape_cp)
qed

section \<open>Documents\<close>

lemma dumps_str_tl: "dumps_str s = 34 # tl (dumps_str s)"
  by (simp add: dumps_str_def)

interpretation py: json_printer dumps_str "[32]"
  by unfold_locales (rule dumps_str_tl, simp_all add: dumps_str_def scan_dumps)

lemma dumps_render: "plain v \<Longrightarrow> dumps v = render dumps_str [32] v"
proof (induction v)
  case (JArr vs)
  then have "map dumps vs = map (render dumps_str [32]) vs" by (auto simp: list_all_iff)
  then show ?case by (simp only: dumps.simps render.simps str_def) simp
next
  case (JObj d)
  then have "map (\<lambda>m. dumps_str (fst m) @ str '': '' @ dumps (snd m)) d =
      map (\<lambda>m. dumps_str (fst m) @ [58, 32] @ render dumps_str [32] (snd m)) d"
    by (auto simp: list_all_iff str_def snds.simps)
  then show ?case by (simp only: dumps.simps render.simps str_def) simp
qed simp_all

lemma plain_printable: "plain v \<Longrightarrow> printable v \<and> collapse v = v"
proof (induction v)
  case (JArr vs)
  then show ?case by (auto simp: list_all_iff intro: map_idI)
next
  case (JObj d)
  then have "map (\<lambda>m. (fst m, collapse (snd m))) d = d"
    by (intro map_idI) (auto simp: list_all_iff snds.simps)
  with JObj show ?case by (auto simp: list_all_iff snds.simps dict_of_distinct)
qed simp_all

text \<open>The encoder writes printable ASCII only.\<close>

lemma ascii_dumps_str: "ascii (dumps_str s)"
proof -
  have "ascii (escape_cp c)" for c by (auto simp: escape_cp_def ascii_u_escape)
  then have "ascii (concat (map escape_cp s))" by (induction s) auto
  then show ?thesis by (simp add: dumps_str_def)
qed

lemma ascii_dumps: "plain v \<Longrightarrow> ascii (dumps v)"
  using py.render_all [of "\<lambda>c. 32 \<le> c \<and> c \<le> 126" v] ascii_dumps_str plain_printable [of v]
  by (simp add: ascii_def dumps_render)

lemma loads_plain: "plain v \<Longrightarrow> loads (dumps v) = Some v"
  using py.loads_render [of v] plain_printable [of v] by (simp add: dumps_render)

text \<open>
  Round trip: a document without floats, of Unicode scalar values and with each key once in every
  object, is read back by the decoder exactly as it was from the text the encoder writes, and
  that text is printable ASCII.
\<close>

lemma loads_dumps:
  assumes "plain v"
  shows "loads (dumps v) = Some v \<and> ascii (dumps v)"
  using loads_plain [OF assms] ascii_dumps [OF assms] by blast

end
