(* ===== verification/Gate_M3.thy ===== *)
theory Gate_M3
  imports Json_Dumps "HOL-Library.AList"
begin

text \<open>
  \<open>scripts/gate_m3.py\<close>, the gate of the configuration: documents and mutations of the shipped
  examples (\<open>tests/config_corpus.py\<close>) are written to a temporary directory and given to the daemon
  with \<open>--check-config\<close>; then a reload soak and the parity suite.

  Parameters of the checks: the daemon as \<open>daemon\<close>, its result and the names in its directory
  afterwards, for a command line, an environment and the bytes of the document; the name of the
  \<open>n\<close>-th temporary directory of a check as \<open>tmp n\<close>; and the caller's \<open>PATH\<close>.
\<close>

section \<open>The corpus\<close>

definition CREDENTIAL_KEYS :: "string list" where
  "CREDENTIAL_KEYS = [''api_key'', ''apikey'', ''secret'', ''password'', ''token'', ''authorization'', ''private_key'',
     ''credential'', ''credentials'', ''passphrase'', ''bearer'']"

definition base_document :: "repo \<Rightarrow> pyexn + json" where
  "base_document w = load_json w (str ''examples/asmflow.minimal.json'')"

definition full_document :: "repo \<Rightarrow> pyexn + json" where
  "full_document w = load_json w (str ''examples/asmflow.full.json'')"

type_synonym env = "(pystr \<times> pystr) list"

definition FULL_ENV :: env where
  "FULL_ENV = map (\<lambda>(k, v). (str k, str v))
     [(''ASMFLOW_GATEWAY_TOKEN'', ''test-gateway-token''), (''OPENAI_API_KEY'', ''test-openai-key''),
      (''REMOTE_MCP_TOKEN'', ''test-remote-token''), (''FILESYSTEM_TOKEN'', ''test-filesystem-token'')]"

section \<open>Running the daemon\<close>

record sandbox =
  tmp :: "nat \<Rightarrow> pystr"
  caller_path :: pystr
  daemon :: "pystr list \<Rightarrow> env \<Rightarrow> bytes \<Rightarrow> procres \<times> pystr list"

text \<open>\<open>clean_env\<close>: nothing of the caller's environment but \<open>PATH\<close>.\<close>

definition clean_env :: "sandbox \<Rightarrow> pystr \<Rightarrow> env \<Rightarrow> env" where
  "clean_env g work extra =
     foldl (\<lambda>e (k, v). AList.update k v e)
       [(str ''PATH'', caller_path g), (str ''HOME'', work), (str ''XDG_CONFIG_HOME'', work @ str ''/config''),
        (str ''XDG_STATE_HOME'', work @ str ''/state''), (str ''XDG_RUNTIME_DIR'', work @ str ''/run'')] extra"

datatype config_text = Document json | Text pystr

text \<open>
  The bytes of the configuration file: a document that is a string, as a fixture may be, is written
  as it is, any other as JSON; \<open>None\<close> for a text that UTF-8 cannot encode.
\<close>

definition config_bytes :: "config_text \<Rightarrow> bytes option" where
  "config_bytes d =
     utf8_encode (case d of Text t \<Rightarrow> t | Document v \<Rightarrow> (case v of JStr s \<Rightarrow> s | _ \<Rightarrow> dumps v))"

definition config_path :: "sandbox \<Rightarrow> nat \<Rightarrow> pystr" where
  "config_path g n = tmp g n @ str ''/asmflow.json''"

definition daemon_argv :: "repo \<Rightarrow> sandbox \<Rightarrow> nat \<Rightarrow> pystr list" where
  "daemon_argv w g n = [build_path w (str ''debug/asmflowd''), str ''--check-config'', str ''--config'', config_path g n]"

definition run_daemon :: "repo \<Rightarrow> sandbox \<Rightarrow> nat \<Rightarrow> config_text \<Rightarrow> env \<Rightarrow> pyexn + procres \<times> pystr list" where
  "run_daemon w g n d extra =
     (case config_bytes d of
        None \<Rightarrow> Inl (ValueErr ''surrogates not allowed'')
      | Some b \<Rightarrow> Inr (daemon g (daemon_argv w g n) (clean_env g (tmp g n) extra) b))"

text \<open>The exit status and everything printed.\<close>

definition check_config :: "repo \<Rightarrow> sandbox \<Rightarrow> nat \<Rightarrow> config_text \<Rightarrow> env \<Rightarrow> pyexn + int \<times> pystr" where
  "check_config w g n d extra =
     andthen (run_daemon w g n d extra) (\<lambda>(r, names).
       case r of
         Done rc out err \<Rightarrow> Inr (rc, out @ err)
       | TimedOut \<Rightarrow> Inl TimeoutErr
       | NotFound \<Rightarrow> Inl (OsError (build_path w (str ''debug/asmflowd''))))"

text \<open>The two expectations of the checks: the document is accepted, or refused with a message.\<close>

definition accepted_then :: "repo \<Rightarrow> sandbox \<Rightarrow> nat \<Rightarrow> config_text \<Rightarrow> env \<Rightarrow> string \<Rightarrow> outcome \<Rightarrow> outcome" where
  "accepted_then w g n d extra m k =
     attempt (check_config w g n d extra) (\<lambda>(code, output). if code \<noteq> 0 then gate_error m [output] else k)"

definition refused_then :: "repo \<Rightarrow> sandbox \<Rightarrow> nat \<Rightarrow> config_text \<Rightarrow> string \<Rightarrow> string list \<Rightarrow> outcome \<Rightarrow> outcome" where
  "refused_then w g n d m reasons k =
     attempt (check_config w g n d []) (\<lambda>(code, output).
       if code = 0 then gate_error m []
       else case absent reasons output of t # _ \<Rightarrow> gate_error m [t, output] | [] \<Rightarrow> k)"

section \<open>Examples and fixtures\<close>

definition check_examples_load :: "repo \<Rightarrow> sandbox \<Rightarrow> outcome" where
  "check_examples_load w g =
     attempt (base_document w) (\<lambda>base.
       accepted_then w g 0 (Document base) [] ''examples/asmflow.minimal.json was refused''
         (attempt (full_document w) (\<lambda>full.
            accepted_then w g 1 (Document full) FULL_ENV ''examples/asmflow.full.json was refused'' nothing)))"

definition check_fixture :: "repo \<Rightarrow> sandbox \<Rightarrow> nat \<Rightarrow> pystr \<Rightarrow> outcome" where
  "check_fixture w g n fixture =
     attempt (load_json w fixture) (\<lambda>document.
       refused_then w g n (Document document) ''was accepted or refused without a pointer or code''
         [''  at: '', ''  code: ''] nothing)"

definition check_invalid_fixtures :: "repo \<Rightarrow> sandbox \<Rightarrow> outcome" where
  "check_invalid_fixtures w g =
     (let fixtures = sort_paths (glob w (str ''tests/fixtures/config/invalid_*.json'')) in
      if fixtures = [] then gate_error ''no invalid configuration fixtures were found'' []
      else for_each (List.enumerate 0 fixtures) (\<lambda>(n, p). check_fixture w g n p))"

section \<open>Mutations\<close>

datatype place = Key pystr | Index nat

definition field :: "string \<Rightarrow> place" where
  "field k = Key (str k)"

text \<open>\<open>document[p1][p2]...[key] = value\<close>, with the exceptions of the subscripts.\<close>

fun put :: "place list \<Rightarrow> pystr \<Rightarrow> json \<Rightarrow> json \<Rightarrow> pyexn + json" where
  "put [] key v (JObj d) = Inr (JObj (dict_set d key v))"
| "put [] key v _ = Inl TypeErr"
| "put (Key k # ps) key v (JObj d) =
     (case map_of d k of
        None \<Rightarrow> Inl (KeyErr k)
      | Some x \<Rightarrow> map_sum id (\<lambda>y. JObj (dict_set d k y)) (put ps key v x))"
| "put (Index i # ps) key v (JArr xs) =
     (if length xs \<le> i then Inl IndexErr else map_sum id (\<lambda>y. JArr (xs[i := y])) (put ps key v (xs ! i)))"
| "put _ key v _ = Inl TypeErr"

definition placements :: "(string \<times> place list) list" where
  "placements =
     [(''root'', []), (''provider'', [field ''providers'', Index 0]), (''nested'', [field ''listener'', field ''auth'']),
      (''array'', [field ''routes'', Index 0, field ''targets'', Index 0])]"

definition check_plaintext_refused :: "repo \<Rightarrow> sandbox \<Rightarrow> outcome" where
  "check_plaintext_refused w g =
     for_each (List.enumerate 0 (List.product (sorted_set (map str CREDENTIAL_KEYS)) placements)) (\<lambda>(n, key, label, place).
       attempt (andthen (base_document w) (put place key (JStr (str ''value'')))) (\<lambda>document.
         refused_then w g n (Document document) ''a plaintext key was accepted or refused for the wrong reason''
           [''plaintext credentials''] nothing))"

definition check_missing_secret_fails :: "repo \<Rightarrow> sandbox \<Rightarrow> outcome" where
  "check_missing_secret_fails w g =
     attempt (full_document w) (\<lambda>document.
       refused_then w g 0 (Document document) ''a configuration with unset secret references was accepted''
         [''environment variable is not set'']
         (accepted_then w g 1 (Document document) FULL_ENV ''the same configuration failed with its secrets set'' nothing))"

definition closed_objects :: "(string \<times> place list) list" where
  "closed_objects =
     (let provider = [field ''providers'', Index 0]; route = [field ''routes'', Index 0] in
      [('''', []), (''listener'', [field ''listener'']), (''listener/auth'', [field ''listener'', field ''auth'']),
       (''control'', [field ''control'']), (''storage'', [field ''storage'']), (''logging'', [field ''logging'']),
       (''limits'', [field ''limits'']), (''providers/0'', provider), (''providers/0/timeouts'', provider @ [field ''timeouts'']),
       (''providers/0/capabilities'', provider @ [field ''capabilities'']), (''providers/0/health'', provider @ [field ''health'']),
       (''routes/0'', route), (''routes/0/fallback'', route @ [field ''fallback'']),
       (''routes/0/targets/0'', route @ [field ''targets'', Index 0])])"

definition unknown_key :: pystr where "unknown_key = str ''definitely_not_a_real_key''"

definition check_unknown_key_policy :: "repo \<Rightarrow> sandbox \<Rightarrow> outcome" where
  "check_unknown_key_policy w g =
     for_each (List.enumerate 0 closed_objects) (\<lambda>(n, label, place).
       attempt (andthen (base_document w) (put place unknown_key (JInt 1))) (\<lambda>document.
         refused_then w g n (Document document) ''an unknown key was accepted or refused for the wrong reason''
           [''unknown key''] nothing))"

section \<open>Effects and bounds\<close>

definition absent_provider :: "json \<Rightarrow> pyexn + json" where
  "absent_provider d =
     put [field ''routes'', Index 0, field ''targets'', Index 0] (str ''provider_id'') (JStr (str ''absent'')) d"

text \<open>Before the run the directory holds the configuration file alone.\<close>

definition check_rejection_is_side_effect_free :: "repo \<Rightarrow> sandbox \<Rightarrow> outcome" where
  "check_rejection_is_side_effect_free w g =
     attempt (andthen (base_document w) absent_provider) (\<lambda>document.
     attempt (run_daemon w g 0 (Document document) []) (\<lambda>(r, names).
       case r of
         TimedOut \<Rightarrow> raised TimeoutErr
       | NotFound \<Rightarrow> raised (OsError (build_path w (str ''debug/asmflowd'')))
       | Done rc out err \<Rightarrow>
           if rc = 0 then gate_error ''an unresolvable route target was accepted'' []
           else raise_if ([str ''asmflow.json''] \<noteq> sort names)
             ''a rejected configuration changed the filesystem'' names))"

definition check_hash_is_stable :: "repo \<Rightarrow> sandbox \<Rightarrow> outcome" where
  "check_hash_is_stable w g =
     attempt (base_document w) (\<lambda>document.
     attempt (check_config w g 0 (Document document) []) (\<lambda>first.
     attempt (check_config w g 1 (Document document) []) (\<lambda>second.
       raise_if (first \<noteq> second) ''two runs over identical input disagreed'' [snd first, snd second])))"

definition deep_text :: pystr where
  "deep_text = replicate 400 91 @ replicate 400 93"

definition huge_text :: pystr where
  "huge_text = [123] @ [34, 97, 34, 58, 34] @ replicate (5 * 1024 * 1024) 120 @ [34, 125]"

definition check_json_bounds :: "repo \<Rightarrow> sandbox \<Rightarrow> outcome" where
  "check_json_bounds w g =
     refused_then w g 0 (Text deep_text) ''a 400-level nested document was accepted'' [''nesting'']
       (refused_then w g 1 (Text huge_text) ''a document larger than the ceiling was accepted'' []
          (refused_then w g 2 (Text (str ''not json at all'')) ''a non-JSON file was accepted'' [] nothing))"

section \<open>Soak and parity\<close>

definition check_reload_soak :: "repo \<Rightarrow> nat \<Rightarrow> outcome" where
  "check_reload_soak w iterations =
     running w [build_path w (str ''debug/asmflow-tests''), str ''--reload-soak'', dec_text iterations] (\<lambda>rc out err.
       if rc \<noteq> 0 then gate_error ''the reload soak failed'' [out, err]
       else raise_if (\<not> contains out (str ''returned to baseline'')) ''the reload soak did not confirm the baseline'' [out])"

definition check_parity :: "repo \<Rightarrow> outcome" where
  "check_parity w =
     running w (module_argv w (str ''tests.test_config_parity'')) (\<lambda>rc out err.
       raise_if (rc \<noteq> 0) ''schema/assembly parity failed'' [out, err])"

section \<open>The gate\<close>

definition checks_m3 :: "sandbox \<Rightarrow> nat \<Rightarrow> repo \<Rightarrow> (string \<times> outcome) list" where
  "checks_m3 g iterations w =
     [(''examples load'', check_examples_load w g),
      (''invalid fixtures refused with a pointer'', check_invalid_fixtures w g),
      (''unknown-key policy'', check_unknown_key_policy w g),
      (''plaintext credentials refused'', check_plaintext_refused w g),
      (''missing secret fails before readiness'', check_missing_secret_fails w g),
      (''rejection has no side effects'', check_rejection_is_side_effect_free w g),
      (''repeated loads are identical'', check_hash_is_stable w g),
      (''bounded JSON input'', check_json_bounds w g),
      (''reload soak'', check_reload_soak w iterations),
      (''schema/assembly parity'', check_parity w)]"

definition main_m3 :: "sandbox \<Rightarrow> nat \<Rightarrow> repo \<Rightarrow> string list \<times> int" where
  "main_m3 g iterations w =
     (if \<not> build_is_file w (str ''debug/asmflowd'') \<or> \<not> build_is_file w (str ''debug/asmflow-tests'') then ([], 1)
      else run_labelled (checks_m3 g iterations w))"

text \<open>A missing build product ends the gate before its first check, as a failing check would.\<close>

definition guarded_m3 :: "sandbox \<Rightarrow> nat \<Rightarrow> repo \<Rightarrow> (string \<times> outcome) list" where
  "guarded_m3 g iterations w =
     (if \<not> build_is_file w (str ''debug/asmflowd'') \<or> \<not> build_is_file w (str ''debug/asmflow-tests'') then
        [(''build'', gate_error ''missing build artifact'' [])]
      else checks_m3 g iterations w)"

interpretation gate3: fail_fast_gate "guarded_m3 g iterations" "main_m3 g iterations" for g iterations
  by unfold_locales (simp add: main_m3_def guarded_m3_def)

section \<open>What the checks hand to the daemon\<close>

text \<open>The value at a place of a document.\<close>

fun at :: "place list \<Rightarrow> json \<Rightarrow> json option" where
  "at [] v = Some v"
| "at (Key k # ps) (JObj d) = Option.bind (map_of d k) (at ps)"
| "at (Index i # ps) (JArr xs) = (if i < length xs then at ps (xs ! i) else None)"
| "at _ _ = None"

lemma put_Cons:
  assumes "put (p # ps) key v d = Inr d'"
  obtains k m x y where "p = Key k" "d = JObj m" "map_of m k = Some x" "put ps key v x = Inr y" "d' = JObj (dict_set m k y)"
  | i xs y where "p = Index i" "d = JArr xs" "i < length xs" "put ps key v (xs ! i) = Inr y" "d' = JArr (xs[i := y])"
  using assms by (cases p; cases d) (auto split: option.splits if_splits simp: map_sum_def split: sum.splits)

text \<open>
  A mutation of the corpus changes one place: in the document it returns, every path that does
  not lead towards the changed object has the value it had, except those through the new key,
  which lead into the new value.
\<close>

lemma put_changes_one_place:
  assumes "put ps key v d = Inr d'"
  shows "prefix qs ps \<or> at qs d' = (if prefix (ps @ [Key key]) qs then at (drop (Suc (length ps)) qs) v else at qs d)"
  using assms
proof (induction ps arbitrary: d d' qs)
  case Nil
  then obtain m where d: "d = JObj m" "d' = JObj (dict_set m key v)" by (cases d) auto
  show ?case
  proof (cases qs)
    case (Cons q rs)
    then show ?thesis using d by (cases q) (auto simp: dict_set_lookup)
  qed simp
next
  case (Cons p ps)
  show ?case
  proof (cases qs)
    case (Cons q rs)
    note qs = this
    from Cons.prems show ?thesis
    proof (cases rule: put_Cons)
      case (1 k m x y)
      then show ?thesis using Cons.IH [of x y rs] qs by (cases q) (auto simp: dict_set_lookup)
    next
      case (2 i xs y)
      then show ?thesis using Cons.IH [of "xs ! i" y rs] qs by (cases q) (auto simp: nth_list_update)
    qed
  qed simp
qed

definition sample_document :: json where
  "sample_document = JObj [(str ''routes'', JArr [JObj [(str ''id'', JInt 1)], JNull])]"

lemma put_changes_one_place_witness:
  "at [field ''routes'', Index 0, field ''id''] (JObj [(str ''routes'', JArr [JObj [(str ''id'', JInt 1), (str ''x'', JNull)], JNull])]) =
     Some (JInt 1)"
proof -
  let ?d = "JObj [(str ''routes'', JArr [JObj [(str ''id'', JInt 1), (str ''x'', JNull)], JNull])]"
  have "put [field ''routes'', Index 0] (str ''x'') JNull sample_document = Inr ?d" by code_simp
  note put_changes_one_place [OF this, of "[field ''routes'', Index 0, field ''id'']"]
  moreover have "\<not> prefix [field ''routes'', Index 0, field ''id''] [field ''routes'', Index 0]" by simp
  moreover have "\<not> prefix ([field ''routes'', Index 0] @ [Key (str ''x'')]) [field ''routes'', Index 0, field ''id'']"
    by (simp add: field_def str_def)
  moreover have "at [field ''routes'', Index 0, field ''id''] sample_document = Some (JInt 1)" by code_simp
  ultimately show ?thesis by simp
qed

text \<open>Printable ASCII is its own encoding.\<close>

lemma encode_ascii: "ascii s \<Longrightarrow> utf8_encode s = Some s \<and> decode_text s = Some s"
proof -
  assume s: "ascii s"
  have one: "utf8_cp c = [c] \<and> scalar c" if "c \<in> set s" for c
    using s that by (auto simp: ascii_def list_all_iff utf8_cp_def scalar_def)
  then have "concat (map utf8_cp s) = s" by (induction s) auto
  with one have e: "utf8_encode s = Some s" by (simp add: utf8_encode_def list_all_iff)
  then have "utf8_decode s = Some s" by (rule utf8_roundtrip)
  moreover have "13 \<notin> set s" using s by (auto simp: ascii_def list_all_iff)
  ultimately show ?thesis using e by (simp add: decode_text_def universal_newlines_id)
qed

text \<open>
  C34: The file a check hands to the daemon holds its document. For a document that is not a bare
  string, without floats and lone surrogates and with each key once, as a dictionary has it, a run
  gives the daemon bytes that decode as text and parse to that document. A document that is a
  string is written raw, and the daemon is given its characters.
\<close>

theorem config_file_roundtrip:
  assumes "plain v"
  shows "\<exists>b t. run_daemon w g n (Document v) extra = Inr (daemon g (daemon_argv w g n) (clean_env g (tmp g n) extra) b) \<and>
    utf8_decode b = Some t \<and> (case v of JStr s \<Rightarrow> t = s | _ \<Rightarrow> decode_text b = Some t \<and> loads t = Some v)"
proof (cases "\<exists>s. v = JStr s")
  case True
  then obtain s where v: "v = JStr s" by blast
  with assms have b: "utf8_encode s = Some (concat (map utf8_cp s))" by (simp add: utf8_encode_def)
  from b utf8_roundtrip [OF b] v show ?thesis
    by (intro exI [of _ "concat (map utf8_cp s)"] exI [of _ s]) (simp add: run_daemon_def config_bytes_def)
next
  case False
  then have "config_bytes (Document v) = utf8_encode (dumps v)" by (simp add: config_bytes_def split: json.split)
  moreover note e = encode_ascii [OF ascii_dumps [OF assms]]
  ultimately have "run_daemon w g n (Document v) extra = Inr (daemon g (daemon_argv w g n) (clean_env g (tmp g n) extra) (dumps v))"
    by (simp add: run_daemon_def)
  moreover have "utf8_decode (dumps v) = Some (dumps v)" using e by (intro utf8_roundtrip) simp
  moreover have "(case v of JStr s \<Rightarrow> t = s | _ \<Rightarrow> X) = X" for t X using False by (cases v) simp_all
  ultimately show ?thesis using e loads_plain [OF assms] by (intro exI [of _ "dumps v"]) simp
qed

text \<open>A repository with a small example, and a daemon that refuses everything as it should.\<close>

definition demo_repo :: repo where
  "demo_repo = \<lparr>root_parts = [], tree =
       [(str ''examples/asmflow.minimal.json'', File (map int (map of_char
          ''{ \"providers\": [{}], \"listener\": {\"auth\": {}}, \"routes\": [{\"targets\": [{}]}]}'')) 0)],
     build_dir = [], build_tree = [], proc = (\<lambda>_. NotFound)\<rparr>"

definition demo_sandbox :: sandbox where
  "demo_sandbox = \<lparr>tmp = (\<lambda>n. str ''/tmp''), caller_path = str ''/bin'',
     daemon = (\<lambda>argv env b. (Done 1 [] (str ''plaintext credentials''), []))\<rparr>"

theorem config_file_roundtrip_witness:
  "\<exists>b t. run_daemon demo_repo demo_sandbox 0 (Document sample_document) [] =
      Inr (daemon demo_sandbox (daemon_argv demo_repo demo_sandbox 0) (clean_env demo_sandbox (tmp demo_sandbox 0) []) b) \<and>
    utf8_decode b = Some t \<and> decode_text b = Some t \<and> loads t = Some sample_document"
proof -
  have "plain sample_document" by code_simp
  from config_file_roundtrip [OF this, of demo_repo demo_sandbox 0 "[]"] show ?thesis by (simp add: sample_document_def)
qed

text \<open>
  The daemon sees no variable of the caller's environment but \<open>PATH\<close>: the names it gets are
  the five that name its directories and the ones a check adds, so a stray credential cannot turn
  a refusal into an acceptance.
\<close>

lemma clean_env_names:
  "fst ` set (clean_env g work extra) =
     set (map str [''PATH'', ''HOME'', ''XDG_CONFIG_HOME'', ''XDG_STATE_HOME'', ''XDG_RUNTIME_DIR'']) \<union> fst ` set extra"
proof -
  have "fst ` set (foldl (\<lambda>e (k, v). AList.update k v e) e0 xs) = fst ` set e0 \<union> fst ` set xs" for e0 :: env and xs
  proof (induction xs arbitrary: e0)
    case (Cons x xs)
    have "fst ` set (AList.update k v e1) = insert k (fst ` set e1)" for k v and e1 :: env
      using dom_update [of k v e1] by (simp add: dom_map_of_conv_image_fst)
    with Cons show ?case by (cases x) auto
  qed simp
  then show ?thesis by (simp add: clean_env_def)
qed

section \<open>What a check that passes has seen\<close>

text \<open>Two documents that differ in one place alone: the value of a key of the object there.\<close>

definition only_differs :: "place list \<Rightarrow> pystr \<Rightarrow> json \<Rightarrow> json \<Rightarrow> json \<Rightarrow> bool" where
  "only_differs ps key v d d' \<longleftrightarrow>
     (\<exists>m. at ps d = Some (JObj m)) \<and> at (ps @ [Key key]) d' = Some v \<and>
     (\<forall>qs. prefix qs ps \<or> prefix (ps @ [Key key]) qs \<or> at qs d' = at qs d)"

lemma put_into_object: "put ps key v d = Inr d' \<Longrightarrow> \<exists>m. at ps d = Some (JObj m)"
proof (induction ps arbitrary: d d')
  case Nil
  then show ?case by (cases d) auto
next
  case (Cons p ps)
  from Cons.prems show ?case by (cases rule: put_Cons) (auto dest: Cons.IH)
qed

lemma put_only_differs:
  assumes "put ps key v d = Inr d'"
  shows "only_differs ps key v d d'"
proof -
  note one = put_changes_one_place [OF assms]
  have "at (ps @ [Key key]) d' = Some v" using one [of "ps @ [Key key]"] by simp
  moreover have "prefix qs ps \<or> prefix (ps @ [Key key]) qs \<or> at qs d' = at qs d" for qs
    using one [of qs] by (cases "prefix (ps @ [Key key]) qs") simp_all
  ultimately show ?thesis using put_into_object [OF assms] unfolding only_differs_def by blast
qed

lemma passed_refused_then [simp, outcome_simps]:
  "passed (refused_then w g n d m reasons k) \<longleftrightarrow>
     (\<exists>code out. check_config w g n d [] = Inr (code, out) \<and> code \<noteq> 0 \<and> (\<forall>t \<in> set reasons. contains out (str t))) \<and> passed k"
proof -
  have "passed (case xs of t # _ \<Rightarrow> gate_error m [t, out] | [] \<Rightarrow> k) \<longleftrightarrow> xs = [] \<and> passed k" for xs out
    by (cases xs) simp_all
  then show ?thesis unfolding refused_then_def by (auto split: if_splits)
qed

text \<open>
  C40: A plaintext credential is refused wherever it stands, when the check for it passes: for each
  of the credential names, and at the root, in a provider, in the listener's authentication and in
  the target of a route, the daemon was given the shipped example with that name set to a string in
  that object and nothing else changed, ended with an exit status other than 0 and named plaintext
  credentials as the reason.
\<close>

theorem plaintext_refused_everywhere:
  assumes "passed (check_plaintext_refused w g)" "name \<in> set CREDENTIAL_KEYS"
    "place \<in> {[], [field ''providers'', Index 0], [field ''listener'', field ''auth''],
       [field ''routes'', Index 0, field ''targets'', Index 0]}"
  shows "\<exists>d d' n code out. load_json w (str ''examples/asmflow.minimal.json'') = Inr d \<and>
    only_differs place (str name) (JStr (str ''value'')) d d' \<and>
    check_config w g n (Document d') [] = Inr (code, out) \<and> code \<noteq> 0 \<and> contains out (str ''plaintext credentials'')"
proof -
  let ?jobs = "List.product (sorted_set (map str CREDENTIAL_KEYS)) placements"
  let ?check = "\<lambda>(n, key, label, place). attempt (andthen (base_document w) (put place key (JStr (str ''value'')))) (\<lambda>document.
     refused_then w g n (Document document) ''a plaintext key was accepted or refused for the wrong reason''
       [''plaintext credentials''] nothing)"
  have "place \<in> snd ` set placements" using assms(3) by (auto simp: placements_def)
  then obtain label where "(label, place) \<in> set placements" by force
  with assms(2) have "(str name, label, place) \<in> set ?jobs" by simp
  moreover have "set ?jobs = snd ` set (List.enumerate 0 ?jobs)" by (simp only: set_map [symmetric] map_snd_enumerate)
  ultimately have "(str name, label, place) \<in> snd ` set (List.enumerate 0 ?jobs)" by blast
  then obtain n where job: "(n, str name, label, place) \<in> set (List.enumerate 0 ?jobs)" by force
  have "passed (?check (n, str name, label, place))"
    using assms(1) job unfolding check_plaintext_refused_def passed_for_each by (rule bspec)
  then obtain d' where d': "andthen (base_document w) (put place (str name) (JStr (str ''value''))) = Inr d'"
    "passed (refused_then w g n (Document d') ''a plaintext key was accepted or refused for the wrong reason''
       [''plaintext credentials''] nothing)"
    by auto
  from d'(1) obtain d where d: "base_document w = Inr d" "put place (str name) (JStr (str ''value'')) d = Inr d'"
    by (auto simp: andthen_def split: sum.splits)
  from d'(2) obtain code out where "check_config w g n (Document d') [] = Inr (code, out)" "code \<noteq> 0"
    "contains out (str ''plaintext credentials'')" by auto
  with d put_only_differs show ?thesis unfolding base_document_def by blast
qed

lemma demo_base:
  "base_document demo_repo = Inr (JObj [(str ''providers'', JArr [JObj []]), (str ''listener'', JObj [(str ''auth'', JObj [])]),
     (str ''routes'', JArr [JObj [(str ''targets'', JArr [JObj []])]])])"
  by code_simp

theorem plaintext_refused_everywhere_witness:
  "\<exists>d d' n code out. load_json demo_repo (str ''examples/asmflow.minimal.json'') = Inr d \<and>
    only_differs [field ''providers'', Index 0] (str ''token'') (JStr (str ''value'')) d d' \<and>
    check_config demo_repo demo_sandbox n (Document d') [] = Inr (code, out) \<and> code \<noteq> 0 \<and>
    contains out (str ''plaintext credentials'')"
proof (rule plaintext_refused_everywhere)
  show "passed (check_plaintext_refused demo_repo demo_sandbox)"
    unfolding check_plaintext_refused_def demo_base by code_simp
  show "''token'' \<in> set CREDENTIAL_KEYS" by (simp add: CREDENTIAL_KEYS_def)
qed simp

end
