(* ===== verification/Gate_M4.thy ===== *)
theory Gate_M4
  imports Gate_Core Py_Value
begin

text \<open>
  \<open>scripts/gate_m4.py\<close>, the gate of storage and the control plane: the native and unit tests, the
  rule of the single database writer, the libraries of the console, the SQL statements and the
  migrations. Each check raises at its first violation and the gate stops there.

  Parameter of the checks: \<open>ast\<close> as \<open>nodes\<close>, the nodes of a source that the rule looks at, in
  the order of \<open>ast.walk\<close>, or \<open>None\<close> for a syntax error.
\<close>

section \<open>Suites\<close>

definition run_assembly :: "repo \<Rightarrow> string \<Rightarrow> outcome" where
  "run_assembly w p =
     running w [build_path w (str ''debug/asmflow-tests''), str ''--filter'', str p] (\<lambda>rc out err.
       raise_if (rc \<noteq> 0) ''assembly tests failed'' [str p, out, err])"

definition run_python :: "repo \<Rightarrow> string \<Rightarrow> outcome" where
  "run_python w m =
     running w (module_argv w (str m)) (\<lambda>rc out err.
       if rc \<noteq> 0 then gate_error ''failed'' [str m, out, err]
       else raise_if (contains err (str ''skipped='') \<or> rx_found (rx_lit ''Ran 0 tests'') err)
         ''skipped tests under the gate'' [str m, err])"

section \<open>The single writer\<close>

definition ALLOWED_SQLITE_USERS :: "string list" where
  "ALLOWED_SQLITE_USERS = [''src/storage/db.asm'', ''src/storage/migrations.asm'', ''src/storage/repo.asm'',
     ''src/ffi/sqlite_shim.c'', ''include/db.inc'', ''scripts/gate_m4.py'', ''Makefile'']"

definition READONLY_SQLITE_TESTS :: "string list" where
  "READONLY_SQLITE_TESTS = [''tests/test_crash_recovery.py'', ''tests/test_security.py'']"

definition rx_under :: rx where
  "rx_under = Cls False [(65, 90), (97, 122), (48, 57), (95, 95)]"

text \<open>\<open>\bsqlite3(?:_[A-Za-z0-9_]+)?\b|import\s+sqlite3\<close>, in any case.\<close>

definition SQLITE_PATTERN :: rx where
  "SQLITE_PATTERN = Alt (rx_seq [WordB, rx_ilit ''sqlite3'', rx_opt (Cat (rx_lit ''_'') (rx_plus rx_under)), WordB])
     (rx_seq [rx_ilit ''import'', rx_plus rx_space, rx_ilit ''sqlite3''])"

definition sql_words :: "string list \<Rightarrow> rx list \<Rightarrow> rx" where
  "sql_words ws tail = rx_seq (concat (map (\<lambda>v. [rx_ilit v, rx_plus rx_space]) ws) @ tail)"

definition sql_alone :: "string \<Rightarrow> rx" where
  "sql_alone v = rx_seq [rx_ilit v, Alt rx_space Eot]"

definition SQL_WRITE_PATTERN :: rx where
  "SQL_WRITE_PATTERN = rx_seq [Bot, Star rx_space, rx_alts
     [sql_words [''INSERT''] [rx_alts (map rx_ilit [''INTO'', ''OR''])],
      sql_words [''UPDATE''] [rx_plus rx_nonspace, rx_plus rx_space, rx_ilit ''SET''],
      sql_words [''DELETE''] [rx_ilit ''FROM''], sql_words [''REPLACE''] [rx_ilit ''INTO''],
      sql_words [''CREATE''] [rx_alts (map rx_ilit [''TABLE'', ''INDEX'', ''TRIGGER'', ''VIEW''])],
      sql_words [''ALTER''] [rx_ilit ''TABLE''],
      sql_words [''DROP''] [rx_alts (map rx_ilit [''TABLE'', ''INDEX'', ''TRIGGER'', ''VIEW''])],
      sql_alone ''VACUUM'', sql_words [''ATTACH''] [Alt (rx_ilit ''DATABASE'') (Cls False [(39, 39), (34, 34)])],
      sql_words [''DETACH''] [rx_ilit ''DATABASE''], sql_alone ''REINDEX'', sql_alone ''ANALYZE'',
      sql_alone ''BEGIN'', sql_alone ''COMMIT'', sql_alone ''ROLLBACK'']]"

text \<open>A call of \<open>sqlite3.connect\<close> with its source and whether it says \<open>uri=True\<close>; a string constant.\<close>

datatype ast_node = Connect pystr bool | StrConst pystr

fun check_nodes :: "pystr \<Rightarrow> nat \<Rightarrow> ast_node list \<Rightarrow> outcome" where
  "check_nodes path connections [] =
     raise_if (connections = 0) ''is allowlisted for read-only SQLite but opens none'' [path]"
| "check_nodes path connections (Connect segment uri_true # rest) =
     (if \<not> contains segment (str ''mode=ro'') \<or> \<not> uri_true then
        gate_error ''opens SQLite without an inline mode=ro URI and uri=True'' [path]
      else check_nodes path (connections + 1) rest)"
| "check_nodes path connections (StrConst s # rest) =
     (if rx_found SQL_WRITE_PATTERN s then gate_error ''contains write SQL in a read-only oracle'' [path]
      else check_nodes path connections rest)"

definition check_readonly_sqlite_test :: "(pystr \<Rightarrow> ast_node list option) \<Rightarrow> repo \<Rightarrow> pystr \<Rightarrow> outcome" where
  "check_readonly_sqlite_test nodes w path =
     reading_path w path (\<lambda>text.
       case nodes text of None \<Rightarrow> raised (SyntaxErr path) | Some ns \<Rightarrow> check_nodes path 0 ns)"

definition SCANNED :: "string list" where
  "SCANNED = [''tests/**/*.py'', ''tests/**/*.asm'', ''src/tui/*.asm'', ''src/control/*.asm'', ''src/http/*.asm'', ''src/mcp/*.asm'']"

definition is_comment :: "pystr \<Rightarrow> bool" where
  "is_comment line \<longleftrightarrow> startswith (lstrip line) (str '';'') \<or> startswith (lstrip line) (str ''#'')"

definition uses_sqlite :: "pystr \<Rightarrow> bool" where
  "uses_sqlite line \<longleftrightarrow> \<not> is_comment line \<and> rx_found SQLITE_PATTERN line"

text \<open>\<open>f"{relative}:{number}: {line.strip()}"\<close>.\<close>

definition offence :: "pystr \<Rightarrow> nat \<Rightarrow> pystr \<Rightarrow> pystr" where
  "offence path n line = path @ str '':'' @ dec_text n @ str '': '' @ strip line"

definition offences_in :: "pystr \<Rightarrow> pystr \<Rightarrow> pystr list" where
  "offences_in path text =
     map (\<lambda>(n, l). offence path n l) (filter (\<lambda>(n, l). uses_sqlite l) (List.enumerate 1 (splitlines text)))"

text \<open>\<open>read_text(errors="ignore")\<close>.\<close>

definition read_lenient :: "repo \<Rightarrow> pystr \<Rightarrow> pyexn + pystr" where
  "read_lenient w path = map_sum id (\<lambda>b. universal_newlines (utf8_decode_ignore b)) (read_bytes w path)"

definition scan_file :: "(pystr \<Rightarrow> ast_node list option) \<Rightarrow> repo \<Rightarrow> pystr \<Rightarrow> pyexn + pystr list" where
  "scan_file nodes w path =
     (if path \<in> set (map str ALLOWED_SQLITE_USERS) then Inr []
      else if path \<in> set (map str READONLY_SQLITE_TESTS) then
        (case snd (check_readonly_sqlite_test nodes w path) of Some e \<Rightarrow> Inl e | None \<Rightarrow> Inr [])
      else map_sum id (offences_in path) (read_lenient w path))"

definition check_single_writer :: "(pystr \<Rightarrow> ast_node list option) \<Rightarrow> repo \<Rightarrow> outcome" where
  "check_single_writer nodes w =
     attempt (collect_all (scan_file nodes w) (concat (map (\<lambda>p. glob w (str p)) SCANNED))) (\<lambda>found.
       raise_if (concat found \<noteq> []) ''these files call SQLite directly'' (concat found))"

section \<open>Console, statements and migrations\<close>

definition check_tui_does_not_link_sqlite :: "repo \<Rightarrow> outcome" where
  "check_tui_does_not_link_sqlite w =
     (let tui = str ''debug/asmflow-tui'' in
      if \<not> build_is_file w tui then gate_error ''missing build artifact'' [build_path w tui]
      else
        running w [str ''readelf'', str ''-Wd'', build_path w tui] (\<lambda>rc out err.
          if contains (lower out) (str ''sqlite'') then gate_error ''asmflow-tui links libsqlite3'' []
          else raise_if (contains (lower out) (str ''libcurl'')) ''asmflow-tui links libcurl'' []))"

text \<open>\<open>^\s*db\s+"(.*?)"\<close> under MULTILINE.\<close>

definition DB_STRING_RE :: rx where
  "DB_STRING_RE = rx_seq [Bol, Star rx_space, rx_lit ''db'', rx_plus rx_space, rx_chr 34, Grp 1 (LStar rx_dot), rx_chr 34]"

definition suspicious_marks :: "pystr list" where
  "suspicious_marks = [[39] @ str '' ||'', str ''||'' @ [39], str ''%s'', str ''{}'']"

definition check_no_sql_string_building :: "repo \<Rightarrow> outcome" where
  "check_no_sql_string_building w =
     reading w ''src/storage/repo.asm'' (\<lambda>repo.
       let joined = join (str '' '') (rx_findall 1 DB_STRING_RE repo) in
       and_then
         (for_each suspicious_marks (\<lambda>m. raise_if (contains joined m) ''looks like SQL assembled from a value'' [m]))
         (raise_if (\<not> contains joined (str ''?1'')) ''no bound parameters found'' []))"

definition check_migration_statement_coverage :: "repo \<Rightarrow> outcome" where
  "check_migration_statement_coverage w =
     reading w ''src/storage/migrations.asm'' (\<lambda>migrations.
       case split_str (str ''migration_1_statements:'') migrations of
         _ # block # _ \<Rightarrow>
           (let entries = filter (\<lambda>l. startswith (strip l) (str ''dq '')) (splitlines (hd (split_str (str ''dq 0'') block)))
            in raise_if (length entries < 10) ''migration 1 declares too few statements'' [])
       | _ \<Rightarrow> raised IndexErr)"

section \<open>The gate\<close>

definition checks_m4 :: "(pystr \<Rightarrow> ast_node list option) \<Rightarrow> repo \<Rightarrow> (string \<times> outcome) list" where
  "checks_m4 nodes w =
     [(''migrations and rollback'', run_assembly w ''db/''),
      (''migration covers every table'', check_migration_statement_coverage w),
      (''JSON serialisation'', run_assembly w ''jsonw/''),
      (''event loop'', run_assembly w ''loop/''),
      (''control framing'', run_assembly w ''ctlframe/''),
      (''single database writer'', check_single_writer nodes w),
      (''console links no storage'', check_tui_does_not_link_sqlite w),
      (''no SQL built from values'', check_no_sql_string_building w),
      (''control protocol'', run_python w ''tests.test_control_protocol'')]"

definition main_m4 :: "(pystr \<Rightarrow> ast_node list option) \<Rightarrow> repo \<Rightarrow> string list \<times> int" where
  "main_m4 nodes w =
     (if \<not> build_is_file w (str ''debug/asmflow-tests'') then ([], 1) else run_labelled (checks_m4 nodes w))"

text \<open>A missing test binary ends the gate before its first check, as a failing check would.\<close>

definition guarded_m4 :: "(pystr \<Rightarrow> ast_node list option) \<Rightarrow> repo \<Rightarrow> (string \<times> outcome) list" where
  "guarded_m4 nodes w =
     (if \<not> build_is_file w (str ''debug/asmflow-tests'') then [(''build'', gate_error ''missing build artifact'' [])]
      else checks_m4 nodes w)"

interpretation gate4: fail_fast_gate "guarded_m4 nodes" "main_m4 nodes" for nodes
  by unfold_locales (simp add: main_m4_def guarded_m4_def)

section \<open>What the single-writer check shows\<close>

text \<open>A verification oracle: every open is read-only by URI, there is one, and no constant writes.\<close>

definition reads_only :: "ast_node list \<Rightarrow> bool" where
  "reads_only ns \<longleftrightarrow> (\<exists>segment uri. Connect segment uri \<in> set ns) \<and>
     list_all (\<lambda>n. case n of Connect segment uri \<Rightarrow> contains segment (str ''mode=ro'') \<and> uri
       | StrConst s \<Rightarrow> \<not> rx_found SQL_WRITE_PATTERN s) ns"

definition keeps_off :: "(pystr \<Rightarrow> ast_node list option) \<Rightarrow> repo \<Rightarrow> pystr \<Rightarrow> bool" where
  "keeps_off nodes w path \<longleftrightarrow>
     (if path \<in> set (map str ALLOWED_SQLITE_USERS) then True
      else if path \<in> set (map str READONLY_SQLITE_TESTS) then
        (\<exists>text ns. read_text w path = Inr text \<and> nodes text = Some ns \<and> reads_only ns)
      else \<exists>b. read_bytes w path = Inr b \<and>
        list_all (\<lambda>l. \<not> uses_sqlite l) (splitlines (universal_newlines (utf8_decode_ignore b))))"

lemma passed_check_nodes:
  "passed (check_nodes path n ns) \<longleftrightarrow>
     (n \<noteq> 0 \<or> (\<exists>segment uri. Connect segment uri \<in> set ns)) \<and>
     list_all (\<lambda>x. case x of Connect segment uri \<Rightarrow> contains segment (str ''mode=ro'') \<and> uri
       | StrConst s \<Rightarrow> \<not> rx_found SQL_WRITE_PATTERN s) ns"
  by (induction path n ns rule: check_nodes.induct) auto

lemma no_event_check_nodes: "fst (check_nodes path n ns) = []"
  by (induction path n ns rule: check_nodes.induct) (auto simp: raise_if_def gate_error_def raised_def nothing_def)

lemma readonly_verdict:
  "snd (check_readonly_sqlite_test nodes w path) = None \<longleftrightarrow>
     (\<exists>text ns. read_text w path = Inr text \<and> nodes text = Some ns \<and> reads_only ns)"
proof -
  have "fst (check_readonly_sqlite_test nodes w path) = []"
    by (auto simp: check_readonly_sqlite_test_def reading_path_def raised_def no_event_check_nodes
        split: sum.splits option.splits)
  then have "snd (check_readonly_sqlite_test nodes w path) = None \<longleftrightarrow> passed (check_readonly_sqlite_test nodes w path)"
    by (simp add: passed_def)
  also have "\<dots> \<longleftrightarrow> (\<exists>text. read_text w path = Inr text \<and> (\<exists>ns. nodes text = Some ns \<and> passed (check_nodes path 0 ns)))"
    unfolding check_readonly_sqlite_test_def passed_reading_path by (auto split: option.splits)
  finally show ?thesis by (simp add: reads_only_def passed_check_nodes)
qed

lemma offences_Nil: "offences_in path text = [] \<longleftrightarrow> list_all (\<lambda>l. \<not> uses_sqlite l) (splitlines text)"
proof -
  have "offences_in path text = [] \<longleftrightarrow> filter uses_sqlite (map snd (List.enumerate 1 (splitlines text))) = []"
    unfolding offences_in_def filter_map by (simp add: comp_def case_prod_unfold)
  then show ?thesis by (simp add: filter_empty_conv list_all_iff)
qed

lemma scan_file_Nil: "scan_file nodes w path = Inr [] \<longleftrightarrow> keeps_off nodes w path"
  using readonly_verdict [of nodes w path]
  by (cases "read_bytes w path")
    (auto simp: scan_file_def keeps_off_def read_lenient_def offences_Nil split: option.splits)

lemma collect_all_Nil: "(\<exists>ys. collect_all f xs = Inr ys \<and> concat ys = []) \<longleftrightarrow> list_all (\<lambda>x. f x = Inr []) xs"
  by (induction xs) (auto split: sum.splits)

text \<open>
  C37: The single-writer check passes exactly when each scanned test and each console, control, HTTP
  and MCP source keeps off the database: it is an allowed user; or one of the two oracles, which
  parses, opens SQLite at least once, each time through a read-only URI, and has no string
  constant that the write pattern matches; or a readable file without a line that names SQLite
  outside a comment.
\<close>

theorem single_writer_iff:
  "passed (check_single_writer nodes w) \<longleftrightarrow>
     list_all (keeps_off nodes w) (concat (map (\<lambda>p. glob w (str p)) SCANNED))"
  using collect_all_Nil [of "scan_file nodes w" "concat (map (\<lambda>p. glob w (str p)) SCANNED)"]
  unfolding scan_file_Nil by (auto simp: check_single_writer_def)

text \<open>The write pattern looks at the start of a constant only: a second statement is not seen.\<close>

lemma second_statement_unseen: "\<not> rx_found SQL_WRITE_PATTERN (str ''SELECT 1; DELETE FROM providers'')"
  by code_simp

end
