(* ===== verification/Gate_M5.thy ===== *)
theory Gate_M5
  imports Gate_Core
begin

text \<open>
  \<open>scripts/gate_m5.py\<close>, the gate of the HTTP data plane: library and symbol boundaries of the
  console, the leniency switches of the parser, the shim, the error catalogue and the suites.
  A check of this gate goes on after it has called \<open>fail\<close>, so its failures are sequenced with
  \<open>and_then\<close>.
\<close>

section \<open>Linkage\<close>

definition SHARED_RE :: rx where
  "SHARED_RE = rx_seq [rx_lit ''Shared library: ['', Grp 1 (rx_plus (Cls True [(93, 93)])), rx_lit '']'']"

definition dynamic_libraries :: "repo \<Rightarrow> pystr \<Rightarrow> (pystr list \<Rightarrow> outcome) \<Rightarrow> outcome" where
  "dynamic_libraries w binary k =
     running w [str ''readelf'', str ''-W'', str ''-d'', binary] (\<lambda>rc out err.
       if rc \<noteq> 0 then and_then (failed ''readelf failed on'' [binary, strip err]) (k [])
       else k (rx_findall 1 SHARED_RE out))"

definition links :: "pystr list \<Rightarrow> string \<Rightarrow> bool" where
  "links libs name \<longleftrightarrow> list_ex (\<lambda>l. startswith l (str name)) libs"

definition check_linkage_m5 :: "repo \<Rightarrow> outcome" where
  "check_linkage_m5 w =
     (case filter (\<lambda>b. \<not> build_exists w b) [str ''debug/asmflowd'', str ''debug/asmflow-tui''] of
        b # _ \<Rightarrow> failed ''is missing; run make build-debug first'' [build_path w b]
      | [] \<Rightarrow>
          dynamic_libraries w (build_path w (str ''debug/asmflowd'')) (\<lambda>daemon_libs.
          and_then (fail_if (\<not> links daemon_libs ''libllhttp'') ''asmflowd does not link llhttp'' (sorted_set daemon_libs))
            (dynamic_libraries w (build_path w (str ''debug/asmflow-tui'')) (\<lambda>console_libs.
             and_then
               (for_each [''libllhttp'', ''libsqlite3'', ''libcurl''] (\<lambda>forbidden.
                  fail_if (links console_libs forbidden) ''asmflow-tui links'' [str forbidden]))
               (okay ''library boundaries'' [])))))"

definition defined_symbols :: "repo \<Rightarrow> pystr \<Rightarrow> (pystr list \<Rightarrow> outcome) \<Rightarrow> outcome" where
  "defined_symbols w binary k =
     running w [str ''nm'', str ''--defined-only'', binary] (\<lambda>rc out err.
       if rc \<noteq> 0 then k [] else k (last_columns out))"

definition check_symbol_boundary :: "repo \<Rightarrow> outcome" where
  "check_symbol_boundary w =
     (if \<not> build_exists w (str ''debug/asmflow-tui'') then failed ''asmflow-tui is missing'' []
      else defined_symbols w (build_path w (str ''debug/asmflow-tui'')) (\<lambda>symbols.
        let leaked = sorted_set (filter (\<lambda>n. startswith n (str ''af_http_'') \<or> startswith n (str ''af_llhttp_'')) symbols) in
        and_then (fail_if (leaked \<noteq> []) ''asmflow-tui contains data-plane code'' (take 6 leaked))
          (okay ''the console carries no data-plane code'' [])))"

section \<open>Leniency\<close>

text \<open>\<open>Path(token[2:]) / "llhttp.h"\<close>.\<close>

definition include_candidate :: "pystr \<Rightarrow> pystr" where
  "include_candidate token =
     (let d = rstrip_of (\<lambda>c. c = 47) (drop 2 token)
      in if drop 2 token = [] then str ''llhttp.h'' else d @ str ''/llhttp.h'')"

definition llhttp_header :: "repo \<Rightarrow> (pystr option \<Rightarrow> outcome) \<Rightarrow> outcome" where
  "llhttp_header w k =
     (case List.find (path_exists w) [str ''/usr/include/llhttp.h'', str ''/usr/local/include/llhttp.h''] of
        Some p \<Rightarrow> k (Some p)
      | None \<Rightarrow>
          running w [str ''pkg-config'', str ''--cflags-only-I'', str ''libllhttp''] (\<lambda>rc out err.
            if rc = 0 then k (List.find (path_exists w) (map include_candidate (words out))) else k None))"

definition rx_setter_name :: rx where
  "rx_setter_name = Cat (rx_lit ''llhttp_set_lenient_'') (rx_plus (Cls False [(97, 122), (48, 57), (95, 95)]))"

definition DECLARED_RE :: rx where
  "DECLARED_RE = rx_seq [WordB, rx_lit ''void '', Grp 1 rx_setter_name, rx_lit ''('']"

definition SETTER_RE :: rx where
  "SETTER_RE = rx_seq [rx_setter_name, rx_lit ''(parser, '', Grp 1 (rx_plus (Cls True [(41, 41)])), rx_lit '')'']"

definition check_leniency_coverage :: "repo \<Rightarrow> outcome" where
  "check_leniency_coverage w =
     llhttp_header w (\<lambda>header.
       case header of
         None \<Rightarrow> failed ''llhttp.h was not found; the leniency surface cannot be checked'' []
       | Some h \<Rightarrow>
           reading_path w h (\<lambda>text_h.
             let declared = rx_findall 1 DECLARED_RE text_h in
             if declared = [] then failed ''no leniency setters were found in'' [h]
             else
               reading w ''src/ffi/llhttp_shim.c'' (\<lambda>shim.
                 let missing = sorted_set (filter (\<lambda>n. \<not> contains shim (n @ str ''(parser, 0)'')) declared) in
                 and_then (fail_if (missing \<noteq> []) ''leniency switch(es) are not explicitly disabled'' missing)
                   (and_then
                     (for_each (rx_findall 1 SETTER_RE shim) (\<lambda>v.
                        fail_if (strip v \<noteq> str ''0'') ''a leniency switch is set to'' [strip v]))
                     (okay ''every leniency switch is explicitly off'' [int (length (remdups declared))])))))"

section \<open>The shim\<close>

text \<open>Block comments up to the nearest end, then line comments, removed by substitution.\<close>

definition BLOCK_COMMENT_RE :: rx where
  "BLOCK_COMMENT_RE = rx_seq [rx_lit ''/*'', LStar rx_any, rx_lit ''*/'']"

definition LINE_COMMENT_RE :: rx where
  "LINE_COMMENT_RE = rx_seq [rx_lit ''//'', Star (Cls True [(10, 10)])]"

definition uncommented_c :: "pystr \<Rightarrow> pystr" where
  "uncommented_c t = rx_sub LINE_COMMENT_RE [] (rx_sub BLOCK_COMMENT_RE [] t)"

definition IF_RE :: rx where
  "IF_RE = rx_seq [WordB, rx_lit ''if'', Star rx_space, rx_lit ''('']"

definition BANNED_M5 :: "string list" where
  "BANNED_M5 = [''malloc'', ''calloc'', ''realloc'', ''free('', ''strcmp'', ''strncmp'', ''memcmp'', ''strstr'',
     ''sprintf'', ''strcpy'']"

definition check_shim_is_an_adapter_m5 :: "repo \<Rightarrow> outcome" where
  "check_shim_is_an_adapter_m5 w =
     reading w ''src/ffi/llhttp_shim.c'' (\<lambda>shim.
       let code = uncommented_c shim; conditionals = length (rx_findall0 IF_RE code) in
       and_then
         (for_each BANNED_M5 (\<lambda>banned. fail_if (contains code (str banned)) ''src/ffi/llhttp_shim.c uses'' [str banned]))
         (and_then
           (fail_if (3 < conditionals) ''src/ffi/llhttp_shim.c has conditionals'' [])
           (okay ''the llhttp shim is still an adapter'' [])))"

section \<open>The catalogue\<close>

definition CODE_RE :: rx where
  "CODE_RE = rx_seq [Bol, rx_lit ''e_'', rx_plus rx_word, rx_lit '':'', rx_plus rx_space, rx_lit ''db '',
     rx_chr 34, Grp 1 (rx_plus (Cls False [(97, 122), (48, 57), (95, 95)])), rx_chr 34]"

definition check_contract_documents_every_code_m5 :: "repo \<Rightarrow> outcome" where
  "check_contract_documents_every_code_m5 w =
     reading w ''src/http/http_response.asm'' (\<lambda>source.
     reading w ''docs/API_CONTRACT.md'' (\<lambda>contract.
       let codes = remdups (rx_findall 1 CODE_RE source);
           missing = sorted_set (filter (\<lambda>c. \<not> contains contract ([96] @ c @ [96])) codes)
       in if length codes < 10 then failed ''error codes were found; the parse is wrong'' []
          else and_then (fail_if (missing \<noteq> []) ''emitted but undocumented error codes'' missing)
            (okay ''the contract documents all error codes'' [int (length codes)])))"

definition MESSAGE_RE :: rx where
  "MESSAGE_RE = rx_seq [Bol, rx_lit ''m_'', rx_plus rx_word, rx_lit '':'', rx_plus rx_space, rx_lit ''db '',
     rx_chr 34, Grp 1 (Star (Cls True [(34, 34)])), rx_chr 34]"

definition check_no_request_data_in_messages :: "repo \<Rightarrow> outcome" where
  "check_no_request_data_in_messages w =
     reading w ''src/http/http_response.asm'' (\<lambda>source.
       let messages = rx_findall 1 MESSAGE_RE source in
       if length messages < 10 then failed ''messages were found; the parse is wrong'' []
       else and_then
         (for_each messages (\<lambda>m. fail_if (contains m (str ''%'')) ''a catalogue message interpolates'' [m]))
         (okay ''all refusal messages are fixed text'' [int (length messages)]))"

section \<open>Suites and the gate\<close>

definition run_suite_m5 :: "repo \<Rightarrow> pystr \<Rightarrow> pystr \<Rightarrow> outcome" where
  "run_suite_m5 w name module = module_suite w name module"

definition SUITES_M5 :: "(string \<times> string) list" where
  "SUITES_M5 = [(''HTTP contract'', ''tests.test_http_contract''), (''HTTP limits'', ''tests.test_http_limits''),
     (''smuggling corpus'', ''tests.test_http_smuggling''), (''fragmentation corpus'', ''tests.test_http_fragments''),
     (''fault suite'', ''tests.test_http_faults''), (''request soak'', ''tests.test_http_soak'')]"

definition checks_m5 :: "bool \<Rightarrow> repo \<Rightarrow> outcome list" where
  "checks_m5 skip_suites w =
     [check_linkage_m5 w, check_symbol_boundary w, check_leniency_coverage w, check_shim_is_an_adapter_m5 w,
      check_contract_documents_every_code_m5 w, check_no_request_data_in_messages w]
     @ (if skip_suites then [] else map (\<lambda>(name, m). run_suite_m5 w (str name) (str m)) SUITES_M5)"

definition main_m5 :: "bool \<Rightarrow> repo \<Rightarrow> int" where
  "main_m5 skip_suites w = gate_exit (run_all (checks_m5 skip_suites w))"

interpretation gate5: accumulating_gate "checks_m5 skip" "main_m5 skip" for skip
  by unfold_locales (rule main_m5_def)

end
