(* ===== verification/Gate_M6.thy ===== *)
theory Gate_M6
  imports Gate_Core
begin

text \<open>
  \<open>scripts/gate_m6.py\<close>, the gate of the provider engine: libcurl is driven and does not drive,
  its shim holds no policy, every transfer option is stated, no client header travels, the
  commit point is recorded, the catalogue is documented.
\<close>

definition BLOCKING_CURL_CALLS :: "string list" where
  "BLOCKING_CURL_CALLS = [''curl_multi_perform'', ''curl_multi_wait'', ''curl_multi_poll'', ''curl_multi_fdset'',
     ''curl_easy_perform'']"

definition check_no_second_event_loop :: "repo \<Rightarrow> outcome" where
  "check_no_second_event_loop w =
     reading w ''src/ffi/curl_shim.c'' (\<lambda>shim.
       case filter (\<lambda>n. contains shim (str n)) BLOCKING_CURL_CALLS of
         n # _ \<Rightarrow> failed ''src/ffi/curl_shim.c calls'' [str n]
       | [] \<Rightarrow>
           if \<not> contains shim (str ''curl_multi_socket_action'') then
             failed ''the shim does not use curl_multi_socket_action'' []
           else okay ''libcurl is driven by the loop of AsmFlow'' [])"

definition BLOCK_COMMENT_M6_RE :: rx where
  "BLOCK_COMMENT_M6_RE = rx_seq [rx_lit ''/*'', LStar rx_any, rx_lit ''*/'']"

definition LITERAL_RE :: rx where
  "LITERAL_RE = rx_seq [rx_chr 34,
     Grp 1 (Star (Alt (Cls True [(34, 34), (92, 92)]) (Cat (rx_chr 92) rx_dot))), rx_chr 34]"

definition EXPORT_RE :: rx where
  "EXPORT_RE = rx_seq [Bol,
     rx_alts (map rx_lit [''const char *'', ''void *'', ''void'', ''int64_t'', ''int'', ''size_t'']),
     rx_opt (rx_lit '' ''), Grp 1 (Cat (rx_lit ''af_curl_'') (rx_plus rx_word)), rx_lit ''('']"

definition BANNED_M6 :: "string list" where
  "BANNED_M6 = [''strcmp'', ''strncmp'', ''strstr'', ''malloc('', ''getenv'', ''fopen'']"

definition check_shim_is_an_adapter_m6 :: "repo \<Rightarrow> outcome" where
  "check_shim_is_an_adapter_m6 w =
     reading w ''src/ffi/curl_shim.c'' (\<lambda>source.
       let body = rx_sub BLOCK_COMMENT_M6_RE [] source;
           literals = filter (\<lambda>t. t \<noteq> [] \<and> \<not> startswith t (str ''curl/'')) (rx_findall 1 LITERAL_RE body);
           exported = rx_findall 1 EXPORT_RE body
       in and_then
            (for_each BANNED_M6 (\<lambda>b. fail_if (contains body (str b)) ''src/ffi/curl_shim.c uses'' [str b]))
            (and_then (fail_if (literals \<noteq> []) ''src/ffi/curl_shim.c contains string literals'' (take 5 literals))
              (if length exported < 20 then failed ''shim exports were parsed; the check is wrong'' []
               else okay ''the libcurl shim is still an adapter'' [int (length exported)])))"

definition REQUIRED_SETTERS :: "(string \<times> string) list" where
  "REQUIRED_SETTERS =
     [(''af_curl_set_tls_verify'', ''certificate verification''),
      (''af_curl_set_follow_location'', ''redirect following''),
      (''af_curl_set_protocols'', ''the permitted scheme list''),
      (''af_curl_set_nosignal'', ''signal handling''),
      (''af_curl_set_accept_encoding'', ''content coding''),
      (''af_curl_set_connect_timeout_ms'', ''the connect timeout''),
      (''af_curl_set_timeout_ms'', ''the request timeout''),
      (''af_curl_set_low_speed'', ''the stall detector'')]"

definition check_every_transfer_option_is_stated :: "repo \<Rightarrow> outcome" where
  "check_every_transfer_option_is_stated w =
     reading w ''src/providers/provider_exchange.asm'' (\<lambda>source.
       let missing = filter (\<lambda>(n, what). \<not> contains source (str ''call    '' @ str n)) REQUIRED_SETTERS in
       if missing \<noteq> [] then
         failed ''these transfer options are left to a libcurl default''
           (map (\<lambda>(n, what). str n @ str '' ('' @ str what @ str '')'') missing)
       else okay ''all transfer options are set explicitly'' [int (length REQUIRED_SETTERS)])"

definition TLS_RE :: rx where
  "TLS_RE = rx_seq [rx_lit ''call'', rx_plus rx_space, rx_lit ''af_curl_set_tls_verify'']"

text \<open>The text in front of the first match: \<open>source[max(0, start - 400):start]\<close>.\<close>

definition tls_window :: "pystr \<Rightarrow> pos \<times> mst \<Rightarrow> pystr" where
  "tls_window source m =
     py_slice source (max 0 (match_start source m - 400)) (match_start source m)"

definition check_tls_verification_is_not_configurable_off :: "repo \<Rightarrow> outcome" where
  "check_tls_verification_is_not_configurable_off w =
     reading w ''src/providers/provider_exchange.asm'' (\<lambda>source.
       case rx_search TLS_RE source of
         None \<Rightarrow> failed ''TLS verification is never set'' []
       | Some m \<Rightarrow>
           if contains (tls_window source m) (str ''PRV_ALLOW_INSECURE'') then
             failed ''TLS verification depends on allow_insecure_private_http'' []
           else okay ''TLS verification is unconditional'' [])"

definition CLIENT_ONLY_FIELDS :: "string list" where
  "CLIENT_ONLY_FIELDS = [''HC_AUTH'', ''HC_NAME'', ''HC_VALUE'']"

text \<open>Two files in order; the first field found in one ends the check.\<close>

fun no_client_header :: "repo \<Rightarrow> string list \<Rightarrow> outcome" where
  "no_client_header w [] = okay ''no client-supplied header reaches a provider'' []"
| "no_client_header w (name # names) =
     reading w name (\<lambda>source.
       case filter (\<lambda>f. contains source (str f)) CLIENT_ONLY_FIELDS of
         f # _ \<Rightarrow> failed ''a client header must not reach a provider'' [str name, str f]
       | [] \<Rightarrow> no_client_header w names)"

definition check_no_client_header_is_forwarded :: "repo \<Rightarrow> outcome" where
  "check_no_client_header_is_forwarded w =
     no_client_header w [''src/providers/provider_adapter.asm'', ''src/providers/provider_exchange.asm'']"

definition UNCOMMIT_RE :: rx where
  "UNCOMMIT_RE = rx_seq [rx_lit ''and'', rx_plus rx_space, rx_lit ''qword'', rx_plus rx_space, rx_lit ''['',
     rx_plus rx_word, rx_lit '' + PX_FLAGS], ~AF_PX_F_COMMITTED'']"

definition check_commit_point_is_recorded :: "repo \<Rightarrow> outcome" where
  "check_commit_point_is_recorded w =
     reading w ''src/providers/provider_exchange.asm'' (\<lambda>source.
       if \<not> contains source (str ''AF_PX_F_COMMITTED'') then failed ''nothing records the commit point'' []
       else if rx_found UNCOMMIT_RE source then
         failed ''the commit flag is cleared somewhere; a commit is not reversible'' []
       else if py_find source (str ''AF_PX_F_HEAD_SENT | AF_PX_F_COMMITTED'') < 0 then
         failed ''the head is written without recording the commit'' []
       else okay ''the commit point is recorded where the head is written'' [])"

definition ROW_RE :: rx where
  "ROW_RE = rx_seq [rx_lit ''dq'', rx_plus rx_space, rx_plus rx_digit, rx_lit '','', rx_plus rx_space,
     rx_lit ''AF_ERRCLASS_'', rx_plus rx_word, rx_lit '','', rx_plus rx_space,
     Grp 1 (Cat (rx_lit ''e_'') (rx_plus rx_word)), rx_lit '','']"

definition CODE_OF_RE :: "pystr \<Rightarrow> rx" where
  "CODE_OF_RE name = rx_seq [Bol, rx_str name, rx_lit '':'', rx_plus rx_space, rx_lit ''db '', rx_chr 34,
     Grp 1 (rx_plus (Cls True [(34, 34)])), rx_chr 34]"

definition catalogue_codes :: "repo \<Rightarrow> pyexn + pystr list" where
  "catalogue_codes w =
     (case read_text w (str ''src/http/http_response.asm'') of
        Inl e \<Rightarrow> Inl e
      | Inr source \<Rightarrow>
          (case py_index source (str ''af_http_error_table:'') of
             Inl e \<Rightarrow> Inl e
           | Inr a \<Rightarrow>
               (case py_index source (str ''af_http_error_table_end:'') of
                  Inl e \<Rightarrow> Inl e
                | Inr b \<Rightarrow>
                    Inr (List.map_filter (\<lambda>name. group1 (CODE_OF_RE name) source)
                      (rx_findall 1 ROW_RE (py_slice source a b))))))"

definition check_contract_documents_every_code_m6 :: "repo \<Rightarrow> outcome" where
  "check_contract_documents_every_code_m6 w =
     attempt (catalogue_codes w) (\<lambda>codes.
       if length codes < 20 then failed ''catalogue codes were parsed; the check is wrong'' []
       else
         reading w ''docs/API_CONTRACT.md'' (\<lambda>contract.
           let missing = sorted_set (filter (\<lambda>c. \<not> contains contract ([96] @ c @ [96])) codes) in
           if missing \<noteq> [] then failed ''codes the daemon can emit but the contract does not document'' missing
           else okay ''the contract documents all error codes'' [int (length (remdups codes))]))"

definition UP_CODE_RE :: rx where
  "UP_CODE_RE = rx_seq [rx_lit ''%define'', rx_plus rx_space, Grp 1 (Cat (rx_lit ''AF_E_UP_'') (rx_plus rx_word))]"

definition check_upstream_classes_are_documented :: "repo \<Rightarrow> outcome" where
  "check_upstream_classes_are_documented w =
     reading w ''include/errors.inc'' (\<lambda>errors.
     reading w ''src/providers/provider_error.asm'' (\<lambda>classifier.
       let declared = rx_findall 1 UP_CODE_RE errors;
           unmapped = sorted_set (filter (\<lambda>n. \<not> contains classifier n) declared)
       in if unmapped \<noteq> [] then failed ''upstream failure codes nothing classifies'' unmapped
          else okay ''all upstream failure classes are accounted for'' [int (length (remdups declared))]))"

definition check_ordinals_are_asserted_at_startup :: "repo \<Rightarrow> outcome" where
  "check_ordinals_are_asserted_at_startup w =
     reading w ''src/providers/provider_engine.asm'' (\<lambda>source.
       if \<not> contains source (str ''call    af_prov_check_ordinals'') then
         failed ''the mirrored libcurl ordinals are never checked against the library'' []
       else
         attempt (py_index source (str ''af_prov_engine_init:'')) (\<lambda>a.
         let rest = py_from source a in
         attempt (py_index rest (str ''af_prov_engine_shutdown:'')) (\<lambda>b.
         let init = py_slice rest 0 b in
         if \<not> contains init (str ''af_prov_check_ordinals'') then
           failed ''the ordinal check does not run during engine startup'' []
         else okay ''the mirrored libcurl ordinals are asserted before any handle exists'' [])))"

definition check_upstream_descriptors_are_not_closed_by_us :: "repo \<Rightarrow> outcome" where
  "check_upstream_descriptors_are_not_closed_by_us w =
     reading w ''src/providers/provider_engine.asm'' (\<lambda>source.
       attempt (py_index source (str ''af_prov_on_socket:'')) (\<lambda>a.
       attempt (py_index source (str ''af_prov_on_timer:'')) (\<lambda>b.
         if contains (py_slice source a b) (str ''af_sys_close'') then
           failed ''the socket callback closes a descriptor libcurl owns'' []
         else okay ''upstream descriptors are deregistered, never closed'' [])))"

definition run_suite_m6 :: "repo \<Rightarrow> pystr \<Rightarrow> pystr \<Rightarrow> outcome" where
  "run_suite_m6 w name module = module_suite w name module"

definition SUITES_M6 :: "(string \<times> string) list" where
  "SUITES_M6 = [(''provider contract'', ''tests.test_provider_contract''),
     (''streaming corpus'', ''tests.test_provider_streaming''),
     (''provider faults'', ''tests.test_provider_faults''), (''stream soak'', ''tests.test_provider_soak'')]"

definition checks_m6 :: "bool \<Rightarrow> repo \<Rightarrow> outcome list" where
  "checks_m6 skip_suites w =
     [check_no_second_event_loop w, check_shim_is_an_adapter_m6 w, check_every_transfer_option_is_stated w,
      check_tls_verification_is_not_configurable_off w, check_no_client_header_is_forwarded w,
      check_commit_point_is_recorded w, check_contract_documents_every_code_m6 w,
      check_upstream_classes_are_documented w, check_ordinals_are_asserted_at_startup w,
      check_upstream_descriptors_are_not_closed_by_us w]
     @ (if skip_suites then [] else map (\<lambda>(name, m). run_suite_m6 w (str name) (str m)) SUITES_M6)"

definition main_m6 :: "bool \<Rightarrow> repo \<Rightarrow> int" where
  "main_m6 skip_suites w = gate_exit (run_all (checks_m6 skip_suites w))"

interpretation gate6: accumulating_gate "checks_m6 skip" "main_m6 skip" for skip
  by unfold_locales (rule main_m6_def)

end
