(* ===== verification/Gate_M7.thy ===== *)
theory Gate_M7
  imports Gate_Core Json
begin

text \<open>
  \<open>scripts/gate_m7.py\<close>, the gate of the router: the oracle and its fixtures stay out of the
  product, the selector is pure, every policy and retryable class of the schema is implemented,
  the breaker is monotonic, the commit barrier comes first, the concurrency slot is released
  once.
\<close>

definition code_m7 :: "repo \<Rightarrow> pystr \<Rightarrow> pyexn + pystr" where
  "code_m7 w p = map_sum id code_of_m7 (read_text w p)"

section \<open>The oracle and its fixtures\<close>

definition ORACLE_RE :: rx where
  "ORACLE_RE = rx_seq [Bol, Star rx_space, Alt (rx_lit ''from'') (rx_lit ''import''), rx_plus rx_space,
     Star rx_dot, rx_lit ''route_oracle'']"

text \<open>The loop over the Python files; a match ends it.\<close>

fun oracle_imports :: "repo \<Rightarrow> pystr list \<Rightarrow> outcome" where
  "oracle_imports w [] = okay ''the routing oracle is imported only by tests'' []"
| "oracle_imports w (p # ps) =
     (if hd (parts p) \<in> {str ''tests'', str ''scripts''} then oracle_imports w ps
      else attempt (read_text_ignore w p) (\<lambda>t.
        if rx_found ORACLE_RE t then failed ''imports the routing oracle'' [p] else oracle_imports w ps))"

definition check_oracle_is_not_reachable_from_the_product :: "repo \<Rightarrow> outcome" where
  "check_oracle_is_not_reachable_from_the_product w =
     oracle_imports w (sort_paths (glob w (str ''**/*.py'')))"

definition check_fixtures_are_test_only :: "repo \<Rightarrow> outcome" where
  "check_fixtures_are_test_only w =
     (if \<not> build_exists w (str ''debug/asmflowd'') then
        failed ''is missing; run make build-debug first'' [build_path w (str ''debug/asmflowd'')]
      else running w [str ''nm'', str ''--defined-only'', build_path w (str ''debug/asmflowd'')] (\<lambda>rc out err.
        let symbols = last_columns out; leaked = sorted_set (filter (\<lambda>n. startswith n (str ''af_rt_'')) symbols) in
        if leaked \<noteq> [] then failed ''test-only routing fixtures are linked into asmflowd'' leaked
        else if str ''af_route_corpus_main'' \<in> set symbols then
          failed ''the routing corpus harness is linked into asmflowd'' []
        else okay ''the routing fixtures are test-only'' []))"

section \<open>The selector\<close>

definition IMPURE_CALLS :: "string list" where
  "IMPURE_CALLS = [''af_monotonic'', ''af_realtime'', ''af_clock'', ''af_alloc'', ''af_free'', ''af_health_success'',
     ''af_health_failure'', ''af_health_begin'', ''af_health_end'']"

definition CALLED_RE :: rx where
  "CALLED_RE = rx_seq [rx_lit ''call'', rx_plus rx_space, Grp 1 (Cat (rx_lit ''af_'') (rx_plus rx_word))]"

definition check_the_selector_is_pure :: "repo \<Rightarrow> outcome" where
  "check_the_selector_is_pure w =
     attempt (code_m7 w (str ''src/routing/routing_select.asm'')) (\<lambda>source.
       let called = rx_findall 1 CALLED_RE source;
           impure = sorted_set (filter (\<lambda>n. list_ex (\<lambda>bad. startswith n (str bad)) IMPURE_CALLS) called)
       in if impure \<noteq> [] then failed ''the selector calls something that reads a clock or mutates state'' impure
          else okay ''the selector is a pure function of its inputs'' [int (length (remdups called))])"

text \<open>
  Iterating over a value of a document whose items are used as strings: a list, the keys of an
  object or the characters of a string; an item that is not a string has no \<open>upper\<close>.
\<close>

fun str_items :: "json list \<Rightarrow> pyexn + pystr list" where
  "str_items [] = Inr []"
| "str_items (v # vs) =
     (case v of
        JStr t \<Rightarrow> (case str_items vs of Inl e \<Rightarrow> Inl e | Inr ts \<Rightarrow> Inr (t # ts))
      | _ \<Rightarrow> Inl AttrErr)"

definition iter_strings :: "json \<Rightarrow> pyexn + pystr list" where
  "iter_strings v =
     (case v of
        JArr vs \<Rightarrow> str_items vs
      | JObj d \<Rightarrow> Inr (map fst d)
      | JStr t \<Rightarrow> Inr (map (\<lambda>c. [c]) t)
      | _ \<Rightarrow> Inl TypeErr)"

definition schema_enum :: "repo \<Rightarrow> string list \<Rightarrow> (json \<Rightarrow> outcome) \<Rightarrow> outcome" where
  "schema_enum w path k =
     attempt (load_json w (str ''config/asmflow.schema.json'')) (\<lambda>schema. attempt (json_path path schema) k)"

definition check_every_policy_is_implemented :: "repo \<Rightarrow> outcome" where
  "check_every_policy_is_implemented w =
     schema_enum w [''$defs'', ''route'', ''properties'', ''policy'', ''enum''] (\<lambda>policies.
     attempt (code_m7 w (str ''src/routing/routing_select.asm'')) (\<lambda>source.
     attempt (iter_strings policies) (\<lambda>names.
       let missing = filter (\<lambda>n. \<not> contains source (str ''AF_POLICY_'' @ upper_ascii n)) names in
       if missing \<noteq> [] then failed ''policies the schema allows but the selector does not name'' missing
       else okay ''all routing policies are implemented'' [int (length names)])))"

section \<open>Clocks\<close>

definition check_the_breaker_uses_the_monotonic_clock :: "repo \<Rightarrow> outcome" where
  "check_the_breaker_uses_the_monotonic_clock w =
     attempt (code_m7 w (str ''src/routing/routing_health.asm'')) (\<lambda>source.
       if contains source (str ''af_realtime'') then failed ''the circuit breaker reads the wall clock'' []
       else if \<not> contains source (str ''af_monotonic'') then failed ''the circuit breaker reads no clock at all'' []
       else okay ''every circuit deadline is monotonic'' [])"

definition NS_CALL_RE :: rx where
  "NS_CALL_RE = rx_seq [rx_lit ''call'', rx_plus rx_space, rx_lit ''af_monotonic_ns'', WordB]"

definition LEA_RE :: rx where
  "LEA_RE = rx_seq [rx_lit ''lea'', rx_plus rx_space, rx_lit ''rdi'', Star rx_space, rx_lit '','']"

definition lines_before :: "pystr list \<Rightarrow> nat \<Rightarrow> pystr" where
  "lines_before lines i = join (str '' '') (drop (i - 4) (take i lines))"

definition misuses :: "pystr list \<Rightarrow> pystr list" where
  "misuses lines =
     map ((!) lines)
       (filter (\<lambda>i. rx_found NS_CALL_RE (lines ! i) \<and> \<not> rx_found LEA_RE (lines_before lines i))
         [0..<length lines])"

fun clock_offenders :: "repo \<Rightarrow> pystr list \<Rightarrow> pyexn + pystr list" where
  "clock_offenders w [] = Inr []"
| "clock_offenders w (p # ps) =
     (case code_m7 w p of
        Inl e \<Rightarrow> Inl e
      | Inr code \<Rightarrow>
          (case clock_offenders w ps of
             Inl e \<Rightarrow> Inl e
           | Inr rest \<Rightarrow> Inr (map (\<lambda>l. p @ str '': '' @ strip l) (misuses (splitlines code)) @ rest)))"

definition check_the_clock_out_parameter_is_never_misused :: "repo \<Rightarrow> outcome" where
  "check_the_clock_out_parameter_is_never_misused w =
     attempt (clock_offenders w
         (sort_paths (glob w (str ''src/**/*.asm'')) @ sort_paths (glob w (str ''tests/**/*.asm'')))) (\<lambda>offenders.
       if offenders \<noteq> [] then failed ''af_monotonic_ns is called without an out-pointer at'' offenders
       else okay ''every af_monotonic_ns call site supplies an out-pointer'' [])"

section \<open>Fallback and concurrency\<close>

definition UNCOMMIT_M7_RE :: rx where
  "UNCOMMIT_M7_RE = rx_seq [rx_lit ''and'', rx_plus rx_space, rx_lit ''qword'', rx_plus rx_space, rx_lit ''['',
     rx_plus rx_word, rx_lit '' + PX_FLAGS], ~AF_PX_F_COMMITTED'']"

text \<open>\<open>source[start:source.find("AF_LEAVE", source.find(".no:", start))]\<close>.\<close>

definition fallback_body :: "pystr \<Rightarrow> int \<Rightarrow> pystr" where
  "fallback_body source start =
     py_slice source start
       (py_find_from source (str ''AF_LEAVE'') (py_find_from source (str ''.no:'') start))"

definition check_the_commit_barrier_is_first_and_final :: "repo \<Rightarrow> outcome" where
  "check_the_commit_barrier_is_first_and_final w =
     attempt (code_m7 w (str ''src/providers/provider_exchange.asm'')) (\<lambda>source.
       let start = py_find source (str ''af_prov_may_fall_back:'');
           body = fallback_body source start;
           committed = py_find body (str ''AF_PX_F_COMMITTED'');
           retryable = py_find body (str ''af_prov_is_retryable'')
       in if start < 0 then failed ''nothing decides whether a fallback may occur'' []
          else if committed < 0 then failed ''the fallback decision does not consider the commit point'' []
          else if 0 \<le> retryable \<and> retryable < committed then
            failed ''the commit point is checked after the retryable class, not before'' []
          else if rx_found UNCOMMIT_M7_RE source then
            failed ''the commit flag is cleared somewhere; a commit is not reversible'' []
          else okay ''the commit barrier is checked first and never cleared'' [])"

definition retry_table :: "pystr \<Rightarrow> pystr" where
  "retry_table source = py_slice source (py_find source (str ''retry_map:'')) (py_find source (str ''retry_map_end:''))"

definition check_every_retryable_class_is_mapped :: "repo \<Rightarrow> outcome" where
  "check_every_retryable_class_is_mapped w =
     schema_enum w [''$defs'', ''fallback'', ''properties'', ''retryable'', ''items'', ''enum''] (\<lambda>classes.
     attempt (code_m7 w (str ''src/providers/provider_error.asm'')) (\<lambda>source.
     attempt (iter_strings classes) (\<lambda>names.
       let missing = filter (\<lambda>n. \<not> contains (retry_table source) (str ''AF_RETRY_'' @ upper_ascii n)) names in
       if missing \<noteq> [] then failed ''retryable classes with no mapping'' missing
       else okay ''all retryable classes map onto a failure code'' [int (length names)])))"

definition rx_call_of :: "string \<Rightarrow> rx" where
  "rx_call_of n = rx_seq [rx_lit ''call'', rx_plus rx_space, rx_lit n, WordB]"

definition release_function :: "pystr \<Rightarrow> pystr" where
  "release_function source =
     (let f = py_from source (py_find source (str ''af_prov_attempt_release:''))
      in py_slice f 0 (py_find f (nl @ str ''global '')))"

definition check_the_concurrency_slot_has_one_release :: "repo \<Rightarrow> outcome" where
  "check_the_concurrency_slot_has_one_release w =
     attempt (code_m7 w (str ''src/providers/provider_exchange.asm'')) (\<lambda>source.
       if length (rx_findall0 (rx_call_of ''af_health_end'') source) \<noteq> 1 then
         failed ''the concurrency slot is released from several places'' []
       else if \<not> contains (release_function source) (str ''af_health_end'') then
         failed ''the release does not happen inside af_prov_attempt_release'' []
       else if length (rx_findall0 (rx_call_of ''af_health_begin'') source) \<noteq> 1 then
         failed ''the slot is claimed from several places; it should be one'' []
       else if \<not> contains source (str ''AF_PX_F_COUNTED'') then failed ''nothing records that a slot is held'' []
       else okay ''the concurrency slot is claimed once and released through one function'' [])"

section \<open>The gate\<close>

definition run_suite_m7 :: "repo \<Rightarrow> pystr \<Rightarrow> pystr \<Rightarrow> outcome" where
  "run_suite_m7 w name module = module_suite w name module"

definition SUITES_M7 :: "(string \<times> string) list" where
  "SUITES_M7 = [(''routing parity'', ''tests.test_routing_parity''),
     (''circuit timeline'', ''tests.test_circuit_timeline''),
     (''fallback invariants'', ''tests.test_fallback_invariant''),
     (''routing concurrency'', ''tests.test_routing_concurrency''),
     (''routing fault soak'', ''tests.test_routing_fault_soak'')]"

definition checks_m7 :: "bool \<Rightarrow> repo \<Rightarrow> outcome list" where
  "checks_m7 skip_suites w =
     [check_oracle_is_not_reachable_from_the_product w, check_fixtures_are_test_only w,
      check_the_selector_is_pure w, check_every_policy_is_implemented w,
      check_the_breaker_uses_the_monotonic_clock w, check_the_clock_out_parameter_is_never_misused w,
      check_the_commit_barrier_is_first_and_final w, check_every_retryable_class_is_mapped w,
      check_the_concurrency_slot_has_one_release w]
     @ (if skip_suites then [] else map (\<lambda>(name, m). run_suite_m7 w (str name) (str m)) SUITES_M7)"

definition main_m7 :: "bool \<Rightarrow> repo \<Rightarrow> int" where
  "main_m7 skip_suites w = gate_exit (run_all (checks_m7 skip_suites w))"

interpretation gate7: accumulating_gate "checks_m7 skip" "main_m7 skip" for skip
  by unfold_locales (rule main_m7_def)

end
