(* ===== verification/Gate_M8.thy ===== *)
theory Gate_M8
  imports Gate_Core
begin

text \<open>
  \<open>scripts/gate_m8.py\<close>, the gate of the MCP process supervisor: one definition per check, in
  the order of the file, and \<open>main_m8\<close>. Every check reads the sources with their comments
  removed (\<open>code_of\<close>, \<open>function_body\<close>) or asks \<open>nm\<close> and the unit tests.
\<close>

section \<open>Suites\<close>

definition lifecycle :: "string \<Rightarrow> pystr" where
  "lifecycle t = str ''tests.test_mcp_process_lifecycle.McpProcessLifecycleTests.'' @ str t"

definition supervision :: "string \<Rightarrow> pystr" where
  "supervision t = str ''tests.test_mcp_process_supervision.'' @ str t"

definition MODERN_TESTS :: "pystr list" where
  "MODERN_TESTS = [lifecycle ''test_modern_startup_method_sequence'',
     lifecycle ''test_invalid_modern_success_without_legacy_fails_before_inventory'']"

definition LEGACY_TESTS :: "pystr list" where
  "LEGACY_TESTS = [lifecycle ''test_legacy_startup_method_sequence'',
     lifecycle ''test_invalid_modern_success_falls_back_without_era_interleave'',
     lifecycle ''test_invalid_legacy_success_fails_before_initialized'',
     supervision ''McpLegacyProcessResetTests'']"

definition MALFORMED_TESTS :: "pystr list" where
  "MALFORMED_TESTS = [supervision ''McpMalformedStdioTests'', supervision ''McpRequiredReadinessTests'']"

definition LIFECYCLE_TESTS :: "pystr list" where
  "LIFECYCLE_TESTS = [lifecycle ''test_arguments_are_literal_and_never_reach_a_shell'',
     lifecycle ''test_environment_is_allowlisted_and_secret_sources_do_not_leak'',
     lifecycle ''test_configured_working_directory_is_applied'',
     lifecycle ''test_child_is_gone_after_daemon_shutdown'',
     supervision ''McpRequestTimeoutTests'']"

definition CRASH_LOOP_TESTS :: "pystr list" where
  "CRASH_LOOP_TESTS = [supervision ''McpCrashLoopTests'']"

definition ZOMBIE_SOAK_TESTS :: "pystr list" where
  "ZOMBIE_SOAK_TESTS = [supervision ''McpZombieSoakTests'']"

definition SUITES_M8 :: "(pystr \<times> pystr list) list" where
  "SUITES_M8 = [(str ''modern stdio'', MODERN_TESTS), (str ''legacy stdio'', LEGACY_TESTS),
     (str ''malformed stdio'', MALFORMED_TESTS), (str ''process lifecycle'', LIFECYCLE_TESTS),
     (str ''crash loop'', CRASH_LOOP_TESTS), (str ''zombie soak'', ZOMBIE_SOAK_TESTS)]"

section \<open>Checks\<close>

definition check_build_contains_the_supervisor :: "repo \<Rightarrow> outcome" where
  "check_build_contains_the_supervisor w =
     (let missing = filter (\<lambda>p. \<not> build_is_file w p) [str ''debug/asmflowd'', str ''debug/asmflow-tests''] in
      if missing \<noteq> [] then failed ''missing M8 build products'' (map (build_path w) missing)
      else running w [str ''nm'', str ''--defined-only'', build_path w (str ''debug/asmflowd'')]
        (\<lambda>rc out err.
           if rc \<noteq> 0 then failed ''nm could not inspect'' [build_path w (str ''debug/asmflowd''), err]
           else
             (let required = [''af_mcp_sup_init'', ''af_mcp_spawn'', ''af_mcp_frame_lines'', ''af_mcp_request'',
                    ''af_mcp_advance'', ''af_mcp_manual_restart'', ''af_mcp_reset''];
                  missing_symbols = lacking required (last_columns out)
              in if missing_symbols \<noteq> [] then failed ''asmflowd is missing MCP supervisor symbols'' missing_symbols
                 else okay ''debug daemon contains the assembly MCP supervisor'' [7])))"

definition SHELL_RE :: rx where
  "SHELL_RE = Alt (rx_seq [rx_lit ''/bin/'', rx_opt (rx_lit ''ba''), rx_lit ''sh''])
     (rx_seq [WordB, rx_lit ''call'', rx_plus rx_space,
        rx_alts [rx_lit ''system'', rx_lit ''popen'', Cat (rx_lit ''execl'') (rx_opt (rx_lit ''p'')),
          rx_lit ''execvp'', rx_lit ''posix_spawn''], WordB])"

text \<open>The text in front of the call, \<open>source[max(0, exec_at - 500):exec_at]\<close>.\<close>

definition exec_window :: "pystr \<Rightarrow> pystr" where
  "exec_window source =
     (let exec_at = py_find source (str ''call    af_sys_execve'')
      in py_slice source (max 0 (exec_at - 500)) exec_at)"

definition check_direct_argv_exec_without_a_shell :: "repo \<Rightarrow> outcome" where
  "check_direct_argv_exec_without_a_shell w =
     attempt (code_of w (str ''src/mcp/mcp_process.asm'')) (\<lambda>source.
       if length (rx_findall0 (rx_call ''af_sys_execve'') source) \<noteq> 1 then
         failed ''MCP process spawning must have exactly one direct execve call'' []
       else
         (let missing = filter (\<lambda>n. \<not> rx_found (rx_call n) source)
                ([''af_sys_fork'', ''af_mcp_build_argv'', ''af_mcp_build_env'']) in
          if missing \<noteq> [] then failed ''the direct spawn path is missing'' (map str missing)
          else
            (case rx_search SHELL_RE source of
               Some m \<Rightarrow> failed ''the MCP spawn path can invoke a shell'' [match_text m]
             | None \<Rightarrow>
                 (case absent [''MCP_COMMAND'', ''SP_ARGV'', ''SP_ENVP''] (exec_window source) of
                    t # _ \<Rightarrow> failed ''execve is not visibly fed from the direct vector'' [t]
                  | [] \<Rightarrow> okay ''MCP children use one direct fork/execve path with literal argv'' []))))"

definition AMBIENT_RE :: rx where
  "AMBIENT_RE = rx_alts (map (\<lambda>n. rx_seq [WordB, rx_lit n, WordB]) [''environ'', ''clearenv'', ''setenv''])"

definition check_environment_is_constructed_from_the_allowlist :: "repo \<Rightarrow> outcome" where
  "check_environment_is_constructed_from_the_allowlist w =
     attempt (code_of w (str ''src/mcp/mcp_process.asm'')) (\<lambda>source.
       let body = function_body source (str ''af_mcp_build_env'');
           missing = absent [''MCP_ENV_ALLOW_COUNT'', ''MCP_ENV_PAIR_COUNT'', ''af_add_size'', ''af_mul_size''] body
       in if missing \<noteq> [] then failed ''the environment builder lacks'' missing
          else if \<not> contains source (str ''af_cfg_getenv'') then
            failed ''the environment entry helpers do not resolve named variables'' []
          else if rx_found AMBIENT_RE source then
            failed ''the child environment is derived from ambient environ'' []
          else okay ''child envp is built only from env_allow and mapped secret references'' [])"

definition HTTP_REACH_RE :: rx where
  "HTTP_REACH_RE = rx_seq [WordB, Alt (rx_lit ''call'') (rx_lit ''extern''), rx_plus rx_space,
     rx_alts [rx_lit ''af_curl'', rx_lit ''af_mcp_http'', rx_lit ''af_http'', rx_lit ''curl_'']]"

definition stdio_paths :: "repo \<Rightarrow> pystr list" where
  "stdio_paths w = [str ''src/mcp/mcp_process.asm'', str ''src/mcp/mcp_frame.asm''] @
     sort_paths (glob w (str ''src/mcp/mcp_stdio*.asm''))"

definition check_m8_is_stdio_only :: "repo \<Rightarrow> outcome" where
  "check_m8_is_stdio_only w =
     attempt (code_of w (str ''src/mcp/mcp_supervisor.asm'')) (\<lambda>supervisor.
     attempt (code_of_all w (stdio_paths w)) (\<lambda>codes.
       let stdio_code = join nl codes;
           start = function_body supervisor (str ''af_mcp_start'');
           missing = absent [''MC_TRANSPORT'', ''AF_TRANSPORT_STREAMABLE_HTTP'', ''af_mcp_http_start'',
             ''af_mcp_spawn''] start
       in if missing \<noteq> [] then failed ''the shared MCP start path lacks transport isolation'' missing
          else if rx_found HTTP_REACH_RE stdio_code then
            failed ''an MCP stdio/process/frame module reaches the HTTP adapter'' []
          else okay ''MCP start dispatch is explicit; stdio/process/frame import no HTTP transport'' []))"

definition check_modern_and_legacy_adapters_are_separate :: "repo \<Rightarrow> outcome" where
  "check_modern_and_legacy_adapters_are_separate w =
     attempt (code_of w (str ''src/mcp/mcp_era.asm'')) (\<lambda>source.
       let modern = function_body source (str ''af_mcp_validate_modern_discover'');
           legacy = function_body source (str ''af_mcp_validate_legacy_initialize'');
           missing_modern = absent [''CL_RESULT'', ''af_json_parse'', ''af_json_get_array'', ''af_json_array_at'',
             ''af_json_string_of'', ''v_modern2''] modern;
           missing_legacy = absent [''CL_RESULT'', ''af_json_parse'', ''af_json_get_string'', ''v_legacy2''] legacy;
           inventory = function_body source (str ''af_mcp_begin_inventory'');
           modern_meta = map str [''io.modelcontextprotocol/protocolVersion'',
             ''io.modelcontextprotocol/clientInfo'', ''io.modelcontextprotocol/clientCapabilities''];
           collect = function_body source (str ''af_mcp_collect_list'');
           missing_inventory = absent [''af_json_parse'', ''af_json_get_array'', ''af_jsonc_dump'',
             ''AF_MCP_INVENTORY_MAX'', ''AF_MC_F_TOOLS_CURRENT'', ''AF_MCP_S_DEGRADED''] collect
       in if missing_modern \<noteq> [] \<or> missing_legacy \<noteq> [] then
            failed ''era validators are incomplete'' [join (str '','') missing_modern, join (str '','') missing_legacy]
          else if contains modern (str ''v_legacy2'') \<or> contains legacy (str ''v_modern2'') then
            failed ''modern and legacy version state is interleaved'' []
          else if \<not> list_all (contains source) modern_meta then
            failed ''modern inventory does not carry the required metadata shape'' []
          else if \<not> contains inventory (str ''xor     r13d, r13d'') then
            failed ''legacy inventory does not explicitly omit modern params'' []
          else if missing_inventory \<noteq> [] then
            failed ''inventory arrays are not bounded/transactional'' missing_inventory
          else if contains source (str ''af_mcp_count_entries'') then
            failed ''inventory count still relies on a permissive JSON text scan'' []
          else okay ''modern discovery and legacy initialize use distinct bounded adapters'' [])"

definition deadline_anchors :: "pystr \<Rightarrow> pystr \<Rightarrow> (string \<times> pystr \<times> string list) list" where
  "deadline_anchors supervisor rpc =
     [(''request deadline'', function_body rpc (str ''af_mcp_request''),
         [''af_monotonic_now'', ''af_mcp_call_alloc'', ''af_mul_size'', ''af_add_size'']),
      (''call timeout sweep'', function_body rpc (str ''af_mcp_sweep_calls''), [''CL_DEADLINE'']),
      (''restart/backoff deadline'', function_body supervisor (str ''af_mcp_schedule_restart''),
         [''af_monotonic_now'', ''MC_NEXT_START'']),
      (''shutdown deadline'', function_body supervisor (str ''af_mcp_arm_shutdown_grace''),
         [''af_monotonic_now'', ''MC_NEXT_START''])]"

definition check_all_deadlines_are_monotonic :: "repo \<Rightarrow> outcome" where
  "check_all_deadlines_are_monotonic w =
     attempt (code_of w (str ''src/mcp/mcp_supervisor.asm'')) (\<lambda>supervisor.
     attempt (code_of w (str ''src/mcp/mcp_rpc.asm'')) (\<lambda>rpc.
     attempt (code_of w (str ''src/mcp/mcp_era.asm'')) (\<lambda>era.
       let all_mcp = supervisor @ nl @ rpc @ nl @ era;
           lacks = filter (\<lambda>(label, body, tokens). absent tokens body \<noteq> []) (deadline_anchors supervisor rpc);
           allocation = function_body rpc (str ''af_mcp_call_alloc'')
       in if contains all_mcp (str ''af_realtime'') \<or> contains all_mcp (str ''CLOCK_REALTIME'') then
            failed ''an MCP deadline reads the realtime clock'' []
          else case lacks of
            (label, body, tokens) # _ \<Rightarrow> failed ''is missing monotonic state'' (str label # absent tokens body)
          | [] \<Rightarrow>
              if \<not> contains allocation (str ''CL_DEADLINE'') then
                failed ''the computed request deadline is not stored in the call record'' []
              else if \<not> contains supervisor (str ''CLOCK_MONOTONIC'') then
                failed ''the MCP supervisor timerfd is not monotonic'' []
              else okay ''request, restart, and shutdown deadlines are monotonic'' [])))"

definition DEFINE_LIMIT_RE :: "string \<Rightarrow> rx" where
  "DEFINE_LIMIT_RE n = rx_seq [Bol, Star rx_space, rx_lit ''%define'', rx_plus rx_space, rx_lit n,
     rx_plus rx_space, rx_plus rx_nonspace]"

definition REQUIRED_LIMITS :: "string list" where
  "REQUIRED_LIMITS = [''AF_MCP_MAX_CHILDREN'', ''AF_MCP_MAX_CALLS'', ''AF_MCP_INVENTORY_MAX'',
     ''AF_MCP_STDERR_KEEP'', ''AF_MCP_FRAME_HARD_MAX'', ''AF_MCP_INBOX_MAX'', ''AF_MCP_STDERR_LINE_HARD_MAX'']"

definition bound_anchors :: "pystr \<Rightarrow> pystr \<Rightarrow> pystr \<Rightarrow> pystr \<Rightarrow> (string \<times> pystr \<times> string) list" where
  "bound_anchors supervisor frame rpc process =
     [(''child table capacity'', supervisor, ''AF_MCP_MAX_CHILDREN''),
      (''call table capacity'', function_body rpc (str ''af_mcp_call_alloc''), ''AF_MCP_MAX_CALLS''),
      (''stdout frame ceiling'', frame, ''MC_FRAME_MAX''),
      (''stdout accumulation ceiling'', supervisor, ''AF_MCP_INBOX_MAX''),
      (''stderr line ceiling'', frame, ''MC_STDERR_MAX''),
      (''stderr retained tail'', frame, ''AF_MCP_STDERR_KEEP''),
      (''checked argv/env arithmetic'', process, ''af_mul_size'')]"

definition check_buffers_and_tables_are_bounded :: "repo \<Rightarrow> outcome" where
  "check_buffers_and_tables_are_bounded w =
     attempt (code_of w (str ''include/mcp.inc'')) (\<lambda>public.
       let missing = filter (\<lambda>n. \<not> rx_found (DEFINE_LIMIT_RE n) public) REQUIRED_LIMITS in
       if missing \<noteq> [] then failed ''MCP public bounds are missing'' (map str missing)
       else
         attempt (code_of w (str ''src/mcp/mcp_supervisor.asm'')) (\<lambda>supervisor.
         attempt (code_of w (str ''src/mcp/mcp_frame.asm'')) (\<lambda>frame.
         attempt (code_of w (str ''src/mcp/mcp_rpc.asm'')) (\<lambda>rpc.
         attempt (code_of w (str ''src/mcp/mcp_process.asm'')) (\<lambda>process.
           case filter (\<lambda>(label, source, token). \<not> contains source (str token))
                  (bound_anchors supervisor frame rpc process) of
             (label, source, token) # _ \<Rightarrow> failed ''is not enforced'' [str label, str token]
           | [] \<Rightarrow> okay ''MCP buffers/tables expose and enforce hard bounds'' [int (length REQUIRED_LIMITS)])))))"

definition POLICY_WORDS :: "string list" where
  "POLICY_WORDS = [''mcp'', ''restart'', ''backoff'', ''crash_loop'', ''supervisor'', ''fallback'', ''routing'']"

definition POLICY_CALLS :: "string list" where
  "POLICY_CALLS = [''system'', ''popen'', ''fork'', ''execve'', ''waitpid'', ''kill'', ''setenv'', ''unsetenv'']"

definition POLICY_RE :: rx where
  "POLICY_RE = rx_seq [WordB, rx_alts (map rx_ilit POLICY_WORDS), WordB]"

definition POLICY_CALL_RE :: rx where
  "POLICY_CALL_RE = rx_seq [WordB, rx_alts (map rx_lit POLICY_CALLS), Star rx_space, rx_lit ''('']"

definition policy_match :: "pystr \<Rightarrow> (pos \<times> mst) option" where
  "policy_match source =
     (case rx_search POLICY_RE source of Some m \<Rightarrow> Some m | None \<Rightarrow> rx_search POLICY_CALL_RE source)"

definition check_no_mcp_policy_lives_in_c :: "repo \<Rightarrow> outcome" where
  "check_no_mcp_policy_lives_in_c w =
     attempt (read_all w (sort_paths (glob w (str ''src/**/*.c'')))) (\<lambda>files.
       let offenders = List.map_filter (\<lambda>(p, t). map_option (\<lambda>m. p @ str '':'' @ match_text m)
             (policy_match (strip_c_comments t))) files
       in if offenders \<noteq> [] then failed ''MCP/process policy appears in C'' offenders
          else okay ''production C shims contain no MCP/process supervision policy'' [])"

definition check_readiness_and_tool_confirmation_are_wired :: "repo \<Rightarrow> outcome" where
  "check_readiness_and_tool_confirmation_are_wired w =
     attempt (code_of w (str ''src/http/http_endpoints.asm'')) (\<lambda>endpoints.
     attempt (code_of w (str ''src/control/control_methods.asm'')) (\<lambda>control.
     attempt (code_of w (str ''src/mcp/mcp_supervisor.asm'')) (\<lambda>supervisor.
       let required_counts = function_body supervisor (str ''af_mcp_required_counts'');
           tool_test = function_body control (str ''af_ctl_m_mcp_tool_test'')
       in if \<not> contains endpoints (str ''af_mcp_required_ready'') then
            failed ''/readyz does not consult required MCP readiness'' []
          else if \<not> contains required_counts (str ''AF_MC_F_TOOLS_CURRENT'') then
            failed ''required MCP readiness accepts an uncommitted or stale tools cache'' []
          else if tool_test = [] then failed ''the mcp.tool_test control method is missing'' []
          else case absent [''k_confirmed'', ''AF_E_MCP_UNCONFIRMED''] tool_test of
            t # _ \<Rightarrow> failed ''mcp.tool_test does not enforce'' [t]
          | [] \<Rightarrow> okay ''required MCP readiness and explicit tool-test confirmation are wired'' [])))"

definition targets_m8 :: "string list" where
  "targets_m8 = [''test-mcp-stdio-modern'', ''test-mcp-stdio-legacy'', ''test-mcp-stdio-malformed'',
     ''test-mcp-process-lifecycle'', ''test-mcp-crash-loop'', ''test-mcp-zombie-soak'', ''valgrind-mcp'', ''gate-m8'']"

definition check_named_make_targets_are_focused :: "repo \<Rightarrow> outcome" where
  "check_named_make_targets_are_focused w =
     reading w ''Makefile'' (\<lambda>makefile.
       let recipe = (\<lambda>t. make_recipe makefile (str t));
           missing = filter (\<lambda>t. recipe t = []) targets_m8;
           focused = map recipe (take 6 targets_m8)
       in if missing \<noteq> [] then failed ''Makefile is missing M8 recipes'' (map str missing)
          else if length (remdups focused) \<noteq> length focused then
            failed ''two M8 behavioural targets alias the same broad suite'' []
          else if list_ex (\<lambda>r. contains r (str ''unittest discover'')) focused then
            failed ''an M8 focused target runs unittest discovery'' []
          else okay ''all six HARNESS M8 targets have distinct focused recipes'' [])"

section \<open>The gate\<close>

definition checks_m8 :: "bool \<Rightarrow> repo \<Rightarrow> outcome list" where
  "checks_m8 skip_suites w =
     [check_build_contains_the_supervisor w, check_direct_argv_exec_without_a_shell w,
      check_environment_is_constructed_from_the_allowlist w, check_m8_is_stdio_only w,
      check_modern_and_legacy_adapters_are_separate w, check_all_deadlines_are_monotonic w,
      check_buffers_and_tables_are_bounded w, check_no_mcp_policy_lives_in_c w,
      check_readiness_and_tool_confirmation_are_wired w, check_named_make_targets_are_focused w]
     @ (if skip_suites then [] else map (\<lambda>(name, tests). run_suite w name tests) SUITES_M8)"

definition main_m8 :: "bool \<Rightarrow> repo \<Rightarrow> int" where
  "main_m8 skip_suites w = gate_exit (run_all (checks_m8 skip_suites w))"

interpretation gate8: accumulating_gate "checks_m8 skip" "main_m8 skip" for skip
  by unfold_locales (rule main_m8_def)

section \<open>What the gate establishes\<close>

definition static_checks_m8 :: "repo \<Rightarrow> outcome list" where
  "static_checks_m8 w = checks_m8 True w"

text \<open>
  The gate of milestone 8 exits with 0 exactly when every static check passed and, unless
  the suites were skipped, each of the six suites exited with 0, reported a non-zero number of
  tests and reported no skipped test. A suite that timed out, printed no count or skipped a
  test makes the gate exit with 1.
\<close>

lemma gate_m8_verdict:
  "main_m8 skip w =
     (if list_all passed (static_checks_m8 w) \<and>
         (skip \<or> list_all (\<lambda>(name, tests). ran_and_skipped_none w (suite_argv w tests)) SUITES_M8)
      then 0 else 1)"
proof -
  have "main_m8 skip w = 0 \<longleftrightarrow> list_all passed (static_checks_m8 w) \<and>
      (skip \<or> list_all (\<lambda>(name, tests). ran_and_skipped_none w (suite_argv w tests)) SUITES_M8)"
    unfolding gate8.exit_zero list_all_iff
    by (auto simp: static_checks_m8_def checks_m8_def suite8.verdict)
  then show ?thesis using gate8.exit_code [of skip w] by auto
qed

lemma policy_wordlike: "n \<in> set POLICY_WORDS \<Longrightarrow> wordlike (str n)" "n \<in> set POLICY_CALLS \<Longrightarrow> wordlike (str n)"
  by (auto simp: POLICY_WORDS_def POLICY_CALLS_def wordlike_def str_def is_word_def is_digit_def
      is_upper_def is_lower_def)

lemma policy_match_None:
  "policy_match s = None \<longleftrightarrow>
     \<not> list_ex (\<lambda>n. whole_word_any_case (str n) s) POLICY_WORDS \<and> \<not> list_ex (\<lambda>n. called_in (str n) s) POLICY_CALLS"
proof -
  have "policy_match s = None \<longleftrightarrow> \<not> rx_found POLICY_RE s \<and> \<not> rx_found POLICY_CALL_RE s"
    by (cases "rx_search POLICY_RE s"; cases "rx_search POLICY_CALL_RE s")
      (simp_all add: policy_match_def rx_found_def)
  then show ?thesis
    using found_words_any_case [of POLICY_WORDS s, OF policy_wordlike(1)]
      found_calls [of POLICY_CALLS s, OF policy_wordlike(2)]
    unfolding POLICY_RE_def POLICY_CALL_RE_def list_ex_iff by blast
qed

text \<open>
  The check on the C shims passes exactly when every C file below \<open>src\<close> can be read and,
  with its comments removed, none of the policy words occurs in it as a whole word in any case
  and none of the process functions is called in it.
\<close>

lemma no_policy_in_c_iff:
  "passed (check_no_mcp_policy_lives_in_c w) \<longleftrightarrow>
     (\<exists>files. read_all w (sort_paths (glob w (str ''src/**/*.c''))) = Inr files \<and>
        list_all (\<lambda>(p, t).
          \<not> list_ex (\<lambda>n. whole_word_any_case (str n) (strip_c_comments t)) POLICY_WORDS \<and>
          \<not> list_ex (\<lambda>n. called_in (str n) (strip_c_comments t)) POLICY_CALLS) files)"
proof -
  have "List.map_filter (\<lambda>(p, t). map_option (\<lambda>m. p @ str '':'' @ match_text m)
          (policy_match (strip_c_comments t))) files = [] \<longleftrightarrow>
        list_all (\<lambda>(p, t). policy_match (strip_c_comments t) = None) files" for files
    by (induction files) (auto simp: map_filter_simps split: option.splits)
  then have "passed (check_no_mcp_policy_lives_in_c w) \<longleftrightarrow>
      (\<exists>files. read_all w (sort_paths (glob w (str ''src/**/*.c''))) = Inr files \<and>
         list_all (\<lambda>(p, t). policy_match (strip_c_comments t) = None) files)"
    unfolding check_no_mcp_policy_lives_in_c_def Let_def passed_attempt passed_if
    by (metis passed_simps(2,3))
  then show ?thesis unfolding policy_match_None .
qed

text \<open>
  The window in front of the \<open>execve\<close> call. When the call is written with exactly four
  spaces, the window is the at most 500 characters in front of it. When it is not, for example
  with a tab, \<open>find\<close> returns -1 and the window is the whole file but its last character, so the
  three vectors need not be anywhere near the call.
\<close>

lemma exec_window_reach:
  "exec_window source =
     (if contains source (str ''call    af_sys_execve'')
      then (let k = nat (py_find source (str ''call    af_sys_execve'')) in drop (k - 500) (take k source))
      else butlast source)"
proof (cases "contains source (str ''call    af_sys_execve'')")
  case True
  let ?p = "str ''call    af_sys_execve''"
  have "0 \<le> py_find source ?p" using True py_find_neg [of source ?p] by linarith
  then obtain k where k: "py_find source ?p = int k" by (metis nonneg_int_cases)
  then have "k \<le> length source" using py_find_bound [of source ?p] by linarith
  moreover have "nat (max 0 (int k - 500)) = k - 500" "max 0 (int k - 500) = int (k - 500)" by linarith+
  ultimately have "py_slice source (max 0 (int k - 500)) (int k) = drop (k - 500) (take k source)"
    by (simp add: py_slice_def slice_bound_def Let_def drop_take)
  then show ?thesis using True k by (simp add: exec_window_def Let_def)
next
  case False
  moreover have "py_find source (str ''call    af_sys_execve'') = -1"
    using False by (rule py_find_absent)
  moreover have "nat (max 0 (int (length source) - 1)) = length source - 1" by linarith
  ultimately show ?thesis
    by (simp add: exec_window_def py_slice_def slice_bound_def Let_def butlast_conv_take)
qed

end
