(* ===== verification/Gate_M9.thy ===== *)
theory Gate_M9
  imports Gate_Core Py_Value
begin

text \<open>
  \<open>scripts/gate_m9.py\<close>, the gate of MCP over HTTP: exports, dispatch, the separation of the two
  protocol eras, bounds, security options, the cache, the fixtures, the Makefile and the suites.

  \<open>ast.parse\<close> is a parameter of the checks that count tests: \<open>fdefs\<close> gives the names of the
  function definitions of a Python source, or \<open>None\<close> for a syntax error.
\<close>

section \<open>Tables\<close>

definition SUITES_M9 :: "(string \<times> string \<times> int) list" where
  "SUITES_M9 = [(''modern HTTP'', ''tests.test_mcp_http_modern'', 3), (''legacy HTTP'', ''tests.test_mcp_http_legacy'', 2),
     (''version matrix'', ''tests.test_mcp_version_matrix'', 3), (''HTTP stream'', ''tests.test_mcp_http_stream'', 3),
     (''HTTP security'', ''tests.test_mcp_http_security'', 6)]"

definition HTTP_EXPORTS :: "(string \<times> string list) list" where
  "HTTP_EXPORTS =
     [(''src/mcp/mcp_http_engine.asm'',
        [''af_mcp_http_engine_init'', ''af_mcp_http_engine_shutdown'', ''af_mcp_http_slot_alloc'',
         ''af_mcp_http_slot_release'', ''af_mcp_http_transfer_cancel'', ''af_mcp_http_reap'']),
      (''src/mcp/mcp_http_adapter.asm'',
        [''af_mcp_http_start'', ''af_mcp_http_stop'', ''af_mcp_http_request'', ''af_mcp_http_notify'',
         ''af_mcp_http_cancel_call'', ''af_mcp_http_complete'', ''af_mcp_http_advance_inventory'']),
      (''src/mcp/mcp_http_modern.asm'', [''af_mcp_http_modern_headers'']),
      (''src/mcp/mcp_http_legacy.asm'',
        [''af_mcp_http_legacy_headers'', ''af_mcp_http_legacy_start_get'', ''af_mcp_http_legacy_cancel_notification''])]"

definition FIXTURES :: "string list" where
  "FIXTURES = [''header_mismatch_error.json'', ''legacy_initialize_result.json'', ''legacy_tools_list_result.json'',
     ''method_not_found_error.json'', ''modern_discover_result.json'', ''modern_tool_call_result.json'',
     ''modern_tools_list_result.json'', ''progress_notification.json'', ''unsupported_version_error.json'']"

section \<open>Sources\<close>

definition code_of_m9 :: "repo \<Rightarrow> pystr \<Rightarrow> pyexn + pystr" where
  "code_of_m9 w rel =
     (if \<not> is_file w rel then Inr []
      else case read_text w rel of
        Inl e \<Rightarrow> Inl e
      | Inr t \<Rightarrow>
          if path_suffix rel \<in> {str ''.asm'', str ''.inc''} then Inr (strip_asm_comments_m9 t)
          else if path_suffix rel \<in> {str ''.c'', str ''.h''} then Inr (strip_c_comments_m9 t)
          else Inl (ValueErr ''no comment stripper''))"

definition http_code :: "repo \<Rightarrow> pyexn + pystr" where
  "http_code w =
     map_sum id (join nl) (collect_all (code_of_m9 w) (sort_paths (glob w (str ''src/mcp/mcp_http*.asm''))))"

definition HTTP_GLOBAL_RE :: rx where
  "HTTP_GLOBAL_RE = rx_seq [Bol, Star rx_space, rx_lit ''global'', rx_plus rx_space,
     Grp 1 (Cat (rx_lit ''af_mcp_http_'') (rx_plus rx_word))]"

definition check_exports :: "repo \<Rightarrow> string \<times> string list \<Rightarrow> outcome" where
  "check_exports w e =
     (case e of (rel, expected) \<Rightarrow>
        attempt (code_of_m9 w (str rel)) (\<lambda>source.
          let missing = lacking expected (rx_findall 1 HTTP_GLOBAL_RE source) in
          fail_if (missing \<noteq> []) ''is missing exports'' (str rel # missing)))"

definition check_sources_and_build :: "repo \<Rightarrow> outcome" where
  "check_sources_and_build w =
     (let missing_files = filter (\<lambda>e. \<not> is_file w (str (fst e))) HTTP_EXPORTS;
          daemon = build_path w (str ''debug/asmflowd'');
          required = concat (map snd HTTP_EXPORTS)
      in run_all
        [fail_if (missing_files \<noteq> []) ''missing M9 assembly modules'' (map (\<lambda>e. str (fst e)) missing_files),
         for_each HTTP_EXPORTS (check_exports w),
         if \<not> build_is_file w (str ''debug/asmflowd'') then failed ''missing M9 debug daemon'' [daemon]
         else
           (case proc w [str ''nm'', str ''--defined-only'', daemon] of
              NotFound \<Rightarrow> failed ''nm could not inspect'' [daemon]
            | TimedOut \<Rightarrow> raised TimeoutErr
            | Done rc out err \<Rightarrow>
                if rc \<noteq> 0 then failed ''nm could not inspect'' [daemon, err]
                else if lacking required (last_columns out) \<noteq> [] then
                  failed ''asmflowd is missing M9 HTTP symbols'' (lacking required (last_columns out))
                else okay ''debug daemon contains all M9 HTTP anchors'' [int (length (remdups required))])])"

section \<open>Dispatch and eras\<close>

definition dispatch_anchors :: "pystr \<Rightarrow> (string \<times> pystr \<times> string list) list" where
  "dispatch_anchors source =
     [(''request'', function_body_m9 source (str ''af_mcp_transport_request''),
         [''AF_TRANSPORT_STDIO'', ''AF_TRANSPORT_STREAMABLE_HTTP'', ''af_mcp_send'', ''af_mcp_http_request'']),
      (''notification'', function_body_m9 source (str ''af_mcp_transport_notify''),
         [''AF_TRANSPORT_STDIO'', ''AF_TRANSPORT_STREAMABLE_HTTP'', ''af_mcp_send'', ''af_mcp_http_notify''])]"

definition check_transport_dispatch :: "repo \<Rightarrow> outcome" where
  "check_transport_dispatch w =
     attempt (code_of_m9 w (str ''src/mcp/mcp_transport.asm'')) (\<lambda>source.
       case filter (\<lambda>(label, body, tokens). absent tokens body \<noteq> []) (dispatch_anchors source) of
         (label, body, tokens) # _ \<Rightarrow> failed ''MCP dispatch is incomplete'' (str label # absent tokens body)
       | [] \<Rightarrow> okay ''common JSON-RPC dispatch selects stdio or Streamable HTTP explicitly'' [])"

definition LEGACY_LEAK_RE :: rx where
  "LEGACY_LEAK_RE = rx_alts (map rx_ilit [''Mcp-Session-Id'', ''Last-Event-Id'', ''AF_MCP_HTTP_METHOD_GET'',
     ''af_curl_set_http_get'', ''af_mcp_http_legacy'', ''2025-11-25''])"

definition MODERN_REQUIRED :: "string list" where
  "MODERN_REQUIRED = [''af_mcp_http_modern_headers'', ''MCP-Protocol-Version'', ''Mcp-Method'', ''Mcp-Name'',
     ''Mcp-Param-'', ''Accept'', ''application/json'', ''text/event-stream'', ''AF_MCP_MODERN_VERSION'']"

definition LEGACY_REQUIRED :: "string list" where
  "LEGACY_REQUIRED = [''af_mcp_http_legacy_headers'', ''af_mcp_http_legacy_start_get'',
     ''af_mcp_http_legacy_cancel_notification'', ''Mcp-Session-Id'', ''AF_MCP_HTTP_METHOD_GET'',
     ''af_curl_set_http_get'', ''AF_MCP_LEGACY_VERSION'']"

definition check_modern_and_legacy_are_isolated :: "repo \<Rightarrow> outcome" where
  "check_modern_and_legacy_are_isolated w =
     attempt (code_of_m9 w (str ''src/mcp/mcp_http_modern.asm'')) (\<lambda>modern.
     attempt (code_of_m9 w (str ''src/mcp/mcp_http_legacy.asm'')) (\<lambda>legacy.
     attempt (code_of_m9 w (str ''src/mcp/mcp_era.asm'')) (\<lambda>era.
       let metadata = [''io.modelcontextprotocol/protocolVersion'', ''io.modelcontextprotocol/clientInfo'',
             ''io.modelcontextprotocol/clientCapabilities'', ''2026-07-28'']
       in if absent MODERN_REQUIRED modern \<noteq> [] then
            failed ''modern HTTP request construction lacks'' (absent MODERN_REQUIRED modern)
          else case rx_search LEGACY_LEAK_RE modern of
            Some m \<Rightarrow> failed ''legacy state leaked into the modern adapter'' [match_text m]
          | None \<Rightarrow>
              if absent LEGACY_REQUIRED legacy \<noteq> [] then
                failed ''legacy HTTP adapter lacks'' (absent LEGACY_REQUIRED legacy)
              else if absent metadata era \<noteq> [] then
                failed ''modern HTTP bodies lack matching metadata'' (absent metadata era)
              else okay ''modern POST metadata/headers and legacy session/GET state are isolated'' [])))"

definition check_version_and_fallback_classification :: "repo \<Rightarrow> outcome" where
  "check_version_and_fallback_classification w =
     attempt (code_of_m9 w (str ''src/mcp/mcp_http_adapter.asm'')) (\<lambda>adapter.
     attempt (code_of_m9 w (str ''src/mcp/mcp_era.asm'')) (\<lambda>source.
       let era = function_body_m9 source (str ''af_mcp_advance'');
           flags = [''AF_MCP_CL_F_RECOGNIZED'', ''AF_MCP_CL_F_BARE_REFUSAL'', ''AF_MCP_CL_F_VERSION_ERROR'',
             ''AF_MCP_CL_F_HEADER_MISMATCH''];
           required_era = [''AF_TRANSPORT_STREAMABLE_HTTP'', ''AF_MCP_CL_F_BARE_REFUSAL'', ''AF_MCP_LEGACY_2025_11_25'',
             ''AF_E_MCP_TIMEOUT'', ''.no_legacy'']
       in if absent flags adapter \<noteq> [] then failed ''HTTP response classification lacks'' (absent flags adapter)
          else if absent required_era era \<noteq> [] then failed ''HTTP era selection lacks'' (absent required_era era)
          else if py_count era (str ''AF_MCP_CL_F_BARE_REFUSAL'') \<noteq> 1 then
            failed ''HTTP legacy fallback has more than one bare-refusal decision point'' []
          else okay ''only an unrecognized bare refusal enters legacy era selection'' []))"

section \<open>The curl engine\<close>

definition BLOCKING_CURL_CALLS_M9 :: "string list" where
  "BLOCKING_CURL_CALLS_M9 = [''curl_easy_perform'', ''curl_multi_perform'', ''curl_multi_wait'', ''curl_multi_poll'',
     ''curl_multi_fdset'']"

definition check_one_epoll_driven_curl_engine :: "repo \<Rightarrow> outcome" where
  "check_one_epoll_driven_curl_engine w =
     attempt (code_of_m9 w (str ''src/mcp/mcp_http_engine.asm'')) (\<lambda>engine.
     attempt (code_of_m9 w (str ''src/ffi/curl_shim.c'')) (\<lambda>shim.
       let required = [''af_curl_mcp_multi_new'', ''af_curl_multi_socket_action'', ''af_curl_multi_socket_timeout'',
             ''af_loop_add'', ''af_sys_timerfd_create'', ''CLOCK_MONOTONIC'', ''af_mcp_http_reap''];
           forbidden = filter (\<lambda>t. contains shim (str t)) BLOCKING_CURL_CALLS_M9;
           socket_callback = function_body_m9 engine (str ''af_mcp_http_on_socket'')
       in if absent required engine \<noteq> [] then failed ''MCP HTTP reactor lacks'' (absent required engine)
          else if forbidden \<noteq> [] then failed ''libcurl can own a second event loop'' (map str forbidden)
          else if contains shim (str ''pthread_create'') \<or> contains engine (str ''pthread_create'') then
            failed ''MCP HTTP introduced a worker thread'' []
          else if contains socket_callback (str ''af_sys_close'') then
            failed ''the MCP curl socket callback closes a libcurl-owned descriptor'' []
          else okay ''MCP curl multi is driven by the epoll/timerfd reactor of the daemon'' []))"

definition EXPECTED_DEFINES :: "(string \<times> string) list" where
  "EXPECTED_DEFINES = [(''AF_MCP_HTTP_MAX_SERVERS'', ''256''), (''AF_MCP_HTTP_XFERS_PER_SERVER'', ''2''),
     (''AF_MCP_HTTP_HEADER_DEFAULT'', ''(64*1024)''), (''AF_MCP_HTTP_BODY_DEFAULT'', ''(4*1024*1024)''),
     (''AF_MCP_HTTP_EVENT_DEFAULT'', ''(1024*1024)''), (''AF_MCP_HTTP_HEADER_HARD_MAX'', ''(1024*1024)''),
     (''AF_MCP_HTTP_BODY_HARD_MAX'', ''(64*1024*1024)''), (''AF_MCP_HTTP_EVENT_HARD_MAX'', ''(16*1024*1024)''),
     (''AF_MCP_HTTP_EVENT_COUNT_MAX'', ''1024''), (''AF_MCP_HTTP_URL_MAX'', ''4096''), (''AF_MCP_HTTP_SESSION_MAX'', ''4096'')]"

definition DEFINE_VALUE_RE :: "string \<Rightarrow> rx" where
  "DEFINE_VALUE_RE n = rx_seq [Bol, Star rx_space, rx_lit ''%define'', rx_plus rx_space, rx_lit n, rx_plus rx_space,
     Grp 1 (Cat rx_dot (LStar rx_dot)), Star rx_space, Eol]"

definition define_value :: "pystr \<Rightarrow> string \<Rightarrow> pystr" where
  "define_value public n =
     (case group1 (DEFINE_VALUE_RE n) public of
        Some v \<Rightarrow> rx_sub (rx_plus rx_space) [] v
      | None \<Rightarrow> str ''<missing>'')"

definition check_buffers_and_stream_cancellation :: "repo \<Rightarrow> outcome" where
  "check_buffers_and_stream_cancellation w =
     attempt (code_of_m9 w (str ''include/mcp_http.inc'')) (\<lambda>public.
     attempt (code_of_m9 w (str ''src/mcp/mcp_http_engine.asm'')) (\<lambda>engine.
     attempt (http_code w) (\<lambda>policy.
       let wrong = filter (\<lambda>(n, e). define_value public n \<noteq> str e) EXPECTED_DEFINES;
           engine_limits = [''AF_MCP_HTTP_MAX_TRANSFERS'', ''AF_MCP_HTTP_HEADER_HARD_MAX'', ''AF_MCP_HTTP_BODY_HARD_MAX'',
             ''AF_MCP_HTTP_EVENT_HARD_MAX'', ''HX_HEADER_BYTES'', ''HX_BODY_BYTES'', ''HX_HEADER_LIMIT'', ''HX_BODY_LIMIT'',
             ''AF_MCP_HTTP_F_DUP_HEADER'', ''AF_CURL_TAKE_ABORT'', ''af_buf_free_secure''];
           stream_contract = [''AF_MCP_HTTP_F_CONTENT_SSE'', ''AF_MCP_HTTP_F_FINAL_SEEN'', ''AF_MCP_HTTP_EVENT_COUNT_MAX'',
             ''HX_EVENT_LIMIT'', ''AF_E_MCP_PROTOCOL'', ''af_mcp_http_sse_consume'', ''af_mcp_http_transfer_cancel'']
       in if wrong \<noteq> [] then
            failed ''MCP HTTP public bounds changed'' (map (\<lambda>(n, e). str n @ str ''='' @ define_value public n) wrong)
          else if absent engine_limits engine \<noteq> [] then
            failed ''MCP HTTP engine does not enforce'' (absent engine_limits engine)
          else if absent stream_contract policy \<noteq> [] then
            failed ''request-scoped SSE/cancellation lacks'' (absent stream_contract policy)
          else
            attempt (code_of_m9 w (str ''src/mcp/mcp_rpc.asm'')) (\<lambda>rpc.
              if \<not> contains (function_body_m9 rpc (str ''af_mcp_cancel_timed_out'')) (str ''af_mcp_http_cancel_call'') then
                failed ''an expired HTTP call is not cancelled through the HTTP adapter'' []
              else okay ''HTTP tables, headers, bodies, SSE events, and cancellation are bounded'' []))))"

section \<open>Security and the cache\<close>

definition REQUIRED_SETTERS_M9 :: "string list" where
  "REQUIRED_SETTERS_M9 = [''af_curl_set_url'', ''af_curl_set_protocols'', ''af_curl_disable_proxy'',
     ''af_curl_set_tls_verify'', ''af_curl_set_follow_location'', ''af_curl_set_nosignal'',
     ''af_curl_set_connect_timeout_ms'', ''af_curl_set_timeout_ms'', ''af_curl_set_low_speed'',
     ''af_curl_set_accept_encoding'', ''af_curl_set_headers'']"

text \<open>\<open>policy[max(0, start - 500):start]\<close> for the first TLS call; the search cannot fail there.\<close>

definition tls_window_m9 :: "pystr \<Rightarrow> pystr" where
  "tls_window_m9 policy =
     (case rx_search (rx_call ''af_curl_set_tls_verify'') policy of
        Some m \<Rightarrow> py_slice policy (max 0 (match_start policy m - 500)) (match_start policy m)
      | None \<Rightarrow> [])"

definition check_security_options_and_c_boundary :: "repo \<Rightarrow> outcome" where
  "check_security_options_and_c_boundary w =
     attempt (http_code w) (\<lambda>policy.
       let missing = filter (\<lambda>n. \<not> rx_found (rx_call n) policy) REQUIRED_SETTERS_M9 in
       if missing \<noteq> [] then failed ''MCP HTTP leaves curl security options implicit'' (map str missing)
       else if contains (tls_window_m9 policy) (str ''MCP_ALLOW_INSECURE'') then
         failed ''allow_insecure_private_http can disable TLS certificate verification'' []
       else
         attempt (code_of_m9 w (str ''src/config/config_mcp.asm'')) (\<lambda>config.
         let config_required = [''af_cfg_url_check'', ''MCP_ALLOW_INSECURE'', ''af_cfg_load_auth''] in
         if absent config_required config \<noteq> [] then
           failed ''MCP HTTP config security validation lacks'' (absent config_required config)
         else if \<not> contains policy (str ''af_cfg_getenv'') \<or> \<not> contains policy (str ''AUTH_ENV'') then
           failed ''MCP HTTP credentials are not resolved from their SecretRef at use time'' []
         else
           attempt (code_of_m9 w (str ''src/ffi/curl_shim.c'')) (\<lambda>shim.
           let leaked = filter (\<lambda>t. contains shim (str t)) [''server/discover'', ''2026-07-28'', ''2025-11-25'',
                 ''MCP-Protocol-Version'', ''Mcp-Session-Id'', ''ttlMs'', ''cacheScope''] in
           if leaked \<noteq> [] then failed ''MCP protocol policy migrated into the C shim'' (map str leaked)
           else okay ''plaintext/redirect/proxy/TLS/auth policy stays explicit in assembly'' [])))"

definition check_cache_ttl_and_partitioning :: "repo \<Rightarrow> outcome" where
  "check_cache_ttl_and_partitioning w =
     attempt (code_of_m9 w (str ''include/mcp.inc'')) (\<lambda>public.
     attempt (code_of_m9 w (str ''src/mcp/mcp_era.asm'')) (\<lambda>era.
     attempt (code_of_m9 w (str ''src/mcp/mcp_supervisor.asm'')) (\<lambda>supervisor.
       let declared = [''MC_CACHE_SCOPE'', ''MC_CACHE_AUTH_HASH'', ''MC_CACHE_KEY_HASH'', ''AF_MCP_CACHE_TTL_MAX_MS''] in
       if absent declared public \<noteq> [] then failed ''MCP cache layout lacks'' (absent declared public)
       else
         attempt (http_code w) (\<lambda>http.
         let partition_uses = era @ nl @ supervisor @ nl @ http;
             single = filter (\<lambda>t. py_count partition_uses (str t) < 2) [''MC_CACHE_AUTH_HASH'', ''MC_CACHE_KEY_HASH''];
             ttl_tokens = [''AF_MCP_CACHE_TTL_MAX_MS'', ''MC_CACHE_SCOPE'', ''MC_FETCHED_NS'', ''MC_EXPIRES_NS'',
               ''af_monotonic_now'', ''af_mul_size'', ''af_add_size''];
             refresh = function_body_m9 supervisor (str ''af_mcp_sweep_child'')
         in if single \<noteq> [] then failed ''is not both committed and compared'' [str (hd single)]
            else if absent ttl_tokens era \<noteq> [] then
              failed ''transactional cache TTL commit lacks'' (absent ttl_tokens era)
            else case absent [''MC_FETCHED_NS'', ''MC_EXPIRES_NS'', ''af_mcp_refresh_inventory''] refresh of
              t # _ \<Rightarrow> failed ''lazy cache expiry does not use'' [t]
            | [] \<Rightarrow>
                if contains partition_uses (str ''CLOCK_REALTIME'') \<or> contains partition_uses (str ''af_realtime'') then
                  failed ''MCP cache expiry uses the wall clock'' []
                else
                  attempt (code_of_m9 w (str ''src/control/control_methods.asm'')) (\<lambda>control.
                    if contains control (str ''MC_CACHE_AUTH_HASH'') \<or> contains control (str ''MC_CACHE_KEY_HASH'') then
                      failed ''internal authorization cache fingerprints reach the control plane'' []
                    else okay ''cache TTL is monotonic and cache identity includes server/auth context'' [])))))"

section \<open>Fixtures and tests\<close>

definition fixture_path :: "string \<Rightarrow> pystr" where
  "fixture_path name = str ''tests/fixtures/mcp/http/'' @ str name"

definition EXPECTED_CODES :: "(string \<times> int) list" where
  "EXPECTED_CODES = [(''header_mismatch_error.json'', -32020), (''unsupported_version_error.json'', -32022),
     (''method_not_found_error.json'', -32601)]"

definition MARKERS :: "(string \<times> pystr list) list" where
  "MARKERS =
     [(''tests/test_mcp_http_modern.py'', map str [''mcp-protocol-version'', ''accept'', ''mcp-session-id'', ''last-event-id'']),
      (''tests/test_mcp_http_legacy.py'',
        [str ''mode='' @ [34] @ str ''legacy'' @ [34], str ''mcp-session-id'', str ''notifications/cancelled'']),
      (''tests/test_mcp_version_matrix.py'', map str [''unsupported'', ''header-mismatch'', ''method-not-found'', ''transient'']),
      (''tests/test_mcp_http_stream.py'', map str [''fragment_size=1'', ''eof_methods'', ''hang_methods'']),
      (''tests/test_mcp_http_security.py'',
        map str [''authorization'', ''redirect'', ''ALL_PROXY'', ''allow_insecure_private_http'', ''cache_scope'', ''ttl''])]"

text \<open>\<open>f"tests/{module.rsplit('.', 1)[-1]}.py"\<close>.\<close>

definition test_file_of :: "string \<Rightarrow> pystr" where
  "test_file_of m = str ''tests/'' @ last (split_str (str ''.'') (str m)) @ str ''.py''"

definition minimums_m9 :: "(pystr \<times> int) list" where
  "minimums_m9 = map (\<lambda>(n, m, k). (test_file_of m, k)) SUITES_M9"

definition nested :: "string \<Rightarrow> string \<Rightarrow> json \<Rightarrow> json \<Rightarrow> pyexn + json" where
  "nested a b dflt v = andthen (py_get (str a) (JObj []) v) (py_get (str b) dflt)"

text \<open>The number of test functions a source defines.\<close>

definition tests_in :: "pystr list \<Rightarrow> int" where
  "tests_in names = int (length (filter (\<lambda>n. startswith n (str ''test_'')) names))"

fun marker_loop :: "(pystr \<Rightarrow> pystr list option) \<Rightarrow> repo \<Rightarrow> (string \<times> pystr list) list \<Rightarrow> outcome" where
  "marker_loop fdefs w [] =
     okay ''all five suites and the protocol fixtures cover the M9 matrix'' [int (length FIXTURES)]"
| "marker_loop fdefs w ((rel, required) # rest) =
     reading w rel (\<lambda>source.
       case fdefs source of
         None \<Rightarrow> failed ''does not parse'' [str rel]
       | Some names \<Rightarrow>
           (case map_of minimums_m9 (str rel) of
              None \<Rightarrow> raised (KeyErr (str rel))
            | Some k \<Rightarrow>
                if tests_in names < k then failed ''has too few tests'' [str rel]
                else
                  (let missing = filter (\<lambda>t. \<not> contains source t) required in
                   if missing \<noteq> [] then failed ''lacks matrix cases'' (str rel # missing)
                   else marker_loop fdefs w rest)))"

text \<open>The loop over the expected error codes; the first wrong one ends the check.\<close>

fun code_loop :: "(string \<Rightarrow> json) \<Rightarrow> (string \<times> int) list \<Rightarrow> outcome \<Rightarrow> outcome" where
  "code_loop doc [] k = k"
| "code_loop doc ((name, expected) # rest) k =
     attempt (nested ''error'' ''code'' JNull (doc name)) (\<lambda>actual.
       if \<not> py_eq actual (JInt expected) then failed ''has a wrong error code'' [str name] else code_loop doc rest k)"

definition check_documents :: "(string \<Rightarrow> json) \<Rightarrow> outcome \<Rightarrow> outcome" where
  "check_documents doc k =
     code_loop doc EXPECTED_CODES
       (attempt (nested ''result'' ''supportedVersions'' (JArr []) (doc ''modern_discover_result.json'')) (\<lambda>versions.
        attempt (nested ''result'' ''protocolVersion'' JNull (doc ''legacy_initialize_result.json'')) (\<lambda>legacy.
        attempt (py_in (str ''2026-07-28'') versions) (\<lambda>modern_ok.
          if \<not> modern_ok \<or> \<not> py_eq legacy (JStr (str ''2025-11-25'')) then
            failed ''fixture protocol versions do not cover both supported eras'' []
          else
            attempt (py_in (str ''id'') (doc ''progress_notification.json'')) (\<lambda>correlated.
              if correlated then failed ''the progress notification fixture is incorrectly correlated'' [] else k)))))"

definition check_fixture_and_test_matrix :: "(pystr \<Rightarrow> pystr list option) \<Rightarrow> repo \<Rightarrow> outcome" where
  "check_fixture_and_test_matrix fdefs w =
     (let found = map path_name (glob w (str ''tests/fixtures/mcp/http/*.json''));
          missing = lacking FIXTURES found
      in if missing \<noteq> [] then failed ''M9 fixture matrix is missing'' missing
         else
           (case collect_all (load_json w) (map fixture_path FIXTURES) of
              Inl e \<Rightarrow> failed ''M9 fixture is not valid UTF-8 JSON'' []
            | Inr docs \<Rightarrow>
                check_documents (\<lambda>n. the (map_of (zip FIXTURES docs) n)) (marker_loop fdefs w MARKERS)))"

section \<open>The Makefile\<close>

definition targets_m9 :: "string list" where
  "targets_m9 = [''test-mcp-http-modern'', ''test-mcp-http-legacy'', ''test-mcp-version-matrix'',
     ''test-mcp-http-stream'', ''test-mcp-http-security'']"

definition check_make_wiring :: "repo \<Rightarrow> outcome" where
  "check_make_wiring w =
     reading w ''Makefile'' (\<lambda>makefile.
       let recipe = (\<lambda>t. make_recipe_m9 makefile (str t));
           all_targets = targets_m9 @ [''gate-m9''];
           missing = filter (\<lambda>t. recipe t = []) all_targets;
           focused = map recipe targets_m9;
           modules = map (\<lambda>(n, m, k). m) SUITES_M9;
           unfocused = filter (\<lambda>(t, m). \<not> contains (recipe t) (str m) \<or> contains (recipe t) (str ''unittest discover''))
             (zip targets_m9 modules);
           logical = logical_make_lines makefile;
           unmet = lacking ([''gate-m8'', ''valgrind-mcp''] @ targets_m9) (dependencies_of ''gate-m9'' logical);
           phony = first_starting (str ''.PHONY:'') logical
       in if missing \<noteq> [] then failed ''Makefile is missing M9 recipes'' (map str missing)
          else if length (remdups focused) \<noteq> length focused then
            failed ''two M9 behavioural targets alias the same broad suite'' []
          else if unfocused \<noteq> [] then failed ''is not focused on'' [str (fst (hd unfocused)), str (snd (hd unfocused))]
          else if unmet \<noteq> [] then failed ''gate-m9 dependencies are incomplete'' unmet
          else if \<not> contains (recipe ''gate-m9'') (str ''scripts/gate_m9.py'') \<or>
              \<not> contains (recipe ''gate-m9'') (str ''--skip-suites'') then
            failed ''gate-m9 does not run its static audit after the focused suites'' []
          else if absent all_targets phony \<noteq> [] then failed ''M9 targets are not phony'' (absent all_targets phony)
          else if absent all_targets (recipe ''help'') \<noteq> [] then failed ''Makefile help omits an M9 target'' []
          else okay ''all five HARNESS targets and gate-m9 are distinct and fully wired'' [])"

section \<open>The gate\<close>

definition run_suite_m9 :: "repo \<Rightarrow> pystr \<Rightarrow> pystr \<Rightarrow> int \<Rightarrow> outcome" where
  "run_suite_m9 w name module minimum = counted_suite w name module minimum"

interpretation suite9: floor_suite run_suite_m9
  by unfold_locales (simp add: run_suite_m9_def counted_suite_verdict)

definition static_checks_m9 :: "(pystr \<Rightarrow> pystr list option) \<Rightarrow> repo \<Rightarrow> outcome list" where
  "static_checks_m9 fdefs w =
     [check_sources_and_build w, check_transport_dispatch w, check_modern_and_legacy_are_isolated w,
      check_version_and_fallback_classification w, check_one_epoll_driven_curl_engine w,
      check_buffers_and_stream_cancellation w, check_security_options_and_c_boundary w,
      check_cache_ttl_and_partitioning w, check_fixture_and_test_matrix fdefs w, check_make_wiring w]"

definition checks_m9 :: "(pystr \<Rightarrow> pystr list option) \<Rightarrow> bool \<Rightarrow> repo \<Rightarrow> outcome list" where
  "checks_m9 fdefs skip_suites w = static_checks_m9 fdefs w
     @ (if skip_suites then [] else map (\<lambda>(name, m, k). run_suite_m9 w (str name) (str m) k) SUITES_M9)"

definition main_m9 :: "(pystr \<Rightarrow> pystr list option) \<Rightarrow> bool \<Rightarrow> repo \<Rightarrow> int" where
  "main_m9 fdefs skip_suites w = gate_exit (run_all (checks_m9 fdefs skip_suites w))"

interpretation gate9: accumulating_gate "checks_m9 fdefs skip" "main_m9 fdefs skip" for fdefs skip
  by unfold_locales (rule main_m9_def)

text \<open>
  The gate of milestone 9 exits with 0 exactly when every static check passed and, unless
  the suites were skipped, each of the five suites exited with 0, ran at least its floor of
  tests and skipped none; for each of them that is the contract of a strict suite.
\<close>

lemma gate_m9_verdict:
  "main_m9 fdefs skip w =
     (if list_all passed (static_checks_m9 fdefs w) \<and>
         (skip \<or> list_all (\<lambda>(name, m, k). ran_at_least w (suite_argv w [str m]) k \<and>
            ran_and_skipped_none w (suite_argv w [str m])) SUITES_M9)
      then 0 else 1)"
proof -
  have pos: "list_all (\<lambda>(name, m, k). 0 < k) SUITES_M9" by (simp add: SUITES_M9_def)
  have "main_m9 fdefs skip w = 0 \<longleftrightarrow> list_all passed (static_checks_m9 fdefs w) \<and>
      (skip \<or> list_all (\<lambda>(name, m, k). ran_at_least w (suite_argv w [str m]) k) SUITES_M9)"
    unfolding gate9.exit_zero list_all_iff
    by (cases skip) (simp_all add: checks_m9_def ball_Un split_beta suite9.floor)
  moreover have "list_all (\<lambda>(name, m, k). ran_at_least w (suite_argv w [str m]) k) SUITES_M9 \<longleftrightarrow>
      list_all (\<lambda>(name, m, k). ran_at_least w (suite_argv w [str m]) k \<and>
        ran_and_skipped_none w (suite_argv w [str m])) SUITES_M9"
    using pos ran_at_least_strict by (fastforce simp: list_all_iff)
  ultimately show ?thesis using gate9.exit_code [of fdefs skip w] by auto
qed

end
