(* ===== verification/Gate_M10.thy ===== *)
theory Gate_M10
  imports Gate_Core Py_Value
begin

text \<open>
  \<open>scripts/gate_m10.py\<close>, the gate of the terminal client and the control CLI: the fixtures and
  golden screens, the Makefile and CI wiring, the source invariants of the console, the link
  boundaries of the binaries and the suites.

  Parameters of the checks: \<open>ast.parse\<close> as \<open>fdefs\<close> (the names of the functions a Python
  source defines, \<open>None\<close> for a syntax error), the module \<open>unicodedata\<close> and \<open>os.access\<close>.
\<close>

section \<open>Tables\<close>

definition SUITES_M10 :: "(string \<times> string \<times> int) list" where
  "SUITES_M10 = [(''TUI layout'', ''tests.test_tui_layout'', 9), (''TUI keyboard'', ''tests.test_tui_keyboard'', 13),
     (''TUI monochrome'', ''tests.test_tui_mono'', 4), (''TUI terminal restore'', ''tests.test_tui_terminal_restore'', 5),
     (''CLI contract'', ''tests.test_cli_contract'', 10)]"

definition TARGETS :: "string list" where
  "TARGETS = [''test-tui-layout'', ''test-tui-keyboard'', ''test-tui-mono'', ''test-tui-terminal-restore'', ''test-cli-contract'']"

definition REQUIRED_FILES :: "string list" where
  "REQUIRED_FILES = [''tests/tui_harness.py'', ''tests/mock_control_server.py'', ''tests/test_tui_layout.py'',
     ''tests/test_tui_keyboard.py'', ''tests/test_tui_mono.py'', ''tests/test_tui_terminal_restore.py'',
     ''tests/test_cli_contract.py'', ''tests/fixtures/tui/control_scenario.json'',
     ''tests/fixtures/tui/escape_scenario.json'', ''tests/fixtures/tui/golden_manifest.json'',
     ''tests/fixtures/tui/screen_expectations.json'', ''tests/fixtures/tui/keyboard_tasks.json'',
     ''tests/fixtures/tui/status_catalog.json'', ''tests/fixtures/cli/control_cases.json'',
     ''tests/fixtures/cli/providers_table.txt'']"

section \<open>Golden screens\<close>

text \<open>\<open>\b\d{2}:\d{2}:\d{2} UTC\b\<close>.\<close>

definition CLOCK_RE :: rx where
  "CLOCK_RE = rx_seq [WordB, rx_times 2 rx_digit, rx_lit '':'', rx_times 2 rx_digit, rx_lit '':'', rx_times 2 rx_digit,
     rx_lit '' UTC'', WordB]"

definition canonical_lines :: "pystr \<Rightarrow> pystr list" where
  "canonical_lines t =
     (let t = replace (replace t [13, 10] nl) [13] nl;
          t = rx_sub CLOCK_RE (str ''<TIME UTC>'') t
      in rev (dropWhile (\<lambda>l. l = []) (rev (map (rstrip_of (\<lambda>c. c = 32)) (split_str nl t)))))"

definition canonical_m10 :: "pystr \<Rightarrow> pystr" where
  "canonical_m10 t = (let ls = canonical_lines t in join nl ls @ (if ls = [] then [] else nl))"

text \<open>The module \<open>unicodedata\<close>.\<close>

record unicodedata =
  combining :: "cp \<Rightarrow> int"
  category :: "cp \<Rightarrow> string"
  east_asian_width :: "cp \<Rightarrow> string"

text \<open>\<open>None\<close> is the \<open>ValueError\<close> for a control character.\<close>

fun width_from :: "unicodedata \<Rightarrow> int \<Rightarrow> pystr \<Rightarrow> int option" where
  "width_from ucd width [] = Some width"
| "width_from ucd width (c # cs) =
     (if combining ucd c \<noteq> 0 then width_from ucd width cs
      else if take 1 (category ucd c) = ''C'' then None
      else width_from ucd (width + (if east_asian_width ucd c \<in> {''W'', ''F''} then 2 else 1)) cs)"

definition display_width :: "unicodedata \<Rightarrow> pystr \<Rightarrow> int option" where
  "display_width ucd t = width_from ucd 0 t"

section \<open>Fixtures\<close>

definition module_file :: "string \<Rightarrow> pystr" where
  "module_file m = replace (str m) (str ''.'') (str ''/'') @ str ''.py''"

text \<open>The floor on the number of tests of each suite, then the rest of the check.\<close>

fun test_floors :: "(pystr \<Rightarrow> pystr list option) \<Rightarrow> repo \<Rightarrow> (string \<times> string \<times> int) list \<Rightarrow> outcome \<Rightarrow> outcome" where
  "test_floors fdefs w [] k = k"
| "test_floors fdefs w ((n, m, minimum) # rest) k =
     reading_path w (module_file m) (\<lambda>source.
       case fdefs source of
         None \<Rightarrow> failed ''does not parse'' [module_file m]
       | Some names \<Rightarrow>
           if int (length (filter (\<lambda>f. startswith f (str ''test_'')) names)) < minimum
           then failed ''has too few tests'' [module_file m]
           else test_floors fdefs w rest k)"

definition json_files :: "repo \<Rightarrow> pystr list" where
  "json_files w = sort_paths (glob w (str ''tests/fixtures/tui/*.json'')) @
     sort_paths (glob w (str ''tests/fixtures/cli/*.json''))"

text \<open>\<open>documents[name]\<close>, the dictionary by file name; the last file of a name counts.\<close>

definition document :: "(pystr \<times> json) list \<Rightarrow> string \<Rightarrow> pyexn + json" where
  "document docs n = (case map_of (rev docs) (str n) of Some v \<Rightarrow> Inr v | None \<Rightarrow> Inl (KeyErr (str n)))"

definition GOLDEN_SIZES :: "(int \<times> int) list" where
  "GOLDEN_SIZES = [(80, 24), (100, 30), (140, 40)]"

text \<open>The width and height of a manifest entry; the pair must be hashable.\<close>

definition entry_size :: "json \<Rightarrow> pyexn + json \<times> json" where
  "entry_size e = andthen (json_get (str ''width'') e) (\<lambda>x. andthen (json_get (str ''height'') e) (\<lambda>y.
     if hashable x \<and> hashable y then Inr (x, y) else Inl TypeErr))"

definition size_eq :: "json \<times> json \<Rightarrow> int \<times> int \<Rightarrow> bool" where
  "size_eq s n \<longleftrightarrow> py_eq (fst s) (JInt (fst n)) \<and> py_eq (snd s) (JInt (snd n))"

definition sizes_match :: "(json \<times> json) list \<Rightarrow> bool" where
  "sizes_match sizes \<longleftrightarrow> list_all (\<lambda>s. list_ex (size_eq s) GOLDEN_SIZES) sizes \<and>
     list_all (\<lambda>n. list_ex (\<lambda>s. size_eq s n) sizes) GOLDEN_SIZES"

text \<open>The integers a size that passed the comparison is equal to.\<close>

definition limits_of :: "json \<times> json \<Rightarrow> int \<times> int" where
  "limits_of s = (case List.find (size_eq s) GOLDEN_SIZES of Some n \<Rightarrow> n | None \<Rightarrow> (0, 0))"

definition golden_path :: "pystr \<Rightarrow> pystr" where
  "golden_path file = (if startswith file (str ''/'') then file else str ''tests/fixtures/tui/goldens/'' @ file)"

fun widths_ok :: "unicodedata \<Rightarrow> int \<Rightarrow> pystr list \<Rightarrow> bool option" where
  "widths_ok ucd limit [] = Some True"
| "widths_ok ucd limit (l # ls) =
     (case display_width ucd l of
        None \<Rightarrow> None
      | Some n \<Rightarrow> map_option (\<lambda>rest. n \<le> limit \<and> rest) (widths_ok ucd limit ls))"

definition check_golden :: "unicodedata \<Rightarrow> int \<times> int \<Rightarrow> pystr \<Rightarrow> outcome \<Rightarrow> outcome" where
  "check_golden ucd limits text k =
     (if contains text [27] then failed ''layout golden contains a terminal escape'' []
      else if snd limits < int (length (splitlines text)) then failed ''exceeds its rows'' []
      else case widths_ok ucd (fst limits) (splitlines text) of
        None \<Rightarrow> failed ''contains a control'' []
      | Some False \<Rightarrow> failed ''contains a row wider than its columns'' []
      | Some True \<Rightarrow> k)"

fun check_goldens :: "unicodedata \<Rightarrow> repo \<Rightarrow> json list \<Rightarrow> outcome \<Rightarrow> outcome" where
  "check_goldens ucd w [] k = k"
| "check_goldens ucd w (e # es) k =
     attempt (json_get (str ''file'') e) (\<lambda>file.
       case file of
         JStr f \<Rightarrow>
           if \<not> is_file w (golden_path f) then failed ''missing layout golden'' [golden_path f]
           else reading_path w (golden_path f) (\<lambda>t.
             attempt (entry_size e) (\<lambda>s. check_golden ucd (limits_of s) (canonical_m10 t) (check_goldens ucd w es k)))
       | _ \<Rightarrow> raised TypeErr)"

section \<open>Screens and risk actions\<close>

definition EXPECTED_SCREENS :: "string list" where
  "EXPECTED_SCREENS = [''overview'', ''providers'', ''routes'', ''requests'', ''mcp'', ''logs'', ''settings'']"

text \<open>\<open>set(v) == expected\<close> for a set of texts.\<close>

definition is_text_set :: "json list \<Rightarrow> string list \<Rightarrow> bool" where
  "is_text_set vs expected \<longleftrightarrow> list_all (\<lambda>v. list_ex (\<lambda>n. v = JStr (str n)) expected) vs \<and>
     list_all (\<lambda>n. list_ex (\<lambda>v. v = JStr (str n)) vs) expected"

definition is_risk_level :: "json \<Rightarrow> bool" where
  "is_risk_level v \<longleftrightarrow> list_ex (\<lambda>n. py_eq v (JInt n)) [2, 3, 4]"

definition unconfirmed :: "json \<Rightarrow> bool" where
  "unconfirmed v \<longleftrightarrow> v = JNull \<or> v = JStr [] \<or> v = JStr (str ''none'')"

text \<open>The level of an action with whether it lacks a confirmation that its level demands.\<close>

definition action_risk :: "json \<Rightarrow> pyexn + json \<times> bool" where
  "action_risk a = andthen (py_get (str ''level'') JNull a) (\<lambda>level.
     andthen (py_get (str ''confirmation'') JNull a) (\<lambda>c. Inr (level, is_risk_level level \<and> unconfirmed c)))"

definition SOURCE_NAMES :: "(string \<times> string) list" where
  "SOURCE_NAMES =
     [(''AF_TUI_ACTION_PROVIDER_ENABLE'', ''provider.enable''), (''AF_TUI_ACTION_PROVIDER_DISABLE'', ''provider.disable''),
      (''AF_TUI_ACTION_MCP_START'', ''mcp.start''), (''AF_TUI_ACTION_MCP_STOP'', ''mcp.stop''),
      (''AF_TUI_ACTION_MCP_RESTART'', ''mcp.restart''), (''AF_TUI_ACTION_MCP_RESET_CRASH_LOOP'', ''mcp.reset_crash_loop''),
      (''AF_TUI_ACTION_CONFIG_RELOAD'', ''config.reload''), (''AF_TUI_ACTION_MCP_TOOL_TEST'', ''mcp.tool_test''),
      (''AF_TUI_ACTION_ROUTE_MUTATE'', ''route.mutate''), (''AF_TUI_ACTION_LISTENER_NONLOOPBACK'', ''listener.non_loopback''),
      (''AF_TUI_ACTION_MULTI_SERVER_STOP'', ''mcp.stop_many''), (''AF_TUI_ACTION_DB_RESET'', ''database.reset'')]"

definition ACTION_RE :: rx where
  "ACTION_RE = rx_seq [Bol, Star rx_space, rx_lit ''TUI_ACTION'', rx_plus rx_space,
     Grp 1 (Cat (rx_lit ''AF_TUI_ACTION_'') (rx_plus (Cls False [(65, 90), (48, 57), (95, 95)]))), rx_lit '','', Star rx_space,
     rx_lit ''AF_TUI_RISK_'', Grp 2 (Cls False [(50, 52)]), rx_lit '','', Star rx_space, Grp 3 (Cls False [(48, 49)]), rx_lit '','']"

definition source_rows :: "pystr \<Rightarrow> (pystr \<times> pystr \<times> pystr) list" where
  "source_rows s = map (\<lambda>x. (group_of 1 (snd x), group_of 2 (snd x), group_of 3 (snd x))) (rx_finditer ACTION_RE s)"

text \<open>The matrix of the source: identifier to level and availability; the last row of a name counts.\<close>

definition source_matrix :: "(pystr \<times> pystr \<times> pystr) list \<Rightarrow> (pystr \<times> int \<times> bool) list" where
  "source_matrix rows = map (\<lambda>(n, i). (str i,
     case map_of (rev rows) (str n) of Some (l, a) \<Rightarrow> (int_of l, a = str ''1'') | None \<Rightarrow> (0, False))) SOURCE_NAMES"

definition action_row :: "json \<Rightarrow> pyexn + json \<times> json \<times> json" where
  "action_row a = andthen (json_get (str ''id'') a) (\<lambda>i. andthen (json_get (str ''level'') a) (\<lambda>l.
     andthen (json_get (str ''available'') a) (\<lambda>v. if hashable i then Inr (i, l, v) else Inl TypeErr)))"

definition matrices_agree :: "(json \<times> json \<times> json) list \<Rightarrow> (pystr \<times> int \<times> bool) list \<Rightarrow> bool" where
  "matrices_agree fixture source \<longleftrightarrow> length (py_dedup (map fst fixture)) = length fixture \<and> length fixture = length source \<and>
     list_all (\<lambda>(i, l, a). list_ex (\<lambda>(j, m, b). j = JStr i \<and> py_eq m (JInt l) \<and> py_eq b (JBool a)) fixture) source"

text \<open>\<open>sk-[A-Za-z0-9_-]{12,}|Bearer\s+[A-Za-z0-9._-]+\<close>.\<close>

definition SECRET_RE :: rx where
  "SECRET_RE =
     (let key = Cls False [(65, 90), (97, 122), (48, 57), (95, 95), (45, 45)];
          token = Cls False [(65, 90), (97, 122), (48, 57), (46, 46), (95, 95), (45, 45)]
      in Alt (rx_seq [rx_lit ''sk-'', rx_times 12 key, Star key])
             (rx_seq [rx_lit ''Bearer'', rx_plus rx_space, rx_plus token]))"

definition check_blob :: "repo \<Rightarrow> outcome" where
  "check_blob w =
     attempt (read_all w (json_files w)) (\<lambda>texts.
       if rx_found SECRET_RE (join nl (map snd texts)) then failed ''M10 fixtures contain credential-shaped values'' []
       else okay ''five focused suites and deterministic M10 fixture matrix'' [])"

definition check_action_matrix :: "repo \<Rightarrow> json list \<Rightarrow> outcome" where
  "check_action_matrix w actions =
     reading w ''src/tui/actions.asm'' (\<lambda>source.
       let rows = source_rows source in
       if sorted_set (map fst rows) \<noteq> sorted_set (map (\<lambda>n. str (fst n)) SOURCE_NAMES) then
         failed ''Level 2-4 action source catalogue drifted from the fixture mapping'' []
       else case collect_all action_row actions of
         Inl (KeyErr k) \<Rightarrow> failed ''risk action fixture is missing'' [k]
       | Inl e \<Rightarrow> raised e
       | Inr fixture \<Rightarrow>
           if \<not> matrices_agree fixture (source_matrix rows) then
             failed ''risk action fixture does not exactly match source ID/level/availability'' []
           else check_blob w)"

definition check_actions :: "repo \<Rightarrow> json \<Rightarrow> outcome" where
  "check_actions w tasks =
     attempt (andthen (py_get (str ''risk_actions'') (JArr []) tasks) py_iter) (\<lambda>actions.
     attempt (collect_all action_risk actions) (\<lambda>risks.
       if \<not> list_all (\<lambda>(l, u). hashable l) risks then raised TypeErr
       else if list_ex snd risks \<or> \<not> list_all (\<lambda>n. list_ex (\<lambda>(l, u). py_eq l (JInt n)) risks) [2, 3, 4] then
         failed ''Level 2-4 confirmation fixture is incomplete'' []
       else check_action_matrix w actions))"

definition check_screens :: "repo \<Rightarrow> (pystr \<times> json) list \<Rightarrow> outcome" where
  "check_screens w docs =
     attempt (andthen (document docs ''screen_expectations.json'') py_iter) (\<lambda>screens.
       if \<not> list_all hashable screens then raised TypeErr
       else if \<not> is_text_set screens EXPECTED_SCREENS then failed ''screen fixture matrix is incomplete'' []
       else attempt (document docs ''keyboard_tasks.json'') (check_actions w))"

definition check_documents_m10 :: "unicodedata \<Rightarrow> repo \<Rightarrow> (pystr \<times> json) list \<Rightarrow> outcome" where
  "check_documents_m10 ucd w docs =
     attempt (andthen (document docs ''golden_manifest.json'') py_iter) (\<lambda>manifest.
     attempt (collect_all entry_size manifest) (\<lambda>sizes.
       if \<not> sizes_match sizes then failed ''golden size matrix is wrong'' []
       else check_goldens ucd w manifest (check_screens w docs)))"

definition check_test_and_fixture_matrix_m10 :: "(pystr \<Rightarrow> pystr list option) \<Rightarrow> unicodedata \<Rightarrow> repo \<Rightarrow> outcome" where
  "check_test_and_fixture_matrix_m10 fdefs ucd w =
     (let missing = sorted_set (filter (\<lambda>p. \<not> is_file w p) (map str REQUIRED_FILES)) in
      if missing \<noteq> [] then failed ''missing M10 test assets'' missing
      else test_floors fdefs w SUITES_M10
        (case collect_all (load_json w) (json_files w) of
           Inl e \<Rightarrow> failed ''M10 fixture is not valid UTF-8 JSON'' []
         | Inr vs \<Rightarrow> check_documents_m10 ucd w (zip (map path_name (json_files w)) vs)))"

section \<open>Make and CI\<close>

definition check_make_and_ci_wiring :: "repo \<Rightarrow> outcome" where
  "check_make_and_ci_wiring w =
     reading w ''Makefile'' (\<lambda>makefile.
       let recipe = (\<lambda>t. make_recipe_m10 makefile (str t));
           all_targets = TARGETS @ [''gate-m10''];
           missing = filter (\<lambda>t. recipe t = []) all_targets;
           unfocused = filter (\<lambda>(t, n, m, k). \<not> contains (recipe t) (str m) \<or> contains (recipe t) (str ''unittest discover''))
             (zip TARGETS SUITES_M10);
           logical = logical_make_lines_m10 makefile;
           unmet = lacking (''gate-m9'' # TARGETS) (dependencies_of ''gate-m10'' logical)
       in if missing \<noteq> [] then failed ''Makefile is missing M10 recipes'' (map str missing)
          else if unfocused \<noteq> [] then failed ''is not focused'' [str (fst (hd unfocused))]
          else if unmet \<noteq> [] then failed ''gate-m10 dependencies are incomplete'' unmet
          else if \<not> contains (recipe ''gate-m10'') (str ''scripts/gate_m10.py'') \<or>
              \<not> contains (recipe ''gate-m10'') (str ''--skip-suites'') then
            failed ''gate-m10 must run its static audit after the focused suites'' []
          else if absent all_targets (first_starting (str ''.PHONY:'') logical) \<noteq> [] then
            failed ''one or more M10 Make targets are not phony'' []
          else if absent all_targets (recipe ''help'') \<noteq> [] then failed ''Makefile help omits an M10 target'' []
          else if \<not> contains makefile (str ''asmflowctl'') then
            failed ''Makefile does not build the separate asmflowctl binary'' []
          else
            reading w ''.github/workflows/ci.yml'' (\<lambda>ci.
              if \<not> contains ci (str ''make gate-m10'') then failed ''CI does not run make gate-m10'' []
              else okay ''five HARNESS targets, gate-m10, asmflowctl, and CI are wired'' []))"

section \<open>Source invariants\<close>

text \<open>\<open>Path.with_suffix\<close>.\<close>

definition with_suffix :: "pystr \<Rightarrow> pystr \<Rightarrow> pystr" where
  "with_suffix p s = take (length p - length (path_suffix p)) p @ s"

definition console_paths :: "repo \<Rightarrow> pystr list" where
  "console_paths w = sort_paths (glob w (str ''src/tui/**/*.asm'')) @
     (if path_exists w (str ''src/cli'') then sort_paths (glob w (str ''src/cli/**/*.asm'')) else [])"

definition all_console_assembly :: "repo \<Rightarrow> pyexn + pystr" where
  "all_console_assembly w =
     map_sum id (\<lambda>ts. join nl (map (\<lambda>(p, t). strip_asm_comments_m10 t) ts)) (read_all w (console_paths w))"

text \<open>A call at the start of a line, in any case: \<open>(?mi)^\s*call\s+...\<close>.\<close>

definition line_call :: "rx list \<Rightarrow> rx" where
  "line_call rs = rx_seq ([Bol, Star rx_space, rx_ilit ''call'', rx_plus rx_space] @ rs)"

definition BOUNDARY_RE :: rx where
  "BOUNDARY_RE = Alt (rx_seq [WordB, rx_ilit ''sqlite3'', Star rx_word, WordB])
     (rx_seq [WordB, rx_ilit ''af_'', rx_alts (map rx_ilit [''db'', ''repo'', ''storage'']), rx_ilit ''_'', rx_plus rx_word])"

definition UNBOUNDED_RE :: rx where
  "UNBOUNDED_RE = line_call [rx_opt (Alt (Cat (rx_ilit ''mv'') (rx_opt (rx_ilit ''w''))) (rx_ilit ''w'')),
     rx_alts (map rx_ilit [''addstr'', ''printw'']), WordB]"

definition BOUNDED_RE :: rx where
  "BOUNDED_RE = line_call [Star rx_word, rx_alts (map rx_ilit [''waddnstr'', ''waddnwstr'', ''addnstr'']), WordB]"

definition HANDLER_RE :: rx where
  "HANDLER_RE = rx_seq [Bol, Star rx_space, rx_ilit ''global'', rx_plus rx_space,
     Grp 1 (rx_seq [Star rx_word, rx_alts (map rx_ilit [''signal'', ''sigint'', ''sigwinch'']), Star rx_word])]"

definition NEXT_GLOBAL_RE :: rx where
  "NEXT_GLOBAL_RE = rx_seq [Bol, Star rx_space, rx_ilit ''global'', rx_plus rx_space]"

definition UNSAFE_RE :: rx where
  "UNSAFE_RE = line_call [Grp 1 (rx_seq [Star rx_word,
     rx_alts (map rx_ilit [''endwin'', ''curs'', ''wadd'', ''malloc'', ''alloc'', ''json'', ''connect'', ''recv'', ''send'']),
     Star rx_word])]"

text \<open>The body of a handler: from its label to the next exported symbol.\<close>

definition handler_body :: "pystr \<Rightarrow> pos \<times> mst \<Rightarrow> pystr" where
  "handler_body code m =
     (let start = py_find_from code (group_of 1 (snd m) @ str '':'') (match_end code m);
          tail = (if 0 \<le> start then py_from code start else [])
      in case rx_search NEXT_GLOBAL_RE (py_from tail 1) of
        None \<Rightarrow> tail
      | Some g \<Rightarrow> py_slice tail 0 (match_start (py_from tail 1) g + 1))"

definition unsafe_calls :: "pystr \<Rightarrow> pos \<times> mst \<Rightarrow> pystr list" where
  "unsafe_calls code m = rx_findall 1 UNSAFE_RE (handler_body code m)"

text \<open>The calls of the submit path must follow each other; each search starts at the end of the last.\<close>

fun ordered_calls :: "pystr \<Rightarrow> int \<Rightarrow> string list \<Rightarrow> string option" where
  "ordered_calls handler cursor [] = None"
| "ordered_calls handler cursor (n # ns) =
     (case rx_search (line_call [rx_ilit n, WordB]) (py_from handler cursor) of
        None \<Rightarrow> Some n
      | Some m \<Rightarrow> ordered_calls handler (cursor + match_end (py_from handler cursor) m) ns)"

definition SUBMIT_CALLS :: "string list" where
  "SUBMIT_CALLS = [''af_tui_action_descriptor'', ''af_tui_action_available'', ''af_tui_action_requires_confirmation'',
     ''_af_tuir_prepare_confirmation'']"

text \<open>The key handler: one dispatch, after both modal intercepts, and the ordered submit path.\<close>

definition check_key_handler :: "pystr \<Rightarrow> outcome \<Rightarrow> outcome" where
  "check_key_handler runtime k =
     (let handler_start = py_find runtime (str ''_af_tuir_handle_key:'');
          handler_end = py_find_from runtime (str ''_af_tuir_poll_connection:'') handler_start;
          handler = py_slice runtime handler_start handler_end;
          confirmation_at = py_find handler (str ''cmp     qword [tui_confirmation]'');
          command_at = py_find handler (str ''cmp     qword [tui_command_active]'');
          submit = py_find handler (str ''.submit_command:'')
      in if handler_start < 0 \<or> handler_end < 0 then failed ''TUI key handler boundaries are missing'' []
         else case rx_finditer (line_call [rx_ilit ''af_tui_keymap'', WordB]) handler of
           [call] \<Rightarrow>
             (let keymap_at = match_start handler call in
              if \<not> (0 \<le> confirmation_at \<and> confirmation_at < keymap_at \<and> 0 \<le> command_at \<and> command_at < keymap_at) then
                failed ''confirmation/command modal intercepts must precede normal key mapping'' []
              else if submit < 0 then failed ''TUI command submit path is missing'' []
              else case ordered_calls handler submit SUBMIT_CALLS of
                Some n \<Rightarrow> failed ''mcp-restart confirmation path omits'' [str n]
              | None \<Rightarrow> k)
         | _ \<Rightarrow> failed ''normal TUI input must have exactly one af_tui_keymap dispatch'' [])"

definition check_select_prev :: "pystr \<Rightarrow> outcome \<Rightarrow> outcome" where
  "check_select_prev model k =
     (let prev_start = py_find model (str ''af_tui_model_select_prev:'');
          prev_end = py_find_from model (str ''af_tui_model_selected_id:'') prev_start;
          prev_body = py_slice model prev_start prev_end;
          clamp = py_find prev_body (str ''cmp     r14, r13'');
          normalize = py_find_from prev_body (str ''xor     r14d, r14d'') clamp;
          decrement = py_find_from prev_body (str ''dec     r14'') normalize;
          row_offset = py_find_from prev_body (str ''imul    rax, TR_SIZE'') decrement
      in if prev_start < 0 \<or> prev_end < 0 then failed ''model has no bounded select-prev implementation'' []
         else if \<not> (0 \<le> clamp \<and> clamp < normalize \<and> normalize < decrement \<and> decrement < row_offset) then
           failed ''select-prev does not clamp an invalid index before row arithmetic'' []
         else k)"

definition build_text :: "repo \<Rightarrow> pystr \<Rightarrow> pyexn + pystr" where
  "build_text w p = (case map_of (build_tree w) p of
     Some (File b m) \<Rightarrow> Inr (universal_newlines (utf8_decode_ignore b)) | _ \<Rightarrow> Inl (OsError (build_path w p)))"

definition CLI_ONLY :: "string list" where
  "CLI_ONLY = [''src/tui/ctl_run.asm'', ''src/tui/entry_ctl.asm'', ''src/tui/table_output.asm'']"

text \<open>The loop over the CLI sources: a leaked object ends the check, missing ones are collected.\<close>

fun cli_objects :: "repo \<Rightarrow> pystr \<Rightarrow> pystr \<Rightarrow> pystr list \<Rightarrow> string list \<Rightarrow> outcome" where
  "cli_objects w tui_map cli_map missing [] =
     (if missing \<noteq> [] then failed ''CLI assembly omitted from asmflowctl link map'' missing
      else okay ''terminal cleanup, confirmation, bounded rendering, and source boundaries'' [])"
| "cli_objects w tui_map cli_map missing (src # rest) =
     (let obj = with_suffix (str src) (str ''.o'');
          missing = (if \<not> is_file w (str src) \<or> \<not> contains cli_map obj then missing @ [str src] else missing)
      in if contains tui_map obj then failed ''CLI-only object leaked into asmflow-tui'' [str src]
         else cli_objects w tui_map cli_map missing rest)"

definition check_link_maps :: "repo \<Rightarrow> outcome" where
  "check_link_maps w =
     (let tui = str ''debug/asmflow-tui.map''; cli = str ''debug/asmflowctl.map'' in
      if \<not> build_is_file w tui \<or> \<not> build_is_file w cli then failed ''missing M10 link maps'' []
      else attempt (build_text w tui) (\<lambda>tui_text. attempt (build_text w cli) (\<lambda>cli_text.
        let tui_map = replace tui_text [92] (str ''/'');
            cli_map = replace cli_text [92] (str ''/'');
            sources = filter (\<lambda>p. p \<notin> set (map str CLI_ONLY)) (sort_paths (glob w (str ''src/tui/**/*.asm'')));
            missing = filter (\<lambda>p. \<not> contains tui_map (with_suffix p (str ''.o''))) sources
        in if missing \<noteq> [] then failed ''TUI assembly omitted from its link map'' missing
           else cli_objects w tui_map cli_map [] CLI_ONLY)))"

definition check_console_code :: "repo \<Rightarrow> pystr \<Rightarrow> outcome" where
  "check_console_code w code =
     (if rx_findall0 BOUNDARY_RE code \<noteq> [] then failed ''TUI/CLI source reaches storage directly'' (sorted_set (rx_findall0 BOUNDARY_RE code))
      else if rx_found UNBOUNDED_RE code then failed ''untrusted terminal text can use an unbounded curses writer'' []
      else if \<not> rx_found BOUNDED_RE code then failed ''TUI source has no length-bounded curses text writer'' []
      else case List.find (\<lambda>m. unsafe_calls code m \<noteq> []) (rx_finditer HANDLER_RE code) of
        Some m \<Rightarrow> failed ''async handler calls unsafe code'' (group_of 1 (snd m) # unsafe_calls code m)
      | None \<Rightarrow> check_link_maps w)"

definition CONSOLE_TOKENS :: "string list" where
  "CONSOLE_TOKENS = [''--dump-layout'', ''--screen'', ''--mono'', ''NO_COLOR'', ''mcp.restart'', ''mcp.tool_test'']"

definition contains_any :: "pystr \<Rightarrow> string list \<Rightarrow> bool" where
  "contains_any s ts \<longleftrightarrow> list_ex (\<lambda>t. contains s (str t)) ts"

definition check_source_invariants :: "repo \<Rightarrow> outcome" where
  "check_source_invariants w =
     attempt (all_console_assembly w) (\<lambda>code.
       if length (console_paths w) < 3 then failed ''M10 console implementation has no substantive assembly modules'' []
       else if absent CONSOLE_TOKENS code \<noteq> [] then failed ''M10 console source lacks contract anchors'' (absent CONSOLE_TOKENS code)
       else if \<not> contains_any code [''endwin'', ''af_tui_terminal_restore''] then failed ''TUI source has no terminal cleanup/endwin anchor'' []
       else if \<not> contains_any code [''curs_set'', ''af_tui_cursor_restore''] then failed ''TUI source has no cursor restore anchor'' []
       else if \<not> contains_any code [''af_sys_connect'', ''connect''] then failed ''console source has no Unix control-socket client path'' []
       else
         reading w ''src/platform/linux_x86_64/daemon.asm'' (\<lambda>daemon.
           if contains (lower daemon) (str ''console is not wired'') then
             failed ''daemon still reports the now-wired M10 console as unavailable'' []
           else
             reading w ''src/tui/tui_run.asm'' (\<lambda>runtime.
               check_key_handler (strip_asm_comments_m10 runtime)
                 (reading w ''src/tui/actions.asm'' (\<lambda>actions.
                    let action_source = strip_asm_comments_m10 actions in
                    if \<not> contains action_source (str ''%if %3'') \<or> contains action_source (str ''%if %2 < AF_TUI_RISK_4'') then
                      failed ''TUI action availability is not an explicit catalogue field'' []
                    else
                      reading w ''src/tui/model.asm'' (\<lambda>model.
                        check_select_prev (strip_asm_comments_m10 model) (check_console_code w code)))))))"

section \<open>Binaries\<close>

text \<open>\<open>dynamic_needed\<close>: what it prints or raises, with the value it returns.\<close>

definition dynamic_needed :: "repo \<Rightarrow> pystr \<Rightarrow> outcome \<times> pystr option" where
  "dynamic_needed w binary =
     (case proc w [str ''readelf'', str ''-Wd'', binary] of
        NotFound \<Rightarrow> (failed ''readelf could not inspect'' [binary], None)
      | TimedOut \<Rightarrow> (raised TimeoutErr, None)
      | Done rc out err \<Rightarrow>
          if rc \<noteq> 0 then (failed ''readelf could not inspect'' [binary, err], None) else (nothing, Some (lower out)))"

definition FORBIDDEN_LIBRARIES :: "string list" where
  "FORBIDDEN_LIBRARIES = [''sqlite'', ''libcurl'', ''llhttp'']"

definition ARTIFACTS :: "string list" where
  "ARTIFACTS = [''debug/asmflow-tui'', ''debug/asmflowctl'', ''release/asmflow-tui'', ''release/asmflowctl'']"

definition check_libraries :: "(pystr \<Rightarrow> bool) \<Rightarrow> repo \<Rightarrow> pystr \<Rightarrow> pystr \<Rightarrow> outcome" where
  "check_libraries access w tui cli =
     (if contains_any tui FORBIDDEN_LIBRARIES then failed ''asmflow-tui links forbidden daemon libraries'' []
      else if contains_any cli FORBIDDEN_LIBRARIES then failed ''asmflowctl links forbidden daemon libraries'' []
      else if \<not> contains tui (str ''ncursesw'') then failed ''asmflow-tui does not link ncursesw'' []
      else if contains cli (str ''ncurses'') then failed ''asmflowctl links ncurses even though it is non-interactive'' []
      else case filter (\<lambda>p. \<not> build_is_file w (str p) \<or> \<not> access (build_path w (str p))) ARTIFACTS of
        p # _ \<Rightarrow> failed ''missing executable M10 artifact'' [build_path w (str p)]
      | [] \<Rightarrow> okay ''TUI/CLI dynamic dependencies and debug/release artifacts'' [])"

definition check_binaries_and_link_boundaries :: "(pystr \<Rightarrow> bool) \<Rightarrow> repo \<Rightarrow> outcome" where
  "check_binaries_and_link_boundaries access w =
     (let tui = str ''debug/asmflow-tui''; cli = str ''debug/asmflowctl'' in
      if \<not> build_is_file w tui \<or> \<not> build_is_file w cli then failed ''missing M10 debug artifacts'' []
      else
        let (r1, tui_needed) = dynamic_needed w (build_path w tui);
            (r2, cli_needed) = dynamic_needed w (build_path w cli)
        in and_then r1 (and_then r2
          (case (tui_needed, cli_needed) of (Some t, Some c) \<Rightarrow> check_libraries access w t c | _ \<Rightarrow> nothing)))"

section \<open>The gate\<close>

definition run_suite_m10 :: "repo \<Rightarrow> pystr \<Rightarrow> pystr \<Rightarrow> int \<Rightarrow> outcome" where
  "run_suite_m10 w name module minimum = counted_suite w name module minimum"

interpretation suite10: floor_suite run_suite_m10
  by unfold_locales (simp add: run_suite_m10_def counted_suite_verdict)

definition static_checks_m10 :: "(pystr \<Rightarrow> pystr list option) \<Rightarrow> unicodedata \<Rightarrow> (pystr \<Rightarrow> bool) \<Rightarrow> repo \<Rightarrow> outcome list" where
  "static_checks_m10 fdefs ucd access w =
     [check_test_and_fixture_matrix_m10 fdefs ucd w, check_make_and_ci_wiring w,
      check_binaries_and_link_boundaries access w, check_source_invariants w]"

definition checks_m10 :: "(pystr \<Rightarrow> pystr list option) \<Rightarrow> unicodedata \<Rightarrow> (pystr \<Rightarrow> bool) \<Rightarrow> bool \<Rightarrow> repo \<Rightarrow> outcome list" where
  "checks_m10 fdefs ucd access skip_suites w = static_checks_m10 fdefs ucd access w
     @ (if skip_suites then [] else map (\<lambda>(name, m, k). run_suite_m10 w (str name) (str m) k) SUITES_M10)"

definition main_m10 :: "(pystr \<Rightarrow> pystr list option) \<Rightarrow> unicodedata \<Rightarrow> (pystr \<Rightarrow> bool) \<Rightarrow> bool \<Rightarrow> repo \<Rightarrow> int" where
  "main_m10 fdefs ucd access skip_suites w = gate_exit (run_all (checks_m10 fdefs ucd access skip_suites w))"

interpretation gate10: accumulating_gate "checks_m10 fdefs ucd access skip" "main_m10 fdefs ucd access skip"
  for fdefs ucd access skip
  by unfold_locales (rule main_m10_def)

section \<open>What the golden check shows\<close>

text \<open>The width of one character, and of a text without control characters.\<close>

definition cell_width :: "unicodedata \<Rightarrow> cp \<Rightarrow> int" where
  "cell_width ucd c = (if combining ucd c \<noteq> 0 then 0 else if east_asian_width ucd c \<in> {''W'', ''F''} then 2 else 1)"

definition printable :: "unicodedata \<Rightarrow> pystr \<Rightarrow> bool" where
  "printable ucd t \<longleftrightarrow> list_all (\<lambda>c. combining ucd c \<noteq> 0 \<or> take 1 (category ucd c) \<noteq> ''C'') t"

lemma width_from_eq:
  "width_from ucd n t = (if printable ucd t then Some (n + sum_list (map (cell_width ucd) t)) else None)"
  by (induction t arbitrary: n) (auto simp: printable_def cell_width_def)

lemma display_width_eq:
  "display_width ucd t = (if printable ucd t then Some (sum_list (map (cell_width ucd) t)) else None)"
  by (simp add: display_width_def width_from_eq)

lemma widths_ok_True:
  "widths_ok ucd limit ls = Some True \<longleftrightarrow>
     (\<forall>l \<in> set ls. printable ucd l \<and> sum_list (map (cell_width ucd) l) \<le> limit)"
  by (induction ls) (auto simp: display_width_eq split: if_splits option.splits)

text \<open>A golden screen that fits: its cells are within the columns and rows its entry names.\<close>

definition within_screen :: "unicodedata \<Rightarrow> int \<times> int \<Rightarrow> pystr \<Rightarrow> bool" where
  "within_screen ucd dims text \<longleftrightarrow> \<not> contains text [27] \<and> int (length (splitlines text)) \<le> snd dims \<and>
     (\<forall>l \<in> set (splitlines text). printable ucd l \<and> sum_list (map (cell_width ucd) l) \<le> fst dims)"

definition fits :: "unicodedata \<Rightarrow> repo \<Rightarrow> json \<Rightarrow> bool" where
  "fits ucd w e \<longleftrightarrow> (\<exists>f t s n. json_get (str ''file'') e = Inr (JStr f) \<and> read_text w (golden_path f) = Inr t \<and>
     entry_size e = Inr s \<and> n \<in> set GOLDEN_SIZES \<and> size_eq s n \<and> within_screen ucd n (canonical_m10 t))"

lemma passed_check_golden:
  "passed (check_golden ucd limits text k) \<longleftrightarrow> within_screen ucd limits text \<and> passed k"
  using widths_ok_True [of ucd "fst limits" "splitlines text"]
  by (auto simp: check_golden_def within_screen_def not_less split: option.split bool.split)

lemma py_eq_int_unique: "py_eq x (JInt a) \<Longrightarrow> py_eq x (JInt b) \<Longrightarrow> a = b"
  by (auto simp: py_eq_def same_number_def num_of_def split: json.splits option.splits prod.splits if_splits)

lemma size_eq_unique: "size_eq s m \<Longrightarrow> size_eq s n \<Longrightarrow> m = n"
  by (auto simp: size_eq_def intro: prod_eqI py_eq_int_unique)

lemma limits_of_match:
  assumes "size_eq s n" and "n \<in> set GOLDEN_SIZES" shows "limits_of s = n"
proof (cases "List.find (size_eq s) GOLDEN_SIZES")
  case None
  with assms show ?thesis by (cases n) (auto simp: find_None_iff)
next
  case (Some m)
  then have "size_eq s m" by (auto simp: find_Some_iff)
  with assms size_eq_unique Some show ?thesis by (simp add: limits_of_def)
qed

lemma read_text_is_file: "read_text w p = Inr t \<Longrightarrow> is_file w p"
  by (auto simp: read_text_def read_bytes_def is_file_def split: sum.splits option.splits node.splits)

lemma fits_iff:
  assumes "entry_size e = Inr s" and "size_eq s n" and "n \<in> set GOLDEN_SIZES"
  shows "fits ucd w e \<longleftrightarrow> (\<exists>f t. json_get (str ''file'') e = Inr (JStr f) \<and> read_text w (golden_path f) = Inr t \<and>
    within_screen ucd n (canonical_m10 t))" (is "_ \<longleftrightarrow> ?r")
proof
  assume "fits ucd w e"
  then obtain f t m where "json_get (str ''file'') e = Inr (JStr f)" "read_text w (golden_path f) = Inr t"
      "size_eq s m" "within_screen ucd m (canonical_m10 t)"
    using assms(1) unfolding fits_def by auto
  moreover from this assms(2) have "m = n" by (intro size_eq_unique)
  ultimately show ?r by blast
qed (use assms in \<open>unfold fits_def, blast\<close>)

lemma passed_check_goldens:
  assumes "collect_all entry_size es = Inr sizes" and "list_all (\<lambda>s. list_ex (size_eq s) GOLDEN_SIZES) sizes"
  shows "passed (check_goldens ucd w es k) \<longleftrightarrow> list_all (fits ucd w) es \<and> passed k"
  using assms
proof (induction es arbitrary: sizes)
  case (Cons e es)
  from Cons.prems(1) obtain s rest where s: "entry_size e = Inr s" "collect_all entry_size es = Inr rest" "sizes = s # rest"
    by (auto split: sum.splits)
  with Cons.prems(2) obtain n where n: "size_eq s n" "n \<in> set GOLDEN_SIZES" by (auto simp: list_ex_iff)
  note IH = Cons.IH [OF s(2)]
  have "passed (check_goldens ucd w (e # es) k) \<longleftrightarrow> (\<exists>f t. json_get (str ''file'') e = Inr (JStr f) \<and>
      read_text w (golden_path f) = Inr t \<and> passed (check_golden ucd n (canonical_m10 t) (check_goldens ucd w es k)))"
  proof (cases "json_get (str ''file'') e")
    case (Inr v)
    then show ?thesis using s(1) limits_of_match [OF n]
      by (cases v) (auto dest: read_text_is_file)
  qed simp
  also have "\<dots> \<longleftrightarrow> fits ucd w e \<and> passed (check_goldens ucd w es k)"
    using fits_iff [OF s(1) n] unfolding passed_check_golden by blast
  finally show ?case using IH s(3) Cons.prems(2) by simp
qed simp

text \<open>
  The check on the golden screens is exact: it goes on to the screens and actions exactly
  when the manifest names the three terminal sizes and each of its screens fits its own. A screen
  fits when it can be read, holds no escape and no control character, has at most as many rows as
  the height, and no row takes more cells than the width, counting two for a wide character
  and none for a combining one.
\<close>

lemma golden_screens_fit:
  "passed (check_documents_m10 ucd w docs) \<longleftrightarrow>
     (\<exists>manifest sizes. andthen (document docs ''golden_manifest.json'') py_iter = Inr manifest \<and>
        collect_all entry_size manifest = Inr sizes \<and> sizes_match sizes \<and>
        list_all (fits ucd w) manifest \<and> passed (check_screens w docs))"
  using passed_check_goldens [of _ _ ucd w "check_screens w docs"]
  by (auto simp: check_documents_m10_def sizes_match_def split: if_splits)

end
