(* ===== verification/Gate_M11.thy ===== *)
theory Gate_M11
  imports Gate_Core Py_Value
begin

text \<open>
  \<open>scripts/gate_m11.py\<close>, the gate of security, observability and recovery: linked runtime code,
  redaction and diagnostics, permissions and audit rows, backup and restore, shutdown, the test
  and fuzz matrix with its seeds, the Makefile and the suites.

  Parameters of the checks: \<open>ast.parse\<close> as \<open>fdefs\<close> (the functions a Python source defines) and
  as \<open>assigned\<close>, the value of the module's assignment to \<open>TARGETS\<close>: \<open>None\<close> when the source does
  not parse or the value is no literal, \<open>Some None\<close> when nothing is assigned.
\<close>

section \<open>Tables\<close>

definition SUITES_M11 :: "(string \<times> string \<times> int) list" where
  "SUITES_M11 = [(''security'', ''tests.test_security'', 4), (''redaction'', ''tests.test_redaction'', 3),
     (''permissions'', ''tests.test_permissions'', 7), (''fuzz smoke'', ''tests.test_fuzz_smoke'', 3),
     (''crash recovery'', ''tests.test_crash_recovery'', 1), (''graceful shutdown'', ''tests.test_graceful_shutdown'', 2)]"

definition TARGETS_M11 :: "string list" where
  "TARGETS_M11 = [''test-security'', ''test-redaction'', ''test-permissions'', ''fuzz-smoke'', ''test-backup-restore'',
     ''test-crash-recovery'', ''test-graceful-shutdown'']"

definition FUZZ_TARGETS :: "string list" where
  "FUZZ_TARGETS = [''json'', ''config'', ''http'', ''url'', ''sse'', ''mcp'', ''control'', ''redaction'']"

definition REQUIRED_FILES_M11 :: "string list" where
  "REQUIRED_FILES_M11 = [''src/config/redaction.asm'', ''src/platform/linux_x86_64/file_security.asm'',
     ''src/storage/backup.asm'', ''tests/asm/test_m11_security.asm'', ''tests/asm/test_m11_fuzz.asm'',
     ''tests/asm/test_m11_backup.asm'', ''tests/test_security.py'', ''tests/test_redaction.py'', ''tests/test_permissions.py'',
     ''tests/test_fuzz_smoke.py'', ''tests/test_crash_recovery.py'', ''tests/test_graceful_shutdown.py'',
     ''tests/fixtures/fuzz/seeds.json'']"

definition DAEMON_SYMBOLS :: "string list" where
  "DAEMON_SYMBOLS = [''af_buf_clear_secure'', ''af_buf_consume_secure'', ''af_redact_header_sensitive'',
     ''af_redact_header_value'', ''af_fs_check_private_dir'', ''af_fs_check_private_file'', ''af_fs_check_config_path'',
     ''af_fs_prepare_database_path'', ''af_ctl_validate_peer_credentials'', ''af_ctl_m_diagnostics_export'',
     ''af_repo_record_audit'', ''af_db_backup_to_path'', ''af_db_backup_open_verified'', ''af_db_backup_verify_path'',
     ''af_db_restore_to_path'', ''af_http_server_stop_accepting'', ''af_http_server_inflight_count'']"

section \<open>Sources and the build\<close>

definition code_of_m11 :: "repo \<Rightarrow> pystr \<Rightarrow> pyexn + pystr" where
  "code_of_m11 w rel =
     (if \<not> is_file w rel then Inr []
      else case read_text w rel of
        Inl e \<Rightarrow> Inl e
      | Inr t \<Rightarrow>
          if path_suffix rel \<in> {str ''.asm'', str ''.inc''} then Inr (strip_asm_comments_m11 t)
          else if path_suffix rel \<in> {str ''.c'', str ''.h''} then Inr (strip_c_comments_m11 t)
          else Inl (ValueErr ''no comment stripper''))"

definition with_code :: "repo \<Rightarrow> string \<Rightarrow> (pystr \<Rightarrow> outcome) \<Rightarrow> outcome" where
  "with_code w rel k = attempt (code_of_m11 w (str rel)) k"

definition check_required_assets_and_build :: "repo \<Rightarrow> outcome" where
  "check_required_assets_and_build w =
     (let missing = sorted_set (filter (\<lambda>p. \<not> is_file w p) (map str REQUIRED_FILES_M11));
          daemon = build_path w (str ''debug/asmflowd'');
          missing_build = filter (\<lambda>p. \<not> build_is_file w (str p)) [''debug/asmflowd'', ''debug/asmflow-tests'']
      in if missing \<noteq> [] then failed ''missing M11 implementation/test assets'' missing
         else if missing_build \<noteq> [] then failed ''missing M11 debug build products'' (map (\<lambda>p. build_path w (str p)) missing_build)
         else case proc w [str ''nm'', str ''--defined-only'', daemon] of
           NotFound \<Rightarrow> failed ''nm could not inspect'' [daemon]
         | TimedOut \<Rightarrow> raised TimeoutErr
         | Done rc out err \<Rightarrow>
             if rc \<noteq> 0 then failed ''nm could not inspect'' [daemon, err]
             else if lacking DAEMON_SYMBOLS (last_columns out) \<noteq> [] then
               failed ''asmflowd is missing M11 runtime symbols'' (lacking DAEMON_SYMBOLS (last_columns out))
             else okay ''debug daemon contains all M11 runtime anchors'' [int (length DAEMON_SYMBOLS)])"

section \<open>Redaction and diagnostics\<close>

definition REDACTION_TOKENS :: "string list" where
  "REDACTION_TOKENS = [''[REDACTED]'', ''authorization'', ''proxy-authorization'', ''cookie'', ''set-cookie'', ''af_mem_eq_ci'',
     ''CFG_LOG_REDACT_COUNT'', ''CFG_LST_AUTH'', ''CFG_PROVIDER_COUNT'', ''CFG_MCP_COUNT'', ''AUTH_HEADER'', ''af_buf_append'']"

definition DIAGNOSTICS_TOKENS :: "string list" where
  "DIAGNOSTICS_TOKENS = [''k_format_version'', ''k_generated_at_ms'', ''k_version'', ''k_target'', ''k_build'', ''k_protocol_ver'',
     ''af_ctl_write_config_hash'', ''k_last_error'', ''RT_LAST_ERROR_AT_MS'', ''k_dependencies'', ''af_ctl_m_config_current'',
     ''af_ctl_m_providers_list'', ''af_ctl_m_routes_list'', ''af_ctl_m_mcp_list'', ''k_redacted'', ''k_payloads_included'',
     ''k_secrets_included'']"

definition PAYLOAD_TOKENS :: "string list" where
  "PAYLOAD_TOKENS = [''k_prompt'', ''k_response_body'', ''k_arguments'', ''k_tool_result'', ''MC_STDERR'']"

definition WIPE_SOURCES :: "string list" where
  "WIPE_SOURCES = [''src/memory/buffer.asm'', ''src/http/http_parse.asm'', ''src/http/http_server.asm'',
     ''src/providers/provider_adapter.asm'']"

definition present :: "string list \<Rightarrow> pystr \<Rightarrow> pystr list" where
  "present tokens s = filter (contains s) (map str tokens)"

definition check_structured_redaction_and_diagnostics :: "repo \<Rightarrow> outcome" where
  "check_structured_redaction_and_diagnostics w =
     with_code w ''src/config/redaction.asm'' (\<lambda>redaction.
       if absent REDACTION_TOKENS redaction \<noteq> [] then
         failed ''structured redaction registry lacks'' (absent REDACTION_TOKENS redaction)
       else
         with_code w ''src/control/control_methods.asm'' (\<lambda>methods.
           let diagnostics = function_body_m11 methods (str ''af_ctl_m_diagnostics_export'') in
           if absent DIAGNOSTICS_TOKENS diagnostics \<noteq> [] then
             failed ''diagnostics.export lacks required redacted metadata'' (absent DIAGNOSTICS_TOKENS diagnostics)
           else if \<not> contains methods (str ''k_config_hash'') then
             failed ''diagnostics.export has no canonical config_hash output key'' []
           else if present PAYLOAD_TOKENS diagnostics \<noteq> [] then
             failed ''diagnostics.export can include payload material'' (present PAYLOAD_TOKENS diagnostics)
           else if py_count diagnostics (str ''xor     edx, edx'') < 2 then
             failed ''diagnostics.export does not hard-code payloads/secrets as false'' []
           else
             attempt (collect_all (\<lambda>p. code_of_m11 w (str p)) WIPE_SOURCES) (\<lambda>codes.
               let wipes = absent [''af_buf_clear_secure'', ''af_buf_consume_secure'', ''af_buf_free_secure''] (join nl codes) in
               if wipes \<noteq> [] then failed ''credential/request buffer wiping lacks'' wipes
               else okay ''redaction is structured and diagnostics hard-code payload/secret exclusion'' [])))"

section \<open>Permissions and audit\<close>

text \<open>The first token of a list that a text lacks ends the check.\<close>

definition tokens_then :: "string \<Rightarrow> string list \<Rightarrow> pystr \<Rightarrow> outcome \<Rightarrow> outcome" where
  "tokens_then message tokens s k = (case absent tokens s of t # _ \<Rightarrow> failed message [t] | [] \<Rightarrow> k)"

lemma passed_tokens_then [simp, outcome_simps]:
  "passed (tokens_then message tokens s k) \<longleftrightarrow> (\<forall>t \<in> set tokens. contains s (str t)) \<and> passed k"
proof (cases "absent tokens s")
  case (Cons t ts)
  then have "absent tokens s \<noteq> []" by simp
  with Cons show ?thesis unfolding absent_Nil by (simp add: tokens_then_def)
qed (simp add: tokens_then_def flip: absent_Nil)

definition check_audit :: "repo \<Rightarrow> outcome" where
  "check_audit w =
     with_code w ''src/storage/migrations.asm'' (\<lambda>migrations.
       let audit = py_slice migrations (py_find migrations (str ''m2_audit_events:'')) (py_find migrations (str ''sql_select_version:''));
           missing = absent [''occurred_at_ms'', ''peer_uid'', ''peer_pid'', ''action'', ''outcome'', ''status''] audit;
           leaked = present [''payload'', ''params'', ''credential'', ''secret'', ''environment''] (lower audit)
       in if missing \<noteq> [] then failed ''audit_events schema lacks'' missing
          else if leaked \<noteq> [] then failed ''audit_events schema persists sensitive input'' leaked
          else
            with_code w ''src/control/control_methods.asm'' (\<lambda>methods.
              if \<not> contains methods (str ''af_ctl_record_audit'') \<or> \<not> contains methods (str ''af_repo_record_audit'') then
                failed ''mutating control dispatch is not connected to the audit repository'' []
              else okay ''auth, SO_PEERCRED, local file modes, and payload-free audit rows fail closed'' []))"

definition check_auth_permissions_and_audit :: "repo \<Rightarrow> outcome" where
  "check_auth_permissions_and_audit w =
     with_code w ''src/platform/linux_x86_64/file_security.asm'' (\<lambda>files.
       let missing = absent [''AT_SYMLINK_NOFOLLOW'', ''S_IFREG'', ''S_IFDIR'', ''GROUP_WORLD_MASK'', ''cmp     eax, 0o700'',
             ''test    eax, 0o400'', ''test    eax, 0o200'', ''af_sys_getuid''] files
       in if missing \<noteq> [] then failed ''owner-only file policy lacks'' missing
     else with_code w ''src/config/config_top.asm'' (\<lambda>config.
       let missing = absent [''O_NOFOLLOW'', ''O_NONBLOCK'', ''af_sys_fstat'', ''CFG_S_IFREG''] config
       in if missing \<noteq> [] then failed ''config open/type validation lacks'' missing
     else with_code w ''src/control/control_socket.asm'' (\<lambda>socket_policy.
       if \<not> contains socket_policy (str ''0o700'') \<or> \<not> contains socket_policy (str ''0o600'') then
         failed ''control socket does not enforce parent 0700 and socket 0600'' []
     else with_code w ''src/platform/linux_x86_64/daemon.asm'' (\<lambda>daemon.
       if \<not> contains daemon (str ''af_sys_umask'') \<or> \<not> contains daemon (str ''0o077'') then
         failed ''daemon does not establish an owner-only creation umask'' []
     else with_code w ''src/control/control_server.asm'' (\<lambda>control.
       tokens_then ''control peer authentication does not use'' [''SO_PEERCRED'', ''af_sys_geteuid''] control
         (tokens_then ''control peer validation does not fail closed on''
           [''cmp     rdx, 12'', ''AF_E_PERM'', ''CONN_PEER_UID'', ''CONN_PEER_PID'']
           (function_body_m11 control (str ''af_ctl_validate_peer_credentials'')) (check_audit w)))))))"

section \<open>Backup and shutdown\<close>

definition BACKUP_TOKENS :: "string list" where
  "BACKUP_TOKENS = [''sqlite3_backup_init'', ''sqlite3_backup_step'', ''sqlite3_backup_finish'', ''sqlite3_backup_pagecount'',
     ''AF_BK_O_EXCL'', ''AF_BK_O_NOFOLLOW'', ''AF_BK_SQLITE_OPEN_NOFOLLOW'', ''af_db_integrity_check'', ''af_sys_fsync'',
     ''af_db_backup_open_verified'', ''af_db_backup_to_path'', ''af_db_restore_to_path'']"

definition check_backup_restore_and_policy_boundary :: "repo \<Rightarrow> outcome" where
  "check_backup_restore_and_policy_boundary w =
     with_code w ''src/storage/backup.asm'' (\<lambda>backup.
       if absent BACKUP_TOKENS backup \<noteq> [] then failed ''coherent bounded backup/restore lacks'' (absent BACKUP_TOKENS backup)
       else
         attempt (read_all w (sort_paths (glob w (str ''src/ffi/*.c'')))) (\<lambda>texts.
           let c_code = join nl (map (\<lambda>(p, t). strip_c_comments_m11 t) texts);
               leaked = present [''diagnostics.export'', ''audit_events'', ''shutdown.accepts_stopped'', ''AF_SHUTDOWN_GRACE_NS'',
                 ''[REDACTED]''] c_code
           in if leaked \<noteq> [] then failed ''M11 domain policy migrated into a C shim'' leaked
              else okay ''backup/restore is coherent, no-overwrite, no-follow, verified, and Assembly-owned'' []))"

definition SHUTDOWN_TOKENS :: "string list" where
  "SHUTDOWN_TOKENS = [''AF_SHUTDOWN_GRACE_NS'', ''RT_SHUTDOWN_DEADLINE_NS'', ''RT_TERM_SIGNALS'', ''af_http_server_stop_accepting'',
     ''af_http_server_inflight_count'', ''af_loop_step'', ''shutdown.accepts_stopped'', ''shutdown.inflight_drained'',
     ''shutdown.inflight_deadline'', ''shutdown.mcp_stopped'', ''shutdown.db_closed'']"

definition check_shutdown_and_crash_contracts :: "repo \<Rightarrow> outcome" where
  "check_shutdown_and_crash_contracts w =
     with_code w ''src/platform/linux_x86_64/daemon.asm'' (\<lambda>daemon.
       let run_body = function_body_m11 daemon (str ''af_daemon_run'');
           mcp_stop = py_find run_body (str ''call    af_mcp_sup_shutdown'');
           db_close = py_find run_body (str ''call    af_db_close'')
       in if absent SHUTDOWN_TOKENS daemon \<noteq> [] then failed ''bounded graceful shutdown lacks'' (absent SHUTDOWN_TOKENS daemon)
          else if mcp_stop < 0 \<or> db_close < 0 \<or> db_close \<le> mcp_stop then
            failed ''daemon teardown does not stop MCP before closing SQLite'' []
          else
            with_code w ''src/http/http_server.asm'' (\<lambda>http.
              tokens_then ''HTTP drain does not enforce'' [''af_loop_del'', ''af_sys_close'', ''HC_F_CLOSING'', ''HC_F_UPSTREAM'']
                (function_body_m11 http (str ''af_http_server_stop_accepting''))
                (reading w ''tests/test_crash_recovery.py'' (\<lambda>crash.
                  tokens_then ''SIGKILL recovery drill does not cover''
                    [''sigkill'', ''schema_migrations'', ''wal'', ''stale'', ''socket'', ''integrity_check''] (lower crash)
                    (reading w ''tests/test_graceful_shutdown.py'' (\<lambda>graceful.
                      tokens_then ''SIGTERM drill does not assert'' [''shutdown.accepts_stopped'', ''shutdown.inflight_drained'',
                        ''shutdown.inflight_deadline'', ''shutdown.mcp_stopped'', ''shutdown.db_closed''] graceful
                        (okay ''one reactor drains in flight work, then stops MCP before DB close; SIGKILL is drilled'' [])))))))"

section \<open>Fuzz seeds\<close>

text \<open>
  \<open>bytes.fromhex\<close>: two hexadecimal digits for each byte, with ASCII white space before a byte and
  at the end.
\<close>

fun fromhex :: "pystr \<Rightarrow> bytes option" where
  "fromhex [] = Some []"
| "fromhex (c # s) =
     (if c = 32 \<or> 9 \<le> c \<and> c \<le> 13 then fromhex s
      else case s of
        [] \<Rightarrow> None
      | d # t \<Rightarrow>
          (case (hex_digit c, hex_digit d) of
             (Some x, Some y) \<Rightarrow> map_option (\<lambda>bs. (16 * x + y) # bs) (fromhex t)
           | _ \<Rightarrow> None))"

definition seed_bytes :: "(pystr \<times> json) list \<Rightarrow> pyexn + bytes" where
  "seed_bytes entry =
     (case (map_of entry (str ''utf8''), map_of entry (str ''hex'')) of
        (Some _, Some _) \<Rightarrow> Inl (ValueErr ''each seed must have exactly one of utf8 or hex'')
      | (None, None) \<Rightarrow> Inl (ValueErr ''each seed must have exactly one of utf8 or hex'')
      | (Some (JStr v), None) \<Rightarrow>
          (case utf8_encode v of None \<Rightarrow> Inl (ValueErr ''surrogates not allowed'') | Some bs \<Rightarrow> Inr bs)
      | (Some _, None) \<Rightarrow> Inl (ValueErr ''utf8 seed value is not a string'')
      | (None, Some (JStr v)) \<Rightarrow>
          (case fromhex v of None \<Rightarrow> Inl (ValueErr ''non-hexadecimal number found'') | Some bs \<Rightarrow> Inr bs)
      | (None, Some _) \<Rightarrow> Inl (ValueErr ''hex seed value is not a string''))"

text \<open>The loop over the seeds of a target, with the names seen so far; \<open>None\<close> when none is refused.\<close>

fun seed_loop :: "pystr list \<Rightarrow> json list \<Rightarrow> pyexn option" where
  "seed_loop names [] = None"
| "seed_loop names (JObj entry # rest) =
     (case map_of entry (str ''name'') of
        Some (JStr name) \<Rightarrow>
          if name \<in> set names then Some (ValueErr ''repeats a seed name'')
          else
            (case seed_bytes entry of
               Inl e \<Rightarrow> Some e
             | Inr bs \<Rightarrow>
                 if 8192 < length bs then Some (ValueErr ''exceeds 8192 bytes'') else seed_loop (name # names) rest)
      | _ \<Rightarrow> Some (ValueErr ''has a seed without a string name''))"
| "seed_loop names (_ # rest) = Some (ValueErr ''has a seed without a string name'')"

text \<open>\<open>manifest[target]\<close>.\<close>

definition subscript :: "pystr \<Rightarrow> json \<Rightarrow> pyexn + json" where
  "subscript k v =
     (case v of
        JObj d \<Rightarrow> (case map_of d k of None \<Rightarrow> Inl (KeyErr k) | Some x \<Rightarrow> Inr x)
      | _ \<Rightarrow> Inl TypeErr)"

definition target_seeds :: "json \<Rightarrow> pystr \<Rightarrow> pyexn option" where
  "target_seeds manifest target =
     (case subscript target manifest of
        Inl e \<Rightarrow> Some e
      | Inr (JArr entries) \<Rightarrow>
          if entries = [] then Some (ValueErr ''has no committed seed'') else seed_loop [] entries
      | Inr _ \<Rightarrow> Some (ValueErr ''has no committed seed''))"

fun first_exn :: "('a \<Rightarrow> pyexn option) \<Rightarrow> 'a list \<Rightarrow> pyexn option" where
  "first_exn f [] = None"
| "first_exn f (x # xs) = (case f x of None \<Rightarrow> first_exn f xs | Some e \<Rightarrow> Some e)"

definition is_str :: "json \<Rightarrow> bool" where
  "is_str v \<longleftrightarrow> (case v of JStr _ \<Rightarrow> True | _ \<Rightarrow> False)"

text \<open>The message of a wrong matrix sorts and joins the names, which only texts allow.\<close>

definition check_seeds :: "json \<Rightarrow> outcome \<Rightarrow> outcome" where
  "check_seeds manifest k =
     attempt (py_iter manifest) (\<lambda>keys.
       if set keys \<noteq> set (map (\<lambda>t. JStr (str t)) FUZZ_TARGETS) then
         (if list_all is_str keys then failed ''fuzz target matrix'' [] else raised TypeErr)
       else
         case first_exn (target_seeds manifest) (sorted_set (map str FUZZ_TARGETS)) of
           None \<Rightarrow> k
         | Some TypeErr \<Rightarrow> failed ''M11 fuzz seed contract failed'' []
         | Some (ValueErr m) \<Rightarrow> failed ''M11 fuzz seed contract failed'' [str m]
         | Some e \<Rightarrow> raised e)"

section \<open>Tests and the fuzz driver\<close>

definition quoted :: "string \<Rightarrow> pystr" where
  "quoted s = [34] @ str s @ [34]"

definition suite_markers :: "(string \<times> pystr list) list" where
  "suite_markers =
     [(''tests/test_security.py'',
        map quoted [''0.0.0.0'', ''/healthz'', ''/readyz'', ''/v1/models'', ''/v1/responses'', ''/v1/chat/completions''] @
        map str [''X-Injected'', ''audit_events'']),
      (''tests/test_redaction.py'',
        map str [''diagnostics.export'', ''asmflow.db-wal'', ''asmflowctl'', ''payloads_included'', ''secrets_included'',
          ''stdout'', ''stderr'']),
      (''tests/test_permissions.py'',
        map str [''os.mkfifo'', ''symlink_to'', ''0o644'', ''0o755'', ''0o700'', ''0o600''] @ map quoted [''-wal'', ''-shm''])]"

definition markers_of :: "pystr \<Rightarrow> pystr list" where
  "markers_of rel = (case map_of (map (\<lambda>(p, ms). (str p, ms)) suite_markers) rel of Some ms \<Rightarrow> ms | None \<Rightarrow> [])"

text \<open>\<open>_test_count\<close>: the test functions of a source, or why they cannot be counted.\<close>

definition test_count :: "(pystr \<Rightarrow> pystr list option) \<Rightarrow> repo \<Rightarrow> pystr \<Rightarrow> pyexn + int" where
  "test_count fdefs w rel =
     (case read_text w rel of
        Inl e \<Rightarrow> Inl e
      | Inr source \<Rightarrow>
          (case fdefs source of
             None \<Rightarrow> Inl (SyntaxErr rel)
           | Some names \<Rightarrow> Inr (int (length (filter (\<lambda>n. startswith n (str ''test_'')) names)))))"

fun matrix_loop :: "(pystr \<Rightarrow> pystr list option) \<Rightarrow> repo \<Rightarrow> (string \<times> string \<times> int) list \<Rightarrow> outcome \<Rightarrow> outcome" where
  "matrix_loop fdefs w [] k = k"
| "matrix_loop fdefs w ((name, m, minimum) # rest) k =
     (let rel = replace (str m) (str ''.'') (str ''/'') @ str ''.py'' in
      case test_count fdefs w rel of
        Inl e \<Rightarrow> failed ''does not parse'' [rel]
      | Inr count \<Rightarrow>
          if count < minimum then failed ''has fewer tests than the M11 floor'' [rel]
          else
            reading_path w rel (\<lambda>source.
              let missing = filter (\<lambda>t. \<not> contains source t) (markers_of rel) in
              if missing \<noteq> [] then failed ''lacks M11 matrix cases'' (rel # missing)
              else matrix_loop fdefs w rest k))"

definition DRIVER_TOKENS :: "string list" where
  "DRIVER_TOKENS = [''RLIMIT_CORE'', ''RLIMIT_CPU'', ''RLIMIT_AS'', ''subprocess.run'', ''timeout=CASE_TIMEOUT_SECONDS'',
     ''MAX_INPUT_BYTES'', ''m11/fuzz/'', ''FUZZ_SEED'']"

text \<open>\<open>AF_TEST\s+"\<close> and the text after the quote.\<close>

definition rx_registered :: "rx list \<Rightarrow> rx" where
  "rx_registered rs = rx_seq ([rx_lit ''AF_TEST'', rx_plus rx_space, rx_chr 34] @ rs)"

definition NATIVE_FUZZ_RE :: rx where
  "NATIVE_FUZZ_RE = rx_registered [rx_lit ''m11/fuzz/'', Grp 1 (rx_plus (Cls False [(97, 122), (95, 95)])),
     rx_lit ''/input'', rx_chr 34]"

definition registered :: "string \<Rightarrow> pystr \<Rightarrow> nat" where
  "registered p s = length (rx_finditer (rx_registered [rx_lit p]) s)"

definition required_security_prefixes :: "(string \<times> nat) list" where
  "required_security_prefixes = [(''m11/security'', 2), (''m11/control_peer'', 1), (''m11/provider_header'', 2)]"

definition check_native_tests :: "repo \<Rightarrow> outcome" where
  "check_native_tests w =
     reading w ''tests/asm/test_m11_fuzz.asm'' (\<lambda>native_fuzz.
       if set (rx_findall 1 NATIVE_FUZZ_RE native_fuzz) \<noteq> set (map str FUZZ_TARGETS) then
         failed ''native fuzz registrations do not exactly match the seed manifest'' []
       else
         reading w ''tests/asm/test_m11_backup.asm'' (\<lambda>backup.
           if registered ''backup/'' backup < 5 then
             failed ''native backup/restore regression matrix has fewer than five tests'' []
           else
             reading w ''tests/asm/test_m11_security.asm'' (\<lambda>native_security.
               case filter (\<lambda>(p, n). registered p native_security < n) required_security_prefixes of
                 (p, n) # _ \<Rightarrow> failed ''native security regression matrix has too few tests'' [str p]
               | [] \<Rightarrow> okay ''six focused suites and eight bounded deterministic fuzz targets are present'' [])))"

definition check_driver :: "(pystr \<Rightarrow> json list option option) \<Rightarrow> repo \<Rightarrow> outcome" where
  "check_driver assigned w =
     reading w ''tests/test_fuzz_smoke.py'' (\<lambda>driver.
       tokens_then ''bounded deterministic fuzz driver lacks'' DRIVER_TOKENS driver
         (case assigned driver of
            None \<Rightarrow> failed ''could not read fuzz driver TARGETS'' []
          | Some None \<Rightarrow> failed ''fuzz driver TARGETS do not exactly match the HARNESS/seed matrix'' []
          | Some (Some vs) \<Rightarrow>
              if set vs \<noteq> set (map (\<lambda>t. JStr (str t)) FUZZ_TARGETS) then
                failed ''fuzz driver TARGETS do not exactly match the HARNESS/seed matrix'' []
              else check_native_tests w))"

definition check_test_and_fuzz_matrix ::
  "(pystr \<Rightarrow> pystr list option) \<Rightarrow> (pystr \<Rightarrow> json list option option) \<Rightarrow> repo \<Rightarrow> outcome" where
  "check_test_and_fuzz_matrix fdefs assigned w =
     matrix_loop fdefs w SUITES_M11
       (case load_json w (str ''tests/fixtures/fuzz/seeds.json'') of
          Inl e \<Rightarrow> failed ''M11 fuzz seed manifest is invalid UTF-8 JSON'' []
        | Inr manifest \<Rightarrow> check_seeds manifest (check_driver assigned w))"

section \<open>The Makefile\<close>

definition expected_recipes :: "(string \<times> string list) list" where
  "expected_recipes =
     [(''test-security'', [''m11/security'', ''m11/control_peer'', ''m11/provider_header'', ''tests.test_security'']),
      (''test-redaction'', [''tests.test_redaction'']), (''test-permissions'', [''tests.test_permissions'']),
      (''fuzz-smoke'', [''tests.test_fuzz_smoke'']), (''test-backup-restore'', [''--filter backup/'']),
      (''test-crash-recovery'', [''tests.test_crash_recovery'']),
      (''test-graceful-shutdown'', [''tests.test_graceful_shutdown''])]"

definition check_make_wiring_m11 :: "repo \<Rightarrow> outcome" where
  "check_make_wiring_m11 w =
     reading w ''Makefile'' (\<lambda>makefile.
       let recipe = (\<lambda>t. make_recipe_m11 makefile (str t));
           all_targets = TARGETS_M11 @ [''gate-m11''];
           missing = filter (\<lambda>t. recipe t = []) all_targets;
           unfocused = filter (\<lambda>(t, tokens). absent tokens (recipe t) \<noteq> []) expected_recipes;
           logical = logical_make_lines_m11 makefile;
           unmet = lacking (''gate-m10'' # TARGETS_M11) (dependencies_of ''gate-m11'' logical);
           phony = first_starting (str ''.PHONY:'') logical
       in if missing \<noteq> [] then failed ''Makefile is missing M11 recipes'' (map str missing)
          else if list_ex (\<lambda>t. contains (recipe t) (str ''unittest discover'')) TARGETS_M11 then
            failed ''an M11 focused target runs broad unittest discovery'' []
          else if unfocused \<noteq> [] then failed ''is not focused on'' [str (fst (hd unfocused))]
          else if unmet \<noteq> [] then failed ''gate-m11 dependencies are incomplete'' unmet
          else if \<not> contains (recipe ''gate-m11'') (str ''scripts/gate_m11.py'') \<or>
              \<not> contains (recipe ''gate-m11'') (str ''--skip-suites'') then
            failed ''gate-m11 must run its static audit after all focused suites'' []
          else if absent all_targets phony \<noteq> [] then failed ''M11 targets are not phony'' (absent all_targets phony)
          else if absent all_targets (recipe ''help'') \<noteq> [] then
            failed ''Makefile help omits M11 targets'' (absent all_targets (recipe ''help''))
          else okay ''all seven HARNESS targets and gate-m11 are focused and fully wired'' [])"

section \<open>The gate\<close>

definition run_python_suite :: "repo \<Rightarrow> pystr \<Rightarrow> pystr \<Rightarrow> int \<Rightarrow> outcome" where
  "run_python_suite w name module minimum = counted_suite w name module minimum"

interpretation suite11: floor_suite run_python_suite
  by unfold_locales (simp add: run_python_suite_def counted_suite_verdict)

definition NATIVE_COUNT_RE :: rx where
  "NATIVE_COUNT_RE = rx_seq [Bol, rx_lit ''tests:'', Star rx_space, Grp 1 (rx_plus rx_digit), rx_plus rx_space,
     rx_lit ''run'', WordB]"

definition native_argv :: "repo \<Rightarrow> string \<Rightarrow> pystr list" where
  "native_argv w p = [build_path w (str ''debug/asmflow-tests''), str ''--filter'', str p, str ''--verbose'']"

definition run_native_suite :: "repo \<Rightarrow> string \<Rightarrow> string \<Rightarrow> int \<Rightarrow> outcome" where
  "run_native_suite w name p minimum =
     (case proc w (native_argv w p) of
        TimedOut \<Rightarrow> failed ''exceeded the 300 second gate budget'' [str name]
      | NotFound \<Rightarrow> raised (OsError (build_path w (str ''debug/asmflow-tests'')))
      | Done rc out err \<Rightarrow>
          (let output = out @ err; count = group1 NATIVE_COUNT_RE output in
           if rc \<noteq> 0 then failed ''failed'' [str name, output]
           else if count = None \<or> int_of (the count) < minimum then failed ''ran too few native tests'' [str name, output]
           else okay ''native tests'' [int_of (the count)]))"

definition NATIVE_SUITES :: "(string \<times> string \<times> int) list" where
  "NATIVE_SUITES = [(''secure buffer regressions'', ''m11/security'', 2), (''control peer regression'', ''m11/control_peer'', 1),
     (''provider header regressions'', ''m11/provider_header'', 2), (''backup/restore regressions'', ''backup/'', 5)]"

definition static_checks_m11 ::
  "(pystr \<Rightarrow> pystr list option) \<Rightarrow> (pystr \<Rightarrow> json list option option) \<Rightarrow> repo \<Rightarrow> outcome list" where
  "static_checks_m11 fdefs assigned w =
     [check_required_assets_and_build w, check_structured_redaction_and_diagnostics w, check_auth_permissions_and_audit w,
      check_backup_restore_and_policy_boundary w, check_shutdown_and_crash_contracts w,
      check_test_and_fuzz_matrix fdefs assigned w, check_make_wiring_m11 w]"

definition checks_m11 ::
  "(pystr \<Rightarrow> pystr list option) \<Rightarrow> (pystr \<Rightarrow> json list option option) \<Rightarrow> bool \<Rightarrow> repo \<Rightarrow> outcome list" where
  "checks_m11 fdefs assigned skip_suites w = static_checks_m11 fdefs assigned w
     @ (if skip_suites then []
        else map (\<lambda>(name, p, k). run_native_suite w name p k) NATIVE_SUITES
          @ map (\<lambda>(name, m, k). run_python_suite w (str name) (str m) k) SUITES_M11)"

definition main_m11 ::
  "(pystr \<Rightarrow> pystr list option) \<Rightarrow> (pystr \<Rightarrow> json list option option) \<Rightarrow> bool \<Rightarrow> repo \<Rightarrow> int" where
  "main_m11 fdefs assigned skip_suites w = gate_exit (run_all (checks_m11 fdefs assigned skip_suites w))"

interpretation gate11: accumulating_gate "checks_m11 fdefs assigned skip" "main_m11 fdefs assigned skip"
  for fdefs assigned skip
  by unfold_locales (rule main_m11_def)

section \<open>What the seed check shows\<close>

definition seed_name :: "json \<Rightarrow> pystr option" where
  "seed_name e =
     (case e of JObj d \<Rightarrow> (case map_of d (str ''name'') of Some (JStr n) \<Rightarrow> Some n | _ \<Rightarrow> None) | _ \<Rightarrow> None)"

text \<open>A seed in order: a string name and one encoding of at most 8192 bytes.\<close>

definition good_seed :: "json \<Rightarrow> bool" where
  "good_seed e \<longleftrightarrow> seed_name e \<noteq> None \<and>
     (case e of JObj d \<Rightarrow> (case seed_bytes d of Inr bs \<Rightarrow> length bs \<le> 8192 | Inl _ \<Rightarrow> False) | _ \<Rightarrow> False)"

definition good_seeds :: "json \<Rightarrow> bool" where
  "good_seeds v \<longleftrightarrow>
     (case v of JArr es \<Rightarrow> es \<noteq> [] \<and> list_all good_seed es \<and> distinct (map seed_name es) | _ \<Rightarrow> False)"

lemma seed_loop_None:
  "seed_loop names es = None \<longleftrightarrow>
     list_all good_seed es \<and> distinct (map seed_name es) \<and> set (map seed_name es) \<inter> Some ` set names = {}"
proof (induction names es rule: seed_loop.induct)
  case (2 names entry rest)
  show ?case
  proof (cases "seed_name (JObj entry)")
    case None
    then show ?thesis by (auto simp: seed_name_def good_seed_def split: option.splits json.splits)
  next
    case (Some n)
    then have n: "map_of entry (str ''name'') = Some (JStr n)"
      by (auto simp: seed_name_def split: option.splits json.splits)
    show ?thesis using 2 n Some by (cases "seed_bytes entry") (auto simp: good_seed_def)
  qed
qed (simp_all add: good_seed_def seed_name_def)

lemma first_exn_None: "first_exn f xs = None \<longleftrightarrow> list_all (\<lambda>x. f x = None) xs"
  by (induction xs) (auto split: option.splits)

lemma target_seeds_None: "target_seeds m t = None \<longleftrightarrow> (\<exists>v. subscript t m = Inr v \<and> good_seeds v)"
  by (cases "subscript t m") (auto simp: target_seeds_def good_seeds_def seed_loop_None split: json.splits)

text \<open>A hexadecimal seed is read as bytes, at most one for two characters.\<close>

lemma fromhex_bytes:
  "fromhex s = Some bs \<Longrightarrow> list_all (\<lambda>b. 0 \<le> b \<and> b \<le> 255) bs \<and> 2 * length bs \<le> length s"
proof (induction s arbitrary: bs rule: fromhex.induct)
  case (2 c s)
  have digit: "hex_digit x = Some y \<Longrightarrow> 0 \<le> y \<and> y \<le> 15" for x y
    by (auto simp: hex_digit_def is_digit_def split: if_splits)
  show ?case
  proof (cases "c = 32 \<or> 9 \<le> c \<and> c \<le> 13")
    case True
    with 2(1) [OF True, of bs] 2(3) show ?thesis by auto
  next
    case False
    with 2(3) obtain d t x y rest where *: "s = d # t" "hex_digit c = Some x" "hex_digit d = Some y"
        "fromhex t = Some rest" "bs = (16 * x + y) # rest"
      by (auto split: list.splits option.splits)
    have "list_all (\<lambda>b. 0 \<le> b \<and> b \<le> 255) rest \<and> 2 * length rest \<le> length t"
      by (rule 2(2) [OF False *(1) refl *(2,3,4)])
    with * digit [OF *(2)] digit [OF *(3)] show ?thesis by auto
  qed
qed simp

text \<open>The keys of an object are the targets, or the manifest has no target to subscript.\<close>

lemma subscript_Inr: "subscript k m = Inr v \<longleftrightarrow> (\<exists>d. m = JObj d \<and> map_of d k = Some v)"
  by (cases m) (auto simp: subscript_def split: option.splits)

text \<open>
  The fuzz-seed check goes on exactly when the manifest is an object whose keys are the eight
  fuzz targets and each target has a non-empty list of seeds in order: objects with pairwise
  different string names, each with exactly one of a UTF-8 and a hexadecimal encoding that
  decodes to at most 8192 bytes. A manifest of any other shape is a failure or a traceback.
\<close>

lemma fuzz_seed_contract:
  "passed (check_seeds manifest k) \<longleftrightarrow>
     (\<exists>d. manifest = JObj d \<and> fst ` set d = set (map str FUZZ_TARGETS) \<and>
        list_all (\<lambda>t. \<exists>v. map_of d (str t) = Some v \<and> good_seeds v) FUZZ_TARGETS) \<and>
     passed k"
proof -
  let ?T = "set (map (\<lambda>t. JStr (str t)) FUZZ_TARGETS)"
  let ?x = "first_exn (target_seeds manifest) (sorted_set (map str FUZZ_TARGETS))"
  have keys: "set (map (\<lambda>(k, x). JStr k) d) = ?T \<longleftrightarrow> fst ` set d = set (map str FUZZ_TARGETS)" for d :: "(pystr \<times> json) list"
    using inj_image_eq_iff [of JStr "fst ` set d" "set (map str FUZZ_TARGETS)"]
    by (simp add: inj_def image_image split_beta)
  have x: "?x = None \<longleftrightarrow> list_all (\<lambda>t. \<exists>d v. manifest = JObj d \<and> map_of d (str t) = Some v \<and> good_seeds v) FUZZ_TARGETS"
    unfolding first_exn_None by (auto simp: list_all_iff target_seeds_None subscript_Inr)
  have "passed (check_seeds manifest k) \<longleftrightarrow> (\<exists>ks. py_iter manifest = Inr ks \<and> set ks = ?T) \<and> ?x = None \<and> passed k"
    by (auto simp: check_seeds_def split: option.split pyexn.split)
  also have "\<dots> \<longleftrightarrow> (\<exists>d. manifest = JObj d \<and> set (map (\<lambda>(k, x). JStr k) d) = ?T) \<and> ?x = None \<and> passed k"
    unfolding x by (cases manifest) (auto simp: py_iter_def FUZZ_TARGETS_def)
  finally show ?thesis unfolding x keys
    by (cases manifest) (auto simp: list_all_iff FUZZ_TARGETS_def)
qed

end
