(* ===== verification/Checked.thy ===== *)
theory Checked
  imports Prelude "HOL-Library.Word"
begin

unbundle bit_operations_syntax

text \<open>
  The flags of the x86-64 instructions the runtime tests after arithmetic, and the
  overflow-checked size arithmetic of \<open>src/memory/checked.asm\<close>. A register is a \<open>64 word\<close>. A
  function that stores through \<open>out\<close> only on success returns \<open>Inr\<close> the stored value or \<open>Inl\<close>
  the status it leaves in \<open>rax\<close>.
\<close>

type_synonym u64 = "64 word"

datatype af_status =
    AF_E_OVERFLOW | AF_E_LIMIT | AF_E_INVALID | AF_E_NOMEM | AF_E_RANGE | AF_E_AGAIN
  | AF_E_CTL_FRAME_LARGE | AF_E_MCP_PROTOCOL | AF_E_HTTP_AUTH | AF_E_UP_CANCELLED
  | AF_E_INTERNAL | AF_E_JSON_DEPTH | AF_E_JSON_PARSE | AF_E_JSON_TYPE | AF_E_JSON_SIZE | AF_E_NOTFOUND
  | AF_E_EOF | AF_E_CLOSED | AF_E_MCP_TIMEOUT | AF_E_MCP_ERA | AF_E_MCP_NOT_READY | AF_E_MCP_CRASH_LOOP

text \<open>Nanoseconds in a millisecond.\<close>

definition NS_PER_MS :: u64 where "NS_PER_MS = 1000000"

section \<open>Flags\<close>

text \<open>The carry flag of \<open>add a, b\<close> and of \<open>sub a, b\<close>.\<close>

definition add_carry :: "u64 \<Rightarrow> u64 \<Rightarrow> bool" where
  "add_carry a b \<longleftrightarrow> 2 ^ 64 \<le> uint a + uint b"

definition sub_carry :: "u64 \<Rightarrow> u64 \<Rightarrow> bool" where
  "sub_carry a b \<longleftrightarrow> uint a < uint b"

text \<open>The overflow flag of \<open>imul r, a, b\<close>: the signed product does not fit.\<close>

definition imul_overflow :: "u64 \<Rightarrow> u64 \<Rightarrow> bool" where
  "imul_overflow a b \<longleftrightarrow> sint a * sint b \<noteq> sint (a * b)"

text \<open>The high half \<open>rdx\<close> of \<open>mul b\<close> with \<open>rax = a\<close>.\<close>

definition mul_high :: "u64 \<Rightarrow> u64 \<Rightarrow> u64" where
  "mul_high a b = word_of_int ((uint a * uint b) div 2 ^ 64)"

lemma uint_u64_bounds [simp]: "0 \<le> uint (a :: u64)" "uint (a :: u64) < 18446744073709551616"
  using uint_lt2p [of a] by auto

lemma uint_add_no_carry: "\<not> add_carry a b \<Longrightarrow> uint (a + b) = uint a + uint b"
  by (simp add: add_carry_def uint_word_ariths)

lemma uint_sub_no_carry:
  assumes "\<not> sub_carry a b" shows "uint (a - b) = uint a - uint b"
proof -
  have "0 \<le> uint a - uint b" and "uint a - uint b < 18446744073709551616"
    using assms uint_u64_bounds(2) [of a] uint_u64_bounds(1) [of b] unfolding sub_carry_def by linarith+
  then show ?thesis by (simp add: uint_word_ariths)
qed

lemma mul_high_zero: "mul_high a b = 0 \<longleftrightarrow> uint a * uint b < 2 ^ 64"
proof -
  let ?h = "(uint a * uint b) div 2 ^ 64"
  have "uint a * uint b < 2 ^ 64 * 2 ^ 64"
    by (rule mult_strict_mono') auto
  then have "?h < 2 ^ 64" by simp
  moreover have "0 \<le> ?h" by (simp add: pos_imp_zdiv_nonneg_iff)
  ultimately have "uint (mul_high a b) = ?h"
    unfolding mul_high_def by (subst uint_word_of_int_eq) (simp add: take_bit_int_eq_self)
  then have "mul_high a b = 0 \<longleftrightarrow> ?h = 0" by (metis uint_0_iff)
  also have "\<dots> \<longleftrightarrow> uint a * uint b < 2 ^ 64"
    by (auto simp: zdiv_eq_0_iff)
  finally show ?thesis .
qed

section \<open>Checked size arithmetic\<close>

definition af_add_size :: "u64 \<Rightarrow> u64 \<Rightarrow> af_status + u64" where
  "af_add_size a b = (if add_carry a b then Inl AF_E_OVERFLOW else Inr (a + b))"

definition af_sub_size :: "u64 \<Rightarrow> u64 \<Rightarrow> af_status + u64" where
  "af_sub_size a b = (if sub_carry a b then Inl AF_E_OVERFLOW else Inr (a - b))"

definition af_mul_size :: "u64 \<Rightarrow> u64 \<Rightarrow> af_status + u64" where
  "af_mul_size a b = (if mul_high a b \<noteq> 0 then Inl AF_E_OVERFLOW else Inr (a * b))"

definition af_add_size3 :: "u64 \<Rightarrow> u64 \<Rightarrow> u64 \<Rightarrow> af_status + u64" where
  "af_add_size3 a b c =
     (if add_carry a b then Inl AF_E_OVERFLOW
      else if add_carry (a + b) c then Inl AF_E_OVERFLOW
      else Inr (a + b + c))"

definition af_grow_size :: "u64 \<Rightarrow> u64 \<Rightarrow> u64 \<Rightarrow> af_status + u64" where
  "af_grow_size current needed maximum =
     (if maximum < needed then Inl AF_E_LIMIT
      else if current \<noteq> 0 \<and> add_carry current current then Inl AF_E_OVERFLOW
      else
        let doubled = (if current = 0 then 64 else current + current);
            at_least = (if needed \<le> doubled then doubled else needed)
        in Inr (if at_least \<le> maximum then at_least else maximum))"

definition af_align_up :: "u64 \<Rightarrow> u64 \<Rightarrow> af_status + u64" where
  "af_align_up value alignment =
     (if alignment = 0 then Inl AF_E_INVALID
      else if alignment AND (alignment - 1) \<noteq> 0 then Inl AF_E_INVALID
      else if add_carry value (alignment - 1) then Inl AF_E_OVERFLOW
      else Inr ((value + (alignment - 1)) AND NOT (alignment - 1)))"

text \<open>The product of two words whose high half is zero.\<close>

lemma uint_mul_small: "mul_high a b = 0 \<Longrightarrow> uint (a * b) = uint a * uint b"
  by (simp add: mul_high_zero uint_word_ariths)

text \<open>The checked operations over the integers.\<close>

lemma af_add_size_exact:
  "map_sum id uint (af_add_size a b) = (if uint a + uint b < 2 ^ 64 then Inr (uint a + uint b) else Inl AF_E_OVERFLOW)"
  using uint_add_no_carry [of a b] by (auto simp: af_add_size_def add_carry_def)

lemma af_sub_size_exact:
  "map_sum id uint (af_sub_size a b) = (if uint b \<le> uint a then Inr (uint a - uint b) else Inl AF_E_OVERFLOW)"
  using uint_sub_no_carry [of a b] by (auto simp: af_sub_size_def sub_carry_def)

lemma af_mul_size_exact:
  "map_sum id uint (af_mul_size a b) = (if uint a * uint b < 2 ^ 64 then Inr (uint a * uint b) else Inl AF_E_OVERFLOW)"
  using uint_mul_small [of a b] mul_high_zero [of a b] by (auto simp: af_mul_size_def)

lemma af_add_size3_exact:
  "map_sum id uint (af_add_size3 a b c) =
     (if uint a + uint b + uint c < 2 ^ 64 then Inr (uint a + uint b + uint c) else Inl AF_E_OVERFLOW)"
proof (cases "add_carry a b")
  case True
  moreover have "0 \<le> uint c" by simp
  ultimately have "\<not> uint a + uint b + uint c < 2 ^ 64" unfolding add_carry_def by linarith
  with True show ?thesis by (simp add: af_add_size3_def)
next
  case False
  with uint_add_no_carry [of "a + b" c] show ?thesis
    by (simp add: af_add_size3_def add_carry_def uint_add_no_carry)
qed

text \<open>
  The checked operations compute over the integers: each returns the exact sum, difference
  or product when it fits in 64 bits, and the overflow status, with nothing stored, exactly
  when it does not.
\<close>

lemma checked_arithmetic_exact:
  "map_sum id uint (af_add_size a b) = (if uint a + uint b < 2 ^ 64 then Inr (uint a + uint b) else Inl AF_E_OVERFLOW) \<and>
   map_sum id uint (af_sub_size a b) = (if uint b \<le> uint a then Inr (uint a - uint b) else Inl AF_E_OVERFLOW) \<and>
   map_sum id uint (af_mul_size a b) = (if uint a * uint b < 2 ^ 64 then Inr (uint a * uint b) else Inl AF_E_OVERFLOW) \<and>
   map_sum id uint (af_add_size3 a b c) =
     (if uint a + uint b + uint c < 2 ^ 64 then Inr (uint a + uint b + uint c) else Inl AF_E_OVERFLOW)"
  by (intro conjI af_add_size_exact af_sub_size_exact af_mul_size_exact af_add_size3_exact)

text \<open>
  A buffer grows to a capacity that covers what is needed and stays within its maximum:
  the doubled capacity (64 bytes at first), raised to what is needed and cut at the maximum. It
  fails with the limit status exactly when the need is above the maximum, and otherwise with
  the overflow status exactly when doubling wraps.
\<close>

lemma af_grow_size_bounds:
  "(case af_grow_size current needed maximum of
      Inr c \<Rightarrow> needed \<le> c \<and> c \<le> maximum \<and>
        uint c = min (uint maximum) (max (uint needed) (if current = 0 then 64 else 2 * uint current))
    | Inl e \<Rightarrow> e = (if maximum < needed then AF_E_LIMIT else AF_E_OVERFLOW) \<and>
        (maximum < needed \<or> 2 ^ 64 \<le> 2 * uint current))"
proof (cases "maximum < needed \<or> add_carry current current \<and> current \<noteq> 0")
  case True
  then show ?thesis by (auto simp: af_grow_size_def add_carry_def)
next
  case False
  then have "uint (current + current) = 2 * uint current"
    using uint_add_no_carry [of current current] by (cases "current = 0") auto
  with False show ?thesis
    by (auto simp: af_grow_size_def Let_def word_le_def word_less_def not_le min_def max_def split: if_splits)
qed

section \<open>Alignment\<close>

text \<open>The test of the code for a power of two: the number shares no bit with its predecessor.\<close>

lemma power_of_two_int:
  fixes n :: int
  assumes "0 < n" and "n AND (n - 1) = 0"
  shows "\<exists>k. n = 2 ^ k"
  using assms
proof (induction "nat n" arbitrary: n rule: less_induct)
  case less
  have step: "n AND (n - 1) = of_bool (odd n \<and> odd (n - 1)) + 2 * (n div 2 AND (n - 1) div 2)"
    by (rule and_rec)
  show ?case
  proof (cases "odd n")
    case True
    then have "(n - 1) div 2 = n div 2" by presburger
    with step less.prems True have "n div 2 = 0" by simp
    with True less.prems(1) have "n = 1" by presburger
    then have "n = 2 ^ 0" by simp
    then show ?thesis by blast
  next
    case False
    then have "(n - 1) div 2 = n div 2 - 1" and pos: "0 < n div 2" using less.prems(1) by presburger+
    with step less.prems False have "n div 2 AND (n div 2 - 1) = 0" by simp
    moreover have "nat (n div 2) < nat n" using less.prems(1) by simp
    ultimately obtain k where "n div 2 = 2 ^ k" using less.hyps pos by blast
    with False have "n = 2 ^ Suc k" by (simp add: dvd_div_eq_mult mult.commute flip: dvd_mult_div_cancel)
    then show ?thesis by blast
  qed
qed

lemma power_of_two_predecessor: "(2 :: int) ^ k AND (2 ^ k - 1) = 0"
  by (simp flip: mask_eq_exp_minus_1 take_bit_eq_mask)

lemma power_of_two_word:
  "al \<noteq> 0 \<and> al AND (al - 1) = 0 \<longleftrightarrow> (\<exists>k. uint (al :: u64) = 2 ^ k)"
proof (cases "al = 0")
  case False
  then have "0 < uint al" using uint_u64_bounds(1) [of al] uint_0_iff [of al] by linarith
  moreover from this have "uint (al - 1) = uint al - 1"
    using uint_sub_no_carry [of al 1] by (simp add: sub_carry_def)
  moreover have "al AND (al - 1) = 0 \<longleftrightarrow> uint al AND uint (al - 1) = 0"
    by (simp add: uint_0_iff flip: uint_and)
  ultimately have "al AND (al - 1) = 0 \<longleftrightarrow> (\<exists>k. uint al = 2 ^ k)"
    using power_of_two_int [of "uint al"] by (auto simp: power_of_two_predecessor)
  with False show ?thesis by simp
qed simp

lemma uint_and_not_mask: "uint (x AND NOT (mask k)) = uint x - uint x mod 2 ^ k" for x :: u64
proof -
  have "uint (x AND NOT (mask k)) = push_bit k (drop_bit k (uint x))"
    by (rule bit_eqI) (auto simp: bit_simps dest: bit_imp_le_length)
  then show ?thesis
    using bits_ident [of k "uint x"] by (simp add: take_bit_eq_mod)
qed

text \<open>
  Aligning a value returns the least multiple of the alignment that is not below it. The
  call is refused as invalid exactly when the alignment is no power of two, and otherwise as an
  overflow exactly when the rounding up would leave 64 bits.
\<close>

lemma af_align_up_least:
  "(case af_align_up value alignment of
      Inr w \<Rightarrow> (\<exists>k. uint alignment = 2 ^ k) \<and> uint alignment dvd uint w \<and>
        uint value \<le> uint w \<and> uint w < uint value + uint alignment
    | Inl AF_E_OVERFLOW \<Rightarrow> (\<exists>k. uint alignment = 2 ^ k) \<and> 2 ^ 64 \<le> uint value + (uint alignment - 1)
    | Inl e \<Rightarrow> e = AF_E_INVALID \<and> (\<nexists>k. uint alignment = 2 ^ k))"
proof (cases "\<exists>k. uint alignment = 2 ^ k")
  case False
  with power_of_two_word [of alignment] show ?thesis by (auto simp: af_align_up_def)
next
  case True
  then obtain k where k: "uint alignment = 2 ^ k" by blast
  have nz: "alignment \<noteq> 0" and test: "alignment AND (alignment - 1) = 0"
    using True power_of_two_word [of alignment] by blast+
  have pred: "uint (alignment - 1) = 2 ^ k - 1"
    using uint_sub_no_carry [of alignment 1] k by (simp add: sub_carry_def not_less)
  show ?thesis
  proof (cases "add_carry value (alignment - 1)")
    case True
    with nz test k pred show ?thesis by (auto simp: af_align_up_def add_carry_def)
  next
    case False
    have "alignment = word_of_int (2 ^ k)" by (simp flip: k)
    then have mask: "alignment - 1 = mask k" by (simp add: mask_eq_exp_minus_1)
    let ?s = "value + (alignment - 1)"
    have s: "uint ?s = uint value + (2 ^ k - 1)" using uint_add_no_carry [OF False] pred by simp
    have w: "uint (?s AND NOT (alignment - 1)) = uint ?s - uint ?s mod 2 ^ k"
      unfolding mask by (rule uint_and_not_mask)
    have "uint ?s mod 2 ^ k < 2 ^ k" and "0 \<le> uint ?s mod 2 ^ k" by simp_all
    with s w have "uint value \<le> uint (?s AND NOT (alignment - 1))"
      and "uint (?s AND NOT (alignment - 1)) < uint value + uint alignment"
      unfolding k by linarith+
    moreover have "uint alignment dvd uint (?s AND NOT (alignment - 1))"
      unfolding w k by (rule dvd_minus_mod)
    ultimately show ?thesis using nz test k False by (auto simp: af_align_up_def)
  qed
qed

end
