(* ===== verification/Circuit_Breaker.thy ===== *)
theory Circuit_Breaker
  imports Checked
begin

text \<open>
  \<open>src/routing/routing_health.asm\<close>: the health record of a provider, the operations on it and
  the circuit breaker they make. Fields are 64-bit words; pointers to a record are not null. The
  thresholds and the cooldown come from the provider's configuration, \<open>None\<close> for the null
  pointer the operations allow there.

  An attempt in flight is remembered by the exchange that started it as its probe flag, so the
  breaker together with its exchanges is a state machine: \<open>breaker_step\<close> is one exchange
  starting or releasing an attempt (\<open>af_prov_attempt_start\<close>, \<open>af_prov_attempt_release\<close> in
  \<open>src/providers/provider_exchange.asm\<close>) or a routing decision looking at the state.
\<close>

type_synonym cstring = "8 word list"

section \<open>State\<close>

datatype health = HEALTHY | DEGRADED | OPEN | HALF_OPEN | DISABLED

record prov_state =
  ps_id :: "cstring option"
  ps_health :: health
  ps_failures :: u64
  ps_successes :: u64
  ps_open_until :: u64
  ps_active :: u64
  ps_ewma :: u64
  ps_backoff_ms :: u64
  ps_probes :: u64
  ps_requests :: u64
  ps_failed :: u64
  ps_opened :: u64

record health_config =
  hlt_fail_thr :: u64
  hlt_succ_thr :: u64
  hlt_cooldown_ms :: u64

definition AF_HALF_OPEN_PROBES :: u64 where "AF_HALF_OPEN_PROBES = 1"

definition AF_HEALTH_MAX_BACKOFF :: u64 where "AF_HEALTH_MAX_BACKOFF = 16"


lemmas breaker_consts = AF_HALF_OPEN_PROBES_def AF_HEALTH_MAX_BACKOFF_def NS_PER_MS_def

text \<open>The record \<open>af_routing_provider\<close> makes on first sight: zeroed, named and healthy.\<close>

definition new_state :: "cstring \<Rightarrow> prov_state" where
  "new_state i = \<lparr>ps_id = Some i, ps_health = HEALTHY, ps_failures = 0, ps_successes = 0, ps_open_until = 0,
     ps_active = 0, ps_ewma = 0, ps_backoff_ms = 0, ps_probes = 0, ps_requests = 0, ps_failed = 0, ps_opened = 0\<rparr>"

section \<open>Operations\<close>

definition af_health_refresh :: "prov_state \<Rightarrow> u64 \<Rightarrow> prov_state" where
  "af_health_refresh s now =
     (if ps_health s \<noteq> OPEN then s
      else if now < ps_open_until s then s
      else s\<lparr>ps_health := HALF_OPEN, ps_probes := 0, ps_successes := 0\<rparr>)"

definition af_health_admit :: "prov_state \<Rightarrow> bool" where
  "af_health_admit s =
     (case ps_health s of
        HEALTHY \<Rightarrow> True
      | DEGRADED \<Rightarrow> True
      | HALF_OPEN \<Rightarrow> ps_probes s < AF_HALF_OPEN_PROBES
      | _ \<Rightarrow> False)"

text \<open>\<open>af_health_begin\<close> returns the probe flag with the updated record.\<close>

definition af_health_begin :: "prov_state \<Rightarrow> bool \<times> prov_state" where
  "af_health_begin s =
     (let s = s\<lparr>ps_active := ps_active s + 1, ps_requests := ps_requests s + 1\<rparr> in
      if ps_health s \<noteq> HALF_OPEN then (False, s) else (True, s\<lparr>ps_probes := ps_probes s + 1\<rparr>))"

definition af_health_end :: "prov_state \<Rightarrow> bool \<Rightarrow> prov_state" where
  "af_health_end s was_probe =
     (let s = (if ps_active s = 0 then s else s\<lparr>ps_active := ps_active s - 1\<rparr>) in
      if \<not> was_probe then s
      else if ps_probes s = 0 then s
      else s\<lparr>ps_probes := ps_probes s - 1\<rparr>)"

text \<open>
  One quarter of the observation and three quarters of the old value. The overflow exits
  return the observation.
\<close>

definition af_health_ewma :: "u64 \<Rightarrow> u64 \<Rightarrow> u64" where
  "af_health_ewma old observed =
     (let observed = (if observed = 0 then 1 else observed) in
      if old = 0 then observed
      else if imul_overflow observed 1 then observed
      else if imul_overflow old 3 then observed
      else if add_carry (observed * 1) (old * 3) then observed
      else let mean = (observed * 1 + old * 3) div 4 in if mean = 0 then 1 else mean)"

definition success_threshold :: "health_config option \<Rightarrow> u64" where
  "success_threshold p =
     (case p of None \<Rightarrow> 1 | Some c \<Rightarrow> if hlt_succ_thr c = 0 then 1 else hlt_succ_thr c)"

definition af_health_success :: "prov_state \<Rightarrow> health_config option \<Rightarrow> u64 \<Rightarrow> prov_state" where
  "af_health_success s p latency =
     (let s = s\<lparr>ps_failures := 0, ps_successes := ps_successes s + 1, ps_ewma := af_health_ewma (ps_ewma s) latency\<rparr> in
      if ps_health s \<in> {HEALTHY, DISABLED, OPEN} then s
      else if ps_successes s < success_threshold p then s
      else s\<lparr>ps_health := HEALTHY, ps_backoff_ms := 0, ps_successes := 0\<rparr>)"

definition cooldown_of :: "health_config option \<Rightarrow> u64" where
  "cooldown_of p = (case p of None \<Rightarrow> 1000 | Some c \<Rightarrow> if hlt_cooldown_ms c = 0 then 1000 else hlt_cooldown_ms c)"

definition failure_threshold :: "health_config option \<Rightarrow> u64" where
  "failure_threshold p = (case p of None \<Rightarrow> 1 | Some c \<Rightarrow> if hlt_fail_thr c = 0 then 1 else hlt_fail_thr c)"

text \<open>The label \<open>.probe_failed\<close>: the next backoff after \<open>backoff\<close>.\<close>

definition longer_backoff :: "u64 \<Rightarrow> u64 \<Rightarrow> u64" where
  "longer_backoff cooldown backoff =
     (let b = (if backoff = 0 then cooldown else backoff) in
      if add_carry b b then cooldown * AF_HEALTH_MAX_BACKOFF
      else if imul_overflow cooldown AF_HEALTH_MAX_BACKOFF then cooldown * AF_HEALTH_MAX_BACKOFF
      else if b + b \<le> cooldown * AF_HEALTH_MAX_BACKOFF then b + b
      else cooldown * AF_HEALTH_MAX_BACKOFF)"

text \<open>The label \<open>.open_it\<close>.\<close>

definition open_circuit :: "prov_state \<Rightarrow> u64 \<Rightarrow> u64 \<Rightarrow> prov_state" where
  "open_circuit s backoff now =
     s\<lparr>ps_backoff_ms := backoff, ps_health := OPEN, ps_probes := 0, ps_opened := ps_opened s + 1,
       ps_open_until := backoff * NS_PER_MS + now\<rparr>"

definition af_health_failure :: "prov_state \<Rightarrow> health_config option \<Rightarrow> u64 \<Rightarrow> prov_state" where
  "af_health_failure s p now =
     (let s = s\<lparr>ps_successes := 0, ps_failures := ps_failures s + 1, ps_failed := ps_failed s + 1\<rparr> in
      if ps_health s = DISABLED then s
      else if ps_health s = HALF_OPEN then open_circuit s (longer_backoff (cooldown_of p) (ps_backoff_ms s)) now
      else if failure_threshold p \<le> ps_failures s then open_circuit s (cooldown_of p) now
      else s\<lparr>ps_health := DEGRADED\<rparr>)"

definition af_health_state_name :: "u64 \<Rightarrow> string" where
  "af_health_state_name state =
     (if 5 \<le> state then ''unknown''
      else [''healthy'', ''degraded'', ''open'', ''half_open'', ''disabled''] ! unat state)"

section \<open>Latency\<close>

lemma sint_small: "uint a < 2 ^ 63 \<Longrightarrow> sint (a :: u64) = uint a"
proof -
  assume "uint a < 2 ^ 63"
  moreover have "- (2 ^ 63) \<le> uint a" by (rule order_trans [of _ 0]) simp_all
  ultimately show ?thesis by (simp add: sint_uint signed_take_bit_int_eq_self)
qed

lemma uint_pos: "a \<noteq> 0 \<Longrightarrow> 1 \<le> uint (a :: u64)"
  using uint_u64_bounds(1) [of a] uint_0_iff [of a] by linarith

lemma word_dec_le: "a \<noteq> 0 \<Longrightarrow> a - 1 \<le> (a :: u64)"
  using uint_sub_no_carry [of a 1] uint_pos [of a] by (simp add: sub_carry_def word_le_def)

lemma imul_small:
  assumes "uint a * uint b < 2 ^ 63" and "a \<noteq> 0" and "b \<noteq> 0"
  shows "\<not> imul_overflow a b" and "uint (a * b) = uint a * uint b"
proof -
  have pos: "1 \<le> uint a" "1 \<le> uint b" using assms uint_pos by blast+
  then have "uint a * 1 \<le> uint a * uint b" and "1 * uint b \<le> uint a * uint b"
    by (intro mult_left_mono mult_right_mono; simp)+
  with assms have small: "uint a < 2 ^ 63" "uint b < 2 ^ 63" by linarith+
  show prod: "uint (a * b) = uint a * uint b"
    using assms(1) by (simp add: uint_word_ariths)
  show "\<not> imul_overflow a b"
    using assms(1) small by (simp add: imul_overflow_def sint_small prod)
qed

lemma imul_one [simp]: "\<not> imul_overflow a 1"
  by (simp add: imul_overflow_def)

lemma ewma_known: "af_health_ewma old observed \<noteq> 0"
  by (simp add: af_health_ewma_def Let_def)

lemma ewma_exact:
  assumes "old \<noteq> 0" and "3 * uint old < 2 ^ 63" and "max 1 (uint observed) + 3 * uint old < 2 ^ 64"
  shows "uint (af_health_ewma old observed) = (max 1 (uint observed) + 3 * uint old) div 4"
proof -
  let ?o = "if observed = 0 then 1 else observed"
  have o: "uint ?o = max 1 (uint observed)"
    using uint_pos [of observed] by auto
  have old: "1 \<le> uint old" using assms(1) by (rule uint_pos)
  have mul: "\<not> imul_overflow old 3" "uint (old * 3) = 3 * uint old"
    using imul_small [of old 3] assms old by (simp_all add: mult.commute)
  have carry: "\<not> add_carry ?o (old * 3)"
    using assms(3) o mul by (simp add: add_carry_def)
  have sum: "uint (?o + old * 3) = max 1 (uint observed) + 3 * uint old"
    using uint_add_no_carry [OF carry] o mul by simp
  have four: "4 \<le> max 1 (uint observed) + 3 * uint old" using old by linarith
  have mean: "uint ((?o + old * 3) div 4) = (max 1 (uint observed) + 3 * uint old) div 4"
    by (simp add: uint_div sum)
  moreover have "(?o + old * 3) div 4 \<noteq> 0" using mean four by fastforce
  ultimately show ?thesis using mul carry assms(1) by (simp add: af_health_ewma_def Let_def)
qed

text \<open>
  The latency estimate is the quarter-weighted mean of the observation (at least one
  microsecond) and the old estimate, rounded down; it lies between the two, so it is positive and
  a measured provider never becomes an unmeasured one.
\<close>

lemma ewma_between:
  assumes "old \<noteq> 0" and "3 * uint old < 2 ^ 63" and "max 1 (uint observed) + 3 * uint old < 2 ^ 64"
  shows "uint (af_health_ewma old observed) = (max 1 (uint observed) + 3 * uint old) div 4 \<and>
    min (max 1 (uint observed)) (uint old) \<le> uint (af_health_ewma old observed) \<and>
    uint (af_health_ewma old observed) \<le> max (max 1 (uint observed)) (uint old) \<and>
    0 < uint (af_health_ewma old observed)"
proof -
  have "0 < uint (af_health_ewma old observed)"
    using uint_pos [OF ewma_known [of old observed]] by linarith
  then show ?thesis unfolding ewma_exact [OF assms] by linarith
qed

lemma ewma_between_witness:
  "uint (af_health_ewma 100 20) = 80 \<and> uint (af_health_ewma 100 0) = 75"
  using ewma_between [of 100 20] ewma_between [of 100 0] by simp

section \<open>Backoff\<close>

text \<open>Cooldowns whose sixteenfold fits in a signed register; the schema allows at most an hour.\<close>

definition moderate :: "health_config option \<Rightarrow> bool" where
  "moderate p \<longleftrightarrow> uint (cooldown_of p) * 16 < 2 ^ 63"

lemma cooldown_nonzero [simp]: "cooldown_of p \<noteq> 0"
  by (simp add: cooldown_of_def split: option.split)

lemma cooldown_pos: "1 \<le> uint (cooldown_of p)"
  by (rule uint_pos) simp

lemma longest_backoff:
  assumes "moderate p"
  shows "uint (cooldown_of p * AF_HEALTH_MAX_BACKOFF) = 16 * uint (cooldown_of p)"
    and "\<not> imul_overflow (cooldown_of p) AF_HEALTH_MAX_BACKOFF"
  using imul_small [of "cooldown_of p" 16] assms
  by (simp_all add: moderate_def breaker_consts)

lemma longer_backoff_exact:
  assumes "moderate p" and "uint b \<le> 16 * uint (cooldown_of p)"
  shows "uint (longer_backoff (cooldown_of p) b) =
    min (2 * (if b = 0 then uint (cooldown_of p) else uint b)) (16 * uint (cooldown_of p))"
proof -
  let ?b = "if b = 0 then cooldown_of p else b"
  have "2 * uint ?b < 2 ^ 64" using assms cooldown_pos [of p] by (auto simp: moderate_def)
  then have carry: "\<not> add_carry ?b ?b" by (simp add: add_carry_def)
  then have "uint (?b + ?b) = 2 * uint ?b" using uint_add_no_carry by fastforce
  then show ?thesis
    using carry longest_backoff [OF assms(1)]
    by (simp add: longer_backoff_def Let_def word_le_def min_def split: if_splits)
qed

section \<open>The machine\<close>

text \<open>
  The verdict an exchange releases its attempt with: nothing is learnt from a cancelled one, a
  success carries the measured latency and a failure the time.
\<close>

datatype verdict = Cancelled | Succeeded u64 | Failed u64

definition record_outcome :: "prov_state \<Rightarrow> health_config option \<Rightarrow> bool \<Rightarrow> verdict \<Rightarrow> prov_state" where
  "record_outcome s p was_probe v =
     (let s = af_health_end s was_probe in
      case v of
        Cancelled \<Rightarrow> s
      | Succeeded latency \<Rightarrow> af_health_success s p latency
      | Failed now \<Rightarrow> af_health_failure s p now)"

text \<open>The filters of a routing decision that read the health record: admission and capacity.\<close>

definition has_room :: "u64 \<Rightarrow> prov_state \<Rightarrow> bool" where
  "has_room max_concurrency s \<longleftrightarrow> max_concurrency = 0 \<or> ps_active s < max_concurrency"

definition AF_PROV_MAX_EXCHANGES :: nat where "AF_PROV_MAX_EXCHANGES = 64"

text \<open>
  The state is the record and the probe flags of the attempts in flight, at most one for each
  exchange of the engine's table.
\<close>

inductive breaker_step ::
  "health_config option \<Rightarrow> u64 \<Rightarrow> prov_state \<times> bool list \<Rightarrow> prov_state \<times> bool list \<Rightarrow> bool"
  for p :: "health_config option" and max_concurrency :: u64
where
  look: "breaker_step p max_concurrency (s, fl) (af_health_refresh s now, fl)"
| start: "af_health_admit (af_health_refresh s now) \<Longrightarrow> has_room max_concurrency (af_health_refresh s now) \<Longrightarrow>
    length fl < AF_PROV_MAX_EXCHANGES \<Longrightarrow> af_health_begin (af_health_refresh s now) = (flag, t) \<Longrightarrow>
    breaker_step p max_concurrency (s, fl) (t, flag # fl)"
| release: "fl = xs @ flag # ys \<Longrightarrow>
    breaker_step p max_concurrency (s, fl) (record_outcome s p flag v, xs @ ys)"

inductive breaker_reach :: "health_config option \<Rightarrow> u64 \<Rightarrow> prov_state \<times> bool list \<Rightarrow> bool"
  for p :: "health_config option" and max_concurrency :: u64
where
  init: "breaker_reach p max_concurrency (new_state i, [])"
| step: "breaker_reach p max_concurrency a \<Longrightarrow> breaker_step p max_concurrency a b \<Longrightarrow> breaker_reach p max_concurrency b"

inductive_cases breaker_stepE: "breaker_step p m (s, fl) (t, gl)"

lemmas breaker_ops = af_health_refresh_def af_health_begin_def af_health_end_def af_health_success_def
  af_health_failure_def open_circuit_def record_outcome_def Let_def

text \<open>What the record keeps of the attempts in flight and of its own fields.\<close>

definition slots_inv :: "prov_state \<times> bool list \<Rightarrow> bool" where
  "slots_inv a = (case a of (s, fl) \<Rightarrow>
     length fl \<le> AF_PROV_MAX_EXCHANGES \<and> ps_active s = of_nat (length fl) \<and>
     ps_probes s \<in> {0, 1} \<and> (ps_probes s = 0 \<or> True \<in> set fl))"

definition backoff_inv :: "health_config option \<Rightarrow> prov_state \<Rightarrow> bool" where
  "backoff_inv p s \<longleftrightarrow>
     (if ps_health s \<in> {OPEN, HALF_OPEN} then uint (cooldown_of p) \<le> uint (ps_backoff_ms s)
      else ps_health s \<noteq> DISABLED) \<and>
     uint (ps_backoff_ms s) \<le> 16 * uint (cooldown_of p) \<and>
     (ps_health s = HEALTHY \<longrightarrow> ps_failures s = 0)"

lemma of_nat_slots: "n \<le> AF_PROV_MAX_EXCHANGES \<Longrightarrow> (of_nat n = (0 :: u64)) = (n = 0)"
  by (auto simp: AF_PROV_MAX_EXCHANGES_def word_of_nat_eq_0_iff dest: dvd_imp_le)

lemma probes_cases [simp]: "(w :: u64) < AF_HALF_OPEN_PROBES \<longleftrightarrow> w = 0"
  by (simp add: AF_HALF_OPEN_PROBES_def word_less_1)

lemma end_slots:
  assumes "slots_inv (s, xs @ flag # ys)" shows "slots_inv (af_health_end s flag, xs @ ys)"
proof -
  let ?n = "length (xs @ ys)"
  from assms have n: "Suc ?n \<le> AF_PROV_MAX_EXCHANGES" and a: "ps_active s = of_nat (Suc ?n)"
    by (simp_all add: slots_inv_def)
  have "ps_active s \<noteq> 0" unfolding a using of_nat_slots [OF n] by simp
  moreover have "ps_active s - 1 = of_nat ?n" by (simp add: a)
  ultimately show ?thesis using assms n
    by (auto simp: slots_inv_def af_health_end_def Let_def)
qed

lemma success_slots: "slots_inv (s, fl) \<Longrightarrow> slots_inv (af_health_success s p l, fl)"
  by (simp add: slots_inv_def af_health_success_def Let_def)

lemma failure_slots: "slots_inv (s, fl) \<Longrightarrow> slots_inv (af_health_failure s p now, fl)"
  by (simp add: slots_inv_def af_health_failure_def open_circuit_def Let_def)

lemma refresh_slots: "slots_inv (s, fl) \<Longrightarrow> slots_inv (af_health_refresh s now, fl)"
  by (simp add: slots_inv_def af_health_refresh_def)

lemma begin_slots:
  assumes "slots_inv (s, fl)" and "af_health_admit s" and "length fl < AF_PROV_MAX_EXCHANGES"
    and "af_health_begin s = (flag, t)"
  shows "slots_inv (t, flag # fl)"
  using assms
  by (auto simp: slots_inv_def af_health_begin_def af_health_admit_def Let_def add.commute split: if_splits health.splits)

lemma slots_step:
  assumes "breaker_step p m a b" and "slots_inv a" shows "slots_inv b"
  using assms
proof (cases rule: breaker_step.cases)
  case (start s now fl flag t)
  with assms(2) show ?thesis by (blast intro: begin_slots refresh_slots)
next
  case (release fl xs flag ys s v)
  with assms(2) show ?thesis
    by (auto simp: record_outcome_def Let_def
        intro!: end_slots success_slots failure_slots split: verdict.split)
qed (simp add: refresh_slots)

text \<open>The health and the backoff under each operation.\<close>

lemma begin_backoff [simp]: "backoff_inv p (snd (af_health_begin s)) = backoff_inv p s"
  by (simp add: backoff_inv_def af_health_begin_def Let_def)

lemma end_backoff [simp]: "backoff_inv p (af_health_end s f) = backoff_inv p s"
  by (simp add: backoff_inv_def af_health_end_def Let_def)

lemma refresh_backoff: "backoff_inv p s \<Longrightarrow> backoff_inv p (af_health_refresh s now)"
  by (auto simp: backoff_inv_def af_health_refresh_def)

lemma success_backoff: "backoff_inv p s \<Longrightarrow> backoff_inv p (af_health_success s p l)"
  using cooldown_pos [of p] by (auto simp: backoff_inv_def af_health_success_def Let_def split: if_splits)

lemma failure_backoff:
  assumes "moderate p" and "backoff_inv p s" shows "backoff_inv p (af_health_failure s p now)"
proof -
  have "uint (cooldown_of p) \<le> 16 * uint (cooldown_of p)" using cooldown_pos [of p] by linarith
  moreover have "uint (longer_backoff (cooldown_of p) (ps_backoff_ms s)) \<le> 16 * uint (cooldown_of p)"
    and "ps_health s = HALF_OPEN \<Longrightarrow> uint (cooldown_of p) \<le> uint (longer_backoff (cooldown_of p) (ps_backoff_ms s))"
    using longer_backoff_exact [OF assms(1), of "ps_backoff_ms s"] assms(2) cooldown_pos [of p]
    by (auto simp: backoff_inv_def min_def)
  ultimately show ?thesis
    using assms(2) by (auto simp: backoff_inv_def af_health_failure_def open_circuit_def Let_def split: if_splits)
qed

lemma backoff_step:
  assumes "breaker_step p m a b" and "moderate p" and "backoff_inv p (fst a)" shows "backoff_inv p (fst b)"
  using assms
proof (cases rule: breaker_step.cases)
  case (start s now fl flag t)
  with assms(3) begin_backoff [of p "af_health_refresh s now"] show ?thesis by (simp add: refresh_backoff)
next
  case (release fl xs flag ys s v)
  with assms(2,3) show ?thesis
    by (auto simp: record_outcome_def Let_def success_backoff failure_backoff split: verdict.split)
qed (simp add: refresh_backoff)

lemma reach_slots: "breaker_reach p m a \<Longrightarrow> slots_inv a"
proof (induction rule: breaker_reach.induct)
  case (init i)
  show ?case by (simp add: slots_inv_def new_state_def)
qed (blast intro: slots_step)

lemma reach_backoff: "breaker_reach p m a \<Longrightarrow> moderate p \<Longrightarrow> backoff_inv p (fst a)"
proof (induction rule: breaker_reach.induct)
  case (init i)
  show ?case using cooldown_pos [of p] by (simp add: backoff_inv_def new_state_def)
qed (blast intro: backoff_step)

lemma active_outcome:
  "ps_active (af_health_success s p l) = ps_active s" "ps_active (af_health_failure s p now) = ps_active s"
  by (simp_all add: af_health_success_def af_health_failure_def open_circuit_def Let_def)

lemma reach_ceiling: "breaker_reach p m a \<Longrightarrow> m \<noteq> 0 \<Longrightarrow> ps_active (fst a) \<le> m"
proof (induction rule: breaker_reach.induct)
  case (init i)
  show ?case by (simp add: new_state_def)
next
  case (step a b)
  from step.hyps(2) step.IH [OF step.prems] step.prems show ?case
  proof (cases rule: breaker_step.cases)
    case (start s now fl flag t)
    then show ?thesis using step.prems
      by (auto simp: has_room_def af_health_begin_def Let_def inc_le split: if_splits)
  next
    case (release fl xs flag ys s v)
    moreover have "ps_active (af_health_end s flag) \<le> ps_active s"
      by (simp add: af_health_end_def Let_def word_dec_le)
    moreover have "ps_active s \<le> m" using step release by simp
    ultimately show ?thesis
      by (auto simp: record_outcome_def active_outcome Let_def intro: order_trans split: verdict.split)
  qed (simp add: af_health_refresh_def)
qed

text \<open>A run given by its events, for concrete runs; an event that is not enabled gives \<open>None\<close>.\<close>

datatype breaker_event = Look u64 | Start u64 | Release nat verdict

fun breaker_exec :: "health_config option \<Rightarrow> u64 \<Rightarrow> breaker_event list \<Rightarrow> prov_state \<times> bool list \<Rightarrow>
    (prov_state \<times> bool list) option" where
  "breaker_exec p m [] a = Some a"
| "breaker_exec p m (Look now # es) (s, fl) = breaker_exec p m es (af_health_refresh s now, fl)"
| "breaker_exec p m (Start now # es) (s, fl) =
     (let r = af_health_refresh s now in
      if af_health_admit r \<and> has_room m r \<and> length fl < AF_PROV_MAX_EXCHANGES
      then breaker_exec p m es (snd (af_health_begin r), fst (af_health_begin r) # fl) else None)"
| "breaker_exec p m (Release i v # es) (s, fl) =
     (if i < length fl
      then breaker_exec p m es (record_outcome s p (fl ! i) v, take i fl @ drop (Suc i) fl) else None)"

lemma exec_reach: "breaker_exec p m es a = Some b \<Longrightarrow> breaker_reach p m a \<Longrightarrow> breaker_reach p m b"
proof (induction p m es a rule: breaker_exec.induct)
  case (2 p m now es s fl)
  then show ?case by (auto intro: breaker_reach.step [OF _ breaker_step.look])
next
  case (3 p m now es s fl)
  from "3.prems"(1) have ok: "af_health_admit (af_health_refresh s now)" "has_room m (af_health_refresh s now)"
    "length fl < AF_PROV_MAX_EXCHANGES" by (auto simp: Let_def split: if_splits)
  have "breaker_step p m (s, fl) (snd (af_health_begin (af_health_refresh s now)),
      fst (af_health_begin (af_health_refresh s now)) # fl)"
    by (rule breaker_step.start [OF ok]) simp
  with "3.IH" [OF refl] "3.prems" ok show ?case by (auto simp: Let_def intro: breaker_reach.step)
next
  case (4 p m i v es s fl)
  from "4.prems"(1) have i: "i < length fl" by (simp split: if_splits)
  with id_take_nth_drop [OF i] have "breaker_step p m (s, fl)
      (record_outcome s p (fl ! i) v, take i fl @ drop (Suc i) fl)"
    by (blast intro: breaker_step.release)
  with "4.IH" "4.prems" i show ?case by (auto intro: breaker_reach.step)
qed simp

lemma exec_reachable: "breaker_exec p m es (new_state i, []) = Some b \<Longrightarrow> breaker_reach p m b"
  by (erule exec_reach) (rule breaker_reach.init)

text \<open>
  C2: In every reachable state of a provider's breaker, the number of active attempts is the
  number of attempts in flight, it never passes the configured concurrency, and the counter of
  half-open probes is at most one and is zero when no probe is in flight.
\<close>

theorem breaker_slots:
  assumes "breaker_reach p m (s, fl)"
  shows "uint (ps_active s) = int (length fl) \<and> (m = 0 \<or> ps_active s \<le> m) \<and>
    ps_probes s \<le> 1 \<and> (True \<in> set fl \<or> ps_probes s = 0)"
proof -
  have inv: "slots_inv (s, fl)" using assms by (rule reach_slots)
  then have "length fl \<le> 64" by (simp add: slots_inv_def AF_PROV_MAX_EXCHANGES_def)
  then have "uint (of_nat (length fl) :: u64) = int (length fl)"
    by (simp add: uint_nat unat_of_nat)
  with inv reach_ceiling [OF assms] show ?thesis by (auto simp: slots_inv_def)
qed

definition strict_config :: "health_config option" where
  "strict_config = Some \<lparr>hlt_fail_thr = 1, hlt_succ_thr = 1, hlt_cooldown_ms = 1000\<rparr>"

theorem breaker_slots_witness:
  "\<exists>s. breaker_exec strict_config 2 [Start 1, Start 1, Release 0 (Failed 2)] (new_state [97], []) = Some (s, [False]) \<and>
     uint (ps_active s) = 1 \<and> ps_probes s \<le> 1"
proof -
  define s where "s = fst (the (breaker_exec strict_config 2 [Start 1, Start 1, Release 0 (Failed 2)] (new_state [97], [])))"
  have run: "breaker_exec strict_config 2 [Start 1, Start 1, Release 0 (Failed 2)] (new_state [97], []) = Some (s, [False])"
    unfolding s_def by code_simp
  with breaker_slots [OF exec_reachable [OF run]] show ?thesis by auto
qed

text \<open>
  While a circuit is open or half-open its cooldown lies between the configured one and
  sixteen times that, and no reachable state is disabled: only the operator disables a provider.
\<close>

lemma breaker_backoff:
  assumes "breaker_reach p m (s, fl)" and "moderate p"
  shows "uint (ps_backoff_ms s) \<le> 16 * uint (cooldown_of p) \<and> ps_health s \<noteq> DISABLED \<and>
    (ps_health s \<in> {HEALTHY, DEGRADED} \<or> uint (cooldown_of p) \<le> uint (ps_backoff_ms s))"
  using reach_backoff [OF assms] by (cases "ps_health s") (auto simp: backoff_inv_def)

lemma breaker_backoff_witness:
  "\<exists>s. breaker_exec strict_config 0 [Start 1, Release 0 (Failed 2)] (new_state [97], []) = Some (s, []) \<and>
     ps_health s = OPEN \<and> uint (ps_backoff_ms s) \<le> 16000 \<and> 1000 \<le> uint (ps_backoff_ms s)"
proof -
  define s where "s = fst (the (breaker_exec strict_config 0 [Start 1, Release 0 (Failed 2)] (new_state [97], [])))"
  have run: "breaker_exec strict_config 0 [Start 1, Release 0 (Failed 2)] (new_state [97], []) = Some (s, [])"
    and health: "ps_health s = OPEN"
    unfolding s_def by code_simp+
  have "moderate strict_config" and "uint (cooldown_of strict_config) = 1000"
    by (simp_all add: moderate_def cooldown_of_def strict_config_def)
  with run health breaker_backoff [OF exec_reachable [OF run]] show ?thesis by auto
qed

section \<open>The documented state machine\<close>

text \<open>The diagram at the head of \<open>routing_health.asm\<close>.\<close>

inductive documented :: "health \<Rightarrow> health \<Rightarrow> bool" where
  "documented HEALTHY DEGRADED"
| "documented DEGRADED OPEN"
| "documented DEGRADED HEALTHY"
| "documented OPEN HALF_OPEN"
| "documented HALF_OPEN HEALTHY"
| "documented HALF_OPEN OPEN"

inductive_simps documented_simps [simp]:
  "documented HEALTHY h" "documented DEGRADED h" "documented OPEN h" "documented HALF_OPEN h" "documented DISABLED h"

lemma health_begin [simp]: "ps_health (snd (af_health_begin s)) = ps_health s"
  by (simp add: af_health_begin_def Let_def)

lemma health_end [simp]: "ps_health (af_health_end s f) = ps_health s" "ps_failures (af_health_end s f) = ps_failures s"
  by (simp_all add: af_health_end_def Let_def)

lemma health_refresh:
  "ps_health (af_health_refresh s now) =
     (if ps_health s = OPEN \<and> ps_open_until s \<le> now then HALF_OPEN else ps_health s)"
  by (auto simp: af_health_refresh_def not_less)

lemma health_success:
  "ps_health (af_health_success s p l) =
     (if ps_health s \<in> {DEGRADED, HALF_OPEN} \<and> success_threshold p \<le> ps_successes s + 1 then HEALTHY else ps_health s)"
  by (cases "ps_health s") (simp_all add: af_health_success_def Let_def not_le)

lemma health_failure:
  "ps_health (af_health_failure s p now) =
     (case ps_health s of
        DISABLED \<Rightarrow> DISABLED
      | HALF_OPEN \<Rightarrow> OPEN
      | _ \<Rightarrow> if failure_threshold p \<le> ps_failures s + 1 then OPEN else DEGRADED)"
  by (cases "ps_health s") (simp_all add: af_health_failure_def open_circuit_def Let_def)

text \<open>
  C21: Every step of the breaker from a reachable state keeps the health, or follows the
  diagram the source documents, or is one of two further edges: a healthy circuit opens at once
  when one failure reaches the threshold, and an open circuit becomes degraded, before its
  cooldown has passed, when the failure count does not.
\<close>

theorem breaker_edges:
  assumes "breaker_reach p m a" and "breaker_step p m a b" and "moderate p"
  shows "ps_health (fst b) = ps_health (fst a) \<or> documented (ps_health (fst a)) (ps_health (fst b)) \<or>
    (ps_health (fst a) = HEALTHY \<and> ps_health (fst b) = OPEN \<and> failure_threshold p \<le> 1) \<or>
    (ps_health (fst a) = OPEN \<and> ps_health (fst b) = DEGRADED \<and> ps_failures (fst a) + 1 < failure_threshold p)"
  using assms(2)
proof (cases rule: breaker_step.cases)
  case (look s fl now)
  then show ?thesis by (simp add: health_refresh)
next
  case (start s now fl flag t)
  then have "ps_health t = ps_health (af_health_refresh s now)" using health_begin by (metis snd_conv)
  with start show ?thesis by (simp add: health_refresh)
next
  case (release fl xs flag ys s v)
  have "ps_health s = HEALTHY \<Longrightarrow> ps_failures s = 0"
    using reach_backoff [OF assms(1,3)] release by (simp add: backoff_inv_def)
  with release show ?thesis
    by (cases "ps_health s")
      (auto simp: record_outcome_def Let_def health_success health_failure not_le split: verdict.split)
qed

theorem breaker_edges_witness:
  "\<exists>s t. breaker_step strict_config 0 (s, [False]) (t, []) \<and> ps_health s = HEALTHY \<and> ps_health t = OPEN \<and>
     failure_threshold strict_config \<le> 1"
proof -
  define s where "s = fst (the (breaker_exec strict_config 0 [Start 1] (new_state [97], [])))"
  define t where "t = record_outcome s strict_config False (Failed 2)"
  have run: "breaker_exec strict_config 0 [Start 1] (new_state [97], []) = Some (s, [False])"
    and health: "ps_health s = HEALTHY" "ps_health t = OPEN"
    unfolding s_def t_def by code_simp+
  have step: "breaker_step strict_config 0 (s, [False]) (t, [])"
    using breaker_step.release [of "[False]" "[]" False "[]"] unfolding t_def by simp
  have "moderate strict_config" by (simp add: moderate_def cooldown_of_def strict_config_def)
  from breaker_edges [OF exec_reachable [OF run] step this] health step show ?thesis by auto
qed

definition tolerant_config :: "health_config option" where
  "tolerant_config = Some \<lparr>hlt_fail_thr = 2, hlt_succ_thr = 1, hlt_cooldown_ms = 1000\<rparr>"

text \<open>
  Two results of attempts that were already in flight close an open circuit early: with a
  failure threshold above one, a success clears the failure count of the open circuit and the
  failure after it makes the circuit degraded, so that the next request is admitted although
  the cooldown has not passed.
\<close>

lemma stale_results_close_circuit:
  assumes "ps_health s = OPEN" and "1 < failure_threshold p"
  shows "let t = record_outcome (record_outcome s p f (Succeeded l)) p g (Failed now)
     in ps_health t = DEGRADED \<and> ps_open_until t = ps_open_until s \<and> af_health_admit (af_health_refresh t now)"
proof -
  let ?u = "record_outcome s p f (Succeeded l)"
  have u: "ps_health ?u = OPEN" "ps_failures ?u = 0" "ps_open_until ?u = ps_open_until s"
    using assms(1) by (simp_all add: breaker_ops)
  let ?t = "record_outcome ?u p g (Failed now)"
  have "ps_health ?t = DEGRADED"
    using u assms(2) by (simp add: record_outcome_def [of ?u] Let_def health_failure not_le [symmetric])
  moreover from this have "ps_open_until ?t = ps_open_until s"
    using u by (auto simp: record_outcome_def [of ?u] af_health_failure_def open_circuit_def
        af_health_end_def Let_def split: if_splits)
  ultimately show ?thesis by (simp add: Let_def af_health_refresh_def af_health_admit_def)
qed

lemma stale_results_close_circuit_witness:
  "\<exists>s. breaker_exec tolerant_config 0
       [Start 1, Start 1, Start 1, Start 1, Release 0 (Failed 2), Release 0 (Failed 2)] (new_state [97], []) =
       Some (s, [False, False]) \<and> ps_health s = OPEN \<and> 3 < ps_open_until s \<and> \<not> af_health_admit (af_health_refresh s 3) \<and>
     (let t = record_outcome (record_outcome s tolerant_config False (Succeeded 9)) tolerant_config False (Failed 3)
      in af_health_admit (af_health_refresh t 3) \<and> 3 < ps_open_until t)"
proof -
  let ?es = "[Start 1, Start 1, Start 1, Start 1, Release 0 (Failed 2), Release 0 (Failed 2)]"
  define s where "s = fst (the (breaker_exec tolerant_config 0 ?es (new_state [97], [])))"
  have run: "breaker_exec tolerant_config 0 ?es (new_state [97], []) = Some (s, [False, False])"
    and s: "ps_health s = OPEN" "3 < ps_open_until s" "\<not> af_health_admit (af_health_refresh s 3)"
    unfolding s_def by code_simp+
  have "1 < failure_threshold tolerant_config" by (simp add: failure_threshold_def tolerant_config_def)
  from stale_results_close_circuit [OF s(1) this, of False 9 False 3] run s show ?thesis by (simp add: Let_def)
qed

text \<open>
  The probe counter does not bound the probes in flight. When an ordinary attempt from
  before the outage fails while a probe is out, the circuit opens again and forgets the probe;
  after the next cooldown a second probe is admitted beside the first.
\<close>

lemma two_probes_in_flight:
  "\<exists>s. breaker_reach strict_config 0 (s, [True, True]) \<and> ps_health s = HALF_OPEN \<and> ps_probes s = 1"
proof -
  let ?es = "[Start 1, Start 1, Release 0 (Failed 2), Start 2000000000, Release 1 (Failed 2000000001), Start 9000000000]"
  define s where "s = fst (the (breaker_exec strict_config 0 ?es (new_state [97], [])))"
  have run: "breaker_exec strict_config 0 ?es (new_state [97], []) = Some (s, [True, True])"
    and s: "ps_health s = HALF_OPEN" "ps_probes s = 1"
    unfolding s_def by code_simp+
  from exec_reachable [OF run] s show ?thesis by blast
qed

section \<open>Recovery\<close>

lemma failure_opens:
  assumes "moderate p" and "backoff_inv p s" and "ps_health (af_health_failure s p now) = OPEN"
    and "uint now + 16 * uint (cooldown_of p) * 1000000 < 2 ^ 64"
  shows "uint (ps_open_until (af_health_failure s p now)) =
    uint now + uint (ps_backoff_ms (af_health_failure s p now)) * 1000000"
proof -
  let ?t = "af_health_failure s p now" and ?b = "ps_backoff_ms (af_health_failure s p now)"
  have until: "ps_open_until ?t = ?b * NS_PER_MS + now"
    using assms(3) by (auto simp: af_health_failure_def open_circuit_def Let_def split: if_splits)
  have b: "uint ?b \<le> 16 * uint (cooldown_of p)"
    using failure_backoff [OF assms(1,2), of now] by (simp add: backoff_inv_def)
  then have fits: "uint ?b * 1000000 + uint now < 2 ^ 64" using assms(4) by linarith
  moreover have "uint now \<ge> 0" by simp
  ultimately have "uint ?b * 1000000 < 2 ^ 64" by linarith
  then have "uint (?b * NS_PER_MS) = uint ?b * 1000000"
    by (simp add: NS_PER_MS_def uint_word_ariths)
  then show ?thesis
    using fits uint_add_no_carry [of "?b * NS_PER_MS" now] by (simp add: until add_carry_def)
qed

text \<open>
  C13: An outage is always probed again within a bounded time: when a failure at time
  \<open>now\<close> leaves the circuit open, the next routing decision at least sixteen cooldowns later
  finds it half-open and admits a request, and no decision within the first cooldown does.
\<close>

theorem open_circuit_recovers:
  assumes "breaker_reach p m (s, fl)" and "moderate p" and "ps_health (af_health_failure s p now) = OPEN"
    and "uint now + 16 * uint (cooldown_of p) * 1000000 < 2 ^ 64"
  shows "af_health_admit (af_health_refresh (af_health_failure s p now) t) =
      (uint now + uint (ps_backoff_ms (af_health_failure s p now)) * 1000000 \<le> uint t) \<and>
    uint (cooldown_of p) \<le> uint (ps_backoff_ms (af_health_failure s p now)) \<and>
    uint (ps_backoff_ms (af_health_failure s p now)) \<le> 16 * uint (cooldown_of p)"
proof -
  have inv: "backoff_inv p s" using reach_backoff [OF assms(1,2)] by simp
  have "af_health_admit (af_health_refresh (af_health_failure s p now) t) =
      (ps_open_until (af_health_failure s p now) \<le> t)"
    using assms(3) by (simp add: af_health_refresh_def af_health_admit_def not_less [symmetric])
  then show ?thesis
    using failure_opens [OF assms(2) inv assms(3,4)] failure_backoff [OF assms(2) inv, of now] assms(3)
    by (simp add: word_le_def backoff_inv_def)
qed

theorem open_circuit_recovers_witness:
  "\<exists>s. af_health_admit (af_health_refresh (af_health_failure s strict_config 2) 1000000002) \<and>
     \<not> af_health_admit (af_health_refresh (af_health_failure s strict_config 2) 1000000001)"
proof -
  let ?s = "fst (the (breaker_exec strict_config 0 [Start 1] (new_state [97], [])))"
  have run: "breaker_exec strict_config 0 [Start 1] (new_state [97], []) = Some (?s, [False])"
    and health: "ps_health (af_health_failure ?s strict_config 2) = OPEN"
    and backoff: "ps_backoff_ms (af_health_failure ?s strict_config 2) = 1000"
    by code_simp+
  have "moderate strict_config" "uint (cooldown_of strict_config) = 1000"
    by (simp_all add: moderate_def cooldown_of_def strict_config_def)
  with open_circuit_recovers [OF exec_reachable [OF run], of 2] health backoff
  have "af_health_admit (af_health_refresh (af_health_failure ?s strict_config 2) t) = (1000000002 \<le> uint t)" for t
    by simp
  then show ?thesis by (intro exI [of _ ?s]) simp
qed

text \<open>An outage: \<open>n\<close> rounds in which the cooldown passes, one probe goes out and fails.\<close>

definition failed_probe :: "health_config option \<Rightarrow> prov_state \<Rightarrow> prov_state" where
  "failed_probe p s =
     (let (flag, t) = af_health_begin (af_health_refresh s (ps_open_until s))
      in record_outcome t p flag (Failed (ps_open_until s)))"

primrec outage :: "health_config option \<Rightarrow> nat \<Rightarrow> prov_state \<Rightarrow> prov_state" where
  "outage p 0 s = s"
| "outage p (Suc n) s = failed_probe p (outage p n s)"

lemma failed_probe_open:
  assumes "ps_health s = OPEN"
  shows "ps_health (failed_probe p s) = OPEN"
    and "ps_backoff_ms (failed_probe p s) = longer_backoff (cooldown_of p) (ps_backoff_ms s)"
  using assms by (simp_all add: failed_probe_def breaker_ops)

text \<open>
  The cooldown of a circuit whose probes keep failing doubles with each probe from the
  configured one up to sixteen times it, where it stays.
\<close>

lemma outage_backoff:
  assumes "moderate p" and "ps_health s = OPEN" and "ps_backoff_ms s = cooldown_of p"
  shows "ps_health (outage p n s) = OPEN \<and>
    uint (ps_backoff_ms (outage p n s)) = min (2 ^ n * uint (cooldown_of p)) (16 * uint (cooldown_of p))"
proof (induction n)
  case 0
  then show ?case using assms cooldown_pos [of p] by simp
next
  case (Suc n)
  let ?s = "outage p n s" and ?c = "uint (cooldown_of p)"
  have "1 * ?c \<le> 2 ^ n * ?c" using cooldown_pos [of p] by (intro mult_right_mono) simp_all
  then have "ps_backoff_ms ?s \<noteq> 0"
    using Suc cooldown_pos [of p] by (auto simp: min_def split: if_splits)
  then have "uint (ps_backoff_ms (outage p (Suc n) s)) = min (2 * min (2 ^ n * ?c) (16 * ?c)) (16 * ?c)"
    using Suc failed_probe_open [of ?s p] longer_backoff_exact [OF assms(1), of "ps_backoff_ms ?s"] by simp
  also have "\<dots> = min (2 ^ Suc n * ?c) (16 * ?c)"
    unfolding power_Suc mult.assoc using cooldown_pos [of p] by linarith
  finally show ?case using Suc failed_probe_open [of ?s p] by simp
qed

lemma outage_backoff_witness:
  "uint (ps_backoff_ms (outage strict_config 3 (open_circuit (new_state [97]) 1000 5))) = 8000"
proof -
  have "moderate strict_config" "cooldown_of strict_config = 1000"
    by (simp_all add: moderate_def cooldown_of_def strict_config_def)
  then show ?thesis
    using outage_backoff [of strict_config "open_circuit (new_state [97]) 1000 5" 3]
    by (simp add: open_circuit_def)
qed

end
