(* ===== verification/Routing_Oracle.thy ===== *)
theory Routing_Oracle
  imports Repo_Model "HOL-Library.Product_Lexorder"
begin

text \<open>
  \<open>tests/route_oracle.py\<close>, the independent statement of the routing rules: which targets a
  request may use, which one a policy takes and when a failed attempt may fall back. Tuples and
  texts compare lexicographically, as they do in Python.
\<close>

section \<open>Candidates\<close>

definition ELIGIBLE_STATES :: "pystr set" where
  "ELIGIBLE_STATES = {str ''healthy'', str ''degraded'', str ''half_open''}"

definition RETRYABLE_ERRORS :: "pystr set" where
  "RETRYABLE_ERRORS = {str ''connect_failed'', str ''dns_failed'', str ''connect_timeout'',
     str ''http_502'', str ''http_503'', str ''http_504''}"

record Candidate =
  provider_id :: pystr
  configured_index :: int
  priority :: int
  weight :: int
  state :: pystr
  active :: int
  max_concurrency :: int
  latency_us :: "int option"
  endpoint_families :: "pystr set"
  capabilities :: "pystr set"
  already_tried :: bool
  enabled :: bool

fun eligible_candidates :: "Candidate list \<Rightarrow> pystr \<Rightarrow> pystr set \<Rightarrow> Candidate list" where
  "eligible_candidates [] endpoint_family required_capabilities = []"
| "eligible_candidates (c # cs) endpoint_family required_capabilities =
     (let rest = eligible_candidates cs endpoint_family required_capabilities in
      if \<not> enabled c \<or> already_tried c then rest
      else if state c \<notin> ELIGIBLE_STATES then rest
      else if max_concurrency c \<le> active c then rest
      else if endpoint_family \<notin> endpoint_families c then rest
      else if \<not> required_capabilities \<subseteq> capabilities c then rest
      else c # rest)"

section \<open>Policies\<close>

text \<open>Python's \<open>min\<close> with a key: a later item replaces the best one only when it is smaller.\<close>

fun min_from :: "('a \<Rightarrow> 'k :: linorder) \<Rightarrow> 'a \<Rightarrow> 'a list \<Rightarrow> 'a" where
  "min_from key best [] = best"
| "min_from key best (x # xs) = min_from key (if key x < key best then x else best) xs"

definition py_min :: "('a \<Rightarrow> 'k :: linorder) \<Rightarrow> 'a list \<Rightarrow> 'a" where
  "py_min key xs = min_from key (hd xs) (tl xs)"

definition priority_key :: "Candidate \<Rightarrow> int \<times> int \<times> pystr" where
  "priority_key c = (priority c, configured_index c, provider_id c)"

definition select_priority :: "Candidate list \<Rightarrow> Candidate option" where
  "select_priority candidates = (if candidates = [] then None else Some (py_min priority_key candidates))"

definition round_robin_key :: "Candidate \<Rightarrow> int \<times> pystr" where
  "round_robin_key c = (configured_index c, provider_id c)"

definition select_round_robin :: "Candidate list \<Rightarrow> int \<Rightarrow> Candidate option" where
  "select_round_robin candidates cursor =
     (if candidates = [] then None
      else let ordered = sort_key round_robin_key candidates
           in Some (ordered ! nat (cursor mod int (length ordered))))"

definition latency_key :: "Candidate \<Rightarrow> int \<times> int \<times> int \<times> int \<times> pystr" where
  "latency_key c =
     (if state c = str ''half_open'' then 1 else 0,
      if latency_us c = None then 1 else 0,
      case latency_us c of Some l \<Rightarrow> l | None \<Rightarrow> 2 ^ 63 - 1,
      configured_index c, provider_id c)"

definition select_least_latency :: "Candidate list \<Rightarrow> Candidate option" where
  "select_least_latency candidates = (if candidates = [] then None else Some (py_min latency_key candidates))"

definition select :: "pystr \<Rightarrow> Candidate list \<Rightarrow> int \<Rightarrow> pyexn + Candidate option" where
  "select policy candidates cursor =
     (if policy = str ''priority'' then Inr (select_priority candidates)
      else if policy = str ''round_robin'' then Inr (select_round_robin candidates cursor)
      else if policy = str ''least_latency'' then Inr (select_least_latency candidates)
      else Inl (ValueErr ''unknown policy''))"

definition fallback_allowed :: "bool \<Rightarrow> bool \<Rightarrow> bool \<Rightarrow> int \<Rightarrow> int \<Rightarrow> pystr \<Rightarrow> bool \<Rightarrow> bool" where
  "fallback_allowed committed cancelled fallback_enabled attempt_no max_attempts error_class next_candidate_exists \<longleftrightarrow>
     \<not> committed \<and> \<not> cancelled \<and> fallback_enabled \<and> attempt_no < max_attempts \<and>
     error_class \<in> RETRYABLE_ERRORS \<and> next_candidate_exists"

section \<open>What the policies promise\<close>

lemma min_from_mem: "min_from key b xs \<in> set (b # xs)"
proof (induction xs arbitrary: b)
  case (Cons x xs)
  then show ?case using Cons.IH [of x] Cons.IH [of b] by auto
qed simp

lemma min_from_le: "y \<in> set (b # xs) \<Longrightarrow> key (min_from key b xs) \<le> key y"
proof (induction xs arbitrary: b y)
  case (Cons x xs)
  let ?c = "if key x < key b then x else b"
  from Cons.prems consider "y \<in> set xs" | "y = x \<or> y = b" by auto
  then show ?case
  proof cases
    case 1
    then show ?thesis using Cons.IH [of y ?c] by simp
  next
    case 2
    then have "key ?c \<le> key y" by auto
    then show ?thesis using Cons.IH [of ?c ?c] by (auto intro: order_trans)
  qed
qed simp

lemma py_min_least:
  "xs \<noteq> [] \<Longrightarrow> py_min key xs \<in> set xs"
  "x \<in> set xs \<Longrightarrow> key (py_min key xs) \<le> key x"
  using min_from_mem [of key "hd xs" "tl xs"] min_from_le [of x "hd xs" "tl xs" key]
  by (cases xs; force simp: py_min_def)+

text \<open>The filter is the conjunction of its conditions and keeps the order.\<close>

definition eligible :: "pystr \<Rightarrow> pystr set \<Rightarrow> Candidate \<Rightarrow> bool" where
  "eligible family required c \<longleftrightarrow> enabled c \<and> \<not> already_tried c \<and> state c \<in> ELIGIBLE_STATES \<and>
     active c < max_concurrency c \<and> family \<in> endpoint_families c \<and> required \<subseteq> capabilities c"

lemma eligible_candidates_filter: "eligible_candidates cs family required = filter (eligible family required) cs"
  by (induction cs) (auto simp: eligible_def Let_def)

end
