(* ===== verification/Routing_Select.thy ===== *)
theory Routing_Select
  imports Circuit_Breaker Routing_Oracle
begin

text \<open>
  \<open>src/routing/routing_select.asm\<close> and the tables of \<open>src/routing/routing_health.asm\<close>: the
  candidates of a request, the comparison each policy uses and the selection, refined against
  the oracle of \<open>Routing_Oracle\<close>; with the fallback rule of
  \<open>src/providers/provider_exchange.asm\<close> and the retryable classes of \<open>provider_error.asm\<close>.

  A borrowed pointer into an array is the index it points at. A C string is its bytes without the
  terminator. \<open>alloc n\<close> says whether the allocator can provide \<open>n\<close> bytes.
\<close>

section \<open>Configuration and runtime tables\<close>

definition AF_EPF_RESPONSES :: u64 where "AF_EPF_RESPONSES = 1"
definition AF_CAP_RESPONSES :: u64 where "AF_CAP_RESPONSES = 1"
definition AF_CAP_CHAT_COMPLETIONS :: u64 where "AF_CAP_CHAT_COMPLETIONS = 2"
definition AF_ADAPTER_OPENAI_RESPONSES :: u64 where "AF_ADAPTER_OPENAI_RESPONSES = 0"
definition AF_ADAPTER_OPENAI_CHAT :: u64 where "AF_ADAPTER_OPENAI_CHAT = 1"
definition AF_ADAPTER_OPENAI_DUAL :: u64 where "AF_ADAPTER_OPENAI_DUAL = 2"
definition AF_POLICY_PRIORITY :: u64 where "AF_POLICY_PRIORITY = 0"
definition AF_POLICY_ROUND_ROBIN :: u64 where "AF_POLICY_ROUND_ROBIN = 1"
definition AF_POLICY_LEAST_LATENCY :: u64 where "AF_POLICY_LEAST_LATENCY = 2"
definition AF_LATENCY_UNKNOWN :: u64 where "AF_LATENCY_UNKNOWN = 0"
definition AF_ROUTING_MAX_PROVIDERS :: nat where "AF_ROUTING_MAX_PROVIDERS = 256"
definition AF_ROUTING_MAX_ROUTES :: nat where "AF_ROUTING_MAX_ROUTES = 256"
definition AF_ROUTING_MAX_TARGETS :: nat where "AF_ROUTING_MAX_TARGETS = 64"

lemmas policy_consts = AF_POLICY_PRIORITY_def AF_POLICY_ROUND_ROBIN_def AF_POLICY_LEAST_LATENCY_def

record cfg_provider =
  prv_id :: cstring
  prv_adapter :: u64
  prv_enabled :: u64
  prv_max_concurrency :: u64
  prv_capabilities :: u64
  prv_health :: health_config

record cfg_target =
  rtg_provider_index :: u64
  rtg_priority :: u64
  rtg_weight :: u64

record route_state =
  rs_id :: "cstring option"
  rs_cursor :: u64
  rs_served :: u64
  rs_refused :: u64

record routing =
  rtb_clock_override :: u64
  rtb_providers :: "prov_state list"
  rtb_routes :: "route_state list"

definition af_routing_init :: routing where
  "af_routing_init = \<lparr>rtb_clock_override = 0, rtb_providers = [], rtb_routes = []\<rparr>"

definition af_routing_free :: "routing \<Rightarrow> routing" where
  "af_routing_free rt = rt\<lparr>rtb_providers := map (\<lambda>s. s\<lparr>ps_id := None\<rparr>) (rtb_providers rt),
     rtb_routes := map (\<lambda>s. s\<lparr>rs_id := None\<rparr>) (rtb_routes rt)\<rparr>"

definition af_routing_own_id :: "(nat \<Rightarrow> bool) \<Rightarrow> cstring \<Rightarrow> cstring option" where
  "af_routing_own_id alloc i = (if alloc (length i + 1) then Some i else None)"

text \<open>The scan for an identifier: the first entry that owns it.\<close>

fun scan_ids :: "cstring option list \<Rightarrow> cstring \<Rightarrow> nat \<Rightarrow> nat option" where
  "scan_ids [] i k = None"
| "scan_ids (x # xs) i k = (if x = Some i then Some k else scan_ids xs i (Suc k))"

definition af_routing_provider :: "(nat \<Rightarrow> bool) \<Rightarrow> routing \<Rightarrow> cstring \<Rightarrow> nat option \<times> routing" where
  "af_routing_provider alloc rt i =
     (case scan_ids (map ps_id (rtb_providers rt)) i 0 of
        Some k \<Rightarrow> (Some k, rt)
      | None \<Rightarrow>
          if AF_ROUTING_MAX_PROVIDERS \<le> length (rtb_providers rt) then (None, rt)
          else case af_routing_own_id alloc i of
            None \<Rightarrow> (None, rt)
          | Some own \<Rightarrow> (Some (length (rtb_providers rt)), rt\<lparr>rtb_providers := rtb_providers rt @ [new_state own]\<rparr>))"

definition af_routing_route :: "(nat \<Rightarrow> bool) \<Rightarrow> routing \<Rightarrow> cstring \<Rightarrow> nat option \<times> routing" where
  "af_routing_route alloc rt i =
     (case scan_ids (map rs_id (rtb_routes rt)) i 0 of
        Some k \<Rightarrow> (Some k, rt)
      | None \<Rightarrow>
          if AF_ROUTING_MAX_ROUTES \<le> length (rtb_routes rt) then (None, rt)
          else case af_routing_own_id alloc i of
            None \<Rightarrow> (None, rt)
          | Some own \<Rightarrow> (Some (length (rtb_routes rt)),
              rt\<lparr>rtb_routes := rtb_routes rt @ [\<lparr>rs_id = Some own, rs_cursor = 0, rs_served = 0, rs_refused = 0\<rparr>]\<rparr>))"

definition af_routing_now_ns :: "u64 \<Rightarrow> routing option \<Rightarrow> u64" where
  "af_routing_now_ns monotonic rt =
     (case rt of None \<Rightarrow> monotonic | Some r \<Rightarrow> if rtb_clock_override r = 0 then monotonic else rtb_clock_override r)"

section \<open>Candidates\<close>

record route_request =
  rq_config :: "cfg_provider list option"
  rq_route :: "cfg_target list option"
  rq_family :: u64
  rq_caps :: u64
  rq_tried :: u64
  rq_now_ns :: u64

record route_candidate =
  rc_provider :: nat
  rc_state :: nat
  rc_index :: u64
  rc_priority :: u64
  rc_weight :: u64
  rc_health :: health
  rc_latency :: u64
  rc_provider_id :: "cstring option"

definition serves_family :: "cfg_provider \<Rightarrow> u64 \<Rightarrow> bool" where
  "serves_family prv family =
     (if family = AF_EPF_RESPONSES then
        prv_capabilities prv AND AF_CAP_RESPONSES \<noteq> 0 \<and>
          (prv_adapter prv = AF_ADAPTER_OPENAI_DUAL \<or> prv_adapter prv = AF_ADAPTER_OPENAI_RESPONSES)
      else
        prv_capabilities prv AND AF_CAP_CHAT_COMPLETIONS \<noteq> 0 \<and>
          (prv_adapter prv = AF_ADAPTER_OPENAI_DUAL \<or> prv_adapter prv = AF_ADAPTER_OPENAI_CHAT))"

text \<open>One target of the walk: a candidate unless a filter sends it to \<open>.next\<close>.\<close>

definition consider_target ::
  "(nat \<Rightarrow> bool) \<Rightarrow> route_request \<Rightarrow> cfg_provider list \<Rightarrow> nat \<Rightarrow> cfg_target \<Rightarrow> routing \<Rightarrow> route_candidate option \<times> routing"
where
  "consider_target alloc rq providers i t rt =
     (if rq_tried rq AND push_bit i 1 \<noteq> 0 then (None, rt)
      else if sint (rtg_provider_index t) < 0 then (None, rt)
      else if length providers \<le> unat (rtg_provider_index t) then (None, rt)
      else
        let prv = providers ! unat (rtg_provider_index t) in
        if prv_enabled prv = 0 then (None, rt)
        else if \<not> serves_family prv (rq_family rq) then (None, rt)
        else if prv_capabilities prv AND rq_caps rq \<noteq> rq_caps rq then (None, rt)
        else case af_routing_provider alloc rt (prv_id prv) of
          (None, rt) \<Rightarrow> (None, rt)
        | (Some k, rt) \<Rightarrow>
            let s = af_health_refresh (rtb_providers rt ! k) (rq_now_ns rq);
                rt = rt\<lparr>rtb_providers := (rtb_providers rt)[k := s]\<rparr>
            in if \<not> af_health_admit s then (None, rt)
               else if \<not> has_room (prv_max_concurrency prv) s then (None, rt)
               else (Some \<lparr>rc_provider = unat (rtg_provider_index t), rc_state = k, rc_index = of_nat i,
                       rc_priority = rtg_priority t, rc_weight = rtg_weight t, rc_health = ps_health s,
                       rc_latency = ps_ewma s, rc_provider_id = Some (prv_id prv)\<rparr>, rt))"

fun scan_targets ::
  "(nat \<Rightarrow> bool) \<Rightarrow> route_request \<Rightarrow> cfg_provider list \<Rightarrow> u64 \<Rightarrow> nat \<Rightarrow> cfg_target list \<Rightarrow> route_candidate list \<Rightarrow>
    routing \<Rightarrow> route_candidate list \<times> routing"
where
  "scan_targets alloc rq providers maximum i [] out rt = (out, rt)"
| "scan_targets alloc rq providers maximum i (t # ts) out rt =
     (if AF_ROUTING_MAX_TARGETS \<le> i then (out, rt)
      else case consider_target alloc rq providers i t rt of
        (None, rt) \<Rightarrow> scan_targets alloc rq providers maximum (Suc i) ts out rt
      | (Some c, rt) \<Rightarrow>
          if unat maximum \<le> length out then (out, rt)
          else scan_targets alloc rq providers maximum (Suc i) ts (out @ [c]) rt)"

definition af_route_candidates ::
  "(nat \<Rightarrow> bool) \<Rightarrow> route_request \<Rightarrow> u64 \<Rightarrow> routing \<Rightarrow> (af_status + route_candidate list) \<times> routing"
where
  "af_route_candidates alloc rq maximum rt =
     (case rq_route rq of
        None \<Rightarrow> (Inl AF_E_INVALID, rt)
      | Some targets \<Rightarrow>
          (case rq_config rq of
             None \<Rightarrow> (Inl AF_E_INVALID, rt)
           | Some providers \<Rightarrow>
               (case scan_targets alloc rq providers maximum 0 targets [] rt of (out, rt) \<Rightarrow> (Inr out, rt))))"

section \<open>Selection\<close>

text \<open>The byte at the front of a string, the terminator at its end.\<close>

definition first_byte :: "cstring \<Rightarrow> 8 word" where
  "first_byte s = (case s of [] \<Rightarrow> 0 | b # _ \<Rightarrow> b)"

function id_compare_loop :: "cstring \<Rightarrow> cstring \<Rightarrow> u64" where
  "id_compare_loop a b =
     (if first_byte a \<noteq> first_byte b then ucast (first_byte a) - ucast (first_byte b)
      else if first_byte a = 0 then 0
      else id_compare_loop (tl a) (tl b))"
  by pat_completeness auto
termination
  by (relation "measure (\<lambda>(a, b). length a)") (auto simp: first_byte_def split: list.splits)

declare id_compare_loop.simps [simp del]

definition af_route_id_compare :: "cstring option \<Rightarrow> cstring option \<Rightarrow> u64" where
  "af_route_id_compare a b =
     (case (a, b) of
        (None, None) \<Rightarrow> 0
      | (None, Some _) \<Rightarrow> - 1
      | (Some _, None) \<Rightarrow> 1
      | (Some x, Some y) \<Rightarrow> id_compare_loop x y)"

definition af_route_beats_priority :: "route_candidate \<Rightarrow> route_candidate \<Rightarrow> bool" where
  "af_route_beats_priority a b =
     (if sint (rc_priority a) < sint (rc_priority b) then True
      else if sint (rc_priority b) < sint (rc_priority a) then False
      else if rc_index a < rc_index b then True
      else if rc_index b < rc_index a then False
      else sint (af_route_id_compare (rc_provider_id a) (rc_provider_id b)) < 0)"

definition half_open_rank :: "route_candidate \<Rightarrow> nat" where
  "half_open_rank c = (if rc_health c = HALF_OPEN then 1 else 0)"

definition unknown_rank :: "route_candidate \<Rightarrow> nat" where
  "unknown_rank c = (if rc_latency c = AF_LATENCY_UNKNOWN then 1 else 0)"

definition af_route_beats_latency :: "route_candidate \<Rightarrow> route_candidate \<Rightarrow> bool" where
  "af_route_beats_latency a b =
     (if half_open_rank a < half_open_rank b then True
      else if half_open_rank b < half_open_rank a then False
      else if unknown_rank a < unknown_rank b then True
      else if unknown_rank b < unknown_rank a then False
      else if rc_latency a < rc_latency b then True
      else if rc_latency b < rc_latency a then False
      else if rc_index a < rc_index b then True
      else if rc_index b < rc_index a then False
      else sint (af_route_id_compare (rc_provider_id a) (rc_provider_id b)) < 0)"

text \<open>The scan for the best candidate: \<open>i\<close> is \<open>r14\<close> and \<open>best\<close> is \<open>r13\<close>.\<close>

function select_scan :: "('a \<Rightarrow> 'a \<Rightarrow> bool) \<Rightarrow> 'a list \<Rightarrow> nat \<Rightarrow> nat \<Rightarrow> nat" where
  "select_scan beats cs i best =
     (if length cs \<le> i then best
      else select_scan beats cs (Suc i) (if beats (cs ! i) (cs ! best) then i else best))"
  by pat_completeness auto
termination
  by (relation "measure (\<lambda>(beats, cs, i, best). length cs - i)") auto

declare select_scan.simps [simp del]

definition af_route_select :: "u64 \<Rightarrow> route_candidate list \<Rightarrow> u64 \<Rightarrow> int" where
  "af_route_select policy cs cursor =
     (if cs = [] then - 1
      else if policy = AF_POLICY_ROUND_ROBIN then uint cursor mod int (length cs)
      else if policy = AF_POLICY_PRIORITY then int (select_scan af_route_beats_priority cs 1 0)
      else if policy = AF_POLICY_LEAST_LATENCY then int (select_scan af_route_beats_latency cs 1 0)
      else - 1)"

section \<open>The oracle's view of a candidate\<close>

definition health_name :: "health \<Rightarrow> pystr" where
  "health_name h = str (case h of HEALTHY \<Rightarrow> ''healthy'' | DEGRADED \<Rightarrow> ''degraded'' | OPEN \<Rightarrow> ''open''
     | HALF_OPEN \<Rightarrow> ''half_open'' | DISABLED \<Rightarrow> ''disabled'')"

definition id_text :: "cstring option \<Rightarrow> pystr" where
  "id_text i = (case i of None \<Rightarrow> [] | Some s \<Rightarrow> map uint s)"

definition latency_of :: "u64 \<Rightarrow> int option" where
  "latency_of l = (if l = AF_LATENCY_UNKNOWN then None else Some (uint l))"

text \<open>A selected candidate has passed the filters; the fields only they read keep their defaults.\<close>

definition abs_cand :: "route_candidate \<Rightarrow> Candidate" where
  "abs_cand c = \<lparr>provider_id = id_text (rc_provider_id c), configured_index = uint (rc_index c),
     priority = sint (rc_priority c), weight = uint (rc_weight c), state = health_name (rc_health c),
     active = 0, max_concurrency = 1, latency_us = latency_of (rc_latency c),
     endpoint_families = {str ''chat_completions''}, capabilities = {}, already_tried = False, enabled = True\<rparr>"

definition named :: "cstring option \<Rightarrow> bool" where
  "named i \<longleftrightarrow> (case i of None \<Rightarrow> False | Some s \<Rightarrow> 0 \<notin> set s)"

definition policy_name :: "u64 \<Rightarrow> pystr" where
  "policy_name p = str (if p = AF_POLICY_PRIORITY then ''priority'' else if p = AF_POLICY_ROUND_ROBIN then ''round_robin''
     else if p = AF_POLICY_LEAST_LATENCY then ''least_latency'' else ''unknown'')"

lemma sint_byte_diff: "sint (ucast (x :: 8 word) - ucast (y :: 8 word) :: u64) = uint x - uint y"
proof -
  have "(ucast x - ucast y :: u64) = word_of_int (uint x - uint y)"
    unfolding ucast_eq by (rule wi_hom_sub)
  then have "sint (ucast x - ucast y :: u64) = signed_take_bit 63 (uint x - uint y)"
    by (simp only: sint_sbintrunc') simp
  moreover have "uint x < 256" "uint y < 256" "0 \<le> uint x" "0 \<le> uint y"
    using uint_lt2p [of x] uint_lt2p [of y] by simp_all
  then have "- 9223372036854775808 \<le> uint x - uint y" and "uint x - uint y < 9223372036854775808" by linarith+
  ultimately show ?thesis by (simp add: signed_take_bit_int_eq_self)
qed

lemma id_compare_loop_less:
  "0 \<notin> set a \<Longrightarrow> 0 \<notin> set b \<Longrightarrow> sint (id_compare_loop a b) < 0 \<longleftrightarrow> map uint a < map uint b"
proof (induction a b rule: id_compare_loop.induct)
  case (1 a b)
  show ?case
  proof (cases "first_byte a = first_byte b \<and> first_byte a \<noteq> 0")
    case True
    then obtain x xs ys where ab: "a = x # xs" "b = x # ys" by (auto simp: first_byte_def split: list.splits)
    have "id_compare_loop (x # xs) (x # ys) = id_compare_loop xs ys"
      using True ab by (subst id_compare_loop.simps) (simp add: first_byte_def)
    moreover have "x \<noteq> 0" using True ab by (simp add: first_byte_def)
    ultimately show ?thesis using 1 ab by (simp add: first_byte_def)
  next
    case False
    show ?thesis
    proof (cases "first_byte a = first_byte b")
      case True
      with False 1(2,3) have "a = []" "b = []" by (auto simp: first_byte_def split: list.splits)
      then show ?thesis by (simp add: id_compare_loop.simps [of "[]" "[]"] first_byte_def)
    next
      case differ: False
      then have "sint (id_compare_loop a b) = uint (first_byte a) - uint (first_byte b)"
        by (simp add: id_compare_loop.simps [of a b] sint_byte_diff)
      moreover have "x \<noteq> 0 \<Longrightarrow> 0 < uint x" for x :: "8 word" using uint_0_iff [of x] uint_ge_0 [of x] by linarith
      ultimately show ?thesis using differ 1(2,3)
        by (cases a; cases b) (auto simp: first_byte_def word_uint_eq_iff)
    qed
  qed
qed

lemma id_compare_less:
  "named a \<Longrightarrow> named b \<Longrightarrow> sint (af_route_id_compare a b) < 0 \<longleftrightarrow> id_text a < id_text b"
  by (auto simp: named_def af_route_id_compare_def id_text_def id_compare_loop_less split: option.splits)

section \<open>Selection against the oracle\<close>

definition wf_cand :: "route_candidate \<Rightarrow> bool" where
  "wf_cand c \<longleftrightarrow> named (rc_provider_id c)"

text \<open>A policy that takes the best candidate under a comparison, and the key it orders by.\<close>

locale selection_policy =
  fixes beats :: "route_candidate \<Rightarrow> route_candidate \<Rightarrow> bool" and key :: "Candidate \<Rightarrow> 'k :: linorder"
  assumes beats_key: "wf_cand a \<Longrightarrow> wf_cand b \<Longrightarrow> beats a b \<longleftrightarrow> key (abs_cand a) < key (abs_cand b)"
begin

lemma scan_min:
  assumes "list_all wf_cand cs" and "best < length cs"
  shows "select_scan beats cs i best < length cs \<and>
    abs_cand (cs ! select_scan beats cs i best) = min_from key (abs_cand (cs ! best)) (map abs_cand (drop i cs))"
  using assms(2)
proof (induction "length cs - i" arbitrary: i best)
  case 0
  then show ?case by (simp add: select_scan.simps [of beats cs i best])
next
  case (Suc n)
  then have i: "i < length cs" and n: "n = length cs - Suc i" by simp_all
  let ?best = "if beats (cs ! i) (cs ! best) then i else best"
  have "wf_cand (cs ! i)" "wf_cand (cs ! best)" using assms(1) i Suc.prems by (simp_all add: list_all_length)
  then have next_best: "abs_cand (cs ! ?best) =
      (if key (abs_cand (cs ! i)) < key (abs_cand (cs ! best)) then abs_cand (cs ! i) else abs_cand (cs ! best))"
    by (simp add: beats_key)
  have "?best < length cs" using i Suc.prems by simp
  from Suc.hyps(1) [OF n this] i show ?case
    by (simp add: select_scan.simps [of beats cs i best] next_best flip: Cons_nth_drop_Suc)
qed

lemma select_min:
  assumes "list_all wf_cand cs" and "cs \<noteq> []"
  shows "select_scan beats cs 1 0 < length cs" and "abs_cand (cs ! select_scan beats cs 1 0) = py_min key (map abs_cand cs)"
  using scan_min [OF assms(1), of 0 1] assms(2)
  by (simp_all add: py_min_def hd_map map_tl hd_conv_nth drop_Suc)

end

lemma abs_cand_simps [simp]:
  "provider_id (abs_cand c) = id_text (rc_provider_id c)" "configured_index (abs_cand c) = uint (rc_index c)"
  "priority (abs_cand c) = sint (rc_priority c)" "state (abs_cand c) = health_name (rc_health c)"
  "latency_us (abs_cand c) = latency_of (rc_latency c)"
  by (simp_all add: abs_cand_def)

lemma half_open_name: "health_name h = str ''half_open'' \<longleftrightarrow> h = HALF_OPEN"
  by (cases h) (simp_all add: health_name_def str_def)

interpretation priority_policy: selection_policy af_route_beats_priority priority_key
  by unfold_locales
    (auto simp: af_route_beats_priority_def priority_key_def wf_cand_def id_compare_less word_less_def word_uint_eq_iff)

interpretation latency_policy: selection_policy af_route_beats_latency latency_key
  by unfold_locales
    (auto simp: af_route_beats_latency_def latency_key_def wf_cand_def id_compare_less word_less_def word_uint_eq_iff
      half_open_rank_def unknown_rank_def half_open_name latency_of_def AF_LATENCY_UNKNOWN_def)

text \<open>Candidates in configured order, as the walk emits them.\<close>

definition in_order :: "route_candidate list \<Rightarrow> bool" where
  "in_order cs \<longleftrightarrow> sorted_wrt (\<lambda>a b. rc_index a < rc_index b) cs"

lemma round_robin_order: "in_order cs \<Longrightarrow> sort_key round_robin_key (map abs_cand cs) = map abs_cand cs"
  by (rule sort_key_id_if_sorted)
    (auto simp: in_order_def sorted_map sorted_wrt_map round_robin_key_def word_less_def elim!: sorted_wrt_mono_rel [rotated])

lemma select_refines:
  assumes "list_all wf_cand cs" and "in_order cs"
  shows "select (policy_name policy) (map abs_cand cs) (uint cursor) =
    (if policy \<notin> {AF_POLICY_PRIORITY, AF_POLICY_ROUND_ROBIN, AF_POLICY_LEAST_LATENCY} then Inl (ValueErr ''unknown policy'')
     else if cs = [] then Inr None else Inr (Some (abs_cand (cs ! nat (af_route_select policy cs cursor)))))"
proof (cases "cs = []")
  case True
  then show ?thesis
    by (auto simp: select_def policy_name_def policy_consts select_priority_def select_round_robin_def
        select_least_latency_def str_def)
next
  case False
  have "0 \<le> uint cursor mod int (length cs)" "uint cursor mod int (length cs) < int (length cs)"
    using False by simp_all
  then have bound: "nat (uint cursor mod int (length cs)) < length cs" by linarith
  from False priority_policy.select_min [OF assms(1) False] latency_policy.select_min [OF assms(1) False]
    round_robin_order [OF assms(2)] bound
  show ?thesis
    by (auto simp: select_def policy_name_def policy_consts select_priority_def select_round_robin_def
        select_least_latency_def af_route_select_def str_def Let_def)
qed

section \<open>The walk over the targets\<close>

text \<open>
  What a routing decision at time \<open>now\<close> sees of a provider: its record, made on first sight,
  after the transition that time makes.
\<close>

definition lookup :: "routing \<Rightarrow> cstring \<Rightarrow> prov_state" where
  "lookup rt i = (case scan_ids (map ps_id (rtb_providers rt)) i 0 of
     Some k \<Rightarrow> rtb_providers rt ! k | None \<Rightarrow> new_state i)"

definition view :: "routing \<Rightarrow> u64 \<Rightarrow> cstring \<Rightarrow> prov_state" where
  "view rt now i = af_health_refresh (lookup rt i) now"

lemma refresh_idem [simp]: "af_health_refresh (af_health_refresh s now) now = af_health_refresh s now"
  by (simp add: af_health_refresh_def)

lemma refresh_id [simp]: "ps_id (af_health_refresh s now) = ps_id s"
  by (simp add: af_health_refresh_def)

lemma refresh_new [simp]: "af_health_refresh (new_state i) now = new_state i"
  by (simp add: af_health_refresh_def new_state_def)

lemma scan_ids_Some: "scan_ids xs i k = Some j \<Longrightarrow> k \<le> j \<and> j - k < length xs \<and> xs ! (j - k) = Some i"
proof (induction xs i k rule: scan_ids.induct)
  case (2 x xs i k)
  then show ?case by (cases "x = Some i") (auto simp: nth_Cons' split: if_splits)
qed simp

lemma scan_ids_append: "scan_ids (xs @ ys) i k =
    (case scan_ids xs i k of Some j \<Rightarrow> Some j | None \<Rightarrow> scan_ids ys i (k + length xs))"
  by (induction xs i k rule: scan_ids.induct) (simp_all split: option.split)

lemma scan_entry: "scan_ids (map ps_id ps) i 0 = Some k \<Longrightarrow> k < length ps \<and> ps_id (ps ! k) = Some i"
  using scan_ids_Some [of "map ps_id ps" i 0 k] by auto

lemma lookup_append:
  "scan_ids (map ps_id (rtb_providers rt)) i 0 = None \<Longrightarrow>
   lookup (rt\<lparr>rtb_providers := rtb_providers rt @ [new_state i]\<rparr>) j = lookup rt j"
  by (auto simp: lookup_def scan_ids_append nth_append new_state_def dest: scan_entry split: option.split)

lemma provider_entry:
  assumes "\<forall>n. alloc n" and "length (rtb_providers rt) < AF_ROUTING_MAX_PROVIDERS"
  obtains k rt' where "af_routing_provider alloc rt i = (Some k, rt')" and "k < length (rtb_providers rt')"
    and "rtb_providers rt' ! k = lookup rt i" and "scan_ids (map ps_id (rtb_providers rt')) i 0 = Some k"
    and "\<And>j. lookup rt' j = lookup rt j" and "length (rtb_providers rt') \<le> Suc (length (rtb_providers rt))"
proof (cases "scan_ids (map ps_id (rtb_providers rt)) i 0")
  case None
  let ?rt = "rt\<lparr>rtb_providers := rtb_providers rt @ [new_state i]\<rparr>"
  show ?thesis
  proof (rule that [of "length (rtb_providers rt)" ?rt])
    show "af_routing_provider alloc rt i = (Some (length (rtb_providers rt)), ?rt)"
      using None assms by (simp add: af_routing_provider_def af_routing_own_id_def not_le)
    show "scan_ids (map ps_id (rtb_providers ?rt)) i 0 = Some (length (rtb_providers rt))"
      using None by (simp add: scan_ids_append new_state_def)
  qed (use None in \<open>simp_all add: lookup_append\<close>, simp add: lookup_def)
next
  case (Some k)
  with that [of k rt] show ?thesis by (simp add: af_routing_provider_def lookup_def scan_entry)
qed

lemma lookup_refreshed:
  assumes "scan_ids (map ps_id (rtb_providers rt)) i 0 = Some k"
  shows "view (rt\<lparr>rtb_providers := (rtb_providers rt)[k := af_health_refresh (rtb_providers rt ! k) now]\<rparr>) now j = view rt now j"
proof -
  have k: "k < length (rtb_providers rt)" using scan_ids_Some [OF assms] by simp
  have "map ps_id ((rtb_providers rt)[k := af_health_refresh (rtb_providers rt ! k) now]) = map ps_id (rtb_providers rt)"
    using k by (simp add: map_update list_update_same_conv)
  then show ?thesis using k
    by (auto simp: view_def lookup_def nth_list_update dest: scan_entry split: option.split)
qed

section \<open>The walk against the oracle's filter\<close>

definition cap_names :: "pystr list" where
  "cap_names = map str [''responses'', ''chat_completions'', ''streaming'', ''tools'', ''vision'', ''json_schema'']"

text \<open>The names of the capability bits of a word.\<close>

definition caps_of :: "u64 \<Rightarrow> pystr set" where
  "caps_of w = (\<lambda>k. cap_names ! k) ` set (filter (bit w) [0..<6])"

definition family_name :: "u64 \<Rightarrow> pystr" where
  "family_name f = (if f = AF_EPF_RESPONSES then str ''responses'' else str ''chat_completions'')"

definition families_of :: "cfg_provider \<Rightarrow> pystr set" where
  "families_of prv = (if serves_family prv AF_EPF_RESPONSES then {str ''responses''} else {}) \<union>
     (if serves_family prv 2 then {str ''chat_completions''} else {})"

text \<open>The oracle's candidate for the target at position \<open>i\<close>, given what is seen of the providers.\<close>

definition target_cand ::
  "route_request \<Rightarrow> cfg_provider list \<Rightarrow> (cstring \<Rightarrow> prov_state) \<Rightarrow> nat \<Rightarrow> cfg_target \<Rightarrow> Candidate"
where
  "target_cand rq providers v i t =
     (let prv = providers ! unat (rtg_provider_index t); s = v (prv_id prv) in
      \<lparr>provider_id = map uint (prv_id prv), configured_index = int i, priority = sint (rtg_priority t),
       weight = uint (rtg_weight t), state = health_name (ps_health s), active = uint (ps_active s),
       max_concurrency = uint (prv_max_concurrency prv), latency_us = latency_of (ps_ewma s),
       endpoint_families = families_of prv, capabilities = caps_of (prv_capabilities prv),
       already_tried = bit (rq_tried rq) i, enabled = prv_enabled prv \<noteq> 0\<rparr>)"

fun target_cands ::
  "route_request \<Rightarrow> cfg_provider list \<Rightarrow> (cstring \<Rightarrow> prov_state) \<Rightarrow> nat \<Rightarrow> cfg_target list \<Rightarrow> Candidate list"
where
  "target_cands rq providers v i [] = []"
| "target_cands rq providers v i (t # ts) = target_cand rq providers v i t # target_cands rq providers v (Suc i) ts"

text \<open>The fields a policy reads; the others are back at their defaults.\<close>

definition selection_view :: "Candidate \<Rightarrow> Candidate" where
  "selection_view c = c\<lparr>active := 0, max_concurrency := 1, endpoint_families := {str ''chat_completions''},
     capabilities := {}, already_tried := False, enabled := True\<rparr>"

text \<open>
  The two rules stand in the same relation when a concurrency is configured and no probe is out
  on a half-open circuit: the code reads a ceiling of zero as none and refuses a second probe, the
  oracle knows neither rule.
\<close>

definition comparable :: "(cstring \<Rightarrow> prov_state) \<Rightarrow> cfg_provider \<Rightarrow> bool" where
  "comparable v prv \<longleftrightarrow> prv_max_concurrency prv \<noteq> 0 \<and>
     (ps_health (v (prv_id prv)) = HALF_OPEN \<longrightarrow> ps_probes (v (prv_id prv)) = 0)"

definition valid_target :: "cfg_provider list \<Rightarrow> cfg_target \<Rightarrow> bool" where
  "valid_target providers t \<longleftrightarrow> 0 \<le> sint (rtg_provider_index t) \<and> unat (rtg_provider_index t) < length providers"

definition accepted :: "route_request \<Rightarrow> cfg_provider list \<Rightarrow> (cstring \<Rightarrow> prov_state) \<Rightarrow> nat \<Rightarrow> cfg_target \<Rightarrow> bool" where
  "accepted rq providers v i t \<longleftrightarrow> (let prv = providers ! unat (rtg_provider_index t); s = v (prv_id prv) in
     \<not> bit (rq_tried rq) i \<and> prv_enabled prv \<noteq> 0 \<and> serves_family prv (rq_family rq) \<and>
     prv_capabilities prv AND rq_caps rq = rq_caps rq \<and> af_health_admit s \<and> has_room (prv_max_concurrency prv) s)"

lemma tried_bit: "w AND 2 ^ i = (0 :: u64) \<longleftrightarrow> \<not> bit w i"
  by (simp add: bit_iff_and_push_bit_not_eq_0)

lemma uint_index: "i < 64 \<Longrightarrow> uint (of_nat i :: u64) = int i"
  by (simp add: uint_nat unat_of_nat)

lemma consider_view:
  assumes "\<forall>n. alloc n" and "length (rtb_providers rt) < AF_ROUTING_MAX_PROVIDERS"
    and "valid_target providers t" and "i < 64"
  obtains r rt' where "consider_target alloc rq providers i t rt = (r, rt')"
    and "map_option abs_cand r = (if accepted rq providers (view rt (rq_now_ns rq)) i t
           then Some (selection_view (target_cand rq providers (view rt (rq_now_ns rq)) i t)) else None)"
    and "view rt' (rq_now_ns rq) = view rt (rq_now_ns rq)"
    and "length (rtb_providers rt') \<le> Suc (length (rtb_providers rt))"
proof -
  let ?now = "rq_now_ns rq" and ?prv = "providers ! unat (rtg_provider_index t)"
  obtain k rt1 where k: "af_routing_provider alloc rt (prv_id ?prv) = (Some k, rt1)" "k < length (rtb_providers rt1)"
      "rtb_providers rt1 ! k = lookup rt (prv_id ?prv)" "scan_ids (map ps_id (rtb_providers rt1)) (prv_id ?prv) 0 = Some k"
      "\<And>j. lookup rt1 j = lookup rt j" "length (rtb_providers rt1) \<le> Suc (length (rtb_providers rt))"
    by (rule provider_entry [OF assms(1,2), of "prv_id ?prv"]) blast
  let ?rt2 = "rt1\<lparr>rtb_providers := (rtb_providers rt1)[k := af_health_refresh (rtb_providers rt1 ! k) ?now]\<rparr>"
  have view2: "view ?rt2 ?now = view rt ?now"
    using lookup_refreshed [OF k(4), of ?now] by (auto simp: view_def k(5))
  have seen: "af_health_refresh (rtb_providers rt1 ! k) ?now = view rt ?now (prv_id ?prv)"
    by (simp add: k(3) view_def)
  let ?s = "view rt ?now (prv_id ?prv)"
  let ?early = "bit (rq_tried rq) i \<or> prv_enabled ?prv = 0 \<or> \<not> serves_family ?prv (rq_family rq) \<or>
    prv_capabilities ?prv AND rq_caps rq \<noteq> rq_caps rq"
  let ?c = "\<lparr>rc_provider = unat (rtg_provider_index t), rc_state = k, rc_index = of_nat i,
    rc_priority = rtg_priority t, rc_weight = rtg_weight t, rc_health = ps_health ?s, rc_latency = ps_ewma ?s,
    rc_provider_id = Some (prv_id ?prv)\<rparr>"
  have walk: "consider_target alloc rq providers i t rt =
      (if ?early then (None, rt)
       else (if af_health_admit ?s \<and> has_room (prv_max_concurrency ?prv) ?s then Some ?c else None, ?rt2))"
    using assms(3) by (simp add: consider_target_def tried_bit valid_target_def k(1) seen Let_def)
  have c: "abs_cand ?c = selection_view (target_cand rq providers (view rt ?now) i t)"
    using assms(4) by (simp add: abs_cand_def selection_view_def target_cand_def id_text_def uint_index Let_def)
  show thesis
  proof (cases ?early)
    case True
    then have "\<not> accepted rq providers (view rt ?now) i t" by (auto simp: accepted_def Let_def)
    with True walk show ?thesis by (intro that [of None rt]) simp_all
  next
    case False
    then have "accepted rq providers (view rt ?now) i t \<longleftrightarrow> af_health_admit ?s \<and> has_room (prv_max_concurrency ?prv) ?s"
      by (simp add: accepted_def Let_def)
    with False walk c k(6) view2 show ?thesis
      by (intro that [of "if accepted rq providers (view rt ?now) i t then Some ?c else None" ?rt2])
        (auto split: if_splits)
  qed
qed

text \<open>The whole walk, when the caller's array holds every target.\<close>

lemma scan_view:
  assumes "\<forall>n. alloc n" and "list_all (valid_target providers) ts"
    and "i + length ts \<le> AF_ROUTING_MAX_TARGETS" and "length (rtb_providers rt) + length ts \<le> AF_ROUTING_MAX_PROVIDERS"
    and "length out \<le> i" and "AF_ROUTING_MAX_TARGETS \<le> unat maximum"
  shows "\<exists>new rt'. scan_targets alloc rq providers maximum i ts out rt = (out @ new, rt') \<and>
    map abs_cand new = map selection_view (map (\<lambda>(j, t). target_cand rq providers (view rt (rq_now_ns rq)) j t)
      (filter (\<lambda>(j, t). accepted rq providers (view rt (rq_now_ns rq)) j t) (enumerate i ts)))"
  using assms(2-5)
proof (induction ts arbitrary: i rt out)
  case (Cons t ts)
  let ?now = "rq_now_ns rq"
  have room: "length (rtb_providers rt) < AF_ROUTING_MAX_PROVIDERS" and i: "i < 64" and "valid_target providers t"
    using Cons.prems by (simp_all add: AF_ROUTING_MAX_TARGETS_def)
  from consider_view [OF assms(1) this(1,3,2), of rq] obtain r rt1 where
      walk: "consider_target alloc rq providers i t rt = (r, rt1)"
      and r: "map_option abs_cand r = (if accepted rq providers (view rt ?now) i t
           then Some (selection_view (target_cand rq providers (view rt ?now) i t)) else None)"
      and v: "view rt1 ?now = view rt ?now" and len: "length (rtb_providers rt1) \<le> Suc (length (rtb_providers rt))"
    by blast
  have prems: "list_all (valid_target providers) ts" "Suc i + length ts \<le> AF_ROUTING_MAX_TARGETS"
      "length (rtb_providers rt1) + length ts \<le> AF_ROUTING_MAX_PROVIDERS"
    using Cons.prems len by simp_all
  show ?case
  proof (cases r)
    case None
    then have "\<not> accepted rq providers (view rt ?now) i t" using r by (simp split: if_splits)
    with None Cons.IH [OF prems, of out] Cons.prems walk i show ?thesis
      by (simp add: AF_ROUTING_MAX_TARGETS_def v)
  next
    case (Some d)
    then have ok: "accepted rq providers (view rt ?now) i t"
        "abs_cand d = selection_view (target_cand rq providers (view rt ?now) i t)"
      using r by (simp_all split: if_splits)
    have "length out < unat maximum" and "length (out @ [d]) \<le> Suc i"
      using Cons.prems(4) assms(6) i by (simp_all add: AF_ROUTING_MAX_TARGETS_def)
    with Cons.IH [OF prems, of "out @ [d]"] obtain new rt' where
        "scan_targets alloc rq providers maximum i (t # ts) out rt = (out @ d # new, rt')"
        "map abs_cand new = map selection_view (map (\<lambda>(j, t). target_cand rq providers (view rt ?now) j t)
           (filter (\<lambda>(j, t). accepted rq providers (view rt ?now) j t) (enumerate (Suc i) ts)))"
      using Some walk i by (auto simp: AF_ROUTING_MAX_TARGETS_def v)
    with ok show ?thesis by (intro exI [of _ "d # new"] exI [of _ rt']) simp
  qed
qed simp

lemma consider_Some:
  "consider_target alloc rq providers i t rt = (Some c, rt') \<Longrightarrow>
   rc_index c = of_nat i \<and> \<not> bit (rq_tried rq) i \<and> rc_provider_id c \<in> Some ` prv_id ` set providers"
  by (auto simp: consider_target_def tried_bit Let_def split: if_splits prod.splits option.splits)

lemma scan_in_order:
  assumes "in_order out" and "\<forall>c \<in> set out. uint (rc_index c) < int i"
    and "\<forall>c \<in> set out. rc_provider_id c \<in> Some ` prv_id ` set providers"
  shows "in_order (fst (scan_targets alloc rq providers maximum i ts out rt)) \<and>
    (\<forall>c \<in> set (fst (scan_targets alloc rq providers maximum i ts out rt)). rc_provider_id c \<in> Some ` prv_id ` set providers)"
  using assms
proof (induction alloc rq providers maximum i ts out rt rule: scan_targets.induct)
  case (2 alloc rq providers maximum i t ts out rt)
  obtain r rt1 where walk: "consider_target alloc rq providers i t rt = (r, rt1)" by fastforce
  show ?case
  proof (cases "AF_ROUTING_MAX_TARGETS \<le> i \<or> (\<exists>c. r = Some c \<and> unat maximum \<le> length out)")
    case True
    with 2 walk show ?thesis by auto
  next
    case False
    then have i: "i < 64" and more: "\<not> AF_ROUTING_MAX_TARGETS \<le> i" by (simp_all add: AF_ROUTING_MAX_TARGETS_def)
    have below: "\<forall>c \<in> set out. uint (rc_index c) < int (Suc i)" using "2.prems"(2) by force
    show ?thesis
    proof (cases r)
      case None
      from "2.IH"(1) [OF more walk [symmetric] None "2.prems"(1) below "2.prems"(3)] None walk more
      show ?thesis by simp
    next
      case (Some c)
      then have c: "uint (rc_index c) = int i" "rc_provider_id c \<in> Some ` prv_id ` set providers"
        using consider_Some [of alloc rq providers i t rt c rt1] walk by (auto simp: uint_index [OF i])
      have full: "\<not> unat maximum \<le> length out" using False Some by simp
      have order: "in_order (out @ [c])"
        using "2.prems"(1,2) c by (auto simp: in_order_def sorted_wrt_append word_less_def)
      have below: "\<forall>d \<in> set (out @ [c]). uint (rc_index d) < int (Suc i)" using below c by auto
      have ids: "\<forall>d \<in> set (out @ [c]). rc_provider_id d \<in> Some ` prv_id ` set providers" using "2.prems"(3) c by auto
      have step: "scan_targets alloc rq providers maximum i (t # ts) out rt =
          scan_targets alloc rq providers maximum (Suc i) ts (out @ [c]) rt1"
        using Some walk more full by simp
      show ?thesis unfolding step by (rule "2.IH"(2) [OF more walk [symmetric] Some full order below ids])
    qed
  qed
qed simp

lemma caps_subset:
  assumes "w < 64" shows "caps_of w \<subseteq> caps_of p \<longleftrightarrow> p AND w = w"
proof -
  have small: "bit w n \<Longrightarrow> n < 6" for n
  proof (rule ccontr)
    assume "bit w n" "\<not> n < 6"
    moreover have "take_bit 6 w = w"
      using assms less_mask_eq [of w 6] by (simp add: take_bit_eq_mask)
    ultimately show False by (metis bit_take_bit_iff)
  qed
  have "distinct cap_names" by code_simp
  then have inj: "inj_on ((!) cap_names) {..<6}" by (simp add: inj_on_nth cap_names_def)
  have "caps_of w \<subseteq> caps_of p \<longleftrightarrow> (\<forall>n < 6. bit w n \<longrightarrow> bit p n)"
    using inj by (fastforce simp: caps_of_def inj_on_def)
  also have "\<dots> \<longleftrightarrow> (\<forall>n. bit w n \<longrightarrow> bit p n)" using small by blast
  also have "\<dots> \<longleftrightarrow> p AND w = w"
  proof
    assume "\<forall>n. bit w n \<longrightarrow> bit p n"
    then show "p AND w = w" by (auto simp: bit_eq_iff bit_and_iff)
  next
    assume "p AND w = w"
    then show "\<forall>n. bit w n \<longrightarrow> bit p n" by (metis bit_and_iff)
  qed
  finally show ?thesis .
qed

lemma accepted_eligible:
  assumes "comparable v (providers ! unat (rtg_provider_index t))" and "rq_caps rq < 64"
  shows "accepted rq providers v i t \<longleftrightarrow>
    eligible (family_name (rq_family rq)) (caps_of (rq_caps rq)) (target_cand rq providers v i t)"
proof -
  let ?prv = "providers ! unat (rtg_provider_index t)"
  let ?s = "v (prv_id ?prv)"
  have "af_health_admit ?s \<longleftrightarrow> health_name (ps_health ?s) \<in> ELIGIBLE_STATES"
    using assms(1) by (cases "ps_health ?s")
      (simp_all add: af_health_admit_def comparable_def ELIGIBLE_STATES_def health_name_def str_def)
  moreover have "has_room (prv_max_concurrency ?prv) ?s \<longleftrightarrow> uint (ps_active ?s) < uint (prv_max_concurrency ?prv)"
    using assms(1) by (simp add: has_room_def comparable_def word_less_def)
  moreover have "serves_family ?prv (rq_family rq) \<longleftrightarrow> family_name (rq_family rq) \<in> families_of ?prv"
    by (simp add: families_of_def family_name_def serves_family_def AF_EPF_RESPONSES_def str_def)
  ultimately show ?thesis
    by (auto simp: accepted_def eligible_def target_cand_def Let_def caps_subset [OF assms(2)])
qed

lemma target_cands_enumerate:
  "target_cands rq providers v i ts = map (\<lambda>(j, t). target_cand rq providers v j t) (enumerate i ts)"
  by (induction ts arbitrary: i) simp_all

lemma candidates_in_order:
  assumes "af_route_candidates alloc rq maximum rt = (Inr cs, rt')" and "rq_config rq = Some providers"
    and "list_all (\<lambda>p. 0 \<notin> set (prv_id p)) providers"
  shows "in_order cs \<and> list_all wf_cand cs"
proof -
  obtain targets where "scan_targets alloc rq providers maximum 0 targets [] rt = (cs, rt')"
    using assms(1,2) by (auto simp: af_route_candidates_def split: option.splits prod.splits)
  with scan_in_order [of "[]" 0 providers alloc rq maximum targets rt] have "in_order cs"
      "\<forall>c \<in> set cs. rc_provider_id c \<in> Some ` prv_id ` set providers"
    by (simp_all add: in_order_def)
  with assms(3) show ?thesis by (fastforce simp: list_all_iff wf_cand_def named_def)
qed

text \<open>
  C1: The assembly chooses what the oracle chooses. For a request over valid targets whose
  providers are comparable, the walk of \<open>af_route_candidates\<close> succeeds and emits exactly the
  oracle's eligible candidates in the oracle's order, and for each of the three policies and any
  cursor \<open>af_route_select\<close> takes the candidate that the oracle selects among them.
\<close>

theorem routing_refines_oracle:
  assumes "rq_route rq = Some targets" and "rq_config rq = Some providers"
    and "length targets \<le> AF_ROUTING_MAX_TARGETS" and "AF_ROUTING_MAX_TARGETS \<le> unat maximum"
    and "\<forall>n. alloc n" and "length (rtb_providers rt) + length targets \<le> AF_ROUTING_MAX_PROVIDERS"
    and "list_all (valid_target providers) targets" and "list_all (\<lambda>p. 0 \<notin> set (prv_id p)) providers"
    and "list_all (comparable (view rt (rq_now_ns rq))) providers" and "rq_caps rq < 64"
    and "policy \<in> {AF_POLICY_PRIORITY, AF_POLICY_ROUND_ROBIN, AF_POLICY_LEAST_LATENCY}"
  shows "\<exists>cs rt'. af_route_candidates alloc rq maximum rt = (Inr cs, rt') \<and>
    map abs_cand cs = map selection_view (eligible_candidates
      (target_cands rq providers (view rt (rq_now_ns rq)) 0 targets) (family_name (rq_family rq)) (caps_of (rq_caps rq))) \<and>
    select (policy_name policy) (map abs_cand cs) (uint cursor) =
      Inr (if cs = [] then None else Some (abs_cand (cs ! nat (af_route_select policy cs cursor))))"
proof -
  let ?v = "view rt (rq_now_ns rq)"
  obtain cs rt' where cs: "scan_targets alloc rq providers maximum 0 targets [] rt = (cs, rt')"
      "map abs_cand cs = map selection_view (map (\<lambda>(j, t). target_cand rq providers ?v j t)
         (filter (\<lambda>(j, t). accepted rq providers ?v j t) (enumerate 0 targets)))"
    using scan_view [of alloc providers targets 0 rt "[]" maximum rq] assms(3-7) by auto
  have run: "af_route_candidates alloc rq maximum rt = (Inr cs, rt')"
    using cs(1) assms(1,2) by (simp add: af_route_candidates_def)
  have "(\<lambda>(j, t). accepted rq providers ?v j t) jt \<longleftrightarrow>
      eligible (family_name (rq_family rq)) (caps_of (rq_caps rq)) (case jt of (j, t) \<Rightarrow> target_cand rq providers ?v j t)"
    if "jt \<in> set (enumerate 0 targets)" for jt
  proof -
    from that have "snd jt \<in> set targets" by (metis map_snd_enumerate image_eqI list.set_map)
    with assms(7,9) have "comparable ?v (providers ! unat (rtg_provider_index (snd jt)))"
      by (auto simp: list_all_iff valid_target_def)
    from accepted_eligible [OF this assms(10)] show ?thesis by (simp add: split_beta)
  qed
  then have "map abs_cand cs = map selection_view (eligible_candidates (target_cands rq providers ?v 0 targets)
      (family_name (rq_family rq)) (caps_of (rq_caps rq)))"
    unfolding cs(2) eligible_candidates_filter target_cands_enumerate filter_map
    by (simp add: comp_def cong: filter_cong)
  moreover have "select (policy_name policy) (map abs_cand cs) (uint cursor) =
      Inr (if cs = [] then None else Some (abs_cand (cs ! nat (af_route_select policy cs cursor))))"
    using select_refines [of cs policy cursor] candidates_in_order [OF run assms(2,8)] assms(11) by simp
  ultimately show ?thesis using run by blast
qed

definition sample_providers :: "cfg_provider list" where
  "sample_providers =
     [\<lparr>prv_id = [97], prv_adapter = 2, prv_enabled = 1, prv_max_concurrency = 4, prv_capabilities = 7,
       prv_health = \<lparr>hlt_fail_thr = 1, hlt_succ_thr = 1, hlt_cooldown_ms = 1000\<rparr>\<rparr>,
      \<lparr>prv_id = [98], prv_adapter = 1, prv_enabled = 1, prv_max_concurrency = 4, prv_capabilities = 6,
       prv_health = \<lparr>hlt_fail_thr = 1, hlt_succ_thr = 1, hlt_cooldown_ms = 1000\<rparr>\<rparr>]"

definition sample_request :: route_request where
  "sample_request = \<lparr>rq_config = Some sample_providers,
     rq_route = Some [\<lparr>rtg_provider_index = 0, rtg_priority = 5, rtg_weight = 1\<rparr>,
                      \<lparr>rtg_provider_index = 1, rtg_priority = - 1, rtg_weight = 1\<rparr>],
     rq_family = 2, rq_caps = 4, rq_tried = 0, rq_now_ns = 7\<rparr>"

theorem routing_refines_oracle_witness:
  "\<exists>cs rt'. af_route_candidates (\<lambda>n. True) sample_request 64 af_routing_init = (Inr cs, rt') \<and>
     select (str ''priority'') (map abs_cand cs) 3 = Inr (Some (abs_cand (cs ! 1)))"
proof -
  let ?targets = "the (rq_route sample_request)" and ?v = "view af_routing_init (rq_now_ns sample_request)"
  have "list_all (valid_target sample_providers) ?targets" "list_all (\<lambda>p. 0 \<notin> set (prv_id p)) sample_providers"
      "list_all (comparable ?v) sample_providers"
    by code_simp+
  moreover obtain cs where cs: "fst (af_route_candidates (\<lambda>n. True) sample_request 64 af_routing_init) = Inr cs"
      "af_route_select AF_POLICY_PRIORITY cs 3 = 1" "cs \<noteq> []"
  proof -
    let ?cs = "projr (fst (af_route_candidates (\<lambda>n. True) sample_request 64 af_routing_init))"
    have "fst (af_route_candidates (\<lambda>n. True) sample_request 64 af_routing_init) = Inr ?cs"
        "af_route_select AF_POLICY_PRIORITY ?cs 3 = 1" "?cs \<noteq> []"
      by code_simp+
    then show thesis by (rule that)
  qed
  ultimately show ?thesis
    using routing_refines_oracle [of sample_request ?targets sample_providers 64 "\<lambda>n. True" af_routing_init AF_POLICY_PRIORITY 3]
    by (auto simp: sample_request_def af_routing_init_def AF_ROUTING_MAX_TARGETS_def AF_ROUTING_MAX_PROVIDERS_def
        policy_name_def)
qed

section \<open>Fairness and effects\<close>

lemma mod_window: "0 < n \<Longrightarrow> (\<lambda>k. (c + k) mod n) ` {0..<n} = {0..<(n :: int)}"
proof (intro equalityI subsetI)
  fix j assume n: "0 < n" and j: "j \<in> {0..<n}"
  have "(c + (j - c) mod n) mod n = j" using j by (simp add: mod_simps)
  moreover have "(j - c) mod n \<in> {0..<n}" using n by simp
  ultimately show "j \<in> (\<lambda>k. (c + k) mod n) ` {0..<n}" by (metis image_eqI)
qed auto

text \<open>
  Round robin is fair: over as many consecutive cursor values as there are candidates,
  every candidate is selected.
\<close>

lemma round_robin_fair:
  assumes "cs \<noteq> []" and "uint cursor + int (length cs) < 2 ^ 64"
  shows "(\<lambda>k. af_route_select AF_POLICY_ROUND_ROBIN cs (cursor + of_nat k)) ` {0..<length cs} = {0..<int (length cs)}"
proof -
  have "uint (cursor + of_nat k) = uint cursor + int k" if "k < length cs" for k
  proof -
    have "int k < 2 ^ 64" using that assms(2) uint_u64_bounds(1) [of cursor] by linarith
    then have "uint (of_nat k :: u64) = int k" by (simp add: uint_nat unat_of_nat)
    then show ?thesis using that assms(2) uint_add_no_carry [of cursor "of_nat k"] by (simp add: add_carry_def)
  qed
  then have "(\<lambda>k. af_route_select AF_POLICY_ROUND_ROBIN cs (cursor + of_nat k)) ` {0..<length cs} =
      (\<lambda>k. (uint cursor + int k) mod int (length cs)) ` {0..<length cs}"
    using assms(1) by (intro image_cong) (simp_all add: af_route_select_def)
  also have "\<dots> = (\<lambda>k. (uint cursor + k) mod int (length cs)) ` {0..<int (length cs)}"
  proof -
    have "{0..<int (length cs)} = int ` {0..<length cs}" by (simp add: image_int_atLeastLessThan)
    then show ?thesis by (simp add: image_image)
  qed
  also have "\<dots> = {0..<int (length cs)}" using assms(1) by (intro mod_window) simp
  finally show ?thesis .
qed

lemma round_robin_fair_witness:
  "\<exists>c. (\<lambda>k. af_route_select AF_POLICY_ROUND_ROBIN [c, c, c] (5 + of_nat k)) ` {0..<3} = {0..<3}"
  using round_robin_fair [of "[c, c, c]" 5 for c] by (auto simp: numeral_3_eq_3)

text \<open>How a walk leaves the provider table: entries refreshed, new ones at the end.\<close>

definition table_grown :: "u64 \<Rightarrow> prov_state list \<Rightarrow> prov_state list \<Rightarrow> bool" where
  "table_grown now old new \<longleftrightarrow> length old \<le> length new \<and>
     list_all2 (\<lambda>s t. t = s \<or> t = af_health_refresh s now) old (take (length old) new) \<and>
     list_all (\<lambda>s. \<exists>i. s = new_state i) (drop (length old) new)"

lemma table_grown_refl: "table_grown now xs xs"
  by (simp add: table_grown_def list_all2_conv_all_nth)

lemma table_grown_nth:
  "table_grown now old new \<longleftrightarrow> length old \<le> length new \<and>
     (\<forall>k < length old. new ! k = old ! k \<or> new ! k = af_health_refresh (old ! k) now) \<and>
     (\<forall>k. length old \<le> k \<longrightarrow> k < length new \<longrightarrow> (\<exists>i. new ! k = new_state i))"
proof -
  have "list_all P (drop m xs) \<longleftrightarrow> (\<forall>k. m \<le> k \<longrightarrow> k < length xs \<longrightarrow> P (xs ! k))" for P m and xs :: "prov_state list"
    by (auto simp: list_all_length) (metis le_add_diff_inverse less_diff_conv add.commute)
  then show ?thesis by (auto simp: table_grown_def list_all2_conv_all_nth)
qed

lemma table_grown_trans:
  assumes "table_grown now xs ys" and "table_grown now ys zs" shows "table_grown now xs zs"
  using assms unfolding table_grown_nth
  by (smt (verit) order_trans order_less_le_trans refresh_idem refresh_new not_less)

lemma table_grown_refresh: "table_grown now xs (xs[k := af_health_refresh (xs ! k) now])"
proof (cases "k < length xs")
  case True
  then show ?thesis by (auto simp: table_grown_nth nth_list_update)
next
  case False
  then show ?thesis by (simp add: not_less list_update_beyond table_grown_refl)
qed

lemma table_grown_provider:
  "table_grown now (rtb_providers rt) (rtb_providers (snd (af_routing_provider alloc rt i)))"
  by (auto simp: af_routing_provider_def table_grown_nth nth_append split: option.split)

lemma table_grown_consider:
  "table_grown (rq_now_ns rq) (rtb_providers rt) (rtb_providers (snd (consider_target alloc rq providers i t rt)))"
proof -
  let ?prv = "providers ! unat (rtg_provider_index t)"
  obtain r rt1 where p: "af_routing_provider alloc rt (prv_id ?prv) = (r, rt1)" by fastforce
  have g: "table_grown (rq_now_ns rq) (rtb_providers rt) (rtb_providers rt1)"
    using table_grown_provider [of "rq_now_ns rq" rt alloc "prv_id ?prv"] p by simp
  from g have "table_grown (rq_now_ns rq) (rtb_providers rt)
      ((rtb_providers rt1)[k := af_health_refresh (rtb_providers rt1 ! k) (rq_now_ns rq)])" for k
    by (rule table_grown_trans) (rule table_grown_refresh)
  with g show ?thesis by (simp add: consider_target_def p Let_def table_grown_refl split: option.split)
qed

lemma table_grown_scan:
  "table_grown (rq_now_ns rq) (rtb_providers rt) (rtb_providers (snd (scan_targets alloc rq providers maximum i ts out rt)))"
proof (induction alloc rq providers maximum i ts out rt rule: scan_targets.induct)
  case (2 alloc rq providers maximum i t ts out rt)
  obtain r rt1 where walk: "consider_target alloc rq providers i t rt = (r, rt1)" by fastforce
  have "table_grown (rq_now_ns rq) (rtb_providers rt) (rtb_providers rt1)"
    using table_grown_consider [of rq rt alloc providers i t] walk by simp
  then show ?case
    using "2.IH"(1) [OF _ walk [symmetric]] "2.IH"(2) [OF _ walk [symmetric]]
    by (auto simp: walk table_grown_refl intro: table_grown_trans split: option.split)
qed (simp add: table_grown_refl)

lemma consider_routes:
  "consider_target alloc rq providers i t rt = (r, rt') \<Longrightarrow> rtb_routes rt' = rtb_routes rt"
  by (auto simp: consider_target_def af_routing_provider_def Let_def split: option.splits prod.splits if_splits)

lemma candidates_routes [simp]: "rtb_routes (snd (af_route_candidates alloc rq maximum rt)) = rtb_routes rt"
proof -
  have "rtb_routes (snd (scan_targets alloc rq providers maximum i ts out rt)) = rtb_routes rt" for providers i ts out rt
    by (induction ts arbitrary: i out rt) (auto simp: consider_routes split: prod.split option.split)
  from this [of _ 0 _ "[]" rt] show ?thesis
    by (auto simp: af_route_candidates_def split: option.split prod.split) (metis snd_conv)
qed

text \<open>
  A routing decision changes the runtime table, whatever the request: it applies the
  transition of time to providers it considers and appends fresh healthy records for providers
  it sees first, and it changes nothing else of the provider records, their order or the route
  states.
\<close>

lemma candidates_effect:
  "table_grown (rq_now_ns rq) (rtb_providers rt) (rtb_providers (snd (af_route_candidates alloc rq maximum rt))) \<and>
   rtb_routes (snd (af_route_candidates alloc rq maximum rt)) = rtb_routes rt"
proof
  show "table_grown (rq_now_ns rq) (rtb_providers rt) (rtb_providers (snd (af_route_candidates alloc rq maximum rt)))"
    using table_grown_scan [of rq rt alloc _ maximum 0 _ "[]"]
    by (auto simp: af_route_candidates_def table_grown_refl split: option.split prod.split) (metis snd_conv)
qed simp

text \<open>
  A full table hides a provider: entries are never removed, so once reloads have shown the
  runtime as many identifiers as the table holds, a provider with a new one is never a candidate.
\<close>

lemma full_table_hides_provider:
  assumes "length (rtb_providers rt) = AF_ROUTING_MAX_PROVIDERS"
    and "scan_ids (map ps_id (rtb_providers rt)) (prv_id (providers ! unat (rtg_provider_index t))) 0 = None"
  shows "fst (consider_target alloc rq providers i t rt) = None"
  using assms by (simp add: consider_target_def af_routing_provider_def Let_def)

end
