(* ===== verification/Fallback.thy ===== *)
theory Fallback
  imports Routing_Select
begin

text \<open>
  The attempts of one request, from \<open>src/providers/provider_exchange.asm\<close> and
  \<open>src/providers/provider_error.asm\<close>: the fallback budget, the choice of a target with its
  bookkeeping, the retryable classes and the rule that decides whether another attempt is made.
  The transfer itself (URL, body, headers, libcurl) is not part of the model.
\<close>

section \<open>Exchanges\<close>

definition AF_PX_F_HEAD_SENT :: u64 where "AF_PX_F_HEAD_SENT = 2"
definition AF_PX_F_COMMITTED :: u64 where "AF_PX_F_COMMITTED = 4"
definition AF_PX_F_CANCELLED :: u64 where "AF_PX_F_CANCELLED = 64"
definition AF_PX_F_COUNTED :: u64 where "AF_PX_F_COUNTED = 1024"

record cfg_route =
  rte_id :: cstring
  rte_policy :: u64
  rte_targets :: "cfg_target list"
  rte_fb_enabled :: u64
  rte_fb_max_attempts :: u64
  rte_fb_retryable :: u64

record exchange =
  px_config :: "cfg_provider list option"
  px_route :: cfg_route
  px_provider :: "nat option"
  px_family_bit :: u64
  px_req_caps :: u64
  px_conn :: bool
  px_flags :: u64
  px_tried :: u64
  px_attempt :: u64
  px_max_attempts :: u64
  px_retry_mask :: u64
  px_state_ptr :: "nat option"
  px_was_probe :: bool
  px_attempt_ns :: u64

text \<open>The budget an exchange reads once from its route.\<close>

definition fallback_budget :: "cfg_route \<Rightarrow> u64" where
  "fallback_budget r =
     (if rte_fb_enabled r = 0 then 1 else if rte_fb_max_attempts r \<noteq> 0 then rte_fb_max_attempts r else 1)"

definition fallback_mask :: "cfg_route \<Rightarrow> u64" where
  "fallback_mask r = (if rte_fb_enabled r \<noteq> 0 then rte_fb_retryable r else 0)"

section \<open>The fallback rule\<close>

definition retry_map :: "(int \<times> u64) list" where
  "retry_map = [(-120, 1), (-121, 2), (-122, 4), (-123, 8), (-124, 16), (-125, 32)]"

fun scan_retry :: "(int \<times> u64) list \<Rightarrow> int \<Rightarrow> u64 \<Rightarrow> bool" where
  "scan_retry [] code bits = False"
| "scan_retry ((c, b) # rest) code bits = (if c = code then b AND bits \<noteq> 0 else scan_retry rest code bits)"

definition af_prov_is_retryable :: "int \<Rightarrow> u64 \<Rightarrow> bool" where
  "af_prov_is_retryable code bits = scan_retry retry_map code bits"

definition af_prov_may_fall_back :: "exchange \<Rightarrow> int \<Rightarrow> bool" where
  "af_prov_may_fall_back x verdict =
     (if px_flags x AND AF_PX_F_COMMITTED \<noteq> 0 then False
      else if px_flags x AND AF_PX_F_HEAD_SENT \<noteq> 0 then False
      else if px_flags x AND AF_PX_F_CANCELLED \<noteq> 0 then False
      else if \<not> px_conn x then False
      else if px_max_attempts x \<le> px_attempt x then False
      else af_prov_is_retryable verdict (px_retry_mask x))"

section \<open>One attempt\<close>

definition af_prov_fill_request :: "exchange \<Rightarrow> u64 \<Rightarrow> route_request" where
  "af_prov_fill_request x now = \<lparr>rq_config = px_config x, rq_route = Some (rte_targets (px_route x)),
     rq_family = px_family_bit x, rq_caps = px_req_caps x, rq_tried = px_tried x, rq_now_ns = now\<rparr>"

text \<open>The cursor of the route: it advances first and the new value selects.\<close>

definition next_cursor :: "exchange \<Rightarrow> nat option \<Rightarrow> routing \<Rightarrow> u64 \<times> routing" where
  "next_cursor x rs rt =
     (case rs of
        None \<Rightarrow> (0, rt)
      | Some k \<Rightarrow>
          if rte_policy (px_route x) \<noteq> AF_POLICY_ROUND_ROBIN then (0, rt)
          else let r = (rtb_routes rt ! k)\<lparr>rs_cursor := rs_cursor (rtb_routes rt ! k) + 1\<rparr>
               in (rs_cursor r, rt\<lparr>rtb_routes := (rtb_routes rt)[k := r]\<rparr>))"

definition count_served :: "nat option \<Rightarrow> routing \<Rightarrow> routing" where
  "count_served rs rt = (case rs of None \<Rightarrow> rt
     | Some k \<Rightarrow> rt\<lparr>rtb_routes := (rtb_routes rt)[k := (rtb_routes rt ! k)\<lparr>rs_served := rs_served (rtb_routes rt ! k) + 1\<rparr>]\<rparr>)"

definition count_refused :: "nat option \<Rightarrow> routing \<Rightarrow> routing" where
  "count_refused rs rt = (case rs of None \<Rightarrow> rt
     | Some k \<Rightarrow> rt\<lparr>rtb_routes := (rtb_routes rt)[k := (rtb_routes rt ! k)\<lparr>rs_refused := rs_refused (rtb_routes rt ! k) + 1\<rparr>]\<rparr>)"

text \<open>
  The first half of \<open>af_prov_attempt_start\<close>, up to the transfer: \<open>None\<close> is the status
  \<open>AF_E_ROUTE_NO_TARGET\<close>, which is reached with no route state when there is no candidate.
\<close>

definition choose_target :: "(nat \<Rightarrow> bool) \<Rightarrow> u64 \<Rightarrow> exchange \<Rightarrow> routing \<Rightarrow> route_candidate option \<times> exchange \<times> routing" where
  "choose_target alloc now x rt =
     (case af_route_candidates alloc (af_prov_fill_request x now) (of_nat AF_ROUTING_MAX_TARGETS) rt of
        (Inl e, rt) \<Rightarrow> (None, x, count_refused None rt)
      | (Inr cs, rt) \<Rightarrow>
          if cs = [] then (None, x, count_refused None rt)
          else
            let (rs, rt) = af_routing_route alloc rt (rte_id (px_route x));
                (cursor, rt) = next_cursor x rs rt;
                j = af_route_select (rte_policy (px_route x)) cs cursor
            in if j < 0 then (None, x, count_refused rs rt)
               else
                 let c = cs ! nat j;
                     (probe, s) = af_health_begin (rtb_providers rt ! rc_state c)
                 in (Some c,
                     x\<lparr>px_tried := px_tried x OR push_bit (unat (rc_index c) mod 64) 1,
                       px_provider := Some (rc_provider c), px_state_ptr := Some (rc_state c), px_was_probe := probe,
                       px_flags := px_flags x OR AF_PX_F_COUNTED, px_attempt := px_attempt x + 1, px_attempt_ns := now\<rparr>,
                     count_served rs (rt\<lparr>rtb_providers := (rtb_providers rt)[rc_state c := s]\<rparr>)))"

section \<open>The end of an attempt\<close>

text \<open>The health settings of the provider an exchange uses.\<close>

definition provider_health :: "exchange \<Rightarrow> health_config option" where
  "provider_health x =
     (case px_config x of
        None \<Rightarrow> None
      | Some providers \<Rightarrow> map_option (\<lambda>k. prv_health (providers ! k)) (px_provider x))"

definition attempt_latency :: "u64 \<Rightarrow> exchange \<Rightarrow> u64" where
  "attempt_latency now x = (if sub_carry now (px_attempt_ns x) then 0 else (now - px_attempt_ns x) div 1000)"

definition AF_E_UP_CANCELLED :: int where "AF_E_UP_CANCELLED = -130"

text \<open>\<open>monotonic\<close> is what the clock returns.\<close>

definition af_prov_attempt_release :: "u64 \<Rightarrow> exchange \<Rightarrow> int \<Rightarrow> routing \<Rightarrow> exchange \<times> routing" where
  "af_prov_attempt_release monotonic x verdict rt =
     (if px_flags x AND AF_PX_F_COUNTED = 0 then (x, rt)
      else
        let y = x\<lparr>px_flags := px_flags x AND NOT AF_PX_F_COUNTED\<rparr>;
            now = af_routing_now_ns monotonic (Some rt)
        in case px_state_ptr x of
          None \<Rightarrow> (y, rt)
        | Some k \<Rightarrow>
            let outcome = (if verdict = AF_E_UP_CANCELLED then Cancelled
                  else if verdict < 0 then Failed now
                  else Succeeded (attempt_latency now x));
                s = record_outcome (rtb_providers rt ! k) (provider_health x) (px_was_probe x) outcome
            in (y, rt\<lparr>rtb_providers := (rtb_providers rt)[k := s]\<rparr>))"

section \<open>The rule against the oracle\<close>

definition class_names :: "string list" where
  "class_names = [''connect_failed'', ''dns_failed'', ''connect_timeout'', ''http_502'', ''http_503'', ''http_504'']"

definition failure_class :: "int \<Rightarrow> pystr" where
  "failure_class code = (case map_of (zip [-120, -121, -122, -123, -124, -125] class_names) code of
     Some n \<Rightarrow> str n | None \<Rightarrow> str ''other'')"

text \<open>The classes a route lists as retryable, one bit each, in the order of the schema.\<close>

definition configured_classes :: "u64 \<Rightarrow> pystr set" where
  "configured_classes m = {str (class_names ! i) | i. i < length class_names \<and> bit m i}"

text \<open>Whether the answer to the client has begun, and whether the client is still there.\<close>

definition answer_begun :: "exchange \<Rightarrow> bool" where
  "answer_begun x \<longleftrightarrow> px_flags x AND AF_PX_F_COMMITTED \<noteq> 0 \<or> px_flags x AND AF_PX_F_HEAD_SENT \<noteq> 0"

definition client_gone :: "exchange \<Rightarrow> bool" where
  "client_gone x \<longleftrightarrow> px_flags x AND AF_PX_F_CANCELLED \<noteq> 0 \<or> \<not> px_conn x"

lemma class_bits:
  "1 AND m \<noteq> 0 \<longleftrightarrow> bit m 0" "2 AND m \<noteq> 0 \<longleftrightarrow> bit m 1" "4 AND m \<noteq> 0 \<longleftrightarrow> bit m 2" "8 AND m \<noteq> 0 \<longleftrightarrow> bit m 3"
  "16 AND m \<noteq> 0 \<longleftrightarrow> bit m 4" "32 AND m \<noteq> 0 \<longleftrightarrow> bit m 5" for m :: u64
  using and_exp_eq_0_iff_not_bit [of m 0] and_exp_eq_0_iff_not_bit [of m 1] and_exp_eq_0_iff_not_bit [of m 2]
    and_exp_eq_0_iff_not_bit [of m 3] and_exp_eq_0_iff_not_bit [of m 4] and_exp_eq_0_iff_not_bit [of m 5]
  by (simp_all add: and.commute [of m])

lemma configured_iff:
  "n \<in> configured_classes m \<longleftrightarrow> n = str ''connect_failed'' \<and> bit m 0 \<or> n = str ''dns_failed'' \<and> bit m 1 \<or>
     n = str ''connect_timeout'' \<and> bit m 2 \<or> n = str ''http_502'' \<and> bit m 3 \<or> n = str ''http_503'' \<and> bit m 4 \<or>
     n = str ''http_504'' \<and> bit m 5"
proof -
  have "{i. i < length class_names} = {0, 1, 2, 3, 4, 5}" by (auto simp: class_names_def)
  then have "n \<in> configured_classes m \<longleftrightarrow> (\<exists>i \<in> {0, 1, 2, 3, 4, 5}. n = str (class_names ! i) \<and> bit m i)"
    unfolding configured_classes_def by blast
  then show ?thesis by (simp add: class_names_def)
qed

lemma retryable_class:
  "af_prov_is_retryable code m \<longleftrightarrow> failure_class code \<in> RETRYABLE_ERRORS \<and> failure_class code \<in> configured_classes m"
  unfolding configured_iff
  by (simp add: af_prov_is_retryable_def retry_map_def failure_class_def class_names_def RETRYABLE_ERRORS_def class_bits str_def)

text \<open>
  C7: The fallback rule of the assembly is the oracle's, within the classes the route lists. For an
  exchange that took its budget and its classes from its route and has an attempt behind it, the
  rule allows another attempt and \<open>choose_target\<close> finds a target for it exactly when the oracle
  allows it, with the same answer for whether there is a next candidate, and the route lists the class of the
  failure: the answer has not begun, the client is there, fallback is enabled, the attempts are not used up
  and the failure is of a retryable class. With all six classes listed the last condition falls away.
\<close>

theorem fallback_refines_oracle:
  fixes alloc :: "nat \<Rightarrow> bool" and now :: u64 and rt :: routing and verdict :: int
  assumes "px_max_attempts x = fallback_budget (px_route x)" and "px_retry_mask x = fallback_mask (px_route x)"
    and "px_attempt x \<noteq> 0"
  defines "next \<equiv> fst (choose_target alloc now x rt) \<noteq> None"
    and "allowed \<equiv> \<lambda>next. fallback_allowed (answer_begun x) (client_gone x) (rte_fb_enabled (px_route x) \<noteq> 0)
      (uint (px_attempt x)) (uint (rte_fb_max_attempts (px_route x))) (failure_class verdict) next"
  shows "(af_prov_may_fall_back x verdict \<and> next \<longleftrightarrow>
      allowed next \<and> failure_class verdict \<in> configured_classes (rte_fb_retryable (px_route x))) \<and>
    (rte_fb_retryable (px_route x) AND 63 = 63 \<longrightarrow> (af_prov_may_fall_back x verdict \<longleftrightarrow> allowed True))"
proof -
  have rule: "af_prov_may_fall_back x verdict \<longleftrightarrow>
      allowed True \<and> failure_class verdict \<in> configured_classes (rte_fb_retryable (px_route x))"
  proof (cases "rte_fb_enabled (px_route x) = 0")
    case True
    have "1 \<le> uint (px_attempt x)" using assms(3) by (rule uint_pos)
    then have "1 \<le> px_attempt x" by (simp add: word_le_def)
    with True assms(1) show ?thesis
      by (simp add: af_prov_may_fall_back_def fallback_allowed_def fallback_budget_def allowed_def)
  next
    case False
    have "uint (px_attempt x) \<noteq> 0" and "1 \<le> uint (px_attempt x)" using assms(3) uint_pos by (auto simp: uint_0_iff)
    then have "\<not> px_max_attempts x \<le> px_attempt x \<longleftrightarrow> uint (px_attempt x) < uint (rte_fb_max_attempts (px_route x))"
      using False assms(1) by (auto simp: fallback_budget_def word_le_def)
    then show ?thesis using False assms(2)
      by (auto simp: af_prov_may_fall_back_def fallback_allowed_def answer_begun_def client_gone_def fallback_mask_def
          retryable_class allowed_def)
  qed
  have all: "failure_class verdict \<in> configured_classes (rte_fb_retryable (px_route x))"
    if "failure_class verdict \<in> RETRYABLE_ERRORS" "rte_fb_retryable (px_route x) AND 63 = 63"
  proof -
    have "bit (63 :: u64) i \<Longrightarrow> bit (rte_fb_retryable (px_route x)) i" for i using that(2) by (metis bit_and_iff)
    from this [of 0] this [of 1] this [of 2] this [of 3] this [of 4] this [of 5] that(1) show ?thesis
      by (auto simp: configured_iff RETRYABLE_ERRORS_def)
  qed
  show ?thesis using rule all by (auto simp: allowed_def fallback_allowed_def)
qed

definition sample_route :: cfg_route where
  "sample_route = \<lparr>rte_id = [114], rte_policy = 0, rte_targets = the (rq_route sample_request),
     rte_fb_enabled = 1, rte_fb_max_attempts = 2, rte_fb_retryable = 63\<rparr>"

definition sample_exchange :: exchange where
  "sample_exchange = \<lparr>px_config = Some sample_providers, px_route = sample_route, px_provider = None, px_family_bit = 2, px_req_caps = 4,
     px_conn = True, px_flags = 0, px_tried = 0, px_attempt = 0, px_max_attempts = 2, px_retry_mask = 63,
     px_state_ptr = None, px_was_probe = False, px_attempt_ns = 0\<rparr>"

theorem fallback_refines_oracle_witness:
  "let x = sample_exchange\<lparr>px_attempt := 1, px_route := sample_route\<lparr>rte_fb_retryable := 48\<rparr>, px_retry_mask := 48\<rparr>;
       next = fst (choose_target (\<lambda>n. True) 0 x af_routing_init) \<noteq> None
   in (af_prov_may_fall_back x (-124) \<and> next \<longleftrightarrow> next) \<and> \<not> (af_prov_may_fall_back x (-120) \<and> next) \<and>
     af_prov_may_fall_back (sample_exchange\<lparr>px_attempt := 1\<rparr>) (-124) \<and>
     \<not> af_prov_may_fall_back (sample_exchange\<lparr>px_attempt := 2\<rparr>) (-124)"
proof -
  define x where "x = sample_exchange\<lparr>px_attempt := 1, px_route := sample_route\<lparr>rte_fb_retryable := 48\<rparr>, px_retry_mask := 48\<rparr>"
  have o: "fallback_allowed False False True 1 2 (failure_class (-124)) True"
      "\<not> fallback_allowed False False True 2 2 (failure_class (-124)) True"
      "\<not> fallback_allowed False False True 1 2 (failure_class (-124)) False"
    by code_simp+
  have "bit (48 :: u64) 4" "\<not> bit (48 :: u64) 0" "failure_class (-124) = str ''http_503''" "failure_class (-120) = str ''connect_failed''"
    by code_simp+
  moreover have "str ''connect_failed'' \<noteq> str n" if "n \<in> {''dns_failed'', ''connect_timeout'', ''http_502'', ''http_503'', ''http_504''}" for n
    using that by (auto simp: str_def)
  ultimately have c: "failure_class (-124) \<in> configured_classes 48" "failure_class (-120) \<notin> configured_classes 48"
    by (simp_all add: configured_iff)
  have h: "px_max_attempts x = fallback_budget (px_route x)" "px_retry_mask x = fallback_mask (px_route x)" "px_attempt x \<noteq> 0"
    by (simp_all add: x_def sample_exchange_def sample_route_def fallback_budget_def fallback_mask_def)
  have f: "answer_begun x = False" "client_gone x = False" "rte_fb_enabled (px_route x) = 1" "px_attempt x = 1"
    "rte_fb_max_attempts (px_route x) = 2" "rte_fb_retryable (px_route x) = 48"
    by (simp_all add: x_def sample_exchange_def sample_route_def answer_begun_def client_gone_def)
  note part = fallback_refines_oracle [OF h, where alloc = "\<lambda>n. True" and now = 0 and rt = af_routing_init, unfolded f, THEN conjunct1]
  have "af_prov_may_fall_back (sample_exchange\<lparr>px_attempt := 1\<rparr>) (-124) \<and>
     \<not> af_prov_may_fall_back (sample_exchange\<lparr>px_attempt := 2\<rparr>) (-124)"
    using fallback_refines_oracle [of "sample_exchange\<lparr>px_attempt := 1\<rparr>" "-124"]
      fallback_refines_oracle [of "sample_exchange\<lparr>px_attempt := 2\<rparr>" "-124"] o
    by (simp add: sample_exchange_def sample_route_def fallback_budget_def fallback_mask_def answer_begun_def client_gone_def)
  moreover have "fallback_allowed False False True 1 2 (failure_class (-124)) n \<longleftrightarrow> n" for n using o(1,3) by (cases n) simp_all
  ultimately show ?thesis using part [of "-124"] part [of "-120"] c unfolding x_def [symmetric] Let_def by simp
qed

section \<open>The attempts of a request\<close>

lemma scan_collects:
  "c \<in> set (fst (scan_targets alloc rq providers maximum i ts out rt)) \<Longrightarrow>
   c \<in> set out \<or> (\<exists>j t rt1 rt2. j < 64 \<and> consider_target alloc rq providers j t rt1 = (Some c, rt2))"
proof (induction alloc rq providers maximum i ts out rt rule: scan_targets.induct)
  case (2 alloc rq providers maximum i t ts out rt)
  obtain r rt1 where walk: "consider_target alloc rq providers i t rt = (r, rt1)" by fastforce
  show ?case
  proof (cases "AF_ROUTING_MAX_TARGETS \<le> i \<or> (\<exists>c. r = Some c \<and> unat maximum \<le> length out)")
    case True
    with "2.prems" walk show ?thesis by (auto split: if_splits)
  next
    case False
    then have i: "i < 64" and more: "\<not> AF_ROUTING_MAX_TARGETS \<le> i" by (simp_all add: AF_ROUTING_MAX_TARGETS_def)
    show ?thesis
    proof (cases r)
      case None
      from "2.IH"(1) [OF more walk [symmetric] None] "2.prems" None walk more show ?thesis by simp
    next
      case (Some d)
      then have full: "\<not> unat maximum \<le> length out" using False by simp
      from "2.IH"(2) [OF more walk [symmetric] Some full] "2.prems" Some walk more full
      consider "c \<in> set (out @ [d])"
        | "\<exists>j t rt1 rt2. j < 64 \<and> consider_target alloc rq providers j t rt1 = (Some c, rt2)" by auto
      then show ?thesis using i walk Some by cases auto
    qed
  qed
qed simp

lemma candidate_untried:
  assumes "af_route_candidates alloc rq maximum rt = (Inr cs, rt')" and "c \<in> set cs"
  shows "unat (rc_index c) < 64 \<and> \<not> bit (rq_tried rq) (unat (rc_index c))"
proof -
  obtain providers targets where "scan_targets alloc rq providers maximum 0 targets [] rt = (cs, rt')"
    using assms(1) by (auto simp: af_route_candidates_def split: option.splits prod.splits)
  with scan_collects [of c alloc rq providers maximum 0 targets "[]" rt] assms(2)
  obtain j t rt1 rt2 where j: "j < 64" and "consider_target alloc rq providers j t rt1 = (Some c, rt2)" by auto
  then have "rc_index c = of_nat j" "\<not> bit (rq_tried rq) j" using consider_Some by blast+
  with j show ?thesis by (simp add: unat_of_nat)
qed

lemma select_scan_bound: "best < length cs \<Longrightarrow> select_scan beats cs i best < length cs"
  by (induction beats cs i best rule: select_scan.induct) (subst select_scan.simps, simp)

lemma select_bound: "0 \<le> af_route_select policy cs cursor \<Longrightarrow> nat (af_route_select policy cs cursor) < length cs"
  by (cases "cs = []") (auto simp: af_route_select_def select_scan_bound nat_less_iff split: if_splits)

lemma choose_target_Some:
  assumes "choose_target alloc now x rt = (Some c, y, rt')"
  shows "unat (rc_index c) < 64" and "\<not> bit (px_tried x) (unat (rc_index c))"
    and "px_tried y = px_tried x OR 2 ^ unat (rc_index c)" and "px_attempt y = px_attempt x + 1"
    and "px_max_attempts y = px_max_attempts x"
proof -
  let ?rq = "af_prov_fill_request x now"
  obtain cs rt1 where cs: "af_route_candidates alloc ?rq (of_nat AF_ROUTING_MAX_TARGETS) rt = (Inr cs, rt1)"
      and c: "c \<in> set cs"
      and y: "px_tried y = px_tried x OR push_bit (unat (rc_index c) mod 64) 1"
        "px_attempt y = px_attempt x + 1" "px_max_attempts y = px_max_attempts x"
    using assms
    by (auto simp: choose_target_def Let_def select_bound not_less split: sum.splits prod.splits if_splits)
  from candidate_untried [OF cs c] y
  show "unat (rc_index c) < 64" "\<not> bit (px_tried x) (unat (rc_index c))"
      "px_tried y = px_tried x OR 2 ^ unat (rc_index c)" "px_attempt y = px_attempt x + 1"
      "px_max_attempts y = px_max_attempts x"
    by (simp_all add: af_prov_fill_request_def)
qed

text \<open>
  The attempts of one request: the first, then one more after each failure the fallback rule
  allows. Between attempts everything but the request's own record of them may change.
\<close>

inductive attempts :: "u64 \<Rightarrow> nat list \<Rightarrow> exchange \<Rightarrow> bool" for budget :: u64 where
  first: "px_tried x = 0 \<Longrightarrow> px_attempt x = 0 \<Longrightarrow> px_max_attempts x = budget \<Longrightarrow>
    choose_target alloc now x rt = (Some c, y, rt') \<Longrightarrow> attempts budget [unat (rc_index c)] y"
| again: "attempts budget tried x \<Longrightarrow> px_tried y = px_tried x \<Longrightarrow> px_attempt y = px_attempt x \<Longrightarrow>
    px_max_attempts y = px_max_attempts x \<Longrightarrow> af_prov_may_fall_back y verdict \<Longrightarrow>
    choose_target alloc now y rt = (Some c, z, rt') \<Longrightarrow> attempts budget (tried @ [unat (rc_index c)]) z"

lemma attempts_inv:
  "attempts budget tried x \<Longrightarrow> budget \<noteq> 0 \<Longrightarrow>
   distinct tried \<and> (\<forall>i. bit (px_tried x) i \<longleftrightarrow> i \<in> set tried) \<and> set tried \<subseteq> {..<64} \<and>
   uint (px_attempt x) = int (length tried) \<and> px_max_attempts x = budget \<and> int (length tried) \<le> uint budget"
proof (induction rule: attempts.induct)
  case (first x alloc now rt c y rt')
  note c = choose_target_Some [OF first.hyps(4)]
  have "1 \<le> uint budget" using first.prems by (rule uint_pos)
  with c first.hyps show ?case by (auto simp: bit_or_iff bit_exp_iff)
next
  case (again tried x y verdict alloc now rt c z rt')
  note c = choose_target_Some [OF again.hyps(6)]
  from again.IH [OF again.prems] have IH: "distinct tried" "\<And>i. bit (px_tried x) i \<longleftrightarrow> i \<in> set tried"
    "set tried \<subseteq> {..<64}" "uint (px_attempt x) = int (length tried)" "px_max_attempts x = budget" by blast+
  have below: "px_attempt y < budget"
    using again.hyps(3-5) IH(5) by (auto simp: af_prov_may_fall_back_def split: if_splits)
  then have "uint (px_attempt y) + 1 \<le> uint budget" by (simp add: word_less_def)
  moreover have "uint (px_attempt y + 1) = uint (px_attempt y) + 1"
    using below uint_add_no_carry [of "px_attempt y" 1] uint_u64_bounds(2) [of budget]
    by (simp add: add_carry_def word_less_def)
  ultimately show ?case using IH c again.hyps(2-4) by (auto simp: bit_or_iff bit_exp_iff)
qed

text \<open>
  C8: A request ends: whatever happens between its attempts, it never attempts a target twice
  and it makes at most as many attempts as its budget allows, and never more than 64.
\<close>

theorem attempts_bounded:
  assumes "attempts budget tried x" and "budget \<noteq> 0"
  shows "distinct tried \<and> int (length tried) \<le> uint budget \<and> length tried \<le> 64 \<and>
    uint (px_attempt x) = int (length tried)"
proof -
  note inv = attempts_inv [OF assms]
  then have "length tried = card (set tried)" by (simp add: distinct_card)
  also have "\<dots> \<le> card {..<64 :: nat}" using inv by (intro card_mono) simp_all
  finally show ?thesis using inv by simp
qed

theorem attempts_bounded_witness:
  "\<exists>tried x. attempts 2 tried x \<and> tried = [1, 0] \<and> distinct tried \<and> length tried \<le> 64"
proof -
  let ?ok = "\<lambda>n :: nat. True"
  define a where "a = choose_target ?ok 7 sample_exchange af_routing_init"
  define b where "b = choose_target ?ok 8 (fst (snd a)) (snd (snd a))"
  have a: "fst a \<noteq> None" "unat (rc_index (the (fst a))) = 1" unfolding a_def by code_simp+
  have b: "fst b \<noteq> None" "unat (rc_index (the (fst b))) = 0" "af_prov_may_fall_back (fst (snd a)) (-124)"
    unfolding b_def a_def by code_simp+
  have "attempts 2 [1] (fst (snd a))"
    using attempts.first [of sample_exchange 2 ?ok 7 af_routing_init "the (fst a)" "fst (snd a)" "snd (snd a)"] a
    by (simp add: sample_exchange_def a_def)
  then have run: "attempts 2 [1, 0] (fst (snd b))"
    using attempts.again [of 2 "[1]" "fst (snd a)" "fst (snd a)" "-124" ?ok 8 "snd (snd a)" "the (fst b)" "fst (snd b)" "snd (snd b)"] b
    by (simp add: b_def)
  from attempts_bounded [OF run] run show ?thesis by auto
qed

text \<open>
  The refusal counter: when no target is eligible the route's state has not been looked up, so
  nothing counts the refused request.
\<close>

lemma no_candidate_not_counted:
  assumes "fst (af_route_candidates alloc (af_prov_fill_request x now) (of_nat AF_ROUTING_MAX_TARGETS) rt) = Inr []"
  shows "fst (choose_target alloc now x rt) = None" and "rtb_routes (snd (snd (choose_target alloc now x rt))) = rtb_routes rt"
proof -
  obtain rt1 where run: "af_route_candidates alloc (af_prov_fill_request x now) (of_nat AF_ROUTING_MAX_TARGETS) rt = (Inr [], rt1)"
    using assms by (metis prod.collapse)
  then have "rtb_routes rt1 = rtb_routes rt" using candidates_routes by (metis snd_conv)
  with run show "fst (choose_target alloc now x rt) = None" "rtb_routes (snd (snd (choose_target alloc now x rt))) = rtb_routes rt"
    by (simp_all add: choose_target_def count_refused_def)
qed

section \<open>Slots\<close>

lemma counted_bit: "(w OR AF_PX_F_COUNTED) AND AF_PX_F_COUNTED \<noteq> (0 :: u64)" "(w AND NOT AF_PX_F_COUNTED) AND AF_PX_F_COUNTED = 0"
proof -
  have "(w OR AF_PX_F_COUNTED) AND AF_PX_F_COUNTED = AF_PX_F_COUNTED" by (simp add: bit_eq_iff bit_and_iff bit_or_iff)
  then show "(w OR AF_PX_F_COUNTED) AND AF_PX_F_COUNTED \<noteq> (0 :: u64)" by (simp add: AF_PX_F_COUNTED_def)
qed (simp add: and.assoc)

lemma active_record_outcome: "ps_active s \<noteq> 0 \<Longrightarrow> ps_active (record_outcome s p f v) = ps_active s - 1"
  by (simp add: record_outcome_def active_outcome af_health_end_def Let_def split: verdict.split)

text \<open>
  C20: Every attempt gives its slot back exactly once: however an attempt ends, its release
  lowers the number of active attempts of its provider by one, and a second release of the same
  exchange changes nothing.
\<close>

theorem release_once:
  assumes "px_flags x AND AF_PX_F_COUNTED \<noteq> 0" and "px_state_ptr x = Some k" and "k < length (rtb_providers rt)"
    and "ps_active (rtb_providers rt ! k) \<noteq> 0"
  shows "let (y, rt1) = af_prov_attempt_release monotonic x verdict rt in
    ps_active (rtb_providers rt1 ! k) = ps_active (rtb_providers rt ! k) - 1 \<and>
    af_prov_attempt_release monotonic' y verdict' rt2 = (y, rt2)"
  using assms by (simp add: af_prov_attempt_release_def Let_def active_record_outcome counted_bit)

theorem release_once_witness:
  "let x = fst (snd (choose_target (\<lambda>n. True) 7 sample_exchange af_routing_init));
       rt = snd (snd (choose_target (\<lambda>n. True) 7 sample_exchange af_routing_init));
       (y, rt1) = af_prov_attempt_release 9 x (-124) rt
   in ps_active (rtb_providers rt ! 1) = 1 \<and> ps_active (rtb_providers rt1 ! 1) = 0 \<and>
     af_prov_attempt_release 10 y 0 rt1 = (y, rt1)"
proof -
  let ?x = "fst (snd (choose_target (\<lambda>n. True) 7 sample_exchange af_routing_init))"
  let ?rt = "snd (snd (choose_target (\<lambda>n. True) 7 sample_exchange af_routing_init))"
  have "px_flags ?x AND AF_PX_F_COUNTED \<noteq> 0" "px_state_ptr ?x = Some 1" "1 < length (rtb_providers ?rt)"
      "ps_active (rtb_providers ?rt ! 1) = 1"
    by code_simp+
  with release_once [of ?x 1 ?rt 9 "-124" 10 0] show ?thesis by (auto simp: Let_def split_beta)
qed

end
