(* ===== verification/Cstr.thy ===== *)
theory Cstr
  imports Checked "HOL-Library.Sublist"
begin

text \<open>
  The string and memory primitives of \<open>src/core/cstr.asm\<close>. A byte is an \<open>8 word\<close>. A counted
  argument is the list of bytes it points at and the count; the loops keep the index of the code
  (\<open>rcx\<close>) and read \<open>a ! i\<close>, always below the count. A terminated string is the list of its bytes
  before the terminator, and \<open>cbyte\<close> reads it with the terminator in place. The two procedures
  that write memory (\<open>af_mem_copy\<close>, \<open>af_mem_zero\<close>) work on the bytes of one stretch of memory,
  source and destination being offsets in it, so that overlapping regions are expressed.
\<close>

type_synonym u8 = "8 word"

section \<open>Terminated strings\<close>

definition cbyte :: "u8 list \<Rightarrow> nat \<Rightarrow> u8" where
  "cbyte s i = (if i < length s then s ! i else 0)"

function cstr_len_at :: "u8 list \<Rightarrow> nat \<Rightarrow> nat" where
  "cstr_len_at s i = (if cbyte s i = 0 then i else cstr_len_at s (i + 1))"
  by pat_completeness auto
termination
  by (relation "measure (\<lambda>(s, i). length s - i)") (auto simp: cbyte_def split: if_splits)

definition af_cstr_len :: "u8 list option \<Rightarrow> nat" where
  "af_cstr_len s = (case s of None \<Rightarrow> 0 | Some s \<Rightarrow> cstr_len_at s 0)"

function cstr_eq_at :: "u8 list \<Rightarrow> u8 list \<Rightarrow> nat \<Rightarrow> bool" where
  "cstr_eq_at a b i =
     (if cbyte a i \<noteq> cbyte b i then False
      else if cbyte a i = 0 then True
      else cstr_eq_at a b (i + 1))"
  by pat_completeness auto
termination
  by (relation "measure (\<lambda>(a, b, i). length a - i)") (auto simp: cbyte_def split: if_splits)

definition af_cstr_eq :: "u8 list \<Rightarrow> u8 list \<Rightarrow> bool" where
  "af_cstr_eq a b = cstr_eq_at a b 0"

function cstr_starts_at :: "u8 list \<Rightarrow> u8 list \<Rightarrow> nat \<Rightarrow> bool" where
  "cstr_starts_at s p i =
     (if cbyte p i = 0 then True
      else if cbyte s i \<noteq> cbyte p i then False
      else cstr_starts_at s p (i + 1))"
  by pat_completeness auto
termination
  by (relation "measure (\<lambda>(s, p, i). length p - i)") (auto simp: cbyte_def split: if_splits)

definition af_cstr_starts_with :: "u8 list \<Rightarrow> u8 list \<Rightarrow> bool" where
  "af_cstr_starts_with s p = cstr_starts_at s p 0"

section \<open>Counted comparisons\<close>

function mem_eq_at :: "u8 list \<Rightarrow> u8 list \<Rightarrow> nat \<Rightarrow> nat \<Rightarrow> bool" where
  "mem_eq_at a b n i =
     (if n \<le> i then True
      else if a ! i \<noteq> b ! i then False
      else mem_eq_at a b n (i + 1))"
  by pat_completeness auto
termination by (relation "measure (\<lambda>(a, b, n, i). n - i)") auto

definition af_mem_eq :: "u8 list \<Rightarrow> u8 list \<Rightarrow> nat \<Rightarrow> bool" where
  "af_mem_eq a b n = mem_eq_at a b n 0"

function mem_diff_at :: "u8 list \<Rightarrow> u8 list \<Rightarrow> nat \<Rightarrow> nat \<Rightarrow> u8 \<Rightarrow> u8" where
  "mem_diff_at a b n i acc =
     (if n \<le> i then acc
      else mem_diff_at a b n (i + 1) (acc OR (a ! i XOR b ! i)))"
  by pat_completeness auto
termination by (relation "measure (\<lambda>(a, b, n, i, acc). n - i)") auto

definition af_mem_eq_ct :: "u8 list \<Rightarrow> u8 list \<Rightarrow> nat \<Rightarrow> bool" where
  "af_mem_eq_ct a b n \<longleftrightarrow> mem_diff_at a b n 0 0 = 0"

definition af_ascii_lower :: "u8 \<Rightarrow> u8" where
  "af_ascii_lower c = (if c < 65 then c else if c > 90 then c else c + 32)"

function mem_eq_ci_at :: "u8 list \<Rightarrow> u8 list \<Rightarrow> nat \<Rightarrow> nat \<Rightarrow> bool" where
  "mem_eq_ci_at a b n i =
     (if n \<le> i then True
      else
        let x = (if a ! i < 65 then a ! i else if a ! i > 90 then a ! i else a ! i + 32);
            y = (if b ! i < 65 then b ! i else if b ! i > 90 then b ! i else b ! i + 32)
        in if x \<noteq> y then False else mem_eq_ci_at a b n (i + 1))"
  by pat_completeness auto
termination by (relation "measure (\<lambda>(a, b, n, i). n - i)") auto

definition af_mem_eq_ci :: "u8 list \<Rightarrow> u8 list \<Rightarrow> nat \<Rightarrow> bool" where
  "af_mem_eq_ci a b n = mem_eq_ci_at a b n 0"

section \<open>Copying and zeroing\<close>

text \<open>A store of consecutive bytes at an offset of the memory.\<close>

definition store :: "u8 list \<Rightarrow> nat \<Rightarrow> u8 list \<Rightarrow> u8 list" where
  "store m off bs = take off m @ bs @ drop (off + length bs) m"

fun copy_bytes :: "u8 list \<Rightarrow> nat \<Rightarrow> nat \<Rightarrow> nat \<Rightarrow> u8 list" where
  "copy_bytes m dst src 0 = m"
| "copy_bytes m dst src (Suc n) = copy_bytes (store m dst [m ! src]) (dst + 1) (src + 1) n"

function copy_qwords :: "u8 list \<Rightarrow> nat \<Rightarrow> nat \<Rightarrow> nat \<Rightarrow> u8 list" where
  "copy_qwords m dst src n =
     (if n < 8 then copy_bytes m dst src n
      else copy_qwords (store m dst (take 8 (drop src m))) (dst + 8) (src + 8) (n - 8))"
  by pat_completeness auto
termination by (relation "measure (\<lambda>(m, dst, src, n). n)") auto

definition af_mem_copy :: "u8 list \<Rightarrow> nat \<Rightarrow> nat \<Rightarrow> nat \<Rightarrow> u8 list" where
  "af_mem_copy m dst src n = (if n = 0 then m else copy_qwords m dst src n)"

fun af_mem_zero :: "u8 list \<Rightarrow> nat \<Rightarrow> nat \<Rightarrow> u8 list" where
  "af_mem_zero m dst 0 = m"
| "af_mem_zero m dst (Suc n) = af_mem_zero (store m dst [0]) (dst + 1) n"

section \<open>Decimal numbers\<close>

text \<open>The digits of a number, least significant first, as the division loop writes them.\<close>

function dec_digits :: "u64 \<Rightarrow> u8 list" where
  "dec_digits v =
     (ucast (v mod 10) + 48) # (if v div 10 = 0 then [] else dec_digits (v div 10))"
  by pat_completeness auto
termination
proof (relation "measure unat")
  fix v :: u64
  assume "v div 10 \<noteq> 0"
  then have "unat v \<noteq> 0" by (auto simp: unat_eq_zero)
  then show "(v div 10, v) \<in> measure unat" by (simp add: unat_div)
qed simp

definition af_u64_to_dec :: "u64 \<Rightarrow> u64 \<Rightarrow> af_status + u8 list" where
  "af_u64_to_dec v buf_len =
     (if buf_len < 20 then Inl AF_E_LIMIT
      else let ds = dec_digits v
           in Inr (map (\<lambda>i. ds ! (length ds - i - 1)) [0..<length ds]))"

fun dec_value_from :: "u64 \<Rightarrow> u8 list \<Rightarrow> af_status + u64" where
  "dec_value_from acc [] = Inr acc"
| "dec_value_from acc (c # s) =
     (if c - 48 > 9 then Inl AF_E_INVALID
      else if mul_high acc 10 \<noteq> 0 then Inl AF_E_OVERFLOW
      else if add_carry (acc * 10) (ucast (c - 48)) then Inl AF_E_OVERFLOW
      else dec_value_from (acc * 10 + ucast (c - 48)) s)"

definition af_dec_to_u64 :: "u8 list \<Rightarrow> af_status + u64" where
  "af_dec_to_u64 s = (if s = [] then Inl AF_E_INVALID else dec_value_from 0 s)"

declare cstr_len_at.simps [simp del] cstr_eq_at.simps [simp del] cstr_starts_at.simps [simp del]
  mem_eq_at.simps [simp del] mem_diff_at.simps [simp del] mem_eq_ci_at.simps [simp del]
  copy_qwords.simps [simp del] dec_digits.simps [simp del]

section \<open>What the comparisons decide\<close>

lemma take_eq_iff_nth:
  "n \<le> length a \<Longrightarrow> n \<le> length b \<Longrightarrow> take n a = take n b \<longleftrightarrow> (\<forall>j<n. a ! j = b ! j)"
  by (auto simp: list_eq_iff_nth_eq min_def)

lemma all_from_step: "(i::nat) < n \<Longrightarrow> (\<forall>j. i \<le> j \<longrightarrow> j < n \<longrightarrow> P j) \<longleftrightarrow> P i \<and> (\<forall>j. i + 1 \<le> j \<longrightarrow> j < n \<longrightarrow> P j)"
proof -
  assume "i < n"
  have "i \<le> j \<longleftrightarrow> j = i \<or> i + 1 \<le> j" for j by linarith
  with \<open>i < n\<close> show ?thesis by auto
qed

lemma mem_eq_at_iff: "mem_eq_at a b n i \<longleftrightarrow> (\<forall>j. i \<le> j \<longrightarrow> j < n \<longrightarrow> a ! j = b ! j)"
proof (induction a b n i rule: mem_eq_at.induct)
  case (1 a b n i)
  show ?case
  proof (cases "n \<le> i")
    case False
    with 1 show ?thesis by (subst mem_eq_at.simps) (simp add: all_from_step [of i n])
  qed (simp add: mem_eq_at.simps)
qed

lemma or_xor_zero: "(acc OR (x XOR y)) = (0 :: u8) \<longleftrightarrow> acc = 0 \<and> x = y"
proof -
  have "x = y" if "x XOR y = 0"
  proof -
    have "x = (x XOR y) XOR y" by (simp add: xor.assoc)
    with that show ?thesis by simp
  qed
  then have "x XOR y = 0 \<longleftrightarrow> x = y" by auto
  then show ?thesis by (simp add: or_eq_0_iff)
qed

lemma mem_diff_at_zero: "mem_diff_at a b n i acc = 0 \<longleftrightarrow> acc = 0 \<and> (\<forall>j. i \<le> j \<longrightarrow> j < n \<longrightarrow> a ! j = b ! j)"
proof (induction a b n i acc rule: mem_diff_at.induct)
  case (1 a b n i acc)
  show ?case
  proof (cases "n \<le> i")
    case False
    with 1 show ?thesis
      by (subst mem_diff_at.simps) (simp add: or_xor_zero all_from_step [of i n] conj_assoc)
  qed (simp add: mem_diff_at.simps)
qed

lemma mem_eq_ci_at_iff:
  "mem_eq_ci_at a b n i \<longleftrightarrow> (\<forall>j. i \<le> j \<longrightarrow> j < n \<longrightarrow> af_ascii_lower (a ! j) = af_ascii_lower (b ! j))"
proof (induction a b n i rule: mem_eq_ci_at.induct)
  case (1 a b n i)
  show ?case
  proof (cases "n \<le> i")
    case False
    with 1 show ?thesis
      by (subst mem_eq_ci_at.simps) (simp add: Let_def af_ascii_lower_def all_from_step [of i n])
  qed (simp add: mem_eq_ci_at.simps)
qed

lemma af_mem_eq_iff: "n \<le> length a \<Longrightarrow> n \<le> length b \<Longrightarrow> af_mem_eq a b n \<longleftrightarrow> take n a = take n b"
  by (simp add: af_mem_eq_def mem_eq_at_iff take_eq_iff_nth)

lemma af_mem_eq_ct_iff: "n \<le> length a \<Longrightarrow> n \<le> length b \<Longrightarrow> af_mem_eq_ct a b n \<longleftrightarrow> take n a = take n b"
  by (simp add: af_mem_eq_ct_def mem_diff_at_zero take_eq_iff_nth)

lemma af_mem_eq_ci_iff:
  "n \<le> length a \<Longrightarrow> n \<le> length b \<Longrightarrow>
   af_mem_eq_ci a b n \<longleftrightarrow> map af_ascii_lower (take n a) = map af_ascii_lower (take n b)"
  by (simp add: af_mem_eq_ci_def mem_eq_ci_at_iff list_eq_iff_nth_eq)

text \<open>The loops over terminated strings, on strings with no zero byte inside.\<close>

lemma cstr_len_at_length: "0 \<notin> set s \<Longrightarrow> i \<le> length s \<Longrightarrow> cstr_len_at s i = length s"
proof (induction s i rule: cstr_len_at.induct)
  case (1 s i)
  show ?case
  proof (cases "i < length s")
    case True
    with 1 have "cbyte s i \<noteq> 0" by (metis cbyte_def nth_mem)
    with 1 True show ?thesis by (subst cstr_len_at.simps) simp
  next
    case False
    with 1 show ?thesis by (simp add: cstr_len_at.simps cbyte_def)
  qed
qed

lemma af_cstr_len_length: "0 \<notin> set s \<Longrightarrow> af_cstr_len (Some s) = length s"
  by (simp add: af_cstr_len_def cstr_len_at_length)

section \<open>What the memory procedures write\<close>

lemma length_store [simp]: "off + length bs \<le> length m \<Longrightarrow> length (store m off bs) = length m"
  by (simp add: store_def)

lemma nth_store:
  "off + length bs \<le> length m \<Longrightarrow> i < length m \<Longrightarrow>
   store m off bs ! i = (if off \<le> i \<and> i < off + length bs then bs ! (i - off) else m ! i)"
  by (auto simp: store_def nth_append min_def)

lemma store_Nil [simp]: "store m off [] = m"
  by (simp add: store_def)

lemma store_append:
  "off + length as + length bs \<le> length m \<Longrightarrow>
   store (store m off as) (off + length as) bs = store m off (as @ bs)"
  by (auto simp: list_eq_iff_nth_eq nth_store nth_append)

lemma take_take_drop: "k \<le> n \<Longrightarrow> take k (drop s m) @ take (n - k) (drop (s + k) m) = take n (drop s m)"
  by (metis add.commute drop_drop le_add_diff_inverse take_add)

lemma drop_store_behind:
  "dst + length bs \<le> length m \<Longrightarrow> dst + length bs \<le> s \<or> s + n \<le> dst \<Longrightarrow>
   take n (drop s (store m dst bs)) = take n (drop s m)"
  by (auto simp: list_eq_iff_nth_eq nth_store)

text \<open>One forward step of \<open>k\<close> bytes, when the destination does not run into what is still to be read.\<close>

lemma copy_step:
  assumes "dst \<le> src \<or> src + n \<le> dst" "src + n \<le> length m" "dst + n \<le> length m" "k \<le> n"
  shows "store (store m dst (take k (drop src m))) (dst + k)
           (take (n - k) (drop (src + k) (store m dst (take k (drop src m))))) =
         store m dst (take n (drop src m))"
proof -
  let ?a = "take k (drop src m)" and ?b = "take (n - k) (drop (src + k) m)"
  have l: "length ?a = k" "length ?b = n - k" using assms by auto
  have "take (n - k) (drop (src + k) (store m dst ?a)) = ?b"
    using assms l by (intro drop_store_behind) auto
  moreover have "store (store m dst ?a) (dst + k) ?b = store m dst (?a @ ?b)"
    using store_append [of dst ?a ?b m] assms l by simp
  ultimately show ?thesis using assms by (simp add: take_take_drop)
qed

lemma copy_bytes_store:
  "dst \<le> src \<or> src + n \<le> dst \<Longrightarrow> src + n \<le> length m \<Longrightarrow> dst + n \<le> length m \<Longrightarrow>
   copy_bytes m dst src n = store m dst (take n (drop src m))"
proof (induction m dst src n rule: copy_bytes.induct)
  case (2 m dst src n)
  from 2 have "[m ! src] = take 1 (drop src m)" by (simp add: take_Suc_conv_app_nth hd_drop_conv_nth take_Suc)
  then show ?case using 2 copy_step [of dst src "Suc n" m 1] by auto
qed simp

lemma copy_qwords_store:
  "dst \<le> src \<or> src + n \<le> dst \<Longrightarrow> src + n \<le> length m \<Longrightarrow> dst + n \<le> length m \<Longrightarrow>
   copy_qwords m dst src n = store m dst (take n (drop src m))"
proof (induction m dst src n rule: copy_qwords.induct)
  case (1 m dst src n)
  show ?case
  proof (cases "n < 8")
    case True
    with 1 show ?thesis by (simp add: copy_qwords.simps copy_bytes_store)
  next
    case False
    with 1 copy_step [of dst src n m 8] show ?thesis by (subst copy_qwords.simps) auto
  qed
qed

lemma af_mem_copy_store:
  "dst \<le> src \<or> src + n \<le> dst \<Longrightarrow> src + n \<le> length m \<Longrightarrow> dst + n \<le> length m \<Longrightarrow>
   af_mem_copy m dst src n = store m dst (take n (drop src m))"
  by (simp add: af_mem_copy_def copy_qwords_store)

lemma af_mem_zero_store:
  "dst + n \<le> length m \<Longrightarrow> af_mem_zero m dst n = store m dst (replicate n 0)"
  by (induction m dst n rule: af_mem_zero.induct) (simp_all add: store_append [of _ "[x]" for x, simplified])

section \<open>What the decimal routines compute\<close>

definition digit_value :: "u8 \<Rightarrow> int" where
  "digit_value c = uint c - 48"

definition is_digit :: "u8 \<Rightarrow> bool" where
  "is_digit c \<longleftrightarrow> 48 \<le> uint c \<and> uint c \<le> 57"

definition dec_number :: "int \<Rightarrow> u8 list \<Rightarrow> int" where
  "dec_number v s = foldl (\<lambda>v c. v * 10 + digit_value c) v s"

lemma dec_number_simps [simp]:
  "dec_number v [] = v" "dec_number v (c # s) = dec_number (v * 10 + digit_value c) s"
  by (simp_all add: dec_number_def)

lemma digit_test: "c - 48 > 9 \<longleftrightarrow> \<not> is_digit c"
  "is_digit c \<Longrightarrow> uint (ucast (c - 48) :: u64) = digit_value c"
proof -
  have r: "0 \<le> uint c" "uint c < 256" using uint_lt2p [of c] by auto
  have d: "uint (c - 48) = (uint c - 48) mod 256" by (simp add: uint_word_ariths)
  have u: "uint (ucast (c - 48) :: u64) = uint (c - 48)" by (simp add: uint_up_ucast is_up)
  show "c - 48 > 9 \<longleftrightarrow> \<not> is_digit c"
  proof (cases "48 \<le> uint c")
    case True
    with r have "uint (c - 48) = uint c - 48" unfolding d by (simp add: mod_pos_pos_trivial)
    with True show ?thesis by (simp add: word_less_def is_digit_def) linarith
  next
    case False
    with r have "uint (c - 48) = uint c - 48 + 256"
      unfolding d by (subst mod_add_self2 [symmetric]) (simp add: mod_pos_pos_trivial)
    with r have "9 < uint (c - 48)" by linarith
    with False show ?thesis by (simp add: word_less_def is_digit_def)
  qed
  assume "is_digit c"
  with u d show "uint (ucast (c - 48) :: u64) = digit_value c"
    by (simp add: is_digit_def digit_value_def)
qed

lemma digit_value_nonneg: "is_digit c \<Longrightarrow> 0 \<le> digit_value c"
  by (simp add: is_digit_def digit_value_def)

lemma dec_number_ge: "list_all is_digit s \<Longrightarrow> 0 \<le> v \<Longrightarrow> v \<le> dec_number v s"
proof (induction s arbitrary: v)
  case (Cons c s)
  then have "v \<le> v * 10 + digit_value c" using digit_value_nonneg [of c] by auto
  moreover have "v * 10 + digit_value c \<le> dec_number (v * 10 + digit_value c) s"
    using Cons digit_value_nonneg [of c] by auto
  ultimately show ?case by simp
qed simp

lemma dec_value_from_exact:
  "list_all is_digit s \<Longrightarrow>
   map_sum id uint (dec_value_from acc s) =
     (if dec_number (uint acc) s < 2 ^ 64 then Inr (dec_number (uint acc) s) else Inl AF_E_OVERFLOW)"
proof (induction s arbitrary: acc)
  case (Cons c s)
  let ?v = "uint acc * 10 + digit_value c"
  from Cons.prems have c: "is_digit c" and s: "list_all is_digit s" by auto
  have "0 \<le> digit_value c" using c by (rule digit_value_nonneg)
  then have ge: "?v \<le> dec_number ?v s" using s by (intro dec_number_ge) auto
  have ten: "uint (10 :: u64) = 10" by simp
  show ?case
  proof (cases "?v < 2 ^ 64")
    case False
    with ge have "\<not> dec_number ?v s < 2 ^ 64" by linarith
    moreover have "mul_high acc 10 = 0 \<Longrightarrow> add_carry (acc * 10) (ucast (c - 48))"
      using False digit_test(2) [OF c] uint_mul_small [of acc 10] by (simp add: add_carry_def)
    ultimately show ?thesis using c by (auto simp: digit_test(1))
  next
    case True
    with \<open>0 \<le> digit_value c\<close> have m: "mul_high acc 10 = 0"
      by (simp add: mul_high_zero)
    have n: "\<not> add_carry (acc * 10) (ucast (c - 48))"
      using True digit_test(2) [OF c] uint_mul_small [OF m] by (simp add: add_carry_def)
    have "uint (acc * 10 + ucast (c - 48)) = ?v"
      using uint_add_no_carry [OF n] uint_mul_small [OF m] digit_test(2) [OF c] by simp
    with Cons.IH [OF s, of "acc * 10 + ucast (c - 48)"] c m n show ?thesis
      by (simp add: digit_test(1))
  qed
qed simp

lemma dec_value_from_digits: "dec_value_from acc s = Inr v \<Longrightarrow> list_all is_digit s"
  by (induction acc s rule: dec_value_from.induct) (auto simp: digit_test(1) split: if_splits)

lemma dec_to_u64_result:
  assumes "list_all is_digit s" "s \<noteq> []"
  shows "map_sum id uint (af_dec_to_u64 s) =
    (if dec_number 0 s < 2 ^ 64 then Inr (dec_number 0 s) else Inl AF_E_OVERFLOW)"
  using dec_value_from_exact [OF assms(1), of 0] assms(2) by (simp add: af_dec_to_u64_def)

lemma dec_to_u64_iff: "af_dec_to_u64 s = Inr v \<longleftrightarrow> s \<noteq> [] \<and> list_all is_digit s \<and> dec_number 0 s = uint v"
proof
  assume i: "af_dec_to_u64 s = Inr v"
  then have "s \<noteq> []" "list_all is_digit s"
    using dec_value_from_digits by (auto simp: af_dec_to_u64_def split: if_splits)
  then show "s \<noteq> [] \<and> list_all is_digit s \<and> dec_number 0 s = uint v"
    using dec_to_u64_result [of s] i by (auto split: if_splits)
next
  assume "s \<noteq> [] \<and> list_all is_digit s \<and> dec_number 0 s = uint v"
  then show "af_dec_to_u64 s = Inr v"
    using dec_to_u64_result [of s] by (cases "af_dec_to_u64 s") (auto simp: word_uint_eq_iff split: if_splits)
qed

text \<open>
  The decimal parser accepts a span exactly when it is a non-empty run of ASCII digits
  whose value fits in 64 bits, and then yields that value; on a run of digits whose value does
  not fit it reports overflow, never a wrapped number.
\<close>

lemma af_dec_to_u64_exact:
  "(af_dec_to_u64 s = Inr v \<longleftrightarrow> s \<noteq> [] \<and> list_all is_digit s \<and> dec_number 0 s = uint v) \<and>
   (list_all is_digit s \<and> 2 ^ 64 \<le> dec_number 0 s \<longrightarrow> af_dec_to_u64 s = Inl AF_E_OVERFLOW)"
proof -
  have "af_dec_to_u64 s = Inl AF_E_OVERFLOW" if "list_all is_digit s" "2 ^ 64 \<le> dec_number 0 s"
  proof -
    have "s \<noteq> []" using that(2) by auto
    with dec_to_u64_result [of s] that show ?thesis by (cases "af_dec_to_u64 s") (auto split: if_splits)
  qed
  with dec_to_u64_iff show ?thesis by blast
qed

lemma dec_digit:
  "is_digit (ucast ((v :: u64) mod 10) + 48)" "digit_value (ucast (v mod 10) + 48) = uint v mod 10"
proof -
  have m: "uint (v mod 10) = uint v mod 10" by (simp add: uint_mod)
  have "uint (ucast (v mod 10) :: u8) = uint v mod 10"
    by (simp add: unsigned_ucast_eq take_bit_int_eq_self m)
  then have "uint (ucast (v mod 10) + 48 :: u8) = uint v mod 10 + 48"
    by (simp add: uint_word_ariths mod_pos_pos_trivial)
  then show "is_digit (ucast (v mod 10) + 48)" "digit_value (ucast (v mod 10) + 48) = uint v mod 10"
    by (simp_all add: is_digit_def digit_value_def)
qed

lemma dec_number_snoc: "dec_number v (s @ [c]) = dec_number v s * 10 + digit_value c"
  by (simp add: dec_number_def)

lemma quotient_zero: "(v :: u64) div 10 = 0 \<Longrightarrow> uint v div 10 = 0"
proof -
  assume "v div 10 = 0"
  moreover have "uint (v div 10) = uint v div 10" by (simp add: uint_div)
  ultimately show ?thesis by simp
qed

lemma dec_digits_value: "dec_number 0 (rev (dec_digits v)) = uint v"
proof (induction v rule: dec_digits.induct)
  case (1 v)
  show ?case
  proof (cases "v div 10 = 0")
    case True
    then have "uint v div 10 = 0" by (rule quotient_zero)
    with True show ?thesis by (subst dec_digits.simps) (simp add: dec_number_snoc dec_digit)
  next
    case False
    with 1 show ?thesis by (subst dec_digits.simps) (simp add: dec_number_snoc dec_digit uint_div)
  qed
qed

lemma dec_digits_digits: "list_all is_digit (dec_digits v)"
proof (induction v rule: dec_digits.induct)
  case (1 v)
  then show ?case by (subst dec_digits.simps) (simp add: dec_digit)
qed

lemma dec_digits_length: "uint v < 10 ^ Suc k \<Longrightarrow> length (dec_digits v) \<le> Suc k"
proof (induction k arbitrary: v)
  case 0
  then have "v div 10 = 0" by (simp add: word_uint_eq_iff uint_div)
  then show ?case by (simp add: dec_digits.simps)
next
  case (Suc k)
  then have "uint (v div 10) < 10 ^ Suc k" by (simp add: uint_div)
  with Suc.IH show ?case by (subst dec_digits.simps) simp
qed

lemma last_dec_digits: "last (dec_digits v) = 48 \<Longrightarrow> v = 0"
proof (induction v rule: dec_digits.induct)
  case (1 v)
  show ?case
  proof (cases "v div 10 = 0")
    case True
    with 1 have "digit_value (ucast (v mod 10) + 48) = 0"
      by (simp add: dec_digits.simps digit_value_def)
    then have "uint v mod 10 = 0" by (simp add: dec_digit)
    moreover have "uint v div 10 = 0" using True by (rule quotient_zero)
    ultimately show ?thesis by (simp add: word_uint_eq_iff)
  next
    case False
    have "dec_digits (v div 10) \<noteq> []" by (subst dec_digits.simps) simp
    with 1 False have "v div 10 = 0" by (simp add: dec_digits.simps [of v])
    with False show ?thesis by simp
  qed
qed

lemma af_u64_to_dec_rev:
  "af_u64_to_dec v n = (if n < 20 then Inl AF_E_LIMIT else Inr (rev (dec_digits v)))"
proof -
  have "map (\<lambda>i. ds ! (length ds - i - 1)) [0..<length ds] = rev ds" for ds :: "u8 list"
    by (rule nth_equalityI) (auto simp: rev_nth)
  then show ?thesis by (simp add: af_u64_to_dec_def Let_def)
qed

text \<open>
  A 64-bit number written in decimal reads back as itself: with room for 20 bytes the
  formatter always succeeds, writes between 1 and 20 digits with no leading zero (other than
  the single digit of zero), and the parser returns the number that was written.
\<close>

lemma u64_decimal_roundtrip:
  assumes "20 \<le> n"
  shows "\<exists>s. af_u64_to_dec v n = Inr s \<and> 1 \<le> length s \<and> length s \<le> 20 \<and>
    (hd s \<noteq> 48 \<or> s = [48]) \<and> af_dec_to_u64 s = Inr v"
proof (intro exI conjI)
  let ?s = "rev (dec_digits v)"
  have ne: "dec_digits v \<noteq> []" by (subst dec_digits.simps) simp
  show "af_u64_to_dec v n = Inr ?s" using assms by (simp add: af_u64_to_dec_rev)
  show "1 \<le> length ?s" using ne by (simp add: Suc_leI)
  show "length ?s \<le> 20" using dec_digits_length [of v 19] uint_u64_bounds(2) [of v] by simp
  show "hd ?s \<noteq> 48 \<or> ?s = [48]"
    using last_dec_digits [of v] by (auto simp: hd_rev dec_digits.simps [of 0])
  show "af_dec_to_u64 ?s = Inr v"
    using dec_to_u64_iff [of ?s v] ne dec_digits_digits [of v] dec_digits_value [of v] by simp
qed

lemma af_dec_to_u64_exact_witness:
  "af_dec_to_u64 [49, 56, 52, 52, 54, 55, 52, 52, 48, 55, 51, 55, 48, 57, 53, 53, 49, 54, 49, 54] = Inl AF_E_OVERFLOW"
  by (rule af_dec_to_u64_exact [THEN conjunct2, THEN mp]) code_simp

lemma u64_decimal_roundtrip_witness:
  "\<exists>s. af_u64_to_dec 18446744073709551615 32 = Inr s \<and> 1 \<le> length s \<and> length s \<le> 20 \<and>
    (hd s \<noteq> 48 \<or> s = [48]) \<and> af_dec_to_u64 s = Inr 18446744073709551615"
  by (rule u64_decimal_roundtrip) simp

text \<open>
  The three byte comparisons decide what they are for: the early-exit comparison and the
  constant-time one, which folds all differences into an accumulator, both say exactly whether
  the two spans are equal, and the case-insensitive one whether they are equal after folding
  the ASCII capitals.
\<close>

lemma mem_compare_iff:
  assumes "n \<le> length a" "n \<le> length b"
  shows "(af_mem_eq_ct a b n \<longleftrightarrow> take n a = take n b) \<and>
    (af_mem_eq a b n \<longleftrightarrow> af_mem_eq_ct a b n) \<and>
    (af_mem_eq_ci a b n \<longleftrightarrow> map af_ascii_lower (take n a) = map af_ascii_lower (take n b))"
  by (simp add: af_mem_eq_iff [OF assms] af_mem_eq_ct_iff [OF assms] af_mem_eq_ci_iff [OF assms])

lemma mem_compare_iff_witness:
  "(af_mem_eq_ct [66, 101] [98, 101, 97] 2 \<longleftrightarrow> take 2 [66, 101] = take 2 [98, 101, 97 :: u8]) \<and>
   (af_mem_eq [66, 101] [98, 101, 97] 2 \<longleftrightarrow> af_mem_eq_ct [66, 101] [98, 101, 97] 2) \<and>
   (af_mem_eq_ci [66, 101] [98, 101, 97] 2 \<longleftrightarrow>
     map af_ascii_lower (take 2 [66, 101]) = map af_ascii_lower (take 2 [98, 101, 97]))"
  by (rule mem_compare_iff) simp_all

text \<open>
  The forward copy, eight bytes at a time and then byte by byte, moves the source bytes as
  they were before the call whenever the destination does not start inside the source: for
  disjoint regions, and also for a destination below an overlapping source, which is how the
  buffer drops bytes at its front. Nothing outside the destination changes.
\<close>

lemma af_mem_copy_moves:
  assumes "dst \<le> src \<or> src + n \<le> dst" "src + n \<le> length m" "dst + n \<le> length m"
  shows "af_mem_copy m dst src n = take dst m @ take n (drop src m) @ drop (dst + n) m"
  using assms by (simp add: af_mem_copy_store store_def)

lemma af_mem_copy_moves_witness:
  "af_mem_copy [1, 2, 3, 4, 5, 6, 7, 8, 9, 10, 11, 12] 0 2 10 =
   take 0 [1, 2, 3, 4, 5, 6, 7, 8, 9, 10, 11, 12] @ take 10 (drop 2 [1, 2, 3, 4, 5, 6, 7, 8, 9, 10, 11, 12]) @
   drop (0 + 10) [1, 2, 3, 4, 5, 6, 7, 8, 9, 10, 11, 12]"
  by (rule af_mem_copy_moves) simp_all

end
