(* ===== verification/Buffer.thy ===== *)
theory Buffer
  imports Cstr
begin

text \<open>
  The bounded growable buffer of \<open>src/memory/buffer.asm\<close>. The record has the four fields of the
  struct; \<open>buf_data\<close> is the block it owns, \<open>None\<close> for the null pointer, as the list of its
  bytes. The struct pointer itself is never null here (the guard that returns
  \<open>AF_E_INVALID\<close> for a null struct is left out). An operation returns its status, \<open>None\<close> for
  \<open>AF_OK\<close>, and the buffer after it. \<open>af_realloc\<close> is a parameter: given the old block and the new
  size it yields a block, or \<open>None\<close> when it refuses.
\<close>

type_synonym allocator = "u8 list option \<Rightarrow> u64 \<Rightarrow> u8 list option"

abbreviation AF_OK :: "af_status option" where "AF_OK \<equiv> None"

record af_buffer =
  buf_data :: "u8 list option"
  buf_len :: u64
  buf_cap :: u64
  buf_max :: u64

section \<open>The operations\<close>

definition af_buf_init :: "u64 \<Rightarrow> af_status + af_buffer" where
  "af_buf_init maximum =
     (if maximum = 0 then Inl AF_E_INVALID
      else Inr \<lparr>buf_data = None, buf_len = 0, buf_cap = 0, buf_max = maximum\<rparr>)"

text \<open>Releasing yields the block that is handed to \<open>af_free\<close>, with the bytes it has then.\<close>

definition af_buf_free :: "af_buffer \<Rightarrow> u8 list option \<times> af_buffer" where
  "af_buf_free b = (buf_data b, b\<lparr>buf_data := None, buf_len := 0, buf_cap := 0\<rparr>)"

definition wipe_from :: "u64 \<Rightarrow> af_buffer \<Rightarrow> af_buffer" where
  "wipe_from off b =
     (case buf_data b of
        None \<Rightarrow> b
      | Some d \<Rightarrow> b\<lparr>buf_data := Some (af_mem_zero d (unat off) (unat (buf_cap b - off)))\<rparr>)"

definition af_buf_free_secure :: "af_buffer \<Rightarrow> u8 list option \<times> af_buffer" where
  "af_buf_free_secure b = af_buf_free (wipe_from 0 b)"

definition af_buf_clear :: "af_buffer \<Rightarrow> af_buffer" where
  "af_buf_clear b = b\<lparr>buf_len := 0\<rparr>"

definition af_buf_clear_secure :: "af_buffer \<Rightarrow> af_buffer" where
  "af_buf_clear_secure b = (wipe_from 0 b)\<lparr>buf_len := 0\<rparr>"

definition af_buf_reserve :: "allocator \<Rightarrow> af_buffer \<Rightarrow> u64 \<Rightarrow> af_status option \<times> af_buffer" where
  "af_buf_reserve af_realloc b additional =
     (if additional = 0 then (AF_OK, b)
      else case af_add_size (buf_len b) additional of
        Inl e \<Rightarrow> (Some e, b)
      | Inr needed \<Rightarrow>
          if needed \<le> buf_cap b then (AF_OK, b)
          else if buf_max b < needed then (Some AF_E_LIMIT, b)
          else case af_grow_size (buf_cap b) needed (buf_max b) of
            Inl e \<Rightarrow> (Some e, b)
          | Inr new_cap \<Rightarrow>
              (case af_realloc (buf_data b) new_cap of
                 None \<Rightarrow> (Some AF_E_NOMEM, b)
               | Some d \<Rightarrow> (AF_OK, b\<lparr>buf_data := Some d, buf_cap := new_cap\<rparr>)))"

text \<open>
  The caller's bytes are another region: the copy works on the block followed by it. A null
  block is never written, because \<open>af_buf_reserve\<close> has succeeded for at least one byte.
\<close>

definition put_bytes :: "af_buffer \<Rightarrow> u8 list \<Rightarrow> u64 \<Rightarrow> af_buffer" where
  "put_bytes b p n =
     (case buf_data b of
        None \<Rightarrow> b
      | Some d \<Rightarrow> b\<lparr>buf_data := Some (take (length d)
            (af_mem_copy (d @ p) (unat (buf_len b)) (length d) (unat n))),
          buf_len := buf_len b + n\<rparr>)"

definition af_buf_append ::
  "allocator \<Rightarrow> af_buffer \<Rightarrow> u8 list option \<Rightarrow> u64 \<Rightarrow> af_status option \<times> af_buffer" where
  "af_buf_append af_realloc b p n =
     (if n = 0 then (AF_OK, b)
      else case p of
        None \<Rightarrow> (Some AF_E_INVALID, b)
      | Some bytes \<Rightarrow>
          (case af_buf_reserve af_realloc b n of
             (Some e, b') \<Rightarrow> (Some e, b')
           | (None, b') \<Rightarrow> (AF_OK, put_bytes b' bytes n)))"

definition af_buf_append_byte ::
  "allocator \<Rightarrow> af_buffer \<Rightarrow> u8 \<Rightarrow> af_status option \<times> af_buffer" where
  "af_buf_append_byte af_realloc b c =
     (case af_buf_reserve af_realloc b 1 of
        (Some e, b') \<Rightarrow> (Some e, b')
      | (None, b') \<Rightarrow>
          (AF_OK, b'\<lparr>buf_data := map_option (\<lambda>d. d[unat (buf_len b') := c]) (buf_data b'),
                    buf_len := buf_len b' + 1\<rparr>))"

definition af_buf_append_cstr ::
  "allocator \<Rightarrow> af_buffer \<Rightarrow> u8 list option \<Rightarrow> af_status option \<times> af_buffer" where
  "af_buf_append_cstr af_realloc b s =
     (case s of
        None \<Rightarrow> (AF_OK, b)
      | Some _ \<Rightarrow> af_buf_append af_realloc b s (of_nat (af_cstr_len s)))"

definition af_buf_append_u64 ::
  "allocator \<Rightarrow> af_buffer \<Rightarrow> u64 \<Rightarrow> af_status option \<times> af_buffer" where
  "af_buf_append_u64 af_realloc b v =
     (case af_u64_to_dec v 32 of
        Inl e \<Rightarrow> (Some e, b)
      | Inr s \<Rightarrow> af_buf_append af_realloc b (Some s) (of_nat (length s)))"

definition af_buf_consume :: "af_buffer \<Rightarrow> u64 \<Rightarrow> af_status option \<times> af_buffer" where
  "af_buf_consume b n =
     (if buf_len b < n then (Some AF_E_RANGE, b)
      else if n = buf_len b then (AF_OK, b\<lparr>buf_len := 0\<rparr>)
      else (AF_OK, b\<lparr>buf_data := map_option
                        (\<lambda>d. af_mem_copy d 0 (unat n) (unat (buf_len b - n))) (buf_data b),
                     buf_len := buf_len b - n\<rparr>))"

definition af_buf_consume_secure :: "af_buffer \<Rightarrow> u64 \<Rightarrow> af_status option \<times> af_buffer" where
  "af_buf_consume_secure b n =
     (case af_buf_consume b n of
        (Some e, b') \<Rightarrow> (Some e, b')
      | (None, b') \<Rightarrow> (AF_OK, wipe_from (buf_len b') b'))"

definition af_buf_take :: "af_buffer \<Rightarrow> (u8 list option \<times> u64) \<times> af_buffer" where
  "af_buf_take b =
     ((buf_data b, buf_len b), b\<lparr>buf_data := None, buf_len := 0, buf_cap := 0\<rparr>)"

section \<open>What a buffer holds\<close>

definition contents :: "af_buffer \<Rightarrow> u8 list" where
  "contents b = (case buf_data b of None \<Rightarrow> [] | Some d \<Rightarrow> take (unat (buf_len b)) d)"

definition buf_wf :: "af_buffer \<Rightarrow> bool" where
  "buf_wf b \<longleftrightarrow> buf_len b \<le> buf_cap b \<and> buf_cap b \<le> buf_max b \<and>
     (case buf_data b of None \<Rightarrow> buf_cap b = 0 | Some d \<Rightarrow> length d = unat (buf_cap b))"

text \<open>
  What \<open>realloc\<close> documents: the new block has the size asked for and starts with the bytes of
  the old one.
\<close>

definition block :: "u8 list option \<Rightarrow> u8 list" where
  "block d = (case d of None \<Rightarrow> [] | Some d \<Rightarrow> d)"

definition realloc_law :: "allocator \<Rightarrow> bool" where
  "realloc_law ra \<longleftrightarrow>
     (\<forall>d n e. ra d n = Some e \<longrightarrow> length e = unat n \<and> take (length (block d)) e = take (unat n) (block d))"

lemma block_simps [simp]: "block None = []" "block (Some d) = d"
  by (simp_all add: block_def)

lemma contents_wf: "buf_wf b \<Longrightarrow> length (contents b) = unat (buf_len b)"
  by (auto simp: buf_wf_def contents_def word_le_nat_alt min_def split: option.splits)

lemma contents_bound: "buf_wf b \<Longrightarrow> length (contents b) \<le> unat (buf_max b)"
  by (auto simp: contents_wf buf_wf_def word_le_nat_alt intro: le_trans)

lemma unat_u64_bound: "unat (a :: u64) < 18446744073709551616"
  using uint_u64_bounds [of a] by (simp only: unat_eq_nat_uint nat_less_iff)

lemma unat_sum: "uint c = uint a + uint b \<Longrightarrow> unat (c :: u64) = unat (a :: u64) + unat (b :: u64)"
  by (simp only: unat_eq_nat_uint nat_add_distrib [OF uint_u64_bounds(1) uint_u64_bounds(1)])

lemma carry_nat: "add_carry a b \<Longrightarrow> 2 ^ 64 \<le> unat a + unat b"
proof -
  assume "add_carry a b"
  then have "nat (2 ^ 64) \<le> nat (uint a + uint b)" unfolding add_carry_def by (rule nat_mono)
  then show ?thesis
    by (simp only: unat_eq_nat_uint nat_add_distrib [OF uint_u64_bounds(1) uint_u64_bounds(1)]) simp
qed

lemma af_add_size_nat:
  "af_add_size a b = Inr c \<Longrightarrow> unat c = unat a + unat b"
  "af_add_size a b = Inl e \<Longrightarrow> e = AF_E_OVERFLOW \<and> 2 ^ 64 \<le> unat a + unat b"
  using uint_add_no_carry [of a b] unat_sum [of c a b] carry_nat [of a b]
  by (auto simp only: af_add_size_def sum.inject sum.distinct split: if_splits)

lemma af_grow_size_nat:
  "af_grow_size c n m = Inr g \<Longrightarrow> n \<le> g \<and> g \<le> m"
  "af_grow_size c n m = Inl e \<Longrightarrow> n \<le> m \<Longrightarrow> e = AF_E_OVERFLOW \<and> 2 ^ 64 \<le> unat c + unat c"
  using carry_nat [of c c] by (auto simp: af_grow_size_def Let_def split: if_splits)

text \<open>Room for more bytes: the contents stay, the room is there, or nothing has changed.\<close>

lemma reserve_cases:
  assumes "af_buf_reserve ra b k = (None, b')"
  obtains
    (same) "b' = b" "k = 0 \<or> (\<exists>n. af_add_size (buf_len b) k = Inr n \<and> n \<le> buf_cap b)"
  | (grown) needed cap' d where
      "af_add_size (buf_len b) k = Inr needed" "af_grow_size (buf_cap b) needed (buf_max b) = Inr cap'"
      "ra (buf_data b) cap' = Some d" "buf_cap b < needed"
      "b' = b\<lparr>buf_data := Some d, buf_cap := cap'\<rparr>"
proof (cases "k = 0")
  case True
  with assms same show thesis by (simp add: af_buf_reserve_def)
next
  case k: False
  show thesis
  proof (cases "af_add_size (buf_len b) k")
    case (Inl e)
    with assms k show thesis by (simp add: af_buf_reserve_def)
  next
    case (Inr n)
    show thesis
    proof (cases "n \<le> buf_cap b")
      case True
      with assms k Inr same show thesis by (simp add: af_buf_reserve_def)
    next
      case False
      with assms k Inr grown [OF Inr] show thesis
        by (simp add: af_buf_reserve_def not_le split: if_splits sum.splits option.splits)
    qed
  qed
qed

lemma reserve_ok:
  assumes "buf_wf b" "realloc_law ra" "af_buf_reserve ra b k = (None, b')"
  shows "buf_wf b' \<and> contents b' = contents b \<and> buf_len b' = buf_len b \<and> buf_max b' = buf_max b \<and>
    unat (buf_len b) + unat k \<le> unat (buf_cap b')"
proof -
  consider
    (same) "b' = b" "k = 0 \<or> (\<exists>n. af_add_size (buf_len b) k = Inr n \<and> n \<le> buf_cap b)"
  | (grown) needed cap' d where
      "af_add_size (buf_len b) k = Inr needed" "af_grow_size (buf_cap b) needed (buf_max b) = Inr cap'"
      "ra (buf_data b) cap' = Some d" "buf_cap b < needed"
      "b' = b\<lparr>buf_data := Some d, buf_cap := cap'\<rparr>"
    using assms(3) by (rule reserve_cases)
  then show ?thesis
  proof cases
    case same
    then show ?thesis
      using assms(1) by (auto simp: buf_wf_def word_le_nat_alt dest!: af_add_size_nat)
  next
    case (grown needed cap' d)
    note n = grown(1) and g = grown(2) and r = grown(3) and big = grown(4) and b' = grown(5)
    have c: "needed \<le> cap'" "cap' \<le> buf_max b" using af_grow_size_nat(1) [OF g] by auto
    have len: "buf_len b \<le> buf_cap b" "length (block (buf_data b)) = unat (buf_cap b)"
      using assms(1) by (auto simp: buf_wf_def split: option.splits)
    have "unat (buf_cap b) \<le> unat cap'"
      using c big by (simp add: word_le_nat_alt word_less_nat_alt)
    moreover have "length d = unat cap'" "take (length (block (buf_data b))) d = take (unat cap') (block (buf_data b))"
      using assms(2) r unfolding realloc_law_def by blast+
    ultimately have d: "length d = unat cap'" "take (unat (buf_cap b)) d = block (buf_data b)"
      using len(2) by simp_all
    have "take (unat (buf_len b)) d = take (unat (buf_len b)) (take (unat (buf_cap b)) d)"
      using len by (simp add: word_le_nat_alt min_def)
    then have "contents b' = contents b"
      using d b' by (auto simp: contents_def split: option.splits)
    then show ?thesis
      using assms(1) b' c big len d af_add_size_nat(1) [OF n]
      by (auto simp: buf_wf_def word_le_nat_alt word_less_nat_alt)
  qed
qed

lemma reserve_fail: "af_buf_reserve ra b k = (Some e, b') \<Longrightarrow> b' = b"
  by (auto simp: af_buf_reserve_def split: if_splits sum.splits option.splits)

lemma reserve_status:
  assumes "af_buf_reserve ra b k = (Some e, b')"
  shows "e = AF_E_OVERFLOW \<and> (2 ^ 64 \<le> unat (buf_len b) + unat k \<or> 2 ^ 64 \<le> unat (buf_cap b) + unat (buf_cap b)) \<or>
    e = AF_E_LIMIT \<and> unat (buf_max b) < unat (buf_len b) + unat k \<or>
    e = AF_E_NOMEM \<and> unat (buf_len b) + unat k \<le> unat (buf_max b) \<and> (\<exists>n. ra (buf_data b) n = None)"
  using assms
  by (auto simp: af_buf_reserve_def word_le_nat_alt word_less_nat_alt
      dest!: af_add_size_nat af_grow_size_nat split: if_splits sum.splits option.splits)

text \<open>The copy into the room that has been reserved.\<close>

lemma put_bytes_ok:
  assumes "buf_wf b" "unat (buf_len b) + unat n \<le> unat (buf_cap b)" "length p = unat n" "n \<noteq> 0"
  shows "buf_wf (put_bytes b p n) \<and> contents (put_bytes b p n) = contents b @ p \<and>
    buf_max (put_bytes b p n) = buf_max b"
proof -
  have "buf_cap b \<noteq> 0" using assms(2,4) by (auto simp: unat_eq_zero)
  then obtain d where d: "buf_data b = Some d" "length d = unat (buf_cap b)"
    using assms(1) by (auto simp: buf_wf_def split: option.splits)
  let ?l = "unat (buf_len b)"
  have "unat (buf_len b) + unat n < 2 ^ 64"
    using assms(2) unat_u64_bound [of "buf_cap b"] by simp
  then have sum: "unat (buf_len b + n) = ?l + unat n" by (simp add: unat_word_ariths)
  have "af_mem_copy (d @ p) ?l (length d) (unat n) = store (d @ p) ?l p"
    using assms(2,3) d by (subst af_mem_copy_store) auto
  also have "take (length d) \<dots> = take ?l d @ p @ drop (?l + unat n) d"
    using assms(2,3) d by (simp add: store_def)
  finally have new: "buf_data (put_bytes b p n) = Some (take ?l d @ p @ drop (?l + unat n) d)"
    by (simp add: put_bytes_def d)
  have rest: "buf_len (put_bytes b p n) = buf_len b + n" "buf_cap (put_bytes b p n) = buf_cap b"
    "buf_max (put_bytes b p n) = buf_max b"
    by (simp_all add: put_bytes_def d)
  show ?thesis
    using assms d new rest sum by (auto simp: buf_wf_def contents_def word_le_nat_alt min_def)
qed

lemma put_byte_is_put_bytes:
  assumes "buf_wf b" "unat (buf_len b) + 1 \<le> unat (buf_cap b)"
  shows "b\<lparr>buf_data := map_option (\<lambda>d. d[unat (buf_len b) := c]) (buf_data b), buf_len := buf_len b + 1\<rparr> =
    put_bytes b [c] 1"
proof -
  obtain d where d: "buf_data b = Some d" "length d = unat (buf_cap b)"
    using assms by (auto simp: buf_wf_def split: option.splits)
  have "af_mem_copy (d @ [c]) (unat (buf_len b)) (length d) 1 = store (d @ [c]) (unat (buf_len b)) [c]"
    using assms(2) d by (subst af_mem_copy_store) auto
  then have "take (length d) (af_mem_copy (d @ [c]) (unat (buf_len b)) (length d) 1) = d[unat (buf_len b) := c]"
    using assms(2) d by (auto simp: list_eq_iff_nth_eq nth_store nth_append nth_list_update)
  then show ?thesis by (simp add: put_bytes_def d)
qed

text \<open>Appending: all the bytes or none of them.\<close>

lemma append_ok:
  assumes "buf_wf b" "realloc_law ra" "length p = unat n" "af_buf_append ra b (Some p) n = (None, b')"
  shows "buf_wf b' \<and> contents b' = contents b @ p \<and> buf_max b' = buf_max b"
proof (cases "n = 0")
  case True
  with assms show ?thesis by (simp add: af_buf_append_def)
next
  case False
  then obtain c where r: "af_buf_reserve ra b n = (None, c)" and b': "b' = put_bytes c p n"
    using assms(4) by (auto simp: af_buf_append_def split: prod.splits option.splits)
  from reserve_ok [OF assms(1,2) r] show ?thesis
    using put_bytes_ok [of c n p] assms(3) False b' by simp
qed

lemma append_fail: "af_buf_append ra b p n = (Some e, b') \<Longrightarrow> b' = b"
  by (auto simp: af_buf_append_def dest: reserve_fail split: if_splits prod.splits option.splits)

lemma append_status:
  assumes "af_buf_append ra b (Some p) n = (Some e, b')"
  shows "e = AF_E_OVERFLOW \<and> (2 ^ 64 \<le> unat (buf_len b) + unat n \<or> 2 ^ 64 \<le> unat (buf_cap b) + unat (buf_cap b)) \<or>
    e = AF_E_LIMIT \<and> unat (buf_max b) < unat (buf_len b) + unat n \<or>
    e = AF_E_NOMEM \<and> unat (buf_len b) + unat n \<le> unat (buf_max b) \<and> (\<exists>n. ra (buf_data b) n = None)"
proof -
  from assms have "af_buf_reserve ra b n = (Some e, b')"
    by (auto simp: af_buf_append_def split: if_splits prod.splits option.splits)
  then show ?thesis by (rule reserve_status)
qed

lemma append_byte_append:
  assumes "buf_wf b" "realloc_law ra"
  shows "af_buf_append_byte ra b c = af_buf_append ra b (Some [c]) 1"
proof (cases "af_buf_reserve ra b 1")
  case (Pair st d)
  show ?thesis
  proof (cases st)
    case None
    with Pair reserve_ok [OF assms, of 1 d] put_byte_is_put_bytes [of d c] show ?thesis
      by (simp add: af_buf_append_byte_def af_buf_append_def)
  next
    case (Some e)
    with Pair show ?thesis by (simp add: af_buf_append_byte_def af_buf_append_def)
  qed
qed

lemma append_byte_ok:
  "buf_wf b \<Longrightarrow> realloc_law ra \<Longrightarrow> af_buf_append_byte ra b c = (None, b') \<Longrightarrow>
   buf_wf b' \<and> contents b' = contents b @ [c] \<and> buf_max b' = buf_max b"
  using append_ok [of b ra "[c]" 1 b'] by (simp add: append_byte_append)

lemma append_byte_fail: "af_buf_append_byte ra b c = (Some e, b') \<Longrightarrow> b' = b"
  by (auto simp: af_buf_append_byte_def dest: reserve_fail split: prod.splits option.splits)

lemma append_cstr_append:
  "0 \<notin> set s \<Longrightarrow> af_buf_append_cstr ra b (Some s) = af_buf_append ra b (Some s) (of_nat (length s))"
  by (simp add: af_buf_append_cstr_def af_cstr_len_length)

definition decimal :: "u64 \<Rightarrow> u8 list" where
  "decimal v = rev (dec_digits v)"

lemma append_u64_append:
  "af_buf_append_u64 ra b v = af_buf_append ra b (Some (decimal v)) (of_nat (length (decimal v)))"
  by (simp add: af_buf_append_u64_def af_u64_to_dec_rev decimal_def)

lemma unat_of_length: "length (p :: u8 list) < 2 ^ 64 \<Longrightarrow> unat (of_nat (length p) :: u64) = length p"
  by (simp add: unat_of_nat)

lemma length_decimal: "length (decimal v) < 2 ^ 64"
  using dec_digits_length [of v 19] uint_u64_bounds(2) [of v] by (simp add: decimal_def)

section \<open>Dropping and wiping\<close>

lemma consume_ok:
  assumes "buf_wf b" "af_buf_consume b n = (None, b')"
  shows "buf_wf b' \<and> contents b' = drop (unat n) (contents b) \<and> buf_max b' = buf_max b \<and> n \<le> buf_len b"
proof (cases "n = buf_len b")
  case True
  with assms show ?thesis
    by (auto simp: af_buf_consume_def buf_wf_def contents_def split: option.splits)
next
  case False
  with assms(2) have n: "n < buf_len b"
    and b': "b' = b\<lparr>buf_data := map_option (\<lambda>d. af_mem_copy d 0 (unat n) (unat (buf_len b - n))) (buf_data b),
                   buf_len := buf_len b - n\<rparr>"
    by (auto simp: af_buf_consume_def split: if_splits)
  have sub: "unat (buf_len b - n) = unat (buf_len b) - unat n" using n by (simp add: unat_sub)
  have le: "unat n < unat (buf_len b)" "unat (buf_len b) \<le> unat (buf_cap b)"
    using n assms(1) by (auto simp: buf_wf_def word_le_nat_alt word_less_nat_alt)
  show ?thesis
  proof (cases "buf_data b")
    case None
    with assms(1) le show ?thesis by (simp add: buf_wf_def)
  next
    case (Some d)
    with assms(1) have d: "length d = unat (buf_cap b)" by (simp add: buf_wf_def)
    let ?k = "unat (buf_len b) - unat n"
    have "af_mem_copy d 0 (unat n) ?k = take ?k (drop (unat n) d) @ drop ?k d"
      using le d by (subst af_mem_copy_store) (auto simp: store_def)
    with Some assms(1) b' sub le d n show ?thesis
      by (auto simp: buf_wf_def contents_def word_le_nat_alt min_def drop_take)
  qed
qed

lemma consume_fail: "af_buf_consume b n = (Some e, b') \<Longrightarrow> b' = b \<and> e = AF_E_RANGE \<and> buf_len b < n"
  by (auto simp: af_buf_consume_def split: if_splits)

lemma wipe_from_data:
  assumes "buf_wf b" "off \<le> buf_cap b"
  shows "buf_data (wipe_from off b) =
    map_option (\<lambda>d. take (unat off) d @ replicate (unat (buf_cap b) - unat off) 0) (buf_data b)"
  using assms by (auto simp: wipe_from_def buf_wf_def af_mem_zero_store store_def unat_sub word_le_nat_alt
      split: option.splits)

lemma wipe_from_fields [simp]:
  "buf_len (wipe_from off b) = buf_len b" "buf_cap (wipe_from off b) = buf_cap b"
  "buf_max (wipe_from off b) = buf_max b"
  by (auto simp: wipe_from_def split: option.splits)

lemma wipe_from_wf:
  assumes "buf_wf b" "off \<le> buf_cap b" shows "buf_wf (wipe_from off b)"
  using assms wipe_from_data [OF assms]
  by (auto simp: buf_wf_def word_le_nat_alt split: option.splits)

lemma wipe_from_contents:
  assumes "buf_wf b" "buf_len b \<le> off" "off \<le> buf_cap b" shows "contents (wipe_from off b) = contents b"
  using assms wipe_from_data [OF assms(1,3)]
  by (auto simp: contents_def buf_wf_def word_le_nat_alt split: option.splits)

lemma consume_secure_ok:
  assumes "buf_wf b" "af_buf_consume_secure b n = (None, b')"
  shows "buf_wf b' \<and> contents b' = drop (unat n) (contents b) \<and> buf_max b' = buf_max b \<and>
    drop (unat (buf_len b')) (block (buf_data b')) = replicate (unat (buf_cap b' - buf_len b')) 0"
proof -
  obtain c where c: "af_buf_consume b n = (None, c)" and b': "b' = wipe_from (buf_len c) c"
    using assms(2) by (auto simp: af_buf_consume_secure_def split: prod.splits option.splits)
  note ok = consume_ok [OF assms(1) c]
  then have le: "buf_len c \<le> buf_cap c" and wf: "buf_wf c" by (auto simp: buf_wf_def)
  have "drop (unat (buf_len b')) (block (buf_data b')) = replicate (unat (buf_cap b' - buf_len b')) 0"
  proof (cases "buf_data c")
    case None
    with wf le have "buf_len c = 0 \<and> buf_cap c = 0" by (auto simp: buf_wf_def)
    with None show ?thesis using wipe_from_data [OF wf le] b' by simp
  next
    case (Some d)
    with wf le have "unat (buf_len c) \<le> length d" by (simp add: buf_wf_def word_le_nat_alt)
    with Some show ?thesis using wipe_from_data [OF wf le] b' le by (simp add: unat_sub)
  qed
  then show ?thesis using ok b' wipe_from_wf [OF wf le] wipe_from_contents [OF wf _ le] by simp
qed

section \<open>A buffer is a bounded byte queue\<close>

text \<open>
  The calls a client makes, one after the other, each with the allocator as it answers then; a
  call that fails is followed by the next one all the same. \<open>queue_step\<close> is the specification:
  what a call that succeeds does to a plain list of bytes.
\<close>

datatype buf_op =
    Reserve u64 | Append "u8 list" | AppendByte u8 | AppendCstr "u8 list" | AppendU64 u64
  | Consume u64 | ConsumeSecure u64 | Clear | ClearSecure | Free | FreeSecure | Take

fun buf_step :: "allocator \<Rightarrow> buf_op \<Rightarrow> af_buffer \<Rightarrow> af_status option \<times> af_buffer" where
  "buf_step ra (Reserve n) b = af_buf_reserve ra b n"
| "buf_step ra (Append p) b = af_buf_append ra b (Some p) (of_nat (length p))"
| "buf_step ra (AppendByte c) b = af_buf_append_byte ra b c"
| "buf_step ra (AppendCstr s) b = af_buf_append_cstr ra b (Some s)"
| "buf_step ra (AppendU64 v) b = af_buf_append_u64 ra b v"
| "buf_step ra (Consume n) b = af_buf_consume b n"
| "buf_step ra (ConsumeSecure n) b = af_buf_consume_secure b n"
| "buf_step ra Clear b = (AF_OK, af_buf_clear b)"
| "buf_step ra ClearSecure b = (AF_OK, af_buf_clear_secure b)"
| "buf_step ra Free b = (AF_OK, snd (af_buf_free b))"
| "buf_step ra FreeSecure b = (AF_OK, snd (af_buf_free_secure b))"
| "buf_step ra Take b = (AF_OK, snd (af_buf_take b))"

fun queue_step :: "buf_op \<Rightarrow> u8 list \<Rightarrow> u8 list" where
  "queue_step (Reserve n) xs = xs"
| "queue_step (Append p) xs = xs @ p"
| "queue_step (AppendByte c) xs = xs @ [c]"
| "queue_step (AppendCstr s) xs = xs @ s"
| "queue_step (AppendU64 v) xs = xs @ decimal v"
| "queue_step (Consume n) xs = drop (unat n) xs"
| "queue_step (ConsumeSecure n) xs = drop (unat n) xs"
| "queue_step Clear xs = []"
| "queue_step ClearSecure xs = []"
| "queue_step Free xs = []"
| "queue_step FreeSecure xs = []"
| "queue_step Take xs = []"

fun op_ok :: "buf_op \<Rightarrow> bool" where
  "op_ok (Append p) \<longleftrightarrow> length p < 2 ^ 64"
| "op_ok (AppendCstr s) \<longleftrightarrow> 0 \<notin> set s \<and> length s < 2 ^ 64"
| "op_ok _ \<longleftrightarrow> True"

fun buf_run :: "(allocator \<times> buf_op) list \<Rightarrow> af_buffer \<Rightarrow> af_status option list \<times> af_buffer" where
  "buf_run [] b = ([], b)"
| "buf_run ((ra, op) # ops) b =
     (let (st, b') = buf_step ra op b; (sts, b'') = buf_run ops b' in (st # sts, b''))"

fun queue_run :: "(allocator \<times> buf_op) list \<Rightarrow> af_status option list \<Rightarrow> u8 list \<Rightarrow> u8 list" where
  "queue_run ((ra, op) # ops) (st # sts) xs = queue_run ops sts (if st = AF_OK then queue_step op xs else xs)"
| "queue_run _ _ xs = xs"

lemma released_wf:
  "buf_wf (b\<lparr>buf_data := None, buf_len := 0, buf_cap := 0\<rparr>)"
  "contents (b\<lparr>buf_data := None, buf_len := 0, buf_cap := 0\<rparr>) = []"
  by (simp_all add: buf_wf_def contents_def)

lemma emptied_wf: "buf_wf b \<Longrightarrow> buf_wf (b\<lparr>buf_len := 0\<rparr>)" "contents (b\<lparr>buf_len := 0\<rparr>) = []"
  by (auto simp: buf_wf_def contents_def split: option.splits)

lemmas buf_ok = reserve_ok append_ok append_byte_ok consume_ok consume_secure_ok
lemmas buf_fail = reserve_fail append_fail append_byte_fail consume_fail

lemma buf_step_ok:
  assumes "buf_wf b" "realloc_law ra" "op_ok op" "buf_step ra op b = (None, b')"
  shows "buf_wf b' \<and> contents b' = queue_step op (contents b) \<and> buf_max b' = buf_max b"
proof (cases op)
  case (Append p)
  with assms append_ok [OF assms(1,2), of p "of_nat (length p)" b'] unat_of_length [of p] show ?thesis by simp
next
  case (AppendCstr s)
  with assms append_ok [OF assms(1,2), of s "of_nat (length s)" b'] unat_of_length [of s]
  show ?thesis by (simp add: append_cstr_append)
next
  case (AppendU64 v)
  with assms append_ok [OF assms(1,2), of "decimal v" "of_nat (length (decimal v))" b']
    unat_of_length [OF length_decimal [of v]]
  show ?thesis by (simp add: append_u64_append)
next
  case FreeSecure
  with assms show ?thesis
    by (auto simp: af_buf_free_secure_def af_buf_free_def released_wf)
next
  case ClearSecure
  with assms wipe_from_wf [OF assms(1), of 0] show ?thesis
    by (auto simp: af_buf_clear_secure_def emptied_wf)
next
  case Clear
  with assms show ?thesis by (auto simp: af_buf_clear_def emptied_wf)
next
  case Free
  with assms show ?thesis by (auto simp: af_buf_free_def released_wf)
next
  case Take
  with assms show ?thesis by (auto simp: af_buf_take_def released_wf)
next
  case (Reserve n)
  with assms reserve_ok [OF assms(1,2), of n b'] show ?thesis by simp
next
  case (AppendByte c)
  with assms append_byte_ok [OF assms(1,2), of c b'] show ?thesis by simp
next
  case (Consume n)
  with assms consume_ok [OF assms(1), of n b'] show ?thesis by simp
next
  case (ConsumeSecure n)
  with assms consume_secure_ok [OF assms(1), of n b'] show ?thesis by simp
qed

lemma consume_secure_fail: "af_buf_consume_secure b n = (Some e, b') \<Longrightarrow> b' = b"
  by (auto simp: af_buf_consume_secure_def dest: consume_fail split: prod.splits option.splits)

lemma buf_step_fail: "buf_step ra op b = (Some e, b') \<Longrightarrow> b' = b"
  by (cases op) (auto simp: af_buf_append_cstr_def af_buf_append_u64_def dest: buf_fail consume_secure_fail
      split: sum.splits)

lemma buf_run_queue:
  "buf_wf b \<Longrightarrow> list_all (\<lambda>(ra, op). realloc_law ra \<and> op_ok op) ops \<Longrightarrow> buf_run ops b = (sts, b') \<Longrightarrow>
   buf_wf b' \<and> buf_max b' = buf_max b \<and> contents b' = queue_run ops sts (contents b)"
proof (induction ops arbitrary: b sts)
  case (Cons x ops)
  obtain ra op where x: "x = (ra, op)" by (cases x)
  obtain st c where c: "buf_step ra op b = (st, c)" by (cases "buf_step ra op b")
  obtain sts' where r: "buf_run ops c = (sts', b')" and sts: "sts = st # sts'"
    using Cons.prems(3) x c by (auto split: prod.splits)
  have "buf_wf c \<and> buf_max c = buf_max b \<and>
      contents c = (if st = AF_OK then queue_step op (contents b) else contents b)"
    using buf_step_ok [of b ra op c] buf_step_fail [of ra op b _ c] Cons.prems x c by (cases st) auto
  then show ?case using Cons.IH [OF _ _ r] Cons.prems(2) x sts by simp
qed simp

lemma init_wf: "af_buf_init m = Inr b \<Longrightarrow> buf_wf b \<and> buf_max b = m \<and> contents b = [] \<and> m \<noteq> 0"
  by (auto simp: af_buf_init_def buf_wf_def contents_def split: if_splits)

text \<open>
  C6: A buffer implements a bounded queue of bytes. After any sequence of calls on an
  initialised buffer, with an allocator that keeps what \<open>realloc\<close> documents and may refuse at any
  call, the buffer holds exactly what the calls that succeeded do to a plain list: appended bytes
  (bytes, strings, decimal numbers) at the end, consumed ones gone from the front, the failed
  calls without effect. The length stays within the capacity, the capacity within the
  maximum, so the maximum given at the start bounds what is ever held.
\<close>

theorem buffer_refines_queue:
  assumes "af_buf_init m = Inr b" "list_all (\<lambda>(ra, op). realloc_law ra \<and> op_ok op) ops"
    "buf_run ops b = (sts, b')"
  shows "contents b' = queue_run ops sts [] \<and> buf_wf b' \<and> length (contents b') \<le> unat m"
  using init_wf [OF assms(1)] buf_run_queue [OF _ assms(2,3)] contents_bound [of b'] by auto

text \<open>An allocator that obeys the law: it never refuses and fills new room with zeros.\<close>

definition plain_realloc :: allocator where
  "plain_realloc d n = Some (take (unat n) (block d) @ replicate (unat n - length (block d)) 0)"

lemma plain_realloc_law: "realloc_law plain_realloc"
  by (auto simp: realloc_law_def plain_realloc_def min_def)

definition refusing_realloc :: allocator where
  "refusing_realloc d n = None"

lemma refusing_realloc_law: "realloc_law refusing_realloc"
  by (simp add: realloc_law_def refusing_realloc_def)

theorem buffer_refines_queue_witness:
  "let ops = [(refusing_realloc, Append [1, 2, 3]), (plain_realloc, Append [65, 66, 67]),
              (plain_realloc, AppendU64 120), (refusing_realloc, Consume 2), (plain_realloc, Append (replicate 70 7))];
       b = \<lparr>buf_data = None, buf_len = 0, buf_cap = 0, buf_max = 70\<rparr>
   in contents (snd (buf_run ops b)) = queue_run ops (fst (buf_run ops b)) [] \<and>
      buf_wf (snd (buf_run ops b)) \<and> length (contents (snd (buf_run ops b))) \<le> unat (70 :: u64)"
  unfolding Let_def
  by (rule buffer_refines_queue)
    (simp_all add: af_buf_init_def plain_realloc_law refusing_realloc_law)

text \<open>
  Appending is all or nothing. It leaves the buffer untouched when it fails, and otherwise
  adds exactly the bytes given; it never succeeds past the maximum; and for a maximum below
  \<open>2 ^ 63\<close>, with an allocator that does not refuse, it succeeds exactly when the bytes fit.
\<close>

lemma append_all_or_nothing:
  assumes "buf_wf b" "realloc_law ra" "length p < 2 ^ 64"
    "af_buf_append ra b (Some p) (of_nat (length p)) = (st, b')"
  shows "(case st of None \<Rightarrow> buf_wf b' \<and> contents b' = contents b @ p | Some _ \<Rightarrow> b' = b) \<and>
    (unat (buf_max b) < length (contents b) + length p \<longrightarrow> st = Some AF_E_LIMIT \<or> st = Some AF_E_OVERFLOW) \<and>
    (buf_max b < 2 ^ 63 \<and> (\<forall>n. ra (buf_data b) n \<noteq> None) \<longrightarrow>
      (st = None \<longleftrightarrow> length (contents b) + length p \<le> unat (buf_max b)))"
proof -
  let ?n = "of_nat (length p) :: u64"
  have n: "unat ?n = length p" using assms(3) by (rule unat_of_length)
  have len: "unat (buf_len b) = length (contents b)" using contents_wf [OF assms(1)] by simp
  have ok: "buf_wf b' \<and> contents b' = contents b @ p \<and> length (contents b) + length p \<le> unat (buf_max b)"
    if "st = None"
    using append_ok [OF assms(1,2) n [symmetric]] contents_bound [of b'] assms(4) that by auto
  show ?thesis
  proof (cases st)
    case None
    with ok show ?thesis by simp
  next
    case (Some e)
    note a = assms(4) [unfolded Some]
    have "unat (buf_cap b) \<le> unat (buf_max b)"
      using assms(1) by (simp add: buf_wf_def word_le_nat_alt)
    with append_status [OF a] append_fail [OF a] Some len n unat_u64_bound [of "buf_max b"] show ?thesis
      by (auto simp: word_less_nat_alt) (metis option.discI)
  qed
qed

text \<open>A credential of four bytes, and the same bytes again in a buffer of at most six.\<close>

lemma append_all_or_nothing_witness:
  "let b = \<lparr>buf_data = Some [1, 2, 3, 4, 0, 0], buf_len = 4, buf_cap = 6, buf_max = 6\<rparr>;
       (st, b') = af_buf_append plain_realloc b (Some [1, 2, 3, 4]) (of_nat (length [1, 2, 3, 4 :: u8]))
   in (case st of None \<Rightarrow> buf_wf b' \<and> contents b' = contents b @ [1, 2, 3, 4] | Some _ \<Rightarrow> b' = b) \<and>
    (unat (buf_max b) < length (contents b) + length [1, 2, 3, 4 :: u8] \<longrightarrow> st = Some AF_E_LIMIT \<or> st = Some AF_E_OVERFLOW) \<and>
    (buf_max b < 2 ^ 63 \<and> (\<forall>n. plain_realloc (buf_data b) n \<noteq> None) \<longrightarrow>
      (st = None \<longleftrightarrow> length (contents b) + length [1, 2, 3, 4 :: u8] \<le> unat (buf_max b)))"
  unfolding Let_def case_prod_beta
  by (rule append_all_or_nothing) (simp_all add: buf_wf_def plain_realloc_law)

text \<open>
  C33: No byte of a credential outlives its use in the block. The secure consume drops the
  bytes like the plain one and leaves only zeros behind the rest; the secure clear leaves only zeros in
  the whole block; and the secure release hands the allocator a block of zeros.
\<close>

theorem secure_operations_wipe:
  assumes "buf_wf b"
  shows "(case af_buf_consume_secure b n of
      (Some e, b') \<Rightarrow> b' = b \<and> buf_len b < n
    | (None, b') \<Rightarrow> contents b' = drop (unat n) (contents b) \<and>
        block (buf_data b') = contents b' @ replicate (unat (buf_cap b' - buf_len b')) 0) \<and>
    block (buf_data (af_buf_clear_secure b)) = replicate (unat (buf_cap b)) 0 \<and>
    block (fst (af_buf_free_secure b)) = replicate (unat (buf_cap b)) 0"
proof -
  have w: "block (buf_data (wipe_from 0 b)) = replicate (unat (buf_cap b)) 0"
    using wipe_from_data [OF assms, of 0] assms
    by (cases "buf_data b") (auto simp: buf_wf_def)
  have "case af_buf_consume_secure b n of
      (Some e, b') \<Rightarrow> b' = b \<and> buf_len b < n
    | (None, b') \<Rightarrow> contents b' = drop (unat n) (contents b) \<and>
        block (buf_data b') = contents b' @ replicate (unat (buf_cap b' - buf_len b')) 0"
  proof (cases "af_buf_consume_secure b n")
    case (Pair st c)
    show ?thesis
    proof (cases st)
      case (Some e)
      with Pair have "af_buf_consume b n = (Some e, c)"
        by (auto simp: af_buf_consume_secure_def split: prod.splits option.splits)
      with Pair Some consume_fail show ?thesis by fastforce
    next
      case None
      have "contents c = take (unat (buf_len c)) (block (buf_data c))"
        by (simp add: contents_def split: option.splits)
      with consume_secure_ok [OF assms] Pair None show ?thesis by (simp; metis append_take_drop_id)
    qed
  qed
  with w show ?thesis
    by (simp add: af_buf_clear_secure_def af_buf_free_secure_def af_buf_free_def)
qed

theorem secure_operations_wipe_witness:
  "let b = \<lparr>buf_data = Some [1, 2, 3, 4, 5, 6], buf_len = 4, buf_cap = 6, buf_max = 6\<rparr>
   in (case af_buf_consume_secure b 3 of
      (Some e, b') \<Rightarrow> b' = b \<and> buf_len b < 3
    | (None, b') \<Rightarrow> contents b' = drop (unat (3 :: u64)) (contents b) \<and>
        block (buf_data b') = contents b' @ replicate (unat (buf_cap b' - buf_len b')) 0) \<and>
    block (buf_data (af_buf_clear_secure b)) = replicate (unat (buf_cap b)) 0 \<and>
    block (fst (af_buf_free_secure b)) = replicate (unat (buf_cap b)) 0"
  unfolding Let_def by (rule secure_operations_wipe) (simp add: buf_wf_def)

text \<open>An append that cannot be refused, into a buffer whose capacity can be doubled.\<close>

lemma append_fits:
  assumes "buf_wf b" "realloc_law ra" "length p < 2 ^ 64" "buf_max b < 2 ^ 63" "\<forall>d n. ra d n \<noteq> None"
  shows "fst (af_buf_append ra b (Some p) (of_nat (length p))) = None \<longleftrightarrow>
    length (contents b) + length p \<le> unat (buf_max b)"
proof (cases "af_buf_append ra b (Some p) (of_nat (length p))")
  case (Pair st c)
  have n: "unat (of_nat (length p) :: u64) = length p" using assms(3) by (rule unat_of_length)
  show ?thesis
  proof (cases st)
    case None
    with Pair append_ok [OF assms(1,2) n [symmetric], of c] contents_bound [of c] show ?thesis by simp
  next
    case (Some e)
    have "unat (buf_cap b) \<le> unat (buf_max b)"
      using assms(1) by (simp add: buf_wf_def word_le_nat_alt)
    with append_status [of ra b p "of_nat (length p)" e c] Pair Some contents_wf [OF assms(1)] n assms(4)
      unat_u64_bound [of "buf_max b"] show ?thesis
      by (auto simp: word_less_nat_alt assms(5))
  qed
qed

section \<open>What writing in pieces leaves behind\<close>

text \<open>
  Clients write a message in several appends and stop at the first that fails. The interface
  they rely on is that one append is all or nothing.
\<close>

fun put_all :: "('b \<Rightarrow> u8 list \<Rightarrow> af_status option \<times> 'b) \<Rightarrow> 'b \<Rightarrow> u8 list list \<Rightarrow> af_status option \<times> 'b" where
  "put_all put b [] = (AF_OK, b)"
| "put_all put b (p # ps) =
     (case put b p of
        (Some e, b') \<Rightarrow> (Some e, b')
      | (None, b') \<Rightarrow> put_all put b' ps)"

locale byte_sink =
  fixes held :: "'b \<Rightarrow> u8 list"
    and good :: "'b \<Rightarrow> bool"
    and short :: "u8 list \<Rightarrow> bool"
    and put :: "'b \<Rightarrow> u8 list \<Rightarrow> af_status option \<times> 'b"
  assumes put_ok: "good b \<Longrightarrow> short p \<Longrightarrow> put b p = (None, b') \<Longrightarrow> good b' \<and> held b' = held b @ p"
    and put_fail: "good b \<Longrightarrow> short p \<Longrightarrow> put b p = (Some e, b') \<Longrightarrow> b' = b"
begin

text \<open>Writing in pieces writes their concatenation, or a whole number of pieces from its start.\<close>

lemma put_all_ok:
  "good b \<Longrightarrow> list_all short ps \<Longrightarrow> put_all put b ps = (None, b') \<Longrightarrow> good b' \<and> held b' = held b @ concat ps"
proof (induction ps arbitrary: b)
  case (Cons p ps)
  then obtain c where c: "put b p = (None, c)" and r: "put_all put c ps = (None, b')"
    by (auto split: prod.splits option.splits)
  from put_ok [OF Cons.prems(1) _ c] Cons.IH [OF _ _ r] Cons.prems(2) show ?case by simp
qed simp

lemma put_all_fail:
  "good b \<Longrightarrow> list_all short ps \<Longrightarrow> put_all put b ps = (Some e, b') \<Longrightarrow>
   good b' \<and> (\<exists>k<length ps. held b' = held b @ concat (take k ps))"
proof (induction ps arbitrary: b)
  case (Cons p ps)
  show ?case
  proof (cases "put b p")
    case (Pair st c)
    show ?thesis
    proof (cases st)
      case None
      with Pair Cons.prems obtain k where "good b'" "k < length ps" "held b' = held c @ concat (take k ps)"
        using Cons.IH [of c] put_ok [of b p c] by auto
      then show ?thesis using put_ok [of b p c] Pair None Cons.prems by (intro conjI exI [of _ "Suc k"]) auto
    next
      case (Some e')
      with Pair Cons.prems put_fail [of b p e' c] show ?thesis by auto
    qed
  qed
qed simp

end

definition buf_put :: "allocator \<Rightarrow> af_buffer \<Rightarrow> u8 list \<Rightarrow> af_status option \<times> af_buffer" where
  "buf_put ra b p = af_buf_append ra b (Some p) (of_nat (length p))"

definition buf_good :: "allocator \<Rightarrow> u64 \<Rightarrow> af_buffer \<Rightarrow> bool" where
  "buf_good ra m b \<longleftrightarrow> realloc_law ra \<and> buf_wf b \<and> buf_max b = m"

interpretation outbox: byte_sink contents "buf_good ra m" "\<lambda>p. length p < 2 ^ 64" "buf_put ra" for ra m
proof
  fix b b' :: af_buffer and p :: "u8 list" and e
  assume b: "buf_good ra m b" and p: "length p < 2 ^ 64"
  show "buf_good ra m b' \<and> contents b' = contents b @ p" if "buf_put ra b p = (None, b')"
    using append_ok [of b ra p "of_nat (length p)" b'] b that unat_of_length [OF p]
    by (simp add: buf_put_def buf_good_def)
  show "b' = b" if "buf_put ra b p = (Some e, b')"
    using append_fail [of ra b "Some p" "of_nat (length p)" e b'] that by (simp add: buf_put_def)
qed

text \<open>Bytes appended one at a time.\<close>

fun append_bytes :: "allocator \<Rightarrow> af_buffer \<Rightarrow> u8 list \<Rightarrow> af_status option \<times> af_buffer" where
  "append_bytes ra b [] = (AF_OK, b)"
| "append_bytes ra b (c # cs) =
     (case af_buf_append_byte ra b c of
        (Some e, b') \<Rightarrow> (Some e, b')
      | (None, b') \<Rightarrow> append_bytes ra b' cs)"

lemma append_bytes_put_all:
  "buf_good ra m b \<Longrightarrow> append_bytes ra b cs = put_all (buf_put ra) b (map (\<lambda>c. [c]) cs)"
proof (induction cs arbitrary: b)
  case (Cons c cs)
  have e: "af_buf_append_byte ra b c = buf_put ra b [c]"
    using Cons.prems append_byte_append [of b ra c] by (simp add: buf_put_def buf_good_def)
  show ?case
  proof (cases "buf_put ra b [c]")
    case (Pair st b')
    then show ?thesis
      using e Cons.IH [of b'] outbox.put_ok [OF Cons.prems, of "[c]" b'] by (cases st) auto
  qed
qed simp

lemma put_all_append:
  "put_all put b (ps @ qs) =
     (case put_all put b ps of (Some e, b') \<Rightarrow> (Some e, b') | (None, b') \<Rightarrow> put_all put b' qs)"
  by (induction ps arbitrary: b) (auto split: prod.splits option.splits)

lemma put_all_fits:
  "buf_good ra m b \<Longrightarrow> m < 2 ^ 63 \<Longrightarrow> \<forall>d n. ra d n \<noteq> None \<Longrightarrow> list_all (\<lambda>p. length p < 2 ^ 64) ps \<Longrightarrow>
   length (contents b) + length (concat ps) \<le> unat m \<Longrightarrow>
   \<exists>b'. put_all (buf_put ra) b ps = (None, b') \<and> buf_good ra m b' \<and> contents b' = contents b @ concat ps"
proof (induction ps arbitrary: b)
  case (Cons p ps)
  obtain st c where c: "buf_put ra b p = (st, c)" by fastforce
  then have st: "st = None"
    using append_fits [of b ra p] Cons.prems by (simp add: buf_put_def buf_good_def)
  from outbox.put_ok [OF Cons.prems(1), of p c] c st Cons.prems(4)
  have "buf_good ra m c" "contents c = contents b @ p" by auto
  with Cons.IH [of c] Cons.prems c st show ?case by auto
qed simp

end
