(* ===== verification/Http_Outbox.thy ===== *)
theory Http_Outbox
  imports Buffer
begin

text \<open>
  The write side of a client connection: \<open>af_http_conn_flush\<close> of \<open>src/http/http_server.asm\<close> and
  \<open>af_prov_conn_drained\<close> of \<open>src/providers/provider_exchange.asm\<close>. The outbox is a buffer with a
  cursor before which everything is on the wire. What the kernel answers to the calls of
  \<open>write\<close> is a parameter, the list \<open>hc_replies\<close> in the order of the calls (a socket that has no
  more answers would block); \<open>write\<close> never reports more than it was given. \<open>hc_sent\<close> records the
  bytes the kernel has taken. \<open>hc_paused\<close> is the flag \<open>AF_PX_F_PAUSED\<close> of the connection's
  exchange and \<open>hc_exchange\<close> says whether it has one; \<open>hc_want_out\<close> is the interest in
  \<open>EPOLLOUT\<close> registered with the loop.
\<close>

datatype write_reply = Wrote u64 | WriteFailed af_status

record http_conn =
  hc_open :: bool
  hc_outbox :: af_buffer
  hc_out_cursor :: u64
  hc_upstream :: bool
  hc_exchange :: bool
  hc_paused :: bool
  hc_server :: bool
  hc_want_out :: bool
  hc_replies :: "write_reply list"
  hc_sent :: "u8 list"

definition AF_PROV_PAUSE_HIGH :: u64 where "AF_PROV_PAUSE_HIGH = 256 * 1024"
definition AF_PROV_PAUSE_LOW :: u64 where "AF_PROV_PAUSE_LOW = 64 * 1024"
definition AF_HTTP_OUTBOX_COMPACT :: u64 where "AF_HTTP_OUTBOX_COMPACT = 65536"

section \<open>The operations\<close>

definition af_prov_conn_drained :: "http_conn \<Rightarrow> http_conn" where
  "af_prov_conn_drained c =
     (if \<not> hc_exchange c then c
      else if \<not> hc_paused c then c
      else if sub_carry (buf_len (hc_outbox c)) (hc_out_cursor c) then c\<lparr>hc_paused := False\<rparr>
      else if AF_PROV_PAUSE_LOW \<le> buf_len (hc_outbox c) - hc_out_cursor c then c
      else c\<lparr>hc_paused := False\<rparr>)"

definition resume_upstream :: "http_conn \<Rightarrow> http_conn" where
  "resume_upstream c = (if hc_upstream c then af_prov_conn_drained c else c)"

definition watch_output :: "bool \<Rightarrow> http_conn \<Rightarrow> http_conn" where
  "watch_output on c = (if hc_server c then c\<lparr>hc_want_out := on\<rparr> else c)"

definition flush_drained :: "http_conn \<Rightarrow> http_conn" where
  "flush_drained c =
     watch_output False (resume_upstream (c\<lparr>hc_outbox := af_buf_clear (hc_outbox c), hc_out_cursor := 0\<rparr>))"

definition flush_blocked :: "http_conn \<Rightarrow> http_conn" where
  "flush_blocked c =
     watch_output True (resume_upstream
       (if hc_out_cursor c < AF_HTTP_OUTBOX_COMPACT then c
        else c\<lparr>hc_outbox := snd (af_buf_consume (hc_outbox c) (hc_out_cursor c)), hc_out_cursor := 0\<rparr>))"

text \<open>Everything is written, or there is nothing to write from.\<close>

definition outbox_done :: "http_conn \<Rightarrow> bool" where
  "outbox_done c \<longleftrightarrow> buf_len (hc_outbox c) \<le> hc_out_cursor c \<or> buf_data (hc_outbox c) = None"

definition take_written :: "u64 \<Rightarrow> http_conn \<Rightarrow> http_conn" where
  "take_written k c =
     c\<lparr>hc_out_cursor := hc_out_cursor c + k,
       hc_sent := hc_sent c @ take (unat k) (drop (unat (hc_out_cursor c)) (contents (hc_outbox c)))\<rparr>"

fun write_loop :: "write_reply list \<Rightarrow> http_conn \<Rightarrow> af_status option \<times> http_conn" where
  "write_loop [] c =
     (if outbox_done c then (AF_OK, flush_drained (c\<lparr>hc_replies := []\<rparr>))
      else (AF_OK, flush_blocked (c\<lparr>hc_replies := []\<rparr>)))"
| "write_loop (r # rs) c =
     (if outbox_done c then (AF_OK, flush_drained (c\<lparr>hc_replies := r # rs\<rparr>))
      else case r of
        WriteFailed e \<Rightarrow>
          if e = AF_E_AGAIN then (AF_OK, flush_blocked (c\<lparr>hc_replies := rs\<rparr>))
          else (Some e, c\<lparr>hc_replies := rs\<rparr>)
      | Wrote n \<Rightarrow>
          (let k = min n (buf_len (hc_outbox c) - hc_out_cursor c); c = take_written k c
           in if k = 0 then (AF_OK, flush_blocked (c\<lparr>hc_replies := rs\<rparr>)) else write_loop rs c))"

definition af_http_conn_flush :: "http_conn \<Rightarrow> af_status option \<times> http_conn" where
  "af_http_conn_flush c = (if hc_open c then write_loop (hc_replies c) c else (AF_OK, c))"

section \<open>What reaches the client\<close>

definition conn_wf :: "http_conn \<Rightarrow> bool" where
  "conn_wf c \<longleftrightarrow> buf_wf (hc_outbox c) \<and> hc_out_cursor c \<le> buf_len (hc_outbox c)"

definition pending :: "http_conn \<Rightarrow> u8 list" where
  "pending c = drop (unat (hc_out_cursor c)) (contents (hc_outbox c))"

text \<open>The bytes the client has, or will have once the outbox is written.\<close>

definition stream_of :: "http_conn \<Rightarrow> u8 list" where
  "stream_of c = hc_sent c @ pending c"

lemma resume_watch_fields [simp]:
  "hc_outbox (resume_upstream c) = hc_outbox c" "hc_outbox (watch_output on c) = hc_outbox c"
  "hc_out_cursor (resume_upstream c) = hc_out_cursor c" "hc_out_cursor (watch_output on c) = hc_out_cursor c"
  "hc_sent (resume_upstream c) = hc_sent c" "hc_sent (watch_output on c) = hc_sent c"
  "hc_open (resume_upstream c) = hc_open c" "hc_open (watch_output on c) = hc_open c"
  by (simp_all add: resume_upstream_def af_prov_conn_drained_def watch_output_def)

lemma pending_done:
  assumes "conn_wf c" shows "outbox_done c \<longleftrightarrow> pending c = []"
proof (cases "buf_data (hc_outbox c)")
  case None
  then show ?thesis by (simp add: outbox_done_def pending_def contents_def)
next
  case (Some d)
  have "pending c = [] \<longleftrightarrow> unat (buf_len (hc_outbox c)) \<le> unat (hc_out_cursor c)"
    using assms contents_wf [of "hc_outbox c"] by (simp add: pending_def conn_wf_def)
  with Some show ?thesis by (simp add: outbox_done_def word_le_nat_alt)
qed

lemma flush_drained_ok:
  assumes "conn_wf c" "outbox_done c"
  shows "conn_wf (flush_drained c) \<and> stream_of (flush_drained c) = stream_of c \<and> pending (flush_drained c) = [] \<and>
    hc_sent (flush_drained c) = hc_sent c \<and> hc_out_cursor (flush_drained c) = 0 \<and>
    buf_max (hc_outbox (flush_drained c)) = buf_max (hc_outbox c)"
  using assms pending_done [OF assms(1)] emptied_wf [of "hc_outbox c"]
  by (simp add: flush_drained_def conn_wf_def stream_of_def pending_def af_buf_clear_def)

lemma flush_blocked_ok:
  assumes "conn_wf c"
  shows "conn_wf (flush_blocked c) \<and> stream_of (flush_blocked c) = stream_of c \<and> pending (flush_blocked c) = pending c \<and>
    hc_sent (flush_blocked c) = hc_sent c \<and> hc_out_cursor (flush_blocked c) < AF_HTTP_OUTBOX_COMPACT \<and>
    buf_max (hc_outbox (flush_blocked c)) = buf_max (hc_outbox c)"
proof (cases "hc_out_cursor c < AF_HTTP_OUTBOX_COMPACT")
  case True
  with assms show ?thesis by (simp add: flush_blocked_def conn_wf_def stream_of_def pending_def)
next
  case False
  obtain st b where b: "af_buf_consume (hc_outbox c) (hc_out_cursor c) = (st, b)" by fastforce
  have st: "st = None"
    using b assms consume_fail [of "hc_outbox c" "hc_out_cursor c"] by (cases st) (auto simp: conn_wf_def)
  with False b assms consume_ok [of "hc_outbox c" "hc_out_cursor c" b] show ?thesis
    by (simp add: flush_blocked_def conn_wf_def stream_of_def pending_def AF_HTTP_OUTBOX_COMPACT_def)
qed

lemma take_written_ok:
  assumes "conn_wf c" "k \<le> buf_len (hc_outbox c) - hc_out_cursor c"
  shows "conn_wf (take_written k c) \<and> stream_of (take_written k c) = stream_of c \<and>
    pending (take_written k c) = drop (unat k) (pending c) \<and>
    hc_sent (take_written k c) = hc_sent c @ take (unat k) (pending c) \<and>
    hc_outbox (take_written k c) = hc_outbox c"
proof -
  have c: "hc_out_cursor c \<le> buf_len (hc_outbox c)" using assms(1) by (simp add: conn_wf_def)
  then have "unat (buf_len (hc_outbox c) - hc_out_cursor c) = unat (buf_len (hc_outbox c)) - unat (hc_out_cursor c)"
    by (simp add: unat_sub)
  with assms(2) c have k: "unat (hc_out_cursor c) + unat k \<le> unat (buf_len (hc_outbox c))"
    by (simp add: word_le_nat_alt)
  have s: "unat (hc_out_cursor c + k) = unat (hc_out_cursor c) + unat k"
    using k unat_u64_bound [of "buf_len (hc_outbox c)"] by (simp add: unat_word_ariths)
  have p: "pending (take_written k c) = drop (unat k) (pending c)"
    by (simp add: pending_def take_written_def s add.commute [of "unat k"])
  have t: "hc_sent (take_written k c) = hc_sent c @ take (unat k) (pending c)"
    by (simp add: pending_def take_written_def)
  show ?thesis
    using assms(1) k s p t by (simp add: conn_wf_def word_le_nat_alt stream_of_def) (simp add: take_written_def)
qed

lemma replies_irrelevant [simp]:
  "conn_wf (c\<lparr>hc_replies := rs\<rparr>) = conn_wf c" "stream_of (c\<lparr>hc_replies := rs\<rparr>) = stream_of c"
  "pending (c\<lparr>hc_replies := rs\<rparr>) = pending c" "outbox_done (c\<lparr>hc_replies := rs\<rparr>) = outbox_done c"
  by (simp_all add: conn_wf_def stream_of_def pending_def outbox_done_def)

lemma write_loop_ok:
  "conn_wf c \<Longrightarrow> write_loop rs c = (st, c') \<Longrightarrow>
   conn_wf c' \<and> stream_of c' = stream_of c \<and> prefix (hc_sent c) (hc_sent c') \<and>
   buf_max (hc_outbox c') = buf_max (hc_outbox c) \<and> (st = None \<longrightarrow> hc_out_cursor c' < AF_HTTP_OUTBOX_COMPACT)"
proof (induction rs c rule: write_loop.induct)
  case (1 c)
  then show ?case
    using flush_drained_ok [of "c\<lparr>hc_replies := []\<rparr>"] flush_blocked_ok [of "c\<lparr>hc_replies := []\<rparr>"]
    by (auto simp: AF_HTTP_OUTBOX_COMPACT_def split: if_splits)
next
  case (2 r rs c)
  show ?case
  proof (cases "outbox_done c")
    case True
    with 2 flush_drained_ok [of "c\<lparr>hc_replies := r # rs\<rparr>"] show ?thesis
      by (auto simp: AF_HTTP_OUTBOX_COMPACT_def)
  next
    case False
    show ?thesis
    proof (cases r)
      case (WriteFailed e)
      with False 2 flush_blocked_ok [of "c\<lparr>hc_replies := rs\<rparr>"] show ?thesis
        by (auto split: if_splits)
    next
      case (Wrote n)
      let ?k = "min n (buf_len (hc_outbox c) - hc_out_cursor c)"
      note t = take_written_ok [OF "2.prems"(1), of ?k]
      show ?thesis
      proof (cases "?k = 0")
        case True
        with False Wrote 2 t flush_blocked_ok [of "take_written ?k c\<lparr>hc_replies := rs\<rparr>"] show ?thesis
          by (auto simp: Let_def)
      next
        case k: False
        then have r: "write_loop rs (take_written ?k c) = (st, c')"
          using False Wrote "2.prems"(2) by (simp add: Let_def)
        from "2.IH" [OF False Wrote refl refl k _ r] t show ?thesis
          by (auto dest: append_prefixD)
      qed
    qed
  qed
qed

text \<open>
  C11: Flushing neither loses, repeats nor reorders a byte. Whatever the kernel answers to the
  writes (short writes, a full socket, an error), what has been handed to the kernel followed
  by what is still pending in the outbox is the same before and after, the kernel has only been
  given more of it, and after a flush that succeeds fewer than 65536 written bytes remain
  in the buffer in front of the pending ones.
\<close>

theorem flush_exactly_once:
  assumes "conn_wf c" "af_http_conn_flush c = (st, c')"
  shows "stream_of c' = stream_of c \<and> prefix (hc_sent c) (hc_sent c') \<and> conn_wf c' \<and>
    (hc_open c \<and> st = AF_OK \<longrightarrow> hc_out_cursor c' < AF_HTTP_OUTBOX_COMPACT)"
  using assms write_loop_ok [OF assms(1)] by (auto simp: af_http_conn_flush_def split: if_splits)

definition sample_conn :: http_conn where
  "sample_conn = \<lparr>hc_open = True,
     hc_outbox = \<lparr>buf_data = Some [1, 2, 3, 4, 5, 6, 0, 0], buf_len = 6, buf_cap = 8, buf_max = 8\<rparr>, hc_out_cursor = 1,
     hc_upstream = True, hc_exchange = True, hc_paused = True, hc_server = True, hc_want_out = False,
     hc_replies = [Wrote 2, WriteFailed AF_E_AGAIN], hc_sent = [1]\<rparr>"

theorem flush_exactly_once_witness:
  "let (st, c') = af_http_conn_flush sample_conn
   in stream_of c' = stream_of sample_conn \<and> prefix (hc_sent sample_conn) (hc_sent c') \<and> conn_wf c' \<and>
    (hc_open sample_conn \<and> st = AF_OK \<longrightarrow> hc_out_cursor c' < AF_HTTP_OUTBOX_COMPACT)"
  unfolding Let_def case_prod_beta
  by (rule flush_exactly_once) (simp_all add: conn_wf_def sample_conn_def buf_wf_def)

definition takes_some :: "write_reply \<Rightarrow> bool" where
  "takes_some r = (case r of Wrote k \<Rightarrow> k \<noteq> 0 | WriteFailed _ \<Rightarrow> False)"

lemma flush_drained_wants [simp]: "hc_server c \<Longrightarrow> \<not> hc_want_out (flush_drained c)"
  by (simp add: flush_drained_def watch_output_def resume_upstream_def af_prov_conn_drained_def)

lemma write_loop_completes:
  "conn_wf c \<Longrightarrow> list_all takes_some rs \<Longrightarrow> length (pending c) \<le> length rs \<Longrightarrow>
   \<exists>c'. write_loop rs c = (AF_OK, c') \<and> pending c' = [] \<and> hc_sent c' = hc_sent c @ pending c \<and>
     (hc_server c \<longrightarrow> \<not> hc_want_out c')"
proof (induction rs c rule: write_loop.induct)
  case (1 c)
  then have "outbox_done c" by (simp add: pending_done)
  with 1 flush_drained_ok [of "c\<lparr>hc_replies := []\<rparr>"] show ?case by simp
next
  case (2 r rs c)
  show ?case
  proof (cases "outbox_done c")
    case True
    with 2 flush_drained_ok [of "c\<lparr>hc_replies := r # rs\<rparr>"] show ?thesis by (simp add: pending_done)
  next
    case False
    obtain n where r: "r = Wrote n" "n \<noteq> 0"
      using "2.prems"(2) by (auto simp: takes_some_def split: write_reply.splits)
    let ?k = "min n (buf_len (hc_outbox c) - hc_out_cursor c)"
    note t = take_written_ok [OF "2.prems"(1), of ?k]
    have "hc_out_cursor c < buf_len (hc_outbox c)" using False by (auto simp: outbox_done_def)
    then have k: "?k \<noteq> 0" using r by (auto simp: min_def)
    then have "unat ?k \<noteq> 0" by (simp add: unat_eq_zero)
    then have "length (pending (take_written ?k c)) \<le> length rs" using t "2.prems"(3) by auto
    from "2.IH" [OF False r(1) refl refl k] t "2.prems"(2) this
    have "\<exists>c'. write_loop rs (take_written ?k c) = (AF_OK, c') \<and> pending c' = [] \<and>
        hc_sent c' = hc_sent (take_written ?k c) @ pending (take_written ?k c) \<and>
        (hc_server (take_written ?k c) \<longrightarrow> \<not> hc_want_out c')" by simp
    with False r k t show ?thesis by (simp add: Let_def) (simp add: take_written_def)
  qed
qed

text \<open>
  A client that reads is served to the last byte: when every write takes at least one byte
  and there are as many writes as pending bytes, the flush succeeds, everything pending has
  been handed to the kernel in order, and the interest in \<open>EPOLLOUT\<close> is dropped.
\<close>

lemma flush_completes:
  assumes "conn_wf c" "hc_open c" "list_all takes_some (hc_replies c)" "length (pending c) \<le> length (hc_replies c)"
  shows "\<exists>c'. af_http_conn_flush c = (AF_OK, c') \<and> pending c' = [] \<and> hc_sent c' = stream_of c \<and>
    (hc_server c \<longrightarrow> \<not> hc_want_out c')"
  using write_loop_completes [OF assms(1,3,4)] assms(2) by (simp add: af_http_conn_flush_def stream_of_def)

lemma flush_completes_witness:
  "let c = sample_conn\<lparr>hc_replies := [Wrote 2, Wrote 1, Wrote 1, Wrote 1, Wrote 1]\<rparr>
   in \<exists>c'. af_http_conn_flush c = (AF_OK, c') \<and> pending c' = [] \<and> hc_sent c' = stream_of c \<and>
    (hc_server c \<longrightarrow> \<not> hc_want_out c')"
  unfolding Let_def
  by (rule flush_completes)
    (simp_all add: conn_wf_def sample_conn_def buf_wf_def takes_some_def pending_def contents_def)

end
