(* ===== verification/Provider_Sse.thy ===== *)
theory Provider_Sse
  imports Http_Outbox
begin

text \<open>
  Server-sent events from a provider, forwarded event by event: \<open>src/providers/provider_sse.asm\<close>
  and, from \<open>src/providers/provider_exchange.asm\<close>, \<open>af_prov_emit_chunk\<close>, \<open>af_prov_append_hex\<close>, the
  streaming half of \<open>af_prov_on_write\<close> and the end of a committed stream. The record keeps the
  fields of the exchange these use; the connection is \<open>None\<close> when the client has gone. The
  allocator is a parameter as in \<open>Buffer\<close>.
\<close>

record sse_exchange =
  sx_conn :: "http_conn option"
  sx_carry :: af_buffer
  sx_sse_limit :: u64
  sx_events :: u64
  sx_overflow :: bool
  sx_active :: bool
  sx_head_sent :: bool
  sx_body_bytes :: u64
  sx_response :: af_buffer

section \<open>Event boundaries\<close>

function scan_at :: "u8 list \<Rightarrow> nat \<Rightarrow> nat \<Rightarrow> nat" where
  "scan_at p i line_start =
     (if length p \<le> i then 0
      else if p ! i = 13 then
        if length p \<le> i + 1 then 0
        else
          let w = (if p ! (i + 1) \<noteq> 10 then 1 else 2)
          in if i = line_start then i + w else scan_at p (i + w) (i + w)
      else if p ! i = 10 then
        if i = line_start then i + 1 else scan_at p (i + 1) (i + 1)
      else scan_at p (i + 1) line_start)"
  by pat_completeness auto
termination by (relation "measure (\<lambda>(p, i, l). length p - i)") auto

definition af_prov_sse_scan :: "u8 list \<Rightarrow> nat" where
  "af_prov_sse_scan p = scan_at p 0 0"

section \<open>Chunks\<close>

definition hex_digits :: "u8 list" where
  "hex_digits = [48, 49, 50, 51, 52, 53, 54, 55, 56, 57, 97, 98, 99, 100, 101, 102]"

text \<open>The digits, least significant first.\<close>

function hex_loop :: "u64 \<Rightarrow> u8 list" where
  "hex_loop v = (if v = 0 then [] else hex_digits ! unat (v AND 15) # hex_loop (drop_bit 4 v))"
  by pat_completeness auto
termination
proof (relation "measure unat")
  fix v :: u64
  assume "v \<noteq> 0"
  then have "unat v \<noteq> 0" by (simp add: unat_eq_zero)
  then show "(drop_bit 4 v, v) \<in> measure unat" by (simp add: drop_bit_eq_div unat_div)
qed simp

declare scan_at.simps [simp del] hex_loop.simps [simp del]

definition af_prov_append_hex :: "allocator \<Rightarrow> af_buffer \<Rightarrow> u64 \<Rightarrow> af_status option \<times> af_buffer" where
  "af_prov_append_hex ra b v =
     append_bytes ra b (rev (if v = 0 then [48] else hex_loop v))"

definition s_crlf :: "u8 list" where "s_crlf = [13, 10]"

definition chunk_to_outbox :: "allocator \<Rightarrow> af_buffer \<Rightarrow> u8 list \<Rightarrow> u64 \<Rightarrow> af_status option \<times> af_buffer" where
  "chunk_to_outbox ra b p n =
     (case af_prov_append_hex ra b n of
        (Some e, b) \<Rightarrow> (Some e, b)
      | (None, b) \<Rightarrow>
          (case af_buf_append_cstr ra b (Some s_crlf) of
             (Some e, b) \<Rightarrow> (Some e, b)
           | (None, b) \<Rightarrow>
               (case af_buf_append ra b (Some p) n of
                  (Some e, b) \<Rightarrow> (Some e, b)
                | (None, b) \<Rightarrow> af_buf_append_cstr ra b (Some s_crlf))))"

text \<open>The status of the flush is not looked at.\<close>

definition af_prov_emit_chunk ::
  "allocator \<Rightarrow> sse_exchange \<Rightarrow> u8 list \<Rightarrow> u64 \<Rightarrow> af_status option \<times> sse_exchange" where
  "af_prov_emit_chunk ra x p n =
     (if n = 0 then (AF_OK, x)
      else case sx_conn x of
        None \<Rightarrow> (Some AF_E_UP_CANCELLED, x)
      | Some c \<Rightarrow>
          (case chunk_to_outbox ra (hc_outbox c) p n of
             (Some e, b) \<Rightarrow> (Some e, x\<lparr>sx_conn := Some (c\<lparr>hc_outbox := b\<rparr>)\<rparr>)
           | (None, b) \<Rightarrow> (AF_OK, x\<lparr>sx_conn := Some (snd (af_http_conn_flush (c\<lparr>hc_outbox := b\<rparr>)))\<rparr>)))"

section \<open>Feeding\<close>

lemma emit_chunk_fields [simp]:
  "sx_carry (snd (af_prov_emit_chunk ra x p n)) = sx_carry x"
  "sx_sse_limit (snd (af_prov_emit_chunk ra x p n)) = sx_sse_limit x"
  "sx_events (snd (af_prov_emit_chunk ra x p n)) = sx_events x"
  "sx_overflow (snd (af_prov_emit_chunk ra x p n)) = sx_overflow x"
  by (auto simp: af_prov_emit_chunk_def split: option.splits prod.splits)

lemma scan_at_bound: "i \<le> length p \<Longrightarrow> scan_at p i l \<le> length p"
proof (induction p i l rule: scan_at.induct)
  case (1 p i l)
  show ?case
    by (subst scan_at.simps) (use 1 in \<open>auto simp: Let_def\<close>)
qed

lemma scan_bound: "af_prov_sse_scan p \<le> length p"
  by (simp add: af_prov_sse_scan_def scan_at_bound)

lemma consume_shrinks:
  "af_buf_consume b n = (None, b') \<Longrightarrow> n \<noteq> 0 \<Longrightarrow> unat (buf_len b') < unat (buf_len b)"
proof -
  assume c: "af_buf_consume b n = (None, b')" and n: "n \<noteq> 0"
  then have "n \<le> buf_len b" and l: "buf_len b' = buf_len b - n"
    by (auto simp: af_buf_consume_def split: if_splits)
  moreover have "unat n \<noteq> 0" using n by (simp add: unat_eq_zero)
  ultimately show ?thesis by (simp add: unat_sub word_le_nat_alt)
qed

text \<open>The loop over the carry buffer: it ends because each round consumes at least one byte.\<close>

definition too_large :: "sse_exchange \<Rightarrow> af_status option \<times> sse_exchange" where
  "too_large x = (Some AF_E_LIMIT, x\<lparr>sx_overflow := True\<rparr>)"

function sse_drain :: "allocator \<Rightarrow> sse_exchange \<Rightarrow> af_status option \<times> sse_exchange" where
  "sse_drain ra x =
     (if buf_data (sx_carry x) = None \<or> buf_len (sx_carry x) = 0 then (AF_OK, x)
      else
        let k = of_nat (af_prov_sse_scan (contents (sx_carry x)))
        in if k = 0 then
             (if sx_sse_limit x \<noteq> 0 \<and> sx_sse_limit x < buf_len (sx_carry x) then too_large x else (AF_OK, x))
           else if sx_sse_limit x \<noteq> 0 \<and> sx_sse_limit x < k then too_large x
           else
             case af_prov_emit_chunk ra x (take (unat k) (contents (sx_carry x))) k of
               (Some e, y) \<Rightarrow> (Some e, y)
             | (None, y) \<Rightarrow>
                 (case af_buf_consume (sx_carry y) k of
                    (Some e, b) \<Rightarrow> (Some e, y\<lparr>sx_events := sx_events y + 1, sx_carry := b\<rparr>)
                  | (None, b) \<Rightarrow> sse_drain ra (y\<lparr>sx_events := sx_events y + 1, sx_carry := b\<rparr>)))"
  by pat_completeness auto
termination
proof (relation "measure (\<lambda>(ra, x). unat (buf_len (sx_carry x)))", goal_cases)
  case (2 ra x k q y r b)
  then have "sx_carry y = sx_carry x" using emit_chunk_fields(1) [of ra x _ k] by (metis snd_conv)
  with 2 have "af_buf_consume (sx_carry x) k = (None, b)" "k \<noteq> 0" by simp_all
  then show ?case by (simp add: consume_shrinks)
qed simp

declare sse_drain.simps [simp del]

definition af_prov_sse_feed :: "allocator \<Rightarrow> sse_exchange \<Rightarrow> u8 list \<Rightarrow> af_status option \<times> sse_exchange" where
  "af_prov_sse_feed ra x bytes =
     (if bytes = [] then (AF_OK, x)
      else case af_buf_append ra (sx_carry x) (Some bytes) (of_nat (length bytes)) of
        (Some e, b) \<Rightarrow> (Some e, x\<lparr>sx_carry := b\<rparr>)
      | (None, b) \<Rightarrow> sse_drain ra (x\<lparr>sx_carry := b\<rparr>))"

definition af_prov_sse_finish :: "allocator \<Rightarrow> sse_exchange \<Rightarrow> af_status option \<times> sse_exchange" where
  "af_prov_sse_finish ra x =
     (if sx_overflow x then (AF_OK, x\<lparr>sx_carry := af_buf_clear (sx_carry x)\<rparr>)
      else if buf_len (sx_carry x) = 0 then (AF_OK, x)
      else if buf_data (sx_carry x) = None then (AF_OK, x)
      else case af_prov_emit_chunk ra x (contents (sx_carry x)) (buf_len (sx_carry x)) of
        (Some e, y) \<Rightarrow> (Some e, y)
      | (None, y) \<Rightarrow> (AF_OK, y\<lparr>sx_events := sx_events y + 1, sx_carry := af_buf_clear (sx_carry y)\<rparr>))"

definition af_prov_sse_events :: "sse_exchange option \<Rightarrow> u64" where
  "af_prov_sse_events x = (case x of None \<Rightarrow> 0 | Some x \<Rightarrow> sx_events x)"

section \<open>The write callback and the end of the stream\<close>

datatype write_answer = Consumed nat | TakePause | TakeAbort

definition af_prov_on_write :: "allocator \<Rightarrow> sse_exchange \<Rightarrow> u8 list \<Rightarrow> write_answer \<times> sse_exchange" where
  "af_prov_on_write ra x bytes =
     (if \<not> sx_active x then (TakeAbort, x)
      else case sx_conn x of
        None \<Rightarrow> (TakeAbort, x)
      | Some c \<Rightarrow>
          if sx_head_sent x \<and> \<not> sub_carry (buf_len (hc_outbox c)) (hc_out_cursor c) \<and>
             AF_PROV_PAUSE_HIGH \<le> buf_len (hc_outbox c) - hc_out_cursor c
          then (TakePause, x\<lparr>sx_conn := Some (c\<lparr>hc_paused := True\<rparr>)\<rparr>)
          else
            let x = x\<lparr>sx_body_bytes := sx_body_bytes x + of_nat (length bytes)\<rparr>
            in if sx_head_sent x then
                 (case af_prov_sse_feed ra x bytes of
                    (Some e, x) \<Rightarrow> (TakeAbort, x)
                  | (None, x) \<Rightarrow> (Consumed (length bytes), x))
               else
                 (case af_buf_append ra (sx_response x) (Some bytes) (of_nat (length bytes)) of
                    (Some e, b) \<Rightarrow> (TakeAbort, x\<lparr>sx_response := b, sx_overflow := True\<rparr>)
                  | (None, b) \<Rightarrow> (Consumed (length bytes), x\<lparr>sx_response := b\<rparr>)))"

definition s_last_chunk :: "u8 list" where "s_last_chunk = [48, 13, 10, 13, 10]"

text \<open>What follows \<open>.finish_stream\<close>: the statuses of the three calls are not looked at.\<close>

definition finish_stream :: "allocator \<Rightarrow> sse_exchange \<Rightarrow> sse_exchange" where
  "finish_stream ra x =
     (let y = snd (af_prov_sse_finish ra x)
      in case sx_conn y of
           None \<Rightarrow> y
         | Some c \<Rightarrow>
             let b = snd (af_buf_append_cstr ra (hc_outbox c) (Some s_last_chunk))
             in y\<lparr>sx_conn := Some (snd (af_http_conn_flush (c\<lparr>hc_outbox := b\<rparr>)))\<rparr>)"

section \<open>Where an event ends\<close>

text \<open>
  An empty line of \<open>p\<close> begins at \<open>i\<close>: a terminator begins there whose width is decided (a carriage
  return at the very end is not, and a line feed after a carriage return is the second half of
  one), and the byte before, if any, ends a line.
\<close>

definition empty_line :: "u8 list \<Rightarrow> nat \<Rightarrow> bool" where
  "empty_line p i \<longleftrightarrow> i < length p \<and>
     (p ! i = 10 \<and> \<not> (0 < i \<and> p ! (i - 1) = 13) \<or> p ! i = 13 \<and> i + 1 < length p) \<and>
     (i = 0 \<or> p ! (i - 1) = 10 \<or> p ! (i - 1) = 13)"

definition eol_width :: "u8 list \<Rightarrow> nat \<Rightarrow> nat" where
  "eol_width p i = (if p ! i = 13 \<and> i + 1 < length p \<and> p ! (i + 1) = 10 then 2 else 1)"

definition scan_state :: "u8 list \<Rightarrow> nat \<Rightarrow> nat \<Rightarrow> bool" where
  "scan_state p i l \<longleftrightarrow> l \<le> i \<and> (\<forall>j. l \<le> j \<and> j < i \<longrightarrow> p ! j \<noteq> 10 \<and> p ! j \<noteq> 13) \<and>
     (l = 0 \<or> p ! (l - 1) = 10 \<or> p ! (l - 1) = 13) \<and>
     \<not> (0 < i \<and> p ! i = 10 \<and> p ! (i - 1) = 13) \<and> (\<forall>j<i. \<not> empty_line p j)"

definition scan_result :: "u8 list \<Rightarrow> nat \<Rightarrow> bool" where
  "scan_result p k \<longleftrightarrow>
     k = 0 \<and> (\<forall>j. \<not> empty_line p j) \<or>
     (\<exists>j. empty_line p j \<and> (\<forall>m<j. \<not> empty_line p m) \<and> k = j + eol_width p j)"

lemma empty_line_at_start:
  "scan_state p i l \<Longrightarrow> empty_line p i \<longleftrightarrow>
   i < length p \<and> (p ! i = 10 \<or> p ! i = 13 \<and> i + 1 < length p) \<and> i = l"
proof -
  assume s: "scan_state p i l"
  have "i = 0 \<or> p ! (i - 1) = 10 \<or> p ! (i - 1) = 13 \<longleftrightarrow> i = l"
  proof (cases "i = l")
    case False
    with s have "l \<le> i - 1" "i - 1 < i" by (auto simp: scan_state_def)
    with s False show ?thesis by (auto simp: scan_state_def)
  qed (use s in \<open>auto simp: scan_state_def\<close>)
  with s show ?thesis by (auto simp: empty_line_def scan_state_def)
qed

lemma scan_state_plain:
  "scan_state p i l \<Longrightarrow> i < length p \<Longrightarrow> p ! i \<noteq> 10 \<Longrightarrow> p ! i \<noteq> 13 \<Longrightarrow> scan_state p (i + 1) l"
  using empty_line_at_start [of p i l] by (auto simp: scan_state_def less_Suc_eq)

lemma scan_state_line:
  assumes "scan_state p i l" "i \<noteq> l" "i < length p"
    "p ! i = 10 \<and> w = 1 \<or> p ! i = 13 \<and> i + 1 < length p \<and> w = eol_width p i"
  shows "scan_state p (i + w) (i + w)"
proof -
  have "\<not> empty_line p i" using assms empty_line_at_start by blast
  moreover have "\<not> empty_line p (i + 1)" if "w = 2"
    using assms(4) that by (auto simp: empty_line_def eol_width_def split: if_splits)
  moreover have "w = 1 \<or> w = 2" using assms(4) by (auto simp: eol_width_def)
  ultimately have "\<forall>j<i + w. \<not> empty_line p j"
    using assms(1) by (auto simp: scan_state_def less_Suc_eq numeral_2_eq_2)
  then show ?thesis using assms(4) by (auto simp: scan_state_def eol_width_def split: if_splits)
qed

lemma scan_at_result: "scan_state p i l \<Longrightarrow> scan_result p (scan_at p i l)"
proof (induction p i l rule: scan_at.induct)
  case (1 p i l)
  note start = empty_line_at_start [OF "1.prems"]
  have none: "scan_result p 0" if "\<not> empty_line p i" "length p \<le> i + 1"
  proof -
    have "\<not> empty_line p j" for j
      using that "1.prems" by (cases "j < i"; cases "j = i") (auto simp: scan_state_def empty_line_def)
    then show ?thesis by (simp add: scan_result_def)
  qed
  have hit: "scan_result p (i + eol_width p i)" if "empty_line p i"
    using that "1.prems" by (auto simp: scan_result_def scan_state_def)
  consider (out) "length p \<le> i" | (cr) "i < length p" "p ! i = 13" | (lf) "i < length p" "p ! i = 10"
    | (plain) "i < length p" "p ! i \<noteq> 13" "p ! i \<noteq> 10" by linarith
  then show ?case
  proof cases
    case out
    then show ?thesis using none by (simp add: scan_at.simps empty_line_def)
  next
    case cr
    show ?thesis
    proof (cases "length p \<le> i + 1")
      case True
      with cr start none show ?thesis by (simp add: scan_at.simps)
    next
      case False
      with cr start hit 1 scan_state_line [OF "1.prems", of "eol_width p i"] show ?thesis
        by (subst scan_at.simps) (auto simp: Let_def eol_width_def)
    qed
  next
    case lf
    with start hit 1 scan_state_line [OF "1.prems", of 1] show ?thesis
      by (subst scan_at.simps) (auto simp: eol_width_def)
  next
    case plain
    with 1 scan_state_plain [OF "1.prems"] show ?thesis by (subst scan_at.simps) auto
  qed
qed

text \<open>
  C29: The scanner finds the first complete event and nothing else: it returns 0 exactly when no
  empty line has been completed, with a carriage return at the very end of the data left
  undecided, and otherwise the position just behind the first empty line, whose terminator may be
  a line feed, a carriage return or the two together.
\<close>

theorem sse_scan_first_empty_line:
  "(af_prov_sse_scan p = 0 \<longleftrightarrow> (\<forall>j. \<not> empty_line p j)) \<and>
   (\<forall>j. empty_line p j \<and> (\<forall>m<j. \<not> empty_line p m) \<longrightarrow> af_prov_sse_scan p = j + eol_width p j)"
proof -
  have "scan_result p (af_prov_sse_scan p)"
    unfolding af_prov_sse_scan_def by (rule scan_at_result) (simp add: scan_state_def)
  moreover have "eol_width p j \<noteq> 0" for j by (simp add: eol_width_def)
  ultimately show ?thesis unfolding scan_result_def by (metis add_eq_0_iff_both_eq_0 linorder_neqE_nat)
qed

theorem sse_scan_first_empty_line_witness:
  "af_prov_sse_scan [100, 13, 10, 13, 10, 100] = 3 + eol_width [100, 13, 10, 13, 10, 100] 3"
proof -
  have "empty_line [100, 13, 10, 13, 10, 100] 3" by code_simp
  moreover have "list_all (\<lambda>m. \<not> empty_line [100, 13, 10, 13, 10, 100] m) [0..<3]" by code_simp
  ultimately show ?thesis
    using sse_scan_first_empty_line [of "[100, 13, 10, 13, 10, 100]"] by (simp add: list_all_iff)
qed

section \<open>Splitting the input into events\<close>

lemma scan_at_append: "scan_at p i l \<noteq> 0 \<Longrightarrow> scan_at (p @ q) i l = scan_at p i l"
proof (induction p i l rule: scan_at.induct)
  case (1 p i l)
  from "1.prems" have i: "i < length p" by (subst (asm) scan_at.simps) (auto split: if_splits)
  show ?case
  proof (cases "p ! i = 13")
    case True
    with "1.prems" have "i + 1 < length p" by (subst (asm) scan_at.simps) (auto split: if_splits)
    with i True 1 show ?thesis
      by (subst (1 2) scan_at.simps) (auto simp: nth_append Let_def scan_at.simps [of p i l] split: if_splits)
  next
    case False
    with i 1 show ?thesis
      by (subst (1 2) scan_at.simps) (auto simp: nth_append scan_at.simps [of p i l] split: if_splits)
  qed
qed

lemma scan_append: "af_prov_sse_scan p \<noteq> 0 \<Longrightarrow> af_prov_sse_scan (p @ q) = af_prov_sse_scan p"
  by (simp add: af_prov_sse_scan_def scan_at_append)

lemma scan_Nil [simp]: "af_prov_sse_scan [] = 0"
  by (simp add: af_prov_sse_scan_def scan_at.simps)

lemma scan_pos: "0 < af_prov_sse_scan s \<Longrightarrow> 0 < length s"
  by (cases s) simp_all

lemma scan_at_gt: "scan_at p i l \<noteq> 0 \<Longrightarrow> i < scan_at p i l"
proof (induction p i l rule: scan_at.induct)
  case (1 p i l)
  from "1.prems" show ?case
    by (subst scan_at.simps, subst (asm) scan_at.simps)
      (use "1.IH" in \<open>auto simp: Let_def split: if_splits intro: less_trans [OF _ less_trans, of _ "i + 1"] dest: order.strict_trans1 [rotated]\<close>)
qed

text \<open>An event that is not over when the bytes end reaches at least to their end.\<close>

lemma scan_at_beyond:
  "scan_at p i l = 0 \<Longrightarrow> i \<le> length p \<Longrightarrow> scan_at (p @ q) i l \<noteq> 0 \<Longrightarrow> length p \<le> scan_at (p @ q) i l"
proof (induction p i l rule: scan_at.induct)
  case (1 p i l)
  have gt: "i < scan_at (p @ q) i l" using scan_at_gt "1.prems"(3) by blast
  consider "length p \<le> i + 1" | (cr) "i + 1 < length p" "p ! i = 13" | (lf) "i + 1 < length p" "p ! i = 10"
    | (plain) "i + 1 < length p" "p ! i \<noteq> 13" "p ! i \<noteq> 10" by linarith
  then show ?case
  proof cases
    case 1
    with gt show ?thesis by simp
  next
    case cr
    let ?w = "if p ! (i + 1) \<noteq> 10 then 1 else 2 :: nat"
    have e: "scan_at p i l = (if i = l then i + ?w else scan_at p (i + ?w) (i + ?w))"
      "scan_at (p @ q) i l = (if i = l then i + ?w else scan_at (p @ q) (i + ?w) (i + ?w))"
      using cr by (subst scan_at.simps; simp add: nth_append Let_def)+
    then have "i \<noteq> l" using "1.prems"(1) by (auto split: if_splits)
    with e "1.prems" "1.IH"(1) [OF _ cr(2) _ refl] cr show ?thesis by (auto split: if_splits)
  next
    case lf
    have e: "scan_at p i l = (if i = l then i + 1 else scan_at p (i + 1) (i + 1))"
      "scan_at (p @ q) i l = (if i = l then i + 1 else scan_at (p @ q) (i + 1) (i + 1))"
      using lf by (subst scan_at.simps; simp add: nth_append)+
    then have "i \<noteq> l" using "1.prems"(1) by auto
    with e "1.prems" "1.IH"(2) lf show ?thesis by auto
  next
    case plain
    have "scan_at p i l = scan_at p (i + 1) l" "scan_at (p @ q) i l = scan_at (p @ q) (i + 1) l"
      using plain by (subst scan_at.simps; simp add: nth_append)+
    with "1.prems" "1.IH"(3) plain show ?thesis by auto
  qed
qed

lemma scan_beyond: "af_prov_sse_scan a = 0 \<Longrightarrow> af_prov_sse_scan (a @ b) \<noteq> 0 \<Longrightarrow> length a \<le> af_prov_sse_scan (a @ b)"
  by (simp add: af_prov_sse_scan_def scan_at_beyond)

text \<open>The complete events of a stretch of input and what is left.\<close>

function sse_split :: "u8 list \<Rightarrow> u8 list list \<times> u8 list" where
  "sse_split s =
     (let k = af_prov_sse_scan s
      in if k = 0 then ([], s)
         else (take k s # fst (sse_split (drop k s)), snd (sse_split (drop k s))))"
  by pat_completeness auto
termination
  by (relation "measure length") (auto intro!: diff_less dest: scan_pos)

declare sse_split.simps [simp del]

lemma split_none: "af_prov_sse_scan s = 0 \<Longrightarrow> sse_split s = ([], s)"
  by (subst sse_split.simps) simp

lemma split_some:
  "af_prov_sse_scan s = k \<Longrightarrow> k \<noteq> 0 \<Longrightarrow>
   sse_split s = (take k s # fst (sse_split (drop k s)), snd (sse_split (drop k s)))"
  by (subst sse_split.simps) simp

lemma split_append:
  "sse_split (a @ b) = (fst (sse_split a) @ fst (sse_split (snd (sse_split a) @ b)), snd (sse_split (snd (sse_split a) @ b)))"
proof (induction a rule: sse_split.induct)
  case (1 a)
  show ?case
  proof (cases "af_prov_sse_scan a = 0")
    case True
    then show ?thesis by (simp add: split_none)
  next
    case False
    let ?k = "af_prov_sse_scan a"
    have "sse_split (a @ b) = (take ?k a # fst (sse_split (drop ?k a @ b)), snd (sse_split (drop ?k a @ b)))"
      using split_some [OF scan_append [OF False, of b] False] scan_bound [of a] by simp
    with 1 False split_some [OF refl False] show ?thesis by simp
  qed
qed

lemma split_concat: "concat (fst (sse_split s)) @ snd (sse_split s) = s"
proof (induction s rule: sse_split.induct)
  case (1 s)
  then show ?case by (cases "af_prov_sse_scan s = 0") (simp_all add: split_none split_some [OF refl])
qed

lemma split_rest: "af_prov_sse_scan (snd (sse_split s)) = 0"
proof (induction s rule: sse_split.induct)
  case (1 s)
  then show ?case by (cases "af_prov_sse_scan s = 0") (simp_all add: split_none split_some [OF refl])
qed

lemma split_nonempty: "list_all (\<lambda>e. e \<noteq> []) (fst (sse_split s))"
proof (induction s rule: sse_split.induct)
  case (1 s)
  then show ?case using scan_bound [of s]
    by (cases "af_prov_sse_scan s = 0") (auto simp: split_none split_some [OF refl])
qed

section \<open>Writing a chunk\<close>

definition hex_text :: "u64 \<Rightarrow> u8 list" where
  "hex_text v = rev (if v = 0 then [48] else hex_loop v)"

definition chunk_pieces :: "u8 list \<Rightarrow> u8 list list" where
  "chunk_pieces e = map (\<lambda>c. [c]) (hex_text (of_nat (length e))) @ [s_crlf, e, s_crlf]"

definition chunk :: "u8 list \<Rightarrow> u8 list" where
  "chunk e = hex_text (of_nat (length e)) @ s_crlf @ e @ s_crlf"

lemma concat_singles: "concat (map (\<lambda>c. [c]) xs) = xs"
  by (induction xs) simp_all

lemma concat_chunk_pieces: "concat (chunk_pieces e) = chunk e"
  by (simp add: chunk_pieces_def chunk_def concat_singles)

lemma short_chunk_pieces: "length e < 2 ^ 64 \<Longrightarrow> list_all (\<lambda>p. length p < 2 ^ 64) (chunk_pieces e)"
  by (simp add: chunk_pieces_def s_crlf_def list_all_iff)

lemma crlf_put: "af_buf_append_cstr ra b (Some s_crlf) = buf_put ra b s_crlf"
  by (simp add: append_cstr_append s_crlf_def buf_put_def)

lemma chunk_to_outbox_put_all:
  assumes "buf_good ra m b"
  shows "chunk_to_outbox ra b p (of_nat (length p)) = put_all (buf_put ra) b (chunk_pieces p)"
  using append_bytes_put_all [OF assms, of "hex_text (of_nat (length p))"]
  by (simp add: chunk_to_outbox_def chunk_pieces_def put_all_append af_prov_append_hex_def hex_text_def [symmetric]
      crlf_put buf_put_def [of ra _ p] split: prod.splits option.splits)

lemma append_pending:
  assumes "conn_wf c" "buf_wf b" "contents b = contents (hc_outbox c) @ ys"
  shows "conn_wf (c\<lparr>hc_outbox := b\<rparr>) \<and> stream_of (c\<lparr>hc_outbox := b\<rparr>) = stream_of c @ ys"
proof -
  have l: "unat (hc_out_cursor c) \<le> length (contents (hc_outbox c))"
    using assms(1) by (simp add: conn_wf_def contents_wf word_le_nat_alt)
  have "length (contents (hc_outbox c)) \<le> unat (buf_len b)"
    using contents_wf [OF assms(2)] assms(3) by (metis le_add1 length_append)
  with l assms show ?thesis
    by (simp add: conn_wf_def word_le_nat_alt stream_of_def pending_def)
qed

lemma flush_ok:
  assumes "conn_wf c"
  shows "conn_wf (snd (af_http_conn_flush c)) \<and> stream_of (snd (af_http_conn_flush c)) = stream_of c \<and>
    buf_max (hc_outbox (snd (af_http_conn_flush c))) = buf_max (hc_outbox c)"
  using write_loop_ok [OF assms, of "hc_replies c"] assms
  by (cases "write_loop (hc_replies c) c") (auto simp: af_http_conn_flush_def)

lemma emit_ok:
  assumes "af_prov_emit_chunk ra x p (of_nat (length p)) = (None, x')" "realloc_law ra"
    "sx_conn x = Some c" "conn_wf c" "p \<noteq> []" "length p < 2 ^ 64"
  shows "\<exists>c'. sx_conn x' = Some c' \<and> conn_wf c' \<and> stream_of c' = stream_of c @ chunk p"
proof -
  let ?m = "buf_max (hc_outbox c)"
  have good: "buf_good ra ?m (hc_outbox c)" using assms by (simp add: buf_good_def conn_wf_def)
  have "of_nat (length p) \<noteq> (0 :: u64)" using unat_of_length [OF assms(6)] assms(5) by auto
  then obtain b where b: "put_all (buf_put ra) (hc_outbox c) (chunk_pieces p) = (None, b)"
    and x': "sx_conn x' = Some (snd (af_http_conn_flush (c\<lparr>hc_outbox := b\<rparr>)))"
    using assms(1,3) chunk_to_outbox_put_all [OF good]
    by (auto simp: af_prov_emit_chunk_def split: prod.splits option.splits)
  from outbox.put_all_ok [OF good short_chunk_pieces [OF assms(6)] b]
  have "buf_wf b" "contents b = contents (hc_outbox c) @ chunk p"
    by (simp_all add: concat_chunk_pieces buf_good_def)
  from flush_ok [of "c\<lparr>hc_outbox := b\<rparr>"] append_pending [OF assms(4) this] x' show ?thesis by simp
qed

lemma emit_fail:
  assumes "af_prov_emit_chunk ra x p (of_nat (length p)) = (Some e, x')" "realloc_law ra"
    "sx_conn x = Some c" "conn_wf c" "length p < 2 ^ 64"
  shows "\<exists>c' k. sx_conn x' = Some c' \<and> conn_wf c' \<and> k < length (chunk_pieces p) \<and>
    stream_of c' = stream_of c @ concat (take k (chunk_pieces p))"
proof -
  let ?m = "buf_max (hc_outbox c)"
  have good: "buf_good ra ?m (hc_outbox c)" using assms by (simp add: buf_good_def conn_wf_def)
  obtain b e' where b: "put_all (buf_put ra) (hc_outbox c) (chunk_pieces p) = (Some e', b)"
    and x': "sx_conn x' = Some (c\<lparr>hc_outbox := b\<rparr>)"
    using assms(1,3) chunk_to_outbox_put_all [OF good]
    by (auto simp: af_prov_emit_chunk_def split: if_splits prod.splits option.splits)
  from outbox.put_all_fail [OF good short_chunk_pieces [OF assms(5)] b]
  obtain k where "buf_wf b" "k < length (chunk_pieces p)"
    "contents b = contents (hc_outbox c) @ concat (take k (chunk_pieces p))"
    by (auto simp: buf_good_def)
  with append_pending [OF assms(4), of b] x' show ?thesis by auto
qed

lemma emit_no_conn: "sx_conn x = None \<Longrightarrow> n \<noteq> 0 \<Longrightarrow> af_prov_emit_chunk ra x p n = (Some AF_E_UP_CANCELLED, x)"
  by (simp add: af_prov_emit_chunk_def)

section \<open>What a feed forwards\<close>

definition sse_wf :: "sse_exchange \<Rightarrow> bool" where
  "sse_wf x \<longleftrightarrow> buf_wf (sx_carry x) \<and> (case sx_conn x of None \<Rightarrow> True | Some c \<Rightarrow> conn_wf c)"

definition sse_stream :: "sse_exchange \<Rightarrow> u8 list" where
  "sse_stream x = (case sx_conn x of None \<Rightarrow> [] | Some c \<Rightarrow> stream_of c)"

text \<open>A number of bytes is within the limit of an event; a limit of 0 is none.\<close>

definition within_limit :: "sse_exchange \<Rightarrow> u8 list \<Rightarrow> bool" where
  "within_limit x e \<longleftrightarrow> sx_sse_limit x = 0 \<or> length e \<le> unat (sx_sse_limit x)"

lemma within_limit_eq: "sx_sse_limit y = sx_sse_limit x \<Longrightarrow> within_limit y = within_limit x"
  by (rule ext) (simp add: within_limit_def)

text \<open>What the loop has done between two states: \<open>es\<close> are the events it has forwarded.\<close>

definition forwarded :: "sse_exchange \<Rightarrow> u8 list list \<Rightarrow> sse_exchange \<Rightarrow> bool" where
  "forwarded x es y \<longleftrightarrow> sse_wf y \<and> sse_stream y = sse_stream x @ concat (map chunk es) \<and>
     sx_events y = sx_events x + of_nat (length es) \<and>
     sx_sse_limit y = sx_sse_limit x \<and> (sx_conn y = None \<longleftrightarrow> sx_conn x = None) \<and>
     list_all (within_limit x) es \<and> list_all (\<lambda>e. length e < 2 ^ 64) es"

lemma forwarded_Nil: "sse_wf x \<Longrightarrow> forwarded x [] x"
  by (simp add: forwarded_def)

lemma forwarded_trans: "forwarded x es y \<Longrightarrow> forwarded y fs z \<Longrightarrow> forwarded x (es @ fs) z"
  by (auto simp: forwarded_def within_limit_def list_all_iff)

lemma forwarded_overflow [simp]: "forwarded x es (y\<lparr>sx_overflow := b\<rparr>) = forwarded x es y"
  by (simp add: forwarded_def sse_wf_def sse_stream_def)

lemma scan_word:
  assumes "buf_wf b"
  shows "unat (of_nat (af_prov_sse_scan (contents b)) :: u64) = af_prov_sse_scan (contents b)"
proof -
  have "af_prov_sse_scan (contents b) < 2 ^ 64"
    using scan_bound [of "contents b"] contents_wf [OF assms] unat_u64_bound [of "buf_len b"] by simp
  then show ?thesis by (simp add: unat_of_nat)
qed

lemma carry_empty:
  assumes "buf_wf b" shows "buf_data b = None \<or> buf_len b = 0 \<longleftrightarrow> contents b = []"
proof (cases "buf_data b")
  case None
  then show ?thesis by (simp add: contents_def)
next
  case (Some d)
  then show ?thesis using contents_wf [OF assms] by (auto simp: unat_eq_zero simp flip: length_0_conv)
qed

text \<open>One round of the loop that forwards an event.\<close>

lemma drain_round:
  assumes "sse_wf x" "realloc_law ra" "af_prov_sse_scan (contents (sx_carry x)) = k" "k \<noteq> 0"
    "\<not> (sx_sse_limit x \<noteq> 0 \<and> sx_sse_limit x < of_nat k)"
    "af_prov_emit_chunk ra x (take k (contents (sx_carry x))) (of_nat k) = (None, y)"
    "af_buf_consume (sx_carry y) (of_nat k) = (None, b)"
  shows "forwarded x [take k (contents (sx_carry x))] (y\<lparr>sx_events := sx_events y + 1, sx_carry := b\<rparr>) \<and>
    contents b = drop k (contents (sx_carry x)) \<and> sx_overflow y = sx_overflow x"
proof -
  let ?e = "take k (contents (sx_carry x))"
  have wf: "buf_wf (sx_carry x)" using assms(1) by (simp add: sse_wf_def)
  have k: "unat (of_nat k :: u64) = k" using scan_word [OF wf] assms(3) by simp
  have le: "k \<le> length (contents (sx_carry x))" using scan_bound assms(3) by blast
  then have e: "length ?e = k" "?e \<noteq> []" using assms(4) by auto
  have short: "length ?e < 2 ^ 64" using k unat_u64_bound [of "of_nat k"] e by simp
  have y: "sx_carry y = sx_carry x" "sx_sse_limit y = sx_sse_limit x" "sx_events y = sx_events x"
    "sx_overflow y = sx_overflow x"
    using emit_chunk_fields [of ra x ?e "of_nat k"] assms(6) by simp_all
  have nz: "of_nat k \<noteq> (0 :: u64)" using k assms(4) by auto
  obtain c where c: "sx_conn x = Some c" "conn_wf c"
    using assms(1,6) emit_no_conn [OF _ nz] by (cases "sx_conn x") (auto simp: sse_wf_def)
  obtain c' where c': "sx_conn y = Some c'" "conn_wf c'" "stream_of c' = stream_of c @ chunk ?e"
    using emit_ok [of ra x ?e y c] assms(2,6) c e short by auto
  have b: "buf_wf b" "contents b = drop k (contents (sx_carry x))"
    using consume_ok [OF wf, of "of_nat k" b] assms(7) y(1) k by auto
  have lim: "within_limit x ?e"
    using assms(5) k e by (auto simp: within_limit_def word_less_nat_alt)
  show ?thesis
    using c c' b y lim short
    by (simp add: forwarded_def sse_wf_def sse_stream_def)
qed

lemma drain_ok:
  "sse_wf x \<Longrightarrow> realloc_law ra \<Longrightarrow> sse_drain ra x = (None, x') \<Longrightarrow>
   forwarded x (fst (sse_split (contents (sx_carry x)))) x' \<and>
   contents (sx_carry x') = snd (sse_split (contents (sx_carry x))) \<and>
   within_limit x (contents (sx_carry x')) \<and> sx_overflow x' = sx_overflow x"
proof (induction ra x rule: sse_drain.induct)
  case (1 ra x)
  let ?s = "contents (sx_carry x)" and ?k = "af_prov_sse_scan (contents (sx_carry x))"
  have wf: "buf_wf (sx_carry x)" using "1.prems"(1) by (simp add: sse_wf_def)
  note kw = scan_word [OF wf]
  show ?case
  proof (cases "?s = []")
    case True
    with "1.prems" show ?thesis
      by (auto simp: sse_drain.simps [of ra x] carry_empty [OF wf] split_none forwarded_Nil within_limit_def)
  next
    case ne: False
    show ?thesis
    proof (cases "?k = 0")
      case True
      with "1.prems" ne have "x' = x" "\<not> (sx_sse_limit x \<noteq> 0 \<and> sx_sse_limit x < buf_len (sx_carry x))"
        by (auto simp: sse_drain.simps [of ra x] carry_empty [OF wf] too_large_def split: if_splits)
      with True "1.prems" contents_wf [OF wf] show ?thesis
        by (auto simp: split_none forwarded_Nil within_limit_def word_less_nat_alt)
    next
      case False
      then have k0: "of_nat ?k \<noteq> (0 :: u64)" using kw by auto
      have lim: "\<not> (sx_sse_limit x \<noteq> 0 \<and> sx_sse_limit x < of_nat ?k)"
        using "1.prems"(3) ne k0 by (auto simp: sse_drain.simps [of ra x] carry_empty [OF wf] too_large_def)
      obtain y where y: "af_prov_emit_chunk ra x (take ?k ?s) (of_nat ?k) = (None, y)"
        using "1.prems"(3) ne k0 lim kw
        by (auto simp: sse_drain.simps [of ra x] carry_empty [OF wf] Let_def split: prod.splits option.splits)
      obtain b where b: "af_buf_consume (sx_carry y) (of_nat ?k) = (None, b)"
        using "1.prems"(3) ne k0 lim kw y
        by (auto simp: sse_drain.simps [of ra x] carry_empty [OF wf] Let_def split: prod.splits option.splits)
      let ?z = "y\<lparr>sx_events := sx_events y + 1, sx_carry := b\<rparr>"
      have d: "sse_drain ra ?z = (None, x')"
        using "1.prems"(3) ne k0 lim kw y b by (simp add: sse_drain.simps [of ra x] carry_empty [OF wf] Let_def)
      note r = drain_round [OF "1.prems"(1,2) refl False lim y b]
      have "sse_wf ?z" using r [THEN conjunct1] unfolding forwarded_def by (rule conjunct1)
      have ne': "\<not> (buf_data (sx_carry x) = None \<or> buf_len (sx_carry x) = 0)"
        using ne carry_empty [OF wf] by blast
      from "1.IH" [OF ne' refl k0 lim _ refl _ refl \<open>sse_wf ?z\<close> "1.prems"(2) d] y b kw
      have ih: "forwarded ?z (fst (sse_split (contents b))) x'"
        "contents (sx_carry x') = snd (sse_split (contents b))"
        "within_limit ?z (contents (sx_carry x'))" "sx_overflow x' = sx_overflow ?z" by auto
      from forwarded_trans [OF r [THEN conjunct1] ih(1)] r ih(2-4) split_some [OF refl False]
      show ?thesis by (simp add: within_limit_def forwarded_def)
    qed
  qed
qed

text \<open>A feed that succeeds; between feeds no complete event is waiting.\<close>

lemma feed_ok:
  assumes "sse_wf x" "realloc_law ra" "length f < 2 ^ 64" "af_prov_sse_feed ra x f = (None, x')"
    "af_prov_sse_scan (contents (sx_carry x)) = 0"
  shows "forwarded x (fst (sse_split (contents (sx_carry x) @ f))) x' \<and>
    contents (sx_carry x') = snd (sse_split (contents (sx_carry x) @ f)) \<and> sx_overflow x' = sx_overflow x"
proof (cases "f = []")
  case True
  with assms show ?thesis by (simp add: af_prov_sse_feed_def split_none forwarded_Nil)
next
  case False
  then obtain b where b: "af_buf_append ra (sx_carry x) (Some f) (of_nat (length f)) = (None, b)"
    and d: "sse_drain ra (x\<lparr>sx_carry := b\<rparr>) = (None, x')"
    using assms(4) by (auto simp: af_prov_sse_feed_def split: prod.splits option.splits)
  have wf: "buf_wf (sx_carry x)" using assms(1) by (simp add: sse_wf_def)
  from append_ok [OF wf assms(2) unat_of_length [OF assms(3), symmetric] b]
  have c: "buf_wf b" "contents b = contents (sx_carry x) @ f" by auto
  then have "sse_wf (x\<lparr>sx_carry := b\<rparr>)" using assms(1) by (simp add: sse_wf_def)
  from drain_ok [OF this assms(2) d] c show ?thesis
    by (simp add: forwarded_def sse_wf_def sse_stream_def within_limit_eq [of "x\<lparr>sx_carry := b\<rparr>" x])
qed

text \<open>
  Where the loop stopped without success: it had forwarded the first \<open>k\<close> events of the input, all
  within the limit, and then met one beyond it, or could not write the chunk of one within it.
\<close>

definition stopped :: "allocator \<Rightarrow> sse_exchange \<Rightarrow> u8 list \<Rightarrow> af_status \<Rightarrow> sse_exchange \<Rightarrow> bool" where
  "stopped ra x s e x' \<longleftrightarrow>
     (\<exists>k y. let (es, r) = sse_split s
       in k \<le> length es \<and> list_all (within_limit x) (take k es) \<and> forwarded x (take k es) y \<and>
          contents (sx_carry y) = concat (drop k es) @ r \<and> sx_overflow y = sx_overflow x \<and>
          (e = AF_E_LIMIT \<and> \<not> within_limit x ((es @ [r]) ! k) \<and> x' = y\<lparr>sx_overflow := True\<rparr> \<or>
           k < length es \<and> within_limit x (es ! k) \<and> length (es ! k) < 2 ^ 64 \<and>
             af_prov_emit_chunk ra y (es ! k) (of_nat (length (es ! k))) = (Some e, x')))"

lemma stopped_here:
  assumes "sse_wf x" "contents (sx_carry x) = s" "sse_split s = (es, r)"
    "e = AF_E_LIMIT \<and> \<not> within_limit x ((es @ [r]) ! 0) \<and> x' = x\<lparr>sx_overflow := True\<rparr> \<or>
     es \<noteq> [] \<and> within_limit x (es ! 0) \<and> length (es ! 0) < 2 ^ 64 \<and>
       af_prov_emit_chunk ra x (es ! 0) (of_nat (length (es ! 0))) = (Some e, x')"
  shows "stopped ra x s e x'"
  unfolding stopped_def
  using assms split_concat [of s] forwarded_Nil [OF assms(1)] by (intro exI [of _ 0] exI [of _ x]) auto

lemma stopped_later:
  assumes "forwarded x [ev] z" "sx_overflow z = sx_overflow x" "sse_split s = (ev # fst (sse_split t), snd (sse_split t))"
    "stopped ra z t e x'"
  shows "stopped ra x s e x'"
proof -
  have lim: "within_limit z = within_limit x" using assms(1) by (intro within_limit_eq) (simp add: forwarded_def)
  obtain es r where t: "sse_split t = (es, r)" by fastforce
  from assms(4) obtain k y where y: "k \<le> length es" "list_all (within_limit x) (take k es)" "forwarded z (take k es) y"
      "contents (sx_carry y) = concat (drop k es) @ r" "sx_overflow y = sx_overflow z"
      "e = AF_E_LIMIT \<and> \<not> within_limit x ((es @ [r]) ! k) \<and> x' = y\<lparr>sx_overflow := True\<rparr> \<or>
       k < length es \<and> within_limit x (es ! k) \<and> length (es ! k) < 2 ^ 64 \<and>
         af_prov_emit_chunk ra y (es ! k) (of_nat (length (es ! k))) = (Some e, x')"
    unfolding stopped_def t Let_def prod.case lim by blast
  have "within_limit x ev" using assms(1) by (simp add: forwarded_def)
  with y(1,2,4-) forwarded_trans [OF assms(1) y(3)] assms(2,3) t show ?thesis
    unfolding stopped_def by (intro exI [of _ "Suc k"] exI [of _ y]) simp
qed

lemma drain_stopped:
  "sse_wf x \<Longrightarrow> realloc_law ra \<Longrightarrow> sse_drain ra x = (Some e, x') \<Longrightarrow> stopped ra x (contents (sx_carry x)) e x'"
proof (induction ra x rule: sse_drain.induct)
  case (1 ra x)
  let ?s = "contents (sx_carry x)" and ?k = "af_prov_sse_scan (contents (sx_carry x))"
  have wf: "buf_wf (sx_carry x)" using "1.prems"(1) by (simp add: sse_wf_def)
  note kw = scan_word [OF wf] and here = stopped_here [OF "1.prems"(1) refl]
  have ne: "\<not> (buf_data (sx_carry x) = None \<or> buf_len (sx_carry x) = 0)"
  proof
    assume "buf_data (sx_carry x) = None \<or> buf_len (sx_carry x) = 0"
    then have "sse_drain ra x = (AF_OK, x)" by (subst sse_drain.simps) (rule if_P)
    with "1.prems"(3) show False by simp
  qed
  show ?case
  proof (cases "?k = 0")
    case True
    with "1.prems"(3) ne have x': "x' = x\<lparr>sx_overflow := True\<rparr>" "e = AF_E_LIMIT"
      "sx_sse_limit x \<noteq> 0 \<and> sx_sse_limit x < buf_len (sx_carry x)"
      by (auto simp: sse_drain.simps [of ra x] too_large_def split: if_splits)
    with contents_wf [OF wf] have "\<not> within_limit x ?s" by (auto simp: within_limit_def word_less_nat_alt)
    with here [OF split_none [OF True]] x' show ?thesis by simp
  next
    case False
    then have k0: "of_nat ?k \<noteq> (0 :: u64)" using kw by auto
    have len: "length (take ?k ?s) = ?k" using scan_bound [of ?s] by simp
    note sp = split_some [OF refl False]
    show ?thesis
    proof (cases "sx_sse_limit x \<noteq> 0 \<and> sx_sse_limit x < of_nat ?k")
      case True
      with "1.prems"(3) ne k0 have x': "x' = x\<lparr>sx_overflow := True\<rparr>" "e = AF_E_LIMIT"
        by (auto simp: sse_drain.simps [of ra x] too_large_def)
      have "\<not> within_limit x (take ?k ?s)" using True kw len by (auto simp: within_limit_def word_less_nat_alt)
      with here [OF sp] x' show ?thesis by simp
    next
      case lim: False
      then have lim': "within_limit x (take ?k ?s)" using kw len by (auto simp: within_limit_def word_less_nat_alt)
      obtain st y where em: "af_prov_emit_chunk ra x (take ?k ?s) (of_nat ?k) = (st, y)" by fastforce
      show ?thesis
      proof (cases st)
        case (Some e')
        with em ne k0 lim kw "1.prems"(3) have "e' = e" "y = x'"
          by (auto simp: sse_drain.simps [of ra x] Let_def)
        moreover have "?k < 2 ^ 64" using kw unat_u64_bound [of "of_nat ?k"] by simp
        ultimately show ?thesis using here [OF sp] em Some lim' len by simp
      next
        case None
        with em have y: "af_prov_emit_chunk ra x (take ?k ?s) (of_nat ?k) = (None, y)" by simp
        have c: "sx_carry y = sx_carry x" using y emit_chunk_fields(1) by (metis snd_conv)
        have "of_nat ?k \<le> buf_len (sx_carry x)"
          using scan_bound [of ?s] contents_wf [OF wf] kw by (simp add: word_le_nat_alt)
        then obtain b where b: "af_buf_consume (sx_carry y) (of_nat ?k) = (None, b)"
          using c consume_fail [of "sx_carry x" "of_nat ?k"] by (cases "af_buf_consume (sx_carry x) (of_nat ?k)") (auto split: option.splits, metis option.exhaust not_le)
        let ?z = "y\<lparr>sx_events := sx_events y + 1, sx_carry := b\<rparr>"
        have d: "sse_drain ra ?z = (Some e, x')"
          using "1.prems"(3) ne k0 lim kw y b by (simp add: sse_drain.simps [of ra x] Let_def)
        note r = drain_round [OF "1.prems"(1,2) refl False lim y b]
        have z: "sse_wf ?z" using r [THEN conjunct1] unfolding forwarded_def by (rule conjunct1)
        from "1.IH" [OF ne refl k0 lim _ refl _ refl z "1.prems"(2) d] y b kw
        have "stopped ra ?z (drop ?k ?s) e x'" using r by simp
        from stopped_later [OF r [THEN conjunct1] _ sp this] r show ?thesis by simp
      qed
    qed
  qed
qed

lemma stopped_carry [simp]: "stopped ra (x\<lparr>sx_carry := b\<rparr>) s e x' = stopped ra x s e x'"
proof -
  have "within_limit (x\<lparr>sx_carry := b\<rparr>) = within_limit x" by (rule within_limit_eq) simp
  then show ?thesis by (simp add: stopped_def forwarded_def sse_stream_def)
qed

text \<open>A feed that does not succeed: the bytes could not be kept, or the loop stopped.\<close>

lemma feed_stopped:
  assumes "sse_wf x" "realloc_law ra" "length f < 2 ^ 64" "af_prov_sse_feed ra x f = (Some e, x')"
  shows "x' = x \<and> af_buf_append ra (sx_carry x) (Some f) (of_nat (length f)) = (Some e, sx_carry x) \<or>
    stopped ra x (contents (sx_carry x) @ f) e x'"
proof (cases "af_buf_append ra (sx_carry x) (Some f) (of_nat (length f))")
  case (Pair st b)
  show ?thesis
  proof (cases st)
    case (Some e')
    with Pair append_fail [of ra "sx_carry x" "Some f" _ e' b] assms(4) show ?thesis
      by (auto simp: af_prov_sse_feed_def split: if_splits)
  next
    case None
    with Pair assms(4) have d: "sse_drain ra (x\<lparr>sx_carry := b\<rparr>) = (Some e, x')"
      by (auto simp: af_prov_sse_feed_def split: if_splits)
    have wf: "buf_wf (sx_carry x)" using assms(1) by (simp add: sse_wf_def)
    from append_ok [OF wf assms(2) unat_of_length [OF assms(3), symmetric]] Pair None
    have c: "buf_wf b" "contents b = contents (sx_carry x) @ f" by auto
    then have "sse_wf (x\<lparr>sx_carry := b\<rparr>)" using assms(1) by (simp add: sse_wf_def)
    from drain_stopped [OF this assms(2) d] c show ?thesis by simp
  qed
qed

fun feed_all :: "allocator \<Rightarrow> sse_exchange \<Rightarrow> u8 list list \<Rightarrow> af_status option \<times> sse_exchange" where
  "feed_all ra x [] = (AF_OK, x)"
| "feed_all ra x (f # fs) =
     (case af_prov_sse_feed ra x f of
        (Some e, y) \<Rightarrow> (Some e, y)
      | (None, y) \<Rightarrow> feed_all ra y fs)"

lemma feed_all_ok:
  "sse_wf x \<Longrightarrow> realloc_law ra \<Longrightarrow> list_all (\<lambda>f. length f < 2 ^ 64) fs \<Longrightarrow>
   af_prov_sse_scan (contents (sx_carry x)) = 0 \<Longrightarrow> feed_all ra x fs = (None, x') \<Longrightarrow>
   forwarded x (fst (sse_split (contents (sx_carry x) @ concat fs))) x' \<and>
   contents (sx_carry x') = snd (sse_split (contents (sx_carry x) @ concat fs)) \<and> sx_overflow x' = sx_overflow x"
proof (induction fs arbitrary: x)
  case Nil
  then show ?case by (simp add: split_none forwarded_Nil)
next
  case (Cons f fs)
  obtain y where y: "af_prov_sse_feed ra x f = (None, y)" and r: "feed_all ra y fs = (None, x')"
    using Cons.prems(5) by (auto split: prod.splits option.splits)
  note f = feed_ok [OF Cons.prems(1,2) _ y Cons.prems(4)]
  have f: "forwarded x (fst (sse_split (contents (sx_carry x) @ f))) y"
    "contents (sx_carry y) = snd (sse_split (contents (sx_carry x) @ f))" "sx_overflow y = sx_overflow x"
    using f Cons.prems(3) by auto
  have "sse_wf y" using f by (simp add: forwarded_def)
  from Cons.IH [OF this Cons.prems(2) _ _ r] Cons.prems(3) f split_rest
  have ih: "forwarded y (fst (sse_split (contents (sx_carry y) @ concat fs))) x'"
    "contents (sx_carry x') = snd (sse_split (contents (sx_carry y) @ concat fs))" "sx_overflow x' = sx_overflow y"
    by auto
  from forwarded_trans [OF f(1) ih(1)] ih f split_append [of "contents (sx_carry x) @ f" "concat fs"]
  show ?case by simp
qed

text \<open>What neither a feed nor the loop touches.\<close>

definition settings :: "sse_exchange \<Rightarrow> u64 \<times> bool \<times> bool \<times> u64 \<times> af_buffer" where
  "settings x = (sx_sse_limit x, sx_active x, sx_head_sent x, sx_body_bytes x, sx_response x)"

lemma settings_simps [simp]:
  "settings (x\<lparr>sx_carry := b\<rparr>) = settings x" "settings (x\<lparr>sx_events := n\<rparr>) = settings x"
  "settings (x\<lparr>sx_overflow := o'\<rparr>) = settings x" "settings (snd (af_prov_emit_chunk ra x p n)) = settings x"
  by (auto simp: settings_def af_prov_emit_chunk_def split: option.splits prod.splits)

lemma drain_settings: "settings (snd (sse_drain ra x)) = settings x"
proof (induction ra x rule: sse_drain.induct)
  case (1 ra x)
  have e: "af_prov_emit_chunk ra x p n = (st, y) \<Longrightarrow> settings y = settings x" for p n st y
    using settings_simps(4) by (metis snd_conv)
  show ?case
    by (subst sse_drain.simps) (auto simp: Let_def too_large_def "1.IH" dest: e split: prod.splits option.splits)
qed

lemma feed_settings: "settings (snd (af_prov_sse_feed ra x f)) = settings x"
  by (auto simp: af_prov_sse_feed_def drain_settings split: prod.splits option.splits)

lemma feed_all_settings: "settings (snd (feed_all ra x fs)) = settings x"
proof (induction fs arbitrary: x)
  case (Cons f fs)
  have "af_prov_sse_feed ra x f = (st, y) \<Longrightarrow> settings y = settings x" for st y
    using feed_settings by (metis snd_conv)
  with Cons.IH show ?case by (auto split: prod.splits option.splits)
qed simp

text \<open>A feed that succeeds keeps no more than the limit.\<close>

lemma feed_within:
  assumes "sse_wf x" "realloc_law ra" "length f < 2 ^ 64" "af_prov_sse_feed ra x f = (None, y)" "within_limit x (contents (sx_carry x))"
  shows "within_limit y (contents (sx_carry y))"
proof (cases "f = []")
  case True
  with assms show ?thesis by (simp add: af_prov_sse_feed_def)
next
  case False
  then obtain b where b: "af_buf_append ra (sx_carry x) (Some f) (of_nat (length f)) = (None, b)"
    and d: "sse_drain ra (x\<lparr>sx_carry := b\<rparr>) = (None, y)"
    using assms(4) by (auto simp: af_prov_sse_feed_def split: prod.splits option.splits)
  have wf: "buf_wf (sx_carry x)" using assms(1) by (simp add: sse_wf_def)
  from append_ok [OF wf assms(2) unat_of_length [OF assms(3), symmetric] b] have "buf_wf b" by simp
  then have "sse_wf (x\<lparr>sx_carry := b\<rparr>)" using assms(1) by (simp add: sse_wf_def)
  from drain_ok [OF this assms(2) d]
  have "forwarded (x\<lparr>sx_carry := b\<rparr>) (fst (sse_split (contents b))) y" "within_limit (x\<lparr>sx_carry := b\<rparr>) (contents (sx_carry y))"
    by auto
  then show ?thesis by (simp add: forwarded_def within_limit_def)
qed

text \<open>An incomplete event beyond the limit is one however it goes on.\<close>

lemma beyond_limit_stays:
  assumes "af_prov_sse_scan a = 0" "\<not> within_limit x a"
  shows "case sse_split (a @ b) of (es, r) \<Rightarrow> takeWhile (within_limit x) es = [] \<and> \<not> list_all (within_limit x) (es @ [r])"
proof (cases "af_prov_sse_scan (a @ b) = 0")
  case True
  with assms(2) show ?thesis by (simp add: split_none within_limit_def)
next
  case False
  have "\<not> within_limit x (take (af_prov_sse_scan (a @ b)) (a @ b))"
    using assms(2) scan_beyond [OF assms(1) False] scan_bound [of "a @ b"] by (simp add: within_limit_def)
  with split_some [OF refl False] show ?thesis by simp
qed

lemma take_while_at:
  "k < length xs \<Longrightarrow> list_all P (take k xs) \<Longrightarrow> \<not> P (xs ! k) \<Longrightarrow> takeWhile P (xs @ ys) = take k xs"
proof -
  assume k: "k < length xs" "list_all P (take k xs)" "\<not> P (xs ! k)"
  have "xs @ ys = take k xs @ xs ! k # drop (Suc k) xs @ ys" using id_take_nth_drop [OF k(1)] by (metis append_Cons append_assoc)
  moreover have "takeWhile P (take k xs @ xs ! k # drop (Suc k) xs @ ys) = take k xs"
    using k(2,3) by (simp add: takeWhile_append2 list_all_iff)
  ultimately show ?thesis by (simp only:)
qed

text \<open>Feeds that the limit ends: what was forwarded are the events before the first beyond it.\<close>

definition refused_at :: "sse_exchange \<Rightarrow> u8 list \<Rightarrow> af_status \<Rightarrow> sse_exchange \<Rightarrow> bool" where
  "refused_at x s e x' \<longleftrightarrow> e = AF_E_LIMIT \<and> forwarded x (takeWhile (within_limit x) (fst (sse_split s))) x' \<and>
     \<not> list_all (within_limit x) (fst (sse_split s) @ [snd (sse_split s)])"

lemma stopped_refused:
  assumes "stopped ra x s e x'" "\<not> sx_overflow x" "sx_overflow x'"
  shows "refused_at x (s @ t) e x'"
proof -
  obtain es r where s: "sse_split s = (es, r)" by fastforce
  with assms(1) obtain k y where y: "k \<le> length es" "list_all (within_limit x) (take k es)" "forwarded x (take k es) y"
      "sx_overflow y = sx_overflow x"
      "e = AF_E_LIMIT \<and> \<not> within_limit x ((es @ [r]) ! k) \<and> x' = y\<lparr>sx_overflow := True\<rparr> \<or>
       af_prov_emit_chunk ra y (es ! k) (of_nat (length (es ! k))) = (Some e, x')"
    unfolding stopped_def s Let_def prod.case by blast
  have "af_prov_emit_chunk ra y (es ! k) (of_nat (length (es ! k))) \<noteq> (Some e, x')"
    using emit_chunk_fields(4) [of ra y "es ! k"] assms(2,3) y(4) by (metis snd_conv)
  with y have e: "e = AF_E_LIMIT" "\<not> within_limit x ((es @ [r]) ! k)" "forwarded x (take k es) x'" by auto
  note sp = split_append [of s t, unfolded s fst_conv snd_conv]
  show ?thesis
  proof (cases "k < length es")
    case True
    then have "takeWhile (within_limit x) (es @ fst (sse_split (r @ t))) = take k es" "\<not> list_all (within_limit x) es"
      using e(2) y(2) by (auto simp: take_while_at nth_append list_all_iff)
    with e sp show ?thesis by (simp add: refused_at_def)
  next
    case False
    with y(1) have k: "k = length es" by simp
    have "af_prov_sse_scan r = 0" using split_rest [of s] s by simp
    from beyond_limit_stays [OF this, of x t] e(2) k
    have "takeWhile (within_limit x) (fst (sse_split (r @ t))) = []"
      "\<not> list_all (within_limit x) (fst (sse_split (r @ t)) @ [snd (sse_split (r @ t))])" by (auto split: prod.splits)
    moreover from this(1) y(2) k have "takeWhile (within_limit x) (es @ fst (sse_split (r @ t))) = es"
      by (simp add: takeWhile_append2 list_all_iff)
    ultimately show ?thesis using e sp k by (simp add: refused_at_def)
  qed
qed

lemma feed_all_within:
  "sse_wf x \<Longrightarrow> realloc_law ra \<Longrightarrow> list_all (\<lambda>f. length f < 2 ^ 64) fs \<Longrightarrow> af_prov_sse_scan (contents (sx_carry x)) = 0 \<Longrightarrow>
   feed_all ra x fs = (None, x') \<Longrightarrow> within_limit x (contents (sx_carry x)) \<Longrightarrow> within_limit x' (contents (sx_carry x'))"
proof (induction fs arbitrary: x)
  case (Cons f fs)
  obtain y where y: "af_prov_sse_feed ra x f = (None, y)" and r: "feed_all ra y fs = (None, x')"
    using Cons.prems(5) by (auto split: prod.splits option.splits)
  have l: "length f < 2 ^ 64" "list_all (\<lambda>f. length f < 2 ^ 64) fs" using Cons.prems(3) by simp_all
  from feed_ok [OF Cons.prems(1,2) l(1) y Cons.prems(4)] split_rest
  have "sse_wf y" "af_prov_sse_scan (contents (sx_carry y)) = 0" by (auto simp: forwarded_def)
  from Cons.IH [OF this(1) Cons.prems(2) l(2) this(2) r feed_within [OF Cons.prems(1,2) l(1) y Cons.prems(6)]] show ?case .
qed simp

lemma feed_all_refused:
  "sse_wf x \<Longrightarrow> realloc_law ra \<Longrightarrow> list_all (\<lambda>f. length f < 2 ^ 64) fs \<Longrightarrow> af_prov_sse_scan (contents (sx_carry x)) = 0 \<Longrightarrow>
   \<not> sx_overflow x \<Longrightarrow> feed_all ra x fs = (Some e, x') \<Longrightarrow> sx_overflow x' \<Longrightarrow> refused_at x (contents (sx_carry x) @ concat fs) e x'"
proof (induction fs arbitrary: x)
  case (Cons f fs)
  have l: "length f < 2 ^ 64" "list_all (\<lambda>f. length f < 2 ^ 64) fs" using Cons.prems(3) by simp_all
  obtain st y where y: "af_prov_sse_feed ra x f = (st, y)" by fastforce
  show ?case
  proof (cases st)
    case (Some e')
    with y Cons.prems(6) have "af_prov_sse_feed ra x f = (Some e, x')" by simp
    from feed_stopped [OF Cons.prems(1,2) l(1) this] Cons.prems(5,7)
    have "stopped ra x (contents (sx_carry x) @ f) e x'" by auto
    from stopped_refused [OF this Cons.prems(5,7), of "concat fs"] show ?thesis by simp
  next
    case None
    with y Cons.prems(6) have y: "af_prov_sse_feed ra x f = (None, y)" and r: "feed_all ra y fs = (Some e, x')" by simp_all
    let ?s = "contents (sx_carry x) @ f"
    from feed_ok [OF Cons.prems(1,2) l(1) y Cons.prems(4)]
    have fo: "forwarded x (fst (sse_split ?s)) y" and c: "contents (sx_carry y) = snd (sse_split ?s)" and o: "\<not> sx_overflow y"
      using Cons.prems(5) by auto
    have "sse_wf y" "af_prov_sse_scan (contents (sx_carry y)) = 0" using fo c split_rest by (auto simp: forwarded_def)
    from Cons.IH [OF this(1) Cons.prems(2) l(2) this(2) o r Cons.prems(7)]
    have ih: "refused_at y (snd (sse_split ?s) @ concat fs) e x'" by (simp add: c)
    have lim: "within_limit y = within_limit x" using fo by (intro within_limit_eq) (simp add: forwarded_def)
    have all: "list_all (within_limit x) (fst (sse_split ?s))" using fo by (simp add: forwarded_def)
    then have tw: "takeWhile (within_limit x) (fst (sse_split ?s) @ es) = fst (sse_split ?s) @ takeWhile (within_limit x) es" for es
      by (simp add: takeWhile_append2 list_all_iff)
    from ih forwarded_trans [OF fo, of "takeWhile (within_limit x) (fst (sse_split (snd (sse_split ?s) @ concat fs)))" x']
    show ?thesis using split_append [of ?s "concat fs"] by (simp add: refused_at_def lim tw)
  qed
qed simp

text \<open>
  C15: How the network cuts the stream does not matter. Whatever fragments the upstream bytes
  arrive in, as long as nothing but the limit on an event stops the feeds, the client's stream is
  extended by exactly one chunk for each complete event of the concatenated input before the first
  one beyond the limit, in order, and the counter counts them. The bytes are accepted exactly when no event, the
  incomplete rest included, is beyond the limit, and then the carry buffer holds the rest; otherwise the
  status is the limit and the overflow flag is set. The rest of the exchange is not touched.
\<close>

theorem sse_fragmentation:
  assumes "sse_wf x" "realloc_law ra" "list_all (\<lambda>f. length f < 2 ^ 64) fs" "contents (sx_carry x) = []"
    "\<not> sx_overflow x" "feed_all ra x fs = (st, x')" "st \<noteq> AF_OK \<Longrightarrow> sx_overflow x'"
  shows "let (es, r) = sse_split (concat fs); sent = takeWhile (within_limit x) es
    in sse_stream x' = sse_stream x @ concat (map chunk sent) \<and> sx_events x' = sx_events x + of_nat (length sent) \<and>
       (if list_all (within_limit x) (es @ [r]) then st = AF_OK \<and> \<not> sx_overflow x' \<and> contents (sx_carry x') = r
        else st = Some AF_E_LIMIT \<and> sx_overflow x') \<and>
       settings x' = settings x"
proof -
  obtain es r where sp: "sse_split (concat fs) = (es, r)" by fastforce
  have sc: "af_prov_sse_scan (contents (sx_carry x)) = 0" "within_limit x (contents (sx_carry x))"
    using assms(4) by (simp_all add: within_limit_def)
  have set: "settings x' = settings x" using feed_all_settings [of ra x fs] assms(6) by simp
  show ?thesis
  proof (cases st)
    case None
    with assms(6) have ok: "feed_all ra x fs = (None, x')" by simp
    from feed_all_ok [OF assms(1-3) sc(1) ok] assms(4) sp
    have f: "forwarded x es x'" "contents (sx_carry x') = r" "sx_overflow x' = sx_overflow x" by simp_all
    have "within_limit x' = within_limit x" using f(1) by (intro within_limit_eq) (simp add: forwarded_def)
    with feed_all_within [OF assms(1-3) sc(1) ok sc(2)] f have w: "within_limit x r" "list_all (within_limit x) es"
      by (simp_all add: forwarded_def)
    then have tw: "takeWhile (within_limit x) es = es" by (simp add: takeWhile_eq_all_conv list_all_iff)
    show ?thesis unfolding Let_def sp prod.case tw using f None assms(5) set w by (simp add: forwarded_def)
  next
    case (Some e)
    with assms(6,7) have st: "feed_all ra x fs = (Some e, x')" "sx_overflow x'" by simp_all
    from feed_all_refused [OF assms(1-3) sc(1) assms(5) st] sp assms(4) have "refused_at x (concat fs) e x'" by simp
    with Some st(2) sp set show ?thesis by (auto simp: refused_at_def forwarded_def)
  qed
qed

definition sample_sse :: sse_exchange where
  "sample_sse = \<lparr>sx_conn = Some (sample_conn\<lparr>hc_outbox := \<lparr>buf_data = None, buf_len = 0, buf_cap = 0, buf_max = 1000\<rparr>,
       hc_out_cursor := 0, hc_sent := [], hc_replies := [Wrote 5]\<rparr>),
     sx_carry = \<lparr>buf_data = None, buf_len = 0, buf_cap = 0, buf_max = 1000\<rparr>, sx_sse_limit = 8, sx_events = 0,
     sx_overflow = False, sx_active = True, sx_head_sent = True, sx_body_bytes = 0,
     sx_response = \<lparr>buf_data = None, buf_len = 0, buf_cap = 0, buf_max = 1000\<rparr>\<rparr>"

lemma sample_sse_wf: "sse_wf sample_sse" "contents (sx_carry sample_sse) = []"
  by (simp_all add: sample_sse_def sse_wf_def buf_wf_def conn_wf_def contents_def)

theorem sse_fragmentation_witness:
  "let fs = [[100, 97, 13], [10, 13], [], [10, 100, 98, 10], [10, 100]]; (st, x') = feed_all plain_realloc sample_sse fs;
       (es, r) = sse_split (concat fs); sent = takeWhile (within_limit sample_sse) es
   in sse_stream x' = sse_stream sample_sse @ concat (map chunk sent) \<and>
      sx_events x' = sx_events sample_sse + of_nat (length sent) \<and>
      (if list_all (within_limit sample_sse) (es @ [r]) then st = AF_OK \<and> \<not> sx_overflow x' \<and> contents (sx_carry x') = r
       else st = Some AF_E_LIMIT \<and> sx_overflow x') \<and>
      settings x' = settings sample_sse"
proof -
  let ?fs = "[[100, 97, 13], [10, 13], [], [10, 100, 98, 10], [10, 100]]"
  have "fst (feed_all plain_realloc sample_sse ?fs) = AF_OK" by code_simp
  then obtain x' where f: "feed_all plain_realloc sample_sse ?fs = (AF_OK, x')" by (cases "feed_all plain_realloc sample_sse ?fs") auto
  have n: "\<not> sx_overflow sample_sse" by (simp add: sample_sse_def)
  from sse_fragmentation [OF sample_sse_wf(1) plain_realloc_law _ sample_sse_wf(2) n f] show ?thesis
    unfolding Let_def f prod.case by simp
qed

section \<open>What the limit refuses\<close>

lemma clear_contents: "contents (af_buf_clear b) = []"
  by (simp add: af_buf_clear_def emptied_wf)

text \<open>A chunk that could not be written has at most its front in the stream.\<close>

lemma emit_part:
  assumes "af_prov_emit_chunk ra x p (of_nat (length p)) = (Some e, x')" "realloc_law ra" "sse_wf x" "length p < 2 ^ 64"
  shows "\<exists>part. sse_stream x' = sse_stream x @ part \<and> prefix part (chunk p)"
proof (cases "sx_conn x")
  case None
  with assms(1) have "x' = x" by (auto simp: af_prov_emit_chunk_def split: if_splits)
  then show ?thesis by (intro exI [of _ "[]"]) simp
next
  case (Some c)
  with assms(3) have "conn_wf c" by (simp add: sse_wf_def)
  from emit_fail [OF assms(1,2) Some this assms(4)] obtain c' k where
    "sx_conn x' = Some c'" "stream_of c' = stream_of c @ concat (take k (chunk_pieces p))" by blast
  moreover have "prefix (concat (take k (chunk_pieces p))) (chunk p)"
    by (metis append_take_drop_id concat_append concat_chunk_pieces prefixI)
  ultimately show ?thesis using Some by (auto simp: sse_stream_def)
qed

text \<open>
  C24: No byte of an event beyond the limit reaches the client. A feed that finds the carry as a
  feed leaves it, within the limit and without a complete event, ends in one of these ways.
  It succeeds: then no event of the input, the incomplete rest included, is beyond the limit, and each
  complete one was forwarded as a chunk. Or the limit refuses it: the status and the overflow
  flag say so, exactly the events before the first one beyond the limit were forwarded, and the end of
  the stream drops what was refused, without adding a byte to the client's stream. Or the bytes could not be kept
  and nothing has changed; or the chunk of an event within the limit could not be written after
  those before it were.
\<close>

theorem sse_limit_refuses:
  assumes "sse_wf x" "realloc_law ra" "\<not> sx_overflow x" "f \<noteq> []" "length f < 2 ^ 64"
    "af_prov_sse_feed ra x f = (st, x')" "af_prov_sse_scan (contents (sx_carry x)) = 0" "within_limit x (contents (sx_carry x))"
  shows "let (es, r) = sse_split (contents (sx_carry x) @ f); beyond = (\<lambda>e. \<not> within_limit x e)
    in st = AF_OK \<and> \<not> sx_overflow x' \<and> \<not> list_ex beyond (es @ [r]) \<and> sse_stream x' = sse_stream x @ concat (map chunk es) \<and>
         contents (sx_carry x') = r \<or>
       st = Some AF_E_LIMIT \<and> sx_overflow x' \<and>
         (\<exists>k \<le> length es. beyond ((es @ [r]) ! k) \<and> \<not> list_ex beyond (take k es) \<and>
            sse_stream x' = sse_stream x @ concat (map chunk (take k es))) \<and>
         (\<exists>y. af_prov_sse_finish ra x' = (AF_OK, y) \<and> sse_stream y = sse_stream x' \<and> contents (sx_carry y) = []) \<or>
       st \<noteq> AF_OK \<and> x' = x \<and> af_buf_append ra (sx_carry x) (Some f) (of_nat (length f)) = (st, sx_carry x) \<or>
       st \<noteq> AF_OK \<and> \<not> sx_overflow x' \<and>
         (\<exists>k < length es. \<exists>y. \<not> list_ex beyond (take (Suc k) es) \<and> sse_stream y = sse_stream x @ concat (map chunk (take k es)) \<and>
            af_prov_emit_chunk ra y (es ! k) (of_nat (length (es ! k))) = (st, x') \<and>
            (\<exists>part. sse_stream x' = sse_stream y @ part \<and> prefix part (chunk (es ! k))))"
proof -
  obtain es r where sp: "sse_split (contents (sx_carry x) @ f) = (es, r)" by fastforce
  have all: "list_all (within_limit x) xs \<longleftrightarrow> \<not> list_ex (\<lambda>e. \<not> within_limit x e) xs" for xs
    by (auto simp: list_all_iff list_ex_iff)
  show ?thesis
  proof (cases st)
    case None
    with assms(6) have ok: "af_prov_sse_feed ra x f = (None, x')" by simp
    from feed_ok [OF assms(1,2,5) ok assms(7)] sp
    have fo: "forwarded x es x'" "contents (sx_carry x') = r" "sx_overflow x' = sx_overflow x" by simp_all
    have "within_limit x' = within_limit x" using fo(1) by (intro within_limit_eq) (simp add: forwarded_def)
    with feed_within [OF assms(1,2,5) ok assms(8)] fo have "list_all (within_limit x) (es @ [r])" by (simp add: forwarded_def)
    with fo None assms(3) show ?thesis unfolding sp all by (simp add: forwarded_def)
  next
    case (Some e)
    with assms(6) have er: "af_prov_sse_feed ra x f = (Some e, x')" by simp
    from feed_stopped [OF assms(1,2,5) er] show ?thesis
    proof
      assume "x' = x \<and> af_buf_append ra (sx_carry x) (Some f) (of_nat (length f)) = (Some e, sx_carry x)"
      with Some sp show ?thesis by simp
    next
      assume "stopped ra x (contents (sx_carry x) @ f) e x'"
      then obtain k y where y: "k \<le> length es" "list_all (within_limit x) (take k es)" "forwarded x (take k es) y"
          "sx_overflow y = sx_overflow x"
        and w: "e = AF_E_LIMIT \<and> \<not> within_limit x ((es @ [r]) ! k) \<and> x' = y\<lparr>sx_overflow := True\<rparr> \<or>
          k < length es \<and> within_limit x (es ! k) \<and> length (es ! k) < 2 ^ 64 \<and>
            af_prov_emit_chunk ra y (es ! k) (of_nat (length (es ! k))) = (Some e, x')"
        unfolding stopped_def sp Let_def prod.case by blast
      from w show ?thesis
      proof
        assume l: "e = AF_E_LIMIT \<and> \<not> within_limit x ((es @ [r]) ! k) \<and> x' = y\<lparr>sx_overflow := True\<rparr>"
        then have "\<exists>z. af_prov_sse_finish ra x' = (AF_OK, z) \<and> sse_stream z = sse_stream x' \<and> contents (sx_carry z) = []"
          by (simp add: af_prov_sse_finish_def sse_stream_def clear_contents)
        moreover have "sse_stream x' = sse_stream x @ concat (map chunk (take k es))"
          using l y(3) by (simp add: forwarded_def sse_stream_def)
        ultimately show ?thesis using l y(1,2) Some unfolding sp all by auto
      next
        assume m: "k < length es \<and> within_limit x (es ! k) \<and> length (es ! k) < 2 ^ 64 \<and>
          af_prov_emit_chunk ra y (es ! k) (of_nat (length (es ! k))) = (Some e, x')"
        have o: "\<not> sx_overflow x'" using emit_chunk_fields(4) [of ra y "es ! k" "of_nat (length (es ! k))"] m y(4) assms(3) by simp
        from emit_part [OF _ assms(2), of y "es ! k" e x'] m y(3) obtain part where
          part: "sse_stream x' = sse_stream y @ part" "prefix part (chunk (es ! k))" by (auto simp: forwarded_def)
        have w: "list_all (within_limit x) (take (Suc k) es)" using m y(2) by (simp add: take_Suc_conv_app_nth)
        have "sse_stream y = sse_stream x @ concat (map chunk (take k es))" using y(3) by (simp add: forwarded_def)
        with part w [unfolded all] o m Some show ?thesis unfolding Let_def sp prod.case
          by (intro disjI2 conjI exI [of _ k] exI [of _ y] exI [of _ part]) simp_all
      qed
    qed
  qed
qed

theorem sse_limit_refuses_witness:
  "let f = [100, 10, 10] @ replicate 9 120; x' = snd (af_prov_sse_feed plain_realloc sample_sse f); (es, r) = sse_split f
   in sx_overflow x' \<and>
      (\<exists>k \<le> length es. \<not> within_limit sample_sse ((es @ [r]) ! k) \<and> \<not> list_ex (\<lambda>e. \<not> within_limit sample_sse e) (take k es) \<and>
         sse_stream x' = sse_stream sample_sse @ concat (map chunk (take k es))) \<and>
      (\<exists>y. af_prov_sse_finish plain_realloc x' = (AF_OK, y) \<and> sse_stream y = sse_stream x' \<and> contents (sx_carry y) = [])"
proof -
  let ?f = "[100, 10, 10] @ replicate 9 120"
  have "sx_overflow (snd (af_prov_sse_feed plain_realloc sample_sse ?f))" by code_simp
  then obtain st x' where f: "af_prov_sse_feed plain_realloc sample_sse ?f = (st, x')" "sx_overflow x'"
    by (cases "af_prov_sse_feed plain_realloc sample_sse ?f") simp
  have n: "\<not> sx_overflow sample_sse" by (simp add: sample_sse_def)
  have l: "?f \<noteq> []" "length ?f < 2 ^ 64" by simp_all
  have c: "af_prov_sse_scan (contents (sx_carry sample_sse)) = 0" "within_limit sample_sse (contents (sx_carry sample_sse))"
    by (simp_all add: sample_sse_wf within_limit_def)
  obtain es r where sp: "sse_split ?f = (es, r)" by fastforce
  from sse_limit_refuses [OF sample_sse_wf(1) plain_realloc_law n l f(1) c] f(2) n show ?thesis
    unfolding Let_def f(1) sample_sse_wf(2) append_Nil sp prod.case snd_conv by blast
qed

section \<open>What the client reads\<close>

text \<open>The chunked transfer coding as a client decodes it: the reference the stream is held to.\<close>

definition hex_value :: "u8 \<Rightarrow> nat option" where
  "hex_value c =
     (if 48 \<le> c \<and> c \<le> 57 then Some (unat c - 48)
      else if 97 \<le> c \<and> c \<le> 102 then Some (unat c - 87)
      else if 65 \<le> c \<and> c \<le> 70 then Some (unat c - 55) else None)"

fun read_size :: "nat \<Rightarrow> u8 list \<Rightarrow> nat \<times> u8 list" where
  "read_size acc [] = (acc, [])"
| "read_size acc (c # s) = (case hex_value c of None \<Rightarrow> (acc, c # s) | Some d \<Rightarrow> read_size (acc * 16 + d) s)"

lemma read_size_length: "length (snd (read_size acc s)) \<le> length s"
  by (induction acc s rule: read_size.induct) (auto split: option.splits)

function dechunk :: "u8 list \<Rightarrow> u8 list option" where
  "dechunk s =
     (let n = fst (read_size 0 s); t = snd (read_size 0 s); d = drop 2 t
      in if take 2 t \<noteq> [13, 10] then None
         else if n = 0 then (if d = [13, 10] then Some [] else None)
         else if length d < n + 2 then None
         else if take 2 (drop n d) \<noteq> [13, 10] then None
         else map_option (\<lambda>r. take n d @ r) (dechunk (drop (n + 2) d)))"
  by pat_completeness auto
termination
proof (relation "measure length", goal_cases)
  case (2 s n t d)
  then show ?case using read_size_length [of 0 s] by auto
qed simp

declare dechunk.simps [simp del]

lemma hex_digit_values: "k < 16 \<Longrightarrow> hex_value (hex_digits ! k) = Some k"
proof -
  have "list_all (\<lambda>k. hex_value (hex_digits ! k) = Some k) [0..<16]" by code_simp
  then show "k < 16 \<Longrightarrow> ?thesis" by (simp add: list_all_iff)
qed

lemma read_size_digits:
  "list_all (\<lambda>c. hex_value c \<noteq> None) ds \<Longrightarrow> hex_value c = None \<Longrightarrow>
   read_size acc (ds @ c # s) = (foldl (\<lambda>a c. a * 16 + the (hex_value c)) acc ds, c # s)"
  by (induction ds arbitrary: acc) auto

lemma low_nibble: "unat (v AND 15 :: u64) = unat v mod 16" "unat (drop_bit 4 v :: u64) = unat v div 16"
proof -
  have "v AND 15 = take_bit 4 v" by (simp add: take_bit_eq_mask mask_eq_exp_minus_1)
  then have "v AND 15 = v mod 16" by (simp add: take_bit_eq_mod)
  then show "unat (v AND 15) = unat v mod 16" by (simp add: unat_mod)
  show "unat (drop_bit 4 v) = unat v div 16" by (simp add: drop_bit_eq_div unat_div)
qed

lemma hex_loop_value:
  "list_all (\<lambda>c. hex_value c \<noteq> None) (hex_loop v) \<and>
   foldl (\<lambda>a c. a * 16 + the (hex_value c)) 0 (rev (hex_loop v)) = unat v"
proof (induction v rule: hex_loop.induct)
  case (1 v)
  then show ?case
    by (cases "v = 0") (simp_all add: hex_loop.simps [of v] hex_loop.simps [of 0] low_nibble hex_digit_values)
qed

lemma read_size_hex: "read_size 0 (hex_text v @ 13 # s) = (unat v, 13 # s)"
proof -
  have h: "hex_value 48 = Some 0" "hex_value 13 = None" by code_simp+
  have "list_all (\<lambda>c. hex_value c \<noteq> None) (hex_text v)"
    using hex_loop_value [of v] h by (simp add: hex_text_def list_all_iff)
  from read_size_digits [OF this h(2)] show ?thesis
    using hex_loop_value [of v] h by (simp add: hex_text_def)
qed

lemma dechunk_chunk:
  assumes "e \<noteq> []" "length e < 2 ^ 64"
  shows "dechunk (chunk e @ s) = map_option (\<lambda>r. e @ r) (dechunk s)"
  using assms unat_of_length [OF assms(2)] read_size_hex [of "of_nat (length e)" "10 # e @ s_crlf @ s"]
  by (subst dechunk.simps) (simp add: chunk_def s_crlf_def Let_def)

lemma dechunk_last: "dechunk s_last_chunk = Some []"
  using read_size_hex [of 0 "[10, 13, 10]"]
  by (subst dechunk.simps) (simp add: s_last_chunk_def hex_text_def)

lemma dechunk_chunks:
  "list_all (\<lambda>e. e \<noteq> []) es \<Longrightarrow> list_all (\<lambda>e. length e < 2 ^ 64) es \<Longrightarrow>
   dechunk (concat (map chunk es) @ s_last_chunk) = Some (concat es)"
  by (induction es) (simp_all add: dechunk_last dechunk_chunk)

text \<open>The end of the stream forwards what is left as one more event.\<close>

lemma finish_ok:
  assumes "sse_wf x" "realloc_law ra" "\<not> sx_overflow x" "af_prov_sse_finish ra x = (None, y)"
  shows "sse_wf y \<and> (\<exists>es. list_all (\<lambda>e. e \<noteq> []) es \<and> list_all (\<lambda>e. length e < 2 ^ 64) es \<and>
    concat es = contents (sx_carry x) \<and> sse_stream y = sse_stream x @ concat (map chunk es))"
proof (cases "contents (sx_carry x) = []")
  case True
  have "buf_wf (sx_carry x)" using assms(1) by (simp add: sse_wf_def)
  with True assms(3,4) have "y = x" by (auto simp: af_prov_sse_finish_def dest: carry_empty split: if_splits)
  with True assms(1) show ?thesis by (auto intro!: exI [of _ "[]"])
next
  case False
  let ?s = "contents (sx_carry x)"
  have wf: "buf_wf (sx_carry x)" using assms(1) by (simp add: sse_wf_def)
  have len: "buf_len (sx_carry x) = of_nat (length ?s)" by (simp add: contents_wf [OF wf])
  have short: "length ?s < 2 ^ 64" using contents_wf [OF wf] unat_u64_bound [of "buf_len (sx_carry x)"] by simp
  have full: "\<not> (buf_data (sx_carry x) = None \<or> buf_len (sx_carry x) = 0)" using False carry_empty [OF wf] by blast
  then obtain z where z: "af_prov_emit_chunk ra x ?s (of_nat (length ?s)) = (None, z)"
    and y: "y = z\<lparr>sx_events := sx_events z + 1, sx_carry := af_buf_clear (sx_carry z)\<rparr>"
    using assms(3,4) len by (auto simp: af_prov_sse_finish_def split: prod.splits option.splits)
  have nz: "of_nat (length ?s) \<noteq> (0 :: u64)" using len full by simp
  obtain c where c: "sx_conn x = Some c" "conn_wf c"
    using assms(1) z emit_no_conn [OF _ nz] by (cases "sx_conn x") (auto simp: sse_wf_def)
  from emit_ok [OF z assms(2) c False short]
  obtain c' where "sx_conn z = Some c'" "conn_wf c'" "stream_of c' = stream_of c @ chunk ?s" by auto
  moreover have "sx_carry z = sx_carry x" using emit_chunk_fields(1) z by (metis snd_conv)
  ultimately show ?thesis
    using y c wf False short
    by (auto simp: sse_wf_def sse_stream_def af_buf_clear_def emptied_wf intro!: exI [of _ "[?s]"])
qed

text \<open>
  C3: A stream is passed through byte for byte. When all its fragments are fed, the end is
  reached and no append fails, what the client's connection has been given since is a chunked body
  that decodes, with the reference decoder, to exactly the bytes the provider sent, including
  those after the last complete event.
\<close>

theorem sse_passthrough:
  assumes "sse_wf x" "realloc_law ra" "list_all (\<lambda>f. length f < 2 ^ 64) fs" "contents (sx_carry x) = []"
    "\<not> sx_overflow x" "feed_all ra x fs = (AF_OK, x1)" "af_prov_sse_finish ra x1 = (AF_OK, x2)"
    "sx_conn x2 = Some c" "fst (af_buf_append_cstr ra (hc_outbox c) (Some s_last_chunk)) = AF_OK"
  shows "\<exists>body. sse_stream (finish_stream ra x1) = sse_stream x @ body \<and> dechunk body = Some (concat fs)"
proof -
  let ?sp = "sse_split (concat fs)"
  from feed_all_ok [OF assms(1-3) _ assms(6)] assms(4)
  have f: "forwarded x (fst ?sp) x1" "contents (sx_carry x1) = snd ?sp" "sx_overflow x1 = sx_overflow x" by auto
  then have wf1: "sse_wf x1" by (simp add: forwarded_def)
  from finish_ok [OF wf1 assms(2) _ assms(7)] f(3) assms(5) obtain es where
    e: "sse_wf x2" "list_all (\<lambda>e. e \<noteq> []) es" "list_all (\<lambda>e. length e < 2 ^ 64) es"
      "concat es = contents (sx_carry x1)" "sse_stream x2 = sse_stream x1 @ concat (map chunk es)" by auto
  have c: "conn_wf c" using e(1) assms(8) by (simp add: sse_wf_def)
  obtain b where b: "buf_put ra (hc_outbox c) s_last_chunk = (None, b)"
    using assms(9) by (cases "buf_put ra (hc_outbox c) s_last_chunk")
      (simp add: append_cstr_append s_last_chunk_def buf_put_def)
  then have bb: "af_buf_append_cstr ra (hc_outbox c) (Some s_last_chunk) = (None, b)"
    by (simp add: append_cstr_append s_last_chunk_def buf_put_def)
  have "buf_good ra (buf_max (hc_outbox c)) (hc_outbox c)" using assms(2) c by (simp add: buf_good_def conn_wf_def)
  from outbox.put_ok [OF this _ b] have "buf_wf b" "contents b = contents (hc_outbox c) @ s_last_chunk"
    by (simp_all add: buf_good_def s_last_chunk_def)
  from append_pending [OF c this] flush_ok [of "c\<lparr>hc_outbox := b\<rparr>"]
  have "sse_stream (finish_stream ra x1) = sse_stream x2 @ s_last_chunk"
    using assms(7,8) bb by (simp add: finish_stream_def sse_stream_def Let_def)
  then have "sse_stream (finish_stream ra x1) =
      sse_stream x @ concat (map chunk (fst ?sp @ es)) @ s_last_chunk"
    using f(1) e(5) by (simp add: forwarded_def)
  moreover have "dechunk (concat (map chunk (fst ?sp @ es)) @ s_last_chunk) = Some (concat (fst ?sp @ es))"
    using dechunk_chunks [of "fst ?sp @ es"] split_nonempty [of "concat fs"] f(1) e(2,3)
    by (simp add: forwarded_def)
  moreover have "concat (fst ?sp @ es) = concat fs" using e(4) f(2) split_concat [of "concat fs"] by simp
  ultimately show ?thesis by auto
qed

theorem sse_passthrough_witness:
  "\<exists>body. sse_stream (finish_stream plain_realloc (snd (feed_all plain_realloc sample_sse [[100, 10], [10, 97]]))) =
     sse_stream sample_sse @ body \<and> dechunk body = Some (concat [[100, 10], [10, 97]])"
proof -
  let ?fs = "[[100, 10], [10, 97]]"
  define x1 where "x1 = snd (feed_all plain_realloc sample_sse ?fs)"
  define x2 where "x2 = snd (af_prov_sse_finish plain_realloc x1)"
  define c where "c = the (sx_conn x2)"
  have "fst (feed_all plain_realloc sample_sse ?fs) = AF_OK" by code_simp
  then have f: "feed_all plain_realloc sample_sse ?fs = (AF_OK, x1)"
    by (simp only: x1_def prod_eq_iff fst_conv snd_conv)
  have "fst (af_prov_sse_finish plain_realloc (snd (feed_all plain_realloc sample_sse ?fs))) = AF_OK" by code_simp
  then have e: "af_prov_sse_finish plain_realloc x1 = (AF_OK, x2)"
    by (simp only: x1_def x2_def prod_eq_iff fst_conv snd_conv)
  have h: "case sx_conn (snd (af_prov_sse_finish plain_realloc (snd (feed_all plain_realloc sample_sse ?fs)))) of
      None \<Rightarrow> False
    | Some c \<Rightarrow> fst (af_buf_append_cstr plain_realloc (hc_outbox c) (Some s_last_chunk)) = AF_OK" by code_simp
  then have "case sx_conn x2 of None \<Rightarrow> False
      | Some c \<Rightarrow> fst (af_buf_append_cstr plain_realloc (hc_outbox c) (Some s_last_chunk)) = AF_OK"
    by (simp only: x1_def x2_def)
  then have s: "sx_conn x2 = Some c" "fst (af_buf_append_cstr plain_realloc (hc_outbox c) (Some s_last_chunk)) = AF_OK"
    by (auto simp: c_def split: option.splits)
  have n: "\<not> sx_overflow sample_sse" by (simp add: sample_sse_def)
  from sse_passthrough [OF sample_sse_wf(1) plain_realloc_law _ sample_sse_wf(2) n f e s]
  show ?thesis by (simp only: x1_def) simp
qed

section \<open>An event that fits its limit but not the outbox\<close>

text \<open>
  A chunk is written in pieces straight into the outbox, and a piece that does not fit leaves
  the earlier ones there.
\<close>

lemma emit_partial:
  assumes "realloc_law ra" "\<forall>d n. ra d n \<noteq> None" "sx_conn x = Some c" "conn_wf c" "e \<noteq> []" "length e < 2 ^ 64"
    "buf_max (hc_outbox c) < 2 ^ 63"
    "length (contents (hc_outbox c)) + length (hex_text (of_nat (length e))) + 2 \<le> unat (buf_max (hc_outbox c))"
    "unat (buf_max (hc_outbox c)) < length (contents (hc_outbox c)) + length (hex_text (of_nat (length e))) + 2 + length e"
  shows "\<exists>st y c'. af_prov_emit_chunk ra x e (of_nat (length e)) = (Some st, y) \<and> sx_conn y = Some c' \<and> conn_wf c' \<and>
    stream_of c' = stream_of c @ hex_text (of_nat (length e)) @ s_crlf \<and>
    contents (hc_outbox c') = contents (hc_outbox c) @ hex_text (of_nat (length e)) @ s_crlf \<and>
    c' = c\<lparr>hc_outbox := hc_outbox c'\<rparr> \<and> buf_max (hc_outbox c') = buf_max (hc_outbox c)"
proof -
  let ?m = "buf_max (hc_outbox c)" and ?h = "hex_text (of_nat (length e))"
  let ?ps = "map (\<lambda>c. [c]) ?h @ [s_crlf]"
  have good: "buf_good ra ?m (hc_outbox c)" using assms by (simp add: buf_good_def conn_wf_def)
  have ps: "concat ?ps = ?h @ s_crlf" by (simp add: concat_singles)
  have "list_all (\<lambda>p. length p < 2 ^ 64) ?ps" by (simp add: list_all_iff s_crlf_def)
  moreover have "length (contents (hc_outbox c)) + length (concat ?ps) \<le> unat ?m"
    using assms(8) by (simp add: ps s_crlf_def)
  ultimately obtain b where b: "put_all (buf_put ra) (hc_outbox c) ?ps = (None, b)" "buf_good ra ?m b"
    "contents b = contents (hc_outbox c) @ ?h @ s_crlf"
    using put_all_fits [OF good assms(7,2)] ps by metis
  obtain st b' where p: "buf_put ra b e = (st, b')" by fastforce
  have "fst (buf_put ra b e) \<noteq> None"
    using append_fits [of b ra e] b assms(1,2,6,7,9) by (simp add: buf_put_def buf_good_def s_crlf_def)
  then obtain st' where st: "st = Some st'" using p by auto
  have b': "b' = b" using outbox.put_fail [OF b(2) assms(6)] p st by simp
  have "chunk_pieces e = ?ps @ [e, s_crlf]" by (simp add: chunk_pieces_def)
  then have "put_all (buf_put ra) (hc_outbox c) (chunk_pieces e) = (Some st', b)"
    using b(1) p st b' by (simp only: put_all_append) simp
  moreover have "of_nat (length e) \<noteq> (0 :: u64)" using unat_of_length [OF assms(6)] assms(5) by auto
  ultimately have "af_prov_emit_chunk ra x e (of_nat (length e)) = (Some st', x\<lparr>sx_conn := Some (c\<lparr>hc_outbox := b\<rparr>)\<rparr>)"
    using assms(3) chunk_to_outbox_put_all [OF good, of e] by (simp add: af_prov_emit_chunk_def)
  moreover have "buf_wf b" "buf_max b = ?m" using b(2) by (simp_all add: buf_good_def)
  ultimately show ?thesis using append_pending [OF assms(4), of b] b(3) by auto
qed

text \<open>
  An event of exactly the default limit of 1048576 bytes is not delivered, and it spoils the
  response. The outbox of a connection holds at most 1048576 bytes, so the chunk of such an event does not fit:
  the feed fails without the overflow flag, after the size line of the chunk has been written,
  the event stays in the carry buffer, and nothing of it has reached the client's stream but
  that size line.
\<close>

lemma event_at_limit_not_delivered:
  assumes "sse_wf x" "realloc_law ra" "\<forall>d n. ra d n \<noteq> None" "\<not> sx_overflow x" "contents (sx_carry x) = []"
    "1048576 \<le> buf_max (sx_carry x)" "buf_max (sx_carry x) < 2 ^ 63"
    "sx_sse_limit x = 1048576" "length e = 1048576" "af_prov_sse_scan e = 1048576"
    "sx_conn x = Some c" "contents (hc_outbox c) = []" "buf_max (hc_outbox c) = 1048576"
  shows "\<exists>st y. af_prov_sse_feed ra x e = (Some st, y) \<and> \<not> sx_overflow y \<and> contents (sx_carry y) = e \<and>
    sse_stream y = sse_stream x @ [49, 48, 48, 48, 48, 48, 13, 10]"
proof -
  have wf: "buf_wf (sx_carry x)" and c: "conn_wf c" using assms(1,11) by (simp_all add: sse_wf_def)
  have s: "length e < 2 ^ 64" and ne: "e \<noteq> []" using assms(9) by auto
  have hex: "hex_text 1048576 = [49, 48, 48, 48, 48, 48]" by code_simp
  obtain st b where b: "af_buf_append ra (sx_carry x) (Some e) (of_nat (length e)) = (st, b)" by fastforce
  have "unat (1048576 :: u64) \<le> unat (buf_max (sx_carry x))" using assms(6) by (simp add: word_le_nat_alt)
  then have "length (contents (sx_carry x)) + length e \<le> unat (buf_max (sx_carry x))"
    using assms(5,9) by simp
  with append_fits [OF wf assms(2) s assms(7,3)] b have st: "st = None" by simp
  from append_ok [OF wf assms(2) unat_of_length [OF s, symmetric]] b st assms(5)
  have cb: "buf_wf b" "contents b = e" by auto
  let ?x = "x\<lparr>sx_carry := b\<rparr>"
  have full: "\<not> (buf_data b = None \<or> buf_len b = 0)" using carry_empty [OF cb(1)] cb(2) ne by blast
  have f: "\<forall>k. k = length e \<longrightarrow> k = 1048576" using assms(9) by simp
  have "\<exists>st y c'. af_prov_emit_chunk ra ?x e (of_nat (length e)) = (Some st, y) \<and> sx_conn y = Some c' \<and> conn_wf c' \<and>
    stream_of c' = stream_of c @ hex_text (of_nat (length e)) @ s_crlf \<and>
    contents (hc_outbox c') = contents (hc_outbox c) @ hex_text (of_nat (length e)) @ s_crlf \<and>
    c' = c\<lparr>hc_outbox := hc_outbox c'\<rparr> \<and> buf_max (hc_outbox c') = buf_max (hc_outbox c)"
    by (rule emit_partial [OF assms(2,3) _ c ne s]) (use assms hex in simp_all)
  then obtain st' y c' where y: "af_prov_emit_chunk ra ?x e (of_nat (length e)) = (Some st', y)"
    "sx_conn y = Some c'" "stream_of c' = stream_of c @ hex_text (of_nat (length e)) @ s_crlf" by blast
  have d: "sse_drain ra ?x = (Some st', y)"
    using y(1) full assms(8-10) cb by (subst sse_drain.simps) (simp add: Let_def)
  have "sx_overflow y = sx_overflow x" "sx_carry y = b"
    using emit_chunk_fields(1,4) [of ra ?x e "of_nat (length e)"] y(1) by simp_all
  then show ?thesis
    using d b st ne y assms(4,9,11) cb hex
    by (simp add: af_prov_sse_feed_def sse_stream_def s_crlf_def)
qed

lemma scan_plain_event:
  assumes "0 < n"
  shows "af_prov_sse_scan (replicate n 120 @ [10, 10]) = n + 2"
proof -
  let ?p = "replicate n 120 @ [10, 10] :: u8 list"
  have nth: "?p ! j = 120" if "j < n" for j using that by (simp add: nth_append)
  have mid: "?p ! n = 10" "?p ! (n + 1) = 10" by (simp_all add: nth_append)
  have at: "empty_line ?p (n + 1)" using mid by (simp add: empty_line_def)
  have before: "\<not> empty_line ?p m" if "m < n + 1" for m
  proof (cases "m = n")
    case True
    then show ?thesis using nth [of "n - 1"] assms by (simp add: empty_line_def)
  next
    case False
    then show ?thesis using that nth [of m] by (simp add: empty_line_def)
  qed
  have "scan_result ?p (af_prov_sse_scan ?p)"
    unfolding af_prov_sse_scan_def by (rule scan_at_result) (simp add: scan_state_def)
  then obtain j where j: "empty_line ?p j" "\<forall>m<j. \<not> empty_line ?p m" "af_prov_sse_scan ?p = j + eol_width ?p j"
    using at by (auto simp: scan_result_def)
  have "j = n + 1" using j(1,2) at before by (meson linorder_neqE_nat)
  with j(3) mid show ?thesis by (simp add: eol_width_def)
qed

definition big_event :: "u8 list" where
  "big_event = replicate 1048574 120 @ [10, 10]"

lemma big_event_facts: "length big_event = 1048576" "af_prov_sse_scan big_event = 1048576"
  unfolding big_event_def by (simp_all only: scan_plain_event length_append length_replicate) simp_all

definition default_sse :: sse_exchange where
  "default_sse = sample_sse
     \<lparr>sx_conn := Some (sample_conn\<lparr>hc_outbox := \<lparr>buf_data = None, buf_len = 0, buf_cap = 0, buf_max = 1048576\<rparr>,
        hc_out_cursor := 0, hc_sent := []\<rparr>),
      sx_carry := \<lparr>buf_data = None, buf_len = 0, buf_cap = 0, buf_max = 16777216\<rparr>, sx_sse_limit := 1048576\<rparr>"

lemma event_at_limit_not_delivered_witness:
  "\<exists>st y. af_prov_sse_feed plain_realloc default_sse big_event = (Some st, y) \<and> \<not> sx_overflow y \<and>
    contents (sx_carry y) = big_event \<and> sse_stream y = sse_stream default_sse @ [49, 48, 48, 48, 48, 48, 13, 10]"
  by (rule event_at_limit_not_delivered
      [where c = "sample_conn\<lparr>hc_outbox := \<lparr>buf_data = None, buf_len = 0, buf_cap = 0, buf_max = 1048576\<rparr>,
        hc_out_cursor := 0, hc_sent := []\<rparr>"])
    (simp_all add: big_event_facts plain_realloc_law plain_realloc_def default_sse_def sample_sse_def
      sse_wf_def conn_wf_def buf_wf_def contents_def)

section \<open>Backpressure\<close>

text \<open>
  Once the head is sent, a callback that finds at least 256 KiB pending in the outbox takes
  nothing, so that the bytes libcurl offers again are not delivered twice.
\<close>

lemma backpressure_takes_nothing:
  assumes "sx_active x" "sx_conn x = Some c" "conn_wf c" "sx_head_sent x" "AF_PROV_PAUSE_HIGH \<le> of_nat (length (pending c))"
  shows "af_prov_on_write ra x bytes = (TakePause, x\<lparr>sx_conn := Some (c\<lparr>hc_paused := True\<rparr>)\<rparr>) \<and>
    sse_stream (x\<lparr>sx_conn := Some (c\<lparr>hc_paused := True\<rparr>)\<rparr>) = sse_stream x"
proof -
  have le: "hc_out_cursor c \<le> buf_len (hc_outbox c)" and wf: "buf_wf (hc_outbox c)"
    using assms(3) by (simp_all add: conn_wf_def)
  have "length (pending c) = unat (buf_len (hc_outbox c)) - unat (hc_out_cursor c)"
    by (simp add: pending_def contents_wf [OF wf])
  also have "\<dots> = unat (buf_len (hc_outbox c) - hc_out_cursor c)" using le by (simp add: unat_sub)
  finally have "of_nat (length (pending c)) = buf_len (hc_outbox c) - hc_out_cursor c" by simp
  moreover have "\<not> sub_carry (buf_len (hc_outbox c)) (hc_out_cursor c)"
    using le by (simp add: sub_carry_def word_le_def)
  ultimately show ?thesis
    using assms by (simp add: af_prov_on_write_def sse_stream_def stream_of_def pending_def)
qed

end
