(* ===== verification/Http_Request.thy ===== *)
theory Http_Request
  imports Buffer
begin

text \<open>
  The request side of the HTTP listener: the llhttp callbacks of \<open>src/http/http_parse.asm\<close> with
  their helpers, and the credential check of \<open>src/http/http_auth.asm\<close>. The record keeps the fields
  of a connection that belong to one message; a flag and the value it guards are two fields as in
  the code, except \<open>HC_FAULT\<close>, which is \<open>None\<close> until \<open>HC_F_FAULT\<close> is set. llhttp is not under
  \<open>src/\<close>: what it reports about a message is an argument, and the callbacks are given the
  fragments it delivers. A callback returns whether it stops the parse (\<open>-1\<close>).
\<close>

datatype http_fault =
    AF_HERR_UNKNOWN_PATH | AF_HERR_METHOD_GET_ONLY | AF_HERR_METHOD_POST_ONLY | AF_HERR_HEADERS_TOO_LARGE
  | AF_HERR_BODY_TOO_LARGE | AF_HERR_LENGTH_REQUIRED | AF_HERR_UNSUPPORTED_CTYPE | AF_HERR_INVALID_JSON
  | AF_HERR_INVALID_FIELD | AF_HERR_MISSING_MODEL | AF_HERR_MISSING_TOKEN | AF_HERR_INVALID_TOKEN
  | AF_HERR_MALFORMED | AF_HERR_SMUGGLING | AF_HERR_REQUEST_TIMEOUT | AF_HERR_NOT_READY
  | AF_HERR_UNKNOWN_ALIAS | AF_HERR_ROUTE_DISABLED | AF_HERR_UNSUPPORTED_BUILD | AF_HERR_VERSION
  | AF_HERR_INTERNAL | AF_HERR_UPSTREAM_CONNECT | AF_HERR_UPSTREAM_TLS | AF_HERR_UPSTREAM_TIMEOUT
  | AF_HERR_UPSTREAM_INVALID | AF_HERR_NO_TARGET | AF_HERR_CAPACITY

datatype endpoint =
    AF_EP_UNKNOWN | AF_EP_HEALTHZ | AF_EP_READYZ | AF_EP_MODELS | AF_EP_RESPONSES | AF_EP_CHAT

datatype auth_type = AF_AUTH_NONE | AF_AUTH_BEARER_ENV | AF_AUTH_HEADER_ENV

record http_server =
  hs_auth_type :: auth_type
  hs_auth_header :: "u8 list option"
  hs_auth_secret :: "u8 list option"
  hs_auth_secret_len :: u64
  hs_body_max :: u64

record http_message =
  hm_server :: "http_server option"
  hm_target :: af_buffer
  hm_name :: af_buffer
  hm_value :: af_buffer
  hm_body :: af_buffer
  hm_auth :: af_buffer
  hm_ctype :: af_buffer
  hm_method :: int
  hm_endpoint :: endpoint
  hm_body_bytes :: u64
  hm_content_length :: u64
  hm_have_cl :: bool
  hm_have_te :: bool
  hm_have_auth :: bool
  hm_have_ctype :: bool
  hm_headers_done :: bool
  hm_keep_alive :: bool
  hm_fault :: "http_fault option"

definition ascii :: "string \<Rightarrow> u8 list" where
  "ascii s = map of_char s"

definition h_content_length :: "u8 list" where "h_content_length = ascii ''content-length''"
definition h_transfer_encoding :: "u8 list" where "h_transfer_encoding = ascii ''transfer-encoding''"
definition h_content_type :: "u8 list" where "h_content_type = ascii ''content-type''"
definition v_chunked :: "u8 list" where "v_chunked = ascii ''chunked''"
definition h_authorization :: "u8 list" where "h_authorization = ascii ''authorization''"

section \<open>Helpers\<close>

definition af_http_fault :: "http_message \<Rightarrow> http_fault \<Rightarrow> http_message" where
  "af_http_fault c e = (case hm_fault c of None \<Rightarrow> c\<lparr>hm_fault := Some e\<rparr> | Some _ \<Rightarrow> c)"

definition refuse :: "http_message \<Rightarrow> http_fault \<Rightarrow> bool \<times> http_message" where
  "refuse c e = (True, af_http_fault c e)"

definition af_http_has_fault :: "http_message \<Rightarrow> bool" where
  "af_http_has_fault c \<longleftrightarrow> hm_fault c \<noteq> None"

definition endpoint_table :: "(u8 list \<times> nat \<times> endpoint) list" where
  "endpoint_table =
     [(ascii ''/healthz'', 8, AF_EP_HEALTHZ), (ascii ''/readyz'', 7, AF_EP_READYZ),
      (ascii ''/v1/models'', 10, AF_EP_MODELS), (ascii ''/v1/responses'', 13, AF_EP_RESPONSES),
      (ascii ''/v1/chat/completions'', 20, AF_EP_CHAT)]"

fun match_endpoint :: "u8 list \<Rightarrow> nat \<Rightarrow> (u8 list \<times> nat \<times> endpoint) list \<Rightarrow> endpoint" where
  "match_endpoint target n [] = AF_EP_UNKNOWN"
| "match_endpoint target n ((path, len, ep) # table) =
     (if len \<noteq> n then match_endpoint target n table
      else if af_mem_eq target path n then ep
      else match_endpoint target n table)"

function query_at :: "u8 list \<Rightarrow> nat \<Rightarrow> nat" where
  "query_at s i = (if length s \<le> i then i else if s ! i = 63 then i else query_at s (i + 1))"
  by pat_completeness auto
termination by (relation "measure (\<lambda>(s, i). length s - i)") auto

declare query_at.simps [simp del]

definition af_http_resolve_endpoint :: "u8 list \<Rightarrow> endpoint" where
  "af_http_resolve_endpoint target =
     (if target = [] then AF_EP_UNKNOWN
      else if target ! 0 \<noteq> 47 then AF_EP_UNKNOWN
      else match_endpoint target (query_at target 0) endpoint_table)"

fun http_value_from :: "u64 \<Rightarrow> u8 list \<Rightarrow> af_status + u64" where
  "http_value_from acc [] = Inr acc"
| "http_value_from acc (c # s) =
     (let d = (ucast c :: 32 word) - 48
      in if d > 9 then Inl AF_E_INVALID
         else if mul_high acc 10 \<noteq> 0 then Inl AF_E_INVALID
         else if add_carry (acc * 10) (ucast d) then Inl AF_E_INVALID
         else http_value_from (acc * 10 + ucast d) s)"

definition af_http_parse_u64 :: "u8 list \<Rightarrow> af_status + u64" where
  "af_http_parse_u64 s =
     (if s = [] then Inl AF_E_INVALID
      else if 20 < length s then Inl AF_E_INVALID
      else http_value_from 0 s)"

definition af_http_buffer_is_ci :: "af_buffer \<Rightarrow> u8 list \<Rightarrow> bool" where
  "af_http_buffer_is_ci b token =
     (let n = af_cstr_len (Some token)
      in if buf_len b \<noteq> of_nat n then False
         else if buf_data b = None then False
         else af_mem_eq_ci (contents b) token n)"

definition af_http_buffer_starts_ci :: "af_buffer \<Rightarrow> u8 list \<Rightarrow> bool" where
  "af_http_buffer_starts_ci b start =
     (let n = af_cstr_len (Some start)
      in if buf_len b < of_nat n then False
         else if buf_data b = None then False
         else af_mem_eq_ci (contents b) start n)"

definition af_http_header_is :: "http_message \<Rightarrow> u8 list \<Rightarrow> bool" where
  "af_http_header_is c name = af_http_buffer_is_ci (hm_name c) name"

definition af_http_ctype_is :: "http_message \<Rightarrow> u8 list \<Rightarrow> bool" where
  "af_http_ctype_is c media = af_http_buffer_starts_ci (hm_ctype c) media"

section \<open>The callbacks\<close>

definition af_http_reset_message :: "http_message \<Rightarrow> http_message" where
  "af_http_reset_message c =
     c\<lparr>hm_target := af_buf_clear_secure (hm_target c), hm_name := af_buf_clear_secure (hm_name c),
       hm_value := af_buf_clear_secure (hm_value c), hm_body := af_buf_clear_secure (hm_body c),
       hm_auth := af_buf_clear_secure (hm_auth c), hm_ctype := af_buf_clear_secure (hm_ctype c),
       hm_method := 0, hm_endpoint := AF_EP_UNKNOWN, hm_body_bytes := 0, hm_content_length := -1,
       hm_have_cl := False, hm_have_te := False, hm_have_auth := False, hm_have_ctype := False,
       hm_headers_done := False, hm_keep_alive := False, hm_fault := None\<rparr>"

definition af_http_cb_message_begin :: "http_message \<Rightarrow> bool \<times> http_message" where
  "af_http_cb_message_begin c = (False, af_http_reset_message c)"

definition af_http_cb_url :: "allocator \<Rightarrow> http_message \<Rightarrow> u8 list \<Rightarrow> bool \<times> http_message" where
  "af_http_cb_url ra c bytes =
     (case buf_put ra (hm_target c) bytes of
        (Some e, b) \<Rightarrow> refuse (c\<lparr>hm_target := b\<rparr>) AF_HERR_HEADERS_TOO_LARGE
      | (None, b) \<Rightarrow> (False, c\<lparr>hm_target := b\<rparr>))"

definition af_http_cb_header_field :: "allocator \<Rightarrow> http_message \<Rightarrow> u8 list \<Rightarrow> bool \<times> http_message" where
  "af_http_cb_header_field ra c bytes =
     (let c = (if buf_len (hm_value c) = 0 then c
               else c\<lparr>hm_name := af_buf_clear_secure (hm_name c), hm_value := af_buf_clear_secure (hm_value c)\<rparr>)
      in case buf_put ra (hm_name c) bytes of
           (Some e, b) \<Rightarrow> refuse (c\<lparr>hm_name := b\<rparr>) AF_HERR_HEADERS_TOO_LARGE
         | (None, b) \<Rightarrow> (False, c\<lparr>hm_name := b\<rparr>))"

definition af_http_cb_header_value :: "allocator \<Rightarrow> http_message \<Rightarrow> u8 list \<Rightarrow> bool \<times> http_message" where
  "af_http_cb_header_value ra c bytes =
     (case buf_put ra (hm_value c) bytes of
        (Some e, b) \<Rightarrow> refuse (c\<lparr>hm_value := b\<rparr>) AF_HERR_HEADERS_TOO_LARGE
      | (None, b) \<Rightarrow> (False, c\<lparr>hm_value := b\<rparr>))"

text \<open>The credential header, whichever the policy names.\<close>

definition credential_value :: "allocator \<Rightarrow> http_message \<Rightarrow> bool \<times> http_message" where
  "credential_value ra c =
     (case hm_server c of
        None \<Rightarrow> (False, c)
      | Some s \<Rightarrow>
          (case hs_auth_header s of
             None \<Rightarrow> (False, c)
           | Some name \<Rightarrow>
               if \<not> af_http_header_is c name then (False, c)
               else if hm_have_auth c then refuse c AF_HERR_SMUGGLING
               else
                 (case af_buf_append ra (hm_auth c) (map_option (\<lambda>_. contents (hm_value c)) (buf_data (hm_value c)))
                         (buf_len (hm_value c)) of
                    (Some e, b) \<Rightarrow> refuse (c\<lparr>hm_auth := b\<rparr>) AF_HERR_HEADERS_TOO_LARGE
                  | (None, b) \<Rightarrow> (False, c\<lparr>hm_auth := b, hm_have_auth := True\<rparr>))))"

definition af_http_cb_header_value_complete :: "allocator \<Rightarrow> http_message \<Rightarrow> bool \<times> http_message" where
  "af_http_cb_header_value_complete ra c =
     (if af_http_header_is c h_content_length then
        (if hm_have_cl c then refuse c AF_HERR_SMUGGLING
         else if hm_have_te c then refuse c AF_HERR_SMUGGLING
         else
           case af_http_parse_u64 (contents (hm_value c)) of
             Inl e \<Rightarrow> refuse c AF_HERR_SMUGGLING
           | Inr n \<Rightarrow> (False, c\<lparr>hm_content_length := n, hm_have_cl := True\<rparr>))
      else if af_http_header_is c h_transfer_encoding then
        (if hm_have_te c then refuse c AF_HERR_SMUGGLING
         else if hm_have_cl c then refuse c AF_HERR_SMUGGLING
         else if \<not> af_http_buffer_is_ci (hm_value c) v_chunked then refuse c AF_HERR_SMUGGLING
         else (False, c\<lparr>hm_have_te := True\<rparr>))
      else if af_http_header_is c h_content_type then
        (case af_buf_append ra (hm_ctype c) (map_option (\<lambda>_. contents (hm_value c)) (buf_data (hm_value c)))
                (buf_len (hm_value c)) of
           (Some e, b) \<Rightarrow> refuse (c\<lparr>hm_ctype := b\<rparr>) AF_HERR_HEADERS_TOO_LARGE
         | (None, b) \<Rightarrow> (False, c\<lparr>hm_ctype := b, hm_have_ctype := True\<rparr>))
      else credential_value ra c)"

text \<open>What llhttp knows at the end of the header section.\<close>

record llhttp_report =
  ll_method :: int
  ll_major :: int
  ll_minor :: int
  ll_upgrade :: bool
  ll_keep_alive :: bool

definition af_http_cb_headers_complete :: "llhttp_report \<Rightarrow> http_message \<Rightarrow> bool \<times> http_message" where
  "af_http_cb_headers_complete ll c =
     (let c = c\<lparr>hm_headers_done := True, hm_method := ll_method ll\<rparr>
      in if ll_major ll \<noteq> 1 then refuse c AF_HERR_VERSION
         else if ll_minor ll < 0 \<or> ll_minor ll > 1 then refuse c AF_HERR_VERSION
         else if ll_upgrade ll then refuse c AF_HERR_MALFORMED
         else
           let c = (if ll_keep_alive ll then c\<lparr>hm_keep_alive := True\<rparr> else c);
               target = contents (hm_target c)
           in if target = [] then refuse c AF_HERR_MALFORMED
              else if target ! 0 \<noteq> 47 then refuse c AF_HERR_MALFORMED
              else
                let c = c\<lparr>hm_endpoint := af_http_resolve_endpoint target\<rparr>
                in case hm_server c of
                     None \<Rightarrow> (False, c)
                   | Some s \<Rightarrow>
                       if sint (hm_content_length c) < 0 then (False, c)
                       else if hs_body_max s < hm_content_length c then refuse c AF_HERR_BODY_TOO_LARGE
                       else (False, c))"

definition af_http_cb_body :: "allocator \<Rightarrow> http_message \<Rightarrow> u8 list \<Rightarrow> bool \<times> http_message" where
  "af_http_cb_body ra c bytes =
     (let n = of_nat (length bytes); total = hm_body_bytes c + n
      in if add_carry (hm_body_bytes c) n then refuse c AF_HERR_BODY_TOO_LARGE
         else if (case hm_server c of None \<Rightarrow> False | Some s \<Rightarrow> hs_body_max s < total) then refuse c AF_HERR_BODY_TOO_LARGE
         else
           let c = c\<lparr>hm_body_bytes := total\<rparr>
           in case buf_put ra (hm_body c) bytes of
                (Some e, b) \<Rightarrow> refuse (c\<lparr>hm_body := b\<rparr>) AF_HERR_BODY_TOO_LARGE
              | (None, b) \<Rightarrow> (False, c\<lparr>hm_body := b\<rparr>))"

section \<open>The credential\<close>

definition refuse_auth :: "http_message \<Rightarrow> http_fault \<Rightarrow> af_status option \<times> http_message" where
  "refuse_auth c e = (Some AF_E_HTTP_AUTH, af_http_fault c e)"

text \<open>The comparison of the presented token with the secret, the length first.\<close>

definition compare_token :: "http_message \<Rightarrow> u8 list \<Rightarrow> u64 \<Rightarrow> u8 list \<Rightarrow> u64 \<Rightarrow> af_status option \<times> http_message" where
  "compare_token c token len secret secret_len =
     (if len \<noteq> secret_len then refuse_auth c AF_HERR_INVALID_TOKEN
      else if \<not> af_mem_eq_ct token secret (unat secret_len) then refuse_auth c AF_HERR_INVALID_TOKEN
      else (AF_OK, c))"

definition BEARER_LEN :: u64 where "BEARER_LEN = 6"

definition af_http_check_auth :: "http_message \<Rightarrow> af_status option \<times> http_message" where
  "af_http_check_auth c =
     (case hm_server c of
        None \<Rightarrow> (Some AF_E_INVALID, c)
      | Some s \<Rightarrow>
          if hs_auth_type s = AF_AUTH_NONE then (AF_OK, c)
          else case hs_auth_secret s of
            None \<Rightarrow> refuse_auth c AF_HERR_MISSING_TOKEN
          | Some secret \<Rightarrow>
              if hs_auth_secret_len s = 0 then refuse_auth c AF_HERR_MISSING_TOKEN
              else if \<not> hm_have_auth c then refuse_auth c AF_HERR_MISSING_TOKEN
              else if buf_data (hm_auth c) = None then refuse_auth c AF_HERR_MISSING_TOKEN
              else
                let p = contents (hm_auth c); n = buf_len (hm_auth c)
                in if hs_auth_type s \<noteq> AF_AUTH_BEARER_ENV then compare_token c p n secret (hs_auth_secret_len s)
                   else if n \<le> BEARER_LEN + 1 then refuse_auth c AF_HERR_INVALID_TOKEN
                   else if \<not> af_mem_eq_ci p (ascii ''bearer'') (unat BEARER_LEN) then refuse_auth c AF_HERR_INVALID_TOKEN
                   else if p ! unat BEARER_LEN \<noteq> 32 then refuse_auth c AF_HERR_INVALID_TOKEN
                   else compare_token c (drop (unat (BEARER_LEN + 1)) p) (n - (BEARER_LEN + 1)) secret
                          (hs_auth_secret_len s))"

section \<open>Names and values\<close>

definition same_ci :: "u8 list \<Rightarrow> u8 list \<Rightarrow> bool" where
  "same_ci a b \<longleftrightarrow> map af_ascii_lower a = map af_ascii_lower b"

text \<open>A token of the program: not empty and without a zero byte.\<close>

definition token_ok :: "u8 list \<Rightarrow> bool" where
  "token_ok t \<longleftrightarrow> t \<noteq> [] \<and> 0 \<notin> set t \<and> length t < 2 ^ 64"

lemma tokens_ok:
  "token_ok h_content_length" "token_ok h_transfer_encoding" "token_ok h_content_type" "token_ok v_chunked"
  by (simp_all add: token_ok_def h_content_length_def h_transfer_encoding_def h_content_type_def v_chunked_def ascii_def)

lemma buffer_is_ci_iff:
  assumes "buf_wf b" "token_ok t"
  shows "af_http_buffer_is_ci b t \<longleftrightarrow> same_ci (contents b) t"
proof -
  have n: "af_cstr_len (Some t) = length t" and u: "unat (of_nat (length t) :: u64) = length t"
    using assms(2) by (auto simp: token_ok_def af_cstr_len_length unat_of_length)
  have l: "buf_len b = of_nat (length t) \<longleftrightarrow> length (contents b) = length t"
    using contents_wf [OF assms(1)] u by (metis word_unat_eq_iff)
  have "length (contents b) = length t \<Longrightarrow> buf_data b \<noteq> None"
    using assms(2) by (cases "buf_data b") (auto simp: contents_def token_ok_def)
  then show ?thesis
    using n l af_mem_eq_ci_iff [of "length t" "contents b" t]
    by (auto simp: af_http_buffer_is_ci_def Let_def same_ci_def dest: map_eq_imp_length_eq)
qed

lemma buffer_is_ci_bytes:
  "buf_wf b \<Longrightarrow> token_ok t \<Longrightarrow> contents b = s \<Longrightarrow> af_http_buffer_is_ci b t \<longleftrightarrow> same_ci s t"
  by (simp add: buffer_is_ci_iff)

text \<open>A Content-Length is what the strict decimal parser accepts, at most 20 bytes of it.\<close>

lemma http_digit: "uint ((ucast (c :: u8) :: 32 word) - 48) = (uint c - 48) mod 2 ^ 32"
proof -
  have "uint (ucast c :: 32 word) = uint c" by (simp add: uint_up_ucast is_up)
  then show ?thesis by (simp add: uint_word_ariths)
qed

lemma http_digit_test:
  "(ucast (c :: u8) :: 32 word) - 48 > 9 \<longleftrightarrow> \<not> is_digit c"
  "is_digit c \<Longrightarrow> (ucast ((ucast c :: 32 word) - 48) :: u64) = ucast (c - 48)"
proof -
  have r: "0 \<le> uint c" "uint c < 256" using uint_lt2p [of c] by auto
  show t: "(ucast c :: 32 word) - 48 > 9 \<longleftrightarrow> \<not> is_digit c"
  proof (cases "48 \<le> uint c")
    case True
    with r have "uint ((ucast c :: 32 word) - 48) = uint c - 48" unfolding http_digit by (simp add: mod_pos_pos_trivial)
    with True show ?thesis by (simp add: word_less_def is_digit_def) linarith
  next
    case False
    have "(uint c - 48) mod 2 ^ 32 = (uint c - 48 + 2 ^ 32) mod 2 ^ 32" by (rule mod_add_self2 [symmetric])
    also have "\<dots> = uint c - 48 + 2 ^ 32" using False r by (intro mod_pos_pos_trivial) auto
    finally have m: "(uint c - 48) mod 2 ^ 32 = uint c - 48 + 2 ^ 32" .
    have p: "(2 :: int) ^ 32 = 4294967296" by simp
    have "9 < uint c - 48 + 4294967296" using r(1) by linarith
    then have "9 < uint ((ucast c :: 32 word) - 48)" unfolding http_digit m unfolding p .
    with False show ?thesis by (simp add: word_less_def is_digit_def)
  qed
  assume d: "is_digit c"
  then have "uint ((ucast c :: 32 word) - 48) = digit_value c"
    unfolding http_digit by (simp add: is_digit_def digit_value_def)
  then have "uint (ucast ((ucast c :: 32 word) - 48) :: u64) = digit_value c" by (simp add: uint_up_ucast is_up)
  with digit_test(2) [OF d] show "(ucast ((ucast c :: 32 word) - 48) :: u64) = ucast (c - 48)"
    by (simp add: word_uint_eq_iff)
qed

lemma http_value_from_dec: "http_value_from acc s = Inr v \<longleftrightarrow> dec_value_from acc s = Inr v"
proof (induction acc s rule: dec_value_from.induct)
  case (2 acc c s)
  then show ?case
    by (cases "is_digit c") (simp_all add: Let_def http_digit_test digit_test(1))
qed simp

lemma af_http_parse_u64_iff: "af_http_parse_u64 s = Inr v \<longleftrightarrow> length s \<le> 20 \<and> af_dec_to_u64 s = Inr v"
  by (auto simp: af_http_parse_u64_def af_dec_to_u64_def http_value_from_dec)

section \<open>The credential check\<close>

lemma compare_token_ok:
  assumes "length token = unat len" "length secret = unat secret_len"
  shows "fst (compare_token c token len secret secret_len) = AF_OK \<longleftrightarrow> token = secret"
proof -
  have "len = secret_len \<longleftrightarrow> length token = length secret" using assms by (simp add: word_unat_eq_iff)
  then show ?thesis
    using assms af_mem_eq_ct_iff [of "length secret" token secret]
    by (auto simp: compare_token_def refuse_auth_def)
qed

text \<open>The header value a policy asks for.\<close>

definition presents :: "auth_type \<Rightarrow> u8 list \<Rightarrow> u8 list \<Rightarrow> bool" where
  "presents t secret p \<longleftrightarrow>
     (if t = AF_AUTH_BEARER_ENV
      then same_ci (take 6 p) (ascii ''bearer'') \<and> drop 6 p = 32 # secret
      else p = secret)"

lemma bearer_fields: "length (ascii ''bearer'') = 6"
  by (simp add: ascii_def)

text \<open>The bearer branch of the check, on the header value \<open>p\<close> of length \<open>n\<close>.\<close>

lemma bearer_ok:
  assumes n: "length p = unat n" and sl: "unat slen = length secret" and ne: "secret \<noteq> []"
  shows "fst (if n \<le> BEARER_LEN + 1 then refuse_auth c AF_HERR_INVALID_TOKEN
       else if \<not> af_mem_eq_ci p (ascii ''bearer'') (unat BEARER_LEN) then refuse_auth c AF_HERR_INVALID_TOKEN
       else if p ! unat BEARER_LEN \<noteq> 32 then refuse_auth c AF_HERR_INVALID_TOKEN
       else compare_token c (drop (unat (BEARER_LEN + 1)) p) (n - (BEARER_LEN + 1)) secret slen) = AF_OK \<longleftrightarrow>
     same_ci (take 6 p) (ascii ''bearer'') \<and> drop 6 p = 32 # secret"
proof -
  have seven: "unat (BEARER_LEN + 1) = 7" "unat BEARER_LEN = 6" by (simp_all add: BEARER_LEN_def)
  show ?thesis
  proof (cases "length p \<le> 7")
    case True
    then have "n \<le> BEARER_LEN + 1" using n seven by (simp add: word_le_nat_alt)
    moreover have "drop 6 p \<noteq> 32 # secret"
    proof
      assume "drop 6 p = 32 # secret"
      then have "length (drop 6 p) = Suc (length secret)" by simp
      with True ne show False by (cases secret) auto
    qed
    ultimately show ?thesis by (simp add: refuse_auth_def)
  next
    case False
    then have big: "\<not> n \<le> BEARER_LEN + 1" using n seven by (simp add: word_le_nat_alt)
    have eq: "af_mem_eq_ci p (ascii ''bearer'') 6 \<longleftrightarrow> same_ci (take 6 p) (ascii ''bearer'')"
      using False bearer_fields by (simp add: af_mem_eq_ci_iff same_ci_def)
    have d: "drop 6 p = p ! 6 # drop 7 p" using False Cons_nth_drop_Suc [of 6 p] by simp
    have "unat (n - (BEARER_LEN + 1)) = unat n - 7"
      using big seven by (subst unat_sub) auto
    then have l: "length (drop 7 p) = unat (n - (BEARER_LEN + 1))" using n by simp
    show ?thesis
      using compare_token_ok [OF l sl [symmetric], of c] big eq d seven by (auto simp: refuse_auth_def)
  qed
qed

text \<open>
  C22: The credential check lets a request through exactly when the policy is satisfied: there is
  no policy, or the credential header was sent once and its value is the secret itself, or for
  a bearer policy the scheme \<open>Bearer\<close> in any case, one space and the secret, every byte of it compared. Otherwise
  the request is refused with a fault recorded.
\<close>

theorem auth_allows_iff:
  assumes "hm_server c = Some s" "buf_wf (hm_auth c)" "hs_auth_secret s = Some secret"
    "hs_auth_secret_len s = of_nat (length secret)" "secret \<noteq> []" "length secret < 2 ^ 64"
  shows "(fst (af_http_check_auth c) = AF_OK \<longleftrightarrow>
      hs_auth_type s = AF_AUTH_NONE \<or> hm_have_auth c \<and> presents (hs_auth_type s) secret (contents (hm_auth c))) \<and>
    (fst (af_http_check_auth c) \<noteq> AF_OK \<longrightarrow>
      fst (af_http_check_auth c) = Some AF_E_HTTP_AUTH \<and> af_http_has_fault (snd (af_http_check_auth c)))"
proof -
  let ?p = "contents (hm_auth c)" and ?n = "buf_len (hm_auth c)"
  have n: "length ?p = unat ?n" using contents_wf [OF assms(2)] .
  have sl: "unat (hs_auth_secret_len s) = length secret" using assms(4,6) unat_of_length by simp
  then have s0: "hs_auth_secret_len s \<noteq> 0" using assms(5) by auto
  have none: "buf_data (hm_auth c) = None \<Longrightarrow> ?p = []" by (simp add: contents_def)
  have fault: "fst (af_http_check_auth c) \<noteq> AF_OK \<longrightarrow>
      fst (af_http_check_auth c) = Some AF_E_HTTP_AUTH \<and> af_http_has_fault (snd (af_http_check_auth c))"
    using assms(1,3) by (auto simp: af_http_check_auth_def compare_token_def refuse_auth_def af_http_fault_def
        af_http_has_fault_def Let_def split: if_splits option.splits)
  have "fst (af_http_check_auth c) = AF_OK \<longleftrightarrow>
      hs_auth_type s = AF_AUTH_NONE \<or> hm_have_auth c \<and> presents (hs_auth_type s) secret ?p"
  proof (cases "hs_auth_type s = AF_AUTH_NONE \<or> \<not> hm_have_auth c \<or> buf_data (hm_auth c) = None")
    case True
    then show ?thesis
      using assms(1,3,5) s0 none by (auto simp: af_http_check_auth_def refuse_auth_def presents_def same_ci_def)
  next
    case False
    then show ?thesis
      using assms(1,3) s0 bearer_ok [OF n sl assms(5), of c] compare_token_ok [OF n sl [symmetric], of c]
      by (auto simp: af_http_check_auth_def presents_def Let_def)
  qed
  with fault show ?thesis by blast
qed

definition bearer_server :: http_server where
  "bearer_server = \<lparr>hs_auth_type = AF_AUTH_BEARER_ENV, hs_auth_header = Some h_authorization,
     hs_auth_secret = Some [115, 51], hs_auth_secret_len = 2, hs_body_max = 1000\<rparr>"

definition fresh_buffer :: af_buffer where
  "fresh_buffer = \<lparr>buf_data = None, buf_len = 0, buf_cap = 0, buf_max = 8192\<rparr>"

definition fresh_message :: "http_server \<Rightarrow> http_message" where
  "fresh_message s = \<lparr>hm_server = Some s, hm_target = fresh_buffer, hm_name = fresh_buffer, hm_value = fresh_buffer,
     hm_body = fresh_buffer, hm_auth = fresh_buffer, hm_ctype = fresh_buffer, hm_method = 0, hm_endpoint = AF_EP_UNKNOWN,
     hm_body_bytes = 0, hm_content_length = -1, hm_have_cl = False, hm_have_te = False, hm_have_auth = False,
     hm_have_ctype = False, hm_headers_done = False, hm_keep_alive = False, hm_fault = None\<rparr>"

theorem auth_allows_iff_witness:
  "let b = \<lparr>buf_data = Some [98, 69, 97, 82, 101, 114, 32, 115, 51, 0], buf_len = 9, buf_cap = 10, buf_max = 64\<rparr>;
       c = fresh_message bearer_server\<lparr>hm_auth := b, hm_have_auth := True\<rparr>
   in (fst (af_http_check_auth c) = AF_OK \<longleftrightarrow>
      hs_auth_type bearer_server = AF_AUTH_NONE \<or> hm_have_auth c \<and> presents (hs_auth_type bearer_server) [115, 51] (contents (hm_auth c))) \<and>
    (fst (af_http_check_auth c) \<noteq> AF_OK \<longrightarrow>
      fst (af_http_check_auth c) = Some AF_E_HTTP_AUTH \<and> af_http_has_fault (snd (af_http_check_auth c)))"
  unfolding Let_def
  by (rule auth_allows_iff) (simp_all add: fresh_message_def bearer_server_def buf_wf_def)

section \<open>The header section\<close>

text \<open>
  The calls llhttp makes for one header: the fragments of its name, the fragments of its value,
  and the completion. The parse stops at the first callback that says so.
\<close>

fun run_frags ::
  "(http_message \<Rightarrow> u8 list \<Rightarrow> bool \<times> http_message) \<Rightarrow> http_message \<Rightarrow> u8 list list \<Rightarrow> bool \<times> http_message" where
  "run_frags f c [] = (False, c)"
| "run_frags f c (x # xs) = (case f c x of (True, c') \<Rightarrow> (True, c') | (False, c') \<Rightarrow> run_frags f c' xs)"

definition deliver :: "allocator \<Rightarrow> http_message \<Rightarrow> u8 list list \<times> u8 list list \<Rightarrow> bool \<times> http_message" where
  "deliver ra c h =
     (case run_frags (af_http_cb_header_field ra) c (fst h) of
        (True, c) \<Rightarrow> (True, c)
      | (False, c) \<Rightarrow>
          (case run_frags (af_http_cb_header_value ra) c (snd h) of
             (True, c) \<Rightarrow> (True, c)
           | (False, c) \<Rightarrow> af_http_cb_header_value_complete ra c))"

fun deliver_all :: "allocator \<Rightarrow> http_message \<Rightarrow> (u8 list list \<times> u8 list list) list \<Rightarrow> bool \<times> http_message" where
  "deliver_all ra c [] = (False, c)"
| "deliver_all ra c (h # hs) = (case deliver ra c h of (True, c') \<Rightarrow> (True, c') | (False, c') \<Rightarrow> deliver_all ra c' hs)"

text \<open>The header as the client sent it.\<close>

definition header_of :: "u8 list list \<times> u8 list list \<Rightarrow> u8 list \<times> u8 list" where
  "header_of h = (concat (fst h), concat (snd h))"

text \<open>Which headers the framing rules are about.\<close>

definition is_cl :: "u8 list \<times> u8 list \<Rightarrow> bool" where
  "is_cl h \<longleftrightarrow> same_ci (fst h) h_content_length"

definition is_te :: "u8 list \<times> u8 list \<Rightarrow> bool" where
  "is_te h \<longleftrightarrow> same_ci (fst h) h_transfer_encoding"

definition is_cred :: "http_server \<Rightarrow> u8 list \<times> u8 list \<Rightarrow> bool" where
  "is_cred s h \<longleftrightarrow> \<not> is_cl h \<and> \<not> is_te h \<and> \<not> same_ci (fst h) h_content_type \<and>
     (case hs_auth_header s of None \<Rightarrow> False | Some name \<Rightarrow> same_ci (fst h) name)"

text \<open>What a header section must satisfy, stated over the whole list of headers.\<close>

definition framed :: "http_server \<Rightarrow> (u8 list \<times> u8 list) list \<Rightarrow> bool" where
  "framed s hs \<longleftrightarrow>
     length (filter is_cl hs) \<le> 1 \<and> length (filter is_te hs) \<le> 1 \<and> \<not> (list_ex is_cl hs \<and> list_ex is_te hs) \<and>
     list_all (\<lambda>h. \<not> is_cl h \<or> length (snd h) \<le> 20 \<and> (\<exists>v. af_dec_to_u64 (snd h) = Inr v)) hs \<and>
     list_all (\<lambda>h. \<not> is_te h \<or> same_ci (snd h) v_chunked) hs \<and>
     length (filter (is_cred s) hs) \<le> 1"

lemma same_ci_length: "same_ci a b \<Longrightarrow> length a = length b"
  unfolding same_ci_def by (rule map_eq_imp_length_eq)

lemma name_lengths:
  "length h_content_length = 14" "length h_transfer_encoding = 17" "length h_content_type = 12"
  by (simp_all add: h_content_length_def h_transfer_encoding_def h_content_type_def ascii_def)

lemma te_not_cl: "is_te h \<Longrightarrow> \<not> is_cl h"
proof
  assume "is_te h" "is_cl h"
  then have "length (fst h) = 17" "length (fst h) = 14"
    by (auto simp: is_te_def is_cl_def name_lengths dest!: same_ci_length)
  then show False by simp
qed

lemma filter_le_one: "length (filter P (qs @ [h])) \<le> 1 \<longleftrightarrow> length (filter P qs) \<le> 1 \<and> (P h \<longrightarrow> \<not> list_ex P qs)"
proof (cases "P h")
  case True
  have "filter P qs = [] \<longleftrightarrow> \<not> list_ex P qs" by (simp add: filter_empty_conv list_ex_iff)
  with True show ?thesis by auto
qed simp

lemma framed_snoc:
  "framed s (qs @ [h]) \<longleftrightarrow> framed s qs \<and>
     (is_cl h \<longrightarrow> \<not> list_ex is_cl qs \<and> \<not> list_ex is_te qs \<and> (\<exists>v. af_http_parse_u64 (snd h) = Inr v)) \<and>
     (is_te h \<longrightarrow> \<not> list_ex is_te qs \<and> \<not> list_ex is_cl qs \<and> same_ci (snd h) v_chunked) \<and>
     (is_cred s h \<longrightarrow> \<not> list_ex (is_cred s) qs)"
  unfolding framed_def filter_le_one using te_not_cl [of h]
  by (auto simp: af_http_parse_u64_iff)

lemma framed_append: "framed s (as @ bs) \<Longrightarrow> framed s as"
  by (auto simp: framed_def)

definition msg_wf :: "http_message \<Rightarrow> bool" where
  "msg_wf c \<longleftrightarrow> buf_wf (hm_name c) \<and> buf_wf (hm_value c) \<and> buf_wf (hm_auth c) \<and> buf_wf (hm_ctype c)"

lemma clear_secure_ok: "buf_wf b \<Longrightarrow> buf_wf (af_buf_clear_secure b) \<and> contents (af_buf_clear_secure b) = []"
  by (simp add: af_buf_clear_secure_def emptied_wf wipe_from_wf)

lemma refuse_fault: "hm_fault c = None \<Longrightarrow> refuse c e = (st, c') \<Longrightarrow> st \<and> hm_fault c' = Some e"
  by (auto simp: refuse_def af_http_fault_def)

text \<open>The bytes a name is appended to: those of the previous name when the value buffer is empty.\<close>

definition carried_name :: "http_message \<Rightarrow> u8 list" where
  "carried_name c = (if contents (hm_value c) = [] then contents (hm_name c) else [])"

lemma put_ok:
  "realloc_law ra \<Longrightarrow> buf_wf b \<Longrightarrow> length p < 2 ^ 64 \<Longrightarrow> buf_put ra b p = (None, b') \<Longrightarrow>
   buf_wf b' \<and> contents b' = contents b @ p"
  using append_ok [of b ra p "of_nat (length p)" b'] unat_of_length [of p] by (simp add: buf_put_def)

lemma field_step:
  assumes "msg_wf c" "realloc_law ra" "length x < 2 ^ 64" "af_http_cb_header_field ra c x = (False, c')"
  shows "\<exists>b d. c' = c\<lparr>hm_name := b, hm_value := d\<rparr> \<and> buf_wf b \<and> buf_wf d \<and>
    contents b = carried_name c @ x \<and> contents d = []"
proof -
  have wf: "buf_wf (hm_name c)" "buf_wf (hm_value c)" using assms(1) by (simp_all add: msg_wf_def)
  have e: "buf_len (hm_value c) = 0 \<longleftrightarrow> contents (hm_value c) = []"
    using contents_wf [OF wf(2)] by (metis length_0_conv unat_eq_zero)
  show ?thesis
  proof (cases "contents (hm_value c) = []")
    case True
    then obtain b where b: "buf_put ra (hm_name c) x = (None, b)" and c': "c' = c\<lparr>hm_name := b\<rparr>"
      using assms(4) e by (auto simp: af_http_cb_header_field_def refuse_def split: prod.splits option.splits)
    from put_ok [OF assms(2) wf(1) assms(3) b] True c' wf(2) show ?thesis
      by (intro exI [of _ b] exI [of _ "hm_value c"]) (simp add: carried_name_def)
  next
    case False
    let ?n = "af_buf_clear_secure (hm_name c)" and ?v = "af_buf_clear_secure (hm_value c)"
    obtain b where b: "buf_put ra ?n x = (None, b)" and c': "c' = c\<lparr>hm_name := b, hm_value := ?v\<rparr>"
      using assms(4) e False
      by (auto simp: af_http_cb_header_field_def refuse_def Let_def split: prod.splits option.splits)
    from put_ok [OF assms(2) _ assms(3) b] clear_secure_ok [OF wf(1)] clear_secure_ok [OF wf(2)] False c'
    show ?thesis by (intro exI [of _ b] exI [of _ ?v]) (simp add: carried_name_def)
  qed
qed

lemma fields_ok:
  "msg_wf c \<Longrightarrow> realloc_law ra \<Longrightarrow> list_all (\<lambda>x. length x < 2 ^ 64) xs \<Longrightarrow> xs \<noteq> [] \<Longrightarrow>
   run_frags (af_http_cb_header_field ra) c xs = (False, c') \<Longrightarrow>
   \<exists>b d. c' = c\<lparr>hm_name := b, hm_value := d\<rparr> \<and> buf_wf b \<and> buf_wf d \<and>
     contents b = carried_name c @ concat xs \<and> contents d = []"
proof (induction xs arbitrary: c)
  case (Cons x xs)
  from Cons.prems(5) obtain c1 where c1: "af_http_cb_header_field ra c x = (False, c1)"
    and r: "run_frags (af_http_cb_header_field ra) c1 xs = (False, c')"
    by (auto split: prod.splits bool.splits)
  from field_step [OF Cons.prems(1,2) _ c1] Cons.prems(3) obtain b d where
    s: "c1 = c\<lparr>hm_name := b, hm_value := d\<rparr>" "buf_wf b" "buf_wf d" "contents b = carried_name c @ x" "contents d = []"
    by auto
  show ?case
  proof (cases "xs = []")
    case True
    with s r show ?thesis by auto
  next
    case False
    have "msg_wf c1" using Cons.prems(1) s by (simp add: msg_wf_def)
    from Cons.IH [OF this Cons.prems(2) _ False r] Cons.prems(3) s show ?thesis by (auto simp: carried_name_def)
  qed
qed simp

lemma values_ok:
  "msg_wf c \<Longrightarrow> realloc_law ra \<Longrightarrow> list_all (\<lambda>x. length x < 2 ^ 64) xs \<Longrightarrow>
   run_frags (af_http_cb_header_value ra) c xs = (False, c') \<Longrightarrow>
   \<exists>d. c' = c\<lparr>hm_value := d\<rparr> \<and> buf_wf d \<and> contents d = contents (hm_value c) @ concat xs"
proof (induction xs arbitrary: c)
  case Nil
  then show ?case by (intro exI [of _ "hm_value c"]) (simp add: msg_wf_def)
next
  case (Cons x xs)
  from Cons.prems(4) obtain c1 where c1: "af_http_cb_header_value ra c x = (False, c1)"
    and r: "run_frags (af_http_cb_header_value ra) c1 xs = (False, c')"
    by (auto split: prod.splits bool.splits)
  then obtain d where d: "buf_put ra (hm_value c) x = (None, d)" and s: "c1 = c\<lparr>hm_value := d\<rparr>"
    by (auto simp: af_http_cb_header_value_def refuse_def split: prod.splits option.splits)
  have "buf_wf (hm_value c)" using Cons.prems(1) by (simp add: msg_wf_def)
  from put_ok [OF Cons.prems(2) this _ d] Cons.prems(3) have p: "buf_wf d" "contents d = contents (hm_value c) @ x" by auto
  then have "msg_wf c1" using Cons.prems(1) s by (simp add: msg_wf_def)
  from Cons.IH [OF this Cons.prems(2) _ r] Cons.prems(3) s p show ?case by auto
qed

text \<open>A stop while the fragments arrive is for their size.\<close>

lemma frags_stop:
  "hm_fault c = None \<Longrightarrow> run_frags (af_http_cb_header_field ra) c xs = (True, c') \<Longrightarrow>
   hm_fault c' = Some AF_HERR_HEADERS_TOO_LARGE"
  "hm_fault c = None \<Longrightarrow> run_frags (af_http_cb_header_value ra) c xs = (True, c') \<Longrightarrow>
   hm_fault c' = Some AF_HERR_HEADERS_TOO_LARGE"
proof (induction xs arbitrary: c)
  case (Cons x xs)
  {
    case 1
    then show ?case using Cons.IH(1)
      by (cases "af_http_cb_header_field ra c x")
        (force simp: af_http_cb_header_field_def Let_def refuse_def af_http_fault_def split: prod.splits option.splits bool.splits if_splits)
  next
    case 2
    then show ?case using Cons.IH(2)
      by (cases "af_http_cb_header_value ra c x")
        (force simp: af_http_cb_header_value_def refuse_def af_http_fault_def split: prod.splits option.splits bool.splits)
  }
qed simp_all

text \<open>What is delivered up to the completion, whatever the state it starts from.\<close>

lemma deliver_up_to_complete:
  assumes "msg_wf c" "realloc_law ra" "hm_fault c = None" "fst h \<noteq> []"
    "list_all (\<lambda>x. length x < 2 ^ 64) (fst h)" "list_all (\<lambda>x. length x < 2 ^ 64) (snd h)"
    "deliver ra c h = (st, c')"
  shows "st \<and> hm_fault c' = Some AF_HERR_HEADERS_TOO_LARGE \<or>
    (\<exists>b d. buf_wf b \<and> buf_wf d \<and> contents b = carried_name c @ concat (fst h) \<and> contents d = concat (snd h) \<and>
      af_http_cb_header_value_complete ra (c\<lparr>hm_name := b, hm_value := d\<rparr>) = (st, c'))"
proof -
  obtain s1 c1 where r1: "run_frags (af_http_cb_header_field ra) c (fst h) = (s1, c1)" by fastforce
  show ?thesis
  proof (cases s1)
    case True
    with r1 assms(7) frags_stop(1) [OF assms(3)] show ?thesis by (auto simp: deliver_def)
  next
    case False
    from fields_ok [OF assms(1,2,5,4)] r1 False obtain b d where
      c1: "c1 = c\<lparr>hm_name := b, hm_value := d\<rparr>" "buf_wf b" "buf_wf d"
        "contents b = carried_name c @ concat (fst h)" "contents d = []" by auto
    have wf1: "msg_wf c1" using assms(1) c1 by (simp add: msg_wf_def)
    obtain s2 c2 where r2: "run_frags (af_http_cb_header_value ra) c1 (snd h) = (s2, c2)" by fastforce
    show ?thesis
    proof (cases s2)
      case True
      have "hm_fault c1 = None" using c1(1) assms(3) by simp
      with True r1 r2 False assms(7) frags_stop(2) show ?thesis by (auto simp: deliver_def)
    next
      case s2: False
      from values_ok [OF wf1 assms(2,6)] r2 s2 obtain e where
        e: "c2 = c1\<lparr>hm_value := e\<rparr>" "buf_wf e" "contents e = concat (snd h)" using c1 by auto
      with r1 r2 False s2 c1 assms(7) show ?thesis
        by (intro disjI2 exI [of _ b] exI [of _ e]) (simp add: deliver_def)
    qed
  qed
qed

text \<open>What the headers delivered so far have left in the message.\<close>

definition section_inv :: "http_server \<Rightarrow> (u8 list \<times> u8 list) list \<Rightarrow> http_message \<Rightarrow> bool" where
  "section_inv s qs c \<longleftrightarrow>
     hm_server c = Some s \<and> hm_fault c = None \<and> msg_wf c \<and> framed s qs \<and>
     hm_have_cl c = list_ex is_cl qs \<and> hm_have_te c = list_ex is_te qs \<and> hm_have_auth c = list_ex (is_cred s) qs \<and>
     list_all (\<lambda>q. \<not> is_cl q \<or> af_http_parse_u64 (snd q) = Inr (hm_content_length c)) qs \<and>
     contents (hm_auth c) = (case filter (is_cred s) qs of [] \<Rightarrow> [] | q # _ \<Rightarrow> snd q)"

lemma append_value:
  assumes "buf_wf b" "buf_wf d" "realloc_law ra"
    "af_buf_append ra b (map_option (\<lambda>_. contents d) (buf_data d)) (buf_len d) = (None, b')"
  shows "buf_wf b' \<and> contents b' = contents b @ contents d"
proof (cases "buf_data d")
  case None
  then have "contents d = []" by (simp add: contents_def)
  moreover from this contents_wf [OF assms(2)] have "buf_len d = 0" by (metis length_0_conv unat_eq_zero)
  ultimately show ?thesis using assms(1,4) by (simp add: af_buf_append_def)
next
  case (Some x)
  with append_ok [OF assms(1,3) contents_wf [OF assms(2)]] assms(4) show ?thesis by simp
qed

lemma header_is_bytes:
  "msg_wf c \<Longrightarrow> contents (hm_name c) = n \<Longrightarrow> token_ok t \<Longrightarrow> af_http_header_is c t \<longleftrightarrow> same_ci n t"
  by (simp add: af_http_header_is_def msg_wf_def buffer_is_ci_bytes)

lemma filter_snoc_first:
  "P h \<Longrightarrow> \<not> list_ex P qs \<Longrightarrow> filter P (qs @ [h]) = [h]"
  by (simp add: filter_empty_conv list_ex_iff)

lemma section_snoc_other:
  "section_inv s qs c \<Longrightarrow> \<not> is_cl h \<Longrightarrow> \<not> is_te h \<Longrightarrow> \<not> is_cred s h \<Longrightarrow> section_inv s (qs @ [h]) c"
  by (simp add: section_inv_def framed_snoc)

text \<open>One completed header: it is refused as smuggling exactly when it breaks the framing.\<close>

definition verdict :: "http_server \<Rightarrow> (u8 list \<times> u8 list) list \<Rightarrow> http_message \<Rightarrow> bool \<times> http_message \<Rightarrow> bool" where
  "verdict s hs c r \<longleftrightarrow>
     (case r of
        (True, c') \<Rightarrow> hm_fault c' = Some AF_HERR_HEADERS_TOO_LARGE \<or> hm_fault c' = Some AF_HERR_SMUGGLING \<and> \<not> framed s hs
      | (False, c') \<Rightarrow> section_inv s hs c' \<and> hm_value c' = hm_value c \<and> hm_name c' = hm_name c)"

lemma refuse_smuggling:
  "hm_fault c = None \<Longrightarrow> \<not> framed s hs \<Longrightarrow> verdict s hs d (refuse c AF_HERR_SMUGGLING)"
  by (simp add: verdict_def refuse_def af_http_fault_def)

lemma content_length_complete:
  assumes "section_inv s qs c" "is_cl h" "contents (hm_name c) = fst h" "contents (hm_value c) = snd h"
  shows "verdict s (qs @ [h]) c (af_http_cb_header_value_complete ra c)"
proof -
  have wf: "msg_wf c" and f: "hm_fault c = None" using assms(1) by (simp_all add: section_inv_def)
  have n: "af_http_header_is c h_content_length"
    using assms(2) header_is_bytes [OF wf assms(3) tokens_ok(1)] by (simp add: is_cl_def)
  have te: "\<not> is_te h" "\<not> is_cred s h" using assms(2) te_not_cl [of h] by (auto simp: is_cred_def)
  note cb = af_http_cb_header_value_complete_def n
  show ?thesis
  proof (cases "list_ex is_cl qs \<or> list_ex is_te qs")
    case True
    then have "\<not> framed s (qs @ [h])" using assms(2) by (auto simp: framed_snoc)
    from refuse_smuggling [OF f this] True assms(1) show ?thesis by (auto simp: cb section_inv_def)
  next
    case ok: False
    show ?thesis
    proof (cases "af_http_parse_u64 (snd h)")
      case (Inl e)
      then have "\<not> framed s (qs @ [h])" using assms(2) by (auto simp: framed_snoc)
      from refuse_smuggling [OF f this] ok assms(1,4) Inl show ?thesis by (auto simp: cb section_inv_def)
    next
      case (Inr v)
      have "list_all (\<lambda>q. \<not> is_cl q) qs" using ok by (simp add: list_all_iff list_ex_iff)
      then have "list_all (\<lambda>q. \<not> is_cl q \<or> af_http_parse_u64 (snd q) = Inr v) qs" by (auto simp: list_all_iff)
      with ok assms(1,2,4) Inr te show ?thesis
        by (simp add: cb section_inv_def verdict_def framed_snoc msg_wf_def)
    qed
  qed
qed

lemma transfer_encoding_complete:
  assumes "section_inv s qs c" "is_te h" "contents (hm_name c) = fst h" "contents (hm_value c) = snd h"
  shows "verdict s (qs @ [h]) c (af_http_cb_header_value_complete ra c)"
proof -
  have wf: "msg_wf c" and f: "hm_fault c = None" using assms(1) by (simp_all add: section_inv_def)
  have ncl: "\<not> is_cl h" "\<not> is_cred s h" using te_not_cl [OF assms(2)] assms(2) by (auto simp: is_cred_def)
  have n: "af_http_header_is c h_transfer_encoding" "\<not> af_http_header_is c h_content_length"
    using assms(2) ncl header_is_bytes [OF wf assms(3) tokens_ok(1)] header_is_bytes [OF wf assms(3) tokens_ok(2)]
    by (simp_all add: is_te_def is_cl_def)
  have v: "af_http_buffer_is_ci (hm_value c) v_chunked \<longleftrightarrow> same_ci (snd h) v_chunked"
    using wf assms(4) buffer_is_ci_bytes tokens_ok(4) by (simp add: msg_wf_def)
  note cb = af_http_cb_header_value_complete_def n v
  show ?thesis
  proof (cases "list_ex is_cl qs \<or> list_ex is_te qs \<or> \<not> same_ci (snd h) v_chunked")
    case True
    then have "\<not> framed s (qs @ [h])" using assms(2) by (auto simp: framed_snoc)
    from refuse_smuggling [OF f this] True assms(1) show ?thesis by (auto simp: cb section_inv_def)
  next
    case False
    with assms(1,2) ncl show ?thesis by (simp add: cb section_inv_def verdict_def framed_snoc msg_wf_def)
  qed
qed

text \<open>The credential policy names a header the program can look up.\<close>

definition server_ok :: "http_server \<Rightarrow> bool" where
  "server_ok s \<longleftrightarrow> (case hs_auth_header s of None \<Rightarrow> True | Some name \<Rightarrow> token_ok name)"

lemma credential_complete:
  assumes "section_inv s qs c" "server_ok s" "realloc_law ra" "\<not> is_cl h" "\<not> is_te h" "\<not> same_ci (fst h) h_content_type"
    "contents (hm_name c) = fst h" "contents (hm_value c) = snd h"
  shows "verdict s (qs @ [h]) c (credential_value ra c)"
proof -
  have wf: "msg_wf c" and f: "hm_fault c = None" and hs: "hm_server c = Some s"
    using assms(1) by (simp_all add: section_inv_def)
  show ?thesis
  proof (cases "is_cred s h")
    case False
    then have "credential_value ra c = (False, c)"
      using assms(2,4-6) hs header_is_bytes [OF wf assms(7)]
      by (auto simp: credential_value_def is_cred_def server_ok_def split: option.splits)
    with section_snoc_other [OF assms(1,4,5) False] show ?thesis by (simp add: verdict_def)
  next
    case cred: True
    then obtain name where name: "hs_auth_header s = Some name" "same_ci (fst h) name"
      by (auto simp: is_cred_def split: option.splits)
    then have n: "af_http_header_is c name"
      using assms(2) header_is_bytes [OF wf assms(7)] by (simp add: server_ok_def)
    show ?thesis
    proof (cases "list_ex (is_cred s) qs")
      case True
      then have "\<not> framed s (qs @ [h])" using cred by (auto simp: framed_snoc)
      from refuse_smuggling [OF f this] True assms(1) hs name n show ?thesis
        by (auto simp: credential_value_def section_inv_def)
    next
      case first: False
      have na: "\<not> hm_have_auth c" using first assms(1) by (simp add: section_inv_def)
      let ?r = "af_buf_append ra (hm_auth c) (map_option (\<lambda>_. contents (hm_value c)) (buf_data (hm_value c))) (buf_len (hm_value c))"
      obtain e b where r: "?r = (e, b)" by fastforce
      show ?thesis
      proof (cases e)
        case (Some x)
        with r hs name n na f show ?thesis
          by (simp add: credential_value_def verdict_def refuse_def af_http_fault_def)
      next
        case None
        have "buf_wf (hm_auth c)" "buf_wf (hm_value c)" using wf by (simp_all add: msg_wf_def)
        from append_value [OF this assms(3)] r None have b: "buf_wf b" "contents b = contents (hm_auth c) @ snd h"
          using assms(8) by auto
        have "filter (is_cred s) qs = []" using first by (simp add: filter_empty_conv list_ex_iff)
        with None r hs name n na first cred assms(1,4,5) b show ?thesis
          by (simp add: credential_value_def verdict_def section_inv_def framed_snoc msg_wf_def)
      qed
    qed
  qed
qed

lemma complete_verdict:
  assumes "section_inv s qs c" "server_ok s" "realloc_law ra"
    "contents (hm_name c) = fst h" "contents (hm_value c) = snd h"
  shows "verdict s (qs @ [h]) c (af_http_cb_header_value_complete ra c)"
proof -
  have wf: "msg_wf c" and f: "hm_fault c = None" using assms(1) by (simp_all add: section_inv_def)
  note named = header_is_bytes [OF wf assms(4) tokens_ok(1)] header_is_bytes [OF wf assms(4) tokens_ok(2)]
    header_is_bytes [OF wf assms(4) tokens_ok(3)]
  consider "is_cl h" | "is_te h" | "\<not> is_cl h" "\<not> is_te h" "same_ci (fst h) h_content_type"
    | "\<not> is_cl h" "\<not> is_te h" "\<not> same_ci (fst h) h_content_type" by blast
  then show ?thesis
  proof cases
    case 1
    from content_length_complete [OF assms(1) 1 assms(4,5)] show ?thesis .
  next
    case 2
    from transfer_encoding_complete [OF assms(1) 2 assms(4,5)] show ?thesis .
  next
    case 3
    let ?r = "af_buf_append ra (hm_ctype c) (map_option (\<lambda>_. contents (hm_value c)) (buf_data (hm_value c))) (buf_len (hm_value c))"
    obtain e b where r: "?r = (e, b)" by fastforce
    have other: "section_inv s (qs @ [h]) c" using section_snoc_other [OF assms(1) 3(1,2)] 3(3) by (simp add: is_cred_def)
    note cb = af_http_cb_header_value_complete_def named r 3 [unfolded is_cl_def is_te_def]
    show ?thesis
    proof (cases e)
      case (Some x)
      then show ?thesis using f by (simp add: cb verdict_def refuse_def af_http_fault_def)
    next
      case None
      have "buf_wf (hm_ctype c)" "buf_wf (hm_value c)" using wf by (simp_all add: msg_wf_def)
      from append_value [OF this assms(3)] r None have "buf_wf b" by simp
      with None other show ?thesis by (simp add: cb verdict_def section_inv_def msg_wf_def)
    qed
  next
    case 4
    from credential_complete [OF assms(1-3) 4 assms(4,5)] 4 show ?thesis
      by (simp add: af_http_cb_header_value_complete_def named is_cl_def is_te_def)
  qed
qed

text \<open>A header as llhttp delivers it: a name in at least one fragment, and fragments that have a length.\<close>

definition header_ok :: "u8 list list \<times> u8 list list \<Rightarrow> bool" where
  "header_ok h \<longleftrightarrow> fst h \<noteq> [] \<and> list_all (\<lambda>x. length x < 2 ^ 64) (fst h) \<and> list_all (\<lambda>x. length x < 2 ^ 64) (snd h)"

text \<open>
  The headers as the callbacks read them: the name of one with an empty value stays in its buffer
  and is put before the name of the next.
\<close>

fun as_read :: "u8 list \<Rightarrow> (u8 list \<times> u8 list) list \<Rightarrow> (u8 list \<times> u8 list) list" where
  "as_read pre [] = []"
| "as_read pre ((n, v) # hs) = (pre @ n, v) # as_read (if v = [] then pre @ n else []) hs"

lemma as_read_values: "list_all (\<lambda>h. snd h \<noteq> []) hs \<Longrightarrow> as_read [] hs = hs"
  by (induction "[] :: u8 list" hs rule: as_read.induct) auto

lemma deliver_verdict:
  assumes "section_inv s qs c" "server_ok s" "realloc_law ra" "header_ok h" "deliver ra c h = (st, c')"
  defines "q \<equiv> (carried_name c @ fst (header_of h), snd (header_of h))"
  shows "st \<and> (hm_fault c' = Some AF_HERR_HEADERS_TOO_LARGE \<or> hm_fault c' = Some AF_HERR_SMUGGLING \<and> \<not> framed s (qs @ [q])) \<or>
    \<not> st \<and> section_inv s (qs @ [q]) c' \<and> carried_name c' = (if snd q = [] then fst q else [])"
proof -
  have wf: "msg_wf c" and f: "hm_fault c = None" using assms(1) by (simp_all add: section_inv_def)
  from assms(4) have h: "fst h \<noteq> []" "list_all (\<lambda>x. length x < 2 ^ 64) (fst h)" "list_all (\<lambda>x. length x < 2 ^ 64) (snd h)"
    by (auto simp only: header_ok_def)
  from deliver_up_to_complete [OF wf assms(3) f h assms(5)] show ?thesis
  proof (elim disjE exE conjE)
    assume "st" "hm_fault c' = Some AF_HERR_HEADERS_TOO_LARGE"
    then show ?thesis by simp
  next
    fix b d
    assume b: "buf_wf b" "buf_wf d" "contents b = carried_name c @ concat (fst h)" "contents d = concat (snd h)"
      and r: "af_http_cb_header_value_complete ra (c\<lparr>hm_name := b, hm_value := d\<rparr>) = (st, c')"
    let ?c = "c\<lparr>hm_name := b, hm_value := d\<rparr>"
    have i: "section_inv s qs ?c" using assms(1) b(1,2) by (simp add: section_inv_def msg_wf_def)
    have "contents (hm_name ?c) = fst q" "contents (hm_value ?c) = snd q"
      using b(3,4) by (simp_all add: header_of_def q_def)
    from complete_verdict [OF i assms(2,3) this] r have "verdict s (qs @ [q]) ?c (st, c')" by simp
    then show ?thesis using b(3,4) by (cases st) (auto simp: verdict_def carried_name_def q_def header_of_def)
  qed
qed

lemma deliver_all_verdict:
  "section_inv s qs c \<Longrightarrow> server_ok s \<Longrightarrow> realloc_law ra \<Longrightarrow> list_all header_ok hs \<Longrightarrow> deliver_all ra c hs = (st, c') \<Longrightarrow>
   let rs = as_read (carried_name c) (List.map header_of hs)
   in st \<and> (hm_fault c' = Some AF_HERR_HEADERS_TOO_LARGE \<or> hm_fault c' = Some AF_HERR_SMUGGLING \<and> \<not> framed s (qs @ rs)) \<or>
     \<not> st \<and> section_inv s (qs @ rs) c'"
proof (induction hs arbitrary: qs c)
  case Nil
  then show ?case by simp
next
  case (Cons h hs)
  obtain s1 c1 where r: "deliver ra c h = (s1, c1)" by fastforce
  from Cons.prems(4) have "header_ok h" "list_all header_ok hs" by simp_all
  define q where "q = (carried_name c @ fst (header_of h), snd (header_of h))"
  define rs where "rs = as_read (if snd q = [] then fst q else []) (List.map header_of hs)"
  have all: "as_read (carried_name c) (List.map header_of (h # hs)) = q # rs"
    by (cases "header_of h") (simp add: q_def rs_def)
  from deliver_verdict [OF Cons.prems(1-3) \<open>header_ok h\<close> r, folded q_def] show ?case
  proof (elim disjE conjE)
    assume s1: "s1"
    then have "st" "c' = c1" using r Cons.prems(5) by auto
    moreover assume "hm_fault c1 = Some AF_HERR_HEADERS_TOO_LARGE"
    ultimately show ?thesis unfolding all by simp
  next
    assume s1: "s1"
    then have "st" "c' = c1" using r Cons.prems(5) by auto
    moreover assume "hm_fault c1 = Some AF_HERR_SMUGGLING" "\<not> framed s (qs @ [q])"
    moreover from this(2) have "\<not> framed s (qs @ q # rs)"
      using framed_append [of s "qs @ [q]" rs] by auto
    ultimately show ?thesis unfolding all by simp
  next
    assume a: "\<not> s1" "section_inv s (qs @ [q]) c1" "carried_name c1 = (if snd q = [] then fst q else [])"
    then have "deliver_all ra c1 hs = (st, c')" using r Cons.prems(5) by auto
    from Cons.IH [OF a(2) Cons.prems(2,3) \<open>list_all header_ok hs\<close> this] show ?thesis
      unfolding all a(3) rs_def [symmetric] by (simp add: Let_def)
  qed
qed

lemma fresh_section:
  assumes "hm_server c = Some s" "msg_wf c"
  shows "section_inv s [] (af_http_reset_message c) \<and> carried_name (af_http_reset_message c) = []"
  using assms clear_secure_ok
  by (simp add: section_inv_def msg_wf_def af_http_reset_message_def framed_def carried_name_def)

text \<open>
  C4: A header section that the callbacks let through is framed in one way only, as they read
  it: at most one Content-Length, a decimal number in range, at most one Transfer-Encoding, \<open>chunked\<close>,
  never both, and at most one credential header; the flags, the length and the credential kept are those
  of the headers read, however llhttp cut them into fragments. A section that is stopped
  had a header too large for its buffer or breaks one of these rules. The headers read are
  those sent when every value has a byte; in general the name of a header with an empty value is
  put before the next name.
\<close>

theorem header_section_framing:
  assumes "hm_server c = Some s" "msg_wf c" "server_ok s" "realloc_law ra" "list_all header_ok hs"
    "deliver_all ra (snd (af_http_cb_message_begin c)) hs = (st, c')"
  shows "let sent = List.map header_of hs; read = as_read [] sent in
     (\<not> st \<longrightarrow> framed s read \<and> (hm_have_cl c' \<longleftrightarrow> list_ex is_cl read) \<and> (hm_have_te c' \<longleftrightarrow> list_ex is_te read) \<and>
        list_all (\<lambda>h. \<not> is_cl h \<or> af_dec_to_u64 (snd h) = Inr (hm_content_length c')) read \<and>
        (hm_have_auth c' \<longleftrightarrow> list_ex (is_cred s) read) \<and>
        contents (hm_auth c') = (case filter (is_cred s) read of [] \<Rightarrow> [] | h # _ \<Rightarrow> snd h)) \<and>
     (st \<longrightarrow> hm_fault c' = Some AF_HERR_HEADERS_TOO_LARGE \<or> hm_fault c' = Some AF_HERR_SMUGGLING \<and> \<not> framed s read) \<and>
     (list_all (\<lambda>h. snd h \<noteq> []) sent \<longrightarrow> read = sent)"
proof -
  let ?c = "af_http_reset_message c"
  have i: "section_inv s [] ?c" "carried_name ?c = []" using fresh_section [OF assms(1,2)] by blast+
  have d: "deliver_all ra ?c hs = (st, c')" using assms(6) by (simp add: af_http_cb_message_begin_def)
  from deliver_all_verdict [OF i(1) assms(3-5) d] show ?thesis unfolding i(2)
    by (auto simp: Let_def section_inv_def af_http_parse_u64_iff list_all_iff as_read_values)
qed

definition example_headers :: "(u8 list list \<times> u8 list list) list" where
  "example_headers =
     [([ascii ''Content-'', ascii ''Length''], [ascii ''1'', ascii ''2'']), ([ascii ''X''], [ascii ''y''])]"

theorem header_section_framing_witness:
  "let r = deliver_all plain_realloc (snd (af_http_cb_message_begin (fresh_message bearer_server))) example_headers;
       sent = List.map header_of example_headers; read = as_read [] sent in
     (\<not> fst r \<longrightarrow> framed bearer_server read \<and> (hm_have_cl (snd r) \<longleftrightarrow> list_ex is_cl read) \<and>
        (hm_have_te (snd r) \<longleftrightarrow> list_ex is_te read) \<and>
        list_all (\<lambda>h. \<not> is_cl h \<or> af_dec_to_u64 (snd h) = Inr (hm_content_length (snd r))) read \<and>
        (hm_have_auth (snd r) \<longleftrightarrow> list_ex (is_cred bearer_server) read) \<and>
        contents (hm_auth (snd r)) = (case filter (is_cred bearer_server) read of [] \<Rightarrow> [] | h # _ \<Rightarrow> snd h)) \<and>
     (fst r \<longrightarrow> hm_fault (snd r) = Some AF_HERR_HEADERS_TOO_LARGE \<or>
        hm_fault (snd r) = Some AF_HERR_SMUGGLING \<and> \<not> framed bearer_server read) \<and>
     (list_all (\<lambda>h. snd h \<noteq> []) sent \<longrightarrow> read = sent)"
proof -
  have m: "hm_server (fresh_message bearer_server) = Some bearer_server" "msg_wf (fresh_message bearer_server)"
    "server_ok bearer_server"
    by (simp_all add: fresh_message_def msg_wf_def buf_wf_def fresh_buffer_def server_ok_def bearer_server_def
        token_ok_def h_authorization_def ascii_def)
  have h: "list_all header_ok example_headers"
    by (simp add: example_headers_def header_ok_def ascii_def)
  show ?thesis
    using header_section_framing [OF m plain_realloc_law h surjective_pairing]
    unfolding Let_def by blast
qed

lemma joined_not:
  assumes "a \<noteq> []"
  shows "is_cl (n, v) \<Longrightarrow> \<not> is_cl (a @ n, v)" "is_te (n, v) \<Longrightarrow> \<not> is_te (a @ n, v)"
    "is_cred s (n, v) \<Longrightarrow> \<not> is_cred s (a @ n, v)"
proof -
  have l: "\<not> (same_ci n t \<and> same_ci (a @ n) t)" for t
    using assms by (auto dest!: same_ci_length)
  then show "is_cl (n, v) \<Longrightarrow> \<not> is_cl (a @ n, v)" "is_te (n, v) \<Longrightarrow> \<not> is_te (a @ n, v)"
    by (auto simp: is_cl_def is_te_def)
  show "is_cred s (n, v) \<Longrightarrow> \<not> is_cred s (a @ n, v)"
    using l by (auto simp: is_cred_def split: option.splits)
qed

text \<open>An empty value is neither a length nor a coding.\<close>

lemma framed_empty_value:
  assumes "framed s (qs @ [(n, [])])"
  shows "\<not> is_cl (n, [])" "\<not> is_te (n, [])"
  using assms by (auto simp: framed_snoc af_http_parse_u64_def same_ci_def v_chunked_def ascii_def)

text \<open>
  A header with an empty value hides the one after it: the name buffer is cleared only when the
  value buffer has bytes, so the next name is appended to the previous one and the next header is judged under
  the joined name. A Content-Length, a Transfer-Encoding or a credential sent after it is not seen:
  its flag stays clear.
\<close>

lemma empty_value_hides_next_header:
  assumes "hm_server c = Some s" "msg_wf c" "server_ok s" "realloc_law ra"
    "fst h \<noteq> []" "concat (fst h) \<noteq> []" "concat (snd h) = []" "list_all (\<lambda>x. length x < 2 ^ 64) (fst h @ snd h)" "header_ok g"
    "deliver_all ra (snd (af_http_cb_message_begin c)) [h, g] = (False, c')"
  shows "(is_cl (header_of g) \<longrightarrow> \<not> hm_have_cl c') \<and> (is_te (header_of g) \<longrightarrow> \<not> hm_have_te c') \<and>
    (is_cred s (header_of g) \<and> \<not> is_cred s (header_of h) \<longrightarrow> \<not> hm_have_auth c')"
proof -
  let ?c = "snd (af_http_cb_message_begin c)" and ?h = "header_of h" and ?g = "header_of g"
  have i: "section_inv s [] ?c" "carried_name ?c = []"
    using fresh_section [OF assms(1,2)] by (simp_all add: af_http_cb_message_begin_def)
  from assms(10) obtain c1 where d1: "deliver ra ?c h = (False, c1)" and d2: "deliver ra c1 g = (False, c')"
    by (auto split: prod.splits bool.splits)
  from i(1) have wf: "msg_wf ?c" "hm_fault ?c = None" by (simp_all add: section_inv_def)
  from assms(8) have sh: "list_all (\<lambda>x. length x < 2 ^ 64) (fst h)" "list_all (\<lambda>x. length x < 2 ^ 64) (snd h)"
    by (auto simp only: list_all_append)
  from deliver_up_to_complete [OF wf(1) assms(4) wf(2) assms(5) sh d1] obtain b d where
    b: "buf_wf b" "buf_wf d" "contents b = carried_name ?c @ concat (fst h)" "contents d = concat (snd h)"
    and r: "af_http_cb_header_value_complete ra (?c\<lparr>hm_name := b, hm_value := d\<rparr>) = (False, c1)" by auto
  have i1: "section_inv s [] (?c\<lparr>hm_name := b, hm_value := d\<rparr>)" using i(1) b(1,2) by (simp add: section_inv_def msg_wf_def)
  from complete_verdict [OF i1 assms(3,4), where h = ?h] b r i(2)
  have c1: "section_inv s [?h] c1" "hm_value c1 = d" "hm_name c1 = b" by (simp_all add: verdict_def header_of_def)
  then have carried: "carried_name c1 = fst ?h" using b i(2) assms(7) by (simp add: carried_name_def header_of_def)
  from c1(1) have wf1: "msg_wf c1" "hm_fault c1 = None" by (simp_all add: section_inv_def)
  from assms(9) have g: "fst g \<noteq> []" "list_all (\<lambda>x. length x < 2 ^ 64) (fst g)" "list_all (\<lambda>x. length x < 2 ^ 64) (snd g)"
    by (auto simp only: header_ok_def)
  from deliver_up_to_complete [OF wf1(1) assms(4) wf1(2) g d2] obtain b2 e2 where
    b2: "buf_wf b2" "buf_wf e2" "contents b2 = carried_name c1 @ concat (fst g)" "contents e2 = concat (snd g)"
    and r2: "af_http_cb_header_value_complete ra (c1\<lparr>hm_name := b2, hm_value := e2\<rparr>) = (False, c')" by auto
  let ?j = "(fst ?h @ fst ?g, snd ?g)"
  have "section_inv s [?h] (c1\<lparr>hm_name := b2, hm_value := e2\<rparr>)" using c1(1) b2(1,2) by (simp add: section_inv_def msg_wf_def)
  from complete_verdict [OF this assms(3,4), where h = ?j] b2 r2 carried
  have fin: "section_inv s [?h, ?j] c'" by (simp add: verdict_def header_of_def)
  have h: "?h = (fst ?h, [])" "fst ?h \<noteq> []" using assms(6,7) by (simp_all add: header_of_def)
  from c1(1) h(1) have "framed s ([] @ [(fst ?h, [])])" by (simp add: section_inv_def)
  note empty = framed_empty_value [OF this, folded h(1)]
  note joined = joined_not [OF h(2), where n = "fst ?g" and v = "snd ?g", unfolded prod.collapse]
  show ?thesis using fin empty joined by (auto simp: section_inv_def)
qed

definition hidden_headers :: "(u8 list list \<times> u8 list list) list" where
  "hidden_headers = [([ascii ''X''], [[]]), ([ascii ''Content-Length''], [ascii ''5''])]"

lemma empty_value_hides_next_header_witness:
  "let r = deliver_all plain_realloc (snd (af_http_cb_message_begin (fresh_message bearer_server))) hidden_headers
   in \<not> fst r \<and> list_ex is_cl (List.map header_of hidden_headers) \<and> \<not> hm_have_cl (snd r)"
proof -
  let ?m = "fresh_message bearer_server"
  let ?r = "deliver_all plain_realloc (snd (af_http_cb_message_begin ?m)) hidden_headers"
  have m: "hm_server ?m = Some bearer_server" "msg_wf ?m" "server_ok bearer_server"
    by (simp_all add: fresh_message_def msg_wf_def buf_wf_def fresh_buffer_def
        server_ok_def bearer_server_def token_ok_def h_authorization_def ascii_def)
  have st: "fst ?r = False" by code_simp
  have cl: "list_ex is_cl (List.map header_of hidden_headers)" "is_cl (header_of ([ascii ''Content-Length''], [ascii ''5'']))"
    by code_simp+
  obtain c' where c': "?r = (False, c')" using st by (cases ?r) auto
  note r = c' [unfolded hidden_headers_def]
  have "\<not> hm_have_cl c'"
    using empty_value_hides_next_header [OF m plain_realloc_law _ _ _ _ _ r] cl(2)
    by (simp add: ascii_def header_ok_def)
  with c' cl(1) show ?thesis by (simp add: Let_def)
qed

end
