(* ===== verification/Utf8_Check.thy ===== *)
theory Utf8_Check
  imports Utf8 Cstr
begin

text \<open>
  The UTF-8 check shared by the HTTP, MCP and control layers: \<open>af_utf8_sequence_length\<close> and
  \<open>af_utf8_validate\<close> of \<open>src/json/json_write.asm\<close>, on 32-bit registers as the code has them, and
  their agreement with the strict codec of \<open>Utf8\<close>.
\<close>

type_synonym u32 = "32 word"

text \<open>The test \<open>(b & 0xC0) == 0x80\<close> and the payload \<open>b & 0x3F\<close> of a continuation byte.\<close>

definition is_cont :: "u8 \<Rightarrow> bool" where
  "is_cont b \<longleftrightarrow> (ucast b :: u32) AND 0xC0 = 0x80"

definition payload :: "u8 \<Rightarrow> u32" where
  "payload b = ucast b AND 0x3F"

text \<open>\<open>None\<close> is the return value 0; \<open>Some (n, cp)\<close> is \<open>n\<close> with \<open>cp\<close> stored.\<close>

fun af_utf8_sequence_length :: "u8 list \<Rightarrow> (nat \<times> u32) option" where
  "af_utf8_sequence_length [] = None"
| "af_utf8_sequence_length (a # t) =
     (if a < 0x80 then Some (1, ucast a)
      else if a < 0xC2 then None
      else if a < 0xE0 then
        (case t of
           b # _ \<Rightarrow>
             if \<not> is_cont b then None
             else Some (2, push_bit 6 (ucast a AND 0x1F) OR payload b)
         | _ \<Rightarrow> None)
      else if a < 0xF0 then
        (case t of
           b # c # _ \<Rightarrow>
             if \<not> is_cont b then None else if \<not> is_cont c then None
             else
               let v = push_bit 12 (ucast a AND 0x0F) OR push_bit 6 (payload b) OR payload c
               in if v < 0x800 then None
                  else if v < 0xD800 then Some (3, v)
                  else if v \<le> 0xDFFF then None
                  else Some (3, v)
         | _ \<Rightarrow> None)
      else if a < 0xF5 then
        (case t of
           b # c # d # _ \<Rightarrow>
             if \<not> is_cont b then None else if \<not> is_cont c then None else if \<not> is_cont d then None
             else
               let v = push_bit 18 (ucast a AND 0x07) OR push_bit 12 (payload b) OR push_bit 6 (payload c) OR payload d
               in if v < 0x10000 then None
                  else if v > 0x10FFFF then None
                  else Some (4, v)
         | _ \<Rightarrow> None)
      else None)"

lemma sequence_length_bounds:
  "af_utf8_sequence_length p = Some (n, cp) \<Longrightarrow> 0 < n \<and> n \<le> length p"
  by (cases p) (auto simp: Let_def split: if_splits list.splits)

function utf8_validate_at :: "u8 list \<Rightarrow> nat \<Rightarrow> bool" where
  "utf8_validate_at p i =
     (if length p \<le> i then True
      else case af_utf8_sequence_length (drop i p) of
        None \<Rightarrow> False
      | Some (n, cp) \<Rightarrow> utf8_validate_at p (i + n))"
  by pat_completeness auto
termination
  by (relation "measure (\<lambda>(p, i). length p - i)") (auto dest: sequence_length_bounds)

declare utf8_validate_at.simps [simp del]

definition af_utf8_validate :: "u8 list \<Rightarrow> bool" where
  "af_utf8_validate p = utf8_validate_at p 0"

section \<open>Bytes as numbers\<close>

lemma uint_byte: "0 \<le> uint (b :: u8)" "uint (b :: u8) < 256"
  using uint_lt2p [of b] by auto

lemma uint_ucast_byte: "uint (ucast (b :: u8) :: u32) = uint b"
  by (simp add: uint_up_ucast is_up)

lemma masked_word: "(w :: u32) AND mask n = w mod 2 ^ n"
  by (simp add: take_bit_eq_mask [symmetric] take_bit_eq_mod)

lemma masked_byte:
  "uint (payload b) = uint b mod 64"
  "uint ((ucast b :: u32) AND 0x1F) = uint b mod 32"
  "uint ((ucast b :: u32) AND 0x0F) = uint b mod 16"
  "uint ((ucast b :: u32) AND 0x07) = uint b mod 8"
  using masked_word [of "ucast b" 6] masked_word [of "ucast b" 5] masked_word [of "ucast b" 4]
    masked_word [of "ucast b" 3]
  by (simp_all add: payload_def mask_eq_exp_minus_1 uint_mod uint_ucast_byte)

lemma is_cont_iff: "is_cont b \<longleftrightarrow> cont_byte (uint b)"
proof -
  let ?w = "ucast b :: u32"
  have "?w = ?w AND 0xFF"
    using masked_word [of ?w 8] uint_byte [of b]
    by (simp add: mask_eq_exp_minus_1 word_uint_eq_iff uint_mod uint_ucast_byte)
  also have "\<dots> = (?w AND 0xC0) OR (?w AND 0x3F)" by (simp flip: bit.conj_disj_distrib)
  also have "\<dots> = (?w AND 0xC0) + (?w AND 0x3F)"
  proof (rule disjunctive_add_eq_or [symmetric])
    have "(?w AND 0xC0) AND (?w AND 0x3F) = (?w AND ?w) AND (0xC0 AND 0x3F)" by (simp only: and.assoc and.left_commute)
    then show "(?w AND 0xC0) AND (?w AND 0x3F) = 0" by simp
  qed
  finally have "?w AND 0xC0 = ?w - payload b" by (simp add: payload_def algebra_simps)
  moreover have "uint (?w - payload b) = uint b - uint b mod 64"
  proof -
    have "uint (?w - payload b) = (uint b - uint b mod 64) mod 2 ^ 32"
      by (simp add: uint_word_ariths masked_byte uint_ucast_byte)
    moreover have "0 \<le> uint b - uint b mod 64" "uint b - uint b mod 64 < 2 ^ 32"
      using uint_byte [of b] pos_mod_bound [of 64 "uint b"] pos_mod_sign [of 64 "uint b"]
        zmod_le_nonneg_dividend [of "uint b" 64] by auto
    ultimately show ?thesis by (simp only: mod_pos_pos_trivial)
  qed
  ultimately have "is_cont b \<longleftrightarrow> uint b - uint b mod 64 = 128"
    by (simp add: is_cont_def word_uint_eq_iff)
  moreover have "uint b - uint b mod 64 = uint b div 64 * 64" by (simp add: minus_mod_eq_div_mult)
  ultimately show ?thesis using uint_byte [of b] by (auto simp: cont_byte_def)
qed

text \<open>Six bits shifted in.\<close>

lemma low_bits: "uint (x :: u32) < 64 \<Longrightarrow> bit x n \<Longrightarrow> n < 6"
proof -
  assume "uint x < 64" "bit x n"
  then have "bit (uint x) n" using bit_imp_le_length [of x n] by (simp add: bit_uint_iff)
  moreover have "take_bit 6 (uint x) = uint x" using \<open>uint x < 64\<close> by (simp add: take_bit_int_eq_self)
  ultimately show "n < 6" by (metis bit_take_bit_iff)
qed

lemma shift_in:
  assumes "uint (a :: u32) < 2 ^ 26" "uint (x :: u32) < 64"
  shows "uint (push_bit 6 a OR x) = uint a * 64 + uint x"
proof -
  have "push_bit 6 a AND x = 0"
    by (rule bit_word_eqI) (auto simp: bit_and_iff bit_push_bit_iff dest: low_bits [OF assms(2)])
  then have "push_bit 6 a OR x = push_bit 6 a + x" by (simp add: disjunctive_add_eq_or)
  moreover have "uint (push_bit 6 a) = uint a * 64"
    using assms(1) by (simp add: push_bit_eq_mult uint_word_ariths)
  moreover have "0 \<le> uint a" by simp
  ultimately show ?thesis using assms by (simp add: uint_word_ariths)
qed

lemma shift_in3:
  assumes "uint (a :: u32) < 2 ^ 20" "uint (x :: u32) < 64" "uint (y :: u32) < 64"
  shows "uint (push_bit 12 a OR push_bit 6 x OR y) = (uint a * 64 + uint x) * 64 + uint y"
proof -
  have e: "push_bit 12 a OR push_bit 6 x OR y = push_bit 6 (push_bit 6 a OR x) OR y"
    by (simp add: or.assoc)
  have i: "uint (push_bit 6 a OR x) = uint a * 64 + uint x" using assms by (intro shift_in) auto
  then have "uint (push_bit 6 a OR x) < 2 ^ 26" using assms by simp
  from shift_in [OF this assms(3)] show ?thesis by (simp only: e i)
qed

lemma shift_in4:
  assumes "uint (a :: u32) < 2 ^ 14" "uint (x :: u32) < 64" "uint (y :: u32) < 64" "uint (z :: u32) < 64"
  shows "uint (push_bit 18 a OR push_bit 12 x OR push_bit 6 y OR z) =
    ((uint a * 64 + uint x) * 64 + uint y) * 64 + uint z"
proof -
  have e: "push_bit 18 a OR push_bit 12 x OR push_bit 6 y OR z = push_bit 6 (push_bit 12 a OR push_bit 6 x OR y) OR z"
    by (simp add: or.assoc)
  have i: "uint (push_bit 12 a OR push_bit 6 x OR y) = (uint a * 64 + uint x) * 64 + uint y"
    using assms by (intro shift_in3) auto
  then have "uint (push_bit 12 a OR push_bit 6 x OR y) < 2 ^ 26" using assms by simp
  from shift_in [OF this assms(4)] show ?thesis by (simp only: e i)
qed

lemma mod_shift: "k * m \<le> (x :: int) \<Longrightarrow> x < k * m + m \<Longrightarrow> x mod m = x - k * m"
proof -
  assume "k * m \<le> x" "x < k * m + m"
  then have "(x - k * m) mod m = x - k * m" by (intro mod_pos_pos_trivial) auto
  moreover have "(x - k * m) mod m = x mod m"
    by (metis mod_mult_self2 mult.commute diff_add_cancel)
  ultimately show ?thesis by simp
qed

lemma payload_small [simp]: "uint (payload b) < 64"
  by (simp add: masked_byte)

lemma payload_cont: "is_cont b \<Longrightarrow> uint (payload b) = uint b - 128"
  using mod_shift [of 2 64 "uint b"] by (simp add: masked_byte is_cont_iff cont_byte_def)

text \<open>The values the code assembles.\<close>

lemma two_value:
  "is_cont b \<Longrightarrow> 192 \<le> uint (a :: u8) \<Longrightarrow> uint a < 224 \<Longrightarrow>
   uint (push_bit 6 (ucast a AND 0x1F) OR payload b) = (uint a - 192) * 64 + (uint b - 128)"
  using mod_shift [of 6 32 "uint a"] by (subst shift_in) (simp_all add: masked_byte(2), simp_all add: payload_cont)

lemma three_value:
  "is_cont b \<Longrightarrow> is_cont c \<Longrightarrow> 224 \<le> uint (a :: u8) \<Longrightarrow> uint a < 240 \<Longrightarrow>
   uint (push_bit 12 (ucast a AND 0x0F) OR push_bit 6 (payload b) OR payload c) =
     (uint a - 224) * 4096 + (uint b - 128) * 64 + (uint c - 128)"
  using mod_shift [of 14 16 "uint a"] by (subst shift_in3) (simp_all add: masked_byte(3), simp_all add: payload_cont)

lemma four_value:
  "is_cont b \<Longrightarrow> is_cont c \<Longrightarrow> is_cont d \<Longrightarrow> 240 \<le> uint (a :: u8) \<Longrightarrow> uint a < 245 \<Longrightarrow>
   uint (push_bit 18 (ucast a AND 0x07) OR push_bit 12 (payload b) OR push_bit 6 (payload c) OR payload d) =
     (uint a - 240) * 262144 + (uint b - 128) * 4096 + (uint c - 128) * 64 + (uint d - 128)"
  using mod_shift [of 30 8 "uint a"] by (subst shift_in4) (simp_all add: masked_byte(4), simp_all add: payload_cont)

text \<open>One sequence of the code against one step of the codec.\<close>

definition step_of :: "(nat \<times> u32) option \<Rightarrow> u8 list \<Rightarrow> (int \<times> int list) option" where
  "step_of r p = map_option (\<lambda>(n, cp). (uint cp, map uint (drop n p))) r"

lemma sequence_is_step: "step_of (af_utf8_sequence_length p) p = utf8_step (map uint p)"
proof (cases p)
  case (Cons a t)
  have cmp: "a < 0x80 \<longleftrightarrow> uint a < 128" "a < 0xC2 \<longleftrightarrow> uint a < 194" "a < 0xE0 \<longleftrightarrow> uint a < 224"
    "a < 0xF0 \<longleftrightarrow> uint a < 240" "a < 0xF5 \<longleftrightarrow> uint a < 245"
    by (simp_all add: word_less_def)
  consider (one) "uint a < 128" | (bad) "128 \<le> uint a" "uint a < 194" | (two) "194 \<le> uint a" "uint a < 224"
    | (three) "224 \<le> uint a" "uint a < 240" | (four) "240 \<le> uint a" "uint a < 245" | (high) "245 \<le> uint a"
    by linarith
  then show ?thesis
  proof cases
    case one
    with Cons cmp show ?thesis by (simp add: step_of_def uint_ucast_byte)
  next
    case bad
    with Cons cmp show ?thesis by (simp add: step_of_def)
  next
    case two
    with Cons cmp two_value [of _ a] show ?thesis
      by (auto simp: step_of_def is_cont_iff split: list.splits)
  next
    case three
    with Cons cmp three_value [of _ _ a] show ?thesis
      by (auto simp: step_of_def is_cont_iff cont_byte_def Let_def scalar_def word_less_def word_le_def split: list.splits)
  next
    case four
    with Cons cmp four_value [of _ _ _ a] show ?thesis
      by (auto simp: step_of_def is_cont_iff cont_byte_def Let_def scalar_def word_less_def word_le_def split: list.splits)
  next
    case high
    with Cons cmp show ?thesis by (simp add: step_of_def)
  qed
qed (simp add: step_of_def)

lemma validate_at_iff: "utf8_validate_at p i \<longleftrightarrow> utf8_decode (map uint (drop i p)) \<noteq> None"
proof (induction p i rule: utf8_validate_at.induct)
  case (1 p i)
  show ?case
  proof (cases "length p \<le> i")
    case True
    then show ?thesis by (simp add: utf8_validate_at.simps)
  next
    case False
    then have ne: "map uint (drop i p) \<noteq> []" by simp
    show ?thesis
    proof (cases "af_utf8_sequence_length (drop i p)")
      case None
      then have "utf8_step (map uint (drop i p)) = None"
        using sequence_is_step [of "drop i p"] by (simp add: step_of_def)
      with None False ne show ?thesis
        by (subst utf8_validate_at.simps, subst utf8_decode.simps) simp
    next
      case (Some r)
      obtain n cp where r: "r = (n, cp)" by fastforce
      have "utf8_step (map uint (drop i p)) = Some (uint cp, map uint (drop (i + n) p))"
        using sequence_is_step [of "drop i p"] Some r by (simp add: step_of_def add.commute)
      then have d: "utf8_decode (map uint (drop i p)) =
          map_option (\<lambda>s. uint cp # s) (utf8_decode (map uint (drop (i + n) p)))"
        by (rule utf8_decode_step)
      have v: "utf8_validate_at p i = utf8_validate_at p (i + n)"
        by (subst utf8_validate_at.simps) (simp add: False Some r)
      have ih: "utf8_validate_at p (i + n) \<longleftrightarrow> utf8_decode (map uint (drop (i + n) p)) \<noteq> None"
        by (rule 1 [OF False Some r [symmetric]])
      show ?thesis unfolding v d ih by (simp only: option.map_disc_iff not_None_eq)
    qed
  qed
qed

text \<open>
  C31: The daemon's UTF-8 check accepts exactly what the strict codec decodes: no stray or
  missing continuation byte, no overlong form, no surrogate and nothing above U+10FFFF, for any
  sequence of bytes.
\<close>

theorem utf8_validate_iff:
  "af_utf8_validate p \<longleftrightarrow> utf8_decode (map uint p) \<noteq> None"
  by (simp add: af_utf8_validate_def validate_at_iff)

end
