(* ===== verification/Control_Frame.thy ===== *)
theory Control_Frame
  imports Buffer Utf8_Check
begin

text \<open>
  The line framing of the control protocol, \<open>src/control/control_frame.asm\<close>: the next frame of
  the inbox, its removal, and the terminator of a frame that is written. A frame is returned as the
  list of its bytes instead of a pointer into the inbox and a length. The inbox pointer is never
  null here.
\<close>

section \<open>The operations\<close>

text \<open>The scan for the terminator.\<close>

function newline_at :: "u8 list \<Rightarrow> nat \<Rightarrow> nat option" where
  "newline_at s i =
     (if length s \<le> i then None
      else if s ! i = 10 then Some i
      else newline_at s (i + 1))"
  by pat_completeness auto
termination by (relation "measure (\<lambda>(s, i). length s - i)") auto

declare newline_at.simps [simp del]

definition af_ctl_frame_next :: "af_buffer \<Rightarrow> u64 \<Rightarrow> af_status + u8 list" where
  "af_ctl_frame_next inbox frame_max =
     (if buf_len inbox = 0 then Inl AF_E_AGAIN
      else
        let s = contents inbox
        in case newline_at s 0 of
          None \<Rightarrow> if frame_max \<le> buf_len inbox then Inl AF_E_CTL_FRAME_LARGE else Inl AF_E_AGAIN
        | Some i \<Rightarrow>
            if frame_max < of_nat i + 1 then Inl AF_E_CTL_FRAME_LARGE
            else
              let n = (if i = 0 then i else if s ! (i - 1) \<noteq> 13 then i else i - 1)
              in if \<not> af_utf8_validate (take n s) then Inl AF_E_MCP_PROTOCOL
                 else Inr (take n s))"

definition af_ctl_frame_consume :: "af_buffer \<Rightarrow> u64 \<Rightarrow> af_status option \<times> af_buffer" where
  "af_ctl_frame_consume inbox frame_len =
     (let s = contents inbox; n = buf_len inbox
      in if n < frame_len then (Some AF_E_RANGE, inbox)
         else if frame_len = n then (Some AF_E_RANGE, inbox)
         else
           let k = (if s ! unat frame_len \<noteq> 13 then frame_len else frame_len + 1)
           in if s ! unat frame_len = 13 \<and> n \<le> k then (Some AF_E_RANGE, inbox)
              else if s ! unat k \<noteq> 10 then (Some AF_E_RANGE, inbox)
              else af_buf_consume inbox (k + 1))"

definition af_ctl_frame_finish ::
  "allocator \<Rightarrow> af_buffer \<Rightarrow> u64 \<Rightarrow> u64 \<Rightarrow> af_status option \<times> af_buffer" where
  "af_ctl_frame_finish ra outbox start_len frame_max =
     (if frame_max < buf_len outbox - start_len + 1 then (Some AF_E_CTL_FRAME_LARGE, outbox)
      else af_buf_append_byte ra outbox 10)"

section \<open>Lines\<close>

lemma newline_at_None: "newline_at s i = None \<longleftrightarrow> (\<forall>j. i \<le> j \<longrightarrow> j < length s \<longrightarrow> s ! j \<noteq> 10)"
proof (induction s i rule: newline_at.induct)
  case (1 s i)
  show ?case
  proof (cases "i < length s \<and> s ! i \<noteq> 10")
    case True
    then have "newline_at s i = newline_at s (i + 1)" by (subst newline_at.simps) simp
    with 1 True show ?thesis by (simp add: all_from_step [of i "length s"])
  next
    case False
    then show ?thesis by (subst newline_at.simps) auto
  qed
qed

lemma newline_at_Some:
  "newline_at s i = Some k \<longleftrightarrow> i \<le> k \<and> k < length s \<and> s ! k = 10 \<and> (\<forall>j. i \<le> j \<and> j < k \<longrightarrow> s ! j \<noteq> 10)"
proof (induction s i rule: newline_at.induct)
  case (1 s i)
  show ?case
  proof (cases "i < length s \<and> s ! i \<noteq> 10")
    case True
    then have "newline_at s i = newline_at s (i + 1)" by (subst newline_at.simps) simp
    moreover have "i \<le> j \<longleftrightarrow> j = i \<or> i + 1 \<le> j" for j by linarith
    ultimately show ?thesis using 1 True by auto
  next
    case False
    show ?thesis
    proof (cases "length s \<le> i")
      case True
      then show ?thesis by (subst newline_at.simps) auto
    next
      case in_range: False
      with False have "s ! i = 10" by simp
      with in_range have "newline_at s i = Some i" by (subst newline_at.simps) simp
      moreover have "k = i" if "i \<le> k" "\<forall>j. i \<le> j \<and> j < k \<longrightarrow> s ! j \<noteq> 10"
        using that \<open>s ! i = 10\<close> by (metis le_neq_implies_less order_refl)
      ultimately show ?thesis using in_range \<open>s ! i = 10\<close> by auto
    qed
  qed
qed

lemma newline_in_line: "10 \<notin> set f \<Longrightarrow> newline_at (f @ 10 # r) 0 = Some (length f)"
  by (auto simp: newline_at_Some nth_append in_set_conv_nth)

lemma newline_first:
  assumes "newline_at s 0 = Some k"
  shows "10 \<notin> set (take k s)" "s = take k s @ 10 # drop (k + 1) s"
proof -
  from assms have k: "k < length s" "s ! k = 10" "\<forall>j<k. s ! j \<noteq> 10" by (simp_all add: newline_at_Some)
  then show "10 \<notin> set (take k s)" by (auto simp: in_set_conv_nth)
  show "s = take k s @ 10 # drop (k + 1) s" using k by (metis Suc_eq_plus1 id_take_nth_drop)
qed

section \<open>What a frame is\<close>

text \<open>The line without its terminator: a carriage return before the line feed goes with it.\<close>

definition trim_cr :: "u8 list \<Rightarrow> u8 list" where
  "trim_cr f = (if f \<noteq> [] \<and> last f = 13 then butlast f else f)"

lemma trim_cr_take:
  assumes "k \<le> length s"
  shows "take (if k = 0 then k else if s ! (k - 1) \<noteq> 13 then k else k - 1) s = trim_cr (take k s)"
proof (cases "k = 0")
  case False
  then have "take k s \<noteq> []" using assms by auto
  then have "last (take k s) = s ! (k - 1)" using assms False by (simp add: last_conv_nth)
  moreover have "butlast (take k s) = take (k - 1) s" using assms by (simp add: butlast_take)
  ultimately show ?thesis using False assms by (auto simp: trim_cr_def)
qed (simp add: trim_cr_def)

text \<open>
  What \<open>af_ctl_frame_next\<close> yields in terms of the bytes held: the first line, in one expression.
\<close>

definition next_spec :: "u8 list \<Rightarrow> nat \<Rightarrow> af_status + u8 list" where
  "next_spec s frame_max =
     (if s = [] then Inl AF_E_AGAIN
      else if 10 \<notin> set s then (if frame_max \<le> length s then Inl AF_E_CTL_FRAME_LARGE else Inl AF_E_AGAIN)
      else
        let f = takeWhile (\<lambda>c. c \<noteq> 10) s
        in if frame_max < length f + 1 then Inl AF_E_CTL_FRAME_LARGE
           else if \<not> af_utf8_validate (trim_cr f) then Inl AF_E_MCP_PROTOCOL
           else Inr (trim_cr f))"

lemma newline_takeWhile: "newline_at s 0 = Some k \<Longrightarrow> takeWhile (\<lambda>c. c \<noteq> 10) s = take k s"
proof -
  assume n: "newline_at s 0 = Some k"
  from newline_first [OF n] have "takeWhile (\<lambda>c. c \<noteq> 10) (take k s @ 10 # drop (k + 1) s) = take k s"
    by (subst takeWhile_append2) auto
  with newline_first(2) [OF n] show ?thesis by simp
qed

lemma next_is_spec:
  assumes "buf_wf b" shows "af_ctl_frame_next b m = next_spec (contents b) (unat m)"
proof (cases "newline_at (contents b) 0")
  case None
  then have "10 \<notin> set (contents b)" by (auto simp: newline_at_None in_set_conv_nth)
  moreover have "buf_len b = 0 \<longleftrightarrow> contents b = []"
    using contents_wf [OF assms] by (metis length_0_conv unat_eq_zero)
  ultimately show ?thesis
    using None contents_wf [OF assms] by (simp add: af_ctl_frame_next_def next_spec_def word_le_nat_alt)
next
  case (Some k)
  let ?s = "contents b"
  have k: "k < length ?s" "?s ! k = 10" using Some by (simp_all add: newline_at_Some)
  have len: "length ?s = unat (buf_len b)" using contents_wf [OF assms] .
  have "buf_len b \<noteq> 0" using k len by auto
  moreover have "10 \<in> set ?s" using k by (metis nth_mem)
  moreover have "unat (of_nat k + 1 :: u64) = k + 1"
  proof -
    have "of_nat k + 1 = (of_nat (k + 1) :: u64)" by simp
    moreover have "k + 1 < 2 ^ 64" using k len unat_u64_bound [of "buf_len b"] by simp
    ultimately show ?thesis by (simp only: unat_of_nat) simp
  qed
  ultimately show ?thesis
    using k len newline_takeWhile [OF Some] trim_cr_take [of k ?s]
    by (auto simp: af_ctl_frame_next_def next_spec_def Some Let_def word_less_nat_alt)
qed

lemma takeWhile_line: "10 \<notin> set f \<Longrightarrow> takeWhile (\<lambda>c. c \<noteq> 10) (f @ 10 # r) = f"
  by (subst takeWhile_append2) auto

lemma split_line:
  assumes "10 \<in> set s"
  shows "s = takeWhile (\<lambda>c. c \<noteq> 10) s @ 10 # tl (dropWhile (\<lambda>c. c \<noteq> 10) s)"
proof -
  have "dropWhile (\<lambda>c. c \<noteq> 10) s \<noteq> []" using assms by (simp add: dropWhile_eq_Nil_conv)
  moreover from this have "hd (dropWhile (\<lambda>c. c \<noteq> 10) s) = 10" using hd_dropWhile by blast
  ultimately show ?thesis by (metis list.collapse takeWhile_dropWhile_id)
qed

lemma trim_cr_split: "\<exists>cr. f = trim_cr f @ cr \<and> (cr = [] \<or> cr = [13])"
  by (cases f rule: rev_cases) (auto simp: trim_cr_def)

lemma set_trim_cr: "set (trim_cr f) \<subseteq> set f"
  by (auto simp: trim_cr_def dest: in_set_butlastD)

lemma length_trim_cr: "length (trim_cr f) \<le> length f"
  by (simp add: trim_cr_def)

text \<open>Removing a line by the length of its frame.\<close>

lemma consume_line:
  assumes "buf_wf b" "contents b = f @ cr @ 10 # r" "cr = [] \<or> cr = [13]"
  shows "\<exists>b'. af_ctl_frame_consume b (of_nat (length f)) = (AF_OK, b') \<and> buf_wf b' \<and> contents b' = r \<and>
    buf_max b' = buf_max b"
proof -
  let ?n = "of_nat (length f) :: u64"
  have len: "unat (buf_len b) = length f + length cr + 1 + length r"
    using contents_wf [OF assms(1)] assms(2) by simp
  have n: "unat ?n = length f" and n1: "unat (?n + 1) = length f + 1"
    and n2: "cr = [13] \<Longrightarrow> unat (?n + 1 + 1) = length f + 2"
  proof -
    have w: "unat (of_nat k :: u64) = k" if "k \<le> unat (buf_len b)" for k
      using that unat_u64_bound [of "buf_len b"] by (simp add: unat_of_nat)
    show "unat ?n = length f" using w [of "length f"] len by simp
    show "unat (?n + 1) = length f + 1" using w [of "length f + 1"] len by (simp add: add.commute)
    show "cr = [13] \<Longrightarrow> unat (?n + 1 + 1) = length f + 2"
      using w [of "length f + 2"] len by (simp add: add.commute)
  qed
  define k where "k = (if cr = [] then ?n else ?n + 1)"
  have k: "unat (k + 1) = length f + length cr + 1" "unat k = length f + length cr"
    using assms(3) n n1 n2 by (auto simp: k_def add.commute)
  have "af_ctl_frame_consume b ?n = af_buf_consume b (k + 1)"
  proof -
    have "\<not> buf_len b < ?n" "?n \<noteq> buf_len b" using len n by (auto simp: word_less_nat_alt)
    moreover have "\<not> buf_len b \<le> k" using len k by (auto simp: word_le_nat_alt)
    moreover have "contents b ! unat ?n \<noteq> 13 \<longleftrightarrow> cr = []" using assms(2,3) n by auto
    moreover have "contents b ! unat k = 10" using assms(2) k by (auto simp: nth_append)
    ultimately show ?thesis using assms(3) by (auto simp: af_ctl_frame_consume_def Let_def k_def)
  qed
  moreover obtain st b' where b': "af_buf_consume b (k + 1) = (st, b')" by fastforce
  moreover have "st = None"
    using b' consume_fail [of b "k + 1"] len k by (cases st) (auto simp: word_less_nat_alt)
  moreover have "drop (length f + length cr + 1) (contents b) = r" using assms(2) by simp
  ultimately show ?thesis using consume_ok [OF assms(1), of "k + 1" b'] k by simp
qed

text \<open>
  A frame the framer hands out is the first line of the inbox, and removing it removes
  exactly that line. It has no line feed, passes the UTF-8 check and, with its terminator, is
  within the ceiling; the removal by its length succeeds, whether the line ended in CRLF or in
  a line feed, and leaves the bytes behind the line.
\<close>

lemma frame_is_first_line:
  assumes "buf_wf b" "af_ctl_frame_next b m = Inr f"
  shows "\<exists>b' cr. contents b = f @ cr @ 10 # contents b' \<and> (cr = [] \<or> cr = [13]) \<and>
    af_ctl_frame_consume b (of_nat (length f)) = (AF_OK, b') \<and>
    10 \<notin> set f \<and> af_utf8_validate f \<and> length f + length cr + 1 \<le> unat m"
proof -
  let ?s = "contents b"
  let ?l = "takeWhile (\<lambda>c. c \<noteq> 10) ?s"
  from assms have r: "10 \<in> set ?s" "length ?l + 1 \<le> unat m" "af_utf8_validate f" "f = trim_cr ?l"
    by (auto simp: next_is_spec next_spec_def Let_def split: if_splits)
  obtain cr where cr: "?l = f @ cr" "cr = [] \<or> cr = [13]" using trim_cr_split [of ?l] r(4) by auto
  obtain rest where s: "?s = f @ cr @ 10 # rest" using split_line [OF r(1)] cr(1) by (metis append.assoc)
  obtain b' where b': "af_ctl_frame_consume b (of_nat (length f)) = (AF_OK, b')" "contents b' = rest"
    using consume_line [OF assms(1) s cr(2)] by blast
  have "10 \<notin> set ?l" by (auto dest: set_takeWhileD)
  then have "10 \<notin> set f" using cr(1) by simp
  moreover have "length f + length cr + 1 \<le> unat m" using r(2) cr(1) by simp
  ultimately show ?thesis using s [folded b'(2)] cr(2) b'(1) r(3) by blast
qed

definition sample_inbox :: af_buffer where
  "sample_inbox = \<lparr>buf_data = Some [123, 125, 13, 10, 123, 0], buf_len = 5, buf_cap = 6, buf_max = 64\<rparr>"

lemma frame_is_first_line_witness:
  "\<exists>b' cr. contents sample_inbox = [123, 125] @ cr @ 10 # contents b' \<and> (cr = [] \<or> cr = [13]) \<and>
    af_ctl_frame_consume sample_inbox (of_nat (length [123, 125 :: u8])) = (AF_OK, b') \<and>
    10 \<notin> set [123, 125 :: u8] \<and> af_utf8_validate [123, 125] \<and> length [123, 125 :: u8] + length cr + 1 \<le> unat (64 :: u64)"
proof -
  have "af_ctl_frame_next sample_inbox 64 = Inr [123, 125]" by code_simp
  then show ?thesis by (intro frame_is_first_line) (simp_all add: sample_inbox_def buf_wf_def)
qed

lemma next_spec_again: "next_spec s m = Inl AF_E_AGAIN \<Longrightarrow> s = [] \<or> length s < m"
  by (auto simp: next_spec_def Let_def split: if_splits)

lemma next_spec_line:
  "10 \<in> set s \<Longrightarrow> next_spec (s @ t) m = next_spec s m"
  by (auto simp: next_spec_def takeWhile_append1)

lemma next_spec_large: "next_spec s m = Inl AF_E_CTL_FRAME_LARGE \<Longrightarrow> next_spec (s @ t) m = Inl AF_E_CTL_FRAME_LARGE"
proof (cases "10 \<in> set s")
  case True
  then show "next_spec s m = Inl AF_E_CTL_FRAME_LARGE \<Longrightarrow> ?thesis" by (simp add: next_spec_line)
next
  case False
  assume "next_spec s m = Inl AF_E_CTL_FRAME_LARGE"
  with False have s: "s \<noteq> []" "m \<le> length s" by (auto simp: next_spec_def split: if_splits)
  have "takeWhile (\<lambda>c. c \<noteq> 10) (s @ t) = s @ takeWhile (\<lambda>c. c \<noteq> 10) t"
    using False by (subst takeWhile_append2) auto
  with False s show ?thesis by (simp add: next_spec_def Let_def)
qed

lemma next_spec_frame: "next_spec s m = Inr f \<Longrightarrow> next_spec (s @ t) m = Inr f"
  by (cases "10 \<in> set s") (simp_all add: next_spec_line, simp add: next_spec_def split: if_splits)

text \<open>
  The ceiling holds while a frame is still arriving. A framer that asks for more has been
  sent fewer bytes than the ceiling (or none); and a verdict does not depend on how much of what follows
  has arrived: a frame that is too large stays too large, whatever is appended, and a
  complete frame stays the frame that is handed out.
\<close>

lemma frame_ceiling:
  assumes "buf_wf b" "buf_wf c" "contents c = contents b @ t"
  shows "(af_ctl_frame_next b m = Inl AF_E_AGAIN \<longrightarrow> contents b = [] \<or> length (contents b) < unat m) \<and>
    (af_ctl_frame_next b m = Inl AF_E_CTL_FRAME_LARGE \<longrightarrow> af_ctl_frame_next c m = Inl AF_E_CTL_FRAME_LARGE) \<and>
    (af_ctl_frame_next b m = Inr f \<longrightarrow> af_ctl_frame_next c m = Inr f)"
  using next_spec_again [of "contents b"] next_spec_large [of "contents b"] next_spec_frame [of "contents b"]
  by (simp add: next_is_spec [OF assms(1)] next_is_spec [OF assms(2)] assms(3))

lemma frame_ceiling_witness:
  "let b = \<lparr>buf_data = Some [123, 123, 123], buf_len = 2, buf_cap = 3, buf_max = 8\<rparr>; c = b\<lparr>buf_len := 3\<rparr>
   in (af_ctl_frame_next b 2 = Inl AF_E_AGAIN \<longrightarrow> contents b = [] \<or> length (contents b) < unat (2 :: u64)) \<and>
    (af_ctl_frame_next b 2 = Inl AF_E_CTL_FRAME_LARGE \<longrightarrow> af_ctl_frame_next c 2 = Inl AF_E_CTL_FRAME_LARGE) \<and>
    (af_ctl_frame_next b 2 = Inr [] \<longrightarrow> af_ctl_frame_next c 2 = Inr [])"
  unfolding Let_def
  by (rule frame_ceiling [where t = "[123]"]) (simp_all add: buf_wf_def contents_def)

section \<open>A conversation\<close>

text \<open>
  The sender appends the bytes of each frame and terminates it; the receiver takes frames off its
  inbox until there is none, at most as many as \<open>fuel\<close>.
\<close>

fun send_frames :: "allocator \<Rightarrow> u64 \<Rightarrow> af_buffer \<Rightarrow> u8 list list \<Rightarrow> af_status option \<times> af_buffer" where
  "send_frames ra m b [] = (AF_OK, b)"
| "send_frames ra m b (f # fs) =
     (case af_buf_append ra b (Some f) (of_nat (length f)) of
        (Some e, c) \<Rightarrow> (Some e, c)
      | (None, c) \<Rightarrow>
          (case af_ctl_frame_finish ra c (buf_len b) m of
             (Some e, d) \<Rightarrow> (Some e, d)
           | (None, d) \<Rightarrow> send_frames ra m d fs))"

fun receive_frames :: "nat \<Rightarrow> u64 \<Rightarrow> af_buffer \<Rightarrow> u8 list list \<times> af_buffer" where
  "receive_frames 0 m b = ([], b)"
| "receive_frames (Suc fuel) m b =
     (case af_ctl_frame_next b m of
        Inl _ \<Rightarrow> ([], b)
      | Inr f \<Rightarrow>
          (case af_ctl_frame_consume b (of_nat (length f)) of
             (Some _, c) \<Rightarrow> ([], c)
           | (None, c) \<Rightarrow> (f # fst (receive_frames fuel m c), snd (receive_frames fuel m c))))"

text \<open>Bytes that can be a frame: on one line, valid UTF-8, not ended by a carriage return.\<close>

definition frame_body :: "u8 list \<Rightarrow> bool" where
  "frame_body f \<longleftrightarrow> 10 \<notin> set f \<and> af_utf8_validate f \<and> (f = [] \<or> last f \<noteq> 13) \<and> length f < 2 ^ 64"

lemma frame_finish_ok:
  assumes "buf_wf b" "realloc_law ra" "length f < 2 ^ 64"
    "af_buf_append ra b (Some f) (of_nat (length f)) = (None, c)"
    "af_ctl_frame_finish ra c (buf_len b) m = (None, d)"
  shows "buf_wf d \<and> contents d = contents b @ f @ [10] \<and> buf_max d = buf_max b \<and> length f + 1 \<le> unat m"
proof -
  from append_ok [OF assms(1,2) unat_of_length [OF assms(3), symmetric] assms(4)]
  have c: "buf_wf c" "contents c = contents b @ f" "buf_max c = buf_max b" by auto
  have byte: "af_buf_append_byte ra c 10 = (None, d)" and lim: "\<not> m < buf_len c - buf_len b + 1"
    using assms(5) by (auto simp: af_ctl_frame_finish_def split: if_splits)
  from append_byte_ok [OF c(1) assms(2) byte] c
  have d: "buf_wf d" "contents d = contents b @ f @ [10]" "buf_max d = buf_max b" by auto
  have lb: "unat (buf_len c) = unat (buf_len b) + length f"
    using contents_wf [OF assms(1)] contents_wf [OF c(1)] c(2) by simp
  have room: "unat (buf_len b) + length f + 1 < 2 ^ 64"
    using contents_wf [OF d(1)] contents_wf [OF assms(1)] d(2) unat_u64_bound [of "buf_len d"] by simp
  have "unat (buf_len c - buf_len b) = length f"
    using lb by (subst unat_sub) (simp_all add: word_le_nat_alt)
  then have "of_nat (unat (buf_len c - buf_len b)) = (of_nat (length f) :: u64)" by (rule arg_cong)
  then have "buf_len c - buf_len b = of_nat (length f)" by simp
  moreover have "unat (of_nat (length f) + 1 :: u64) = length f + 1"
    using room by (simp add: unat_word_ariths unat_of_nat)
  ultimately have "length f + 1 \<le> unat m" using lim by (simp add: word_less_nat_alt)
  with d show ?thesis by simp
qed

lemma send_frames_ok:
  "buf_wf b \<Longrightarrow> realloc_law ra \<Longrightarrow> list_all frame_body fs \<Longrightarrow> send_frames ra m b fs = (None, c) \<Longrightarrow>
   buf_wf c \<and> contents c = contents b @ concat (map (\<lambda>f. f @ [10]) fs) \<and> list_all (\<lambda>f. length f + 1 \<le> unat m) fs"
proof (induction fs arbitrary: b)
  case (Cons f fs)
  then obtain d e where d: "af_buf_append ra b (Some f) (of_nat (length f)) = (None, d)"
    and e: "af_ctl_frame_finish ra d (buf_len b) m = (None, e)" and r: "send_frames ra m e fs = (None, c)"
    by (auto split: prod.splits option.splits)
  from frame_finish_ok [OF Cons.prems(1,2) _ d e] Cons.prems(3)
  have "buf_wf e" "contents e = contents b @ f @ [10]" "length f + 1 \<le> unat m" by (simp_all add: frame_body_def)
  with Cons.IH [OF _ Cons.prems(2) _ r] Cons.prems(3) show ?case by simp
qed simp

lemma receive_frames_ok:
  "buf_wf b \<Longrightarrow> list_all frame_body fs \<Longrightarrow> list_all (\<lambda>f. length f + 1 \<le> unat m) fs \<Longrightarrow>
   contents b = concat (map (\<lambda>f. f @ [10]) fs) @ rest \<Longrightarrow>
   fst (receive_frames (length fs) m b) = fs \<and> contents (snd (receive_frames (length fs) m b)) = rest"
proof (induction fs arbitrary: b)
  case (Cons f fs)
  let ?r = "concat (map (\<lambda>f. f @ [10]) fs) @ rest"
  have f: "10 \<notin> set f" "af_utf8_validate f" "trim_cr f = f" "length f + 1 \<le> unat m"
    using Cons.prems by (auto simp: frame_body_def trim_cr_def)
  have s: "contents b = f @ [] @ 10 # ?r" using Cons.prems(4) by simp
  have n: "af_ctl_frame_next b m = Inr f"
    using f s takeWhile_line [OF f(1), of ?r] by (simp add: next_is_spec [OF Cons.prems(1)] next_spec_def)
  obtain c where c: "af_ctl_frame_consume b (of_nat (length f)) = (AF_OK, c)" "buf_wf c" "contents c = ?r"
    using consume_line [OF Cons.prems(1) s] by auto
  from Cons.IH [OF c(2) _ _ c(3)] Cons.prems(2,3) n c(1) show ?case by simp
qed simp

text \<open>
  C19: What is sent as frames is received as those frames. When a sender writes any number of
  one-line UTF-8 bodies, each terminated within the ceiling, a receiver whose inbox holds those
  bytes and whatever follows them hands out exactly the bodies, in order, and is left with
  what follows.
\<close>

theorem control_frames_roundtrip:
  assumes "af_buf_init n = Inr b" "realloc_law ra" "list_all frame_body fs" "send_frames ra m b fs = (AF_OK, c)"
    "buf_wf inbox" "contents inbox = contents c @ rest"
  shows "fst (receive_frames (length fs) m inbox) = fs \<and>
    contents (snd (receive_frames (length fs) m inbox)) = rest"
  using init_wf [OF assms(1)] send_frames_ok [OF _ assms(2-4)] receive_frames_ok [OF assms(5,3)] assms(6) by auto

theorem control_frames_roundtrip_witness:
  "let inbox = \<lparr>buf_data = Some [123, 125, 10, 34, 195, 169, 34, 10, 123], buf_len = 9, buf_cap = 9, buf_max = 64\<rparr>
   in fst (receive_frames (length [[123, 125], [34, 195, 169, 34 :: u8]]) 16 inbox) = [[123, 125], [34, 195, 169, 34]] \<and>
    contents (snd (receive_frames (length [[123, 125], [34, 195, 169, 34 :: u8]]) 16 inbox)) = [123]"
proof -
  let ?b = "\<lparr>buf_data = None, buf_len = 0, buf_cap = 0, buf_max = 32\<rparr>" and ?fs = "[[123, 125], [34, 195, 169, 34 :: u8]]"
  have i: "af_buf_init 32 = Inr ?b" by (simp add: af_buf_init_def)
  have v: "af_utf8_validate [123, 125]" "af_utf8_validate [34, 195, 169, 34]" by code_simp+
  then have fs: "list_all frame_body ?fs" by (simp add: frame_body_def)
  have "case send_frames plain_realloc 16 ?b ?fs of (st, c) \<Rightarrow>
      st = AF_OK \<and> contents c = [123, 125, 10, 34, 195, 169, 34, 10]" by code_simp
  then obtain c where c: "send_frames plain_realloc 16 ?b ?fs = (AF_OK, c)" "contents c = [123, 125, 10, 34, 195, 169, 34, 10]"
    by (cases "send_frames plain_realloc 16 ?b ?fs") auto
  show ?thesis
    unfolding Let_def
    by (rule control_frames_roundtrip [OF i plain_realloc_law fs c(1)]) (simp_all add: buf_wf_def contents_def c(2) [unfolded contents_def])
qed

end
