(* ===== verification/Json_Writer.thy ===== *)
theory Json_Writer
  imports Json_Text Buffer Utf8_Check
begin

text \<open>
  The JSON writer of the daemon, \<open>src/json/json_write.asm\<close>. The writer appends to a buffer and
  keeps one level per open container, whose state byte is the record \<open>jw_level\<close> of its three
  flags; \<open>jw_status\<close> is \<open>None\<close> until the first failure, which is kept. Every call returns a status
  and the writer.

  The specification is a document under construction: the frames \<open>ArrF\<close> and \<open>ObjF\<close> of the open
  containers with the values they hold so far, on which a call either fits the grammar or not.
\<close>

record jw_level =
  lv_array :: bool
  lv_has_item :: bool
  lv_want_value :: bool

record json_writer =
  jw_out :: af_buffer
  jw_depth :: nat
  jw_status :: "af_status option"
  jw_root_done :: bool
  jw_stack :: "jw_level list"

definition AF_JW_MAX_DEPTH :: nat where "AF_JW_MAX_DEPTH = 32"

definition hexdigits :: "u8 list" where
  "hexdigits = [48, 49, 50, 51, 52, 53, 54, 55, 56, 57, 97, 98, 99, 100, 101, 102]"

definition esc_u :: "u8 list" where "esc_u = [92, 117, 48, 48]"
definition esc_b :: "u8 list" where "esc_b = [92, 98]"
definition esc_f :: "u8 list" where "esc_f = [92, 102]"
definition esc_n :: "u8 list" where "esc_n = [92, 110]"
definition esc_r :: "u8 list" where "esc_r = [92, 114]"
definition esc_t :: "u8 list" where "esc_t = [92, 116]"
definition esc_quote :: "u8 list" where "esc_quote = [92, 34]"
definition esc_slash :: "u8 list" where "esc_slash = [92, 92]"
definition replacement :: "u8 list" where "replacement = [0xEF, 0xBF, 0xBD]"
definition lit_true :: "u8 list" where "lit_true = [116, 114, 117, 101]"
definition lit_false :: "u8 list" where "lit_false = [102, 97, 108, 115, 101]"
definition lit_null :: "u8 list" where "lit_null = [110, 117, 108, 108]"

text \<open>A call, and the next one if it succeeded.\<close>

definition ok_then :: "'e option \<times> 's \<Rightarrow> ('s \<Rightarrow> 'e option \<times> 's) \<Rightarrow> 'e option \<times> 's" where
  "ok_then r f = (case r of (Some e, s) \<Rightarrow> (Some e, s) | (None, s) \<Rightarrow> f s)"

section \<open>Nesting\<close>

definition empty_level :: "bool \<Rightarrow> jw_level" where
  "empty_level kind = \<lparr>lv_array = kind, lv_has_item = False, lv_want_value = False\<rparr>"

definition af_jw_init :: "af_buffer \<Rightarrow> json_writer" where
  "af_jw_init out = \<lparr>jw_out = out, jw_depth = 0, jw_status = AF_OK, jw_root_done = False,
     jw_stack = replicate AF_JW_MAX_DEPTH (empty_level False)\<rparr>"

definition af_jw_finish :: "json_writer \<Rightarrow> af_status option \<times> json_writer" where
  "af_jw_finish w =
     (case jw_status w of
        Some e \<Rightarrow> (Some e, w)
      | None \<Rightarrow> if jw_depth w \<noteq> 0 then (Some AF_E_INTERNAL, w\<lparr>jw_status := Some AF_E_INTERNAL\<rparr>) else (AF_OK, w))"

definition af_jw_fail :: "json_writer \<Rightarrow> af_status \<Rightarrow> af_status option \<times> json_writer" where
  "af_jw_fail w code =
     (case jw_status w of Some e \<Rightarrow> (Some e, w) | None \<Rightarrow> (Some code, w\<lparr>jw_status := Some code\<rparr>))"

text \<open>An append to the output; its failure is recorded.\<close>

definition jw_put :: "json_writer \<Rightarrow> af_status option \<times> af_buffer \<Rightarrow> af_status option \<times> json_writer" where
  "jw_put w r =
     (case r of
        (Some e, b) \<Rightarrow> af_jw_fail (w\<lparr>jw_out := b\<rparr>) e
      | (None, b) \<Rightarrow> (AF_OK, w\<lparr>jw_out := b\<rparr>))"

definition jw_byte :: "allocator \<Rightarrow> json_writer \<Rightarrow> u8 \<Rightarrow> af_status option \<times> json_writer" where
  "jw_byte ra w c = jw_put w (af_buf_append_byte ra (jw_out w) c)"

definition jw_top :: "json_writer \<Rightarrow> jw_level" where
  "jw_top w = jw_stack w ! (jw_depth w - 1)"

definition jw_set_top :: "json_writer \<Rightarrow> jw_level \<Rightarrow> json_writer" where
  "jw_set_top w l = w\<lparr>jw_stack := (jw_stack w)[jw_depth w - 1 := l]\<rparr>"

definition af_jw_prepare_value :: "allocator \<Rightarrow> json_writer \<Rightarrow> af_status option \<times> json_writer" where
  "af_jw_prepare_value ra w =
     (case jw_status w of
        Some e \<Rightarrow> (Some e, w)
      | None \<Rightarrow>
          if jw_depth w = 0 then
            (if jw_root_done w then af_jw_fail w AF_E_INTERNAL else (AF_OK, w\<lparr>jw_root_done := True\<rparr>))
          else if lv_array (jw_top w) then
            ok_then (if lv_has_item (jw_top w) then jw_byte ra w 44 else (AF_OK, w))
              (\<lambda>w. (AF_OK, jw_set_top w ((jw_top w)\<lparr>lv_has_item := True\<rparr>)))
          else if \<not> lv_want_value (jw_top w) then af_jw_fail w AF_E_INTERNAL
          else (AF_OK, jw_set_top w ((jw_top w)\<lparr>lv_want_value := False\<rparr>)))"

definition af_jw_push :: "json_writer \<Rightarrow> bool \<Rightarrow> af_status option \<times> json_writer" where
  "af_jw_push w kind =
     (if AF_JW_MAX_DEPTH \<le> jw_depth w then af_jw_fail w AF_E_JSON_DEPTH
      else (AF_OK, w\<lparr>jw_stack := (jw_stack w)[jw_depth w := empty_level kind], jw_depth := jw_depth w + 1\<rparr>))"

definition af_jw_begin_object :: "allocator \<Rightarrow> json_writer \<Rightarrow> af_status option \<times> json_writer" where
  "af_jw_begin_object ra w =
     ok_then (af_jw_prepare_value ra w) (\<lambda>w. ok_then (jw_byte ra w 123) (\<lambda>w. af_jw_push w False))"

definition af_jw_begin_array :: "allocator \<Rightarrow> json_writer \<Rightarrow> af_status option \<times> json_writer" where
  "af_jw_begin_array ra w =
     ok_then (af_jw_prepare_value ra w) (\<lambda>w. ok_then (jw_byte ra w 91) (\<lambda>w. af_jw_push w True))"

definition af_jw_end :: "allocator \<Rightarrow> json_writer \<Rightarrow> bool \<Rightarrow> u8 \<Rightarrow> af_status option \<times> json_writer" where
  "af_jw_end ra w kind closing =
     (case jw_status w of
        Some e \<Rightarrow> (Some e, w)
      | None \<Rightarrow>
          if jw_depth w = 0 then af_jw_fail w AF_E_INTERNAL
          else if lv_array (jw_top w) \<noteq> kind then af_jw_fail w AF_E_INTERNAL
          else if lv_want_value (jw_top w) then af_jw_fail w AF_E_INTERNAL
          else jw_byte ra (w\<lparr>jw_depth := jw_depth w - 1\<rparr>) closing)"

definition af_jw_end_object :: "allocator \<Rightarrow> json_writer \<Rightarrow> af_status option \<times> json_writer" where
  "af_jw_end_object ra w = af_jw_end ra w False 125"

definition af_jw_end_array :: "allocator \<Rightarrow> json_writer \<Rightarrow> af_status option \<times> json_writer" where
  "af_jw_end_array ra w = af_jw_end ra w True 93"

section \<open>Strings\<close>

definition control_pieces :: "u8 \<Rightarrow> u8 list list" where
  "control_pieces c =
     (if c = 8 then [esc_b] else if c = 12 then [esc_f] else if c = 10 then [esc_n]
      else if c = 13 then [esc_r] else if c = 9 then [esc_t]
      else [esc_u, [hexdigits ! unat (drop_bit 4 c AND 15)], [hexdigits ! unat (c AND 15)]])"

text \<open>One round of the loop at a non-empty rest: what is appended, and the bytes passed.\<close>

definition string_step :: "u8 list \<Rightarrow> u8 list list \<times> nat" where
  "string_step s =
     (let c = hd s
      in if 0x80 \<le> c then
           (case af_utf8_sequence_length s of
              None \<Rightarrow> ([replacement], 1)
            | Some (n, _) \<Rightarrow> ([take n s], n))
         else if c < 0x20 then (control_pieces c, 1)
         else if c = 34 then ([esc_quote], 1)
         else if c = 92 then ([esc_slash], 1)
         else if c = 0x7F then (control_pieces c, 1)
         else ([[c]], 1))"

text \<open>A single byte is appended by \<open>af_buf_append_byte\<close>, anything longer by \<open>af_buf_append\<close>.\<close>

definition jw_piece :: "allocator \<Rightarrow> json_writer \<Rightarrow> u8 list \<Rightarrow> af_status option \<times> json_writer" where
  "jw_piece ra w p =
     (case p of
        [c] \<Rightarrow> jw_byte ra w c
      | _ \<Rightarrow> jw_put w (af_buf_append ra (jw_out w) (Some p) (of_nat (length p))))"

fun jw_pieces :: "allocator \<Rightarrow> json_writer \<Rightarrow> u8 list list \<Rightarrow> af_status option \<times> json_writer" where
  "jw_pieces ra w [] = (AF_OK, w)"
| "jw_pieces ra w (p # ps) = ok_then (jw_piece ra w p) (\<lambda>w. jw_pieces ra w ps)"

lemma string_step_progress: "s \<noteq> [] \<Longrightarrow> string_step s = (ps, n) \<Longrightarrow> 0 < n \<and> n \<le> length s"
  by (auto simp: string_step_def Let_def Suc_le_eq split: if_splits option.splits dest: sequence_length_bounds)

function jw_chars :: "allocator \<Rightarrow> json_writer \<Rightarrow> u8 list \<Rightarrow> af_status option \<times> json_writer" where
  "jw_chars ra w s =
     (if s = [] then (AF_OK, w)
      else case string_step s of (ps, n) \<Rightarrow> ok_then (jw_pieces ra w ps) (\<lambda>w. jw_chars ra w (drop n s)))"
  by pat_completeness auto
termination
  by (relation "measure (\<lambda>(ra, w, s). length s)") (auto dest: string_step_progress [OF _ sym])

declare jw_chars.simps [simp del]

definition af_jw_emit_string :: "allocator \<Rightarrow> json_writer \<Rightarrow> u8 list \<Rightarrow> af_status option \<times> json_writer" where
  "af_jw_emit_string ra w s =
     ok_then (jw_byte ra w 34) (\<lambda>w. ok_then (jw_chars ra w s) (\<lambda>w. jw_byte ra w 34))"

section \<open>Keys and values\<close>

definition af_jw_key_n :: "allocator \<Rightarrow> json_writer \<Rightarrow> u8 list \<Rightarrow> af_status option \<times> json_writer" where
  "af_jw_key_n ra w key =
     (case jw_status w of
        Some e \<Rightarrow> (Some e, w)
      | None \<Rightarrow>
          if jw_depth w = 0 then af_jw_fail w AF_E_INTERNAL
          else if lv_array (jw_top w) then af_jw_fail w AF_E_INTERNAL
          else if lv_want_value (jw_top w) then af_jw_fail w AF_E_INTERNAL
          else
            ok_then (if lv_has_item (jw_top w) then jw_byte ra w 44 else (AF_OK, w)) (\<lambda>w.
            ok_then (af_jw_emit_string ra w key) (\<lambda>w.
            ok_then (jw_byte ra w 58) (\<lambda>w.
            (AF_OK, jw_set_top w ((jw_top w)\<lparr>lv_has_item := True, lv_want_value := True\<rparr>))))))"

definition af_jw_key :: "allocator \<Rightarrow> json_writer \<Rightarrow> u8 list \<Rightarrow> af_status option \<times> json_writer" where
  "af_jw_key ra w key = af_jw_key_n ra w (take (af_cstr_len (Some key)) key)"

definition af_jw_string_n :: "allocator \<Rightarrow> json_writer \<Rightarrow> u8 list \<Rightarrow> af_status option \<times> json_writer" where
  "af_jw_string_n ra w s = ok_then (af_jw_prepare_value ra w) (\<lambda>w. af_jw_emit_string ra w s)"

definition af_jw_literal :: "allocator \<Rightarrow> json_writer \<Rightarrow> u8 list \<Rightarrow> af_status option \<times> json_writer" where
  "af_jw_literal ra w p =
     ok_then (af_jw_prepare_value ra w)
       (\<lambda>w. jw_put w (af_buf_append ra (jw_out w) (Some p) (of_nat (length p))))"

definition af_jw_raw :: "allocator \<Rightarrow> json_writer \<Rightarrow> u8 list \<Rightarrow> af_status option \<times> json_writer" where
  "af_jw_raw = af_jw_literal"

definition af_jw_bool :: "allocator \<Rightarrow> json_writer \<Rightarrow> bool \<Rightarrow> af_status option \<times> json_writer" where
  "af_jw_bool ra w v = af_jw_literal ra w (if v then lit_true else lit_false)"

definition af_jw_null :: "allocator \<Rightarrow> json_writer \<Rightarrow> af_status option \<times> json_writer" where
  "af_jw_null ra w = af_jw_literal ra w lit_null"

definition af_jw_string :: "allocator \<Rightarrow> json_writer \<Rightarrow> u8 list option \<Rightarrow> af_status option \<times> json_writer" where
  "af_jw_string ra w s =
     (case s of
        None \<Rightarrow> af_jw_null ra w
      | Some p \<Rightarrow> af_jw_string_n ra w (take (af_cstr_len s) p))"

definition af_jw_uint :: "allocator \<Rightarrow> json_writer \<Rightarrow> u64 \<Rightarrow> af_status option \<times> json_writer" where
  "af_jw_uint ra w v =
     ok_then (af_jw_prepare_value ra w) (\<lambda>w. jw_put w (af_buf_append_u64 ra (jw_out w) v))"

definition af_jw_int :: "allocator \<Rightarrow> json_writer \<Rightarrow> u64 \<Rightarrow> af_status option \<times> json_writer" where
  "af_jw_int ra w v =
     ok_then (af_jw_prepare_value ra w) (\<lambda>w.
       if sint v < 0
       then ok_then (jw_byte ra w 45) (\<lambda>w. jw_put w (af_buf_append_u64 ra (jw_out w) (- v)))
       else jw_put w (af_buf_append_u64 ra (jw_out w) v))"

definition af_jw_member_string where
  "af_jw_member_string ra w k s = ok_then (af_jw_key ra w k) (\<lambda>w. af_jw_string ra w s)"

definition af_jw_member_string_n where
  "af_jw_member_string_n ra w k s = ok_then (af_jw_key ra w k) (\<lambda>w. af_jw_string_n ra w s)"

definition af_jw_member_uint where
  "af_jw_member_uint ra w k v = ok_then (af_jw_key ra w k) (\<lambda>w. af_jw_uint ra w v)"

definition af_jw_member_int where
  "af_jw_member_int ra w k v = ok_then (af_jw_key ra w k) (\<lambda>w. af_jw_int ra w v)"

definition af_jw_member_bool where
  "af_jw_member_bool ra w k v = ok_then (af_jw_key ra w k) (\<lambda>w. af_jw_bool ra w v)"

definition af_jw_member_null where
  "af_jw_member_null ra w k = ok_then (af_jw_key ra w k) (\<lambda>w. af_jw_null ra w)"

section \<open>The text of a string\<close>

text \<open>How a code point stands in a string, and the code points of bytes that need not be UTF-8.\<close>

definition jw_escape_cp :: "cp \<Rightarrow> pystr" where
  "jw_escape_cp c =
     (if c = 34 \<or> c = 92 then [92, c]
      else if c = 8 then [92, 98] else if c = 12 then [92, 102] else if c = 10 then [92, 110]
      else if c = 13 then [92, 114] else if c = 9 then [92, 116]
      else if c < 32 \<or> c = 127 then u_escape c
      else [c])"

definition jw_quote :: "pystr \<Rightarrow> pystr" where
  "jw_quote s = 34 # concat (map jw_escape_cp s) @ [34]"

function utf8_replace :: "int list \<Rightarrow> pystr" where
  "utf8_replace bs =
     (if bs = [] then []
      else case utf8_step bs of
        None \<Rightarrow> 65533 # utf8_replace (tl bs)
      | Some (c, t) \<Rightarrow> c # utf8_replace t)"
  by pat_completeness auto
termination
  by (relation "measure length") (auto dest: utf8_step_length)

declare utf8_replace.simps [simp del]

lemma utf8_replace_Nil [simp]: "utf8_replace [] = []"
  by (simp add: utf8_replace.simps)

lemma utf8_replace_scalar: "list_all scalar (utf8_replace bs)"
proof (induction bs rule: utf8_replace.induct)
  case (1 bs)
  show ?case
  proof (cases "bs = []")
    case False
    with 1 show ?thesis
      by (subst utf8_replace.simps) (auto simp: scalar_def [of 65533] dest: utf8_step_scalar split: option.splits)
  qed simp
qed

text \<open>Valid UTF-8 is kept as it is.\<close>

lemma utf8_replace_valid: "utf8_decode bs = Some t \<Longrightarrow> utf8_replace bs = t"
proof (induction bs arbitrary: t rule: utf8_replace.induct)
  case (1 bs)
  show ?case
  proof (cases "bs = []")
    case True
    with 1 show ?thesis by simp
  next
    case False
    with 1(3) obtain c r s where s: "utf8_step bs = Some (c, r)" "utf8_decode r = Some s" "t = c # s"
      by (subst (asm) utf8_decode.simps) (auto split: option.splits)
    with 1(2) [OF False s(1) refl] False show ?thesis by (subst utf8_replace.simps) simp
  qed
qed

lemma scan_jw_escape:
  assumes "scalar c"
  shows "scanstring (jw_escape_cp c @ r) = map_option (\<lambda>(t, q). (c # t, q)) (scanstring r)"
proof (cases "c < 32 \<or> c = 127 \<or> c = 34 \<or> c = 92")
  case False
  then have "jw_escape_cp c = [c]" by (simp add: jw_escape_cp_def)
  with False show ?thesis by (subst scanstring.simps) auto
next
  case special: True
  show ?thesis
  proof (cases "c \<in> {34, 92, 8, 12, 10, 13, 9}")
    case True
    then obtain d where "jw_escape_cp c = [92, d]" "simple_escape d = Some c" "d \<noteq> 117"
      by (auto simp: jw_escape_cp_def simple_escape_def)
    then show ?thesis by (simp add: scan_backslash escape_def)
  next
    case False
    have c: "0 \<le> c" "c < 65536" "\<not> high_surrogate c"
      using assms special by (auto simp: scalar_def high_surrogate_def)
    have u: "jw_escape_cp c = u_escape c" using special False by (auto simp: jw_escape_cp_def)
    have "escape (tl (u_escape c) @ r) = Some (c, r)" using escape_u [OF c(1,2)] c(3) by (simp add: pair_up_plain)
    moreover have "u_escape c @ r = 92 # tl (u_escape c) @ r" by (simp add: u_escape_def)
    ultimately show ?thesis unfolding u by (metis scan_backslash)
  qed
qed

lemma scan_jw_quote: "list_all scalar s \<Longrightarrow> scanstring (tl (jw_quote s) @ r) = Some (s, r)"
proof -
  have "list_all scalar s \<Longrightarrow> scanstring (concat (map jw_escape_cp s) @ 34 # r) = Some (s, r)"
  proof (induction s)
    case Nil
    show ?case by (subst scanstring.simps) simp
  qed (simp add: scan_jw_escape)
  then show "list_all scalar s \<Longrightarrow> scanstring (tl (jw_quote s) @ r) = Some (s, r)" by (simp add: jw_quote_def)
qed

interpretation jw: json_printer jw_quote "[]"
  by unfold_locales (simp_all add: scan_jw_quote, simp add: jw_quote_def)

section \<open>What the bytes say\<close>

definition wire :: "u8 list \<Rightarrow> int list" where "wire p = map uint p"

definition utf8_text :: "pystr \<Rightarrow> int list" where "utf8_text t = concat (map utf8_cp t)"

lemma utf8_text_simps [simp]: "utf8_text [] = []" "utf8_text (c # t) = utf8_cp c @ utf8_text t" "utf8_text (s @ t) = utf8_text s @ utf8_text t"
  by (simp_all add: utf8_text_def)

lemma wire_simps [simp]: "wire [] = []" "wire (c # p) = uint c # wire p" "wire (p @ q) = wire p @ wire q"
  by (simp_all add: wire_def)

lemma utf8_cp_ascii [simp]: "c < 128 \<Longrightarrow> utf8_cp c = [c]"
  by (simp add: utf8_cp_def)

lemma utf8_text_ascii: "list_all (\<lambda>c. c < 128) t \<Longrightarrow> utf8_text t = t"
  by (induction t) simp_all

lemma base64_value:
  fixes a b :: int
  assumes "0 \<le> b" "b < 64"
  shows "(a * 64 + b) div 64 = a" "(a * 64 + b) mod 64 = b"
  using assms by (simp_all add: mod_pos_pos_trivial div_pos_pos_trivial)

text \<open>A step of the decoder takes the encoding of what it returns.\<close>

lemma utf8_step_inverse: "utf8_step bs = Some (c, t) \<Longrightarrow> bs = utf8_cp c @ t"
proof (cases bs)
  case (Cons a r)
  assume s: "utf8_step bs = Some (c, t)"
  have digits: "0 \<le> b - 128" "b - 128 < 64" if "cont_byte b" for b using that by (auto simp: cont_byte_def)
  consider "0 \<le> a" "a < 128" | "194 \<le> a" "a \<le> 223" | "224 \<le> a" "a \<le> 239" | "240 \<le> a" "a \<le> 244"
    using s Cons by (force split: if_splits)
  then show ?thesis
  proof cases
    case 1
    with s Cons show ?thesis by simp
  next
    case 2
    with s Cons obtain b where b: "r = b # t" "cont_byte b" "c = (a - 192) * 64 + (b - 128)"
      by (auto split: list.splits if_splits)
    from base64_value [OF digits [OF b(2)], of "a - 192"]
    have v: "c div 64 = a - 192" "c mod 64 = b - 128" unfolding b(3) by simp_all
    have "128 \<le> c" "c < 2048" using 2 b digits [OF b(2)] by auto
    with v b Cons show ?thesis by (simp add: utf8_cp_def)
  next
    case 3
    with s Cons obtain b d where b: "r = b # d # t" "cont_byte b" "cont_byte d" "2048 \<le> c" "scalar c"
      "c = (a - 224) * 4096 + (b - 128) * 64 + (d - 128)"
      by (auto simp: Let_def split: list.splits if_splits)
    have e: "c = ((a - 224) * 64 + (b - 128)) * 64 + (d - 128)" using b(6) by (simp add: algebra_simps)
    from base64_value [OF digits [OF b(3)], of "(a - 224) * 64 + (b - 128)"]
    have v: "c div 64 = (a - 224) * 64 + (b - 128)" "c mod 64 = d - 128" unfolding e by simp_all
    have "c div 4096 = c div 64 div 64" by (simp add: zdiv_zmult2_eq [symmetric])
    with v base64_value [OF digits [OF b(2)], of "a - 224"] have w: "c div 4096 = a - 224" "c div 64 mod 64 = b - 128" by simp_all
    have "c < 65536" using 3 b(6) digits [OF b(2)] digits [OF b(3)] by auto
    with v(2) w b Cons show ?thesis by (simp add: utf8_cp_def)
  next
    case 4
    have "\<exists>b d e q. r = b # d # e # q" using s Cons 4 by (simp split: list.splits)
    then obtain b d e q where r: "r = b # d # e # q" by blast
    let ?v = "(a - 240) * 262144 + (b - 128) * 4096 + (d - 128) * 64 + (e - 128)"
    have "utf8_step bs = (if cont_byte b \<and> cont_byte d \<and> cont_byte e \<and> 65536 \<le> ?v \<and> scalar ?v then Some (?v, q) else None)"
      using 4 Cons r by (simp add: Let_def)
    with s have b: "q = t" "cont_byte b" "cont_byte d" "cont_byte e" "65536 \<le> c" "c = ?v"
      by (auto simp only: split: if_splits)
    have x: "c = (((a - 240) * 64 + (b - 128)) * 64 + (d - 128)) * 64 + (e - 128)" using b(6) by (simp add: algebra_simps)
    let ?w = "((a - 240) * 64 + (b - 128)) * 64 + (d - 128)" and ?u = "(a - 240) * 64 + (b - 128)"
    note v = base64_value [OF digits [OF b(4)], of ?w, folded x]
    have q: "c div 4096 = c div 64 div 64" "c div 262144 = c div 4096 div 64" by (simp_all add: zdiv_zmult2_eq [symmetric])
    have w: "c div 4096 = ?u" "c div 64 mod 64 = d - 128"
      unfolding q(1) v(1) by (rule base64_value [OF digits [OF b(3)]])+
    have z: "c div 262144 = a - 240" "c div 4096 mod 64 = b - 128"
      unfolding q(2) w(1) by (rule base64_value [OF digits [OF b(2)]])+
    have "bs = [240 + (a - 240), 128 + (b - 128), 128 + (d - 128), 128 + (e - 128)] @ t" using b(1) r Cons by simp
    then have "bs = [240 + c div 262144, 128 + c div 4096 mod 64, 128 + c div 64 mod 64, 128 + c mod 64] @ t"
      unfolding z w(2) v(2) .
    with b(5) show ?thesis by (simp only: utf8_cp_def) simp
  qed
qed simp

lemma hexdigits_char: "n < 16 \<Longrightarrow> uint (hexdigits ! n) = hex_char (int n)"
proof -
  have "list_all (\<lambda>n. uint (hexdigits ! n) = hex_char (int n)) [0..<16]" by code_simp
  then show "n < 16 \<Longrightarrow> ?thesis" by (simp add: list_all_iff)
qed

lemma nibbles: "unat (c AND 15 :: u8) = unat c mod 16" "unat (drop_bit 4 c :: u8) = unat c div 16"
proof -
  have "c AND 15 = take_bit 4 c" by (simp add: take_bit_eq_mask mask_eq_exp_minus_1)
  then have "c AND 15 = c mod 16" by (simp add: take_bit_eq_mod)
  then show "unat (c AND 15) = unat c mod 16" by (simp add: unat_mod)
  show "unat (drop_bit 4 c) = unat c div 16" by (simp add: drop_bit_eq_div unat_div)
qed

lemma control_text:
  assumes "uint c < 32 \<or> uint c = 127"
  shows "wire (concat (control_pieces c)) = jw_escape_cp (uint c)" "list_all (\<lambda>p. p \<noteq> [] \<and> length p < 2 ^ 64) (control_pieces c)"
proof -
  let ?n = "unat c"
  have n: "int ?n = uint c" by simp
  have small: "?n div 16 mod 16 < 16" "?n mod 16 < 16" by simp_all
  have h: "uint c div 4096 mod 16 = 0" "uint c div 256 mod 16 = 0"
    using assms uint_ge_0 [of c] by (auto simp: div_pos_pos_trivial)
  have eq: "c = w \<longleftrightarrow> uint c = uint w" for w :: u8 by (rule word_uint_eq_iff)
  show "wire (concat (control_pieces c)) = jw_escape_cp (uint c)"
    using assms small h
    by (auto simp: control_pieces_def jw_escape_cp_def esc_b_def esc_f_def esc_n_def esc_r_def esc_t_def esc_u_def eq
        nibbles hexdigits_char u_escape_def zdiv_int zmod_int) (simp_all add: hex_char_def)
  show "list_all (\<lambda>p. p \<noteq> [] \<and> length p < 2 ^ 64) (control_pieces c)"
    by (auto simp: control_pieces_def esc_b_def esc_f_def esc_n_def esc_r_def esc_t_def esc_u_def)
qed

lemma jw_escape_ascii: "0 \<le> c \<Longrightarrow> c < 128 \<Longrightarrow> utf8_text (jw_escape_cp c) = jw_escape_cp c"
proof -
  assume c: "0 \<le> c" "c < 128"
  have h: "m < 16 \<Longrightarrow> hex_char m < 128" for m by (simp add: hex_char_def)
  have "c < 32 \<Longrightarrow> c div 16 < 16" by simp
  then have "list_all (\<lambda>d. d < 128) (jw_escape_cp c)" using c h by (auto simp: jw_escape_cp_def u_escape_def)
  then show ?thesis by (rule utf8_text_ascii)
qed

lemma string_step_text:
  assumes "s \<noteq> []" "string_step s = (ps, n)"
  shows "list_all (\<lambda>p. p \<noteq> [] \<and> length p < 2 ^ 64) ps"
    "\<exists>c. utf8_replace (wire s) = c # utf8_replace (wire (drop n s)) \<and> wire (concat ps) = utf8_text (jw_escape_cp c)"
proof -
  obtain c r where s: "s = c # r" using assms(1) by (cases s) auto
  then have hd: "hd s = c" by simp
  have le: "0x80 \<le> c \<longleftrightarrow> 128 \<le> uint c" "c < 0x20 \<longleftrightarrow> uint c < 32"
    by (simp_all add: word_le_def word_less_def)
  have eqs: "c = 34 \<longleftrightarrow> uint c = 34" "c = 92 \<longleftrightarrow> uint c = 92" "c = 0x7F \<longleftrightarrow> uint c = 127"
    by (simp_all add: word_uint_eq_iff)
  have goal: "list_all (\<lambda>p. p \<noteq> [] \<and> length p < 2 ^ 64) ps \<and>
    (\<exists>c. utf8_replace (wire s) = c # utf8_replace (wire (drop n s)) \<and> wire (concat ps) = utf8_text (jw_escape_cp c))"
  proof (cases "128 \<le> uint c")
    case low: False
    have rep: "utf8_replace (wire s) = uint c # utf8_replace (wire r)"
      using low s by (subst utf8_replace.simps) simp
    have esc: "utf8_text (jw_escape_cp (uint c)) = jw_escape_cp (uint c)" using low by (intro jw_escape_ascii) simp_all
    consider (control) "uint c < 32 \<or> uint c = 127" "ps = control_pieces c"
      | (quote) "uint c = 34" "ps = [esc_quote]" | (slash) "uint c = 92" "ps = [esc_slash]"
      | (plain) "\<not> uint c < 32" "uint c \<noteq> 127" "uint c \<noteq> 34" "uint c \<noteq> 92" "ps = [[c]]"
      using assms(2) low s le eqs by (auto simp: string_step_def Let_def split: if_splits)
    moreover have "n = 1" using assms(2) low s le by (auto simp: string_step_def Let_def split: if_splits)
    ultimately show ?thesis
      using rep esc control_text [of c] s
      by cases (auto simp: esc_quote_def esc_slash_def jw_escape_cp_def)
  next
    case high: True
    show ?thesis
    proof (cases "af_utf8_sequence_length s")
      case None
      then have "utf8_step (wire s) = None" using sequence_is_step [of s] by (simp add: step_of_def wire_def)
      then have "utf8_replace (wire s) = 65533 # utf8_replace (wire r)"
        using s by (subst utf8_replace.simps) simp
      moreover have "ps = [replacement]" "n = 1" using assms(2) None high le hd by (simp_all add: string_step_def Let_def)
      moreover have "utf8_text (jw_escape_cp 65533) = wire replacement"
        by (simp add: jw_escape_cp_def utf8_cp_def replacement_def)
      ultimately show ?thesis using s by (auto simp: replacement_def intro: exI [of _ 65533])
    next
      case (Some x)
      obtain k cp where x: "x = (k, cp)" by fastforce
      then have step: "utf8_step (wire s) = Some (uint cp, wire (drop k s))"
        using sequence_is_step [of s] Some by (simp add: step_of_def wire_def)
      then have rep: "utf8_replace (wire s) = uint cp # utf8_replace (wire (drop k s))"
        using s by (subst utf8_replace.simps) simp
      have ps: "ps = [take k s]" "n = k" using assms(2) Some x high le hd by (auto simp: string_step_def Let_def)
      have "wire (take k s) @ wire (drop k s) = utf8_cp (uint cp) @ wire (drop k s)"
        using utf8_step_inverse [OF step] by (simp add: wire_def flip: map_append)
      then have w: "wire (take k s) = utf8_cp (uint cp)" by simp
      have "128 \<le> uint cp"
      proof (rule ccontr)
        assume "\<not> 128 \<le> uint cp"
        then have "wire (take k s) = [uint cp]" using w by simp
        with high s \<open>\<not> 128 \<le> uint cp\<close> show False by (cases k) auto
      qed
      then have "jw_escape_cp (uint cp) = [uint cp]" by (simp add: jw_escape_cp_def)
      moreover have "length (take k s) \<le> 4" "take k s \<noteq> []"
        using arg_cong [OF w, of length] by (auto simp: utf8_cp_def wire_def split: if_splits)
      ultimately show ?thesis using rep ps w by (intro conjI exI [of _ "uint cp"]) auto
    qed
  qed
  then show "list_all (\<lambda>p. p \<noteq> [] \<and> length p < 2 ^ 64) ps"
    "\<exists>c. utf8_replace (wire s) = c # utf8_replace (wire (drop n s)) \<and> wire (concat ps) = utf8_text (jw_escape_cp c)"
    by blast+
qed

section \<open>Appending text\<close>

definition buffer_errors :: "af_status set" where
  "buffer_errors = {AF_E_OVERFLOW, AF_E_LIMIT, AF_E_NOMEM}"

text \<open>A call that has written a text and touched nothing else, or has recorded why it could not.\<close>

definition writes :: "json_writer \<Rightarrow> pystr \<Rightarrow> af_status option \<times> json_writer \<Rightarrow> bool" where
  "writes w t r \<longleftrightarrow>
     (case r of
        (None, w') \<Rightarrow> \<exists>b. w' = w\<lparr>jw_out := b\<rparr> \<and> buf_wf b \<and> wire (contents b) = wire (contents (jw_out w)) @ utf8_text t
      | (Some e, w') \<Rightarrow> e \<in> buffer_errors \<and> jw_status w' = Some e)"

definition ready :: "allocator \<Rightarrow> json_writer \<Rightarrow> bool" where
  "ready ra w \<longleftrightarrow> realloc_law ra \<and> buf_wf (jw_out w) \<and> jw_status w = None"

lemma ok_then_simps [simp]: "ok_then (Some e, w) f = (Some e, w)" "ok_then (None, w) f = f w"
  by (simp_all add: ok_then_def)

lemma writes_then:
  assumes "ready ra w" "writes w t r" "\<And>w'. ready ra w' \<Longrightarrow> writes w' u (f w')"
  shows "writes w (t @ u) (ok_then r f)"
proof (cases r)
  case (Pair st w')
  show ?thesis
  proof (cases st)
    case (Some e)
    with Pair assms(2) show ?thesis by (simp add: writes_def)
  next
    case None
    with Pair assms(2) obtain b where b: "w' = w\<lparr>jw_out := b\<rparr>" "buf_wf b"
      "wire (contents b) = wire (contents (jw_out w)) @ utf8_text t" by (auto simp: writes_def)
    have "ready ra w'" using assms(1) b by (simp add: ready_def)
    from assms(3) [OF this] Pair None b show ?thesis by (auto simp: writes_def split: prod.splits option.splits)
  qed
qed

lemma writes_empty: "ready ra w \<Longrightarrow> writes w [] (None, w)"
  by (auto simp: writes_def ready_def intro!: exI [of _ "jw_out w"])

lemma put_writes:
  assumes "ready ra w" "wire p = utf8_text t" "length p < 2 ^ 64"
  shows "writes w t (jw_put w (af_buf_append ra (jw_out w) (Some p) (of_nat (length p))))"
proof -
  obtain st b where r: "af_buf_append ra (jw_out w) (Some p) (of_nat (length p)) = (st, b)" by fastforce
  have wf: "buf_wf (jw_out w)" "realloc_law ra" "jw_status w = None" using assms(1) by (simp_all add: ready_def)
  show ?thesis
  proof (cases st)
    case None
    with append_ok [OF wf(1,2) unat_of_length [OF assms(3), symmetric]] r have "buf_wf b \<and> contents b = contents (jw_out w) @ p"
      by simp
    with None r assms(2) show ?thesis by (auto simp: writes_def jw_put_def)
  next
    case (Some e)
    with append_status r have "e \<in> buffer_errors" by (fastforce simp: buffer_errors_def)
    with Some r wf(3) show ?thesis by (simp add: writes_def jw_put_def af_jw_fail_def)
  qed
qed

lemma byte_put:
  "ready ra w \<Longrightarrow> jw_byte ra w c = jw_put w (af_buf_append ra (jw_out w) (Some [c]) (of_nat (length [c])))"
  by (simp add: jw_byte_def ready_def append_byte_append)

lemma byte_writes: "ready ra w \<Longrightarrow> uint c < 128 \<Longrightarrow> writes w [uint c] (jw_byte ra w c)"
  by (simp only: byte_put, rule put_writes) simp_all

lemma piece_put:
  "ready ra w \<Longrightarrow> jw_piece ra w p = jw_put w (af_buf_append ra (jw_out w) (Some p) (of_nat (length p)))"
  by (auto simp: jw_piece_def byte_put split: list.splits)

text \<open>The pieces of one round together are a text, though a single piece need not be one.\<close>

definition writes_bytes :: "json_writer \<Rightarrow> u8 list \<Rightarrow> af_status option \<times> json_writer \<Rightarrow> bool" where
  "writes_bytes w p r \<longleftrightarrow>
     (case r of
        (None, w') \<Rightarrow> \<exists>b. w' = w\<lparr>jw_out := b\<rparr> \<and> buf_wf b \<and> contents b = contents (jw_out w) @ p
      | (Some e, w') \<Rightarrow> e \<in> buffer_errors \<and> jw_status w' = Some e)"

lemma piece_writes_bytes:
  assumes "ready ra w" "length p < 2 ^ 64"
  shows "writes_bytes w p (jw_piece ra w p)"
proof -
  obtain st b where r: "af_buf_append ra (jw_out w) (Some p) (of_nat (length p)) = (st, b)" by fastforce
  have wf: "buf_wf (jw_out w)" "realloc_law ra" "jw_status w = None" using assms(1) by (simp_all add: ready_def)
  show ?thesis
  proof (cases st)
    case None
    with append_ok [OF wf(1,2) unat_of_length [OF assms(2), symmetric]] r show ?thesis
      by (auto simp: writes_bytes_def piece_put [OF assms(1)] jw_put_def)
  next
    case (Some e)
    with append_status r have "e \<in> buffer_errors" by (fastforce simp: buffer_errors_def)
    with Some r wf(3) show ?thesis by (simp add: writes_bytes_def piece_put [OF assms(1)] jw_put_def af_jw_fail_def)
  qed
qed

lemma pieces_write_bytes:
  "ready ra w \<Longrightarrow> list_all (\<lambda>p. p \<noteq> [] \<and> length p < 2 ^ 64) ps \<Longrightarrow> writes_bytes w (concat ps) (jw_pieces ra w ps)"
proof (induction ps arbitrary: w)
  case Nil
  then show ?case by (auto simp: writes_bytes_def ready_def intro!: exI [of _ "jw_out w"])
next
  case (Cons p ps)
  have p: "writes_bytes w p (jw_piece ra w p)" using Cons.prems by (intro piece_writes_bytes) simp_all
  obtain st w' where r: "jw_piece ra w p = (st, w')" by fastforce
  show ?case
  proof (cases st)
    case (Some e)
    with r p show ?thesis by (simp add: writes_bytes_def)
  next
    case None
    with r p obtain b where b: "w' = w\<lparr>jw_out := b\<rparr>" "buf_wf b" "contents b = contents (jw_out w) @ p"
      by (auto simp: writes_bytes_def)
    then have "ready ra w'" using Cons.prems(1) by (simp add: ready_def)
    from Cons.IH [OF this] Cons.prems(2) r None b show ?thesis
      by (auto simp: writes_bytes_def split: prod.splits option.splits)
  qed
qed

lemma bytes_write_text: "writes_bytes w p r \<Longrightarrow> wire p = utf8_text t \<Longrightarrow> writes w t r"
  by (auto simp: writes_bytes_def writes_def split: prod.splits option.splits)

lemma chars_write:
  "ready ra w \<Longrightarrow> writes w (concat (map jw_escape_cp (utf8_replace (wire s)))) (jw_chars ra w s)"
proof (induction "length s" arbitrary: s w rule: less_induct)
  case less
  show ?case
  proof (cases "s = []")
    case True
    then show ?thesis using writes_empty [OF less.prems] by (simp add: jw_chars.simps)
  next
    case False
    obtain ps n where st: "string_step s = (ps, n)" by fastforce
    from string_step_text [OF False st] obtain c where ps: "list_all (\<lambda>p. p \<noteq> [] \<and> length p < 2 ^ 64) ps"
      and c: "utf8_replace (wire s) = c # utf8_replace (wire (drop n s))" "wire (concat ps) = utf8_text (jw_escape_cp c)"
      by blast
    have "length (drop n s) < length s" using string_step_progress [OF False st] False by (simp add: diff_less)
    note rest = less.hyps [OF this]
    have "writes w (jw_escape_cp c) (jw_pieces ra w ps)"
      using bytes_write_text [OF pieces_write_bytes [OF less.prems ps] c(2)] .
    from writes_then [OF less.prems this rest] show ?thesis
      using False st c(1) by (simp add: jw_chars.simps [of ra w s])
  qed
qed

text \<open>A string of any bytes is written as the quoted text of its code points.\<close>

lemma string_writes: "ready ra w \<Longrightarrow> writes w (jw_quote (utf8_replace (wire s))) (af_jw_emit_string ra w s)"
proof -
  assume r: "ready ra w"
  have q: "ready ra w' \<Longrightarrow> writes w' [34] (jw_byte ra w' 34)" for w' using byte_writes [of ra w' 34] by simp
  have "ready ra w' \<Longrightarrow> writes w' (concat (map jw_escape_cp (utf8_replace (wire s))) @ [34])
      (ok_then (jw_chars ra w' s) (\<lambda>w. jw_byte ra w 34))" for w'
    by (rule writes_then [OF _ chars_write q])
  from writes_then [OF r q [OF r] this] show ?thesis by (simp add: jw_quote_def af_jw_emit_string_def)
qed

lemma wire_decimal: "wire (decimal v) = dec_text (unat v)"
proof (induction v rule: dec_digits.induct)
  case (1 v)
  have d: "uint (ucast (v mod 10) + 48 :: u8) = 48 + int (unat v mod 10)"
    using dec_digit [of v] by (simp add: digit_value_def zmod_int)
  have z: "v div 10 = 0 \<longleftrightarrow> unat v < 10" by (simp add: unat_div div_eq_0_iff flip: unat_eq_zero)
  show ?case
  proof (cases "unat v < 10")
    case True
    then show ?thesis using d z
      by (subst dec_text.simps) (simp add: decimal_def dec_digits.simps [of v])
  next
    case False
    then have "wire (decimal (v div 10)) = dec_text (unat v div 10)" using 1 z by (simp add: unat_div)
    then show ?thesis using False d z
      by (subst dec_text.simps) (simp add: decimal_def dec_digits.simps [of v])
  qed
qed

lemma uint_writes: "ready ra w \<Longrightarrow> writes w (int_text (uint v)) (jw_put w (af_buf_append_u64 ra (jw_out w) v))"
proof -
  assume r: "ready ra w"
  have t: "int_text (uint v) = dec_text (unat v)" by (simp add: int_text_def)
  have "list_all (\<lambda>c. c < 128) (dec_text (unat v))"
    using dec_text_digits [of "unat v"] by (auto simp: list_all_iff Py_Text.is_digit_def)
  then have "wire (decimal v) = utf8_text (int_text (uint v))" by (simp add: t wire_decimal utf8_text_ascii)
  from put_writes [OF r this length_decimal] show ?thesis by (simp add: append_u64_append)
qed

section \<open>A document under construction\<close>

text \<open>The open containers, innermost first, and the value at the root once it is complete.\<close>

datatype frame = ArrF "json list" | ObjF "(pystr \<times> json) list" "pystr option"

type_synonym doc = "json option \<times> frame list"

fun takes_value :: "doc \<Rightarrow> bool" where
  "takes_value (r, []) = (r = None)"
| "takes_value (r, ArrF vs # fs) = True"
| "takes_value (r, ObjF ms k # fs) = (k \<noteq> None)"

fun add_value :: "json \<Rightarrow> doc \<Rightarrow> doc option" where
  "add_value v (r, []) = (if r = None then Some (Some v, []) else None)"
| "add_value v (r, ArrF vs # fs) = Some (r, ArrF (vs @ [v]) # fs)"
| "add_value v (r, ObjF ms None # fs) = None"
| "add_value v (r, ObjF ms (Some k) # fs) = Some (r, ObjF (ms @ [(k, v)]) None # fs)"

fun open_frame :: "frame \<Rightarrow> doc \<Rightarrow> doc option" where
  "open_frame f (r, fs) = (if takes_value (r, fs) \<and> length fs < AF_JW_MAX_DEPTH then Some (r, f # fs) else None)"

fun close_array :: "doc \<Rightarrow> doc option" where
  "close_array (r, ArrF vs # fs) = add_value (JArr vs) (r, fs)"
| "close_array _ = None"

fun close_object :: "doc \<Rightarrow> doc option" where
  "close_object (r, ObjF ms None # fs) = add_value (JObj ms) (r, fs)"
| "close_object _ = None"

fun add_key :: "pystr \<Rightarrow> doc \<Rightarrow> doc option" where
  "add_key k (r, ObjF ms None # fs) = Some (r, ObjF ms (Some k) # fs)"
| "add_key k _ = None"

text \<open>Its text: what has been written of the innermost container, and of those around it.\<close>

definition jw_member :: "pystr \<times> json \<Rightarrow> pystr" where
  "jw_member m = jw_quote (fst m) @ [58] @ jw.text_of (snd m)"

fun frame_text :: "frame \<Rightarrow> pystr" where
  "frame_text (ArrF vs) = 91 # join [44] (map jw.text_of vs)"
| "frame_text (ObjF ms k) = 123 # join [44] (map jw_member ms) @
     (case k of None \<Rightarrow> [] | Some k \<Rightarrow> (if ms = [] then [] else [44]) @ jw_quote k @ [58])"

definition outer_text :: "frame \<Rightarrow> pystr" where
  "outer_text f = frame_text f @ (case f of ArrF vs \<Rightarrow> if vs = [] then [] else [44] | _ \<Rightarrow> [])"

definition around :: "frame list \<Rightarrow> pystr" where
  "around fs = concat (map outer_text (rev fs))"

fun doc_text :: "doc \<Rightarrow> pystr" where
  "doc_text (r, []) = (case r of None \<Rightarrow> [] | Some v \<Rightarrow> jw.text_of v)"
| "doc_text (r, f # fs) = around fs @ frame_text f"

lemma join_snoc: "join sep (xs @ [x]) = join sep xs @ (if xs = [] then [] else sep) @ x"
  by (induction sep xs rule: join.induct) simp_all

lemma around_simps [simp]: "around [] = []" "around (f # fs) = around fs @ outer_text f"
  by (simp_all add: around_def)

lemma add_value_text:
  "add_value v (None, fs) = Some d \<Longrightarrow> doc_text d = around fs @ jw.text_of v"
  by (induction v "(None :: json option, fs)" rule: add_value.induct)
    (auto simp: outer_text_def join_snoc jw_member_def)

lemma close_text:
  "frame_text (ArrF vs) @ [93] = jw.text_of (JArr vs)"
  "frame_text (ObjF ms None) @ [125] = jw.text_of (JObj ms)"
  by (simp_all add: jw_member_def [abs_def])

lemma takes_add: "takes_value d \<longleftrightarrow> add_value v d \<noteq> None"
  by (induction v d rule: add_value.induct) auto

section \<open>The levels of the writer\<close>

fun frame_level :: "frame \<Rightarrow> jw_level" where
  "frame_level (ArrF vs) = \<lparr>lv_array = True, lv_has_item = vs \<noteq> [], lv_want_value = False\<rparr>"
| "frame_level (ObjF ms k) = \<lparr>lv_array = False, lv_has_item = ms \<noteq> [] \<or> k \<noteq> None, lv_want_value = k \<noteq> None\<rparr>"

fun outer_level :: "frame \<Rightarrow> jw_level" where
  "outer_level (ArrF vs) = \<lparr>lv_array = True, lv_has_item = True, lv_want_value = False\<rparr>"
| "outer_level (ObjF ms k) = \<lparr>lv_array = False, lv_has_item = True, lv_want_value = False\<rparr>"

definition takes :: "frame \<Rightarrow> bool" where "takes f \<longleftrightarrow> takes_value (None, [f])"

definition has_levels :: "json_writer \<Rightarrow> jw_level list \<Rightarrow> bool" where
  "has_levels w ls \<longleftrightarrow> jw_depth w = length ls \<and> length (jw_stack w) = AF_JW_MAX_DEPTH \<and>
     (\<exists>unused. jw_stack w = rev ls @ unused)"

lemma has_levels_top: "has_levels w (l # ls) \<Longrightarrow> jw_depth w \<noteq> 0 \<and> jw_top w = l"
  by (auto simp: has_levels_def jw_top_def nth_append)

lemma has_levels_set: "has_levels w (l # ls) \<Longrightarrow> has_levels (jw_set_top w x) (x # ls)"
  by (auto simp: has_levels_def jw_set_top_def list_update_append)

lemma has_levels_push:
  assumes "has_levels w ls" "length ls < AF_JW_MAX_DEPTH"
  shows "\<exists>w'. af_jw_push w k = (AF_OK, w') \<and> has_levels w' (empty_level k # ls) \<and> jw_out w' = jw_out w \<and>
    jw_status w' = jw_status w \<and> jw_root_done w' = jw_root_done w"
proof -
  obtain u where u: "jw_stack w = rev ls @ u" using assms(1) by (auto simp: has_levels_def)
  with assms have "length u \<noteq> 0" by (auto simp: has_levels_def)
  then obtain a v where "u = a # v" by (cases u) auto
  with u assms show ?thesis by (auto simp: has_levels_def af_jw_push_def list_update_append)
qed

lemma has_levels_pop: "has_levels w (l # ls) \<Longrightarrow> has_levels (w\<lparr>jw_depth := jw_depth w - 1\<rparr>) ls"
  by (auto simp: has_levels_def)

lemma has_levels_depth: "has_levels w ls \<Longrightarrow> jw_depth w = length ls"
  by (simp add: has_levels_def)

lemma has_levels_out [simp]: "has_levels (w\<lparr>jw_out := b\<rparr>) ls = has_levels w ls" "has_levels (w\<lparr>jw_root_done := d\<rparr>) ls = has_levels w ls"
  by (simp_all add: has_levels_def)

text \<open>The writer between two calls, and after the separator of a value has been written.\<close>

definition represents :: "allocator \<Rightarrow> int list \<Rightarrow> json_writer \<Rightarrow> doc \<Rightarrow> bool" where
  "represents ra base w d \<longleftrightarrow>
     (case d of (r, fs) \<Rightarrow>
        ready ra w \<and> has_levels w (case fs of [] \<Rightarrow> [] | f # g \<Rightarrow> frame_level f # map outer_level g) \<and>
        jw_root_done w = (r \<noteq> None \<or> fs \<noteq> []) \<and> (fs \<noteq> [] \<longrightarrow> r = None) \<and> list_all takes (tl fs) \<and>
        wire (contents (jw_out w)) = base @ utf8_text (doc_text d))"

definition prepared :: "allocator \<Rightarrow> int list \<Rightarrow> json_writer \<Rightarrow> frame list \<Rightarrow> bool" where
  "prepared ra base w fs \<longleftrightarrow>
     ready ra w \<and> has_levels w (map outer_level fs) \<and> jw_root_done w \<and> list_all takes fs \<and>
     wire (contents (jw_out w)) = base @ utf8_text (around fs)"

text \<open>The result of a call against what it does to the document.\<close>

definition outcome :: "allocator \<Rightarrow> int list \<Rightarrow> doc option \<Rightarrow> af_status option \<times> json_writer \<Rightarrow> bool" where
  "outcome ra base d r \<longleftrightarrow>
     (case r of
        (None, w) \<Rightarrow> (\<exists>e. d = Some e \<and> represents ra base w e)
      | (Some e, w) \<Rightarrow> jw_status w = Some e \<and> (e \<in> buffer_errors \<or> e \<in> {AF_E_INTERNAL, AF_E_JSON_DEPTH} \<and> d = None))"

lemma has_levels_status [simp]: "has_levels (w\<lparr>jw_status := e\<rparr>) ls = has_levels w ls"
  by (simp add: has_levels_def)

lemma set_top_fields [simp]:
  "jw_out (jw_set_top w l) = jw_out w" "jw_status (jw_set_top w l) = jw_status w"
  "jw_root_done (jw_set_top w l) = jw_root_done w" "ready ra (jw_set_top w l) = ready ra w"
  by (simp_all add: jw_set_top_def ready_def)

lemma levels_set_out [simp]: "jw_top (w\<lparr>jw_out := b\<rparr>) = jw_top w"
  by (simp add: jw_top_def)

lemma outcome_fail:
  "jw_status w = None \<Longrightarrow> d = None \<Longrightarrow> e \<in> {AF_E_INTERNAL, AF_E_JSON_DEPTH} \<Longrightarrow> outcome ra base d (af_jw_fail w e)"
  by (simp add: outcome_def af_jw_fail_def)

text \<open>A text that is written, then the rest of the call on the longer output.\<close>

lemma outcome_then:
  assumes "writes w t r"
    "\<And>b. buf_wf b \<Longrightarrow> wire (contents b) = wire (contents (jw_out w)) @ utf8_text t \<Longrightarrow> outcome ra base d (f (w\<lparr>jw_out := b\<rparr>))"
  shows "outcome ra base d (ok_then r f)"
proof (cases "fst r")
  case None
  then obtain b where "r = (None, w\<lparr>jw_out := b\<rparr>)" "buf_wf b"
    "wire (contents b) = wire (contents (jw_out w)) @ utf8_text t"
    using assms(1) by (cases r) (auto simp: writes_def)
  with assms(2) show ?thesis by simp
next
  case (Some e)
  with assms(1) show ?thesis by (cases r) (auto simp: writes_def outcome_def)
qed

lemma prepare_value:
  assumes "represents ra base w d"
  shows "case af_jw_prepare_value ra w of
      (None, w') \<Rightarrow> takes_value d \<and> fst d = None \<and> prepared ra base w' (snd d)
    | (Some e, w') \<Rightarrow> jw_status w' = Some e \<and> (e \<in> buffer_errors \<or> e = AF_E_INTERNAL \<and> \<not> takes_value d)"
proof -
  obtain r fs where d: "d = (r, fs)" by fastforce
  have rdy: "ready ra w" and st: "jw_status w = None" using assms d by (auto simp: represents_def ready_def)
  show ?thesis
  proof (cases fs)
    case Nil
    then have l: "has_levels w []" "jw_root_done w = (r \<noteq> None)" using assms d by (simp_all add: represents_def)
    then have "jw_depth w = 0" by (simp add: has_levels_def)
    with st l Nil d assms show ?thesis
      by (auto simp: af_jw_prepare_value_def af_jw_fail_def prepared_def represents_def ready_def split: option.splits)
  next
    case (Cons f g)
    then have l: "has_levels w (frame_level f # map outer_level g)" and rn: "r = None"
      and base: "wire (contents (jw_out w)) = base @ utf8_text (around g @ frame_text f)"
      and tk: "list_all takes g" and rd: "jw_root_done w"
      using assms d by (simp_all add: represents_def)
    note top = has_levels_top [OF l] and set = has_levels_set [OF l]
    show ?thesis
    proof (cases f)
      case (ArrF vs)
      show ?thesis
      proof (cases "vs = []")
        case True
        with ArrF Cons d st top set rn base tk rd rdy show ?thesis
          by (simp add: af_jw_prepare_value_def prepared_def outer_text_def takes_def)
      next
        case False
        have "writes w [44] (jw_byte ra w 44)" using byte_writes [OF rdy, of 44] by simp
        with ArrF Cons d st top rn base tk rd rdy False has_levels_set [of "w\<lparr>jw_out := b\<rparr>" for b] l show ?thesis
          by (auto simp: af_jw_prepare_value_def prepared_def outer_text_def takes_def writes_def ready_def
              split: prod.splits option.splits)
      qed
    next
      case (ObjF ms k)
      show ?thesis
      proof (cases k)
        case None
        with ObjF Cons d st top show ?thesis by (simp add: af_jw_prepare_value_def af_jw_fail_def)
      next
        case (Some n)
        with ObjF Cons d st top set rn base tk rd rdy show ?thesis
          by (simp add: af_jw_prepare_value_def prepared_def outer_text_def takes_def)
      qed
    qed
  qed
qed

lemma written_value:
  assumes "prepared ra base w fs" "writes w (jw.text_of v) r"
  shows "outcome ra base (add_value v (None, fs)) r"
proof (cases "fst r")
  case (Some e)
  with assms(2) show ?thesis by (cases r) (auto simp: writes_def outcome_def)
next
  case None
  with assms(2) obtain b where r: "r = (None, w\<lparr>jw_out := b\<rparr>)" and wf: "buf_wf b"
    and b: "wire (contents b) = wire (contents (jw_out w)) @ utf8_text (jw.text_of v)"
    by (cases r) (auto simp: writes_def)
  have p: "ready ra w" "has_levels w (map outer_level fs)" "jw_root_done w" "list_all takes fs"
    "wire (contents (jw_out w)) = base @ utf8_text (around fs)" using assms(1) by (simp_all add: prepared_def)
  have rdy: "ready ra (w\<lparr>jw_out := b\<rparr>)" using p(1) wf by (simp add: ready_def)
  show ?thesis
  proof (cases fs)
    case Nil
    with r b p rdy show ?thesis by (simp add: outcome_def represents_def)
  next
    case (Cons f g)
    with p(4) have "takes_value (None, [f])" by (simp add: takes_def)
    then obtain h where h: "add_value v (None, fs) = Some (None, h # g)" "outer_level f = frame_level h"
      using Cons by (cases f) (auto split: option.splits)
    with add_value_text [OF h(1)] r b p rdy Cons show ?thesis by (simp add: outcome_def represents_def)
  qed
qed

lemma value_call:
  assumes "represents ra base w d"
    "\<And>w'. ready ra w' \<Longrightarrow> writes w' (jw.text_of v) (f w')"
  shows "outcome ra base (add_value v d) (ok_then (af_jw_prepare_value ra w) f)"
proof -
  obtain st w' where r: "af_jw_prepare_value ra w = (st, w')" by fastforce
  note p = prepare_value [OF assms(1), unfolded r]
  show ?thesis
  proof (cases st)
    case None
    with p have q: "prepared ra base w' (snd d)" "fst d = None" by auto
    then have "ready ra w'" by (simp add: prepared_def)
    from written_value [OF q(1) assms(2) [OF this]] q(2) r None show ?thesis by (cases d) simp
  next
    case (Some e)
    with p r takes_add [of d v] show ?thesis by (auto simp: outcome_def)
  qed
qed

lemma prepared_out:
  "prepared ra base w fs \<Longrightarrow> buf_wf b \<Longrightarrow> ready ra (w\<lparr>jw_out := b\<rparr>)"
  by (simp add: prepared_def ready_def)

lemma begin_call:
  assumes "represents ra base w d" "uint c < 128" "frame_text f = [uint c]" "frame_level f = empty_level k"
  shows "outcome ra base (open_frame f d)
    (ok_then (af_jw_prepare_value ra w) (\<lambda>w. ok_then (jw_byte ra w c) (\<lambda>w. af_jw_push w k)))"
proof -
  obtain st w' where r: "af_jw_prepare_value ra w = (st, w')" by fastforce
  note p = prepare_value [OF assms(1), unfolded r]
  show ?thesis
  proof (cases st)
    case (Some e)
    with p r show ?thesis by (cases d) (auto simp: outcome_def)
  next
    case None
    with p have q: "prepared ra base w' (snd d)" "fst d = None" "takes_value d" by auto
    obtain fs where d: "d = (None, fs)" using q(2) by (cases d) auto
    have l: "has_levels w' (map outer_level fs)" "ready ra w'" "list_all takes fs" "jw_root_done w'"
      "wire (contents (jw_out w')) = base @ utf8_text (around fs)" using q(1) d by (simp_all add: prepared_def)
    have "outcome ra base (open_frame f d) (ok_then (jw_byte ra w' c) (\<lambda>w. af_jw_push w k))"
    proof (rule outcome_then [OF byte_writes [OF l(2) assms(2)]])
      fix b
      assume b: "buf_wf b" "wire (contents b) = wire (contents (jw_out w')) @ utf8_text [uint c]"
      let ?w = "w'\<lparr>jw_out := b\<rparr>"
      have lw: "has_levels ?w (map outer_level fs)" using l(1) by simp
      show "outcome ra base (open_frame f d) (af_jw_push ?w k)"
      proof (cases "length fs < AF_JW_MAX_DEPTH")
        case True
        then have "length (map outer_level fs) < AF_JW_MAX_DEPTH" by simp
        from has_levels_push [OF lw this, of k] obtain v where v: "af_jw_push ?w k = (AF_OK, v)"
          "has_levels v (empty_level k # map outer_level fs)" "jw_out v = b" "jw_status v = jw_status w'" "jw_root_done v = jw_root_done w'"
          by auto
        have "represents ra base v (None, f # fs)"
          using v l b assms(3,4) by (simp add: represents_def ready_def)
        with True d q(3) v(1) show ?thesis by (auto simp: outcome_def)
      next
        case False
        have "jw_status ?w = None" using l(2) by (simp add: ready_def)
        with False d has_levels_depth [OF lw] show ?thesis by (simp add: af_jw_push_def outcome_fail)
      qed
    qed
    with r None show ?thesis by simp
  qed
qed

lemma end_call:
  assumes "represents ra base w (None, f # fs)" "uint c < 128" "frame_text f @ [uint c] = jw.text_of v"
    "lv_array (frame_level f) = k" "\<not> lv_want_value (frame_level f)"
  shows "outcome ra base (add_value v (None, fs)) (af_jw_end ra w k c)"
proof -
  have l: "has_levels w (frame_level f # map outer_level fs)" "ready ra w" "jw_root_done w" "list_all takes fs"
    "wire (contents (jw_out w)) = base @ utf8_text (around fs @ frame_text f)"
    using assms(1) by (simp_all add: represents_def)
  let ?w = "w\<lparr>jw_depth := jw_depth w - 1\<rparr>"
  have e: "af_jw_end ra w k c = jw_byte ra ?w c"
    using has_levels_top [OF l(1)] assms(4,5) l(2) by (simp add: af_jw_end_def ready_def)
  have rdy: "ready ra ?w" using l(2) by (simp add: ready_def)
  have h: "has_levels ?w (map outer_level fs)" using has_levels_pop [OF l(1)] .
  note out = byte_writes [OF rdy assms(2)]
  show ?thesis
  proof (cases "fst (jw_byte ra ?w c)")
    case (Some x)
    with out e show ?thesis by (cases "jw_byte ra ?w c") (auto simp: writes_def outcome_def)
  next
    case None
    with out obtain b where r: "jw_byte ra ?w c = (None, ?w\<lparr>jw_out := b\<rparr>)" and wf: "buf_wf b"
      and b: "wire (contents b) = wire (contents (jw_out w)) @ utf8_text [uint c]"
      by (cases "jw_byte ra ?w c") (auto simp: writes_def)
    have t: "wire (contents b) = base @ utf8_text (around fs @ jw.text_of v)"
      unfolding b l(5) assms(3) [symmetric] by simp
    have rb: "ready ra (?w\<lparr>jw_out := b\<rparr>)" using rdy wf by (simp add: ready_def)
    show ?thesis
    proof (cases fs)
      case Nil
      with r e h t l(3) rb show ?thesis by (simp add: outcome_def represents_def)
    next
      case (Cons g gs)
      with l(4) have "takes_value (None, [g])" by (simp add: takes_def)
      then obtain i where i: "add_value v (None, fs) = Some (None, i # gs)" "outer_level g = frame_level i"
        using Cons by (cases g) (auto split: option.splits)
      with add_value_text [OF i(1)] r e h t l(3,4) rb Cons show ?thesis by (simp add: outcome_def represents_def)
    qed
  qed
qed

lemma end_refused:
  assumes "represents ra base w d" "fst d = None \<Longrightarrow> snd d \<noteq> [] \<Longrightarrow>
    lv_array (frame_level (hd (snd d))) \<noteq> k \<or> lv_want_value (frame_level (hd (snd d)))"
  shows "outcome ra base None (af_jw_end ra w k c)"
proof -
  obtain r fs where d: "d = (r, fs)" by fastforce
  have st: "jw_status w = None" using assms(1) d by (auto simp: represents_def ready_def)
  show ?thesis
  proof (cases fs)
    case Nil
    then have "jw_depth w = 0" using assms(1) d by (simp add: represents_def has_levels_def)
    with st show ?thesis by (simp add: af_jw_end_def outcome_fail)
  next
    case (Cons f g)
    then have l: "has_levels w (frame_level f # map outer_level g)" "r = None" using assms(1) d by (simp_all add: represents_def)
    with has_levels_top [OF l(1)] assms(2) Cons d st show ?thesis by (auto simp: af_jw_end_def outcome_fail)
  qed
qed

lemma end_array_call:
  assumes "represents ra base w d"
  shows "outcome ra base (close_array d) (af_jw_end_array ra w)"
proof (cases "\<exists>vs fs. d = (None, ArrF vs # fs)")
  case True
  then obtain vs fs where d: "d = (None, ArrF vs # fs)" by blast
  from end_call [OF assms [unfolded d], of 93 "JArr vs" True] close_text(1) [of vs] d show ?thesis
    by (simp add: af_jw_end_array_def del: frame_text.simps render.simps)
next
  case False
  then have n: "close_array d = None" if "fst d = None \<or> snd d = []" using that
    by (induction d rule: close_array.induct) auto
  have "fst d = None \<or> snd d = []" using assms by (cases d) (auto simp: represents_def)
  with n have "close_array d = None" by blast
  moreover have "outcome ra base None (af_jw_end ra w True 93)"
    using False by (intro end_refused [OF assms]) (cases d; cases "snd d"; cases "hd (snd d)"; auto)
  ultimately show ?thesis by (simp add: af_jw_end_array_def)
qed

lemma end_object_call:
  assumes "represents ra base w d"
  shows "outcome ra base (close_object d) (af_jw_end_object ra w)"
proof (cases "\<exists>ms fs. d = (None, ObjF ms None # fs)")
  case True
  then obtain ms fs where d: "d = (None, ObjF ms None # fs)" by blast
  from end_call [OF assms [unfolded d], of 125 "JObj ms" False] close_text(2) [of ms] d show ?thesis
    by (simp add: af_jw_end_object_def del: frame_text.simps render.simps)
next
  case False
  then have n: "close_object d = None" if "fst d = None \<or> snd d = []" using that
    by (induction d rule: close_object.induct) auto
  have "fst d = None \<or> snd d = []" using assms by (cases d) (auto simp: represents_def)
  with n have "close_object d = None" by blast
  moreover have "outcome ra base None (af_jw_end ra w False 125)"
    using False by (intro end_refused [OF assms]) (cases d; cases "snd d"; cases "hd (snd d)"; auto)
  ultimately show ?thesis by (simp add: af_jw_end_object_def)
qed

text \<open>Signed words as magnitudes.\<close>

lemma shifted_mod:
  fixes u :: int
  assumes "0 \<le> u" "u < 2 ^ 64"
  shows "(u + 2 ^ 63) mod 2 ^ 64 - 2 ^ 63 = (if u < 2 ^ 63 then u else u - 2 ^ 64)"
proof (cases "u < 2 ^ 63")
  case True
  with assms have "(u + 2 ^ 63) mod 2 ^ 64 = u + 2 ^ 63" by (intro mod_pos_pos_trivial) simp_all
  with True show ?thesis by simp
next
  case False
  have "(u + 2 ^ 63) mod 2 ^ 64 = (u + 2 ^ 63 - 2 ^ 64) mod 2 ^ 64" by (rule minus_mod_self2 [symmetric])
  also have "\<dots> = u + 2 ^ 63 - 2 ^ 64" using assms False by (intro mod_pos_pos_trivial) simp_all
  finally show ?thesis using False by simp
qed

lemma sint_cases: "sint (v :: u64) = (if uint v < 2 ^ 63 then uint v else uint v - 2 ^ 64)"
proof -
  have "0 \<le> uint v" "uint v < 2 ^ 64" using uint_lt2p [of v] by simp_all
  from shifted_mod [OF this] show ?thesis
    by (simp add: sint_uint signed_take_bit_eq_take_bit_shift take_bit_eq_mod)
qed

lemma sint_nonneg_uint: "\<not> sint (v :: u64) < 0 \<Longrightarrow> sint v = uint v"
  using uint_lt2p [of v] by (auto simp: sint_cases split: if_splits)

lemma uint_minus_sint: "sint (v :: u64) < 0 \<Longrightarrow> uint (- v) = - sint v"
  using uint_lt2p [of v] by (auto simp: sint_cases uint_word_ariths zmod_zminus1_eq_if split: if_splits)

lemma add_key_None: "add_key k d = None \<longleftrightarrow> (\<forall>r ms fs. d \<noteq> (r, ObjF ms None # fs))"
  by (induction k d rule: add_key.induct) auto

lemma key_call:
  assumes "represents ra base w d"
  shows "outcome ra base (add_key (utf8_replace (wire key)) d) (af_jw_key_n ra w key)"
proof -
  obtain r fs where d: "d = (r, fs)" by fastforce
  have rdy: "ready ra w" and st: "jw_status w = None" using assms d by (auto simp: represents_def ready_def)
  show ?thesis
  proof (cases fs)
    case Nil
    then have "jw_depth w = 0" using assms d by (simp add: represents_def has_levels_def)
    with st Nil d show ?thesis by (simp add: af_jw_key_n_def outcome_fail)
  next
    case (Cons f g)
    then have l: "has_levels w (frame_level f # map outer_level g)" "r = None" "jw_root_done w" "list_all takes g"
      and base: "wire (contents (jw_out w)) = base @ utf8_text (around g @ frame_text f)"
      using assms d by (simp_all add: represents_def)
    note top = has_levels_top [OF l(1)]
    show ?thesis
    proof (cases "\<exists>ms. f = ObjF ms None")
      case False
      with top st Cons d show ?thesis by (cases f) (auto simp: af_jw_key_n_def outcome_fail)
    next
      case True
      then obtain ms where f: "f = ObjF ms None" by blast
      let ?k = "utf8_replace (wire key)" and ?sep = "if ms = [] then [] else [44 :: int]"
      let ?comma = "if lv_has_item (jw_top w) then jw_byte ra w 44 else (None, w)"
      have comma: "writes w ?sep ?comma"
        using top f byte_writes [OF rdy, of 44] writes_empty [OF rdy] by simp
      have colon: "ready ra v \<Longrightarrow> writes v [58] (jw_byte ra v 58)" for v using byte_writes [of ra v 58] by simp
      let ?fin = "\<lambda>w. (AF_OK :: af_status option, jw_set_top w ((jw_top w)\<lparr>lv_has_item := True, lv_want_value := True\<rparr>))"
      have eq: "af_jw_key_n ra w key = ok_then ?comma (\<lambda>w. ok_then (af_jw_emit_string ra w key) (\<lambda>w. ok_then (jw_byte ra w 58) ?fin))"
        using top f st by (simp add: af_jw_key_n_def)
      show ?thesis unfolding eq
      proof (rule outcome_then [OF comma])
        fix b1
        assume b1: "buf_wf b1" "wire (contents b1) = wire (contents (jw_out w)) @ utf8_text ?sep"
        let ?w1 = "w\<lparr>jw_out := b1\<rparr>"
        have r1: "ready ra ?w1" using rdy b1(1) by (simp add: ready_def)
        show "outcome ra base (add_key ?k d) (ok_then (af_jw_emit_string ra ?w1 key) (\<lambda>w. ok_then (jw_byte ra w 58) ?fin))"
        proof (rule outcome_then [OF string_writes [OF r1]])
          fix b2
          assume b2: "buf_wf b2" "wire (contents b2) = wire (contents (jw_out ?w1)) @ utf8_text (jw_quote ?k)"
          let ?w2 = "w\<lparr>jw_out := b2\<rparr>"
          have r2: "ready ra ?w2" using rdy b2(1) by (simp add: ready_def)
          have "outcome ra base (add_key ?k d) (ok_then (jw_byte ra ?w2 58) ?fin)"
          proof (rule outcome_then [OF colon [OF r2]])
            fix b3
            assume b3: "buf_wf b3" "wire (contents b3) = wire (contents (jw_out ?w2)) @ utf8_text [58]"
            let ?w3 = "w\<lparr>jw_out := b3\<rparr>"
            have r3: "ready ra ?w3" using rdy b3(1) by (simp add: ready_def)
            have lw: "has_levels ?w3 (frame_level f # map outer_level g)" using l(1) by simp
            have "wire (contents b3) = base @ utf8_text (doc_text (None, ObjF ms (Some ?k) # g))"
              using b1(2) b2(2) b3(2) base f by simp
            with has_levels_set [OF lw] r3 l(2-4) f top d Cons
            show "outcome ra base (add_key ?k d) (?fin (?w2\<lparr>jw_out := b3\<rparr>))"
              by (simp add: outcome_def represents_def)
          qed
          then show "outcome ra base (add_key ?k d) (ok_then (jw_byte ra (?w1\<lparr>jw_out := b2\<rparr>) 58) ?fin)" by simp
        qed
      qed
    qed
  qed
qed

section \<open>Any sequence of calls\<close>

datatype jw_call =
    Begin_Object | End_Object | Begin_Array | End_Array
  | Put_Key "u8 list" | Put_Text "u8 list" | Put_Uint u64 | Put_Int u64 | Put_Bool bool | Put_Null
  | Member_Text "u8 list" "u8 list" | Member_Uint "u8 list" u64 | Member_Int "u8 list" u64
  | Member_Bool "u8 list" bool | Member_Null "u8 list"
  | Put_Cstr "u8 list option" | Member_Cstr "u8 list" "u8 list option"

text \<open>The calls of the code, and what they do to the document: a member is a key and a value.\<close>

definition c_bytes :: "u8 list \<Rightarrow> u8 list" where
  "c_bytes s = take (af_cstr_len (Some s)) s"

fun jw_step :: "allocator \<Rightarrow> jw_call \<Rightarrow> json_writer \<Rightarrow> af_status option \<times> json_writer" where
  "jw_step ra Begin_Object w = af_jw_begin_object ra w"
| "jw_step ra End_Object w = af_jw_end_object ra w"
| "jw_step ra Begin_Array w = af_jw_begin_array ra w"
| "jw_step ra End_Array w = af_jw_end_array ra w"
| "jw_step ra (Put_Key k) w = af_jw_key ra w k"
| "jw_step ra (Put_Text s) w = af_jw_string_n ra w s"
| "jw_step ra (Put_Uint v) w = af_jw_uint ra w v"
| "jw_step ra (Put_Int v) w = af_jw_int ra w v"
| "jw_step ra (Put_Bool v) w = af_jw_bool ra w v"
| "jw_step ra Put_Null w = af_jw_null ra w"
| "jw_step ra (Member_Text k s) w = af_jw_member_string_n ra w k s"
| "jw_step ra (Member_Uint k v) w = af_jw_member_uint ra w k v"
| "jw_step ra (Member_Int k v) w = af_jw_member_int ra w k v"
| "jw_step ra (Member_Bool k v) w = af_jw_member_bool ra w k v"
| "jw_step ra (Member_Null k) w = af_jw_member_null ra w k"
| "jw_step ra (Put_Cstr s) w = af_jw_string ra w s"
| "jw_step ra (Member_Cstr k s) w = af_jw_member_string ra w k s"

definition code_points :: "u8 list \<Rightarrow> pystr" where
  "code_points s = utf8_replace (wire s)"

definition cstr_value :: "u8 list option \<Rightarrow> json" where
  "cstr_value s = (case s of None \<Rightarrow> JNull | Some p \<Rightarrow> JStr (code_points (c_bytes p)))"

definition add_member :: "u8 list \<Rightarrow> json \<Rightarrow> doc \<Rightarrow> doc option" where
  "add_member k v d = (case add_key (code_points (c_bytes k)) d of None \<Rightarrow> None | Some e \<Rightarrow> add_value v e)"

fun doc_step :: "jw_call \<Rightarrow> doc \<Rightarrow> doc option" where
  "doc_step Begin_Object d = open_frame (ObjF [] None) d"
| "doc_step End_Object d = close_object d"
| "doc_step Begin_Array d = open_frame (ArrF []) d"
| "doc_step End_Array d = close_array d"
| "doc_step (Put_Key k) d = add_key (code_points (c_bytes k)) d"
| "doc_step (Put_Text s) d = add_value (JStr (code_points s)) d"
| "doc_step (Put_Uint v) d = add_value (JInt (uint v)) d"
| "doc_step (Put_Int v) d = add_value (JInt (sint v)) d"
| "doc_step (Put_Bool b) d = add_value (JBool b) d"
| "doc_step Put_Null d = add_value JNull d"
| "doc_step (Member_Text k s) d = add_member k (JStr (code_points s)) d"
| "doc_step (Member_Uint k v) d = add_member k (JInt (uint v)) d"
| "doc_step (Member_Int k v) d = add_member k (JInt (sint v)) d"
| "doc_step (Member_Bool k b) d = add_member k (JBool b) d"
| "doc_step (Member_Null k) d = add_member k JNull d"
| "doc_step (Put_Cstr s) d = add_value (cstr_value s) d"
| "doc_step (Member_Cstr k s) d = add_member k (cstr_value s) d"

text \<open>A run that looks at no status, as most callers do, and the document of a run.\<close>

fun jw_run :: "allocator \<Rightarrow> jw_call list \<Rightarrow> json_writer \<Rightarrow> json_writer" where
  "jw_run ra [] w = w"
| "jw_run ra (c # cs) w = jw_run ra cs (snd (jw_step ra c w))"

fun doc_run :: "jw_call list \<Rightarrow> doc \<Rightarrow> doc option" where
  "doc_run [] d = Some d"
| "doc_run (c # cs) d = (case doc_step c d of None \<Rightarrow> None | Some e \<Rightarrow> doc_run cs e)"

lemma literal_call:
  "represents ra base w d \<Longrightarrow> wire p = jw.text_of v \<Longrightarrow> list_all (\<lambda>c. c < 128) (jw.text_of v) \<Longrightarrow> length p < 2 ^ 64 \<Longrightarrow>
   outcome ra base (add_value v d) (af_jw_literal ra w p)"
  unfolding af_jw_literal_def by (rule value_call) (simp_all add: put_writes utf8_text_ascii)

lemma int_writes:
  assumes "ready ra w"
  shows "writes w (int_text (sint v))
    (if sint v < 0 then ok_then (jw_byte ra w 45) (\<lambda>w. jw_put w (af_buf_append_u64 ra (jw_out w) (- v)))
     else jw_put w (af_buf_append_u64 ra (jw_out w) v))"
proof (cases "sint v < 0")
  case True
  have "uint (- v) = - sint v"
    using True by (rule uint_minus_sint)
  then have t: "int_text (sint v) = [45] @ int_text (uint (- v))" using True by (simp add: int_text_def)
  have "writes w [45] (jw_byte ra w 45)" using byte_writes [OF assms, of 45] by simp
  from writes_then [OF assms this uint_writes] show ?thesis using True t by simp
next
  case False
  then have "sint v = uint v" by (rule sint_nonneg_uint)
  with False uint_writes [OF assms, of v] show ?thesis by simp
qed

lemma literal_texts:
  "wire lit_null = str ''null''" "wire lit_true = str ''true''" "wire lit_false = str ''false''"
  "list_all (\<lambda>c. c < 128) (str ''null'')" "list_all (\<lambda>c. c < 128) (str ''true'')"
  "list_all (\<lambda>c. c < 128) (str ''false'')" "length lit_null = 4" "length lit_true = 4" "length lit_false = 5"
  by (simp_all add: lit_null_def lit_true_def lit_false_def str_def)

lemma null_call: "represents ra base w d \<Longrightarrow> outcome ra base (add_value JNull d) (af_jw_null ra w)"
  unfolding af_jw_null_def by (rule literal_call) (simp_all add: literal_texts)

lemma bool_call: "represents ra base w d \<Longrightarrow> outcome ra base (add_value (JBool b) d) (af_jw_bool ra w b)"
  unfolding af_jw_bool_def by (rule literal_call) (simp_all add: literal_texts)

lemma uint_call: "represents ra base w d \<Longrightarrow> outcome ra base (add_value (JInt (uint v)) d) (af_jw_uint ra w v)"
  unfolding af_jw_uint_def by (rule value_call) (simp_all add: uint_writes)

lemma int_call: "represents ra base w d \<Longrightarrow> outcome ra base (add_value (JInt (sint v)) d) (af_jw_int ra w v)"
  unfolding af_jw_int_def by (rule value_call) (use int_writes in simp_all)

lemma string_call:
  "represents ra base w d \<Longrightarrow> outcome ra base (add_value (JStr (code_points s)) d) (af_jw_string_n ra w s)"
  unfolding af_jw_string_n_def code_points_def by (rule value_call) (simp_all add: string_writes)

lemma cstr_call: "represents ra base w d \<Longrightarrow> outcome ra base (add_value (cstr_value s) d) (af_jw_string ra w s)"
  by (auto simp: af_jw_string_def cstr_value_def c_bytes_def null_call string_call split: option.splits)

lemma member_call:
  assumes "represents ra base w d" "\<And>w d. represents ra base w d \<Longrightarrow> outcome ra base (add_value v d) (f w)"
  shows "outcome ra base (add_member k v d) (ok_then (af_jw_key ra w k) f)"
proof -
  obtain st w' where r: "af_jw_key ra w k = (st, w')" by fastforce
  have "outcome ra base (add_key (code_points (c_bytes k)) d) (st, w')"
    using key_call [OF assms(1), of "c_bytes k"] r by (simp add: af_jw_key_def c_bytes_def code_points_def)
  note key = this
  show ?thesis
  proof (cases st)
    case None
    with key obtain e where "add_key (code_points (c_bytes k)) d = Some e" "represents ra base w' e"
      by (auto simp: outcome_def)
    with assms(2) [of w' e] r None show ?thesis by (simp add: add_member_def)
  next
    case (Some x)
    with key r show ?thesis by (auto simp: outcome_def add_member_def)
  qed
qed

lemmas member_calls = af_jw_member_string_def af_jw_member_string_n_def af_jw_member_uint_def
  af_jw_member_int_def af_jw_member_bool_def af_jw_member_null_def

lemma step_call: "represents ra base w d \<Longrightarrow> outcome ra base (doc_step c d) (jw_step ra c w)"
proof (cases c)
  case Begin_Object
  assume "represents ra base w d"
  from begin_call [OF this, of 123 "ObjF [] None" False] Begin_Object show ?thesis
    by (simp add: af_jw_begin_object_def empty_level_def)
next
  case Begin_Array
  assume "represents ra base w d"
  from begin_call [OF this, of 91 "ArrF []" True] Begin_Array show ?thesis
    by (simp add: af_jw_begin_array_def empty_level_def)
next
  case (Put_Key k)
  assume "represents ra base w d"
  from key_call [OF this, of "c_bytes k"] Put_Key show ?thesis
    by (simp add: af_jw_key_def c_bytes_def code_points_def)
qed (simp_all add: end_array_call end_object_call null_call bool_call uint_call int_call string_call cstr_call
    member_calls member_call)

text \<open>A failure is kept: the calls after it return it and write nothing more.\<close>

lemma prepare_failed: "jw_status w = Some e \<Longrightarrow> af_jw_prepare_value ra w = (Some e, w)"
  by (simp add: af_jw_prepare_value_def)

lemma ok_then_failed [simp]: "ok_then (Some e, s) f = (Some e, s)"
  by (simp add: ok_then_def)

lemma step_failed: "jw_status w = Some e \<Longrightarrow> jw_step ra c w = (Some e, w)"
  by (cases c) (simp_all add: prepare_failed af_jw_begin_object_def af_jw_begin_array_def af_jw_end_object_def
    af_jw_end_array_def af_jw_end_def af_jw_key_def af_jw_key_n_def member_calls af_jw_string_n_def af_jw_string_def
    af_jw_literal_def af_jw_bool_def af_jw_null_def af_jw_uint_def af_jw_int_def split: option.splits)

lemma run_failed: "jw_status w = Some e \<Longrightarrow> jw_run ra cs w = w"
  by (induction cs) (simp_all add: step_failed)

text \<open>A run keeps to the document, or has recorded why it left it.\<close>

lemma run_outcome:
  "represents ra base w d \<Longrightarrow> outcome ra base (doc_run cs d) (jw_status (jw_run ra cs w), jw_run ra cs w)"
proof (induction cs arbitrary: w d)
  case Nil
  then show ?case by (cases d) (simp add: outcome_def represents_def ready_def)
next
  case (Cons c cs)
  obtain st v where r: "jw_step ra c w = (st, v)" by fastforce
  note o = step_call [OF Cons.prems, of c, unfolded r]
  show ?case
  proof (cases st)
    case None
    with o obtain e where "doc_step c d = Some e" "represents ra base v e" by (auto simp: outcome_def)
    with Cons.IH [of v e] r show ?thesis by simp
  next
    case (Some x)
    with o r show ?thesis by (auto simp: outcome_def run_failed split: option.splits)
  qed
qed

lemma init_represents: "realloc_law ra \<Longrightarrow> buf_wf b \<Longrightarrow> represents ra (wire (contents b)) (af_jw_init b) (None, [])"
  by (simp add: represents_def ready_def af_jw_init_def has_levels_def)

definition root_text :: "json option \<Rightarrow> pystr" where
  "root_text r = (case r of None \<Rightarrow> [] | Some v \<Rightarrow> jw.text_of v)"

lemma finish_outcome:
  assumes "outcome ra base d (jw_status w, w)"
  shows "case fst (af_jw_finish w) of
      None \<Rightarrow> \<exists>r. d = Some (r, []) \<and> wire (contents (jw_out w)) = base @ utf8_text (root_text r)
    | Some e \<Rightarrow> e \<in> buffer_errors \<or> e \<in> {AF_E_INTERNAL, AF_E_JSON_DEPTH} \<and> (\<nexists>r. d = Some (r, []))"
proof (cases "jw_status w")
  case (Some e)
  with assms show ?thesis by (auto simp: outcome_def af_jw_finish_def)
next
  case None
  with assms obtain r fs where d: "d = Some (r, fs)" and rep: "represents ra base w (r, fs)" by (auto simp: outcome_def)
  show ?thesis
  proof (cases fs)
    case Nil
    with rep d None show ?thesis
      by (simp add: af_jw_finish_def represents_def has_levels_def root_text_def)
  next
    case (Cons f g)
    with rep have "jw_depth w \<noteq> 0" by (simp add: represents_def has_levels_def)
    with Cons d None show ?thesis by (simp add: af_jw_finish_def)
  qed
qed

section \<open>The text that is written\<close>

text \<open>Values of code points, with no control character in their text.\<close>

definition clean :: "cp \<Rightarrow> bool" where
  "clean c \<longleftrightarrow> scalar c \<and> 32 \<le> c \<and> c \<noteq> 127"

lemma clean_ascii: "32 \<le> c \<Longrightarrow> c \<le> 126 \<Longrightarrow> clean c"
  by (simp add: clean_def scalar_def)

lemma clean_quote: "list_all scalar s \<Longrightarrow> list_all clean (jw_quote s)"
proof -
  have "list_all clean (jw_escape_cp c)" if "scalar c" for c
    using that ascii_u_escape [of c] by (auto simp: jw_escape_cp_def ascii_def clean_def scalar_def list_all_iff)
  then have "list_all scalar s \<Longrightarrow> list_all clean (concat (map jw_escape_cp s))" by (induction s) simp_all
  then show "list_all scalar s \<Longrightarrow> list_all clean (jw_quote s)" by (simp add: jw_quote_def clean_ascii)
qed

lemma clean_text: "printable v \<Longrightarrow> list_all clean (jw.text_of v)"
  by (rule jw.render_all) (simp_all add: clean_ascii clean_quote)

lemma clean_bytes: "clean c \<Longrightarrow> b \<in> set (utf8_cp c) \<Longrightarrow> 32 \<le> b \<and> b \<noteq> 127"
proof -
  have "0 \<le> m mod 64" "0 \<le> n \<Longrightarrow> 0 \<le> n div 262144" "0 \<le> n \<Longrightarrow> 0 \<le> n div 4096" "0 \<le> n \<Longrightarrow> 0 \<le> n div 64" for m n :: int
    by simp_all
  then show "clean c \<Longrightarrow> b \<in> set (utf8_cp c) \<Longrightarrow> 32 \<le> b \<and> b \<noteq> 127"
    by (fastforce simp: utf8_cp_def clean_def split: if_splits)
qed

lemma clean_wire: "list_all clean t \<Longrightarrow> wire p = utf8_text t \<Longrightarrow> list_all (\<lambda>c. 32 \<le> c \<and> c \<noteq> 127) p"
proof -
  assume t: "list_all clean t" and p: "wire p = utf8_text t"
  have "32 \<le> uint c \<and> uint c \<noteq> 127" if "c \<in> set p" for c
  proof -
    have "uint c \<in> set (utf8_text t)" using that unfolding p [symmetric] by (simp add: wire_def)
    with t clean_bytes show ?thesis by (auto simp: utf8_text_def list_all_iff)
  qed
  then show ?thesis by (auto simp: list_all_iff word_le_def word_uint_eq_iff)
qed

lemma clean_decodes: "list_all clean t \<Longrightarrow> utf8_decode (utf8_text t) = Some t"
  by (simp add: utf8_text_def utf8_decode_concat clean_def list_all_iff)

fun frame_ok :: "frame \<Rightarrow> bool" where
  "frame_ok (ArrF vs) = printable (JArr vs)"
| "frame_ok (ObjF ms k) = (printable (JObj ms) \<and> (case k of None \<Rightarrow> True | Some k \<Rightarrow> list_all scalar k))"

definition doc_ok :: "doc \<Rightarrow> bool" where
  "doc_ok d \<longleftrightarrow> (case fst d of None \<Rightarrow> True | Some v \<Rightarrow> printable v) \<and> list_all frame_ok (snd d)"

lemma add_value_ok: "add_value v d = Some e \<Longrightarrow> doc_ok d \<Longrightarrow> printable v \<Longrightarrow> doc_ok e"
  by (induction v d rule: add_value.induct) (auto simp: doc_ok_def split: if_splits)

lemma add_key_ok: "add_key k d = Some e \<Longrightarrow> doc_ok d \<Longrightarrow> list_all scalar k \<Longrightarrow> doc_ok e"
  by (induction k d rule: add_key.induct) (auto simp: doc_ok_def)

lemma close_array_ok: "close_array d = Some e \<Longrightarrow> doc_ok d \<Longrightarrow> doc_ok e"
  by (induction d rule: close_array.induct) (auto simp: doc_ok_def dest!: add_value_ok)

lemma close_object_ok: "close_object d = Some e \<Longrightarrow> doc_ok d \<Longrightarrow> doc_ok e"
  by (induction d rule: close_object.induct) (auto simp: doc_ok_def dest!: add_value_ok)

lemma open_frame_ok: "open_frame f d = Some e \<Longrightarrow> doc_ok d \<Longrightarrow> frame_ok f \<Longrightarrow> doc_ok e"
  by (cases d) (auto simp: doc_ok_def split: if_splits)

lemma code_points_scalar: "list_all scalar (code_points s)"
  by (simp add: code_points_def utf8_replace_scalar)

lemma cstr_printable: "printable (cstr_value s)"
  by (simp add: cstr_value_def code_points_scalar split: option.splits)

lemma add_member_ok: "add_member k v d = Some e \<Longrightarrow> doc_ok d \<Longrightarrow> printable v \<Longrightarrow> doc_ok e"
  using add_key_ok [OF _ _ code_points_scalar, of "c_bytes k" d] add_value_ok [of v _ e]
  by (auto simp: add_member_def split: option.splits)

lemma doc_step_ok: "doc_step c d = Some e \<Longrightarrow> doc_ok d \<Longrightarrow> doc_ok e"
  by (cases c) (auto intro: add_value_ok add_key_ok open_frame_ok close_array_ok close_object_ok add_member_ok
    simp: code_points_scalar cstr_printable)

lemma doc_run_ok: "doc_run cs d = Some e \<Longrightarrow> doc_ok d \<Longrightarrow> doc_ok e"
  by (induction cs arbitrary: d) (auto split: option.splits dest: doc_step_ok)

section \<open>Properties\<close>

text \<open>
  C12: The writer builds the document its calls describe. After any sequence of calls on a fresh
  writer, with no status looked at in between and an allocator that may refuse at any time,
  finishing succeeds only if every call fitted the JSON grammar and every container was closed,
  and then exactly the compact text of the document has been appended to the buffer; if it fails,
  the buffer could not grow, or the calls did not describe a document of at most 32 levels.
\<close>

theorem json_writer_refines:
  assumes "realloc_law ra" "buf_wf b"
  shows "let w = jw_run ra cs (af_jw_init b)
    in case fst (af_jw_finish w) of
        None \<Rightarrow> \<exists>r. doc_run cs (None, []) = Some (r, []) \<and>
          wire (contents (jw_out w)) = wire (contents b) @ utf8_text (root_text r)
      | Some e \<Rightarrow> e \<in> buffer_errors \<or>
          e \<in> {AF_E_INTERNAL, AF_E_JSON_DEPTH} \<and> (\<nexists>r. doc_run cs (None, []) = Some (r, []))"
  unfolding Let_def by (rule finish_outcome [OF run_outcome [OF init_represents [OF assms]]])

theorem json_writer_refines_witness:
  "let b = \<lparr>buf_data = None, buf_len = 0, buf_cap = 0, buf_max = 64\<rparr>;
       w = jw_run plain_realloc [Begin_Object, Member_Text [97, 0] [10, 200], Put_Key [98, 0], Begin_Array, Put_Int (- 5),
             Put_Bool True, End_Array, End_Object] (af_jw_init b)
    in case fst (af_jw_finish w) of
        None \<Rightarrow> \<exists>r. doc_run [Begin_Object, Member_Text [97, 0] [10, 200], Put_Key [98, 0], Begin_Array, Put_Int (- 5),
             Put_Bool True, End_Array, End_Object] (None, []) = Some (r, []) \<and>
          wire (contents (jw_out w)) = wire (contents b) @ utf8_text (root_text r)
      | Some e \<Rightarrow> e \<in> buffer_errors \<or>
          e \<in> {AF_E_INTERNAL, AF_E_JSON_DEPTH} \<and>
          (\<nexists>r. doc_run [Begin_Object, Member_Text [97, 0] [10, 200], Put_Key [98, 0], Begin_Array, Put_Int (- 5),
             Put_Bool True, End_Array, End_Object] (None, []) = Some (r, []))"
  unfolding Let_def
  by (rule json_writer_refines [unfolded Let_def]) (simp_all add: plain_realloc_law buf_wf_def)

text \<open>
  C14: What the writer finishes is JSON and safe to show. If a run on an empty buffer is finished
  with success, the buffer is empty (when no value was written) or holds UTF-8 whose text a JSON
  decoder reads as the document of the calls, the last of two members with one key winning; and
  no byte of it is below 32 or 127, whatever bytes the strings had.
\<close>

theorem json_writer_valid:
  assumes "realloc_law ra" "af_buf_init m = Inr b" "w = jw_run ra cs (af_jw_init b)" "fst (af_jw_finish w) = AF_OK"
  shows "\<exists>r. doc_run cs (None, []) = Some (r, []) \<and>
    (case r of
       None \<Rightarrow> contents (jw_out w) = []
     | Some v \<Rightarrow> \<exists>t. utf8_decode (wire (contents (jw_out w))) = Some t \<and> loads t = Some (collapse v)) \<and>
    list_all (\<lambda>c. 32 \<le> c \<and> c \<noteq> 127) (contents (jw_out w))"
proof -
  have b: "buf_wf b" "contents b = []" using init_wf [OF assms(2)] by simp_all
  from finish_outcome [OF run_outcome [OF init_represents [OF assms(1) b(1)]], of cs] assms(3,4) b(2)
  obtain r where d: "doc_run cs (None, []) = Some (r, [])" and t: "wire (contents (jw_out w)) = utf8_text (root_text r)"
    by auto
  have "doc_ok (r, [])" using doc_run_ok [OF d] by (simp add: doc_ok_def)
  then have p: "printable v" if "r = Some v" for v using that by (simp add: doc_ok_def)
  have c: "list_all clean (root_text r)" using p by (simp add: root_text_def clean_text split: option.splits)
  show ?thesis
  proof (cases r)
    case None
    with d t show ?thesis by (simp add: root_text_def wire_def)
  next
    case (Some v)
    with d t c p clean_decodes [OF c] clean_wire [OF c t] jw.loads_render [of v] show ?thesis by (simp add: root_text_def)
  qed
qed

theorem json_writer_valid_witness:
  "let b = \<lparr>buf_data = None, buf_len = 0, buf_cap = 0, buf_max = 64\<rparr>;
       cs = [Begin_Object, Member_Text [97, 0] [10, 200, 34], Put_Key [98, 0], Begin_Array, Put_Int (- 5),
             Put_Bool True, End_Array, End_Object];
       w = jw_run plain_realloc cs (af_jw_init b)
    in \<exists>r. doc_run cs (None, []) = Some (r, []) \<and>
      (case r of
         None \<Rightarrow> contents (jw_out w) = []
       | Some v \<Rightarrow> \<exists>t. utf8_decode (wire (contents (jw_out w))) = Some t \<and> loads t = Some (collapse v)) \<and>
      list_all (\<lambda>c. 32 \<le> c \<and> c \<noteq> 127) (contents (jw_out w))"
  unfolding Let_def
  by (rule json_writer_valid [OF plain_realloc_law _ refl, where m = 64]) (simp add: af_buf_init_def, code_simp)

text \<open>
  A string survives the writer. The bytes of a valid UTF-8 string, quotes, escapes and control
  characters among them, written as a value and decoded as JSON give the text they encode.
\<close>

lemma json_string_roundtrip:
  assumes "realloc_law ra" "af_buf_init m = Inr b" "utf8_decode (wire s) = Some t"
    "af_jw_string_n ra (af_jw_init b) s = (AF_OK, w)"
  shows "\<exists>u. utf8_decode (wire (contents (jw_out w))) = Some u \<and> loads u = Some (JStr t)"
proof -
  have b: "buf_wf b" "contents b = []" using init_wf [OF assms(2)] by simp_all
  have "outcome ra (wire (contents b)) (add_value (JStr (code_points s)) (None, [])) (AF_OK, w)"
    using string_call [OF init_represents [OF assms(1) b(1)], of s] assms(4) by simp
  then have w: "wire (contents (jw_out w)) = utf8_text (jw_quote t)"
    using b(2) utf8_replace_valid [OF assms(3)] by (simp add: outcome_def represents_def code_points_def)
  have p: "printable (JStr t)"
    using utf8_replace_valid [OF assms(3)] utf8_replace_scalar [of "wire s"] by simp
  show ?thesis using w clean_decodes [OF clean_text [OF p]] jw.loads_render [OF p] by simp
qed

lemma json_string_roundtrip_witness:
  "let b = \<lparr>buf_data = None, buf_len = 0, buf_cap = 0, buf_max = 64\<rparr>;
       w = snd (af_jw_string_n plain_realloc (af_jw_init b) [34, 0xC3, 0xA9, 27, 92])
    in \<exists>u. utf8_decode (wire (contents (jw_out w))) = Some u \<and> loads u = Some (JStr [34, 233, 27, 92])"
  unfolding Let_def
  by (rule json_string_roundtrip [OF plain_realloc_law, where m = 64 and s = "[34, 0xC3, 0xA9, 27, 92]"])
    (simp add: af_buf_init_def, code_simp, code_simp)

end
