(* ===== verification/Json_Reader.thy ===== *)
theory Json_Reader
  imports Json_Writer
begin

text \<open>
  The JSON reader of the daemon, \<open>src/json/json.asm\<close>: the scan of the nesting that runs on the raw
  bytes, the parse under limits and the accessors. Jansson is a parameter: a function from bytes
  to a tree of nodes or the place of an error. What the reader relies on is \<open>reads_json\<close>: a tree
  Jansson returns is the document a JSON decoder reads from the same bytes.
\<close>

section \<open>The scan\<close>

fun scan_from :: "u64 \<Rightarrow> u8 list \<Rightarrow> bool \<Rightarrow> bool \<Rightarrow> u64 \<Rightarrow> af_status option" where
  "scan_from max_depth [] in_string escaped depth =
     (if in_string then Some AF_E_JSON_PARSE else if depth \<noteq> 0 then Some AF_E_JSON_PARSE else AF_OK)"
| "scan_from max_depth (c # p) in_string escaped depth =
     (if in_string then
        if escaped then scan_from max_depth p True False depth
        else if c = 92 then scan_from max_depth p True True depth
        else if c = 34 then scan_from max_depth p False escaped depth
        else scan_from max_depth p True escaped depth
      else if c = 34 then scan_from max_depth p True False depth
      else if c = 123 \<or> c = 91 then
        if max_depth < depth + 1 then Some AF_E_JSON_DEPTH else scan_from max_depth p False escaped (depth + 1)
      else if c = 125 \<or> c = 93 then
        if depth = 0 then Some AF_E_JSON_PARSE else scan_from max_depth p False escaped (depth - 1)
      else scan_from max_depth p False escaped depth)"

definition af_json_scan_depth :: "u8 list \<Rightarrow> u64 \<Rightarrow> af_status option" where
  "af_json_scan_depth p max_depth = scan_from max_depth p False False 0"

section \<open>Nodes and limits\<close>

text \<open>The nodes of Jansson; a real is the bits of its \<open>double\<close>, a \<open>json_int_t\<close> a 64-bit word.\<close>

datatype jnode =
    JN_Object "(u8 list \<times> jnode) list"
  | JN_Array "jnode list"
  | JN_String "u8 list"
  | JN_Integer u64
  | JN_Real u64
  | JN_True
  | JN_False
  | JN_Null

record json_error =
  err_line :: u64
  err_column :: u64
  err_position :: u64

type_synonym jansson = "u8 list \<Rightarrow> json_error + jnode"

record af_json_limits =
  lim_max_bytes :: u64
  lim_max_depth :: u64
  lim_max_string :: u64
  lim_max_elems :: u64

record af_json_doc =
  doc_root :: "jnode option"
  doc_line :: u64
  doc_column :: u64
  doc_position :: u64

fun af_json_enforce_limits :: "af_json_limits \<Rightarrow> jnode \<Rightarrow> af_status option"
  and enforce_elems :: "af_json_limits \<Rightarrow> jnode list \<Rightarrow> af_status option"
  and enforce_members :: "af_json_limits \<Rightarrow> (u8 list \<times> jnode) list \<Rightarrow> af_status option" where
  "af_json_enforce_limits lim (JN_String s) =
     (if lim_max_string lim < of_nat (length s) then Some AF_E_JSON_SIZE else AF_OK)"
| "af_json_enforce_limits lim (JN_Array vs) =
     (if lim_max_elems lim < of_nat (length vs) then Some AF_E_LIMIT else enforce_elems lim vs)"
| "af_json_enforce_limits lim (JN_Object ms) =
     (if lim_max_elems lim < of_nat (length ms) then Some AF_E_LIMIT else enforce_members lim ms)"
| "af_json_enforce_limits lim _ = AF_OK"
| "enforce_elems lim [] = AF_OK"
| "enforce_elems lim (v # vs) =
     (case af_json_enforce_limits lim v of Some e \<Rightarrow> Some e | None \<Rightarrow> enforce_elems lim vs)"
| "enforce_members lim [] = AF_OK"
| "enforce_members lim ((k, v) # ms) =
     (if lim_max_string lim < of_nat (length k) then Some AF_E_JSON_SIZE
      else case af_json_enforce_limits lim v of Some e \<Rightarrow> Some e | None \<Rightarrow> enforce_members lim ms)"

definition empty_doc :: af_json_doc where
  "empty_doc = \<lparr>doc_root = None, doc_line = 0, doc_column = 0, doc_position = 0\<rparr>"

definition af_json_doc_free :: "af_json_doc \<Rightarrow> af_json_doc" where
  "af_json_doc_free d = (case doc_root d of None \<Rightarrow> d | Some v \<Rightarrow> d\<lparr>doc_root := None\<rparr>)"

definition af_json_doc_root :: "af_json_doc \<Rightarrow> jnode option" where
  "af_json_doc_root d = doc_root d"

text \<open>The flag \<open>room\<close> tells whether the storage of the error object can be allocated.\<close>

definition af_json_parse :: "bool \<Rightarrow> jansson \<Rightarrow> u8 list \<Rightarrow> af_json_limits \<Rightarrow> af_status option \<times> af_json_doc" where
  "af_json_parse room loadb p lim =
     (if lim_max_bytes lim < of_nat (length p) then (Some AF_E_JSON_SIZE, empty_doc)
      else
        (case af_json_scan_depth p (lim_max_depth lim) of
           Some e \<Rightarrow> (Some e, empty_doc)
         | None \<Rightarrow>
             if \<not> room then (Some AF_E_NOMEM, empty_doc)
             else
               (case loadb p of
                  Inl e \<Rightarrow> (Some AF_E_JSON_PARSE,
                    empty_doc\<lparr>doc_line := err_line e, doc_column := err_column e, doc_position := err_position e\<rparr>)
                | Inr v \<Rightarrow>
                    (case af_json_enforce_limits lim v of
                       None \<Rightarrow> (AF_OK, empty_doc\<lparr>doc_root := Some v\<rparr>)
                     | Some e \<Rightarrow> (Some e, af_json_doc_free (empty_doc\<lparr>doc_root := Some v\<rparr>))))))"

section \<open>Accessors\<close>

text \<open>The lookup of a member in an object is Jansson's, an argument as well.\<close>

type_synonym object_get = "jnode \<Rightarrow> u8 list \<Rightarrow> jnode option"

definition af_json_member :: "object_get \<Rightarrow> jnode option \<Rightarrow> u8 list \<Rightarrow> af_status + jnode" where
  "af_json_member get v key =
     (case v of
        None \<Rightarrow> Inl AF_E_INVALID
      | Some (JN_Object ms) \<Rightarrow> (case get (JN_Object ms) key of None \<Rightarrow> Inl AF_E_NOTFOUND | Some m \<Rightarrow> Inr m)
      | Some _ \<Rightarrow> Inl AF_E_JSON_TYPE)"

definition af_json_get_string :: "object_get \<Rightarrow> jnode option \<Rightarrow> u8 list \<Rightarrow> af_status + u8 list \<times> u64" where
  "af_json_get_string get v key =
     (case af_json_member get v key of
        Inl e \<Rightarrow> Inl e
      | Inr (JN_String s) \<Rightarrow> Inr (s, of_nat (length s))
      | Inr _ \<Rightarrow> Inl AF_E_JSON_TYPE)"

definition af_json_get_integer :: "object_get \<Rightarrow> jnode option \<Rightarrow> u8 list \<Rightarrow> af_status + u64" where
  "af_json_get_integer get v key =
     (case af_json_member get v key of
        Inl e \<Rightarrow> Inl e
      | Inr (JN_Integer n) \<Rightarrow> Inr n
      | Inr _ \<Rightarrow> Inl AF_E_JSON_TYPE)"

definition af_json_get_bool :: "object_get \<Rightarrow> jnode option \<Rightarrow> u8 list \<Rightarrow> af_status + u64" where
  "af_json_get_bool get v key =
     (case af_json_member get v key of
        Inl e \<Rightarrow> Inl e
      | Inr JN_True \<Rightarrow> Inr 1
      | Inr JN_False \<Rightarrow> Inr 0
      | Inr _ \<Rightarrow> Inl AF_E_JSON_TYPE)"

definition af_json_get_array :: "object_get \<Rightarrow> jnode option \<Rightarrow> u8 list \<Rightarrow> af_status + jnode list \<times> u64" where
  "af_json_get_array get v key =
     (case af_json_member get v key of
        Inl e \<Rightarrow> Inl e
      | Inr (JN_Array vs) \<Rightarrow> Inr (vs, of_nat (length vs))
      | Inr _ \<Rightarrow> Inl AF_E_JSON_TYPE)"

definition af_json_get_object :: "object_get \<Rightarrow> jnode option \<Rightarrow> u8 list \<Rightarrow> af_status + (u8 list \<times> jnode) list" where
  "af_json_get_object get v key =
     (case af_json_member get v key of
        Inl e \<Rightarrow> Inl e
      | Inr (JN_Object ms) \<Rightarrow> Inr ms
      | Inr _ \<Rightarrow> Inl AF_E_JSON_TYPE)"

text \<open>Jansson counts 0 elements, and has none at any index, in what is not an array.\<close>

definition af_json_array_count :: "jnode option \<Rightarrow> u64" where
  "af_json_array_count v = (case v of Some (JN_Array vs) \<Rightarrow> of_nat (length vs) | _ \<Rightarrow> 0)"

definition af_json_array_at :: "jnode option \<Rightarrow> u64 \<Rightarrow> af_status + jnode" where
  "af_json_array_at v i =
     (case v of
        Some (JN_Array vs) \<Rightarrow> if unat i < length vs then Inr (vs ! unat i) else Inl AF_E_NOTFOUND
      | _ \<Rightarrow> Inl AF_E_NOTFOUND)"

definition af_json_string_of :: "jnode option \<Rightarrow> af_status + u8 list \<times> u64" where
  "af_json_string_of v =
     (case v of
        None \<Rightarrow> Inl AF_E_INVALID
      | Some (JN_String s) \<Rightarrow> Inr (s, of_nat (length s))
      | Some _ \<Rightarrow> Inl AF_E_JSON_TYPE)"

section \<open>The scan on text\<close>

text \<open>The same scan of a text, with a count that does not wrap.\<close>

fun nests :: "nat \<Rightarrow> int list \<Rightarrow> bool \<Rightarrow> bool \<Rightarrow> nat \<Rightarrow> af_status option" where
  "nests m [] i e d = (if i \<or> d \<noteq> 0 then Some AF_E_JSON_PARSE else AF_OK)"
| "nests m (c # s) i e d =
     (if i then
        if e then nests m s True False d
        else if c = 92 then nests m s True True d
        else nests m s (c \<noteq> 34) False d
      else if c = 34 then nests m s True False d
      else if c = 123 \<or> c = 91 then if m < Suc d then Some AF_E_JSON_DEPTH else nests m s False False (Suc d)
      else if c = 125 \<or> c = 93 then if d = 0 then Some AF_E_JSON_PARSE else nests m s False False (d - 1)
      else nests m s False False d)"

lemma nests_outside [simp]: "nests m s False True d = nests m s False False d"
  by (cases s) simp_all

abbreviation outside :: "nat \<Rightarrow> int list \<Rightarrow> nat \<Rightarrow> af_status option" where
  "outside m s d \<equiv> nests m s False False d"

lemma scan_from_outside [simp]: "scan_from m s False True d = scan_from m s False False d"
  by (induction s arbitrary: d) simp_all

lemma scan_nests:
  "unat d + length p < 2 ^ 64 \<Longrightarrow> scan_from m p i e d = nests (unat m) (wire p) i e (unat d)"
proof (induction p arbitrary: i e d)
  case Nil
  then show ?case by (simp add: unat_eq_zero)
next
  case (Cons c p)
  have c: "c = 34 \<longleftrightarrow> uint c = 34" "c = 92 \<longleftrightarrow> uint c = 92" "c = 123 \<longleftrightarrow> uint c = 123" "c = 91 \<longleftrightarrow> uint c = 91"
    "c = 125 \<longleftrightarrow> uint c = 125" "c = 93 \<longleftrightarrow> uint c = 93" by (simp_all add: word_uint_eq_iff)
  have up: "unat (d + 1) = Suc (unat d)" using Cons.prems by (simp add: unat_word_ariths)
  have down: "d \<noteq> 0 \<Longrightarrow> unat (d - 1) = unat d - 1" by (simp add: unat_minus_one)
  have zero: "d = 0 \<longleftrightarrow> unat d = 0" by (simp add: unat_eq_zero)
  have deep: "m < d + 1 \<longleftrightarrow> unat m < Suc (unat d)" using up by (simp add: word_less_nat_alt)
  have IH: "unat d' \<le> Suc (unat d) \<Longrightarrow> scan_from m p i' e' d' = nests (unat m) (wire p) i' e' (unat d')" for i' e' d'
    using Cons by simp
  show ?case
    using up down zero deep IH [of d] IH [of "d + 1"] IH [of "d - 1"]
    by (cases e) (simp_all add: c)
qed

definition inert :: "cp \<Rightarrow> bool" where "inert c \<longleftrightarrow> c \<notin> {34, 123, 91, 125, 93}"

lemma outside_inert: "list_all inert s \<Longrightarrow> outside m (s @ r) d = outside m r d"
  by (induction s) (simp_all add: inert_def)

lemma outside_drop: "list_all inert (take n s) \<Longrightarrow> outside m (drop n s) d = outside m s d"
  using outside_inert [of "take n s" m "drop n s" d] by simp

lemma outside_skip_ws: "outside m (skip_ws s) d = outside m s d"
  by (induction s) (auto simp: skip_ws_def)

lemma hex_digit_plain: "hex_digit c = Some x \<Longrightarrow> c \<noteq> 34 \<and> c \<noteq> 92"
  by (auto simp: hex_digit_def Py_Text.is_digit_def split: if_splits)

lemma nests_hex4: "hex4 s = Some (u, r) \<Longrightarrow> nests m s True False d = nests m r True False d"
proof -
  assume h: "hex4 s = Some (u, r)"
  then obtain a b x y where s: "s = a # b # x # y # r" and "hex_digit a \<noteq> None" "hex_digit b \<noteq> None"
      "hex_digit x \<noteq> None" "hex_digit y \<noteq> None"
    by (cases s rule: hex4.cases) (auto split: option.splits)
  then have "list_all (\<lambda>c. c \<noteq> 34 \<and> c \<noteq> 92) [a, b, x, y]" using hex_digit_plain by auto
  then show ?thesis unfolding s by simp
qed

lemma nests_pair_up: "pair_up u s = (c, r) \<Longrightarrow> nests m s True False d = nests m r True False d"
proof (cases "high_surrogate u \<and> prefix [92, 117] s")
  case True
  assume p: "pair_up u s = (c, r)"
  from True obtain q where q: "s = 92 # 117 # q" by (auto simp: prefix_def)
  with True p nests_hex4 [of q _ _ m d] show ?thesis
    by (auto simp: pair_up_def split: option.splits if_splits)
qed (auto simp: pair_up_def)

lemma nests_escape: "escape s = Some (c, r) \<Longrightarrow> nests m s True True d = nests m r True False d"
  by (cases s) (auto simp: escape_def split: if_splits dest!: nests_hex4 [of _ _ _ m d] nests_pair_up [of _ _ _ _ m d])

lemma nests_scanstring: "scanstring s = Some (t, r) \<Longrightarrow> nests m s True False d = outside m r d"
proof (induction s arbitrary: t rule: scanstring.induct)
  case (1 s)
  obtain c q where s: "s = c # q" using 1(3) by (cases s) (simp_all add: scanstring.simps)
  consider "c = 34" | "c = 92" | "c \<noteq> 34" "c \<noteq> 92" by blast
  then show ?case
  proof cases
    case 2
    with 1(3) s obtain e r' u where e: "escape q = Some (e, r')" "scanstring r' = Some (u, r)"
      by (subst (asm) scanstring.simps) (auto split: if_splits option.splits)
    from 1(1) [OF s _ 2 e(1) refl e(2)] 2 s nests_escape [OF e(1)] show ?thesis by simp
  next
    case 3
    with 1(3) s obtain u where "scanstring q = Some (u, r)" "\<not> c < 32"
      by (subst (asm) scanstring.simps) (auto split: if_splits option.splits)
    with 1(2) [OF s] 3 s show ?thesis by simp
  qed (use 1(3) s in \<open>simp add: scanstring.simps\<close>)
qed

text \<open>Numbers and the literals.\<close>

lemma inert_digit: "Py_Text.is_digit c \<Longrightarrow> inert c"
  by (auto simp: Py_Text.is_digit_def inert_def)

lemma inert_digits: "list_all inert (digits_of s)" "prefix (digits_of s) s"
  by (auto simp: digits_of_def list_all_iff inert_digit takeWhile_is_prefix dest: set_takeWhileD)

lemma prefix_signed: "prefix sign s \<Longrightarrow> prefix t (drop (length sign) s) \<Longrightarrow> prefix (sign @ t) s"
  by (auto simp: prefix_def)

lemma inert_int_part: "int_part s = Some i \<Longrightarrow> list_all inert i \<and> prefix i s"
proof -
  assume i: "int_part s = Some i"
  let ?sign = "if prefix [45] s then [45 :: int] else []"
  let ?ds = "digits_of (drop (length ?sign) s)"
  have "?ds \<noteq> []" "i = ?sign @ (if hd ?ds = 48 then [48] else ?ds)"
    using i by (auto simp: int_part_def Let_def split: if_splits)
  moreover have "prefix ?ds (drop (length ?sign) s)" by (rule inert_digits)
  then have "?ds \<noteq> [] \<Longrightarrow> prefix (if hd ?ds = 48 then [48] else ?ds) (drop (length ?sign) s)"
    by (cases ?ds) (auto simp: prefix_def)
  moreover have "list_all inert ?ds" by (rule inert_digits)
  moreover have "prefix ?sign s" by simp
  ultimately show ?thesis using prefix_signed [of ?sign s] by (auto simp: inert_def)
qed

lemma inert_frac_part: "list_all inert (frac_part s) \<and> prefix (frac_part s) s"
proof (cases s)
  case (Cons c r)
  then show ?thesis using inert_digits [of r] by (auto simp: frac_part_def inert_def)
qed (simp add: frac_part_def)

lemma inert_exp_part: "list_all inert (exp_part s) \<and> prefix (exp_part s) s"
proof (cases s)
  case (Cons c r)
  let ?sign = "if prefix [45] r \<or> prefix [43] r then take 1 r else []"
  have "list_all inert ?sign" by (cases r) (auto simp: inert_def)
  moreover have "prefix (?sign @ digits_of (drop (length ?sign) r)) r"
    by (rule prefix_signed) (simp_all add: take_is_prefix inert_digits)
  ultimately show ?thesis using Cons inert_digits(1) by (auto simp: exp_part_def Let_def inert_def)
qed (simp add: exp_part_def)

lemma outside_prefix: "list_all inert t \<and> prefix t s \<Longrightarrow> outside m (drop (length t) s) d = outside m s d"
  by (rule outside_drop) (auto simp: prefix_def)

lemma outside_number: "number s = Some (v, r) \<Longrightarrow> outside m r d = outside m s d"
proof -
  assume n: "number s = Some (v, r)"
  then obtain i where i: "int_part s = Some i" by (auto simp: number_def split: option.splits)
  let ?r1 = "drop (length i) s"
  let ?r2 = "drop (length (frac_part ?r1)) ?r1"
  have "r = drop (length (exp_part ?r2)) ?r2"
    using n i by (auto simp: number_def Let_def simp del: drop_drop split: if_splits)
  then show ?thesis
    using outside_prefix [OF inert_exp_part [of ?r2]] outside_prefix [OF inert_frac_part [of ?r1]]
      outside_prefix [OF inert_int_part [OF i]] by (simp del: drop_drop)
qed

lemma inert_literal: "(t, v) \<in> set literals \<Longrightarrow> list_all inert t"
  by (auto simp: literals_def str_def inert_def)

lemma outside_scalar: "scalar_value s = Some (v, r) \<Longrightarrow> outside m r d = outside m s d"
proof (cases "List.find (\<lambda>(t, v). prefix t s) literals")
  case None
  assume "scalar_value s = Some (v, r)"
  with None outside_number show ?thesis by (simp add: scalar_value_def)
next
  case (Some p)
  assume s: "scalar_value s = Some (v, r)"
  obtain t u where p: "p = (t, u)" by fastforce
  with Some have "(t, u) \<in> set literals" "prefix t s" by (auto simp: find_Some_iff in_set_conv_nth)
  then have "outside m (drop (length t) s) d = outside m s d" by (simp add: outside_prefix inert_literal)
  with s Some p show ?thesis by (simp add: scalar_value_def)
qed

section \<open>The scan and the decoder\<close>

text \<open>How deep a value is: nothing for a scalar, one more than its members for a container.\<close>

fun nesting :: "json \<Rightarrow> nat" where
  "nesting (JArr vs) = Suc (foldr max (map nesting vs) 0)"
| "nesting (JObj ms) = Suc (foldr max (map (\<lambda>m. nesting (snd m)) ms) 0)"
| "nesting v = 0"

lemma foldr_max_le: "foldr max xs 0 \<le> (k :: nat) \<longleftrightarrow> (\<forall>x \<in> set xs. x \<le> k)"
  by (induction xs) auto

text \<open>Scanning from \<open>s\<close> to \<open>r\<close> goes \<open>k\<close> levels down; inside a container it also leaves it.\<close>

definition descends :: "nat \<Rightarrow> nat \<Rightarrow> pystr \<Rightarrow> pystr \<Rightarrow> bool" where
  "descends m k s r \<longleftrightarrow>
     (\<forall>d \<le> m. outside m s d = (if d + k \<le> m then outside m r d else Some AF_E_JSON_DEPTH))"

definition closes :: "nat \<Rightarrow> nat \<Rightarrow> pystr \<Rightarrow> pystr \<Rightarrow> bool" where
  "closes m k s r \<longleftrightarrow>
     (\<forall>d < m. outside m s (Suc d) = (if Suc d + k \<le> m then outside m r d else Some AF_E_JSON_DEPTH))"

lemma descends_flat: "(\<And>d. outside m s d = outside m r d) \<Longrightarrow> descends m 0 s r"
  by (simp add: descends_def)

lemma descends_open:
  "c = 123 \<or> c = 91 \<Longrightarrow> closes m k (skip_ws t) r \<Longrightarrow> descends m (Suc k) (c # t) r"
  by (auto simp: descends_def closes_def outside_skip_ws)

lemma closes_last:
  assumes "descends m k s q" "skip_ws q = c # r" "c = 125 \<or> c = 93"
  shows "closes m k s r"
proof -
  have "outside m q (Suc d) = outside m r d" for d
    using outside_skip_ws [of m q "Suc d"] assms(2,3) by auto
  with assms(1) show ?thesis by (simp add: descends_def closes_def)
qed

lemma closes_next:
  assumes "descends m k s q" "skip_ws q = 44 # z" "closes m l (skip_ws z) r"
  shows "closes m (max k l) s r"
proof -
  have "outside m q d = outside m (skip_ws z) d" for d
    using outside_skip_ws [of m q d] assms(2) by (simp add: outside_skip_ws)
  with assms(1,3) show ?thesis by (auto simp: descends_def closes_def)
qed

lemma descends_key:
  assumes "prefix [34] s" "scanstring (tl s) = Some (k, u)" "skip_ws u = 58 # q" "descends m n (skip_ws q) y"
  shows "descends m n s y"
proof -
  obtain t where t: "s = 34 # t" using assms(1) by (auto simp: prefix_def)
  have "outside m s d = outside m (skip_ws q) d" for d
    using t assms(2) nests_scanstring [of t k u m d] outside_skip_ws [of m u d] assms(3) by (simp add: outside_skip_ws)
  with assms(4) show ?thesis by (simp add: descends_def)
qed

lemma decoder_descends:
  "jvalue n s = Some (v, r) \<Longrightarrow> \<exists>k. nesting v \<le> k \<and> descends m k s r"
  "jelems n s = Some (vs, r) \<Longrightarrow> \<exists>k. (\<forall>v \<in> set vs. nesting v \<le> k) \<and> closes m k s r"
  "jmembers n s = Some (ms, r) \<Longrightarrow> \<exists>k. (\<forall>p \<in> set ms. nesting (snd p) \<le> k) \<and> closes m k s r"
proof (induction n s and n s and n s arbitrary: v r and vs r and ms r rule: jvalue_jelems_jmembers.induct)
  case (2 n s)
  then obtain c t where s: "s = c # t" by (cases s) auto
  have empty: "closes m 0 (c' # q) q" if "c' = 125 \<or> c' = 93" for c' q using that by (auto simp: closes_def)
  consider "c = 34" | "c = 123" "prefix [125] (skip_ws t)" | "c = 123" "\<not> prefix [125] (skip_ws t)"
    | "c = 91" "prefix [93] (skip_ws t)" | "c = 91" "\<not> prefix [93] (skip_ws t)" | "c \<notin> {34, 123, 91}" by auto
  then show ?case
  proof cases
    case 1
    with 2(3) s obtain u where "scanstring t = Some (u, r)" "v = JStr u" by auto
    with 1 s nests_scanstring [of t u r m] show ?thesis by (intro exI [of _ 0]) (simp add: descends_def)
  next
    case 2
    then obtain q where "skip_ws t = 125 # q" by (auto simp: prefix_def)
    with 2 \<open>jvalue (Suc n) s = Some (v, r)\<close> s descends_open [of c m 0 t q] empty show ?thesis
      by (intro exI [of _ 1]) auto
  next
    case 3
    with 2(3) s obtain ms where ms: "jmembers n (skip_ws t) = Some (ms, r)" "v = JObj (dict_of ms)" by auto
    with 2(1) [OF s] 3 obtain k where "\<forall>p \<in> set ms. nesting (snd p) \<le> k" "closes m k (skip_ws t) r" by auto
    with 3 s ms dict_of_values [of ms] descends_open [of c m k t r] show ?thesis
      by (intro exI [of _ "Suc k"]) (auto simp: foldr_max_le)
  next
    case 4
    then obtain q where "skip_ws t = 93 # q" by (auto simp: prefix_def)
    with 4 \<open>jvalue (Suc n) s = Some (v, r)\<close> s descends_open [of c m 0 t q] empty show ?thesis
      by (intro exI [of _ 1]) auto
  next
    case 5
    with 2(3) s obtain vs where vs: "jelems n (skip_ws t) = Some (vs, r)" "v = JArr vs" by auto
    with 2(2) [OF s] 5 obtain k where "\<forall>v \<in> set vs. nesting v \<le> k" "closes m k (skip_ws t) r" by auto
    with 5 s vs descends_open [of c m k t r] show ?thesis
      by (intro exI [of _ "Suc k"]) (auto simp: foldr_max_le)
  next
    case 6
    with 2(3) s have sc: "scalar_value s = Some (v, r)" by auto
    then have "nesting v = 0"
      by (auto simp: scalar_value_def literals_def number_def find_Some_iff Let_def less_Suc_eq nth_Cons'
        split: option.splits if_splits)
    with outside_scalar [OF sc] show ?thesis by (intro exI [of _ 0]) (simp add: descends_flat)
  qed
next
  case (4 n s)
  from 4(3) show ?case
  proof (cases rule: jelems_Some)
    case (1 v q)
    with 4(1) obtain k where "nesting v \<le> k" "descends m k s q" by blast
    with 1 closes_last [of m k s q] show ?thesis by auto
  next
    case (2 v q z vs')
    from 4(1) [OF 2(1)] obtain k where k: "nesting v \<le> k" "descends m k s q" by blast
    from 4(2) 2 obtain l where "\<forall>v \<in> set vs'. nesting v \<le> l" "closes m l (skip_ws z) r" by fastforce
    with k 2 closes_next [of m k s q z l r] show ?thesis by (intro exI [of _ "max k l"]) auto
  qed
next
  case (6 n s)
  from 6(3) show ?case
  proof (cases rule: jmembers_Some)
    case (1 k u q v y)
    from 6(1) 1 obtain l where l: "nesting v \<le> l" "descends m l (skip_ws q) y" by fastforce
    from closes_last [OF descends_key [OF 1(1-3) l(2)] 1(5)] l 1 show ?thesis by auto
  next
    case (2 k u q v y z ms')
    from 6(1) 2 obtain l where l: "nesting v \<le> l" "descends m l (skip_ws q) y" by fastforce
    from 6(2) 2 obtain i where i: "\<forall>p \<in> set ms'. nesting (snd p) \<le> i" "closes m i (skip_ws z) r" by fastforce
    from closes_next [OF descends_key [OF 2(1-3) l(2)] 2(5) i(2)] l i 2 show ?thesis
      by (intro exI [of _ "max l i"]) auto
  qed
qed simp_all

section \<open>Bytes and text\<close>

lemma nests_high: "h \<noteq> [] \<Longrightarrow> list_all (\<lambda>b. 128 \<le> b) h \<Longrightarrow> nests m (h @ s) i e d = nests m s i False d"
proof (induction h arbitrary: e rule: list_nonempty_induct)
  case (single b)
  then show ?case by (cases i; cases e) auto
next
  case (cons b h)
  then show ?case by (cases i; cases e) auto
qed

lemma utf8_cp_high: "scalar c \<Longrightarrow> \<not> c < 128 \<Longrightarrow> utf8_cp c \<noteq> [] \<and> list_all (\<lambda>b. 128 \<le> b) (utf8_cp c)"
proof -
  have "0 \<le> n \<Longrightarrow> 0 \<le> n div 262144" "0 \<le> n \<Longrightarrow> 0 \<le> n div 4096" "0 \<le> n \<Longrightarrow> 0 \<le> n div 64" for n :: int by simp_all
  then show "scalar c \<Longrightarrow> \<not> c < 128 \<Longrightarrow> utf8_cp c \<noteq> [] \<and> list_all (\<lambda>b. 128 \<le> b) (utf8_cp c)"
    by (auto simp: utf8_cp_def scalar_def)
qed

lemma nests_utf8: "list_all scalar t \<Longrightarrow> nests m (utf8_text t) i e d = nests m t i e d"
proof (induction t arbitrary: i e d)
  case (Cons c t)
  show ?case
  proof (cases "c < 128")
    case False
    with Cons.prems nests_high [of "utf8_cp c" m] nests_high [of "[c]" m] utf8_cp_high [of c] Cons.IH
    show ?thesis by (simp del: nests.simps)
  qed (use Cons in simp)
qed simp

lemma utf8_decode_text: "utf8_decode bs = Some t \<Longrightarrow> bs = utf8_text t \<and> list_all scalar t"
proof (induction bs arbitrary: t rule: utf8_decode.induct)
  case (1 bs)
  show ?case
  proof (cases "bs = []")
    case False
    with 1(2) obtain c r s where s: "utf8_step bs = Some (c, r)" "utf8_decode r = Some s" "t = c # s"
      by (subst (asm) utf8_decode.simps) (auto split: option.splits)
    from 1(1) [OF False s(1) refl s(2)] s utf8_step_inverse [OF s(1)] utf8_step_scalar [OF s(1)] show ?thesis by simp
  qed (use 1(2) in simp)
qed

lemma scan_text:
  "length p < 2 ^ 64 \<Longrightarrow> utf8_decode (wire p) = Some t \<Longrightarrow> af_json_scan_depth p m = outside (unat m) t 0"
  using scan_nests [of 0 p m False False] utf8_decode_text [of "wire p" t] nests_utf8 [of t "unat m"]
  by (simp add: af_json_scan_depth_def)

lemma outside_document:
  assumes "loads t = Some j"
  shows "outside m t 0 = AF_OK \<and> nesting j \<le> m \<or> outside m t 0 = Some AF_E_JSON_DEPTH"
proof -
  obtain n r where r: "jvalue n (skip_ws t) = Some (j, r)" "skip_ws r = []"
    using assms by (auto simp: loads_def simp del: jvalue.simps split: if_splits option.splits)
  obtain k where k: "nesting j \<le> k" "descends m k (skip_ws t) r" using decoder_descends(1) [OF r(1)] by blast
  have "outside m r 0 = AF_OK" using outside_skip_ws [of m r 0] r(2) by simp
  with k show ?thesis by (auto simp: descends_def outside_skip_ws)
qed

section \<open>The text of the writer\<close>

context json_printer
begin

lemma outside_gap: "outside m (gap @ r) d = outside m r d"
  using outside_skip_ws [of m "gap @ r" d] outside_skip_ws [of m r d] by (simp add: gap_skipped)

lemma outside_quote: "list_all scalar s \<Longrightarrow> outside m (quote s @ r) d = outside m r d"
  using nests_scanstring [OF scan_quote, of s m r d] by (subst quote_head) simp

lemma join_closes:
  "xs \<noteq> [] \<Longrightarrow> (\<And>x r. x \<in> set xs \<Longrightarrow> descends m (h x) (f x @ r) r) \<Longrightarrow> c = 125 \<or> c = 93 \<Longrightarrow>
   closes m (foldr max (map h xs) 0) (join (44 # gap) (map f xs) @ c # r) r"
proof (induction xs rule: list_nonempty_induct)
  case (single x)
  then have "descends m (h x) (f x @ c # r) (c # r)" by simp
  from closes_last [OF this _ single(2)] single(2) show ?case by auto
next
  case (cons x xs)
  let ?t = "join (44 # gap) (map f xs) @ c # r"
  have eq: "join (44 # gap) (map f (x # xs)) @ c # r = f x @ 44 # gap @ ?t" using cons.hyps by (cases xs) simp_all
  have "closes m (foldr max (map h xs) 0) ?t r" using cons by simp
  then have "closes m (foldr max (map h xs) 0) (skip_ws (gap @ ?t)) r"
    by (simp add: closes_def outside_skip_ws outside_gap)
  from closes_next [OF _ _ this, of "h x" "f x @ 44 # gap @ ?t" "44 # gap @ ?t"] cons.prems(1) [of x] eq
  show ?case by simp
qed

lemma text_descends: "printable v \<Longrightarrow> descends m (nesting v) (text_of v @ r) r"
proof (induction v arbitrary: r)
  case (JInt n)
  have "list_all inert (int_text n)"
    using dec_text_digits [of "nat \<bar>n\<bar>"] by (auto simp: int_text_def list_all_iff inert_digit) (simp_all add: inert_def)
  then show ?case by (simp add: descends_flat outside_inert)
next
  case (JStr s)
  then show ?case by (simp add: descends_flat outside_quote)
next
  case (JArr vs)
  have "vs \<noteq> [] \<Longrightarrow> closes m (foldr max (map nesting vs) 0) (join (44 # gap) (map text_of vs) @ 93 # r) r"
    by (rule join_closes) (use JArr in \<open>auto simp: list_all_iff\<close>)
  then show ?case
    by (cases "vs = []") (auto simp: descends_def closes_def)
next
  case (JObj ms)
  have "ms \<noteq> [] \<Longrightarrow> closes m (foldr max (map (\<lambda>m. nesting (snd m)) ms) 0)
      (join (44 # gap) (map (\<lambda>m. quote (fst m) @ (58 # gap) @ text_of (snd m)) ms) @ 125 # r) r"
  proof (rule join_closes)
    fix x r
    assume x: "x \<in> set ms"
    with JObj have "descends m (nesting (snd x)) (text_of (snd x) @ r) r" "list_all scalar (fst x)"
      by (auto simp: list_all_iff snds.simps)
    then show "descends m (nesting (snd x)) ((quote (fst x) @ (58 # gap) @ text_of (snd x)) @ r) r"
      by (simp add: descends_def outside_quote outside_gap)
  qed simp_all
  then show ?case
    by (cases "ms = []") (auto simp: descends_def closes_def)
qed (simp_all add: descends_flat str_def)

lemma outside_text: "printable v \<Longrightarrow> outside m (text_of v) 0 = (if nesting v \<le> m then AF_OK else Some AF_E_JSON_DEPTH)"
  using text_descends [of v m "[]"] by (simp add: descends_def)

end

text \<open>A document of the writer: a value at depth \<open>n\<close> goes at most the remaining levels down.\<close>

fun frame_values :: "frame \<Rightarrow> json list" where
  "frame_values (ArrF vs) = vs"
| "frame_values (ObjF ms k) = map snd ms"

fun shallow :: "frame list \<Rightarrow> bool" where
  "shallow [] = True"
| "shallow (f # fs) =
     (length (f # fs) \<le> AF_JW_MAX_DEPTH \<and>
      list_all (\<lambda>v. nesting v + length (f # fs) \<le> AF_JW_MAX_DEPTH) (frame_values f) \<and> shallow fs)"

definition shallow_doc :: "doc \<Rightarrow> bool" where
  "shallow_doc d \<longleftrightarrow> (case fst d of None \<Rightarrow> True | Some v \<Rightarrow> nesting v \<le> AF_JW_MAX_DEPTH) \<and> shallow (snd d)"

lemma add_value_shallow:
  "add_value v d = Some e \<Longrightarrow> shallow_doc d \<Longrightarrow> nesting v + length (snd d) \<le> AF_JW_MAX_DEPTH \<Longrightarrow> shallow_doc e"
  by (induction v d rule: add_value.induct) (auto simp: shallow_doc_def split: if_splits)

lemma shallow_length: "shallow fs \<Longrightarrow> length fs \<le> AF_JW_MAX_DEPTH"
  by (cases fs) simp_all

lemma add_scalar_shallow: "add_value v d = Some e \<Longrightarrow> shallow_doc d \<Longrightarrow> nesting v = 0 \<Longrightarrow> shallow_doc e"
  using add_value_shallow [of v d e] shallow_length [of "snd d"] by (simp add: shallow_doc_def [of d])

lemma add_key_shallow: "add_key k d = Some e \<Longrightarrow> shallow_doc d \<Longrightarrow> shallow_doc e"
  by (induction k d rule: add_key.induct) (auto simp: shallow_doc_def)

lemma container_nesting:
  "shallow (ArrF vs # fs) \<Longrightarrow> nesting (JArr vs) + length fs \<le> AF_JW_MAX_DEPTH"
  "shallow (ObjF ms k # fs) \<Longrightarrow> nesting (JObj ms) + length fs \<le> AF_JW_MAX_DEPTH"
proof -
  have m: "foldr max xs 0 + Suc n \<le> l" if "\<forall>x \<in> set xs. x + Suc n \<le> l" "Suc n \<le> l" for xs and n l :: nat
    using that by (induction xs) auto
  show "shallow (ArrF vs # fs) \<Longrightarrow> nesting (JArr vs) + length fs \<le> AF_JW_MAX_DEPTH"
    using m [of "map nesting vs" "length fs" AF_JW_MAX_DEPTH] by (auto simp: list_all_iff)
  show "shallow (ObjF ms k # fs) \<Longrightarrow> nesting (JObj ms) + length fs \<le> AF_JW_MAX_DEPTH"
    using m [of "map (\<lambda>m. nesting (snd m)) ms" "length fs" AF_JW_MAX_DEPTH] by (auto simp: list_all_iff)
qed

lemma close_array_shallow: "close_array d = Some e \<Longrightarrow> shallow_doc d \<Longrightarrow> shallow_doc e"
proof (induction d rule: close_array.induct)
  case (1 r vs fs)
  with container_nesting(1) [of vs fs] add_value_shallow [of "JArr vs" "(r, fs)" e] show ?case
    by (auto simp: shallow_doc_def)
qed simp_all

lemma close_object_shallow: "close_object d = Some e \<Longrightarrow> shallow_doc d \<Longrightarrow> shallow_doc e"
proof (induction d rule: close_object.induct)
  case (1 r ms fs)
  with container_nesting(2) [of ms None fs] add_value_shallow [of "JObj ms" "(r, fs)" e] show ?case
    by (auto simp: shallow_doc_def)
qed simp_all

lemma open_frame_shallow: "open_frame f d = Some e \<Longrightarrow> shallow_doc d \<Longrightarrow> frame_values f = [] \<Longrightarrow> shallow_doc e"
  by (cases d) (auto simp: shallow_doc_def split: if_splits)

lemma add_member_shallow: "add_member k v d = Some e \<Longrightarrow> shallow_doc d \<Longrightarrow> nesting v = 0 \<Longrightarrow> shallow_doc e"
  using add_key_shallow [of "code_points (c_bytes k)" d] add_scalar_shallow [of v _ e]
  by (auto simp: add_member_def split: option.splits)

lemma cstr_flat: "nesting (cstr_value s) = 0"
  by (simp add: cstr_value_def split: option.splits)

lemma doc_step_shallow: "doc_step c d = Some e \<Longrightarrow> shallow_doc d \<Longrightarrow> shallow_doc e"
  by (cases c) (auto dest: add_scalar_shallow add_key_shallow open_frame_shallow close_array_shallow close_object_shallow
    add_member_shallow simp: cstr_flat)

lemma doc_run_shallow: "doc_run cs d = Some e \<Longrightarrow> shallow_doc d \<Longrightarrow> shallow_doc e"
  by (induction cs arbitrary: d) (auto split: option.splits dest: doc_step_shallow)

section \<open>Trees and documents\<close>

fun nodes_of :: "jnode \<Rightarrow> jnode list" where
  "nodes_of (JN_Array vs) = JN_Array vs # concat (map nodes_of vs)"
| "nodes_of (JN_Object ms) = JN_Object ms # concat (map (\<lambda>m. nodes_of (snd m)) ms)"
| "nodes_of v = [v]"

fun node_depth :: "jnode \<Rightarrow> nat" where
  "node_depth (JN_Array vs) = Suc (foldr max (map node_depth vs) 0)"
| "node_depth (JN_Object ms) = Suc (foldr max (map (\<lambda>m. node_depth (snd m)) ms) 0)"
| "node_depth v = 0"

text \<open>A node within bounds on strings and on elements, and one whose lengths fit a word.\<close>

definition node_within :: "nat \<Rightarrow> nat \<Rightarrow> jnode \<Rightarrow> bool" where
  "node_within strings elems v =
     (case v of
        JN_String s \<Rightarrow> length s \<le> strings
      | JN_Array vs \<Rightarrow> length vs \<le> elems
      | JN_Object ms \<Rightarrow> length ms \<le> elems \<and> list_all (\<lambda>m. length (fst m) \<le> strings) ms
      | _ \<Rightarrow> True)"

definition sized :: "jnode \<Rightarrow> bool" where
  "sized v \<longleftrightarrow> list_all (node_within (2 ^ 64 - 1) (2 ^ 64 - 1)) (nodes_of v)"

text \<open>A tree is what a decoder reads as a document: the same shape, strings and integers.\<close>

fun agrees :: "jnode \<Rightarrow> json \<Rightarrow> bool"
  and agree_all :: "jnode list \<Rightarrow> json list \<Rightarrow> bool"
  and agree_members :: "(u8 list \<times> jnode) list \<Rightarrow> (pystr \<times> json) list \<Rightarrow> bool" where
  "agrees (JN_Object ms) j = (case j of JObj ds \<Rightarrow> agree_members ms ds | _ \<Rightarrow> False)"
| "agrees (JN_Array vs) j = (case j of JArr ws \<Rightarrow> agree_all vs ws | _ \<Rightarrow> False)"
| "agrees (JN_String s) j = (case j of JStr t \<Rightarrow> utf8_decode (wire s) = Some t | _ \<Rightarrow> False)"
| "agrees (JN_Integer n) j = (j = JInt (sint n))"
| "agrees (JN_Real x) j = (case j of JFloat t \<Rightarrow> True | _ \<Rightarrow> False)"
| "agrees JN_True j = (j = JBool True)"
| "agrees JN_False j = (j = JBool False)"
| "agrees JN_Null j = (j = JNull)"
| "agree_all [] ws = (ws = [])"
| "agree_all (v # vs) ws = (case ws of [] \<Rightarrow> False | w # us \<Rightarrow> agrees v w \<and> agree_all vs us)"
| "agree_members [] ds = (ds = [])"
| "agree_members ((k, v) # ms) ds =
     (case ds of [] \<Rightarrow> False
      | (t, w) # es \<Rightarrow> utf8_decode (wire k) = Some t \<and> agrees v w \<and> agree_members ms es)"

text \<open>What Jansson documents: the tree of a document, with lengths of type \<open>size_t\<close>.\<close>

definition reads_json :: "jansson \<Rightarrow> bool" where
  "reads_json loadb \<longleftrightarrow>
     (\<forall>p v. loadb p = Inr v \<longrightarrow> sized v \<and> (\<exists>t j. utf8_decode (wire p) = Some t \<and> loads t = Some j \<and> agrees v j))"

lemma agrees_depth:
  "agrees v j \<Longrightarrow> node_depth v = nesting j"
  "agree_all vs ws \<Longrightarrow> map node_depth vs = map nesting ws"
  "agree_members ms ds \<Longrightarrow> map (\<lambda>m. node_depth (snd m)) ms = map (\<lambda>m. nesting (snd m)) ds"
proof (induction v j and vs ws and ms ds rule: agrees_agree_all_agree_members.induct)
  case (12 k v ms ds)
  then show ?case by (auto split: list.splits)
qed (auto split: json.splits list.splits)

lemma not_less_of_nat: "length (s :: 'b list) \<le> 2 ^ 64 - 1 \<Longrightarrow> \<not> (l :: u64) < of_nat (length s) \<longleftrightarrow> length s \<le> unat l"
  by (simp add: word_less_nat_alt not_less unat_of_nat)

lemma enforce_iff:
  "sized v \<Longrightarrow> af_json_enforce_limits lim v = AF_OK \<longleftrightarrow>
     list_all (node_within (unat (lim_max_string lim)) (unat (lim_max_elems lim))) (nodes_of v)"
  "list_all sized vs \<Longrightarrow> enforce_elems lim vs = AF_OK \<longleftrightarrow>
     list_all (node_within (unat (lim_max_string lim)) (unat (lim_max_elems lim))) (concat (map nodes_of vs))"
  "list_all (\<lambda>m. length (fst m) \<le> 2 ^ 64 - 1 \<and> sized (snd m)) ms \<Longrightarrow> enforce_members lim ms = AF_OK \<longleftrightarrow>
     list_all (\<lambda>m. length (fst m) \<le> unat (lim_max_string lim)) ms \<and>
     list_all (node_within (unat (lim_max_string lim)) (unat (lim_max_elems lim))) (concat (map (\<lambda>m. nodes_of (snd m)) ms))"
proof (induction lim v and lim vs and lim ms
    rule: af_json_enforce_limits_enforce_elems_enforce_members.induct)
  case (1 lim s)
  then have "length s \<le> 2 ^ 64 - 1" by (simp add: sized_def node_within_def)
  from not_less_of_nat [OF this, of "lim_max_string lim"] show ?case by (auto simp: node_within_def)
next
  case (2 lim vs)
  then have l: "length vs \<le> 2 ^ 64 - 1" "list_all sized vs" by (auto simp: sized_def node_within_def list_all_iff)
  from not_less_of_nat [OF l(1), of "lim_max_elems lim"] 2(1) l(2) show ?case by (auto simp: node_within_def)
next
  case (3 lim ms)
  then have l: "length ms \<le> 2 ^ 64 - 1" "list_all (\<lambda>m. length (fst m) \<le> 2 ^ 64 - 1 \<and> sized (snd m)) ms"
    by (auto simp: sized_def node_within_def list_all_iff)
  from not_less_of_nat [OF l(1), of "lim_max_elems lim"] 3(1) l(2) show ?case by (auto simp: node_within_def)
next
  case (8 lim k v ms)
  then have k: "length k \<le> 2 ^ 64 - 1" by simp
  from not_less_of_nat [OF k, of "lim_max_string lim"] 8 show ?case by (auto split: option.splits)
qed (auto simp: node_within_def split: option.splits)

lemma enforce_errors:
  "af_json_enforce_limits lim v = Some e \<Longrightarrow> e \<in> {AF_E_JSON_SIZE, AF_E_LIMIT}"
  "enforce_elems lim vs = Some e \<Longrightarrow> e \<in> {AF_E_JSON_SIZE, AF_E_LIMIT}"
  "enforce_members lim ms = Some e \<Longrightarrow> e \<in> {AF_E_JSON_SIZE, AF_E_LIMIT}"
  by (induction lim v and lim vs and lim ms
    rule: af_json_enforce_limits_enforce_elems_enforce_members.induct) (auto split: if_splits option.splits)

lemma wire_inject: "wire a = wire b \<Longrightarrow> a = b"
  by (rule injD [of "map uint"]) (simp_all add: wire_def inj_def word_uint_eq_iff)

lemma utf8_decode_inject: "utf8_decode (wire a) = Some t \<Longrightarrow> utf8_decode (wire b) = Some t \<Longrightarrow> a = b"
  using utf8_decode_text [of "wire a" t] utf8_decode_text [of "wire b" t] by (simp add: wire_inject)

lemma agree_lookup:
  "agree_members ms ds \<Longrightarrow> utf8_decode (wire b) = Some k \<Longrightarrow>
   (case map_of ms b of None \<Rightarrow> map_of ds k = None | Some m \<Rightarrow> \<exists>w. map_of ds k = Some w \<and> agrees m w)"
proof (induction ms arbitrary: ds)
  case (Cons m ms)
  obtain a n where m: "m = (a, n)" by fastforce
  with Cons.prems obtain t w es where d: "ds = (t, w) # es" "utf8_decode (wire a) = Some t" "agrees n w" "agree_members ms es"
    by (auto split: list.splits)
  have "a = b \<longleftrightarrow> t = k" using d(2) Cons.prems(2) utf8_decode_inject [of a k b] by auto
  with Cons.IH [OF d(4) Cons.prems(2)] m d show ?case by (auto split: option.splits)
qed simp

text \<open>A member of a tree and the member of the document.\<close>

definition member_of :: "json \<Rightarrow> pystr \<Rightarrow> af_status + json" where
  "member_of j k =
     (case j of
        JObj ds \<Rightarrow> (case map_of ds k of None \<Rightarrow> Inl AF_E_NOTFOUND | Some w \<Rightarrow> Inr w)
      | _ \<Rightarrow> Inl AF_E_JSON_TYPE)"

text \<open>What Jansson documents of a lookup: the value of the key up to its terminator.\<close>

definition finds_members :: "object_get \<Rightarrow> bool" where
  "finds_members get \<longleftrightarrow> (\<forall>ms key. get (JN_Object ms) key = map_of ms (c_bytes key))"

lemma member_agrees:
  assumes "finds_members get" "agrees v j" "utf8_decode (wire (c_bytes key)) = Some k"
  shows "case af_json_member get (Some v) key of
      Inl e \<Rightarrow> member_of j k = Inl e
    | Inr m \<Rightarrow> \<exists>w. member_of j k = Inr w \<and> agrees m w"
proof -
  have finds: "get (JN_Object ms) key = map_of ms (c_bytes key)" for ms using assms(1) by (simp add: finds_members_def)
  show ?thesis
  proof (cases v)
    case (JN_Object ms)
    with assms(2) obtain ds where "j = JObj ds" "agree_members ms ds" by (auto split: json.splits)
    with agree_lookup [OF this(2) assms(3)] JN_Object show ?thesis
      by (auto simp: af_json_member_def finds member_of_def split: option.splits)
  qed (use assms(2) in \<open>auto simp: af_json_member_def member_of_def split: json.splits\<close>)
qed

lemmas accessors = af_json_get_integer_def af_json_get_bool_def af_json_get_string_def

lemma scan_errors: "scan_from m p i e d = Some x \<Longrightarrow> x \<in> {AF_E_JSON_DEPTH, AF_E_JSON_PARSE}"
  by (induction m p i e d rule: scan_from.induct) (auto split: if_splits)

section \<open>Properties\<close>

text \<open>
  C26: The scan of the nesting agrees with the decoder. A document is never refused as malformed:
  the scan passes it, and then it nests no deeper than the limit, or says that it is too deep.
\<close>

theorem scan_accepts_documents:
  assumes "length p < 2 ^ 64" "utf8_decode (wire p) = Some t" "loads t = Some j"
  shows "af_json_scan_depth p m = AF_OK \<and> nesting j \<le> unat m \<or> af_json_scan_depth p m = Some AF_E_JSON_DEPTH"
  unfolding scan_text [OF assms(1,2)] by (rule outside_document [OF assms(3)])

theorem scan_accepts_documents_witness:
  "let p = [91, 123, 34, 92, 34, 93, 34, 58, 49, 125, 93]
    in af_json_scan_depth p 2 = AF_OK \<and> nesting (JArr [JObj [([34, 93], JInt 1)]]) \<le> unat (2 :: u64) \<or>
      af_json_scan_depth p 2 = Some AF_E_JSON_DEPTH"
  unfolding Let_def
  by (rule scan_accepts_documents [where t = "map uint [91, 123, 34, 92, 34, 93, 34, 58, 49, 125, 93 :: u8]"])
    (simp, code_simp, code_simp)

text \<open>
  C25: A document is held only within its limits. If parsing succeeds, the bytes, the nesting,
  every string and key, and the elements of every array and object are within the limits given,
  and the tree is what a JSON decoder reads from the bytes; if it fails, no tree is held, and the
  status is one of those documented.
\<close>

theorem parse_within_limits:
  assumes "reads_json loadb" "length p < 2 ^ 64" "af_json_parse room loadb p lim = (st, d)"
  shows "case st of
      None \<Rightarrow> \<exists>v t j. doc_root d = Some v \<and> length p \<le> unat (lim_max_bytes lim) \<and>
        node_depth v \<le> unat (lim_max_depth lim) \<and>
        list_all (node_within (unat (lim_max_string lim)) (unat (lim_max_elems lim))) (nodes_of v) \<and>
        utf8_decode (wire p) = Some t \<and> loads t = Some j \<and> agrees v j
    | Some e \<Rightarrow> doc_root d = None \<and> e \<in> {AF_E_JSON_SIZE, AF_E_JSON_DEPTH, AF_E_JSON_PARSE, AF_E_NOMEM, AF_E_LIMIT}"
proof (cases st)
  case None
  with assms(3) obtain v where v: "\<not> lim_max_bytes lim < of_nat (length p)"
    "af_json_scan_depth p (lim_max_depth lim) = AF_OK" "loadb p = Inr v" "af_json_enforce_limits lim v = AF_OK"
    "d = empty_doc\<lparr>doc_root := Some v\<rparr>"
    by (auto simp: af_json_parse_def split: if_splits option.splits sum.splits)
  from assms(1) v(3) have "sized v \<and> (\<exists>t j. utf8_decode (wire p) = Some t \<and> loads t = Some j \<and> agrees v j)"
    unfolding reads_json_def by blast
  then obtain t j where t: "sized v" "utf8_decode (wire p) = Some t" "loads t = Some j" "agrees v j" by blast
  have "nesting j \<le> unat (lim_max_depth lim)"
    using outside_document [OF t(3), of "unat (lim_max_depth lim)"] v(2) unfolding scan_text [OF assms(2) t(2)] by auto
  moreover have "length p \<le> unat (lim_max_bytes lim)" using not_less_of_nat [of p] assms(2) v(1) by simp
  ultimately show ?thesis
    using None v t enforce_iff(1) [OF t(1)] agrees_depth(1) [OF t(4)] by auto
next
  case (Some e)
  have scan: "af_json_scan_depth p m = Some x \<Longrightarrow> x \<in> {AF_E_JSON_DEPTH, AF_E_JSON_PARSE}" for m x
    using scan_errors by (simp add: af_json_scan_depth_def)
  with Some assms(3) enforce_errors(1) [of lim] show ?thesis
    by (auto simp: af_json_parse_def empty_doc_def af_json_doc_free_def split: if_splits option.splits sum.splits)
qed

definition one_document :: jansson where
  "one_document p =
     (if p = [123, 34, 97, 34, 58, 91, 49, 93, 125] then Inr (JN_Object [([97], JN_Array [JN_Integer 1])])
      else Inl \<lparr>err_line = 1, err_column = 1, err_position = 0\<rparr>)"

lemma one_document_reads: "reads_json one_document"
proof -
  let ?p = "[123, 34, 97, 34, 58, 91, 49, 93, 125] :: u8 list"
  have "utf8_decode (wire ?p) = Some (map uint ?p)" by code_simp
  moreover have "loads (map uint ?p) = Some (JObj [([97], JArr [JInt 1])])" by code_simp
  moreover have "agrees (JN_Object [([97], JN_Array [JN_Integer 1])]) (JObj [([97], JArr [JInt 1])])" by code_simp
  moreover have "sized (JN_Object [([97], JN_Array [JN_Integer 1])])" by (simp add: sized_def node_within_def)
  ultimately show ?thesis unfolding reads_json_def one_document_def by (auto split: if_splits)
qed

theorem parse_within_limits_witness:
  "let p = [123, 34, 97, 34, 58, 91, 49, 93, 125];
       lim = \<lparr>lim_max_bytes = 9, lim_max_depth = 2, lim_max_string = 1, lim_max_elems = 1\<rparr>;
       r = af_json_parse True one_document p lim
    in case fst r of
      None \<Rightarrow> \<exists>v t j. doc_root (snd r) = Some v \<and> length p \<le> unat (lim_max_bytes lim) \<and>
        node_depth v \<le> unat (lim_max_depth lim) \<and>
        list_all (node_within (unat (lim_max_string lim)) (unat (lim_max_elems lim))) (nodes_of v) \<and>
        utf8_decode (wire p) = Some t \<and> loads t = Some j \<and> agrees v j
    | Some e \<Rightarrow> doc_root (snd r) = None \<and> e \<in> {AF_E_JSON_SIZE, AF_E_JSON_DEPTH, AF_E_JSON_PARSE, AF_E_NOMEM, AF_E_LIMIT}"
  unfolding Let_def by (rule parse_within_limits [OF one_document_reads, where room = True]) simp_all

text \<open>
  The accessors answer for the document. On a tree that agrees with a document, asking for an
  integer, a truth value or a string by a key gives the member of that name, or says that the
  container is no object, that the name is absent or that the member has another type.
\<close>

lemma accessors_read_document:
  assumes "finds_members get" "agrees v j" "utf8_decode (wire (c_bytes key)) = Some k"
  shows "af_json_get_integer get (Some v) key =
      (case member_of j k of Inl e \<Rightarrow> Inl e | Inr (JInt n) \<Rightarrow> Inr (word_of_int n) | Inr _ \<Rightarrow> Inl AF_E_JSON_TYPE) \<and>
    af_json_get_bool get (Some v) key =
      (case member_of j k of Inl e \<Rightarrow> Inl e | Inr (JBool b) \<Rightarrow> Inr (if b then 1 else 0) | Inr _ \<Rightarrow> Inl AF_E_JSON_TYPE) \<and>
    map_sum id (\<lambda>r. utf8_decode (wire (fst r))) (af_json_get_string get (Some v) key) =
      (case member_of j k of Inl e \<Rightarrow> Inl e | Inr (JStr t) \<Rightarrow> Inr (Some t) | Inr _ \<Rightarrow> Inl AF_E_JSON_TYPE)"
  using member_agrees [OF assms]
  by (intro conjI) (auto simp: accessors split: sum.splits jnode.splits json.splits)

lemma accessors_read_document_witness:
  "let get = (\<lambda>v key. case v of JN_Object ms \<Rightarrow> map_of ms (c_bytes key) | _ \<Rightarrow> None);
       v = JN_Object [([97], JN_Integer (- 2))];
       j = JObj [([97], JInt (- 2))]
    in af_json_get_integer get (Some v) [97, 0] =
      (case member_of j [97] of Inl e \<Rightarrow> Inl e | Inr (JInt n) \<Rightarrow> Inr (word_of_int n) | Inr _ \<Rightarrow> Inl AF_E_JSON_TYPE) \<and>
    af_json_get_bool get (Some v) [97, 0] =
      (case member_of j [97] of Inl e \<Rightarrow> Inl e | Inr (JBool b) \<Rightarrow> Inr (if b then 1 else 0) | Inr _ \<Rightarrow> Inl AF_E_JSON_TYPE) \<and>
    map_sum id (\<lambda>r. utf8_decode (wire (fst r))) (af_json_get_string get (Some v) [97, 0]) =
      (case member_of j [97] of Inl e \<Rightarrow> Inl e | Inr (JStr t) \<Rightarrow> Inr (Some t) | Inr _ \<Rightarrow> Inl AF_E_JSON_TYPE)"
  unfolding Let_def by (rule accessors_read_document) (simp add: finds_members_def, code_simp, code_simp)

text \<open>
  C32: The two ends of the JSON boundary fit together. What the writer finishes nests at most 32
  levels, and the scan of the reader passes it for every limit its nesting keeps to, and for
  every other limit says that it is too deep.
\<close>

theorem written_documents_scan:
  assumes "realloc_law ra" "af_buf_init n = Inr b" "w = jw_run ra cs (af_jw_init b)" "fst (af_jw_finish w) = AF_OK"
  shows "\<exists>r k. doc_run cs (None, []) = Some (r, []) \<and> k = (case r of None \<Rightarrow> 0 | Some v \<Rightarrow> nesting v) \<and>
    k \<le> AF_JW_MAX_DEPTH \<and>
    af_json_scan_depth (contents (jw_out w)) m = (if k \<le> unat m then AF_OK else Some AF_E_JSON_DEPTH)"
proof -
  have b: "buf_wf b" "contents b = []" using init_wf [OF assms(2)] by simp_all
  note out = run_outcome [OF init_represents [OF assms(1) b(1)], of cs]
  from finish_outcome [OF out] assms(3,4) b(2)
  obtain r where d: "doc_run cs (None, []) = Some (r, [])" and t: "wire (contents (jw_out w)) = utf8_text (root_text r)"
    by auto
  have st: "jw_status w = None" using assms(4) by (cases "jw_status w") (auto simp: af_jw_finish_def)
  then have "buf_wf (jw_out w)" using out assms(3) by (auto simp: outcome_def represents_def ready_def)
  then have l: "length (contents (jw_out w)) < 2 ^ 64" using contents_wf unsigned_less [of "buf_len (jw_out w)"] by simp
  have p: "printable v" if "r = Some v" for v using doc_run_ok [OF d] that by (simp add: doc_ok_def)
  have c: "list_all clean (root_text r)" using p by (simp add: root_text_def clean_text split: option.splits)
  have "af_json_scan_depth (contents (jw_out w)) m = outside (unat m) (root_text r) 0"
    using scan_text [OF l, of "root_text r"] clean_decodes [OF c] t by simp
  moreover have "\<dots> = (if (case r of None \<Rightarrow> 0 | Some v \<Rightarrow> nesting v) \<le> unat m then AF_OK else Some AF_E_JSON_DEPTH)"
    using jw.outside_text p by (simp add: root_text_def split: option.splits)
  moreover have "(case r of None \<Rightarrow> 0 | Some v \<Rightarrow> nesting v) \<le> AF_JW_MAX_DEPTH"
    using doc_run_shallow [OF d] by (simp add: shallow_doc_def split: option.splits)
  ultimately show ?thesis using d by auto
qed

theorem written_documents_scan_witness:
  "let b = \<lparr>buf_data = None, buf_len = 0, buf_cap = 0, buf_max = 64\<rparr>;
       cs = [Begin_Object, Put_Key [98, 0], Begin_Array, Put_Text [123], End_Array, End_Object];
       w = jw_run plain_realloc cs (af_jw_init b)
    in \<exists>r k. doc_run cs (None, []) = Some (r, []) \<and> k = (case r of None \<Rightarrow> 0 | Some v \<Rightarrow> nesting v) \<and>
    k \<le> AF_JW_MAX_DEPTH \<and>
    af_json_scan_depth (contents (jw_out w)) 2 = (if k \<le> unat (2 :: u64) then AF_OK else Some AF_E_JSON_DEPTH)"
  unfolding Let_def
  by (rule written_documents_scan [OF plain_realloc_law _ refl, where n = 64]) (simp add: af_buf_init_def, code_simp)

end
