(* ===== verification/Mcp_Restart.thy ===== *)
theory Mcp_Restart
  imports Checked
begin

text \<open>
  The restart budget of a supervised server: \<open>af_mcp_schedule_restart\<close> and \<open>af_mcp_reset\<close> of
  \<open>src/mcp/mcp_supervisor.asm\<close>. The record has the supervision fields of \<open>af_mcp_child\<close>; the
  configuration of the server and the monotonic clock are arguments. The history is the array of
  100 timestamps, of which the first \<open>mr_restarts\<close> are live.
\<close>

datatype mcp_state =
    S_STOPPED | S_STARTING | S_PROBING | S_READY | S_DEGRADED | S_FAILED | S_RESTARTING | S_CRASH_LOOP | S_DISABLED

record restart_cfg =
  cfg_never :: bool
  cfg_window_ms :: u64
  cfg_max_restarts :: u64
  cfg_backoff_ms :: u64
  cfg_max_backoff_ms :: u64

record mcp_restart =
  mr_state :: mcp_state
  mr_restarts :: u64
  mr_window_start :: u64
  mr_backoff_ms :: u64
  mr_next_start :: u64
  mr_history :: "u64 list"
  mr_scan_cursor :: u64
  mr_pid :: "64 word"
  mr_pgid :: "64 word"
  mr_flags :: u64

definition AF_MCP_RESTART_HISTORY_MAX :: u64 where "AF_MCP_RESTART_HISTORY_MAX = 100"

section \<open>The operations\<close>

text \<open>Compacting the live timestamps from index \<open>i\<close> on to index \<open>k\<close>.\<close>

function compact_from :: "u64 \<Rightarrow> nat \<Rightarrow> nat \<Rightarrow> nat \<Rightarrow> u64 list \<Rightarrow> nat \<times> u64 list" where
  "compact_from cutoff n i k h =
     (if n \<le> i then (k, h)
      else if h ! i < cutoff then compact_from cutoff n (i + 1) k h
      else compact_from cutoff n (i + 1) (k + 1) (h[k := h ! i]))"
  by pat_completeness auto
termination by (relation "measure (\<lambda>(cutoff, n, i, k, h). n - i)") auto

declare compact_from.simps [simp del]

definition crash_loop :: "mcp_restart \<Rightarrow> mcp_restart" where
  "crash_loop r = r\<lparr>mr_state := S_CRASH_LOOP\<rparr>"

text \<open>The inclusive lower bound of the window; none when the window does not fit in nanoseconds.\<close>

definition window_cutoff :: "u64 \<Rightarrow> restart_cfg \<Rightarrow> u64 option" where
  "window_cutoff now cfg =
     (if cfg_window_ms cfg = 0 then Some 0
      else case af_mul_size (cfg_window_ms cfg) NS_PER_MS of
        Inl e \<Rightarrow> None
      | Inr w \<Rightarrow> Some (if now < w then 0 else now - w))"

definition compacted :: "u64 \<Rightarrow> mcp_restart \<Rightarrow> mcp_restart" where
  "compacted cutoff r =
     (case compact_from cutoff (unat (mr_restarts r)) 0 0 (mr_history r) of
        (k, h) \<Rightarrow>
          if k = 0 then r\<lparr>mr_history := h, mr_restarts := 0, mr_window_start := 0, mr_backoff_ms := 0\<rparr>
          else r\<lparr>mr_history := h, mr_restarts := of_nat k, mr_window_start := h ! 0\<rparr>)"

text \<open>
  The next backoff. \<open>stale\<close> is what register \<open>rcx\<close> holds before the bound is loaded: when the
  doubling carries, the code stores it without having loaded the bound.
\<close>

definition next_backoff :: "u64 \<Rightarrow> restart_cfg \<Rightarrow> u64 \<Rightarrow> u64" where
  "next_backoff stale cfg b =
     (if b \<noteq> 0 \<and> add_carry b b then stale
      else
        let x = (if b = 0 then cfg_backoff_ms cfg else b + b)
        in if x \<le> cfg_max_backoff_ms cfg then x else cfg_max_backoff_ms cfg)"

definition restart_deadline :: "u64 \<Rightarrow> u64 \<Rightarrow> u64" where
  "restart_deadline now backoff =
     (case af_mul_size backoff NS_PER_MS of
        Inl e \<Rightarrow> - 1
      | Inr d \<Rightarrow> (case af_add_size now d of Inl e \<Rightarrow> - 1 | Inr t \<Rightarrow> t))"

definition record_restart :: "u64 \<Rightarrow> mcp_restart \<Rightarrow> mcp_restart" where
  "record_restart now r =
     r\<lparr>mr_history := (mr_history r)[unat (mr_restarts r) := now], mr_restarts := mr_restarts r + 1,
       mr_window_start := (if mr_restarts r + 1 = 1 then now else mr_window_start r)\<rparr>"

definition af_mcp_schedule_restart :: "u64 \<Rightarrow> u64 \<Rightarrow> restart_cfg \<Rightarrow> mcp_restart \<Rightarrow> mcp_restart" where
  "af_mcp_schedule_restart stale now cfg r =
     (if cfg_never cfg then r
      else case window_cutoff now cfg of
        None \<Rightarrow> crash_loop r
      | Some cutoff \<Rightarrow>
          if AF_MCP_RESTART_HISTORY_MAX < mr_restarts r then crash_loop r
          else
            let r = compacted cutoff r
            in if cfg_max_restarts cfg = 0 then crash_loop r
               else if AF_MCP_RESTART_HISTORY_MAX < cfg_max_restarts cfg then crash_loop r
               else if cfg_max_restarts cfg \<le> mr_restarts r then crash_loop r
               else
                 let r = record_restart now r; b = next_backoff stale cfg (mr_backoff_ms r)
                 in r\<lparr>mr_backoff_ms := b, mr_next_start := restart_deadline now b, mr_state := S_RESTARTING\<rparr>)"

text \<open>The manual reset. Process identifiers are signed.\<close>

definition RESET_FLAGS :: u64 where
  "RESET_FLAGS = 19980"

definition af_mcp_reset :: "mcp_restart \<Rightarrow> af_status option \<times> mcp_restart" where
  "af_mcp_reset r =
     (if 0 <s mr_pid r \<or> 0 <s mr_pgid r then (Some AF_E_CLOSED, r)
      else if mr_state r \<noteq> S_CRASH_LOOP then (Some AF_E_MCP_NOT_READY, r)
      else (None, r\<lparr>mr_restarts := 0, mr_window_start := 0, mr_backoff_ms := 0, mr_next_start := 0,
        mr_history := replicate (unat AF_MCP_RESTART_HISTORY_MAX) 0, mr_scan_cursor := 0,
        mr_flags := and (mr_flags r) (not RESET_FLAGS), mr_state := S_RESTARTING\<rparr>))"

section \<open>The history\<close>

lemma compact_from_filter:
  assumes "k \<le> i" "n \<le> length h"
  shows "compact_from cutoff n i k h = (k', h') \<Longrightarrow> length h' = length h \<and>
    take k' h' = take k h @ filter (\<lambda>t. cutoff \<le> t) (drop i (take n h)) \<and> k' = k + length (filter (\<lambda>t. cutoff \<le> t) (drop i (take n h)))"
  using assms
proof (induction cutoff n i k h rule: compact_from.induct)
  case (1 cutoff n i k h)
  show ?case
  proof (cases "n \<le> i")
    case True
    with "1.prems" show ?thesis by (simp add: compact_from.simps [of cutoff n i k h])
  next
    case False
    then have "i < length (take n h)" using "1.prems" by simp
    from Cons_nth_drop_Suc [OF this] False have d: "drop i (take n h) = h ! i # drop (i + 1) (take n h)" by simp
    show ?thesis
    proof (cases "h ! i < cutoff")
      case True
      with False "1.prems" have e: "compact_from cutoff n (i + 1) k h = (k', h')" by (simp add: compact_from.simps [of cutoff n i k h])
      from "1.IH"(1) [OF False True e] "1.prems" True d show ?thesis by auto
    next
      case keep: False
      let ?h = "h[k := h ! i]"
      have "take (k + 1) ?h = take k h @ [h ! i]"
        using "1.prems" False by (simp add: take_Suc_conv_app_nth)
      moreover have "drop (i + 1) (take n ?h) = drop (i + 1) (take n h)"
        using "1.prems" False by (intro nth_equalityI) auto
      moreover have e: "compact_from cutoff n (i + 1) (k + 1) ?h = (k', h')"
        using False keep "1.prems" by (simp add: compact_from.simps [of cutoff n i k h])
      ultimately show ?thesis using "1.IH"(2) [OF False keep e] "1.prems" keep d by auto
    qed
  qed
qed

section \<open>What one call does\<close>

text \<open>The live timestamps, and a record whose array has its 100 entries.\<close>

definition live_restarts :: "mcp_restart \<Rightarrow> u64 list" where
  "live_restarts r = take (unat (mr_restarts r)) (mr_history r)"

definition restart_wf :: "mcp_restart \<Rightarrow> bool" where
  "restart_wf r \<longleftrightarrow> length (mr_history r) = 100 \<and> mr_restarts r \<le> AF_MCP_RESTART_HISTORY_MAX"

lemma restart_wf_nat: "restart_wf r \<Longrightarrow> unat (mr_restarts r) \<le> 100 \<and> length (mr_history r) = 100"
  by (simp add: restart_wf_def AF_MCP_RESTART_HISTORY_MAX_def word_le_nat_alt)

lemma live_length: "restart_wf r \<Longrightarrow> length (live_restarts r) = unat (mr_restarts r)"
  using restart_wf_nat [of r] by (simp add: live_restarts_def)

lemma compacted_live:
  assumes "restart_wf r"
  shows "restart_wf (compacted c r) \<and> live_restarts (compacted c r) = filter (\<lambda>t. c \<le> t) (live_restarts r)"
proof -
  obtain k h where e: "compact_from c (unat (mr_restarts r)) 0 0 (mr_history r) = (k, h)" by force
  note n = restart_wf_nat [OF assms]
  have h: "length h = 100" "take k h = filter (\<lambda>t. c \<le> t) (live_restarts r)" "k = length (filter (\<lambda>t. c \<le> t) (live_restarts r))"
    using compact_from_filter [OF _ _ e] n by (auto simp: live_restarts_def)
  then have "k \<le> 100" using n length_filter_le [of "\<lambda>t. c \<le> t" "live_restarts r"] live_length [OF assms] by simp
  then have "unat (of_nat k :: u64) = k" by (simp add: unat_of_nat take_bit_nat_eq_self)
  with e h \<open>k \<le> 100\<close> show ?thesis
    by (auto simp: compacted_def restart_wf_def live_restarts_def AF_MCP_RESTART_HISTORY_MAX_def word_le_nat_alt)
qed

lemma compacted_backoff:
  assumes "restart_wf r"
  shows "mr_backoff_ms (compacted c r) = (if filter (\<lambda>t. c \<le> t) (live_restarts r) = [] then 0 else mr_backoff_ms r)"
proof -
  obtain k h where e: "compact_from c (unat (mr_restarts r)) 0 0 (mr_history r) = (k, h)" by force
  have "k = length (filter (\<lambda>t. c \<le> t) (live_restarts r))"
    using compact_from_filter [OF _ _ e] restart_wf_nat [OF assms] by (simp add: live_restarts_def)
  with e show ?thesis by (simp add: compacted_def)
qed

lemma record_restart_live:
  assumes "restart_wf r" "mr_restarts r < AF_MCP_RESTART_HISTORY_MAX"
  shows "restart_wf (record_restart now r) \<and> live_restarts (record_restart now r) = live_restarts r @ [now]"
proof -
  have n: "unat (mr_restarts r) < 100" "length (mr_history r) = 100"
    using assms restart_wf_nat [of r] by (simp_all add: AF_MCP_RESTART_HISTORY_MAX_def word_less_nat_alt)
  then have "unat (mr_restarts r + 1) = Suc (unat (mr_restarts r))" by (simp add: unat_word_ariths)
  with n show ?thesis
    by (simp add: restart_wf_def live_restarts_def record_restart_def AF_MCP_RESTART_HISTORY_MAX_def word_le_nat_alt
        take_Suc_conv_app_nth)
qed

text \<open>The restarts still counted at \<open>now\<close>, and whether the budget has room for one more.\<close>

definition recent_restarts :: "u64 \<Rightarrow> mcp_restart \<Rightarrow> u64 list" where
  "recent_restarts cutoff r = filter (\<lambda>t. cutoff \<le> t) (live_restarts r)"

definition budget_left :: "restart_cfg \<Rightarrow> nat \<Rightarrow> bool" where
  "budget_left cfg n \<longleftrightarrow> n < unat (cfg_max_restarts cfg) \<and> cfg_max_restarts cfg \<le> AF_MCP_RESTART_HISTORY_MAX"

lemma record_restart_fields [simp]: "mr_backoff_ms (record_restart now r) = mr_backoff_ms r"
  by (simp add: record_restart_def)

lemma live_restarts_cong [simp]: "live_restarts (r\<lparr>mr_backoff_ms := b\<rparr>) = live_restarts r"
  "live_restarts (r\<lparr>mr_next_start := d\<rparr>) = live_restarts r" "live_restarts (r\<lparr>mr_state := s\<rparr>) = live_restarts r"
  "restart_wf (r\<lparr>mr_backoff_ms := b\<rparr>) = restart_wf r" "restart_wf (r\<lparr>mr_next_start := d\<rparr>) = restart_wf r"
  "restart_wf (r\<lparr>mr_state := s\<rparr>) = restart_wf r"
  by (simp_all add: live_restarts_def restart_wf_def)

lemma schedule_cases:
  assumes "restart_wf r" "\<not> cfg_never cfg" "window_cutoff now cfg = Some c"
  shows "af_mcp_schedule_restart stale now cfg r =
    (if budget_left cfg (length (recent_restarts c r))
     then let q = record_restart now (compacted c r); b = next_backoff stale cfg (mr_backoff_ms (compacted c r))
          in q\<lparr>mr_backoff_ms := b, mr_next_start := restart_deadline now b, mr_state := S_RESTARTING\<rparr>
     else crash_loop (compacted c r))"
proof -
  have "\<not> AF_MCP_RESTART_HISTORY_MAX < mr_restarts r" using assms(1) by (simp add: restart_wf_def not_less)
  moreover have "length (recent_restarts c r) = unat (mr_restarts (compacted c r))"
    using compacted_live [OF assms(1), of c] live_length [of "compacted c r"] by (simp add: recent_restarts_def)
  ultimately show ?thesis using assms(2,3)
    by (auto simp: af_mcp_schedule_restart_def budget_left_def Let_def word_le_nat_alt word_less_nat_alt)
qed

lemma schedule_live:
  fixes stale :: u64
  assumes "restart_wf r" "\<not> cfg_never cfg" "window_cutoff now cfg = Some c"
  defines "q \<equiv> af_mcp_schedule_restart stale now cfg r" and "n \<equiv> length (recent_restarts c r)"
  shows "restart_wf q \<and> live_restarts q = recent_restarts c r @ (if budget_left cfg n then [now] else []) \<and>
    mr_state q = (if budget_left cfg n then S_RESTARTING else S_CRASH_LOOP)"
proof (cases "budget_left cfg n")
  case True
  have c: "restart_wf (compacted c r)" "live_restarts (compacted c r) = recent_restarts c r"
    using compacted_live [OF assms(1), of c] by (simp_all add: recent_restarts_def)
  moreover have "mr_restarts (compacted c r) < AF_MCP_RESTART_HISTORY_MAX"
    using True live_length [OF c(1)] c(2) by (auto simp: budget_left_def n_def word_le_nat_alt word_less_nat_alt)
  ultimately show ?thesis
    using True record_restart_live [of "compacted c r" now] schedule_cases [OF assms(1-3), of stale]
    by (simp add: q_def n_def Let_def)
next
  case False
  then show ?thesis using compacted_live [OF assms(1), of c] schedule_cases [OF assms(1-3), of stale]
    by (simp add: q_def n_def crash_loop_def recent_restarts_def)
qed

lemma schedule_refused:
  assumes "cfg_never cfg \<or> window_cutoff now cfg = None"
  shows "live_restarts (af_mcp_schedule_restart stale now cfg r) = live_restarts r \<and>
    (mr_state (af_mcp_schedule_restart stale now cfg r) = S_RESTARTING \<longrightarrow> mr_state r = S_RESTARTING) \<and>
    restart_wf (af_mcp_schedule_restart stale now cfg r) = restart_wf r"
  using assms by (cases "cfg_never cfg") (simp_all add: af_mcp_schedule_restart_def crash_loop_def)

section \<open>Backoff and deadline\<close>

lemma next_backoff_min:
  assumes "uint (cfg_max_backoff_ms cfg) < 2 ^ 63" "uint b \<le> uint (cfg_max_backoff_ms cfg)"
  shows "uint (next_backoff stale cfg b) =
    min (if b = 0 then uint (cfg_backoff_ms cfg) else 2 * uint b) (uint (cfg_max_backoff_ms cfg))"
proof -
  have "\<not> add_carry b b" using assms by (simp add: add_carry_def)
  moreover from this have "uint (b + b) = uint b + uint b" by (rule uint_add_no_carry)
  ultimately show ?thesis by (auto simp: next_backoff_def Let_def word_le_def min_def)
qed

lemma uint_max_u64: "uint (- 1 :: u64) = 18446744073709551615"
  by (simp add: unsigned_minus_1_eq_mask mask_eq_exp_minus_1)

lemma restart_deadline_exact:
  "uint (restart_deadline now b) = min (uint now + uint b * 1000000) (2 ^ 64 - 1)"
proof (cases "uint b * 1000000 < 2 ^ 64")
  case False
  then have "mul_high b NS_PER_MS \<noteq> 0" by (simp add: mul_high_zero NS_PER_MS_def)
  moreover have "2 ^ 64 - 1 \<le> uint now + uint b * 1000000" using False uint_u64_bounds(1) [of now] by linarith
  ultimately show ?thesis by (simp add: restart_deadline_def af_mul_size_def uint_max_u64 min_absorb2)
next
  case True
  then have h: "mul_high b NS_PER_MS = 0" by (simp add: mul_high_zero NS_PER_MS_def)
  from True have m: "uint (b * NS_PER_MS) = uint b * 1000000" by (simp add: uint_word_ariths NS_PER_MS_def)
  show ?thesis
  proof (cases "add_carry now (b * NS_PER_MS)")
    case True
    with h m show ?thesis by (simp add: restart_deadline_def af_mul_size_def af_add_size_def add_carry_def uint_max_u64 min_def)
  next
    case False
    with h m show ?thesis
      by (simp add: restart_deadline_def af_mul_size_def af_add_size_def uint_add_no_carry) (simp add: add_carry_def min_def)
  qed
qed

section \<open>The budget over a run\<close>

text \<open>
  A server that fails again and again: each entry is a failure, with the clock of the call and the
  register the doubling may leak. The result lists the times of the restarts that were granted.
\<close>

fun granted_restarts :: "restart_cfg \<Rightarrow> (u64 \<times> u64) list \<Rightarrow> mcp_restart \<Rightarrow> u64 list" where
  "granted_restarts cfg [] r = []"
| "granted_restarts cfg ((stale, now) # fails) r =
     (let q = af_mcp_schedule_restart stale now cfg (r\<lparr>mr_state := S_FAILED\<rparr>)
      in (if mr_state q = S_RESTARTING then [now] else []) @ granted_restarts cfg fails q)"

text \<open>How many of the times lie in the configured window that opens at \<open>lo\<close>.\<close>

definition in_window :: "restart_cfg \<Rightarrow> u64 \<Rightarrow> u64 list \<Rightarrow> u64 list" where
  "in_window cfg lo ts = filter (\<lambda>t. uint lo \<le> uint t \<and> uint t \<le> uint lo + uint (cfg_window_ms cfg) * 1000000) ts"

lemma window_cutoff_some:
  assumes "window_cutoff now cfg = Some c"
  shows "uint c = (if cfg_window_ms cfg = 0 then 0 else max 0 (uint now - uint (cfg_window_ms cfg) * 1000000))"
proof (cases "cfg_window_ms cfg = 0")
  case False
  let ?w = "cfg_window_ms cfg * NS_PER_MS"
  from False assms have h: "mul_high (cfg_window_ms cfg) NS_PER_MS = 0" and c: "c = (if now < ?w then 0 else now - ?w)"
    by (auto simp: window_cutoff_def af_mul_size_def split: if_splits)
  from h have w: "uint ?w = uint (cfg_window_ms cfg) * 1000000"
    by (simp add: mul_high_zero NS_PER_MS_def uint_word_ariths)
  show ?thesis
  proof (cases "now < ?w")
    case True
    with c w False show ?thesis by (simp add: word_less_def)
  next
    case le: False
    then have "\<not> sub_carry now ?w" by (simp add: sub_carry_def word_less_def)
    from uint_sub_no_carry [OF this] le c w False show ?thesis by (simp add: word_less_def)
  qed
qed (use assms in \<open>simp add: window_cutoff_def\<close>)

lemma cutoff_mono:
  assumes "window_cutoff t cfg = Some a" "window_cutoff u cfg = Some b" "t \<le> u"
  shows "a \<le> b"
  using window_cutoff_some [OF assms(1)] window_cutoff_some [OF assms(2)] assms(3) by (auto simp: word_le_def)

lemma in_window_le_recent:
  assumes "window_cutoff now cfg = Some c" "uint now \<le> uint lo + uint (cfg_window_ms cfg) * 1000000"
  shows "length (in_window cfg lo ts) \<le> length (filter (\<lambda>t. c \<le> t) ts)"
proof -
  have "uint c \<le> uint lo" using window_cutoff_some [OF assms(1)] assms(2) uint_u64_bounds(1) [of lo] by auto
  then have "in_window cfg lo ts = in_window cfg lo (filter (\<lambda>t. c \<le> t) ts)"
    by (auto simp: in_window_def word_le_def intro!: filter_cong)
  also have "length \<dots> \<le> length (filter (\<lambda>t. c \<le> t) ts)" unfolding in_window_def by (rule length_filter_le)
  finally show ?thesis by simp
qed

lemma in_window_snoc:
  "in_window cfg lo (ts @ [t]) =
    in_window cfg lo ts @ (if uint lo \<le> uint t \<and> uint t \<le> uint lo + uint (cfg_window_ms cfg) * 1000000 then [t] else [])"
  by (simp add: in_window_def)

text \<open>
  What a run keeps: the live timestamps are those of the granted restarts \<open>ts\<close> from some bound
  on that later windows do not reach below, and every window so far is within the budget.
\<close>

definition budget_inv :: "restart_cfg \<Rightarrow> u64 \<Rightarrow> u64 list \<Rightarrow> mcp_restart \<Rightarrow> bool" where
  "budget_inv cfg now ts r \<longleftrightarrow> restart_wf r \<and>
     (\<exists>c. live_restarts r = filter (\<lambda>t. c \<le> t) ts \<and> (\<forall>t k. now \<le> t \<longrightarrow> window_cutoff t cfg = Some k \<longrightarrow> c \<le> k)) \<and>
     (\<forall>lo. length (in_window cfg lo ts) \<le> unat (cfg_max_restarts cfg))"

lemma budget_inv_later: "budget_inv cfg now ts r \<Longrightarrow> now \<le> t \<Longrightarrow> budget_inv cfg t ts r"
  unfolding budget_inv_def by (meson order_trans)

lemma budget_inv_state [simp]: "budget_inv cfg now ts (r\<lparr>mr_state := s\<rparr>) = budget_inv cfg now ts r"
  by (simp add: budget_inv_def)

lemma budget_step:
  fixes stale :: u64
  assumes "budget_inv cfg now ts r" "mr_state r \<noteq> S_RESTARTING"
  defines "q \<equiv> af_mcp_schedule_restart stale now cfg r"
  shows "budget_inv cfg now (ts @ (if mr_state q = S_RESTARTING then [now] else [])) q"
proof (cases "cfg_never cfg \<or> window_cutoff now cfg = None")
  case True
  from schedule_refused [OF this, of stale r] assms show ?thesis by (auto simp: budget_inv_def)
next
  case False
  then obtain c where c: "\<not> cfg_never cfg" "window_cutoff now cfg = Some c" by auto
  from assms(1) obtain k where wf: "restart_wf r" and k: "live_restarts r = filter (\<lambda>t. k \<le> t) ts" "k \<le> c"
    and w: "\<And>lo. length (in_window cfg lo ts) \<le> unat (cfg_max_restarts cfg)"
    unfolding budget_inv_def using c(2) by blast
  have rec: "recent_restarts c r = filter (\<lambda>t. c \<le> t) ts"
    using k by (auto simp: recent_restarts_def intro!: filter_cong)
  have "c \<le> now" using window_cutoff_some [OF c(2)] by (auto simp: word_le_def split: if_splits)
  have later: "\<forall>t k. now \<le> t \<longrightarrow> window_cutoff t cfg = Some k \<longrightarrow> c \<le> k" using cutoff_mono [OF c(2)] by blast
  note live = schedule_live [OF wf c, of stale, folded q_def, unfolded rec]
  show ?thesis
  proof (cases "budget_left cfg (length (filter (\<lambda>t. c \<le> t) ts))")
    case True
    have "length (in_window cfg lo (ts @ [now])) \<le> unat (cfg_max_restarts cfg)" for lo
    proof (cases "uint lo \<le> uint now \<and> uint now \<le> uint lo + uint (cfg_window_ms cfg) * 1000000")
      case win: True
      with in_window_le_recent [OF c(2), of lo ts] True show ?thesis by (simp add: in_window_snoc budget_left_def)
    next
      case False
      with w [of lo] show ?thesis by (auto simp: in_window_snoc)
    qed
    moreover have "live_restarts q = filter (\<lambda>t. c \<le> t) (ts @ [now])" using live True \<open>c \<le> now\<close> by simp
    moreover have "mr_state q = S_RESTARTING" "restart_wf q" using live True by simp_all
    ultimately show ?thesis unfolding budget_inv_def using later by (simp del: filter_append) blast
  next
    case False
    with live w later show ?thesis unfolding budget_inv_def by auto
  qed
qed

lemma budget_run:
  "budget_inv cfg now ts r \<Longrightarrow> sorted (now # map snd fails) \<Longrightarrow>
   length (in_window cfg lo (ts @ granted_restarts cfg fails r)) \<le> unat (cfg_max_restarts cfg)"
proof (induction fails arbitrary: now ts r)
  case Nil
  then show ?case by (simp add: budget_inv_def)
next
  case (Cons f fails)
  obtain stale t where f: "f = (stale, t)" by force
  let ?q = "af_mcp_schedule_restart stale t cfg (r\<lparr>mr_state := S_FAILED\<rparr>)"
  have "budget_inv cfg t ts (r\<lparr>mr_state := S_FAILED\<rparr>)" using Cons.prems f by (auto intro: budget_inv_later)
  then have "budget_inv cfg t (ts @ (if mr_state ?q = S_RESTARTING then [t] else [])) ?q" by (rule budget_step) simp
  moreover have "sorted (t # map snd fails)" using Cons.prems(2) f by simp
  ultimately show ?case using Cons.IH [of t "ts @ (if mr_state ?q = S_RESTARTING then [t] else [])" ?q]
    by (simp add: f Let_def split del: if_split)
qed

section \<open>Properties\<close>

lemma fresh_budget:
  assumes "length (mr_history r) = 100" "mr_restarts r = 0"
  shows "budget_inv cfg 0 [] r"
proof -
  have "live_restarts r = filter (\<lambda>t. (0 :: u64) \<le> t) []" using assms(2) by (simp add: live_restarts_def)
  moreover have "restart_wf r" using assms by (simp add: restart_wf_def)
  moreover have "\<forall>t k. 0 \<le> t \<longrightarrow> window_cutoff t cfg = Some k \<longrightarrow> (0 :: u64) \<le> k" by simp
  moreover have "length (in_window cfg lo []) \<le> unat (cfg_max_restarts cfg)" for lo by (simp add: in_window_def)
  ultimately show ?thesis unfolding budget_inv_def by blast
qed

text \<open>
  C10: A server cannot be restarted more often than its budget, whatever the failures: starting from
  an empty history, over any sequence of failures with a clock that does not run backwards, every
  closed interval of the length of the configured window contains at most \<open>max_restarts\<close> granted
  restarts, wherever the interval begins and even though the history forgets the timestamps that
  leave it. It holds for every configuration, with a window of zero or one too long for 64 bits.
\<close>

theorem restarts_within_budget:
  assumes "length (mr_history r) = 100" "mr_restarts r = 0" "sorted (map snd fails)"
  shows "length (in_window cfg lo (granted_restarts cfg fails r)) \<le> unat (cfg_max_restarts cfg)"
proof -
  have "sorted (0 # map snd fails)" using assms(3) by simp
  from budget_run [OF fresh_budget [OF assms(1,2)] this, of cfg lo] show ?thesis by simp
qed

definition demo_child :: mcp_restart where
  "demo_child = \<lparr>mr_state = S_READY, mr_restarts = 0, mr_window_start = 0, mr_backoff_ms = 0, mr_next_start = 0,
     mr_history = replicate 100 0, mr_scan_cursor = 0, mr_pid = 0, mr_pgid = 0, mr_flags = 0\<rparr>"

definition demo_cfg :: restart_cfg where
  "demo_cfg = \<lparr>cfg_never = False, cfg_window_ms = 1, cfg_max_restarts = 2, cfg_backoff_ms = 5, cfg_max_backoff_ms = 8\<rparr>"

lemma demo_restarts: "granted_restarts demo_cfg [(0, 10), (0, 20), (0, 30), (0, 2000000)] demo_child = [10, 20, 2000000]"
  by code_simp

theorem restarts_within_budget_witness:
  "length (in_window demo_cfg 0 (granted_restarts demo_cfg [(0, 10), (0, 20), (0, 30), (0, 2000000)] demo_child)) \<le> 2 \<and>
   granted_restarts demo_cfg [(0, 10), (0, 20), (0, 30), (0, 2000000)] demo_child = [10, 20, 2000000]"
  using restarts_within_budget [of demo_child "[(0, 10), (0, 20), (0, 30), (0, 2000000)]" demo_cfg 0] demo_restarts
  by (simp add: demo_child_def demo_cfg_def)

text \<open>
  C27: The decision and its consequences, on every branch: a failure is answered with a crash loop
  exactly when the restarts inside the window have used the budget (or the budget itself is above
  what the history holds). Otherwise the failure is recorded, the server is restarted with the base
  backoff when the window was empty and twice the previous one otherwise, never above the configured
  maximum, at the time now plus the backoff, which saturates instead of wrapping into the past; what
  the doubling leaves in its register does not matter. The timestamps inside the window are kept.
\<close>

theorem restart_policy:
  fixes stale :: u64
  assumes "restart_wf r" "\<not> cfg_never cfg" "window_cutoff now cfg = Some c"
    "uint (cfg_max_backoff_ms cfg) < 2 ^ 63" "uint (mr_backoff_ms r) \<le> uint (cfg_max_backoff_ms cfg)"
  defines "q \<equiv> af_mcp_schedule_restart stale now cfg r"
    and "kept \<equiv> filter (\<lambda>t. c \<le> t) (live_restarts r)"
  shows "if length kept < unat (cfg_max_restarts cfg) \<and> unat (cfg_max_restarts cfg) \<le> 100
    then mr_state q = S_RESTARTING \<and> live_restarts q = kept @ [now] \<and>
      uint (mr_backoff_ms q) = min (if kept = [] \<or> mr_backoff_ms r = 0 then uint (cfg_backoff_ms cfg)
        else 2 * uint (mr_backoff_ms r)) (uint (cfg_max_backoff_ms cfg)) \<and>
      uint (mr_next_start q) = min (uint now + uint (mr_backoff_ms q) * 1000000) (2 ^ 64 - 1)
    else mr_state q = S_CRASH_LOOP \<and> live_restarts q = kept"
proof -
  have b: "budget_left cfg (length kept) \<longleftrightarrow> length kept < unat (cfg_max_restarts cfg) \<and> unat (cfg_max_restarts cfg) \<le> 100"
    by (simp add: budget_left_def AF_MCP_RESTART_HISTORY_MAX_def word_le_nat_alt)
  have k: "recent_restarts c r = kept" by (simp add: recent_restarts_def kept_def)
  have e: "mr_backoff_ms (compacted c r) = (if kept = [] then 0 else mr_backoff_ms r)"
    using compacted_backoff [OF assms(1), of c] by (simp add: kept_def)
  note live = schedule_live [OF assms(1-3), of stale, folded q_def, unfolded k b]
  have "uint (mr_backoff_ms (compacted c r)) \<le> uint (cfg_max_backoff_ms cfg)" using assms(5) uint_u64_bounds e by simp
  note backoff = next_backoff_min [OF assms(4) this, of stale, unfolded e]
  note q = schedule_cases [OF assms(1-3), of stale, folded q_def, unfolded k b]
  show ?thesis
  proof (cases "length kept < unat (cfg_max_restarts cfg) \<and> unat (cfg_max_restarts cfg) \<le> 100")
    case True
    let ?b = "next_backoff stale cfg (mr_backoff_ms (compacted c r))"
    have "mr_backoff_ms q = ?b" "mr_next_start q = restart_deadline now ?b" using q True by (simp_all add: Let_def)
    moreover have "uint ?b = min (if kept = [] \<or> mr_backoff_ms r = 0 then uint (cfg_backoff_ms cfg)
        else 2 * uint (mr_backoff_ms r)) (uint (cfg_max_backoff_ms cfg))" using backoff e by auto
    ultimately show ?thesis using live True by (simp add: restart_deadline_exact)
  next
    case False
    with live show ?thesis by (simp split: if_splits)
  qed
qed

theorem restart_policy_witness:
  "mr_next_start (af_mcp_schedule_restart 77 10 demo_cfg demo_child) = 5000010 \<and>
   mr_state (af_mcp_schedule_restart 77 10 demo_cfg demo_child) = S_RESTARTING"
proof -
  have "restart_wf demo_child" "window_cutoff 10 demo_cfg = Some 0"
    "live_restarts demo_child = []" by code_simp+
  with restart_policy [of demo_child demo_cfg 10 0 77]
  have "mr_state (af_mcp_schedule_restart 77 10 demo_cfg demo_child) = S_RESTARTING"
    and "uint (mr_next_start (af_mcp_schedule_restart 77 10 demo_cfg demo_child)) = 5000010"
    by (simp_all add: demo_cfg_def demo_child_def)
  then show ?thesis by (simp add: word_uint_eq_iff)
qed

end
