(* ===== verification/Mcp_Frame.thy ===== *)
theory Mcp_Frame
  imports Http_Outbox Control_Frame
begin

text \<open>
  The pipes of a supervised server, \<open>src/mcp/mcp_frame.asm\<close>: the lines of the protocol pipe, the
  tail that is kept of its standard error, and the queue of messages to it. The record has the
  fields of \<open>af_mcp_child\<close> the file reads or writes, a flag bit each as a truth value.

  The message layer \<open>af_mcp_on_message\<close> is an argument, a function of the line and of the rest of
  the child, which shares no field with the record. What the kernel answers to \<open>read\<close> and \<open>write\<close>
  is an argument too; \<open>mc_sent\<close> records the bytes the kernel has taken.
\<close>

datatype read_reply = Got "u8 list" | ReadFailed af_status

record mcp_child =
  mc_stdin_fd :: u64
  mc_stdout_fd :: u64
  mc_stderr_fd :: u64
  mc_inbox :: af_buffer
  mc_scan_cursor :: u64
  mc_frame_max :: u64
  mc_discarding :: bool
  mc_oversized :: u64
  mc_frames_in :: u64
  mc_errline :: af_buffer
  mc_errlog :: af_buffer
  mc_stderr_max :: u64
  mc_err_truncated :: bool
  mc_stderr_bytes :: u64
  mc_stderr_trunc :: u64
  mc_stdin_open :: bool
  mc_outbox :: af_buffer
  mc_out_cursor :: u64
  mc_frames_out :: u64
  mc_sent :: "u8 list"

type_synonym 'h on_message = "u8 list \<Rightarrow> 'h \<Rightarrow> af_status option \<times> 'h"

definition AF_MCP_READ_CHUNK :: nat where "AF_MCP_READ_CHUNK = 65536"
definition AF_MCP_STDERR_KEEP :: u64 where "AF_MCP_STDERR_KEEP = 64 * 1024"

section \<open>The protocol pipe\<close>

text \<open>Dropping the line that ends at \<open>k\<close>, with its terminator.\<close>

definition consume_through :: "nat \<Rightarrow> mcp_child \<Rightarrow> af_status option \<times> mcp_child" where
  "consume_through k c =
     (case af_buf_consume (mc_inbox c) (of_nat k + 1) of (st, b) \<Rightarrow> (st, c\<lparr>mc_inbox := b\<rparr>))"

definition incomplete_line :: "mcp_child \<Rightarrow> af_status option \<times> mcp_child" where
  "incomplete_line c =
     (if mc_frame_max c \<noteq> 0 \<and> mc_frame_max c < buf_len (mc_inbox c)
      then (Some AF_E_MCP_PROTOCOL,
        c\<lparr>mc_oversized := mc_oversized c + 1, mc_inbox := af_buf_clear (mc_inbox c), mc_scan_cursor := 0\<rparr>)
      else (AF_OK, c\<lparr>mc_scan_cursor := buf_len (mc_inbox c)\<rparr>))"

text \<open>One line: whether it is handed on, and the child before it is dropped.\<close>

definition deliver_line ::
  "'h on_message \<Rightarrow> nat \<Rightarrow> 'h \<Rightarrow> mcp_child \<Rightarrow> af_status option \<times> 'h \<times> mcp_child" where
  "deliver_line on_message k h c =
     (let s = contents (mc_inbox c)
      in if mc_discarding c then (AF_OK, h, c\<lparr>mc_discarding := False\<rparr>)
         else
           let n = (if k = 0 then k else if s ! (k - 1) \<noteq> 13 then k else k - 1)
           in if mc_frame_max c \<noteq> 0 \<and> mc_frame_max c < of_nat n
              then (Some AF_E_MCP_PROTOCOL, h, c\<lparr>mc_oversized := mc_oversized c + 1\<rparr>)
              else case on_message (take n s) h of
                (st, h') \<Rightarrow> (st, h', c\<lparr>mc_frames_in := mc_frames_in c + 1\<rparr>))"

lemma deliver_inbox: "deliver_line om k h c = (st, h', c') \<Longrightarrow> mc_inbox c' = mc_inbox c"
  by (auto simp: deliver_line_def Let_def split: if_splits prod.splits)

lemma newline_consumes:
  assumes "newline_at (contents b) i = Some k" "af_buf_consume b (of_nat k + 1) = (None, b')"
  shows "unat (buf_len b') < unat (buf_len b)"
proof -
  have k: "k < length (contents b)" using assms(1) by (simp add: newline_at_Some)
  then have l: "k < unat (buf_len b)" by (auto simp: contents_def split: option.splits)
  then have n: "unat (of_nat k + 1 :: u64) = k + 1"
    using unat_u64_bound [of "buf_len b"] by (simp add: unat_word_ariths unat_of_nat)
  have "buf_len b' = (if of_nat k + 1 = buf_len b then 0 else buf_len b - (of_nat k + 1))" "of_nat k + 1 \<le> buf_len b"
    using assms(2) by (auto simp: af_buf_consume_def split: if_splits)
  then show ?thesis using l n by (auto simp: unat_sub)
qed

function af_mcp_frame_lines :: "'h on_message \<Rightarrow> 'h \<Rightarrow> mcp_child \<Rightarrow> af_status option \<times> 'h \<times> mcp_child" where
  "af_mcp_frame_lines om h c =
     (if buf_len (mc_inbox c) = 0 then (AF_OK, h, c\<lparr>mc_scan_cursor := 0\<rparr>)
      else if buf_data (mc_inbox c) = None then (AF_OK, h, c)
      else
        case newline_at (contents (mc_inbox c))
            (unat (if buf_len (mc_inbox c) < mc_scan_cursor c then 0 else mc_scan_cursor c)) of
          None \<Rightarrow> (case incomplete_line c of (st, c') \<Rightarrow> (st, h, c'))
        | Some k \<Rightarrow>
            (case deliver_line om k h (c\<lparr>mc_scan_cursor := 0\<rparr>) of
               (Some e, h', c') \<Rightarrow> (Some e, h', snd (consume_through k c'))
             | (None, h', c') \<Rightarrow>
                 (case consume_through k c' of
                    (Some e, c'') \<Rightarrow> (Some e, h', c'')
                  | (None, c'') \<Rightarrow> af_mcp_frame_lines om h' c'')))"
  by pat_completeness auto
termination
  by (relation "measure (\<lambda>(om, h, c). unat (buf_len (mc_inbox c)))")
    (auto simp: consume_through_def dest!: deliver_inbox [OF sym] newline_consumes split: prod.splits)

declare af_mcp_frame_lines.simps [simp del]

definition af_mcp_read_stdout ::
  "allocator \<Rightarrow> 'h on_message \<Rightarrow> read_reply \<Rightarrow> 'h \<Rightarrow> mcp_child \<Rightarrow> af_status option \<times> 'h \<times> mcp_child" where
  "af_mcp_read_stdout ra om reply h c =
     (if sint (mc_stdout_fd c) < 0 then (Some AF_E_INVALID, h, c)
      else case reply of
        ReadFailed e \<Rightarrow> (if e = AF_E_AGAIN then AF_OK else Some e, h, c)
      | Got p \<Rightarrow>
          if p = [] then (Some AF_E_EOF, h, c)
          else (case af_buf_append ra (mc_inbox c) (Some p) (of_nat (length p)) of
              (Some e, b) \<Rightarrow> (Some e, h, c\<lparr>mc_inbox := b\<rparr>)
            | (None, b) \<Rightarrow> af_mcp_frame_lines om h (c\<lparr>mc_inbox := b\<rparr>)))"

section \<open>The error pipe\<close>

text \<open>The bytes to keep of the line and how much of the old tail goes.\<close>

definition flush_plan :: "mcp_child \<Rightarrow> u8 list \<times> u64" where
  "flush_plan c =
     (let n = buf_len (mc_errline c); line = contents (mc_errline c); old = buf_len (mc_errlog c)
      in if AF_MCP_STDERR_KEEP \<le> n then (drop (unat (n - (AF_MCP_STDERR_KEEP - 1))) line, old)
         else let room = AF_MCP_STDERR_KEEP - 1 - n in (line, if old \<le> room then 0 else old - room))"

definition keep_line :: "allocator \<Rightarrow> u8 list \<times> u64 \<Rightarrow> af_buffer \<Rightarrow> af_buffer" where
  "keep_line ra plan b =
     (case plan of (line, drop_old) \<Rightarrow>
        (case (if drop_old = 0 then (AF_OK, b) else af_buf_consume b drop_old) of
           (Some e, b') \<Rightarrow> b'
         | (None, b') \<Rightarrow>
             (case af_buf_append ra b' (Some line) (of_nat (length line)) of
                (Some e, b'') \<Rightarrow> b''
              | (None, b'') \<Rightarrow> snd (af_buf_append ra b'' (Some [10]) 1))))"

definition af_mcp_flush_errline :: "allocator \<Rightarrow> mcp_child \<Rightarrow> mcp_child" where
  "af_mcp_flush_errline ra c =
     (if buf_len (mc_errline c) = 0 then c\<lparr>mc_err_truncated := False\<rparr>
      else c\<lparr>mc_err_truncated := False,
        mc_errlog := (if buf_data (mc_errline c) = None then mc_errlog c else keep_line ra (flush_plan c) (mc_errlog c)),
        mc_errline := af_buf_clear (mc_errline c)\<rparr>)"

text \<open>A byte of a line that is not over; a line past the ceiling is counted once.\<close>

definition errline_byte :: "allocator \<Rightarrow> u64 \<Rightarrow> u8 \<Rightarrow> mcp_child \<Rightarrow> mcp_child" where
  "errline_byte ra ceiling x c =
     (if mc_err_truncated c then c
      else
        let truncated = (\<lambda>c. c\<lparr>mc_stderr_trunc := mc_stderr_trunc c + 1, mc_err_truncated := True\<rparr>)
        in if buf_len (mc_errline c) < ceiling
           then (case af_buf_append ra (mc_errline c) (Some [x]) 1 of
              (Some e, b) \<Rightarrow> truncated (c\<lparr>mc_errline := b\<rparr>)
            | (None, b) \<Rightarrow> c\<lparr>mc_errline := b\<rparr>)
           else truncated c)"

fun capture_bytes :: "allocator \<Rightarrow> u64 \<Rightarrow> u8 list \<Rightarrow> mcp_child \<Rightarrow> mcp_child" where
  "capture_bytes ra ceiling [] c = c"
| "capture_bytes ra ceiling (x # p) c =
     capture_bytes ra ceiling p (if x = 10 then af_mcp_flush_errline ra c else errline_byte ra ceiling x c)"

definition stderr_ceiling :: "mcp_child \<Rightarrow> u64" where
  "stderr_ceiling c = (if mc_stderr_max c = 0 then 65536 else mc_stderr_max c)"

definition af_mcp_capture_stderr :: "allocator \<Rightarrow> u8 list \<Rightarrow> mcp_child \<Rightarrow> mcp_child" where
  "af_mcp_capture_stderr ra p c = capture_bytes ra (stderr_ceiling c) p c"

definition af_mcp_read_stderr :: "allocator \<Rightarrow> read_reply \<Rightarrow> mcp_child \<Rightarrow> af_status option \<times> mcp_child" where
  "af_mcp_read_stderr ra reply c =
     (if sint (mc_stderr_fd c) < 0 then (Some AF_E_INVALID, c)
      else case reply of
        ReadFailed e \<Rightarrow> (if e = AF_E_AGAIN then AF_OK else Some e, c)
      | Got p \<Rightarrow>
          if p = [] then (Some AF_E_EOF, c)
          else (AF_OK, af_mcp_capture_stderr ra p (c\<lparr>mc_stderr_bytes := mc_stderr_bytes c + of_nat (length p)\<rparr>)))"

section \<open>The messages to the server\<close>

definition mcp_drained :: "mcp_child \<Rightarrow> bool" where
  "mcp_drained c \<longleftrightarrow> buf_len (mc_outbox c) \<le> mc_out_cursor c \<or> buf_data (mc_outbox c) = None"

definition mcp_written :: "u64 \<Rightarrow> mcp_child \<Rightarrow> mcp_child" where
  "mcp_written k c =
     c\<lparr>mc_out_cursor := mc_out_cursor c + k,
       mc_sent := mc_sent c @ take (unat k) (drop (unat (mc_out_cursor c)) (contents (mc_outbox c)))\<rparr>"

text \<open>The kernel's answers in the order of the calls; a pipe without an answer would block.\<close>

fun mcp_write_loop :: "write_reply list \<Rightarrow> mcp_child \<Rightarrow> af_status option \<times> mcp_child" where
  "mcp_write_loop rs c =
     (if mcp_drained c then (AF_OK, c\<lparr>mc_outbox := af_buf_clear (mc_outbox c), mc_out_cursor := 0\<rparr>)
      else case rs of
        [] \<Rightarrow> (AF_OK, c)
      | WriteFailed e # rs \<Rightarrow> (if e = AF_E_AGAIN then AF_OK else Some e, c)
      | Wrote n # rs \<Rightarrow>
          (let k = min n (buf_len (mc_outbox c) - mc_out_cursor c)
           in if k = 0 then (AF_OK, mcp_written k c) else mcp_write_loop rs (mcp_written k c)))"

declare mcp_write_loop.simps [simp del]

definition af_mcp_write_stdin :: "write_reply list \<Rightarrow> mcp_child \<Rightarrow> af_status option \<times> mcp_child" where
  "af_mcp_write_stdin rs c = (if sint (mc_stdin_fd c) < 0 then (AF_OK, c) else mcp_write_loop rs c)"

definition af_mcp_send :: "allocator \<Rightarrow> write_reply list \<Rightarrow> u8 list \<Rightarrow> mcp_child \<Rightarrow> af_status option \<times> mcp_child" where
  "af_mcp_send ra rs line c =
     (if \<not> mc_stdin_open c then (Some AF_E_CLOSED, c)
      else case af_add_size (of_nat (length line)) 1 of
        Inl e \<Rightarrow> (Some e, c)
      | Inr need \<Rightarrow>
          (case af_buf_reserve ra (mc_outbox c) need of
             (Some e, b) \<Rightarrow> (Some e, c\<lparr>mc_outbox := b\<rparr>)
           | (None, b) \<Rightarrow>
               (case af_buf_append ra b (Some line) (of_nat (length line)) of
                  (Some e, b') \<Rightarrow> (Some e, c\<lparr>mc_outbox := b'\<rparr>)
                | (None, b') \<Rightarrow>
                    (case af_buf_append ra b' (Some [10]) 1 of
                       (Some e, b'') \<Rightarrow> (Some e, c\<lparr>mc_outbox := b''\<rparr>)
                     | (None, b'') \<Rightarrow>
                         af_mcp_write_stdin rs (c\<lparr>mc_outbox := b'', mc_frames_out := mc_frames_out c + 1\<rparr>)))))"

definition af_mcp_pending_out :: "mcp_child \<Rightarrow> u64" where
  "af_mcp_pending_out c =
     (if sub_carry (buf_len (mc_outbox c)) (mc_out_cursor c) then 0 else buf_len (mc_outbox c) - mc_out_cursor c)"

section \<open>Lines of a stream\<close>

text \<open>The complete lines of a stream, without their terminators, and what follows the last.\<close>

fun nl_split :: "u8 list \<Rightarrow> u8 list list \<times> u8 list" where
  "nl_split [] = ([], [])"
| "nl_split (x # s) =
     (case nl_split s of (ls, r) \<Rightarrow>
        if x = 10 then ([] # ls, r)
        else (case ls of [] \<Rightarrow> ([], x # r) | l # ms \<Rightarrow> ((x # l) # ms, r)))"

lemma nl_split_line: "10 \<notin> set f \<Longrightarrow> nl_split (f @ 10 # s) = (f # fst (nl_split s), snd (nl_split s))"
  by (induction f) (auto split: prod.splits)

lemma nl_split_none: "10 \<notin> set f \<Longrightarrow> nl_split f = ([], f)"
  by (induction f) auto

lemma nl_split_rest: "10 \<notin> set (snd (nl_split s))"
  by (induction s rule: nl_split.induct) (auto split: prod.splits list.splits)

lemma nl_split_append:
  "nl_split (s @ t) = (fst (nl_split s) @ fst (nl_split (snd (nl_split s) @ t)), snd (nl_split (snd (nl_split s) @ t)))"
proof (induction "length s" arbitrary: s rule: less_induct)
  case less
  show ?case
  proof (cases "10 \<in> set s")
    case True
    then obtain f r where s: "s = f @ 10 # r" "10 \<notin> set f" using split_list_first by fastforce
    with less [of r] nl_split_line [OF s(2), of r] nl_split_line [OF s(2), of "r @ t"] show ?thesis by simp
  qed (simp add: nl_split_none)
qed

text \<open>Handing messages on, one after another, until one is refused.\<close>

fun hand_on :: "'h on_message \<Rightarrow> u8 list list \<Rightarrow> 'h \<Rightarrow> af_status option \<times> 'h" where
  "hand_on om [] h = (AF_OK, h)"
| "hand_on om (m # ms) h = (case om m h of (Some e, h') \<Rightarrow> (Some e, h') | (None, h') \<Rightarrow> hand_on om ms h')"

lemma hand_on_append:
  "hand_on om (ms @ ns) h = (case hand_on om ms h of (Some e, h') \<Rightarrow> (Some e, h') | (None, h') \<Rightarrow> hand_on om ns h')"
  by (induction ms arbitrary: h) (auto split: prod.splits option.splits)

definition inbox_wf :: "mcp_child \<Rightarrow> bool" where
  "inbox_wf c \<longleftrightarrow> buf_wf (mc_inbox c) \<and> \<not> mc_discarding c \<and>
     mc_scan_cursor c \<le> buf_len (mc_inbox c) \<and> 10 \<notin> set (take (unat (mc_scan_cursor c)) (contents (mc_inbox c)))"

text \<open>Within its ceiling a line is handed on; 0 is no ceiling.\<close>

definition fits_frame :: "u64 \<Rightarrow> u8 list \<Rightarrow> bool" where
  "fits_frame m f \<longleftrightarrow> m = 0 \<or> length f \<le> unat m"

lemma newline_from:
  "10 \<notin> set (take i s) \<Longrightarrow> i \<le> length s \<Longrightarrow> newline_at s i = newline_at s 0"
proof -
  assume i: "10 \<notin> set (take i s)" "i \<le> length s"
  then have n: "j < i \<Longrightarrow> s ! j \<noteq> 10" for j by (auto simp: in_set_conv_nth)
  show ?thesis
  proof (cases "newline_at s 0")
    case None
    then have "newline_at s i = None" by (simp add: newline_at_None)
    with None show ?thesis by simp
  next
    case (Some k)
    then have "i \<le> k" using n by (auto simp: newline_at_Some not_less [symmetric])
    with Some have "newline_at s i = Some k" by (simp add: newline_at_Some)
    with Some show ?thesis by simp
  qed
qed

lemma consume_through_line:
  assumes "buf_wf (mc_inbox c)" "newline_at (contents (mc_inbox c)) 0 = Some k"
  shows "\<exists>b. consume_through k c = (AF_OK, c\<lparr>mc_inbox := b\<rparr>) \<and> buf_wf b \<and>
    contents b = drop (k + 1) (contents (mc_inbox c))"
proof -
  have "k < length (contents (mc_inbox c))" using assms(2) by (simp add: newline_at_Some)
  then have l: "k < unat (buf_len (mc_inbox c))" using contents_wf [OF assms(1)] by simp
  then have n: "unat (of_nat k + 1 :: u64) = k + 1"
    using unat_u64_bound [of "buf_len (mc_inbox c)"] by (simp add: unat_word_ariths unat_of_nat)
  obtain st b where b: "af_buf_consume (mc_inbox c) (of_nat k + 1) = (st, b)" by fastforce
  have "st = None"
    using consume_fail [of "mc_inbox c" "of_nat k + 1" _ b] b l n by (cases st) (auto simp: word_less_nat_alt)
  with b consume_ok [OF assms(1), of "of_nat k + 1" b] n show ?thesis
    by (intro exI [of _ b]) (simp add: consume_through_def)
qed

lemma deliver_line_handed:
  assumes "buf_wf (mc_inbox c)" "newline_at (contents (mc_inbox c)) 0 = Some k" "\<not> mc_discarding c"
  shows "deliver_line om k h c =
    (let f = trim_cr (take k (contents (mc_inbox c)))
     in if fits_frame (mc_frame_max c) f
        then (case om f h of (st, h') \<Rightarrow> (st, h', c\<lparr>mc_frames_in := mc_frames_in c + 1\<rparr>))
        else (Some AF_E_MCP_PROTOCOL, h, c\<lparr>mc_oversized := mc_oversized c + 1\<rparr>))"
proof -
  let ?s = "contents (mc_inbox c)"
  let ?n = "if k = 0 then k else if ?s ! (k - 1) \<noteq> 13 then k else k - 1"
  have k: "k < length ?s" using assms(2) by (simp add: newline_at_Some)
  then have f: "take ?n ?s = trim_cr (take k ?s)" by (intro trim_cr_take) simp
  have l: "length (trim_cr (take k ?s)) = ?n" unfolding f [symmetric] using k by simp
  have "?n < 2 ^ 64" using k contents_wf [OF assms(1)] unat_u64_bound [of "buf_len (mc_inbox c)"] by (cases "k = 0") auto
  then have "mc_frame_max c < of_nat ?n \<longleftrightarrow> unat (mc_frame_max c) < ?n"
    by (simp add: word_less_nat_alt unat_of_nat del: of_nat_diff)
  then have "fits_frame (mc_frame_max c) (trim_cr (take k ?s)) \<longleftrightarrow> \<not> (mc_frame_max c \<noteq> 0 \<and> mc_frame_max c < of_nat ?n)"
    unfolding fits_frame_def l by auto
  then show ?thesis using assms(3) f unfolding deliver_line_def Let_def by simp
qed

text \<open>What the lines and the rest of the inbox come to.\<close>

fun lines_outcome :: "'h on_message \<Rightarrow> u64 \<Rightarrow> u8 list list \<Rightarrow> u8 list \<Rightarrow> 'h \<Rightarrow> af_status option \<times> 'h" where
  "lines_outcome om m [] r h = (if fits_frame m r then AF_OK else Some AF_E_MCP_PROTOCOL, h)"
| "lines_outcome om m (l # ls) r h =
     (if fits_frame m (trim_cr l)
      then (case om (trim_cr l) h of
          (Some e, h') \<Rightarrow> (Some e, h')
        | (None, h') \<Rightarrow> lines_outcome om m ls r h')
      else (Some AF_E_MCP_PROTOCOL, h))"

lemma incomplete_outcome:
  assumes "inbox_wf c" "10 \<notin> set (contents (mc_inbox c))" "incomplete_line c = (st, c')"
  shows "lines_outcome om (mc_frame_max c) [] (contents (mc_inbox c)) h = (st, h) \<and> mc_frame_max c' = mc_frame_max c \<and>
    (st = None \<longrightarrow> inbox_wf c' \<and> mc_inbox c' = mc_inbox c)"
  using assms contents_wf [of "mc_inbox c"]
  by (auto simp: incomplete_line_def fits_frame_def inbox_wf_def word_less_nat_alt dest: in_set_takeD split: if_splits)

lemma scan_start:
  assumes "inbox_wf c"
  shows "newline_at (contents (mc_inbox c)) (unat (if buf_len (mc_inbox c) < mc_scan_cursor c then 0 else mc_scan_cursor c)) =
    newline_at (contents (mc_inbox c)) 0"
  using assms newline_from [of "unat (mc_scan_cursor c)" "contents (mc_inbox c)"] contents_wf [of "mc_inbox c"]
  by (auto simp: inbox_wf_def word_le_nat_alt)

text \<open>The first line is handed on and dropped, or ends the call.\<close>

lemma first_line:
  assumes "inbox_wf c" "newline_at (contents (mc_inbox c)) 0 = Some k"
  defines "f \<equiv> trim_cr (take k (contents (mc_inbox c)))"
  shows "fits_frame (mc_frame_max c) f \<Longrightarrow> om f h = (None, h1) \<Longrightarrow>
      \<exists>c1 c2. deliver_line om k h (c\<lparr>mc_scan_cursor := 0\<rparr>) = (None, h1, c1) \<and> consume_through k c1 = (None, c2) \<and>
        inbox_wf c2 \<and> contents (mc_inbox c2) = drop (k + 1) (contents (mc_inbox c)) \<and> mc_frame_max c2 = mc_frame_max c"
    and "\<not> (fits_frame (mc_frame_max c) f \<and> fst (om f h) = None) \<Longrightarrow>
      \<exists>e h1 c1. deliver_line om k h (c\<lparr>mc_scan_cursor := 0\<rparr>) = (Some e, h1, c1) \<and> mc_frame_max c1 = mc_frame_max c \<and>
        (if fits_frame (mc_frame_max c) f then om f h = (Some e, h1) else e = AF_E_MCP_PROTOCOL \<and> h1 = h)"
proof -
  let ?c = "c\<lparr>mc_scan_cursor := 0\<rparr>"
  have wf: "buf_wf (mc_inbox c)" "\<not> mc_discarding c" using assms(1) by (simp_all add: inbox_wf_def)
  have d: "deliver_line om k h ?c =
      (if fits_frame (mc_frame_max c) f then (case om f h of (st, h') \<Rightarrow> (st, h', ?c\<lparr>mc_frames_in := mc_frames_in c + 1\<rparr>))
       else (Some AF_E_MCP_PROTOCOL, h, ?c\<lparr>mc_oversized := mc_oversized c + 1\<rparr>))"
    using deliver_line_handed [of ?c k om h] wf assms(2) by (simp add: Let_def f_def)
  let ?c1 = "?c\<lparr>mc_frames_in := mc_frames_in c + 1\<rparr>"
  obtain b where b: "consume_through k ?c1 = (AF_OK, ?c1\<lparr>mc_inbox := b\<rparr>)" "buf_wf b"
    "contents b = drop (k + 1) (contents (mc_inbox c))"
    using consume_through_line [of ?c1 k] wf(1) assms(2) by auto
  show "\<exists>c1 c2. deliver_line om k h ?c = (None, h1, c1) \<and> consume_through k c1 = (None, c2) \<and> inbox_wf c2 \<and>
      contents (mc_inbox c2) = drop (k + 1) (contents (mc_inbox c)) \<and> mc_frame_max c2 = mc_frame_max c"
    if "fits_frame (mc_frame_max c) f" "om f h = (None, h1)"
    using that d b wf(2) by (intro exI [of _ ?c1] exI [of _ "?c1\<lparr>mc_inbox := b\<rparr>"]) (simp add: inbox_wf_def)
  show "\<exists>e h1 c1. deliver_line om k h ?c = (Some e, h1, c1) \<and> mc_frame_max c1 = mc_frame_max c \<and>
      (if fits_frame (mc_frame_max c) f then om f h = (Some e, h1) else e = AF_E_MCP_PROTOCOL \<and> h1 = h)"
    if "\<not> (fits_frame (mc_frame_max c) f \<and> fst (om f h) = None)"
    using that d by (cases "om f h") auto
qed

lemma consume_through_max [simp]: "mc_frame_max (snd (consume_through k c)) = mc_frame_max c"
  by (simp add: consume_through_def split: prod.splits)

lemma frame_lines_outcome:
  "inbox_wf c \<Longrightarrow> nl_split (contents (mc_inbox c)) = (ls, r) \<Longrightarrow> af_mcp_frame_lines om h c = (st, h', c') \<Longrightarrow>
   lines_outcome om (mc_frame_max c) ls r h = (st, h') \<and> mc_frame_max c' = mc_frame_max c \<and>
   (st = None \<longrightarrow> inbox_wf c' \<and> contents (mc_inbox c') = r)"
proof (induction om h c arbitrary: ls rule: af_mcp_frame_lines.induct)
  case (1 om h c)
  let ?b = "mc_inbox c"
  let ?s = "contents ?b"
  note step = af_mcp_frame_lines.simps [of om h c, unfolded scan_start [OF "1.prems"(1)]]
  have wf: "buf_wf ?b" using "1.prems"(1) by (simp add: inbox_wf_def)
  show ?case
  proof (cases "buf_len ?b = 0")
    case True
    then have "?s = []" using contents_wf [OF wf] by simp
    with True "1.prems" step show ?thesis by (auto simp: inbox_wf_def fits_frame_def)
  next
    case ne: False
    then have data: "buf_data ?b \<noteq> None" using wf by (auto simp: buf_wf_def split: option.splits)
    show ?thesis
    proof (cases "newline_at ?s 0")
      case None
      then have "10 \<notin> set ?s" by (auto simp: newline_at_None in_set_conv_nth)
      moreover obtain st' c'' where "incomplete_line c = (st', c'')" by fastforce
      ultimately show ?thesis
        using "1.prems" ne data step None incomplete_outcome [OF "1.prems"(1), of st' c'' om h] by (auto simp: nl_split_none)
    next
      case (Some k)
      let ?f = "trim_cr (take k ?s)"
      have ls: "ls = take k ?s # fst (nl_split (drop (k + 1) ?s))" "r = snd (nl_split (drop (k + 1) ?s))"
        using "1.prems"(2) nl_split_line [OF newline_first(1) [OF Some], of "drop (k + 1) ?s"] newline_first(2) [OF Some]
        by simp_all
      show ?thesis
      proof (cases "fits_frame (mc_frame_max c) ?f \<and> fst (om ?f h) = None")
        case False
        from first_line(2) [where om = om and h = h, OF "1.prems"(1) Some this] ls "1.prems"(3) ne data step Some show ?thesis
          by (auto split: if_splits)
      next
        case True
        then obtain h1 where h1: "om ?f h = (None, h1)" by (cases "om ?f h") auto
        from first_line(1) [where om = om and h = h, OF "1.prems"(1) Some _ this] True obtain c1 c2 where
          r: "deliver_line om k h (c\<lparr>mc_scan_cursor := 0\<rparr>) = (None, h1, c1)" "consume_through k c1 = (None, c2)"
          and c2: "inbox_wf c2" "contents (mc_inbox c2) = drop (k + 1) ?s" "mc_frame_max c2 = mc_frame_max c" by blast
        have n: "nl_split (contents (mc_inbox c2)) = (fst (nl_split (drop (k + 1) ?s)), r)" using c2 ls by simp
        have "af_mcp_frame_lines om h1 c2 = (st, h', c')" using "1.prems"(3) ne data step Some r by simp
        from "1.IH" [OF ne data, unfolded scan_start [OF "1.prems"(1)],
            OF Some r(1) [symmetric] refl refl r(2) [symmetric] refl c2(1) n this] c2(3) ls(1) h1 True
        show ?thesis by simp
      qed
    qed
  qed
qed

section \<open>Any division into reads\<close>

fun mcp_reads :: "allocator \<Rightarrow> 'h on_message \<Rightarrow> u8 list list \<Rightarrow> 'h \<Rightarrow> mcp_child \<Rightarrow> af_status option \<times> 'h \<times> mcp_child" where
  "mcp_reads ra om [] h c = (AF_OK, h, c)"
| "mcp_reads ra om (p # ps) h c =
     (case af_mcp_read_stdout ra om (Got p) h c of
        (Some e, h', c') \<Rightarrow> (Some e, h', c')
      | (None, h', c') \<Rightarrow> mcp_reads ra om ps h' c')"

abbreviation messages :: "u8 list \<Rightarrow> u8 list list" where
  "messages s \<equiv> map trim_cr (fst (nl_split s))"

lemma outcome_all: "lines_outcome om m ls r h = (None, h') \<Longrightarrow> hand_on om (map trim_cr ls) h = (None, h')"
  by (induction ls arbitrary: h) (auto split: if_splits prod.splits option.splits)

lemma outcome_some: "lines_outcome om m ls r h = (st, h') \<Longrightarrow> \<exists>k. snd (hand_on om (take k (map trim_cr ls)) h) = h'"
proof (induction ls arbitrary: h)
  case (Cons l ls)
  show ?case
  proof (cases "fits_frame m (trim_cr l)")
    case False
    with Cons.prems show ?thesis by (intro exI [of _ 0]) simp
  next
    case True
    obtain st1 h1 where h1: "om (trim_cr l) h = (st1, h1)" by fastforce
    show ?thesis
    proof (cases st1)
      case None
      with True h1 Cons.prems have "lines_outcome om m ls r h1 = (st, h')" by simp
      from Cons.IH [OF this] obtain k where "snd (hand_on om (take k (map trim_cr ls)) h1) = h'" by blast
      with None h1 show ?thesis by (intro exI [of _ "Suc k"]) simp
    next
      case (Some e)
      with True h1 Cons.prems show ?thesis by (intro exI [of _ 1]) (simp split: option.splits)
    qed
  qed
qed simp

lemma read_stdout_outcome:
  assumes "realloc_law ra" "inbox_wf c" "length p < 2 ^ 64" "af_mcp_read_stdout ra om (Got p) h c = (st, h', c')"
    "nl_split (contents (mc_inbox c) @ p) = (ls, r)"
  shows "(\<exists>k. snd (hand_on om (take k (map trim_cr ls)) h) = h') \<and>
    (st = None \<longrightarrow> hand_on om (map trim_cr ls) h = (None, h') \<and> inbox_wf c' \<and> contents (mc_inbox c') = r)"
proof (cases "0 \<le> sint (mc_stdout_fd c) \<and> p \<noteq> [] \<and> fst (af_buf_append ra (mc_inbox c) (Some p) (of_nat (length p))) = None")
  case False
  with assms(4) have "h' = h" "st \<noteq> None"
    by (auto simp: af_mcp_read_stdout_def split: if_splits prod.splits option.splits)
  then show ?thesis by (auto intro!: exI [of _ 0])
next
  case True
  then obtain b where b: "af_buf_append ra (mc_inbox c) (Some p) (of_nat (length p)) = (None, b)"
    by (cases "af_buf_append ra (mc_inbox c) (Some p) (of_nat (length p))") auto
  have wf: "buf_wf (mc_inbox c)" using assms(2) by (simp add: inbox_wf_def)
  note n = append_ok [OF wf assms(1) unat_of_length [OF assms(3), symmetric] b]
  let ?c = "c\<lparr>mc_inbox := b\<rparr>"
  have l: "unat (mc_scan_cursor c) \<le> length (contents (mc_inbox c))"
    using assms(2) contents_wf [OF wf] by (simp add: inbox_wf_def word_le_nat_alt)
  then have "mc_scan_cursor c \<le> buf_len b"
    using n contents_wf [of b] by (simp add: word_le_nat_alt)
  with assms(2) n l have "inbox_wf ?c" by (simp add: inbox_wf_def)
  moreover have "af_mcp_frame_lines om h ?c = (st, h', c')"
    using assms(4) True b by (simp add: af_mcp_read_stdout_def)
  moreover have "nl_split (contents (mc_inbox ?c)) = (ls, r)" using n assms(5) by simp
  ultimately have o: "lines_outcome om (mc_frame_max c) ls r h = (st, h')"
      "st = None \<longrightarrow> inbox_wf c' \<and> contents (mc_inbox c') = r"
    using frame_lines_outcome [of ?c ls r om h st h' c'] by auto
  show ?thesis using outcome_some [OF o(1)] outcome_all [of om "mc_frame_max c" ls r h h'] o by auto
qed

lemma take_map_append: "\<exists>k'. take k' (xs @ ys) = xs @ take k ys"
  by (rule exI [of _ "length xs + k"]) simp

lemma take_prefix_append: "\<exists>k'. take k' (xs @ ys) = take k xs"
  by (cases "k \<le> length xs") (auto intro: exI [of _ k] exI [of _ "length xs"])

lemma reads_outcome:
  "realloc_law ra \<Longrightarrow> inbox_wf c \<Longrightarrow> 10 \<notin> set (contents (mc_inbox c)) \<Longrightarrow> list_all (\<lambda>p. length p < 2 ^ 64) ps \<Longrightarrow>
   mcp_reads ra om ps h c = (st, h', c') \<Longrightarrow>
   (\<exists>k. snd (hand_on om (take k (messages (contents (mc_inbox c) @ concat ps))) h) = h') \<and>
   (st = None \<longrightarrow> hand_on om (messages (contents (mc_inbox c) @ concat ps)) h = (None, h') \<and> inbox_wf c' \<and>
     contents (mc_inbox c') = snd (nl_split (contents (mc_inbox c) @ concat ps)))"
proof (induction ps arbitrary: h c)
  case Nil
  then show ?case by (auto simp: nl_split_none)
next
  case (Cons p ps)
  let ?s = "contents (mc_inbox c)"
  obtain ls r where n: "nl_split (?s @ p) = (ls, r)" by fastforce
  obtain st1 h1 c1 where r1: "af_mcp_read_stdout ra om (Got p) h c = (st1, h1, c1)" by (cases "af_mcp_read_stdout ra om (Got p) h c")
  have all: "nl_split (?s @ concat (p # ps)) = (ls @ fst (nl_split (r @ concat ps)), snd (nl_split (r @ concat ps)))"
    using nl_split_append [of "?s @ p" "concat ps"] n by simp
  have o: "\<exists>k. snd (hand_on om (take k (map trim_cr ls)) h) = h1"
      "st1 = None \<Longrightarrow> hand_on om (map trim_cr ls) h = (None, h1) \<and> inbox_wf c1 \<and> contents (mc_inbox c1) = r"
    using read_stdout_outcome [OF Cons.prems(1,2) _ r1 n] Cons.prems(4) by simp_all
  show ?case
  proof (cases st1)
    case (Some e)
    with Cons.prems(5) r1 have "st = Some e" "h' = h1" by simp_all
    moreover obtain k where "snd (hand_on om (take k (map trim_cr ls)) h) = h1" using o(1) by blast
    moreover obtain k' where "take k' (map trim_cr ls @ messages (r @ concat ps)) = take k (map trim_cr ls)"
      using take_prefix_append by blast
    ultimately have "snd (hand_on om (take k' (map trim_cr ls @ messages (r @ concat ps))) h) = h'" by simp
    then have "\<exists>k. snd (hand_on om (take k (map trim_cr ls @ messages (r @ concat ps))) h) = h'" by blast
    with \<open>st = Some e\<close> show ?thesis unfolding all by simp
  next
    case None
    have "10 \<notin> set r" using nl_split_rest [of "?s @ p"] n by simp
    moreover have "mcp_reads ra om ps h1 c1 = (st, h', c')" using Cons.prems(5) r1 None by simp
    ultimately have IH: "\<exists>k. snd (hand_on om (take k (messages (r @ concat ps))) h1) = h'"
      "st = None \<longrightarrow> hand_on om (messages (r @ concat ps)) h1 = (None, h') \<and> inbox_wf c' \<and>
        contents (mc_inbox c') = snd (nl_split (r @ concat ps))"
      using Cons.IH [of c1 h1] Cons.prems(1,4) o(2) [OF None] by simp_all
    then obtain k where k: "snd (hand_on om (take k (messages (r @ concat ps))) h1) = h'" by blast
    let ?ms = "map trim_cr ls @ messages (r @ concat ps)"
    obtain k' where "take k' ?ms = map trim_cr ls @ take k (messages (r @ concat ps))"
      using take_map_append by blast
    then have "snd (hand_on om (take k' ?ms) h) = h'" using k o(2) [OF None] by (simp only: hand_on_append) simp
    then have "\<exists>k. snd (hand_on om (take k ?ms) h) = h'" by blast
    with o(2) [OF None] IH(2) show ?thesis unfolding all by (simp add: hand_on_append)
  qed
qed

text \<open>
  C17: Every line of the protocol pipe reaches the message layer once. However the bytes are cut
  into reads, the message layer is handed the complete lines of the stream without their
  terminators, each once and in order; if every read succeeds it has been handed all of them
  and exactly the incomplete rest is held, and otherwise it has been handed some from the first on.
\<close>

theorem mcp_lines_exactly_once:
  assumes "realloc_law ra" "inbox_wf c" "contents (mc_inbox c) = []" "list_all (\<lambda>p. length p \<le> AF_MCP_READ_CHUNK) ps"
    "mcp_reads ra om ps h c = (st, h', c')"
  shows "(\<exists>k. snd (hand_on om (take k (messages (concat ps))) h) = h') \<and>
    (st = AF_OK \<longrightarrow> hand_on om (messages (concat ps)) h = (AF_OK, h') \<and>
      contents (mc_inbox c') = snd (nl_split (concat ps)))"
proof -
  have "list_all (\<lambda>p. length p < 2 ^ 64) ps" using assms(4) by (auto simp: list_all_iff AF_MCP_READ_CHUNK_def)
  from reads_outcome [OF assms(1,2) _ this assms(5)] assms(3) show ?thesis by simp
qed

definition sample_child :: mcp_child where
  "sample_child = \<lparr>mc_stdin_fd = 5, mc_stdout_fd = 6, mc_stderr_fd = 7,
     mc_inbox = \<lparr>buf_data = None, buf_len = 0, buf_cap = 0, buf_max = 100\<rparr>, mc_scan_cursor = 0, mc_frame_max = 3,
     mc_discarding = False, mc_oversized = 0, mc_frames_in = 0,
     mc_errline = \<lparr>buf_data = None, buf_len = 0, buf_cap = 0, buf_max = 100\<rparr>,
     mc_errlog = \<lparr>buf_data = None, buf_len = 0, buf_cap = 0, buf_max = 131072\<rparr>, mc_stderr_max = 2,
     mc_err_truncated = False, mc_stderr_bytes = 0, mc_stderr_trunc = 0, mc_stdin_open = True,
     mc_outbox = \<lparr>buf_data = None, buf_len = 0, buf_cap = 0, buf_max = 100\<rparr>, mc_out_cursor = 0, mc_frames_out = 0,
     mc_sent = []\<rparr>"

lemma sample_child_inbox: "inbox_wf sample_child" "contents (mc_inbox sample_child) = []"
  by (simp_all add: sample_child_def inbox_wf_def buf_wf_def contents_def)

text \<open>A message layer that keeps what it is handed and accepts all but the empty line.\<close>

definition keep_lines :: "u8 list list on_message" where
  "keep_lines m h = (if m = [] then Some AF_E_MCP_PROTOCOL else AF_OK, h @ [m])"

theorem mcp_lines_exactly_once_witness:
  "let ps = [[97, 98], [13, 10, 99], [10, 10, 100]]; (st, h', c') = mcp_reads plain_realloc keep_lines ps [] sample_child
   in (\<exists>k. snd (hand_on keep_lines (take k (messages (concat ps))) []) = h') \<and>
    (st = AF_OK \<longrightarrow> hand_on keep_lines (messages (concat ps)) [] = (AF_OK, h') \<and>
      contents (mc_inbox c') = snd (nl_split (concat ps)))"
  unfolding Let_def case_prod_beta
  by (rule mcp_lines_exactly_once [OF plain_realloc_law sample_child_inbox, where st = "fst r" and h' = "fst (snd r)" and c' = "snd (snd r)" for r])
    (simp_all add: AF_MCP_READ_CHUNK_def)

text \<open>What one read comes to when the inbox has room.\<close>

lemma read_appends:
  assumes "realloc_law ra" "\<forall>d n. ra d n \<noteq> None" "inbox_wf c" "buf_max (mc_inbox c) < 2 ^ 63" "p \<noteq> []"
    "length (contents (mc_inbox c)) + length p \<le> unat (buf_max (mc_inbox c))" "0 \<le> sint (mc_stdout_fd c)"
  shows "\<exists>b. af_mcp_read_stdout ra om (Got p) h c = af_mcp_frame_lines om h (c\<lparr>mc_inbox := b\<rparr>) \<and>
    contents b = contents (mc_inbox c) @ p \<and> inbox_wf (c\<lparr>mc_inbox := b\<rparr>) \<and> buf_max b = buf_max (mc_inbox c)"
proof -
  have wf: "buf_wf (mc_inbox c)" using assms(3) by (simp add: inbox_wf_def)
  have l: "length p < 2 ^ 64" using assms(6) unat_u64_bound [of "buf_max (mc_inbox c)"] by simp
  from append_fits [OF wf assms(1) l assms(4,2)] assms(6)
  obtain b where b: "af_buf_append ra (mc_inbox c) (Some p) (of_nat (length p)) = (None, b)"
    by (cases "af_buf_append ra (mc_inbox c) (Some p) (of_nat (length p))") auto
  note n = append_ok [OF wf assms(1) unat_of_length [OF l, symmetric] b]
  have c: "unat (mc_scan_cursor c) \<le> length (contents (mc_inbox c))"
    using assms(3) contents_wf [OF wf] by (simp add: inbox_wf_def word_le_nat_alt)
  then have "mc_scan_cursor c \<le> buf_len b" using n contents_wf [of b] by (simp add: word_le_nat_alt)
  with assms(3) n c have "inbox_wf (c\<lparr>mc_inbox := b\<rparr>)" by (simp add: inbox_wf_def)
  with n b assms(5,7) show ?thesis by (intro exI [of _ b]) (simp add: af_mcp_read_stdout_def)
qed

lemma lines_outcome_fields:
  "af_mcp_frame_lines om h c = (st, h', c') \<Longrightarrow> inbox_wf c \<Longrightarrow>
   lines_outcome om (mc_frame_max c) (fst (nl_split (contents (mc_inbox c)))) (snd (nl_split (contents (mc_inbox c)))) h = (st, h')"
  using frame_lines_outcome [of c _ _ om h st h' c'] by simp

text \<open>
  At the ceiling it matters how the bytes arrive. A line of exactly the maximum, ended by a
  carriage return and a line feed, is handed on when it arrives in one read; when the reads part
  the two terminators the carriage return counts as a byte of the line, and the session is
  ended for a line that is too long.
\<close>

lemma crlf_at_ceiling_depends_on_reads:
  assumes "inbox_wf c" "contents (mc_inbox c) = []" "buf_max (mc_inbox c) < 2 ^ 63" "0 \<le> sint (mc_stdout_fd c)"
    "10 \<notin> set f" "f \<noteq> []" "last f \<noteq> 13" "unat (mc_frame_max c) = length f" "length f + 2 \<le> unat (buf_max (mc_inbox c))"
    "om f h = (AF_OK, h1)"
  shows "fst (af_mcp_read_stdout plain_realloc om (Got (f @ [13, 10])) h c) = AF_OK \<and>
    fst (snd (af_mcp_read_stdout plain_realloc om (Got (f @ [13, 10])) h c)) = h1 \<and>
    fst (af_mcp_read_stdout plain_realloc om (Got (f @ [13])) h c) = Some AF_E_MCP_PROTOCOL"
proof -
  note room = read_appends [OF plain_realloc_law _ assms(1,3), of _ om h]
  have never: "\<forall>d n. plain_realloc d n \<noteq> None" by (simp add: plain_realloc_def)
  have nz: "mc_frame_max c \<noteq> 0" using assms(6,8) by auto
  from room [OF never, of "f @ [13, 10]"] assms(2,4,9) obtain b where
    b: "af_mcp_read_stdout plain_realloc om (Got (f @ [13, 10])) h c = af_mcp_frame_lines om h (c\<lparr>mc_inbox := b\<rparr>)"
      "contents b = f @ [13, 10]" "inbox_wf (c\<lparr>mc_inbox := b\<rparr>)" by auto
  from room [OF never, of "f @ [13]"] assms(2,4,9) obtain a where
    a: "af_mcp_read_stdout plain_realloc om (Got (f @ [13])) h c = af_mcp_frame_lines om h (c\<lparr>mc_inbox := a\<rparr>)"
      "contents a = f @ [13]" "inbox_wf (c\<lparr>mc_inbox := a\<rparr>)" by auto
  have "nl_split (f @ [13, 10]) = ([f @ [13]], [])" using nl_split_line [of "f @ [13]" "[]"] assms(5) by simp
  moreover have "trim_cr (f @ [13]) = f" by (simp add: trim_cr_def)
  moreover have "nl_split (f @ [13]) = ([], f @ [13])" using assms(5) by (simp add: nl_split_none)
  moreover obtain st h' c' where r: "af_mcp_frame_lines om h (c\<lparr>mc_inbox := b\<rparr>) = (st, h', c')"
    by (cases "af_mcp_frame_lines om h (c\<lparr>mc_inbox := b\<rparr>)")
  moreover obtain st2 h2 c2 where r2: "af_mcp_frame_lines om h (c\<lparr>mc_inbox := a\<rparr>) = (st2, h2, c2)"
    by (cases "af_mcp_frame_lines om h (c\<lparr>mc_inbox := a\<rparr>)")
  ultimately show ?thesis
    using lines_outcome_fields [OF r b(3)] lines_outcome_fields [OF r2 a(3)] a b assms(8,10) nz by (auto simp: fits_frame_def)
qed

lemma crlf_at_ceiling_depends_on_reads_witness:
  "fst (af_mcp_read_stdout plain_realloc keep_lines (Got ([97, 98, 99] @ [13, 10])) [] sample_child) = AF_OK \<and>
    fst (snd (af_mcp_read_stdout plain_realloc keep_lines (Got ([97, 98, 99] @ [13, 10])) [] sample_child)) = [[97, 98, 99]] \<and>
    fst (af_mcp_read_stdout plain_realloc keep_lines (Got ([97, 98, 99] @ [13])) [] sample_child) = Some AF_E_MCP_PROTOCOL"
  by (rule crlf_at_ceiling_depends_on_reads [OF sample_child_inbox]) (simp_all add: sample_child_def keep_lines_def)

section \<open>The tail of the error pipe\<close>

definition lastn :: "nat \<Rightarrow> 'a list \<Rightarrow> 'a list" where
  "lastn n xs = drop (length xs - n) xs"

lemma lastn_append: "lastn n (lastn n xs @ ys) = lastn n (xs @ ys)"
  by (cases "length xs \<le> n"; cases "n \<le> length ys") (simp_all add: lastn_def add.commute)

lemma lastn_all: "length xs \<le> n \<Longrightarrow> lastn n xs = xs"
  by (simp add: lastn_def)

lemma lastn_length: "length (lastn n xs) \<le> n"
  by (simp add: lastn_def)

abbreviation keep :: nat where "keep \<equiv> unat AF_MCP_STDERR_KEEP"

lemma keep_value: "keep = 65536"
  by (simp add: AF_MCP_STDERR_KEEP_def)

text \<open>The kept lines of a stream: the non-empty ones, cut at the ceiling.\<close>

definition kept_lines :: "nat \<Rightarrow> u8 list list \<Rightarrow> u8 list" where
  "kept_lines ceiling ls = concat (map (\<lambda>l. if l = [] then [] else take ceiling l @ [10]) ls)"

lemma kept_lines_append: "kept_lines n (ls @ ms) = kept_lines n ls @ kept_lines n ms"
  by (simp add: kept_lines_def)

definition err_wf :: "u64 \<Rightarrow> mcp_child \<Rightarrow> bool" where
  "err_wf ceiling c \<longleftrightarrow> buf_wf (mc_errline c) \<and> buf_wf (mc_errlog c) \<and> ceiling \<noteq> 0 \<and>
     ceiling \<le> buf_max (mc_errline c) \<and> buf_max (mc_errline c) < 2 ^ 63 \<and>
     AF_MCP_STDERR_KEEP \<le> buf_max (mc_errlog c) \<and> buf_max (mc_errlog c) < 2 ^ 63"

text \<open>The line under way is \<open>l\<close>, cut at the ceiling, and the tail is that of \<open>t\<close>.\<close>

definition err_state :: "u64 \<Rightarrow> mcp_child \<Rightarrow> u8 list \<Rightarrow> u8 list \<Rightarrow> bool" where
  "err_state ceiling c l t \<longleftrightarrow> err_wf ceiling c \<and> contents (mc_errline c) = take (unat ceiling) l \<and>
     mc_err_truncated c = (unat ceiling < length l) \<and> contents (mc_errlog c) = lastn keep t"

text \<open>An allocator that keeps to its contract and never refuses.\<close>

definition ample :: "allocator \<Rightarrow> bool" where
  "ample ra \<longleftrightarrow> realloc_law ra \<and> (\<forall>d n. ra d n \<noteq> None)"

lemma append_room:
  assumes "ample ra" "buf_wf b" "buf_max b < 2 ^ 63" "length (contents b) + length p \<le> unat (buf_max b)" "unat n = length p"
  shows "\<exists>b'. af_buf_append ra b (Some p) n = (None, b') \<and> buf_wf b' \<and> contents b' = contents b @ p \<and> buf_max b' = buf_max b"
proof -
  have l: "length p < 2 ^ 64" using assms(5) unat_u64_bound [of n] by simp
  have n: "n = of_nat (length p)" using assms(5) by (simp flip: assms(5))
  have law: "realloc_law ra" "\<forall>d n. ra d n \<noteq> None" using assms(1) by (simp_all add: ample_def)
  from append_fits [OF assms(2) law(1) l assms(3) law(2)] assms(4)
  obtain b' where "af_buf_append ra b (Some p) n = (None, b')"
    unfolding n by (cases "af_buf_append ra b (Some p) (of_nat (length p))") auto
  with append_ok [OF assms(2) law(1) assms(5) [symmetric] this] show ?thesis by blast
qed

lemma errline_byte_state:
  assumes "ample ra" "err_state ceiling c l t" "x \<noteq> 10"
  shows "err_state ceiling (errline_byte ra ceiling x c) (l @ [x]) t"
proof -
  have wf: "buf_wf (mc_errline c)" "buf_max (mc_errline c) < 2 ^ 63" "unat ceiling \<le> unat (buf_max (mc_errline c))"
    using assms(2) by (simp_all add: err_state_def err_wf_def word_le_nat_alt)
  have len: "unat (buf_len (mc_errline c)) = min (length l) (unat ceiling)"
    using contents_wf [OF wf(1)] assms(2) by (simp add: err_state_def)
  then have lt: "buf_len (mc_errline c) < ceiling \<longleftrightarrow> length l < unat ceiling" by (auto simp: word_less_nat_alt)
  show ?thesis
  proof (cases "length l < unat ceiling")
    case True
    then have "length (contents (mc_errline c)) + length [x] \<le> unat (buf_max (mc_errline c))"
      using wf(3) assms(2) by (simp add: err_state_def)
    from append_room [OF assms(1) wf(1,2) this, of 1] obtain b' where
      "af_buf_append ra (mc_errline c) (Some [x]) 1 = (None, b')" "buf_wf b'" "contents b' = contents (mc_errline c) @ [x]"
      "buf_max b' = buf_max (mc_errline c)" by auto
    with True lt assms(2) show ?thesis by (simp add: errline_byte_def err_state_def err_wf_def Let_def)
  next
    case False
    with lt assms(2) show ?thesis by (auto simp: errline_byte_def err_state_def err_wf_def Let_def)
  qed
qed

lemma drop_old_log:
  assumes "buf_wf b" "d \<le> buf_len b"
  shows "\<exists>b'. (if d = 0 then (AF_OK, b) else af_buf_consume b d) = (None, b') \<and> buf_wf b' \<and>
    contents b' = drop (unat d) (contents b) \<and> buf_max b' = buf_max b"
proof (cases "d = 0")
  case False
  obtain st b' where b: "af_buf_consume b d = (st, b')" by fastforce
  with consume_fail [of b d _ b'] assms(2) have "st = None" by (cases st) auto
  with b consume_ok [OF assms(1), of d b'] False show ?thesis by simp
qed (use assms in simp)

text \<open>What is kept of the old tail and of the line, as bytes.\<close>

lemma kept_tail:
  fixes old line :: "u8 list"
  assumes "length old \<le> keep"
  shows "keep \<le> length line \<Longrightarrow> lastn keep (old @ line @ [10]) = drop (length line - (keep - 1)) line @ [10]"
    and "length line < keep \<Longrightarrow> lastn keep (old @ line @ [10]) =
      drop (length old - (keep - 1 - length line)) old @ line @ [10]"
proof -
  have "0 < keep" by (simp add: keep_value)
  then show "keep \<le> length line \<Longrightarrow> lastn keep (old @ line @ [10]) = drop (length line - (keep - 1)) line @ [10]"
    by (simp add: lastn_def Suc_diff_le)
  show "length line < keep \<Longrightarrow> lastn keep (old @ line @ [10]) =
      drop (length old - (keep - 1 - length line)) old @ line @ [10]"
    using assms by (simp add: lastn_def)
qed

lemma flush_plan_tail:
  assumes "buf_wf (mc_errline c)" "buf_wf (mc_errlog c)" "length (contents (mc_errlog c)) \<le> keep" "flush_plan c = (line, d)"
  shows "d \<le> buf_len (mc_errlog c) \<and> length line < keep \<and>
    drop (unat d) (contents (mc_errlog c)) @ line @ [10] = lastn keep (contents (mc_errlog c) @ contents (mc_errline c) @ [10])"
proof -
  let ?n = "buf_len (mc_errline c)" and ?old = "buf_len (mc_errlog c)"
  have l: "length (contents (mc_errline c)) = unat ?n" "length (contents (mc_errlog c)) = unat ?old"
    using contents_wf assms(1,2) by blast+
  have k: "unat (AF_MCP_STDERR_KEEP - 1) = keep - 1" by (simp add: AF_MCP_STDERR_KEEP_def)
  show ?thesis
  proof (cases "AF_MCP_STDERR_KEEP \<le> ?n")
    case True
    then have le: "keep \<le> unat ?n" by (simp add: word_le_nat_alt)
    have "unat (?n - (AF_MCP_STDERR_KEEP - 1)) = unat ?n - (keep - 1)"
      using le by (simp add: unat_sub word_le_nat_alt k)
    with True assms(3,4) le kept_tail(1) [OF assms(3), of "contents (mc_errline c)"] l show ?thesis
      by (auto simp: flush_plan_def Let_def keep_value)
  next
    case False
    then have lt: "unat ?n < keep" by (simp add: word_le_nat_alt)
    let ?room = "AF_MCP_STDERR_KEEP - 1 - ?n"
    have room: "unat ?room = keep - 1 - unat ?n" using lt by (simp add: unat_sub word_le_nat_alt k)
    have "unat (if ?old \<le> ?room then 0 else ?old - ?room) = unat ?old - (keep - 1 - unat ?n)"
      using room by (auto simp: unat_sub word_le_nat_alt)
    moreover have "(if ?old \<le> ?room then 0 else ?old - ?room) \<le> ?old" by (simp add: word_sub_le)
    ultimately show ?thesis
      using False assms(3,4) lt kept_tail(2) [OF assms(3), of "contents (mc_errline c)"] l
      by (auto simp: flush_plan_def Let_def)
  qed
qed

lemma flush_state:
  assumes "ample ra" "err_state ceiling c l t"
  shows "err_state ceiling (af_mcp_flush_errline ra c) [] (t @ kept_lines (unat ceiling) [l])"
proof (cases "l = []")
  case True
  then have "buf_len (mc_errline c) = 0" using assms(2) contents_wf [of "mc_errline c"] by (auto simp: err_state_def err_wf_def unat_eq_zero)
  with True assms(2) show ?thesis by (simp add: af_mcp_flush_errline_def err_state_def err_wf_def kept_lines_def)
next
  case False
  let ?line = "contents (mc_errline c)" and ?log = "contents (mc_errlog c)"
  have wf: "buf_wf (mc_errline c)" "buf_wf (mc_errlog c)" "buf_max (mc_errlog c) < 2 ^ 63" "keep \<le> unat (buf_max (mc_errlog c))"
    and ce: "ceiling \<noteq> 0" and log: "?log = lastn keep t" and ln: "?line = take (unat ceiling) l"
    using assms(2) by (simp_all add: err_state_def err_wf_def word_le_nat_alt)
  have ne: "?line \<noteq> []" using ln ce False by (simp add: unat_eq_zero)
  then have nz: "buf_len (mc_errline c) \<noteq> 0" "buf_data (mc_errline c) \<noteq> None"
    using contents_wf [OF wf(1)] by (auto simp: contents_def split: option.splits)
  obtain p d where pd: "flush_plan c = (p, d)" by fastforce
  from flush_plan_tail [OF wf(1,2) _ pd] log have t: "d \<le> buf_len (mc_errlog c)" "length p < keep"
    "drop (unat d) ?log @ p @ [10] = lastn keep (?log @ ?line @ [10])" by (simp_all add: lastn_length)
  from drop_old_log [OF wf(2) t(1)] obtain b where b: "(if d = 0 then (AF_OK, mc_errlog c) else af_buf_consume (mc_errlog c) d) = (None, b)"
    "buf_wf b" "contents b = drop (unat d) ?log" "buf_max b = buf_max (mc_errlog c)" by blast
  have room: "length (contents b @ p @ [10]) \<le> unat (buf_max b)" unfolding b(3,4) t(3) using lastn_length wf(4) le_trans by blast
  have "unat (of_nat (length p) :: u64) = length p" using t(2) by (intro unat_of_length) (simp add: keep_value)
  from append_room [OF assms(1) b(2) _ _ this] b(4) wf(3) room obtain b1 where
    b1: "af_buf_append ra b (Some p) (of_nat (length p)) = (None, b1)" "buf_wf b1" "contents b1 = contents b @ p" "buf_max b1 = buf_max b"
    by auto
  from append_room [OF assms(1) b1(2), of "[10]" 1] b1(3,4) b(4) wf(3) room obtain b2 where
    b2: "af_buf_append ra b1 (Some [10]) 1 = (None, b2)" "buf_wf b2" "contents b2 = contents b1 @ [10]" "buf_max b2 = buf_max b1"
    by auto
  have "contents b2 = lastn keep (t @ kept_lines (unat ceiling) [l])"
    using b2(3) b1(3) b(3) t(3) False by (simp add: log ln lastn_append kept_lines_def)
  moreover have "keep_line ra (flush_plan c) (mc_errlog c) = b2"
    by (simp add: keep_line_def pd b(1) b1(1) b2(1) split del: if_split)
  ultimately show ?thesis
    using nz b(4) b1(4) b2(2,4) assms(2) emptied_wf(1) [OF wf(1)] emptied_wf(2) [of "mc_errline c"]
    by (auto simp: af_mcp_flush_errline_def err_state_def err_wf_def af_buf_clear_def)
qed

text \<open>
  The same with any allocator: the line under way is a prefix of the bytes written, the tail an
  excerpt of the lines, and both are within their limits.
\<close>

definition err_within :: "u64 \<Rightarrow> mcp_child \<Rightarrow> u8 list \<Rightarrow> u8 list \<Rightarrow> bool" where
  "err_within ceiling c l t \<longleftrightarrow> err_wf ceiling c \<and> prefix (contents (mc_errline c)) (take (unat ceiling) l) \<and>
     (mc_err_truncated c \<or> contents (mc_errline c) = take (unat ceiling) l) \<and>
     subseq (contents (mc_errlog c)) t \<and> length (contents (mc_errlog c)) \<le> keep"

lemma append_outcome:
  assumes "buf_wf b" "realloc_law ra" "length p = unat n"
  obtains b' st where "af_buf_append ra b (Some p) n = (st, b')" "buf_wf b'" "buf_max b' = buf_max b"
    "st = None \<and> contents b' = contents b @ p \<or> st \<noteq> None \<and> b' = b"
proof -
  obtain st b' where r: "af_buf_append ra b (Some p) n = (st, b')" by fastforce
  with append_ok [OF assms, of b'] append_fail [of ra b "Some p" n _ b'] assms(1) that show thesis by (cases st) auto
qed

lemma prefix_take_more: "prefix p (take n l) \<Longrightarrow> prefix p (take n (l @ x))"
  by (auto simp: prefix_def)

lemma errline_byte_within:
  assumes "realloc_law ra" "err_within ceiling c l t"
  shows "err_within ceiling (errline_byte ra ceiling x c) (l @ [x]) t"
proof (cases "mc_err_truncated c")
  case True
  with assms(2) show ?thesis by (simp add: errline_byte_def err_within_def prefix_take_more)
next
  case False
  then have line: "contents (mc_errline c) = take (unat ceiling) l" and wf: "buf_wf (mc_errline c)"
    using assms(2) by (simp_all add: err_within_def err_wf_def)
  have "unat (buf_len (mc_errline c)) = min (length l) (unat ceiling)" using contents_wf [OF wf] line by simp
  then have lt: "buf_len (mc_errline c) < ceiling \<longleftrightarrow> length l < unat ceiling" by (auto simp: word_less_nat_alt)
  obtain st b where b: "af_buf_append ra (mc_errline c) (Some [x]) 1 = (st, b)" "buf_wf b" "buf_max b = buf_max (mc_errline c)"
    "st = None \<and> contents b = contents (mc_errline c) @ [x] \<or> st \<noteq> None \<and> b = mc_errline c"
    by (rule append_outcome [OF wf assms(1), of "[x]" 1]) auto
  from False b lt line assms(2) show ?thesis
    by (cases st) (auto simp: errline_byte_def err_within_def err_wf_def Let_def)
qed

lemma keep_line_within:
  assumes "realloc_law ra" "buf_wf b" "length p < keep" "d \<le> buf_len b"
  shows "buf_wf (keep_line ra (p, d) b) \<and> buf_max (keep_line ra (p, d) b) = buf_max b \<and>
    (\<exists>q. contents (keep_line ra (p, d) b) = drop (unat d) (contents b) @ q \<and> prefix q (p @ [10]))"
proof -
  from drop_old_log [OF assms(2,4)] obtain b1 where b1: "(if d = 0 then (AF_OK, b) else af_buf_consume b d) = (None, b1)"
    "buf_wf b1" "contents b1 = drop (unat d) (contents b)" "buf_max b1 = buf_max b" by blast
  have n: "length p = unat (of_nat (length p) :: u64)" using assms(3) unat_of_length [of p] by (simp add: keep_value)
  obtain st b2 where b2: "af_buf_append ra b1 (Some p) (of_nat (length p)) = (st, b2)" "buf_wf b2" "buf_max b2 = buf_max b1"
    "st = None \<and> contents b2 = contents b1 @ p \<or> st \<noteq> None \<and> b2 = b1"
    by (rule append_outcome [OF b1(2) assms(1) n])
  obtain st' b3 where b3: "af_buf_append ra b2 (Some [10]) 1 = (st', b3)" "buf_wf b3" "buf_max b3 = buf_max b2"
    "st' = None \<and> contents b3 = contents b2 @ [10] \<or> st' \<noteq> None \<and> b3 = b2"
    by (rule append_outcome [OF b2(2) assms(1), of "[10]" 1]) auto
  have k: "keep_line ra (p, d) b = (if st = None then b3 else b2)"
    by (cases st) (simp_all add: keep_line_def b1(1) b2(1) b3(1) split del: if_split)
  have "contents (if st = None then b3 else b2) = drop (unat d) (contents b) @ (if st \<noteq> None then [] else if st' \<noteq> None then p else p @ [10])"
    using b1(3) b2(4) b3(4) by auto
  then show ?thesis unfolding k using b1(4) b2(2,3) b3(2,3) by (intro conjI exI [of _ "if st \<noteq> None then [] else if st' \<noteq> None then p else p @ [10]"]) simp_all
qed

lemma flush_within:
  assumes "realloc_law ra" "err_within ceiling c l t"
  shows "err_within ceiling (af_mcp_flush_errline ra c) [] (t @ kept_lines (unat ceiling) [l])"
proof (cases "buf_len (mc_errline c) = 0")
  case True
  then have "contents (mc_errline c) = []" using assms(2) contents_wf [of "mc_errline c"] by (auto simp: err_within_def err_wf_def)
  moreover have "subseq (contents (mc_errlog c)) (t @ x)" for x using assms(2) unfolding err_within_def by auto
  ultimately show ?thesis using True assms(2) by (simp add: af_mcp_flush_errline_def err_within_def err_wf_def)
next
  case False
  let ?line = "contents (mc_errline c)" and ?log = "contents (mc_errlog c)"
  have wf: "buf_wf (mc_errline c)" "buf_wf (mc_errlog c)" and log: "length ?log \<le> keep" "subseq ?log t"
    and line: "prefix ?line (take (unat ceiling) l)"
    using assms(2) by (simp_all add: err_within_def err_wf_def)
  have ne: "?line \<noteq> []" "buf_data (mc_errline c) \<noteq> None"
    using False contents_wf [OF wf(1)] by (auto simp: unat_eq_zero contents_def split: option.splits)
  obtain p d where pd: "flush_plan c = (p, d)" by fastforce
  from flush_plan_tail [OF wf log(1) pd] have t: "d \<le> buf_len (mc_errlog c)" "length p < keep"
    "drop (unat d) ?log @ p @ [10] = lastn keep (?log @ ?line @ [10])" by simp_all
  let ?b = "keep_line ra (p, d) (mc_errlog c)"
  from keep_line_within [OF assms(1) wf(2) t(2,1)] obtain q where b: "buf_wf ?b" "buf_max ?b = buf_max (mc_errlog c)"
    "contents ?b = drop (unat d) ?log @ q" "prefix q (p @ [10])" by blast
  have whole: "prefix (contents ?b) (lastn keep (?log @ ?line @ [10]))" unfolding t(3) [symmetric] b(3) using b(4) by simp
  then have short: "length (contents ?b) \<le> keep" using prefix_length_le lastn_length le_trans by blast
  have tail: "subseq (lastn keep xs) xs" for xs unfolding lastn_def by (rule suffix_imp_subseq [OF suffix_drop])
  have add: "subseq (?log @ ?line @ [10]) (t @ take (unat ceiling) l @ [10])"
    by (intro list_emb_append_mono log(2) prefix_imp_subseq [OF line]) simp
  have "kept_lines (unat ceiling) [l] = take (unat ceiling) l @ [10]" using line ne(1) by (auto simp: kept_lines_def)
  with subseq_order.trans [OF subseq_order.trans [OF prefix_imp_subseq [OF whole] tail] add]
  have "subseq (contents ?b) (t @ kept_lines (unat ceiling) [l])" by simp
  with False ne(2) b(1,2) short assms(2) emptied_wf(1) [OF wf(1)] emptied_wf(2) [of "mc_errline c"] show ?thesis
    by (auto simp: af_mcp_flush_errline_def err_within_def err_wf_def af_buf_clear_def pd)
qed

text \<open>The reads of the error pipe, one after another.\<close>

definition stderr_reads :: "allocator \<Rightarrow> u8 list list \<Rightarrow> mcp_child \<Rightarrow> mcp_child" where
  "stderr_reads ra ps c = fold (\<lambda>p c. snd (af_mcp_read_stderr ra (Got p) c)) ps c"

lemma capture_bytes_append: "capture_bytes ra ceiling (p @ q) c = capture_bytes ra ceiling q (capture_bytes ra ceiling p c)"
  by (induction p arbitrary: c) simp_all

lemma errline_limits [simp]:
  "mc_stderr_max (errline_byte ra ceiling x c) = mc_stderr_max c" "mc_stderr_fd (errline_byte ra ceiling x c) = mc_stderr_fd c"
  by (simp_all add: errline_byte_def Let_def split: prod.splits option.splits)

lemma flush_limits [simp]:
  "mc_stderr_max (af_mcp_flush_errline ra c) = mc_stderr_max c" "mc_stderr_fd (af_mcp_flush_errline ra c) = mc_stderr_fd c"
  by (simp_all add: af_mcp_flush_errline_def)

lemma capture_limits [simp]:
  "mc_stderr_max (capture_bytes ra ceiling p c) = mc_stderr_max c" "mc_stderr_fd (capture_bytes ra ceiling p c) = mc_stderr_fd c"
  by (induction p arbitrary: c) simp_all

text \<open>
  A statement about the line under way and the complete lines that a byte, a flush and the count of
  the bytes keep is kept by the reads, however they cut the bytes.
\<close>

locale captured =
  fixes inv :: "allocator \<Rightarrow> u64 \<Rightarrow> mcp_child \<Rightarrow> u8 list \<Rightarrow> u8 list \<Rightarrow> bool"
  assumes on_byte: "inv ra m c l t \<Longrightarrow> x \<noteq> 10 \<Longrightarrow> inv ra m (errline_byte ra m x c) (l @ [x]) t"
    and on_flush: "inv ra m c l t \<Longrightarrow> inv ra m (af_mcp_flush_errline ra c) [] (t @ kept_lines (unat m) [l])"
    and on_count: "inv ra m c l t \<Longrightarrow> inv ra m (c\<lparr>mc_stderr_bytes := k\<rparr>) l t"
begin

lemma after_bytes:
  "inv ra m c l t \<Longrightarrow> 10 \<notin> set l \<Longrightarrow>
   inv ra m (capture_bytes ra m p c) (snd (nl_split (l @ p))) (t @ kept_lines (unat m) (fst (nl_split (l @ p))))"
proof (induction p arbitrary: c l t)
  case Nil
  then show ?case by (simp add: nl_split_none kept_lines_def)
next
  case (Cons x p)
  show ?case
  proof (cases "x = 10")
    case True
    have "nl_split (l @ x # p) = (l # fst (nl_split p), snd (nl_split p))" using nl_split_line [OF Cons.prems(2), of p] True by simp
    with True Cons.IH [OF on_flush [OF Cons.prems(1)]] show ?thesis by (simp add: kept_lines_def)
  next
    case False
    with Cons.IH [OF on_byte [OF Cons.prems(1) False]] Cons.prems(2) show ?thesis by simp
  qed
qed

lemma after_reads:
  "0 \<le> sint (mc_stderr_fd c) \<Longrightarrow> inv ra (stderr_ceiling c) c l t \<Longrightarrow> 10 \<notin> set l \<Longrightarrow>
   inv ra (stderr_ceiling c) (stderr_reads ra ps c) (snd (nl_split (l @ concat ps)))
     (t @ kept_lines (unat (stderr_ceiling c)) (fst (nl_split (l @ concat ps))))"
proof (induction ps arbitrary: c l t)
  case Nil
  then show ?case by (simp add: stderr_reads_def nl_split_none kept_lines_def)
next
  case (Cons p ps)
  show ?case
  proof (cases "p = []")
    case True
    with Cons show ?thesis by (simp add: stderr_reads_def af_mcp_read_stderr_def)
  next
    case False
    let ?c = "c\<lparr>mc_stderr_bytes := mc_stderr_bytes c + of_nat (length p)\<rparr>" and ?m = "stderr_ceiling c"
    let ?d = "capture_bytes ra ?m p ?c"
    have m: "stderr_ceiling ?c = ?m" "stderr_ceiling ?d = ?m" by (simp_all add: stderr_ceiling_def)
    have r: "stderr_reads ra (p # ps) c = stderr_reads ra ps ?d"
      using False Cons.prems(1) m by (simp add: stderr_reads_def af_mcp_read_stderr_def af_mcp_capture_stderr_def not_less)
    from after_bytes [OF on_count [OF Cons.prems(2)] Cons.prems(3), of p]
    have d: "inv ra (stderr_ceiling ?d) ?d (snd (nl_split (l @ p))) (t @ kept_lines (unat ?m) (fst (nl_split (l @ p))))"
      by (simp add: m)
    have "0 \<le> sint (mc_stderr_fd ?d)" using Cons.prems(1) by simp
    from Cons.IH [OF this d nl_split_rest] nl_split_append [of "l @ p" "concat ps"] show ?thesis
      by (simp add: r m kept_lines_append)
  qed
qed

end

lemma counted [simp]:
  "err_state m (c\<lparr>mc_stderr_bytes := k\<rparr>) l t = err_state m c l t"
  "err_within m (c\<lparr>mc_stderr_bytes := k\<rparr>) l t = err_within m c l t"
  by (simp_all add: err_state_def err_within_def err_wf_def)

interpretation exactly: captured "\<lambda>ra m c l t. ample ra \<and> err_state m c l t"
  by unfold_locales (simp_all add: errline_byte_state flush_state)

interpretation within: captured "\<lambda>ra m c l t. realloc_law ra \<and> err_within m c l t"
  by unfold_locales (simp_all add: errline_byte_within flush_within)

text \<open>
  C28: The newest of the error output is kept, within its bounds. After any reads of the error pipe
  from empty buffers,
  however they cut the bytes and whatever the allocator answers, the log has at most 65536 bytes and
  is an excerpt, in their order, of the non-empty complete lines written so far, each cut at the line
  ceiling and ended by a line feed (an empty line leaves no trace); the line under way waits as a
  prefix of its bytes, cut at the ceiling as well. If the allocator refuses nothing, the log holds
  exactly the last 65536 bytes of those lines, and the whole of the line under way waits, up to the
  ceiling.
\<close>

theorem stderr_keeps_newest:
  assumes "realloc_law ra" "0 \<le> sint (mc_stderr_fd c)" "err_wf (stderr_ceiling c) c" "\<not> mc_err_truncated c"
    "contents (mc_errline c) = []" "contents (mc_errlog c) = []"
  shows "let (ls, r) = nl_split (concat ps); m = unat (stderr_ceiling c); c' = stderr_reads ra ps c
    in length (contents (mc_errlog c')) \<le> 65536 \<and> subseq (contents (mc_errlog c')) (kept_lines m ls) \<and>
       prefix (contents (mc_errline c')) (take m r) \<and>
       ((\<forall>d n. ra d n \<noteq> None) \<longrightarrow>
          contents (mc_errlog c') = lastn 65536 (kept_lines m ls) \<and> contents (mc_errline c') = take m r)"
proof -
  have "err_state (stderr_ceiling c) c [] []" "err_within (stderr_ceiling c) c [] []"
    using assms(3-6) by (simp_all add: err_state_def err_within_def lastn_def)
  with within.after_reads [OF assms(2), of ra "[]" "[]" ps] exactly.after_reads [OF assms(2), of ra "[]" "[]" ps] assms(1)
  show ?thesis by (auto simp: err_state_def err_within_def ample_def Let_def case_prod_beta keep_value)
qed

text \<open>With memory for all of it, and with none.\<close>

theorem stderr_keeps_newest_witness:
  "let ps = [[97], [98, 99, 10, 10], [100]]; (ls, r) = nl_split (concat ps); m = unat (stderr_ceiling sample_child);
       c' = stderr_reads plain_realloc ps sample_child; d = stderr_reads refusing_realloc ps sample_child
    in contents (mc_errlog c') = lastn 65536 (kept_lines m ls) \<and> contents (mc_errline c') = take m r \<and>
       subseq (contents (mc_errlog d)) (kept_lines m ls) \<and> prefix (contents (mc_errline d)) (take m r)"
proof -
  have c: "0 \<le> sint (mc_stderr_fd sample_child)" "err_wf (stderr_ceiling sample_child) sample_child"
    "\<not> mc_err_truncated sample_child" "contents (mc_errline sample_child) = []" "contents (mc_errlog sample_child) = []"
    by (simp_all add: sample_child_def err_wf_def stderr_ceiling_def buf_wf_def contents_def AF_MCP_STDERR_KEEP_def)
  let ?ps = "[[97], [98, 99, 10, 10], [100]] :: u8 list list"
  have "\<forall>d n. plain_realloc d n \<noteq> None" by (simp add: plain_realloc_def)
  with stderr_keeps_newest [OF plain_realloc_law c, of ?ps] stderr_keeps_newest [OF refusing_realloc_law c, of ?ps]
  show ?thesis unfolding Let_def case_prod_beta by blast
qed

section \<open>The stream to the server\<close>

definition out_wf :: "mcp_child \<Rightarrow> bool" where
  "out_wf c \<longleftrightarrow> buf_wf (mc_outbox c) \<and> mc_out_cursor c \<le> buf_len (mc_outbox c)"

definition unsent :: "mcp_child \<Rightarrow> u8 list" where
  "unsent c = drop (unat (mc_out_cursor c)) (contents (mc_outbox c))"

text \<open>What the server has been written, or will be once the pipe takes it.\<close>

definition to_server :: "mcp_child \<Rightarrow> u8 list" where
  "to_server c = mc_sent c @ unsent c"

lemma written_ok:
  assumes "out_wf c" "k \<le> buf_len (mc_outbox c) - mc_out_cursor c"
  shows "out_wf (mcp_written k c) \<and> to_server (mcp_written k c) = to_server c \<and> prefix (mc_sent c) (mc_sent (mcp_written k c))"
proof -
  have c: "mc_out_cursor c \<le> buf_len (mc_outbox c)" using assms(1) by (simp add: out_wf_def)
  then have "unat (buf_len (mc_outbox c) - mc_out_cursor c) = unat (buf_len (mc_outbox c)) - unat (mc_out_cursor c)"
    by (simp add: unat_sub)
  with assms(2) c have k: "unat (mc_out_cursor c) + unat k \<le> unat (buf_len (mc_outbox c))" by (simp add: word_le_nat_alt)
  then have "unat (mc_out_cursor c + k) = unat (mc_out_cursor c) + unat k"
    using unat_u64_bound [of "buf_len (mc_outbox c)"] by (simp add: unat_word_ariths)
  with assms(1) k show ?thesis
    by (simp add: out_wf_def to_server_def unsent_def mcp_written_def word_le_nat_alt add.commute [of "unat k"])
      (simp add: drop_drop [symmetric] add.commute del: drop_drop)
qed

lemma drained_ok:
  assumes "out_wf c" "mcp_drained c"
  shows "unsent c = [] \<and> out_wf (c\<lparr>mc_outbox := af_buf_clear (mc_outbox c), mc_out_cursor := 0\<rparr>) \<and>
    unsent (c\<lparr>mc_outbox := af_buf_clear (mc_outbox c), mc_out_cursor := 0\<rparr>) = []"
proof -
  have "unsent c = []"
    using assms contents_wf [of "mc_outbox c"]
    by (cases "buf_data (mc_outbox c)") (auto simp: out_wf_def mcp_drained_def unsent_def word_le_nat_alt contents_def)
  with assms(1) emptied_wf [of "mc_outbox c"] show ?thesis by (simp add: out_wf_def unsent_def af_buf_clear_def)
qed

lemma mcp_write_loop_ok:
  "out_wf c \<Longrightarrow> mcp_write_loop rs c = (st, c') \<Longrightarrow>
   out_wf c' \<and> to_server c' = to_server c \<and> prefix (mc_sent c) (mc_sent c') \<and> mc_stdin_open c' = mc_stdin_open c \<and>
   mc_frames_out c' = mc_frames_out c"
proof (induction rs c rule: mcp_write_loop.induct)
  case (1 rs c)
  note step = "1.prems"(2) [unfolded mcp_write_loop.simps [of rs c]]
  show ?case
  proof (cases "mcp_drained c")
    case True
    with step drained_ok [OF "1.prems"(1)] show ?thesis by (auto simp: to_server_def)
  next
    case False
    let ?k = "\<lambda>n. min n (buf_len (mc_outbox c) - mc_out_cursor c)"
    have w: "out_wf (mcp_written (?k n) c) \<and> to_server (mcp_written (?k n) c) = to_server c \<and>
        prefix (mc_sent c) (mc_sent (mcp_written (?k n) c))" for n
      by (rule written_ok [OF "1.prems"(1)]) simp
    have f: "mc_stdin_open (mcp_written k c) = mc_stdin_open c" "mc_frames_out (mcp_written k c) = mc_frames_out c" for k
      by (simp_all add: mcp_written_def)
    show ?thesis
    proof (cases rs)
      case Nil
      with False step "1.prems"(1) show ?thesis by auto
    next
      case (Cons r ss)
      show ?thesis
      proof (cases r)
        case (Wrote n)
        show ?thesis
        proof (cases "?k n = 0")
          case True
          with False step Cons Wrote w [of n] f show ?thesis by (auto simp: Let_def)
        next
          case k: False
          then have r: "mcp_write_loop ss (mcp_written (?k n) c) = (st, c')" using False step Cons Wrote by (simp add: Let_def)
          from "1.IH" [OF False Cons Wrote refl k _ r] w [of n] f show ?thesis by (auto intro: prefix_order.trans)
        qed
      next
        case (WriteFailed e)
        with False step Cons "1.prems"(1) show ?thesis by auto
      qed
    qed
  qed
qed

lemma reserve_within: "unat (buf_len b) + unat k \<le> unat (buf_cap b) \<Longrightarrow> af_buf_reserve ra b k = (AF_OK, b)"
proof (cases "k = 0")
  case False
  assume l: "unat (buf_len b) + unat k \<le> unat (buf_cap b)"
  then have s: "unat (buf_len b) + unat k < 2 ^ 64" using unat_u64_bound [of "buf_cap b"] by simp
  then have "\<not> add_carry (buf_len b) k" by (auto dest: carry_nat)
  moreover have "buf_len b + k \<le> buf_cap b" using l s by (simp add: word_le_nat_alt unat_word_ariths)
  ultimately show ?thesis using False by (simp add: af_buf_reserve_def af_add_size_def)
qed (simp add: af_buf_reserve_def)

lemma append_within:
  assumes "buf_wf b" "unat (buf_len b) + unat n \<le> unat (buf_cap b)" "length p = unat n"
  shows "\<exists>b'. af_buf_append ra b (Some p) n = (AF_OK, b') \<and> buf_wf b' \<and> contents b' = contents b @ p \<and> buf_cap b' = buf_cap b"
proof (cases "n = 0")
  case True
  with assms show ?thesis by (simp add: af_buf_append_def)
next
  case False
  have "buf_cap (put_bytes b p n) = buf_cap b" by (simp add: put_bytes_def split: option.splits)
  with put_bytes_ok [OF assms(1,2,3) False] False reserve_within [OF assms(2)] show ?thesis by (simp add: af_buf_append_def)
qed

lemma send_ok:
  assumes "realloc_law ra" "out_wf c" "length line < 2 ^ 64" "af_mcp_send ra rs line c = (st, c')"
  shows "out_wf c' \<and> prefix (mc_sent c) (mc_sent c') \<and> mc_stdin_open c' = mc_stdin_open c \<and>
    (to_server c' = to_server c \<and> st \<noteq> AF_OK \<and> mc_frames_out c' = mc_frames_out c \<or>
     to_server c' = to_server c @ line @ [10] \<and> mc_frames_out c' = mc_frames_out c + 1)"
proof (cases "\<exists>need b. mc_stdin_open c \<and> af_add_size (of_nat (length line)) 1 = Inr need \<and> af_buf_reserve ra (mc_outbox c) need = (None, b)")
  case False
  with assms(2,4) show ?thesis
    by (auto simp: af_mcp_send_def to_server_def unsent_def out_wf_def dest!: reserve_fail
        split: if_splits sum.splits prod.splits option.splits)
next
  case True
  then obtain need b where on: "mc_stdin_open c" and need: "af_add_size (of_nat (length line)) 1 = Inr need"
    and b: "af_buf_reserve ra (mc_outbox c) need = (None, b)" by blast
  have wf: "buf_wf (mc_outbox c)" "mc_out_cursor c \<le> buf_len (mc_outbox c)" using assms(2) by (simp_all add: out_wf_def)
  have n: "unat need = length line + 1" using af_add_size_nat(1) [OF need] unat_of_length [OF assms(3)] by simp
  note r = reserve_ok [OF wf(1) assms(1) b]
  have l: "length line = unat (of_nat (length line) :: u64)" using unat_of_length [OF assms(3)] by simp
  from append_within [OF _ _ l, of b ra] r n obtain b1 where b1: "af_buf_append ra b (Some line) (of_nat (length line)) = (AF_OK, b1)"
    "buf_wf b1" "contents b1 = contents (mc_outbox c) @ line" "buf_cap b1 = buf_cap b" using l by auto
  have "unat (buf_len b1) + unat (1 :: u64) \<le> unat (buf_cap b1)"
    using contents_wf [OF b1(2)] contents_wf [OF wf(1)] r n b1(3,4) by simp
  from append_within [OF b1(2) this, of "[10]" ra] obtain b2 where b2: "af_buf_append ra b1 (Some [10]) 1 = (AF_OK, b2)"
    "buf_wf b2" "contents b2 = contents b1 @ [10]" by auto
  let ?c = "c\<lparr>mc_outbox := b2, mc_frames_out := mc_frames_out c + 1\<rparr>"
  have "unat (mc_out_cursor c) \<le> length (contents (mc_outbox c))"
    using wf contents_wf [OF wf(1)] by (simp add: word_le_nat_alt)
  then have c: "out_wf ?c" "to_server ?c = to_server c @ line @ [10]"
    using b2 b1(3) contents_wf [OF b2(2)] by (simp_all add: out_wf_def word_le_nat_alt to_server_def unsent_def)
  have "af_mcp_write_stdin rs ?c = (st, c')" using assms(4) on need b b1 b2 by (simp add: af_mcp_send_def)
  then show ?thesis
    using c mcp_write_loop_ok [OF c(1), of rs st c'] by (auto simp: af_mcp_write_stdin_def split: if_splits)
qed

fun mcp_sends :: "(allocator \<times> write_reply list \<times> u8 list) list \<Rightarrow> mcp_child \<Rightarrow> bool list \<times> mcp_child" where
  "mcp_sends [] c = ([], c)"
| "mcp_sends ((ra, rs, line) # ms) c =
     (case af_mcp_send ra rs line c of
        (st, c') \<Rightarrow> (case mcp_sends ms c' of (qs, c'') \<Rightarrow> ((mc_frames_out c' \<noteq> mc_frames_out c) # qs, c'')))"

lemma sends_ok:
  "out_wf c \<Longrightarrow> list_all (\<lambda>(ra, rs, line). realloc_law ra \<and> length line < 2 ^ 64 \<and> 10 \<notin> set line) ms \<Longrightarrow>
   mcp_sends ms c = (qs, c') \<Longrightarrow>
   \<exists>r. to_server c' = to_server c @ r \<and> prefix (mc_sent c) (mc_sent c') \<and>
     nl_split r = (map (\<lambda>((ra, rs, line), q). line) (filter snd (zip ms qs)), [])"
proof (induction ms arbitrary: c qs)
  case Nil
  then show ?case by auto
next
  case (Cons m ms)
  obtain ra rs line where m: "m = (ra, rs, line)" by (cases m)
  obtain st c1 where s: "af_mcp_send ra rs line c = (st, c1)" by fastforce
  obtain qs1 where q: "mcp_sends ms c1 = (qs1, c')" "qs = (mc_frames_out c1 \<noteq> mc_frames_out c) # qs1"
    using Cons.prems(3) m s by (auto split: prod.splits)
  have o: "out_wf c1 \<and> prefix (mc_sent c) (mc_sent c1) \<and> mc_stdin_open c1 = mc_stdin_open c \<and>
    (to_server c1 = to_server c \<and> st \<noteq> AF_OK \<and> mc_frames_out c1 = mc_frames_out c \<or>
     to_server c1 = to_server c @ line @ [10] \<and> mc_frames_out c1 = mc_frames_out c + 1)"
    using send_ok [OF _ Cons.prems(1) _ s] Cons.prems(2) m by simp
  from Cons.IH [OF _ _ q(1)] o Cons.prems(2) obtain r where r: "to_server c' = to_server c1 @ r" "prefix (mc_sent c1) (mc_sent c')"
    "nl_split r = (map (\<lambda>((ra, rs, line), q). line) (filter snd (zip ms qs1)), [])" by auto
  have n: "nl_split (line @ 10 # r) = (line # fst (nl_split r), snd (nl_split r))"
    using nl_split_line Cons.prems(2) m by simp
  show ?case
  proof (cases "mc_frames_out c1 = mc_frames_out c")
    case True
    with o r q(2) m show ?thesis by (intro exI [of _ r]) (auto intro: prefix_order.trans)
  next
    case False
    with o r q(2) m n show ?thesis by (intro exI [of _ "line @ 10 # r"]) (auto intro: prefix_order.trans)
  qed
qed

text \<open>
  C23: Messages to the server are queued whole. Whatever the allocator and the kernel answer, the
  stream to the server only grows, by whole lines: split at its line feeds it is exactly the
  messages that were counted as queued, in order, with no fragment of a refused one, and what
  the kernel was given is kept as it was.
\<close>

theorem mcp_messages_queued_whole:
  assumes "out_wf c" "to_server c = []" "mcp_sends ms c = (qs, c')"
    "list_all (\<lambda>(ra, rs, line). realloc_law ra \<and> length line < 2 ^ 64 \<and> 10 \<notin> set line) ms"
  shows "nl_split (to_server c') = (map (\<lambda>((ra, rs, line), q). line) (filter snd (zip ms qs)), []) \<and>
    prefix (mc_sent c') (to_server c')"
  using sends_ok [OF assms(1,4,3)] assms(2) by (auto simp: to_server_def)

theorem mcp_messages_queued_whole_witness:
  "let ms = [(plain_realloc, [Wrote 1], [97, 98]), (refusing_realloc, [], replicate 90 99), (plain_realloc, [], [100])];
       (qs, c') = mcp_sends ms sample_child
   in nl_split (to_server c') = (map (\<lambda>((ra, rs, line), q). line) (filter snd (zip ms qs)), []) \<and>
    prefix (mc_sent c') (to_server c')"
  unfolding Let_def case_prod_beta [of _ "mcp_sends _ _"]
  by (rule mcp_messages_queued_whole [of sample_child])
    (simp_all add: sample_child_def out_wf_def buf_wf_def to_server_def unsent_def contents_def plain_realloc_law refusing_realloc_law)

end
