(* ===== verification/Mcp_Rpc.thy ===== *)
theory Mcp_Rpc
  imports Mcp_Frame Json_Reader
begin

text \<open>
  The messages of a supervised server: \<open>src/mcp/mcp_rpc.asm\<close>, and the choice of the transport in
  \<open>src/mcp/mcp_transport.asm\<close>. The session has the table of calls and the counters of
  \<open>af_mcp_child\<close>; the pipes are the record of \<open>Mcp_Frame\<close>, and the transport over HTTP is an
  argument. A call is named by its index in the table. Jansson is bundled in \<open>json_lib\<close>.
\<close>

section \<open>Calls\<close>

datatype call_state = CALL_FREE | CALL_PENDING | CALL_DONE

record mcp_call =
  cl_state :: call_state
  cl_id :: u64
  cl_kind :: u64
  cl_deadline :: u64
  cl_status :: "af_status option"
  cl_result :: af_buffer
  cl_error_code :: u64
  cl_http_status :: u64
  cl_flags :: u64

record mcp_session =
  ms_calls :: "mcp_call list"
  ms_next_id :: u64
  ms_notifications :: u64
  ms_unmatched :: u64
  ms_contaminated :: u64
  ms_transport :: u64
  ms_era :: u64

definition AF_MCP_MAX_CALLS :: nat where "AF_MCP_MAX_CALLS = 8"
definition AF_MCP_INVENTORY_MAX :: u64 where "AF_MCP_INVENTORY_MAX = 1024 * 1024"
definition AF_MCP_CANCEL_FRAME_MAX :: u64 where "AF_MCP_CANCEL_FRAME_MAX = 512"
definition AF_TRANSPORT_STDIO :: u64 where "AF_TRANSPORT_STDIO = 0"
definition AF_TRANSPORT_STREAMABLE_HTTP :: u64 where "AF_TRANSPORT_STREAMABLE_HTTP = 1"
definition AF_ERA_MODERN :: u64 where "AF_ERA_MODERN = 1"
definition AF_ERA_LEGACY :: u64 where "AF_ERA_LEGACY = 2"
definition AF_MCP_CALL_DISCOVER :: u64 where "AF_MCP_CALL_DISCOVER = 0"
definition AF_MCP_CALL_INITIALIZE :: u64 where "AF_MCP_CALL_INITIALIZE = 1"
definition AF_MCP_CALL_COUNT :: u64 where "AF_MCP_CALL_COUNT = 6"

definition k_jsonrpc :: "u8 list" where "k_jsonrpc = [106, 115, 111, 110, 114, 112, 99, 0]"
definition k_id :: "u8 list" where "k_id = [105, 100, 0]"
definition k_method :: "u8 list" where "k_method = [109, 101, 116, 104, 111, 100, 0]"
definition k_params :: "u8 list" where "k_params = [112, 97, 114, 97, 109, 115, 0]"
definition k_result :: "u8 list" where "k_result = [114, 101, 115, 117, 108, 116, 0]"
definition k_error :: "u8 list" where "k_error = [101, 114, 114, 111, 114, 0]"
definition k_code :: "u8 list" where "k_code = [99, 111, 100, 101, 0]"
definition k_message :: "u8 list" where "k_message = [109, 101, 115, 115, 97, 103, 101, 0]"
definition k_request_id :: "u8 list" where "k_request_id = [114, 101, 113, 117, 101, 115, 116, 73, 100, 0]"
definition k_reason :: "u8 list" where "k_reason = [114, 101, 97, 115, 111, 110, 0]"
definition v_two :: "u8 list" where "v_two = [50, 46, 48, 0]"
definition m_cancelled :: "u8 list" where "m_cancelled = [110, 111, 116, 105, 102, 105, 99, 97, 116, 105, 111, 110, 115, 47, 99, 97, 110, 99, 101, 108, 108, 101, 100, 0]"
definition v_timeout_reason :: "u8 list" where "v_timeout_reason = [114, 101, 113, 117, 101, 115, 116, 32, 116, 105, 109, 101, 111, 117, 116, 0]"

definition zero_call :: mcp_call where
  "zero_call = \<lparr>cl_state = CALL_FREE, cl_id = 0, cl_kind = 0, cl_deadline = 0, cl_status = AF_OK,
     cl_result = \<lparr>buf_data = None, buf_len = 0, buf_cap = 0, buf_max = 0\<rparr>, cl_error_code = 0,
     cl_http_status = 0, cl_flags = 0\<rparr>"

text \<open>The first call of the table that has a property.\<close>

fun scan_calls :: "(mcp_call \<Rightarrow> bool) \<Rightarrow> nat \<Rightarrow> mcp_call list \<Rightarrow> nat option" where
  "scan_calls P i [] = None"
| "scan_calls P i (c # cs) = (if P c then Some i else scan_calls P (i + 1) cs)"

definition set_call :: "nat \<Rightarrow> mcp_call \<Rightarrow> mcp_session \<Rightarrow> mcp_session" where
  "set_call i c s = s\<lparr>ms_calls := (ms_calls s)[i := c]\<rparr>"

definition af_mcp_call_alloc :: "u64 \<Rightarrow> u64 \<Rightarrow> mcp_session \<Rightarrow> nat option \<times> mcp_session" where
  "af_mcp_call_alloc kind deadline s =
     (case scan_calls (\<lambda>c. cl_state c = CALL_FREE) 0 (ms_calls s) of
        None \<Rightarrow> (None, s)
      | Some i \<Rightarrow>
          (case af_buf_init AF_MCP_INVENTORY_MAX of
             Inl e \<Rightarrow> (None, s)
           | Inr b \<Rightarrow>
               let s = s\<lparr>ms_next_id := ms_next_id s + 1\<rparr>
               in (Some i, set_call i ((ms_calls s ! i)\<lparr>cl_result := b, cl_id := ms_next_id s, cl_kind := kind,
                 cl_deadline := deadline, cl_status := AF_OK, cl_error_code := 0, cl_state := CALL_PENDING\<rparr>) s)))"

definition af_mcp_call_find :: "mcp_session \<Rightarrow> u64 \<Rightarrow> nat option" where
  "af_mcp_call_find s n = scan_calls (\<lambda>c. cl_state c \<noteq> CALL_FREE \<and> cl_id c = n) 0 (ms_calls s)"

definition af_mcp_call_release :: "mcp_call \<Rightarrow> mcp_call" where
  "af_mcp_call_release c = (if cl_state c = CALL_FREE then c else zero_call)"

definition release_call :: "nat \<Rightarrow> mcp_session \<Rightarrow> mcp_session" where
  "release_call i s = set_call i (af_mcp_call_release (ms_calls s ! i)) s"

definition af_mcp_calls_release :: "mcp_session \<Rightarrow> mcp_session" where
  "af_mcp_calls_release s = s\<lparr>ms_calls := map af_mcp_call_release (ms_calls s)\<rparr>"

section \<open>Messages from the server\<close>

record json_lib =
  jl_room :: bool
  jl_load :: jansson
  jl_get :: object_get
  jl_dump :: "jnode \<Rightarrow> u8 list option"

text \<open>What a response carries: a result, or an error object with its code.\<close>

datatype reply = Answer jnode | Failure jnode u64

definition is_object :: "jnode option \<Rightarrow> bool" where
  "is_object v = (case v of Some (JN_Object ms) \<Rightarrow> True | _ \<Rightarrow> False)"

definition jsonrpc_two :: "object_get \<Rightarrow> jnode option \<Rightarrow> bool" where
  "jsonrpc_two get root =
     (case af_json_get_string get root k_jsonrpc of
        Inl e \<Rightarrow> False
      | Inr (s, n) \<Rightarrow> n = 3 \<and> s = c_bytes v_two)"

definition response_body :: "object_get \<Rightarrow> jnode option \<Rightarrow> reply option" where
  "response_body get root =
     (case af_json_member get root k_result of
        Inr v \<Rightarrow> (case af_json_member get root k_error of Inr _ \<Rightarrow> None | Inl _ \<Rightarrow> Some (Answer v))
      | Inl _ \<Rightarrow>
          (case af_json_member get root k_error of
             Inl _ \<Rightarrow> None
           | Inr e \<Rightarrow>
               if \<not> is_object (Some e) then None
               else
                 (case af_json_get_integer get (Some e) k_code of
                    Inl _ \<Rightarrow> None
                  | Inr code \<Rightarrow>
                      (case af_json_get_string get (Some e) k_message of
                         Inl _ \<Rightarrow> None
                       | Inr _ \<Rightarrow> Some (Failure e code)))))"

definition request_id_ok :: "object_get \<Rightarrow> jnode option \<Rightarrow> bool" where
  "request_id_ok get root =
     (case af_json_member get root k_id of
        Inl e \<Rightarrow> e = AF_E_NOTFOUND
      | Inr v \<Rightarrow> (case v of JN_String s \<Rightarrow> True | JN_Integer n \<Rightarrow> True | JN_Null \<Rightarrow> True | _ \<Rightarrow> False))"

definition request_params_ok :: "object_get \<Rightarrow> jnode option \<Rightarrow> bool" where
  "request_params_ok get root =
     (case af_json_member get root k_params of
        Inl e \<Rightarrow> e = AF_E_NOTFOUND
      | Inr v \<Rightarrow> (case v of JN_Object ms \<Rightarrow> True | JN_Array vs \<Rightarrow> True | _ \<Rightarrow> False))"

definition request_ok :: "object_get \<Rightarrow> jnode option \<Rightarrow> bool" where
  "request_ok get root =
     (case af_json_get_string get root k_method of
        Inl _ \<Rightarrow> False
      | Inr _ \<Rightarrow>
          (case af_json_member get root k_result of
             Inr _ \<Rightarrow> False
           | Inl _ \<Rightarrow>
               (case af_json_member get root k_error of
                  Inr _ \<Rightarrow> False
                | Inl _ \<Rightarrow> request_id_ok get root \<and> request_params_ok get root)))"

definition af_mcp_store_result :: "json_lib \<Rightarrow> allocator \<Rightarrow> jnode \<Rightarrow> mcp_call \<Rightarrow> af_status option \<times> mcp_call" where
  "af_mcp_store_result lib ra v c =
     (let c = c\<lparr>cl_result := af_buf_clear (cl_result c)\<rparr>
      in case jl_dump lib v of
           None \<Rightarrow> (Some AF_E_NOMEM, c)
         | Some p \<Rightarrow> (case af_buf_append ra (cl_result c) (Some p) (of_nat (length p)) of
             (st, b) \<Rightarrow> (st, c\<lparr>cl_result := b\<rparr>)))"

text \<open>A pending call and the response to it: from here on it is done, whatever the storage says.\<close>

definition complete_call :: "json_lib \<Rightarrow> allocator \<Rightarrow> reply \<Rightarrow> mcp_call \<Rightarrow> mcp_call" where
  "complete_call lib ra r c =
     (case r of
        Answer v \<Rightarrow>
          (case af_mcp_store_result lib ra v c of
             (Some e, c) \<Rightarrow> c\<lparr>cl_status := Some e, cl_state := CALL_DONE\<rparr>
           | (None, c) \<Rightarrow> c\<lparr>cl_status := AF_OK, cl_state := CALL_DONE\<rparr>)
      | Failure v code \<Rightarrow>
          (case af_mcp_store_result lib ra v (c\<lparr>cl_error_code := code\<rparr>) of
             (Some e, c) \<Rightarrow> c\<lparr>cl_status := Some e, cl_state := CALL_DONE\<rparr>
           | (None, c) \<Rightarrow> c\<lparr>cl_status := Some AF_E_MCP_PROTOCOL, cl_state := CALL_DONE\<rparr>))"

definition unmatched :: "mcp_session \<Rightarrow> mcp_session" where
  "unmatched s = s\<lparr>ms_unmatched := ms_unmatched s + 1\<rparr>"

definition correlate :: "json_lib \<Rightarrow> allocator \<Rightarrow> u64 \<Rightarrow> reply \<Rightarrow> mcp_session \<Rightarrow> mcp_session" where
  "correlate lib ra n r s =
     (case af_mcp_call_find s n of
        None \<Rightarrow> unmatched s
      | Some i \<Rightarrow>
          if cl_state (ms_calls s ! i) \<noteq> CALL_PENDING then unmatched s
          else set_call i (complete_call lib ra r (ms_calls s ! i)) s)"

definition contaminated :: "mcp_session \<Rightarrow> af_status option \<times> mcp_session" where
  "contaminated s = (Some AF_E_MCP_PROTOCOL, s\<lparr>ms_contaminated := ms_contaminated s + 1\<rparr>)"

definition message_limits :: "u64 \<Rightarrow> u8 list \<Rightarrow> af_json_limits" where
  "message_limits frame_max line =
     \<lparr>lim_max_bytes = (if frame_max = 0 then of_nat (length line) else frame_max), lim_max_depth = 64,
      lim_max_string = 1048576, lim_max_elems = 100000\<rparr>"

definition af_mcp_on_message :: "json_lib \<Rightarrow> allocator \<Rightarrow> u64 \<Rightarrow> mcp_session on_message" where
  "af_mcp_on_message lib ra frame_max line s =
     (if line = [] then contaminated s
      else
        case af_json_parse (jl_room lib) (jl_load lib) line (message_limits frame_max line) of
          (Some e, d) \<Rightarrow> contaminated s
        | (None, d) \<Rightarrow>
            let root = af_json_doc_root d; get = jl_get lib
            in if \<not> is_object root then contaminated s
               else if \<not> jsonrpc_two get root then contaminated s
               else
                 (case af_json_member get root k_method of
                    Inr _ \<Rightarrow>
                      if request_ok get root then (AF_OK, s\<lparr>ms_notifications := ms_notifications s + 1\<rparr>)
                      else contaminated s
                  | Inl _ \<Rightarrow>
                      (case af_json_get_integer get root k_id of
                         Inl _ \<Rightarrow> contaminated s
                       | Inr n \<Rightarrow>
                           (case response_body get root of
                              None \<Rightarrow> contaminated s
                            | Some r \<Rightarrow> (AF_OK, correlate lib ra n r s)))))"

section \<open>Messages to the server\<close>

type_synonym mcp_peer = "mcp_session \<times> mcp_child"

text \<open>The transport over HTTP: what it does with a request, a notification and a cancellation.\<close>

record mcp_http =
  http_request :: "nat \<Rightarrow> u8 list \<Rightarrow> u8 list \<Rightarrow> mcp_peer \<Rightarrow> af_status option \<times> mcp_peer"
  http_notify :: "u8 list \<Rightarrow> u8 list \<Rightarrow> mcp_peer \<Rightarrow> af_status option \<times> mcp_peer"
  http_cancel :: "nat \<Rightarrow> mcp_peer \<Rightarrow> af_status option \<times> mcp_peer"

text \<open>The surroundings of a call that sends: the transport, the allocator, the kernel's answers.\<close>

record mcp_env =
  env_http :: mcp_http
  env_realloc :: allocator
  env_writes :: "write_reply list"

definition stdio_send :: "mcp_env \<Rightarrow> u8 list \<Rightarrow> mcp_peer \<Rightarrow> af_status option \<times> mcp_peer" where
  "stdio_send env body p =
     (case af_mcp_send (env_realloc env) (env_writes env) body (snd p) of (st, c) \<Rightarrow> (st, (fst p, c)))"

definition af_mcp_transport_request ::
  "mcp_env \<Rightarrow> nat \<Rightarrow> u8 list \<Rightarrow> u8 list option \<Rightarrow> mcp_peer \<Rightarrow> af_status option \<times> mcp_peer" where
  "af_mcp_transport_request env i method body p =
     (case body of
        None \<Rightarrow> (Some AF_E_INVALID, p)
      | Some b \<Rightarrow>
          if ms_transport (fst p) = AF_TRANSPORT_STDIO then stdio_send env b p
          else if ms_transport (fst p) \<noteq> AF_TRANSPORT_STREAMABLE_HTTP then (Some AF_E_INVALID, p)
          else http_request (env_http env) i method b p)"

definition af_mcp_transport_notify ::
  "mcp_env \<Rightarrow> u8 list \<Rightarrow> u8 list option \<Rightarrow> mcp_peer \<Rightarrow> af_status option \<times> mcp_peer" where
  "af_mcp_transport_notify env method body p =
     (case body of
        None \<Rightarrow> (Some AF_E_INVALID, p)
      | Some b \<Rightarrow>
          if ms_transport (fst p) = AF_TRANSPORT_STDIO then stdio_send env b p
          else if ms_transport (fst p) \<noteq> AF_TRANSPORT_STREAMABLE_HTTP then (Some AF_E_INVALID, p)
          else http_notify (env_http env) method b p)"

text \<open>The bytes of a finished line, as the transport is given them.\<close>

definition line_of :: "json_writer \<Rightarrow> u8 list option" where
  "line_of w = (if buf_data (jw_out w) = None then None else Some (contents (jw_out w)))"

definition write_params :: "allocator \<Rightarrow> u8 list option \<Rightarrow> json_writer \<Rightarrow> json_writer" where
  "write_params ra params w =
     (case params of
        None \<Rightarrow> w
      | Some p \<Rightarrow> snd (af_jw_raw ra (jw_run ra [Put_Key k_params] w) (c_bytes p)))"

definition write_request :: "allocator \<Rightarrow> u64 \<Rightarrow> u8 list \<Rightarrow> u8 list option \<Rightarrow> json_writer \<Rightarrow> json_writer" where
  "write_request ra n method params w =
     jw_run ra [End_Object] (write_params ra params
       (jw_run ra [Begin_Object, Put_Key k_jsonrpc, Put_Cstr (Some v_two), Put_Key k_id, Put_Uint n,
          Put_Key k_method, Put_Cstr (Some method)] w))"

definition write_notice :: "allocator \<Rightarrow> u8 list \<Rightarrow> u8 list option \<Rightarrow> json_writer \<Rightarrow> json_writer" where
  "write_notice ra method params w =
     jw_run ra [End_Object] (write_params ra params
       (jw_run ra [Begin_Object, Put_Key k_jsonrpc, Put_Cstr (Some v_two),
          Put_Key k_method, Put_Cstr (Some method)] w))"

definition write_cancelled :: "allocator \<Rightarrow> u64 \<Rightarrow> json_writer \<Rightarrow> json_writer" where
  "write_cancelled ra n w =
     jw_run ra [Begin_Object, Put_Key k_jsonrpc, Put_Cstr (Some v_two), Put_Key k_method, Put_Cstr (Some m_cancelled),
       Put_Key k_params, Begin_Object, Put_Key k_request_id, Put_Uint n, Put_Key k_reason,
       Put_Cstr (Some v_timeout_reason), End_Object, End_Object] w"

text \<open>The deadline of a call; none when it has no timeout, an error when it does not fit.\<close>

definition call_deadline :: "u64 \<Rightarrow> u64 \<Rightarrow> af_status + u64" where
  "call_deadline now timeout_ms =
     (if timeout_ms = 0 then Inr 0
      else case af_mul_size timeout_ms NS_PER_MS of
        Inl e \<Rightarrow> Inl e
      | Inr d \<Rightarrow> af_add_size now d)"

definition af_mcp_request ::
  "mcp_env \<Rightarrow> u64 \<Rightarrow> u8 list \<Rightarrow> u8 list option \<Rightarrow> u64 \<Rightarrow> u64 \<Rightarrow> mcp_peer \<Rightarrow> nat option \<times> mcp_peer" where
  "af_mcp_request env now method params kind timeout_ms p =
     (case call_deadline now timeout_ms of
        Inl e \<Rightarrow> (None, p)
      | Inr deadline \<Rightarrow>
          (case af_mcp_call_alloc kind deadline (fst p) of
             (None, s) \<Rightarrow> (None, (s, snd p))
           | (Some i, s) \<Rightarrow>
               (case af_buf_init AF_MCP_INVENTORY_MAX of
                  Inl e \<Rightarrow> (None, (release_call i s, snd p))
                | Inr b \<Rightarrow>
                    (case af_jw_finish (write_request (env_realloc env) (cl_id (ms_calls s ! i)) method params (af_jw_init b)) of
                       (Some e, w) \<Rightarrow> (None, (release_call i s, snd p))
                     | (None, w) \<Rightarrow>
                         (case af_mcp_transport_request env i method (line_of w) (s, snd p) of
                            (Some e, (s, c)) \<Rightarrow> (None, (release_call i s, c))
                          | (None, q) \<Rightarrow> (Some i, q))))))"

text \<open>
  A notification. When the line could not be written the buffer is freed and what the status
  register then holds is returned: \<open>after_free\<close>.
\<close>

definition af_mcp_notify ::
  "mcp_env \<Rightarrow> af_status option \<Rightarrow> u8 list \<Rightarrow> u8 list option \<Rightarrow> mcp_peer \<Rightarrow> af_status option \<times> mcp_peer" where
  "af_mcp_notify env after_free method params p =
     (case af_buf_init AF_MCP_INVENTORY_MAX of
        Inl e \<Rightarrow> (Some e, p)
      | Inr b \<Rightarrow>
          (case af_jw_finish (write_notice (env_realloc env) method params (af_jw_init b)) of
             (Some e, w) \<Rightarrow> (after_free, p)
           | (None, w) \<Rightarrow> af_mcp_transport_notify env method (line_of w) p))"

section \<open>Timeouts\<close>

definition af_mcp_emit_cancelled :: "mcp_env \<Rightarrow> nat \<Rightarrow> mcp_peer \<Rightarrow> af_status option \<times> mcp_peer" where
  "af_mcp_emit_cancelled env i p =
     (case af_buf_init AF_MCP_CANCEL_FRAME_MAX of
        Inl e \<Rightarrow> (Some e, p)
      | Inr b \<Rightarrow>
          (case af_jw_finish (write_cancelled (env_realloc env) (cl_id (ms_calls (fst p) ! i)) (af_jw_init b)) of
             (Some e, w) \<Rightarrow> (Some e, p)
           | (None, w) \<Rightarrow> af_mcp_transport_notify env m_cancelled (line_of w) p))"

definition af_mcp_cancel_modern where "af_mcp_cancel_modern = af_mcp_emit_cancelled"
definition af_mcp_cancel_legacy where "af_mcp_cancel_legacy = af_mcp_emit_cancelled"

definition af_mcp_cancel_timed_out :: "mcp_env \<Rightarrow> nat \<Rightarrow> mcp_peer \<Rightarrow> af_status option \<times> mcp_peer" where
  "af_mcp_cancel_timed_out env i p =
     (let kind = cl_kind (ms_calls (fst p) ! i)
      in if ms_transport (fst p) = AF_TRANSPORT_STREAMABLE_HTTP then http_cancel (env_http env) i p
         else if kind = AF_MCP_CALL_INITIALIZE then (AF_OK, p)
         else if kind = AF_MCP_CALL_DISCOVER then af_mcp_cancel_modern env i p
         else if AF_MCP_CALL_COUNT \<le> kind then (Some AF_E_INVALID, p)
         else if ms_era (fst p) = AF_ERA_MODERN then af_mcp_cancel_modern env i p
         else if ms_era (fst p) \<noteq> AF_ERA_LEGACY then (Some AF_E_MCP_ERA, p)
         else af_mcp_cancel_legacy env i p)"

definition expired :: "u64 \<Rightarrow> mcp_call \<Rightarrow> bool" where
  "expired now c \<longleftrightarrow> cl_state c = CALL_PENDING \<and> cl_deadline c \<noteq> 0 \<and> \<not> now < cl_deadline c"

definition retire_call :: "nat \<Rightarrow> mcp_session \<Rightarrow> mcp_session" where
  "retire_call i s = set_call i ((ms_calls s ! i)\<lparr>cl_status := Some AF_E_MCP_TIMEOUT, cl_state := CALL_DONE\<rparr>) s"

text \<open>The loop over the table; the surroundings may differ from call to call.\<close>

fun sweep_loop :: "(nat \<Rightarrow> mcp_env) \<Rightarrow> u64 \<Rightarrow> nat list \<Rightarrow> u64 \<Rightarrow> af_status option \<Rightarrow> mcp_peer \<Rightarrow> u64 \<times> af_status option \<times> mcp_peer" where
  "sweep_loop env now [] n err p = (n, err, p)"
| "sweep_loop env now (i # is) n err p =
     (if expired now (ms_calls (fst p) ! i)
      then (case af_mcp_cancel_timed_out (env i) i p of
              (st, (s, c)) \<Rightarrow> sweep_loop env now is (n + 1) (if err = None then st else err) (retire_call i s, c))
      else sweep_loop env now is n err p)"

definition af_mcp_sweep_calls :: "(nat \<Rightarrow> mcp_env) \<Rightarrow> u64 \<Rightarrow> mcp_peer \<Rightarrow> (af_status + u64) \<times> mcp_peer" where
  "af_mcp_sweep_calls env now p =
     (case sweep_loop env now [0..<AF_MCP_MAX_CALLS] 0 None p of
        (n, Some e, q) \<Rightarrow> (Inl e, q)
      | (n, None, q) \<Rightarrow> (Inr n, q))"

section \<open>What a message says\<close>

text \<open>
  JSON-RPC 2.0 on documents: a request or notification, a response with a result, and one with an
  error object.
\<close>

definition rpc_two :: "json \<Rightarrow> bool" where
  "rpc_two j \<longleftrightarrow> member_of j (str ''jsonrpc'') = Inr (JStr (str ''2.0''))"

definition member_absent :: "json \<Rightarrow> pystr \<Rightarrow> bool" where
  "member_absent j k \<longleftrightarrow> member_of j k = Inl AF_E_NOTFOUND"

definition id_value :: "json \<Rightarrow> bool" where
  "id_value w \<longleftrightarrow> w = JNull \<or> (\<exists>t. w = JStr t) \<or> (\<exists>n. w = JInt n)"

definition structured :: "json \<Rightarrow> bool" where
  "structured w \<longleftrightarrow> (\<exists>ds. w = JObj ds) \<or> (\<exists>ws. w = JArr ws)"

definition rpc_request :: "json \<Rightarrow> bool" where
  "rpc_request j \<longleftrightarrow> rpc_two j \<and> (\<exists>m. member_of j (str ''method'') = Inr (JStr m)) \<and>
     member_absent j (str ''result'') \<and> member_absent j (str ''error'') \<and>
     (member_absent j (str ''id'') \<or> (\<exists>w. member_of j (str ''id'') = Inr w \<and> id_value w)) \<and>
     (member_absent j (str ''params'') \<or> (\<exists>w. member_of j (str ''params'') = Inr w \<and> structured w))"

definition rpc_answer :: "json \<Rightarrow> int \<Rightarrow> json \<Rightarrow> bool" where
  "rpc_answer j n w \<longleftrightarrow> rpc_two j \<and> member_absent j (str ''method'') \<and> member_of j (str ''id'') = Inr (JInt n) \<and>
     member_of j (str ''result'') = Inr w \<and> member_absent j (str ''error'')"

definition rpc_failure :: "json \<Rightarrow> int \<Rightarrow> json \<Rightarrow> int \<Rightarrow> bool" where
  "rpc_failure j n w code \<longleftrightarrow> rpc_two j \<and> member_absent j (str ''method'') \<and> member_of j (str ''id'') = Inr (JInt n) \<and>
     member_absent j (str ''result'') \<and> member_of j (str ''error'') = Inr w \<and>
     member_of w (str ''code'') = Inr (JInt code) \<and> (\<exists>m. member_of w (str ''message'') = Inr (JStr m))"

lemma key_names:
  "utf8_decode (wire (c_bytes k_jsonrpc)) = Some (str ''jsonrpc'')" "utf8_decode (wire (c_bytes k_id)) = Some (str ''id'')"
  "utf8_decode (wire (c_bytes k_method)) = Some (str ''method'')" "utf8_decode (wire (c_bytes k_params)) = Some (str ''params'')"
  "utf8_decode (wire (c_bytes k_result)) = Some (str ''result'')" "utf8_decode (wire (c_bytes k_error)) = Some (str ''error'')"
  "utf8_decode (wire (c_bytes k_code)) = Some (str ''code'')" "utf8_decode (wire (c_bytes k_message)) = Some (str ''message'')"
  "utf8_decode (wire (c_bytes v_two)) = Some (str ''2.0'')"
  by code_simp+

text \<open>A member of the tree and of the document, and the other way round.\<close>

definition same_member :: "af_status + jnode \<Rightarrow> af_status + json \<Rightarrow> bool" where
  "same_member x y \<longleftrightarrow> (case x of Inl e \<Rightarrow> y = Inl e | Inr m \<Rightarrow> \<exists>w. y = Inr w \<and> agrees m w)"

lemma member_same:
  "finds_members get \<Longrightarrow> agrees v j \<Longrightarrow> utf8_decode (wire (c_bytes key)) = Some k \<Longrightarrow>
   same_member (af_json_member get (Some v) key) (member_of j k)"
  using member_agrees [of get v j key k] by (auto simp: same_member_def split: sum.splits)

lemma agrees_shapes:
  "agrees v (JObj ds) \<longleftrightarrow> (\<exists>ms. v = JN_Object ms \<and> agree_members ms ds)"
  "agrees v (JArr ws) \<longleftrightarrow> (\<exists>vs. v = JN_Array vs \<and> agree_all vs ws)"
  "agrees v (JStr t) \<longleftrightarrow> (\<exists>s. v = JN_String s \<and> utf8_decode (wire s) = Some t)"
  "agrees v (JInt n) \<longleftrightarrow> (\<exists>x. v = JN_Integer x \<and> n = sint x)"
  "agrees v JNull \<longleftrightarrow> v = JN_Null"
  by (cases v; auto)+

lemma string_member_iff:
  assumes "same_member (af_json_member get v key) y"
  shows "(\<exists>r. af_json_get_string get v key = Inr r) \<longleftrightarrow> (\<exists>t. y = Inr (JStr t))"
  using assms by (auto simp: same_member_def af_json_get_string_def agrees_shapes split: sum.splits jnode.splits json.splits)

lemma sint_inject: "sint (x :: u64) = sint y \<longleftrightarrow> x = y"
  using signed_word_eqI [of x y] by auto

lemma integer_member:
  assumes "same_member (af_json_member get v key) y"
  shows "af_json_get_integer get v key = Inr x \<longleftrightarrow> y = Inr (JInt (sint x))"
  using assms by (auto simp: same_member_def af_json_get_integer_def agrees_shapes sint_inject
      split: sum.splits jnode.splits json.splits)

lemma jsonrpc_two_iff:
  assumes "finds_members get" "agrees v j"
  shows "jsonrpc_two get (Some v) \<longleftrightarrow> rpc_two j"
proof -
  let ?m = "af_json_member get (Some v) k_jsonrpc"
  have s: "same_member ?m (member_of j (str ''jsonrpc''))" by (rule member_same [OF assms key_names(1)])
  have two: "utf8_decode (wire s) = Some (str ''2.0'') \<longleftrightarrow> s = c_bytes v_two" for s
    using utf8_decode_inject [of s _ "c_bytes v_two"] key_names(9) by auto
  have l: "length (c_bytes v_two) = 3" by code_simp
  show ?thesis
  proof (cases "\<exists>t. ?m = Inr (JN_String t)")
    case True
    then obtain t where t: "?m = Inr (JN_String t)" by blast
    with s obtain u where u: "member_of j (str ''jsonrpc'') = Inr u" "agrees (JN_String t) u" by (auto simp: same_member_def)
    then obtain w where w: "member_of j (str ''jsonrpc'') = Inr (JStr w)" "utf8_decode (wire t) = Some w" by (cases u) simp_all
    have "rpc_two j \<longleftrightarrow> t = c_bytes v_two" using w two [of t] by (auto simp: rpc_two_def)
    then show ?thesis using t l by (auto simp: jsonrpc_two_def af_json_get_string_def)
  next
    case False
    then have "\<not> jsonrpc_two get (Some v)"
      by (auto simp: jsonrpc_two_def af_json_get_string_def split: sum.splits jnode.splits)
    moreover have "\<not> rpc_two j" using False s by (auto simp: rpc_two_def same_member_def agrees_shapes split: sum.splits)
    ultimately show ?thesis by simp
  qed
qed

lemma absent_iff:
  assumes "same_member x y"
  shows "x = Inl AF_E_NOTFOUND \<longleftrightarrow> y = Inl AF_E_NOTFOUND" "(\<exists>m. x = Inr m) \<longleftrightarrow> (\<exists>w. y = Inr w)"
  using assms by (auto simp: same_member_def split: sum.splits)

text \<open>In an object a member is there or it is absent.\<close>

lemma object_members:
  assumes "is_object (Some v)" "agrees v j"
  shows "(\<exists>w. member_of j k = Inr w) \<longleftrightarrow> \<not> member_absent j k"
  using assms by (auto simp: is_object_def member_absent_def member_of_def split: jnode.splits json.splits option.splits)

lemma object_members_tree:
  assumes "is_object (Some v)" "af_json_member get (Some v) key = Inl e"
  shows "e = AF_E_NOTFOUND"
  using assms by (auto simp: is_object_def af_json_member_def split: jnode.splits option.splits)

lemma request_id_iff:
  assumes "finds_members get" "agrees v j"
  shows "request_id_ok get (Some v) \<longleftrightarrow> member_absent j (str ''id'') \<or> (\<exists>w. member_of j (str ''id'') = Inr w \<and> id_value w)"
proof -
  have id: "(case m of JN_String s \<Rightarrow> True | JN_Integer n \<Rightarrow> True | JN_Null \<Rightarrow> True | _ \<Rightarrow> False) \<longleftrightarrow> id_value w"
    if "agrees m w" for m w
    using that by (auto simp: id_value_def split: jnode.splits json.splits)
  from member_same [OF assms key_names(2)] show ?thesis
    by (auto simp: request_id_ok_def same_member_def member_absent_def id split: sum.splits)
qed

lemma request_params_iff:
  assumes "finds_members get" "agrees v j"
  shows "request_params_ok get (Some v) \<longleftrightarrow>
    member_absent j (str ''params'') \<or> (\<exists>w. member_of j (str ''params'') = Inr w \<and> structured w)"
proof -
  have st: "(case m of JN_Object ms \<Rightarrow> True | JN_Array vs \<Rightarrow> True | _ \<Rightarrow> False) \<longleftrightarrow> structured w" if "agrees m w" for m w
    using that by (auto simp: structured_def split: jnode.splits json.splits)
  from member_same [OF assms key_names(4)] show ?thesis
    by (auto simp: request_params_ok_def same_member_def member_absent_def st split: sum.splits)
qed

lemma request_iff:
  assumes "finds_members get" "agrees v j" "is_object (Some v)" "rpc_two j"
  shows "request_ok get (Some v) \<longleftrightarrow> rpc_request j"
proof -
  note ms = member_same [OF assms(1,2) key_names(3)] member_same [OF assms(1,2) key_names(5)]
    member_same [OF assms(1,2) key_names(6)]
  have "request_ok get (Some v) \<longleftrightarrow>
      (\<exists>r. af_json_get_string get (Some v) k_method = Inr r) \<and> \<not> (\<exists>m. af_json_member get (Some v) k_result = Inr m) \<and>
      \<not> (\<exists>m. af_json_member get (Some v) k_error = Inr m) \<and> request_id_ok get (Some v) \<and> request_params_ok get (Some v)"
    by (auto simp: request_ok_def split: sum.splits)
  then show ?thesis
    unfolding string_member_iff [OF ms(1)] absent_iff(2) [OF ms(2)] absent_iff(2) [OF ms(3)]
      object_members [OF assms(3,2)] request_id_iff [OF assms(1,2)] request_params_iff [OF assms(1,2)]
    by (simp add: rpc_request_def assms(4))
qed

text \<open>What the body of a response is, by the two members that may hold it.\<close>

lemma response_cases:
  assumes "finds_members get" "agrees v j" "is_object (Some v)" "rpc_two j" "member_absent j (str ''method'')"
    "member_of j (str ''id'') = Inr (JInt n)"
  shows "case response_body get (Some v) of
      None \<Rightarrow> \<not> (\<exists>w. rpc_answer j n w) \<and> \<not> (\<exists>w c. rpc_failure j n w c)
    | Some (Answer m) \<Rightarrow> \<exists>w. agrees m w \<and> rpc_answer j n w
    | Some (Failure m code) \<Rightarrow> \<exists>w. agrees m w \<and> rpc_failure j n w (sint code)"
proof -
  let ?r = "af_json_member get (Some v) k_result" and ?e = "af_json_member get (Some v) k_error"
  note sr = member_same [OF assms(1,2) key_names(5)] and se = member_same [OF assms(1,2) key_names(6)]
  note obj = object_members [OF assms(3,2)]
  have a: "member_absent j (str ''result'') \<longleftrightarrow> \<not> (\<exists>m. ?r = Inr m)" "member_absent j (str ''error'') \<longleftrightarrow> \<not> (\<exists>m. ?e = Inr m)"
    using absent_iff(2) [OF sr] absent_iff(2) [OF se] obj by simp_all
  show ?thesis
  proof (cases ?r)
    case (Inr m)
    with sr obtain w where w: "member_of j (str ''result'') = Inr w" "agrees m w" by (auto simp: same_member_def)
    have "response_body get (Some v) = (if \<exists>m. ?e = Inr m then None else Some (Answer m))"
      using Inr by (auto simp: response_body_def split: sum.splits)
    moreover have "rpc_answer j n w' \<longleftrightarrow> w' = w \<and> \<not> (\<exists>m. ?e = Inr m)" for w'
      using w a(2) assms(4-6) by (auto simp: rpc_answer_def)
    moreover have "\<not> rpc_failure j n w' c" for w' c using Inr a(1) by (auto simp: rpc_failure_def)
    ultimately show ?thesis using w(2) by auto
  next
    case (Inl x)
    then have r: "member_absent j (str ''result'')" using a(1) by simp
    then have na: "\<not> rpc_answer j n w" for w by (auto simp: rpc_answer_def member_absent_def)
    show ?thesis
    proof (cases ?e)
      case (Inl y)
      then have "member_absent j (str ''error'')" using a(2) by simp
      then have "\<not> rpc_failure j n w c" for w c by (auto simp: rpc_failure_def member_absent_def)
      with na show ?thesis using Inl \<open>?r = Inl x\<close> by (simp add: response_body_def)
    next
      case (Inr m)
      with se obtain w where w: "member_of j (str ''error'') = Inr w" "agrees m w" by (auto simp: same_member_def)
      note sc = member_same [OF assms(1) w(2) key_names(7)] and sm = member_same [OF assms(1) w(2) key_names(8)]
      have f: "rpc_failure j n w' c \<longleftrightarrow> w' = w \<and> member_of w (str ''code'') = Inr (JInt c) \<and>
          (\<exists>t. member_of w (str ''message'') = Inr (JStr t))" for w' c
        using w r assms(4-6) by (auto simp: rpc_failure_def)
      have b: "response_body get (Some v) =
          (if \<not> is_object (Some m) then None
           else case af_json_get_integer get (Some m) k_code of
             Inl _ \<Rightarrow> None
           | Inr code \<Rightarrow> (case af_json_get_string get (Some m) k_message of Inl _ \<Rightarrow> None | Inr _ \<Rightarrow> Some (Failure m code)))"
        using Inr Inl by (simp add: response_body_def)
      have no: "\<not> is_object (Some m) \<Longrightarrow> member_of w k = Inl AF_E_JSON_TYPE" for k
        using w(2) by (auto simp: is_object_def member_of_def split: jnode.splits json.splits)
      have i: "af_json_get_integer get (Some m) k_code = Inr c \<longleftrightarrow> member_of w (str ''code'') = Inr (JInt (sint c))" for c
        by (rule integer_member [OF sc])
      have s: "(\<exists>q. af_json_get_string get (Some m) k_message = Inr q) \<longleftrightarrow> (\<exists>t. member_of w (str ''message'') = Inr (JStr t))"
        by (rule string_member_iff [OF sm])
      have ic: "member_of w (str ''code'') = Inr (JInt c) \<Longrightarrow> \<exists>x. c = sint x \<and> af_json_get_integer get (Some m) k_code = Inr x" for c
        using sc i by (auto simp: same_member_def agrees_shapes split: sum.splits)
      show ?thesis
      proof (cases "is_object (Some m) \<and> (\<exists>x. af_json_get_integer get (Some m) k_code = Inr x) \<and>
          (\<exists>q. af_json_get_string get (Some m) k_message = Inr q)")
        case True
        then obtain x q where x: "is_object (Some m)" "af_json_get_integer get (Some m) k_code = Inr x"
          "af_json_get_string get (Some m) k_message = Inr q" by blast
        then have "rpc_failure j n w (sint x)" using f i s by blast
        with x b w(2) show ?thesis by auto
      next
        case False
        then have "response_body get (Some v) = None" using b by (auto split: sum.splits)
        moreover have "\<not> rpc_failure j n w' c" for w' c using False f no ic s by (metis Inr_not_Inl)
        ultimately show ?thesis using na by simp
      qed
    qed
  qed
qed

definition valid_message :: "json \<Rightarrow> bool" where
  "valid_message j \<longleftrightarrow> rpc_request j \<or> (\<exists>n w. rpc_answer j n w) \<or> (\<exists>n w c. rpc_failure j n w c)"

text \<open>What the session does with a message, told by the document.\<close>

definition handled :: "json_lib \<Rightarrow> allocator \<Rightarrow> json \<Rightarrow> mcp_session \<Rightarrow> af_status option \<times> mcp_session \<Rightarrow> bool" where
  "handled lib ra j s r \<longleftrightarrow>
     (\<not> valid_message j \<longrightarrow> r = (Some AF_E_MCP_PROTOCOL, s\<lparr>ms_contaminated := ms_contaminated s + 1\<rparr>)) \<and>
     (rpc_request j \<longrightarrow> r = (AF_OK, s\<lparr>ms_notifications := ms_notifications s + 1\<rparr>)) \<and>
     (\<forall>n w. rpc_answer j n w \<longrightarrow> (\<exists>m x. agrees m w \<and> n = sint x \<and> r = (AF_OK, correlate lib ra x (Answer m) s))) \<and>
     (\<forall>n w c. rpc_failure j n w c \<longrightarrow>
        (\<exists>m x y. agrees m w \<and> n = sint x \<and> c = sint y \<and> r = (AF_OK, correlate lib ra x (Failure m y) s)))"

lemma messages_exclusive:
  "rpc_answer j n w \<Longrightarrow> \<not> rpc_request j" "rpc_failure j n w c \<Longrightarrow> \<not> rpc_request j"
  "rpc_answer j n w \<Longrightarrow> \<not> rpc_failure j n' w' c"
  "rpc_answer j n w \<Longrightarrow> rpc_answer j n' w' \<Longrightarrow> n' = n \<and> w' = w"
  "rpc_failure j n w c \<Longrightarrow> rpc_failure j n' w' c' \<Longrightarrow> n' = n \<and> w' = w \<and> c' = c"
  by (auto simp: rpc_answer_def rpc_failure_def rpc_request_def member_absent_def)

lemma tree_handled:
  assumes "finds_members (jl_get lib)" "agrees v j" "line \<noteq> []" "doc_root d = Some v"
    "af_json_parse (jl_room lib) (jl_load lib) line (message_limits frame_max line) = (AF_OK, d)"
  shows "handled lib ra j s (af_mcp_on_message lib ra frame_max line s)"
proof -
  let ?get = "jl_get lib" and ?r = "af_mcp_on_message lib ra frame_max line s"
  note two = jsonrpc_two_iff [OF assms(1,2)]
  show ?thesis
  proof (cases "is_object (Some v) \<and> rpc_two j")
    case False
    have "\<not> is_object (Some v) \<Longrightarrow> \<not> rpc_two j"
      using assms(2) by (auto simp: rpc_two_def is_object_def member_of_def split: jnode.splits json.splits)
    with False have n: "\<not> rpc_two j" by blast
    then have "?r = contaminated s"
      using assms(3-5) two by (simp add: af_mcp_on_message_def af_json_doc_root_def Let_def)
    with n show ?thesis
      by (auto simp: handled_def valid_message_def contaminated_def rpc_request_def rpc_answer_def rpc_failure_def)
  next
    case True
    then have obj: "is_object (Some v)" and j2: "rpc_two j" by simp_all
    note sm = member_same [OF assms(1,2) key_names(3)] and si = member_same [OF assms(1,2) key_names(2)]
    have r: "?r = (case af_json_member ?get (Some v) k_method of
        Inr _ \<Rightarrow> if request_ok ?get (Some v) then (AF_OK, s\<lparr>ms_notifications := ms_notifications s + 1\<rparr>) else contaminated s
      | Inl _ \<Rightarrow> (case af_json_get_integer ?get (Some v) k_id of
            Inl _ \<Rightarrow> contaminated s
          | Inr n \<Rightarrow> (case response_body ?get (Some v) of None \<Rightarrow> contaminated s | Some r \<Rightarrow> (AF_OK, correlate lib ra n r s))))"
      using assms(3-5) two obj j2 by (simp add: af_mcp_on_message_def af_json_doc_root_def Let_def cong: sum.case_cong)
    show ?thesis
    proof (cases "af_json_member ?get (Some v) k_method")
      case (Inr m)
      then have "\<not> member_absent j (str ''method'')" using absent_iff(2) [OF sm] object_members [OF obj assms(2)] by simp
      then have "\<not> rpc_answer j n w" "\<not> rpc_failure j n w c" for n w c by (simp_all add: rpc_answer_def rpc_failure_def)
      then show ?thesis using r Inr request_iff [OF assms(1,2) obj j2] by (simp add: handled_def valid_message_def contaminated_def)
    next
      case (Inl e)
      then have ab: "member_absent j (str ''method'')" using absent_iff(2) [OF sm] object_members [OF obj assms(2)] by simp
      then have nr: "\<not> rpc_request j" by (auto simp: rpc_request_def member_absent_def)
      show ?thesis
      proof (cases "af_json_get_integer ?get (Some v) k_id")
        case (Inl f)
        have "member_of j (str ''id'') \<noteq> Inr (JInt n)" for n
          using si integer_member [OF si] Inl by (auto simp: same_member_def agrees_shapes split: sum.splits)
        then have "\<not> rpc_answer j n w" "\<not> rpc_failure j n w c" for n w c by (simp_all add: rpc_answer_def rpc_failure_def)
        with nr r Inl \<open>_ = Inl e\<close> show ?thesis by (simp add: handled_def valid_message_def contaminated_def)
      next
        case (Inr x)
        then have id: "member_of j (str ''id'') = Inr (JInt (sint x))" using integer_member [OF si] by simp
        note body = response_cases [OF assms(1,2) obj j2 ab id]
        have q: "?r = (case response_body ?get (Some v) of None \<Rightarrow> contaminated s | Some r \<Rightarrow> (AF_OK, correlate lib ra x r s))"
          using r Inr Inl by simp
        show ?thesis
        proof (cases "response_body ?get (Some v)")
          case None
          then have "\<not> rpc_answer j n w" "\<not> rpc_failure j n w c" for n w c
            using body id by (auto simp: rpc_answer_def rpc_failure_def)
          with nr q None show ?thesis by (simp add: handled_def valid_message_def contaminated_def)
        next
          case (Some a)
          show ?thesis
          proof (cases a)
            case (Answer m)
            with Some body obtain w where w: "agrees m w" "rpc_answer j (sint x) w" by auto
            have "n = sint x \<and> w' = w" if "rpc_answer j n w'" for n w' using messages_exclusive(4) [OF w(2) that] .
            moreover have "?r = (AF_OK, correlate lib ra x (Answer m) s)" "valid_message j"
              using q Some Answer w by (auto simp: valid_message_def)
            ultimately show ?thesis unfolding handled_def using w nr messages_exclusive(3) [OF w(2)] by blast
          next
            case (Failure m code)
            with Some body obtain w where w: "agrees m w" "rpc_failure j (sint x) w (sint code)" by auto
            have "n = sint x \<and> w' = w \<and> c = sint code" if "rpc_failure j n w' c" for n w' c
              using messages_exclusive(5) [OF w(2) that] .
            moreover have "\<not> rpc_answer j n w'" for n w' using messages_exclusive(3) w(2) by blast
            moreover have "?r = (AF_OK, correlate lib ra x (Failure m code) s)" "valid_message j"
              using q Some Failure w by (auto simp: valid_message_def)
            ultimately show ?thesis unfolding handled_def using w nr by blast
          qed
        qed
      qed
    qed
  qed
qed

lemma parsed_document:
  assumes "reads_json loadb" "af_json_parse room loadb p lim = (AF_OK, d)"
  shows "\<exists>v t j. doc_root d = Some v \<and> utf8_decode (wire p) = Some t \<and> loads t = Some j \<and> agrees v j"
proof -
  from assms(2) obtain v where v: "loadb p = Inr v" "doc_root d = Some v"
    by (auto simp: af_json_parse_def split: if_splits option.splits sum.splits)
  with assms(1) show ?thesis unfolding reads_json_def by blast
qed

lemma unparsed_message:
  "af_json_parse (jl_room lib) (jl_load lib) line (message_limits frame_max line) = (Some e, d) \<or> line = [] \<Longrightarrow>
   af_mcp_on_message lib ra frame_max line s = (Some AF_E_MCP_PROTOCOL, s\<lparr>ms_contaminated := ms_contaminated s + 1\<rparr>)"
  by (auto simp: af_mcp_on_message_def contaminated_def)

section \<open>The table of calls\<close>

definition busy :: "mcp_session \<Rightarrow> nat \<Rightarrow> bool" where
  "busy s i \<longleftrightarrow> cl_state (ms_calls s ! i) \<noteq> CALL_FREE"

definition call_pending :: "mcp_session \<Rightarrow> nat \<Rightarrow> bool" where
  "call_pending s i \<longleftrightarrow> cl_state (ms_calls s ! i) = CALL_PENDING"

abbreviation call_id :: "mcp_session \<Rightarrow> nat \<Rightarrow> u64" where
  "call_id s i \<equiv> cl_id (ms_calls s ! i)"

text \<open>Calls in use have identifiers of their own, none above the last that was given out.\<close>

definition calls_inv :: "mcp_session \<Rightarrow> bool" where
  "calls_inv s \<longleftrightarrow> length (ms_calls s) = AF_MCP_MAX_CALLS \<and>
     (\<forall>i < AF_MCP_MAX_CALLS. busy s i \<longrightarrow> call_id s i \<le> ms_next_id s \<and>
        (\<forall>j < AF_MCP_MAX_CALLS. busy s j \<longrightarrow> call_id s j = call_id s i \<longrightarrow> j = i))"

lemma scan_calls_Some: "scan_calls P i cs = Some k \<Longrightarrow> i \<le> k \<and> k - i < length cs \<and> P (cs ! (k - i))"
proof (induction P i cs rule: scan_calls.induct)
  case (2 P i c cs)
  show ?case
  proof (cases "P c")
    case False
    with 2 have "i + 1 \<le> k" "k - (i + 1) < length cs" "P (cs ! (k - (i + 1)))" by auto
    moreover have "(c # cs) ! (k - i) = cs ! (k - (i + 1))" using \<open>i + 1 \<le> k\<close> by (simp add: nth_Cons')
    ultimately show ?thesis by simp
  qed (use 2 in auto)
qed simp

lemma scan_calls_None: "scan_calls P i cs = None \<longleftrightarrow> (\<forall>c \<in> set cs. \<not> P c)"
  by (induction P i cs rule: scan_calls.induct) auto

lemma pending_busy: "call_pending s i \<Longrightarrow> busy s i"
  by (simp add: call_pending_def busy_def)

lemma set_call_nth [simp]:
  "i < length (ms_calls s) \<Longrightarrow> ms_calls (set_call i c s) ! j = (if j = i then c else ms_calls s ! j)"
  "length (ms_calls (set_call i c s)) = length (ms_calls s)" "ms_next_id (set_call i c s) = ms_next_id s"
  "ms_transport (set_call i c s) = ms_transport s"
  by (simp_all add: set_call_def nth_list_update)

lemma find_busy:
  assumes "calls_inv s" "af_mcp_call_find s n = Some i"
  shows "i < AF_MCP_MAX_CALLS \<and> busy s i \<and> call_id s i = n"
  using scan_calls_Some [OF assms(2) [unfolded af_mcp_call_find_def]] assms(1) by (simp add: calls_inv_def busy_def)

lemma find_of_busy:
  assumes "calls_inv s" "i < AF_MCP_MAX_CALLS" "busy s i"
  shows "af_mcp_call_find s (call_id s i) = Some i"
proof (cases "af_mcp_call_find s (call_id s i)")
  case None
  have "i < length (ms_calls s)" using assms(1,2) by (simp add: calls_inv_def)
  then have "ms_calls s ! i \<in> set (ms_calls s)" by simp
  with None assms(3) show ?thesis by (auto simp: af_mcp_call_find_def scan_calls_None busy_def)
next
  case (Some k)
  from find_busy [OF assms(1) Some] assms Some show ?thesis unfolding calls_inv_def by blast
qed

text \<open>A response goes to the pending call with its identifier, and to no other.\<close>

lemma correlate_pending:
  assumes "calls_inv s" "i < AF_MCP_MAX_CALLS" "call_pending s i"
  shows "correlate lib ra (call_id s i) r s = set_call i (complete_call lib ra r (ms_calls s ! i)) s"
  using find_of_busy [OF assms(1,2) pending_busy [OF assms(3)]] assms(3) by (simp add: correlate_def call_pending_def)

lemma correlate_unmatched:
  assumes "calls_inv s" "\<And>i. i < AF_MCP_MAX_CALLS \<Longrightarrow> call_pending s i \<Longrightarrow> call_id s i \<noteq> n"
  shows "correlate lib ra n r s = unmatched s"
proof (cases "af_mcp_call_find s n")
  case (Some i)
  from find_busy [OF assms(1) Some] assms(2) [of i] have "\<not> call_pending s i" by blast
  with Some show ?thesis by (simp add: correlate_def call_pending_def)
qed (simp add: correlate_def)

lemma store_fields [simp]:
  "cl_id (snd (af_mcp_store_result lib ra v c)) = cl_id c" "cl_error_code (snd (af_mcp_store_result lib ra v c)) = cl_error_code c"
  "cl_kind (snd (af_mcp_store_result lib ra v c)) = cl_kind c"
  by (auto simp: af_mcp_store_result_def Let_def split: option.splits prod.splits)

lemma complete_fields [simp]: "cl_id (complete_call lib ra r c) = cl_id c" "cl_state (complete_call lib ra r c) = CALL_DONE"
  by (cases r; auto simp: complete_call_def case_prod_beta split: option.splits)+

section \<open>How calls change\<close>

text \<open>
  From one operation to the next an entry stays as it is, becomes done, is freed, or is a free
  entry taken for a new call, of which there is at most one.
\<close>

definition new_call :: "mcp_session \<Rightarrow> mcp_session \<Rightarrow> nat \<Rightarrow> bool" where
  "new_call s s' i \<longleftrightarrow> \<not> busy s i \<and> call_pending s' i \<and> call_id s' i = ms_next_id s + 1 \<and> ms_next_id s' = ms_next_id s + 1"

definition done_call :: "mcp_session \<Rightarrow> mcp_session \<Rightarrow> nat \<Rightarrow> bool" where
  "done_call s s' i \<longleftrightarrow> call_pending s i \<and> cl_state (ms_calls s' ! i) = CALL_DONE \<and> call_id s' i = call_id s i"

definition evolves :: "mcp_session \<Rightarrow> mcp_session \<Rightarrow> bool" where
  "evolves s s' \<longleftrightarrow> length (ms_calls s') = length (ms_calls s) \<and> ms_transport s' = ms_transport s \<and>
     (ms_next_id s' = ms_next_id s \<or> ms_next_id s' = ms_next_id s + 1) \<and>
     (\<forall>i < AF_MCP_MAX_CALLS. ms_calls s' ! i = ms_calls s ! i \<or> done_call s s' i \<or> \<not> busy s' i \<or>
        new_call s s' i \<and> (\<forall>j < AF_MCP_MAX_CALLS. new_call s s' j \<longrightarrow> j = i))"

lemma alloc_call:
  assumes "af_mcp_call_alloc kind deadline s = (r, s')"
  shows "case r of
      None \<Rightarrow> s' = s
    | Some i \<Rightarrow> i < length (ms_calls s) \<and> \<not> busy s i \<and> ms_next_id s' = ms_next_id s + 1 \<and> ms_transport s' = ms_transport s \<and>
        (\<exists>c. cl_state c = CALL_PENDING \<and> cl_id c = ms_next_id s + 1 \<and> ms_calls s' = (ms_calls s)[i := c])"
proof (cases "scan_calls (\<lambda>c. cl_state c = CALL_FREE) 0 (ms_calls s)")
  case None
  with assms show ?thesis by (auto simp: af_mcp_call_alloc_def)
next
  case (Some i)
  obtain b where "af_buf_init AF_MCP_INVENTORY_MAX = Inr b" by (simp add: af_buf_init_def AF_MCP_INVENTORY_MAX_def)
  define c where "c = (ms_calls s ! i)\<lparr>cl_result := b, cl_id := ms_next_id s + 1, cl_kind := kind,
    cl_deadline := deadline, cl_status := AF_OK, cl_error_code := 0, cl_state := CALL_PENDING\<rparr>"
  have "r = Some i" "s' = s\<lparr>ms_next_id := ms_next_id s + 1, ms_calls := (ms_calls s)[i := c]\<rparr>"
    using Some assms \<open>_ = Inr b\<close> by (auto simp: af_mcp_call_alloc_def Let_def set_call_def c_def)
  moreover have "cl_state c = CALL_PENDING" "cl_id c = ms_next_id s + 1" by (simp_all add: c_def)
  ultimately show ?thesis using scan_calls_Some [OF Some] by (auto simp: busy_def)
qed

lemma stdio_send_session [simp]: "fst (snd (stdio_send env b p)) = fst p"
  by (simp add: stdio_send_def split: prod.splits)

lemma transport_session:
  "ms_transport (fst p) = AF_TRANSPORT_STDIO \<Longrightarrow> fst (snd (af_mcp_transport_request env i m b p)) = fst p"
  "ms_transport (fst p) = AF_TRANSPORT_STDIO \<Longrightarrow> fst (snd (af_mcp_transport_notify env m b p)) = fst p"
  by (simp_all add: af_mcp_transport_request_def af_mcp_transport_notify_def split: option.splits)

lemma cancel_session:
  "ms_transport (fst p) = AF_TRANSPORT_STDIO \<Longrightarrow> fst (snd (af_mcp_cancel_timed_out env i p)) = fst p"
  by (auto simp: af_mcp_cancel_timed_out_def af_mcp_cancel_modern_def af_mcp_cancel_legacy_def af_mcp_emit_cancelled_def
      Let_def AF_TRANSPORT_STDIO_def AF_TRANSPORT_STREAMABLE_HTTP_def transport_session(2) [unfolded AF_TRANSPORT_STDIO_def]
      split: sum.splits prod.splits option.splits)

lemma evolves_refl: "evolves s s"
  by (simp add: evolves_def)

lemma evolves_calls:
  "ms_calls s' = ms_calls s \<Longrightarrow> ms_next_id s' = ms_next_id s \<Longrightarrow> ms_transport s' = ms_transport s \<Longrightarrow> evolves s s'"
  by (simp add: evolves_def)

lemma evolves_alloc:
  assumes "length (ms_calls s) = AF_MCP_MAX_CALLS" "af_mcp_call_alloc kind deadline s = (Some i, s')"
  shows "evolves s s'" "evolves s (release_call i s')"
proof -
  from alloc_call [OF assms(2)] obtain c where c: "i < length (ms_calls s)" "\<not> busy s i" "ms_next_id s' = ms_next_id s + 1"
    "ms_transport s' = ms_transport s" "cl_state c = CALL_PENDING" "cl_id c = ms_next_id s + 1" "ms_calls s' = (ms_calls s)[i := c]"
    by auto
  have other: "j \<noteq> i \<Longrightarrow> \<not> new_call s s' j" for j using c(7) by (auto simp: new_call_def busy_def call_pending_def)
  have new: "new_call s s' i" using c by (simp add: new_call_def call_pending_def)
  have same: "ms_calls s' ! j = (if j = i then c else ms_calls s ! j)" for j using c(1,7) by (simp add: nth_list_update)
  have "ms_calls s' ! j = ms_calls s ! j \<or> done_call s s' j \<or> \<not> busy s' j \<or>
      new_call s s' j \<and> (\<forall>k < AF_MCP_MAX_CALLS. new_call s s' k \<longrightarrow> k = j)" for j
    using other new same by (cases "j = i") auto
  then show "evolves s s'" unfolding evolves_def using c(3,4,7) by simp
  have "ms_calls (release_call i s') ! j = (if j = i then af_mcp_call_release c else ms_calls s ! j)" for j
    using c(1) same by (simp add: release_call_def c(7))
  then have "ms_calls (release_call i s') ! j = ms_calls s ! j \<or> \<not> busy (release_call i s') j" for j
    by (simp add: busy_def af_mcp_call_release_def zero_call_def)
  then show "evolves s (release_call i s')" unfolding evolves_def using c(3,4,7) by (simp add: release_call_def) blast
qed

lemma request_evolves:
  assumes "length (ms_calls s) = AF_MCP_MAX_CALLS" "ms_transport s = AF_TRANSPORT_STDIO"
    "af_mcp_request env now method params kind timeout_ms (s, c) = (r, (s', c'))"
  shows "evolves s s'"
proof (cases "call_deadline now timeout_ms")
  case (Inl e)
  with assms(3) show ?thesis by (simp add: af_mcp_request_def evolves_refl)
next
  case (Inr deadline)
  obtain q s1 where a: "af_mcp_call_alloc kind deadline s = (q, s1)" by fastforce
  show ?thesis
  proof (cases q)
    case None
    with assms(3) Inr a alloc_call [OF a] show ?thesis by (simp add: af_mcp_request_def evolves_refl)
  next
    case (Some i)
    note ev = evolves_alloc [OF assms(1) a [unfolded Some]]
    have t: "ms_transport s1 = AF_TRANSPORT_STDIO" using ev(1) assms(2) by (simp add: evolves_def)
    have "s' = s1 \<or> s' = release_call i s1"
      using assms(3) Inr a Some transport_session(1) [of "(s1, c)" env i "method"] t
      by (auto simp: af_mcp_request_def split: sum.splits prod.splits option.splits) (metis fst_conv snd_conv)+
    with ev show ?thesis by blast
  qed
qed

lemma correlate_evolves:
  assumes "length (ms_calls s) = AF_MCP_MAX_CALLS"
  shows "evolves s (correlate lib ra n r s)"
proof (cases "\<exists>i. af_mcp_call_find s n = Some i \<and> cl_state (ms_calls s ! i) = CALL_PENDING")
  case True
  then obtain i where i: "af_mcp_call_find s n = Some i" "call_pending s i" by (auto simp: call_pending_def)
  then have l: "i < length (ms_calls s)" using scan_calls_Some by (fastforce simp: af_mcp_call_find_def)
  from i have e: "correlate lib ra n r s = set_call i (complete_call lib ra r (ms_calls s ! i)) s"
    by (simp add: correlate_def call_pending_def)
  have "done_call s (set_call i (complete_call lib ra r (ms_calls s ! i)) s) i" using i(2) l by (simp add: done_call_def)
  then show ?thesis unfolding e evolves_def using l by auto
next
  case False
  then have "correlate lib ra n r s = unmatched s" by (auto simp: correlate_def split: option.splits)
  then show ?thesis by (simp add: evolves_calls unmatched_def)
qed

lemma message_evolves:
  assumes "length (ms_calls s) = AF_MCP_MAX_CALLS"
  shows "evolves s (snd (af_mcp_on_message lib ra frame_max line s))"
  using correlate_evolves [OF assms]
  by (auto simp: af_mcp_on_message_def contaminated_def Let_def evolves_calls split: prod.splits option.splits sum.splits)

text \<open>A sweep retires exactly the expired calls.\<close>

definition retired :: "mcp_call \<Rightarrow> mcp_call" where
  "retired c = c\<lparr>cl_status := Some AF_E_MCP_TIMEOUT, cl_state := CALL_DONE\<rparr>"

lemma sweep_loop_calls:
  "sweep_loop env now is n err p = (n', err', p') \<Longrightarrow> ms_transport (fst p) = AF_TRANSPORT_STDIO \<Longrightarrow> distinct is \<Longrightarrow>
   list_all (\<lambda>i. i < length (ms_calls (fst p))) is \<Longrightarrow>
   n' = n + of_nat (length (filter (\<lambda>i. expired now (ms_calls (fst p) ! i)) is)) \<and>
   fst p' = (fst p)\<lparr>ms_calls := map (\<lambda>i. let c = ms_calls (fst p) ! i in if i \<in> set is \<and> expired now c then retired c else c)
     [0..<length (ms_calls (fst p))]\<rparr>"
proof (induction env now "is" n err p rule: sweep_loop.induct)
  case (1 env now n err p)
  then show ?case by (auto simp: map_nth)
next
  case (2 env now i "is" n err p)
  let ?cs = "ms_calls (fst p)"
  show ?case
  proof (cases "expired now (?cs ! i)")
    case False
    with 2 have "n' = n + of_nat (length (filter (\<lambda>i. expired now (?cs ! i)) is)) \<and>
      fst p' = (fst p)\<lparr>ms_calls := map (\<lambda>i. let c = ?cs ! i in if i \<in> set is \<and> expired now c then retired c else c) [0..<length ?cs]\<rparr>"
      by simp
    moreover have "(let c = ?cs ! j in if j \<in> set is \<and> expired now c then retired c else c) =
        (let c = ?cs ! j in if j \<in> set (i # is) \<and> expired now c then retired c else c)" for j
      using False by (auto simp: Let_def)
    ultimately show ?thesis using False by simp
  next
    case True
    obtain st s c where r: "af_mcp_cancel_timed_out (env i) i p = (st, (s, c))" by (metis prod_cases3)
    then have s: "s = fst p" using cancel_session [OF "2.prems"(2), of "env i" i] by simp
    let ?s = "retire_call i s"
    have i: "i < length ?cs" "i \<notin> set is" using "2.prems" by simp_all
    have cs: "ms_calls ?s ! j = (if j = i then retired (?cs ! i) else ?cs ! j)" "length (ms_calls ?s) = length ?cs" for j
      using i(1) s by (simp_all add: retire_call_def retired_def)
    have ex: "filter (\<lambda>j. expired now (ms_calls ?s ! j)) is = filter (\<lambda>j. expired now (?cs ! j)) is"
      using i(2) by (intro filter_cong) (auto simp: cs)
    have map: "map (\<lambda>j. let c = ms_calls ?s ! j in if j \<in> set is \<and> expired now c then retired c else c) [0..<length (ms_calls ?s)] =
        map (\<lambda>j. let c = ?cs ! j in if j \<in> set (i # is) \<and> expired now c then retired c else c) [0..<length ?cs]"
      using i True by (intro map_cong) (auto simp: cs Let_def)
    have "n' = n + 1 + of_nat (length (filter (\<lambda>j. expired now (ms_calls ?s ! j)) is)) \<and>
      fst p' = ?s\<lparr>ms_calls := map (\<lambda>j. let c = ms_calls ?s ! j in if j \<in> set is \<and> expired now c then retired c else c)
        [0..<length (ms_calls ?s)]\<rparr>"
      using "2.IH"(1) [OF True r [symmetric] refl] "2.prems" True r s cs(2) by (simp add: retire_call_def)
    then show ?thesis unfolding ex map using True s by (simp add: retire_call_def set_call_def)
  qed
qed

lemma sweep_calls:
  assumes "length (ms_calls (fst p)) = AF_MCP_MAX_CALLS" "ms_transport (fst p) = AF_TRANSPORT_STDIO"
    "af_mcp_sweep_calls env now p = (r, q)"
  shows "fst q = (fst p)\<lparr>ms_calls := map (\<lambda>c. if expired now c then retired c else c) (ms_calls (fst p))\<rparr>"
    "r = Inr n \<Longrightarrow> unat n = length (filter (expired now) (ms_calls (fst p)))"
proof -
  let ?cs = "ms_calls (fst p)"
  obtain n' err p' where l: "sweep_loop env now [0..<AF_MCP_MAX_CALLS] 0 None p = (n', err, p')" by (metis prod_cases3)
  from sweep_loop_calls [OF l assms(2)] assms(1)
  have s: "n' = of_nat (length (filter (\<lambda>i. expired now (?cs ! i)) [0..<length ?cs]))"
    "fst p' = (fst p)\<lparr>ms_calls := map (\<lambda>i. let c = ?cs ! i in if i \<in> set [0..<length ?cs] \<and> expired now c then retired c else c) [0..<length ?cs]\<rparr>"
    by (simp_all add: list_all_iff)
  have "map (\<lambda>i. let c = ?cs ! i in if i \<in> set [0..<length ?cs] \<and> expired now c then retired c else c) [0..<length ?cs] =
      map (\<lambda>c. if expired now c then retired c else c) ?cs"
    by (intro nth_equalityI) (auto simp: Let_def)
  with s(2) l assms(3) show "fst q = (fst p)\<lparr>ms_calls := map (\<lambda>c. if expired now c then retired c else c) ?cs\<rparr>"
    by (auto simp: af_mcp_sweep_calls_def split: option.splits)
  have f: "map (\<lambda>i. ?cs ! i) (filter (\<lambda>i. expired now (?cs ! i)) [0..<length ?cs]) = filter (expired now) ?cs"
    by (metis (no_types, lifting) comp_apply filter_cong filter_map map_nth)
  have len: "length (filter (\<lambda>i. expired now (?cs ! i)) [0..<length ?cs]) = length (filter (expired now) ?cs)"
    unfolding f [symmetric] by simp
  have "length (filter (expired now) ?cs) < 2 ^ 64"
    using assms(1) length_filter_le [of "expired now" ?cs] by (simp add: AF_MCP_MAX_CALLS_def)
  with s(1) l assms(3) show "r = Inr n \<Longrightarrow> unat n = length (filter (expired now) ?cs)"
    by (auto simp: af_mcp_sweep_calls_def len unat_of_nat take_bit_nat_eq_self split: option.splits)
qed

section \<open>Runs of a session\<close>

datatype rpc_op =
    Request mcp_env u64 "u8 list" "u8 list option" u64 u64
  | Notify mcp_env "af_status option" "u8 list" "u8 list option"
  | Receive json_lib allocator "u8 list"
  | Sweep "nat \<Rightarrow> mcp_env" u64
  | Release nat
  | Release_All

fun rpc_exec :: "rpc_op \<Rightarrow> mcp_peer \<Rightarrow> mcp_peer" where
  "rpc_exec (Request env now m ps kind t) p = snd (af_mcp_request env now m ps kind t p)"
| "rpc_exec (Notify env f m ps) p = snd (af_mcp_notify env f m ps p)"
| "rpc_exec (Receive lib ra line) p = (snd (af_mcp_on_message lib ra (mc_frame_max (snd p)) line (fst p)), snd p)"
| "rpc_exec (Sweep env now) p = snd (af_mcp_sweep_calls env now p)"
| "rpc_exec (Release i) p = (release_call i (fst p), snd p)"
| "rpc_exec Release_All p = (af_mcp_calls_release (fst p), snd p)"

text \<open>
  The calls that were in use before and after an operation and whose entries it has changed in any
  way, a call that was done already included, by their identifiers; and those of a run, one
  operation after another.
\<close>

definition touched :: "mcp_session \<Rightarrow> mcp_session \<Rightarrow> nat \<Rightarrow> bool" where
  "touched s s' i \<longleftrightarrow> busy s i \<and> busy s' i \<and> ms_calls s' ! i \<noteq> ms_calls s ! i"

definition completed :: "mcp_session \<Rightarrow> mcp_session \<Rightarrow> u64 list" where
  "completed s s' = map (call_id s) (filter (touched s s') [0..<AF_MCP_MAX_CALLS])"

fun rpc_run :: "rpc_op list \<Rightarrow> mcp_peer \<Rightarrow> u64 list \<times> mcp_peer" where
  "rpc_run [] p = ([], p)"
| "rpc_run (x # xs) p =
     (let q = rpc_exec x p in case rpc_run xs q of (ns, r) \<Rightarrow> (completed (fst p) (fst q) @ ns, r))"

lemma notify_session:
  "ms_transport (fst p) = AF_TRANSPORT_STDIO \<Longrightarrow> fst (snd (af_mcp_notify env f m ps p)) = fst p"
  by (simp add: af_mcp_notify_def transport_session(2) split: sum.splits prod.splits option.splits)

lemma evolves_freed:
  assumes "length (ms_calls s') = length (ms_calls s)" "ms_transport s' = ms_transport s" "ms_next_id s' = ms_next_id s"
    "\<And>i. i < length (ms_calls s) \<Longrightarrow> ms_calls s' ! i = ms_calls s ! i \<or> done_call s s' i \<or> \<not> busy s' i"
    "length (ms_calls s) = AF_MCP_MAX_CALLS"
  shows "evolves s s'"
  using assms unfolding evolves_def by auto

lemma released_free: "cl_state (af_mcp_call_release c) = CALL_FREE"
  by (simp add: af_mcp_call_release_def zero_call_def)

lemma release_evolves: "length (ms_calls s) = AF_MCP_MAX_CALLS \<Longrightarrow> evolves s (release_call i s)"
proof (rule evolves_freed)
  show "ms_calls (release_call i s) ! j = ms_calls s ! j \<or> done_call s (release_call i s) j \<or> \<not> busy (release_call i s) j"
    if "j < length (ms_calls s)" for j
    using that released_free by (cases "j = i") (simp_all add: release_call_def set_call_def busy_def)
qed (simp_all add: release_call_def set_call_def)

lemma release_all_evolves: "length (ms_calls s) = AF_MCP_MAX_CALLS \<Longrightarrow> evolves s (af_mcp_calls_release s)"
  by (rule evolves_freed) (simp_all add: af_mcp_calls_release_def busy_def released_free)

lemma sweep_evolves:
  assumes "length (ms_calls (fst p)) = AF_MCP_MAX_CALLS" "ms_transport (fst p) = AF_TRANSPORT_STDIO"
  shows "evolves (fst p) (fst (snd (af_mcp_sweep_calls env now p)))"
proof -
  obtain r q where r: "af_mcp_sweep_calls env now p = (r, q)" by (cases "af_mcp_sweep_calls env now p")
  note q = sweep_calls(1) [OF assms r]
  have "evolves (fst p) (fst q)"
    by (rule evolves_freed) (use assms(1) in \<open>auto simp: q done_call_def call_pending_def retired_def expired_def\<close>)
  with r show ?thesis by simp
qed

lemma exec_evolves:
  assumes "length (ms_calls (fst p)) = AF_MCP_MAX_CALLS" "ms_transport (fst p) = AF_TRANSPORT_STDIO"
  shows "evolves (fst p) (fst (rpc_exec x p))"
proof (cases x)
  case (Request env now m ps kind t)
  obtain s c where p: "p = (s, c)" by fastforce
  obtain r s' c' where "af_mcp_request env now m ps kind t (s, c) = (r, (s', c'))" by (metis prod_cases3)
  with request_evolves [OF _ _ this] assms p Request show ?thesis by simp
qed (use assms in \<open>simp_all add: notify_session evolves_refl message_evolves sweep_evolves release_evolves release_all_evolves\<close>)

text \<open>The calls completed so far are none of those pending.\<close>

definition log_inv :: "u64 list \<Rightarrow> mcp_session \<Rightarrow> bool" where
  "log_inv ns s \<longleftrightarrow> calls_inv s \<and> ms_transport s = AF_TRANSPORT_STDIO \<and> distinct ns \<and>
     (\<forall>n \<in> set ns. n \<le> ms_next_id s \<and> (\<forall>i < AF_MCP_MAX_CALLS. call_pending s i \<longrightarrow> call_id s i \<noteq> n))"

lemma evolves_busy:
  assumes "evolves s s'" "i < AF_MCP_MAX_CALLS" "busy s' i"
  shows "busy s i \<and> call_id s' i = call_id s i \<and> (call_pending s' i \<longrightarrow> call_pending s i) \<or>
    new_call s s' i \<and> (\<forall>j < AF_MCP_MAX_CALLS. new_call s s' j \<longrightarrow> j = i)"
  using assms unfolding evolves_def by (auto simp: busy_def call_pending_def done_call_def)

text \<open>An entry in use changes only by the end of a pending call.\<close>

lemma touched_done:
  assumes "evolves s s'" "i < AF_MCP_MAX_CALLS"
  shows "touched s s' i \<longleftrightarrow> done_call s s' i"
  using assms unfolding evolves_def touched_def new_call_def done_call_def call_pending_def busy_def by fastforce

lemma completed_done:
  assumes "evolves s s'"
  shows "completed s s' = map (call_id s) (filter (done_call s s') [0..<AF_MCP_MAX_CALLS])"
  unfolding completed_def by (rule arg_cong [of _ _ "map (call_id s)"], rule filter_cong) (simp_all add: touched_done [OF assms])

lemma evolves_inv:
  assumes "calls_inv s" "evolves s s'" "unat (ms_next_id s) + 1 < 2 ^ 64"
  shows "calls_inv s'"
proof -
  have up: "ms_next_id s < ms_next_id s + 1" using assms(3) by (simp add: word_less_nat_alt unat_word_ariths)
  have old: "busy s i \<Longrightarrow> i < AF_MCP_MAX_CALLS \<Longrightarrow> call_id s i < ms_next_id s + 1" for i
    using assms(1) up unfolding calls_inv_def by (meson le_less_trans)
  have le: "ms_next_id s \<le> ms_next_id s'" using assms(2) up by (auto simp: evolves_def)
  have inj: "j = i" if "busy s i" "busy s j" "i < AF_MCP_MAX_CALLS" "j < AF_MCP_MAX_CALLS" "call_id s j = call_id s i" for i j
    using assms(1) that unfolding calls_inv_def by blast
  have bound: "call_id s' i \<le> ms_next_id s'" if "i < AF_MCP_MAX_CALLS" "busy s' i" for i
    using evolves_busy [OF assms(2) that] assms(1) le that(1) unfolding calls_inv_def new_call_def by (metis order.trans order.refl)
  have "j = i" if "i < AF_MCP_MAX_CALLS" "j < AF_MCP_MAX_CALLS" "busy s' i" "busy s' j" "call_id s' j = call_id s' i" for i j
  proof -
    from evolves_busy [OF assms(2) that(1,3)] evolves_busy [OF assms(2) that(2,4)] that old [of i] old [of j] inj [of i j]
    show ?thesis unfolding new_call_def by (metis less_irrefl)
  qed
  moreover have "length (ms_calls s') = AF_MCP_MAX_CALLS" using assms(1,2) by (simp add: calls_inv_def evolves_def)
  ultimately show ?thesis using bound unfolding calls_inv_def by blast
qed

lemma evolves_log:
  assumes "log_inv ns s" "evolves s s'" "unat (ms_next_id s) + 1 < 2 ^ 64"
  shows "log_inv (ns @ completed s s') s'"
proof -
  from assms(1) have inv: "calls_inv s" and t: "ms_transport s = AF_TRANSPORT_STDIO" and d: "distinct ns"
    and ns: "\<And>n. n \<in> set ns \<Longrightarrow> n \<le> ms_next_id s"
      "\<And>n i. n \<in> set ns \<Longrightarrow> i < AF_MCP_MAX_CALLS \<Longrightarrow> call_pending s i \<Longrightarrow> call_id s i \<noteq> n"
    unfolding log_inv_def by blast+
  have up: "ms_next_id s < ms_next_id s + 1" using assms(3) by (simp add: word_less_nat_alt unat_word_ariths)
  have le: "ms_next_id s \<le> ms_next_id s'" using assms(2) up by (auto simp: evolves_def)
  have inj: "j = i" if "busy s i" "busy s j" "i < AF_MCP_MAX_CALLS" "j < AF_MCP_MAX_CALLS" "call_id s j = call_id s i" for i j
    using inv that unfolding calls_inv_def by blast
  have mem: "n \<in> set (completed s s') \<longleftrightarrow> (\<exists>i < AF_MCP_MAX_CALLS. done_call s s' i \<and> n = call_id s i)" for n
    by (auto simp: completed_done [OF assms(2)])
  have "inj_on (call_id s) (set (filter (done_call s s') [0..<AF_MCP_MAX_CALLS]))"
    by (intro inj_onI) (auto simp: done_call_def intro: inj dest: pending_busy)
  then have dc: "distinct (completed s s')" by (simp add: completed_done [OF assms(2)] distinct_map)
  have new: "n \<notin> set ns" if "n \<in> set (completed s s')" for n
    using that ns(2) unfolding mem by (auto simp: done_call_def)
  have "n \<le> ms_next_id s'" if "n \<in> set (ns @ completed s s')" for n
  proof -
    have "n \<le> ms_next_id s" using that ns(1) inv unfolding set_append Un_iff mem
      by (auto simp: done_call_def calls_inv_def dest: pending_busy)
    with le show ?thesis by simp
  qed
  moreover have "call_id s' i \<noteq> n" if n: "n \<in> set (ns @ completed s s')" and i: "i < AF_MCP_MAX_CALLS" "call_pending s' i" for n i
  proof -
    have low: "n \<le> ms_next_id s" using n ns(1) inv unfolding set_append Un_iff mem
      by (auto simp: done_call_def calls_inv_def dest: pending_busy)
    from evolves_busy [OF assms(2) i(1) pending_busy [OF i(2)]] show ?thesis
    proof
      assume old: "busy s i \<and> call_id s' i = call_id s i \<and> (call_pending s' i \<longrightarrow> call_pending s i)"
      have "k \<noteq> i" if "done_call s s' k" for k using that i(2) by (auto simp: done_call_def call_pending_def)
      then have "n \<in> set (completed s s') \<Longrightarrow> call_id s i \<noteq> n"
        using inj [of i] old i(1) unfolding mem by (metis done_call_def pending_busy)
      with old ns(2) i n show ?thesis by auto
    next
      assume "new_call s s' i \<and> (\<forall>j < AF_MCP_MAX_CALLS. new_call s s' j \<longrightarrow> j = i)"
      then have "call_id s' i = ms_next_id s + 1" by (simp add: new_call_def)
      with low up show ?thesis by auto
    qed
  qed
  moreover have "distinct (ns @ completed s s')" using d dc new by auto
  moreover have "ms_transport s' = AF_TRANSPORT_STDIO" using t assms(2) by (simp add: evolves_def)
  ultimately show ?thesis using evolves_inv [OF inv assms(2,3)] unfolding log_inv_def by blast
qed

lemma run_log:
  "log_inv ns (fst p) \<Longrightarrow> unat (ms_next_id (fst p)) + length xs < 2 ^ 64 \<Longrightarrow> rpc_run xs p = (ms, q) \<Longrightarrow> log_inv (ns @ ms) (fst q)"
proof (induction xs arbitrary: ns p ms)
  case (Cons x xs)
  let ?q = "rpc_exec x p"
  obtain k where r: "rpc_run xs ?q = (k, q)" "ms = completed (fst p) (fst ?q) @ k"
    using Cons.prems(3) by (auto simp: Let_def split: prod.splits)
  have ev: "evolves (fst p) (fst ?q)" using Cons.prems(1) by (intro exec_evolves) (simp_all add: log_inv_def calls_inv_def)
  have "log_inv (ns @ completed (fst p) (fst ?q)) (fst ?q)" using Cons.prems(2) by (intro evolves_log [OF Cons.prems(1) ev]) simp
  moreover have "unat (ms_next_id (fst ?q)) \<le> unat (ms_next_id (fst p)) + 1"
    using ev Cons.prems(2) by (auto simp: evolves_def unat_word_ariths)
  ultimately show ?case using Cons.IH [of "ns @ completed (fst p) (fst ?q)" ?q k] Cons.prems(2) r by simp
qed simp

section \<open>The lines that are written\<close>

text \<open>A run of calls, and a raw fragment, after calls whose outcome is known.\<close>

lemma run_after:
  assumes "outcome ra base d (jw_status w, w)"
  shows "outcome ra base (case d of None \<Rightarrow> None | Some e \<Rightarrow> doc_run cs e) (jw_status (jw_run ra cs w), jw_run ra cs w)"
proof (cases "jw_status w")
  case None
  with assms obtain e where "d = Some e" "represents ra base w e" by (auto simp: outcome_def)
  with run_outcome [of ra base w e cs] show ?thesis by simp
next
  case (Some x)
  with assms show ?thesis by (auto simp: outcome_def run_failed split: option.splits)
qed

lemma raw_after:
  assumes "outcome ra base d (jw_status w, w)" "wire p = utf8_text (jw.text_of v)" "length p < 2 ^ 64"
  shows "outcome ra base (case d of None \<Rightarrow> None | Some e \<Rightarrow> add_value v e)
    (jw_status (snd (af_jw_raw ra w p)), snd (af_jw_raw ra w p))"
proof (cases "jw_status w")
  case None
  with assms(1) obtain e where e: "d = Some e" "represents ra base w e" by (auto simp: outcome_def)
  have "outcome ra base (add_value v e) (af_jw_raw ra w p)"
    unfolding af_jw_raw_def af_jw_literal_def using e(2) by (rule value_call) (rule put_writes [OF _ assms(2,3)])
  with e(1) show ?thesis
    by (cases "af_jw_raw ra w p") (auto simp: outcome_def represents_def ready_def split: option.splits)
next
  case (Some x)
  with assms(1) show ?thesis by (auto simp: outcome_def af_jw_raw_def af_jw_literal_def prepare_failed split: option.splits)
qed

text \<open>The parameters of a message: none, or the text of an object or array.\<close>

fun params_text :: "u8 list option \<Rightarrow> json option \<Rightarrow> bool" where
  "params_text None v = (v = None)"
| "params_text (Some p) v =
     (\<exists>w. v = Some w \<and> printable w \<and> structured w \<and> wire (c_bytes p) = utf8_text (jw.text_of w) \<and> length (c_bytes p) < 2 ^ 64)"

definition params_members :: "json option \<Rightarrow> (pystr \<times> json) list" where
  "params_members v = (case v of None \<Rightarrow> [] | Some w \<Rightarrow> [(str ''params'', w)])"

lemma constant_texts:
  "code_points (c_bytes k_jsonrpc) = str ''jsonrpc''" "code_points (c_bytes k_id) = str ''id''"
  "code_points (c_bytes k_method) = str ''method''" "code_points (c_bytes k_params) = str ''params''"
  "cstr_value (Some v_two) = JStr (str ''2.0'')" "code_points (c_bytes k_request_id) = str ''requestId''"
  "code_points (c_bytes k_reason) = str ''reason''" "cstr_value (Some v_timeout_reason) = JStr (str ''request timeout'')"
  "cstr_value (Some m_cancelled) = JStr (str ''notifications/cancelled'')"
  unfolding code_points_def cstr_value_def by code_simp+

lemma params_after:
  assumes "outcome ra base (Some (None, [ObjF ms None])) (jw_status w, w)" "params_text params v"
  shows "outcome ra base (Some (None, [ObjF (ms @ params_members v) None])) (jw_status (write_params ra params w), write_params ra params w)"
proof (cases params)
  case None
  with assms show ?thesis by (simp add: write_params_def params_members_def)
next
  case (Some p)
  with assms(2) obtain x where x: "v = Some x" "wire (c_bytes p) = utf8_text (jw.text_of x)" "length (c_bytes p) < 2 ^ 64" by auto
  from raw_after [OF run_after [OF assms(1), of "[Put_Key k_params]"] x(2,3)] Some x(1) show ?thesis
    by (simp add: write_params_def params_members_def constant_texts)
qed

definition message_doc :: "int option \<Rightarrow> u8 list \<Rightarrow> json option \<Rightarrow> json" where
  "message_doc n method v =
     JObj ((str ''jsonrpc'', JStr (str ''2.0'')) # (case n of None \<Rightarrow> [] | Some i \<Rightarrow> [(str ''id'', JInt i)]) @
       (str ''method'', cstr_value (Some method)) # params_members v)"

lemma finished_text:
  assumes "outcome ra [] (Some (Some v, [])) (jw_status w, w)" "af_jw_finish w = (AF_OK, w')"
  shows "wire (contents (jw_out w')) = utf8_text (jw.text_of v) \<and> buf_wf (jw_out w')"
proof -
  have st: "jw_status w = None" "w' = w" using assms(2) by (auto simp: af_jw_finish_def split: option.splits if_splits)
  with assms(1) have "represents ra [] w (Some v, [])" by (simp add: outcome_def)
  with st(2) show ?thesis by (simp add: represents_def ready_def)
qed

lemma run_from_init:
  "realloc_law ra \<Longrightarrow> af_buf_init m = Inr b \<Longrightarrow>
   outcome ra [] (doc_run cs (None, [])) (jw_status (jw_run ra cs (af_jw_init b)), jw_run ra cs (af_jw_init b))"
  using run_outcome [OF init_represents, of ra b cs] init_wf [of m b] by (simp add: wire_def)

lemma request_written:
  assumes "realloc_law ra" "af_buf_init m = Inr b" "params_text params v"
    "af_jw_finish (write_request ra n method params (af_jw_init b)) = (AF_OK, w)"
  shows "wire (contents (jw_out w)) = utf8_text (jw.text_of (message_doc (Some (uint n)) method v)) \<and> buf_wf (jw_out w)"
proof -
  let ?cs = "[Begin_Object, Put_Key k_jsonrpc, Put_Cstr (Some v_two), Put_Key k_id, Put_Uint n, Put_Key k_method, Put_Cstr (Some method)]"
  let ?ms = "[(str ''jsonrpc'', JStr (str ''2.0'')), (str ''id'', JInt (uint n)), (str ''method'', cstr_value (Some method))]"
  have "doc_run ?cs (None, []) = Some (None, [ObjF ?ms None])" by (simp add: constant_texts AF_JW_MAX_DEPTH_def)
  with run_from_init [OF assms(1,2), of ?cs]
  have "outcome ra [] (Some (None, [ObjF ?ms None])) (jw_status (jw_run ra ?cs (af_jw_init b)), jw_run ra ?cs (af_jw_init b))"
    by simp
  from run_after [OF params_after [OF this assms(3)], of "[End_Object]"]
  have "outcome ra [] (Some (Some (message_doc (Some (uint n)) method v), []))
      (jw_status (write_request ra n method params (af_jw_init b)), write_request ra n method params (af_jw_init b))"
    by (simp add: write_request_def message_doc_def del: jw_run.simps)
  from finished_text [OF this assms(4)] show ?thesis .
qed

lemma cancelled_written:
  assumes "realloc_law ra" "af_buf_init m = Inr b" "af_jw_finish (write_cancelled ra n (af_jw_init b)) = (AF_OK, w)"
  shows "wire (contents (jw_out w)) = utf8_text (jw.text_of (message_doc None m_cancelled
      (Some (JObj [(str ''requestId'', JInt (uint n)), (str ''reason'', JStr (str ''request timeout''))])))) \<and> buf_wf (jw_out w)"
proof -
  let ?cs = "[Begin_Object, Put_Key k_jsonrpc, Put_Cstr (Some v_two), Put_Key k_method, Put_Cstr (Some m_cancelled),
       Put_Key k_params, Begin_Object, Put_Key k_request_id, Put_Uint n, Put_Key k_reason,
       Put_Cstr (Some v_timeout_reason), End_Object, End_Object]"
  let ?d = "message_doc None m_cancelled (Some (JObj [(str ''requestId'', JInt (uint n)), (str ''reason'', JStr (str ''request timeout''))]))"
  have "doc_run ?cs (None, []) = Some (Some ?d, [])"
    by (simp add: constant_texts AF_JW_MAX_DEPTH_def message_doc_def params_members_def)
  with run_from_init [OF assms(1,2), of ?cs]
  have "outcome ra [] (Some (Some ?d, [])) (jw_status (write_cancelled ra n (af_jw_init b)), write_cancelled ra n (af_jw_init b))"
    by (simp add: write_cancelled_def del: jw_run.simps)
  from finished_text [OF this assms(3)] show ?thesis .
qed

text \<open>Such a line decodes to its document, which is a request.\<close>

lemma collapse_structured: "structured v \<Longrightarrow> structured (collapse v)"
  by (auto simp: structured_def)

lemma message_doc_collapse:
  "collapse (message_doc n method v) = message_doc n method (map_option collapse v)"
proof -
  let ?ms = "(str ''jsonrpc'', JStr (str ''2.0'')) # (case n of None \<Rightarrow> [] | Some i \<Rightarrow> [(str ''id'', JInt i)]) @
       (str ''method'', cstr_value (Some method)) # params_members (map_option collapse v)"
  have "distinct (map fst ?ms)"
    by (simp add: params_members_def str_def split: option.splits)
  then have "dict_of ?ms = ?ms" by (rule dict_of_distinct)
  then show ?thesis
    by (simp add: message_doc_def params_members_def cstr_value_def split: option.splits)
qed

lemma message_doc_request:
  "(case v of None \<Rightarrow> True | Some w \<Rightarrow> structured w) \<Longrightarrow> rpc_request (message_doc n method v)"
  by (auto simp: message_doc_def rpc_request_def rpc_two_def member_absent_def member_of_def params_members_def
      cstr_value_def id_value_def str_def split: option.splits)

lemma message_doc_members:
  "member_of (message_doc (Some i) method v) (str ''id'') = Inr (JInt i)"
  "member_of (message_doc n method v) (str ''method'') = Inr (cstr_value (Some method))"
  "member_of (message_doc n method (Some w)) (str ''params'') = Inr w"
  by (simp_all add: message_doc_def member_of_def params_members_def str_def split: option.splits)

lemma message_doc_printable:
  "(case v of None \<Rightarrow> True | Some w \<Rightarrow> printable w) \<Longrightarrow> printable (message_doc n method v)"
proof -
  have "list_all scalar (str ''jsonrpc'')" "list_all scalar (str ''2.0'')" "list_all scalar (str ''id'')"
    "list_all scalar (str ''method'')" "list_all scalar (str ''params'')" by code_simp+
  then show "(case v of None \<Rightarrow> True | Some w \<Rightarrow> printable w) \<Longrightarrow> ?thesis"
    using cstr_printable [of "Some method"] by (simp add: message_doc_def params_members_def split: option.splits)
qed

lemma line_decodes:
  assumes "wire line = utf8_text (jw.text_of (message_doc n method v))" "case v of None \<Rightarrow> True | Some w \<Rightarrow> printable w"
  shows "10 \<notin> set line \<and> utf8_decode (wire line) = Some (jw.text_of (message_doc n method v)) \<and>
    loads (jw.text_of (message_doc n method v)) = Some (message_doc n method (map_option collapse v))"
proof -
  note p = message_doc_printable [OF assms(2), of n "method"]
  have "list_all (\<lambda>c. 32 \<le> c \<and> c \<noteq> 127) line" by (rule clean_wire [OF clean_text [OF p] assms(1)])
  then show ?thesis
    using jw.loads_render [OF p] clean_decodes [OF clean_text [OF p]] assms(1) message_doc_collapse
    by (auto simp: list_all_iff)
qed

section \<open>What reaches the server\<close>

lemma contents_length_bound: "buf_wf b \<Longrightarrow> length (contents b) < 2 ^ 64"
  using contents_wf [of b] unsigned_less [of "buf_len b"] by simp

lemma stdio_line:
  assumes "realloc_law (env_realloc env)" "out_wf c" "buf_wf (jw_out w)" "line_of w = Some b"
    "stdio_send env b (s, c) = (AF_OK, (s', c'))"
  shows "b = contents (jw_out w) \<and> out_wf c' \<and> to_server c' = to_server c @ b @ [10]"
proof -
  have b: "b = contents (jw_out w)" using assms(4) by (simp add: line_of_def split: if_splits)
  have "af_mcp_send (env_realloc env) (env_writes env) b c = (AF_OK, c')"
    using assms(5) by (simp add: stdio_send_def split: prod.splits)
  from send_ok [OF assms(1,2) _ this] contents_length_bound [OF assms(3)] b show ?thesis by simp
qed

lemma request_sent:
  assumes "ms_transport s = AF_TRANSPORT_STDIO" "af_mcp_request env now method params kind timeout_ms (s, c) = (Some i, (s', c'))"
  shows "\<exists>d b w body. af_mcp_call_alloc kind d s = (Some i, s') \<and> af_buf_init AF_MCP_INVENTORY_MAX = Inr b \<and>
    af_jw_finish (write_request (env_realloc env) (call_id s' i) method params (af_jw_init b)) = (AF_OK, w) \<and>
    line_of w = Some body \<and> stdio_send env body (s', c) = (AF_OK, (s', c'))"
proof -
  from assms(2) obtain d where d: "call_deadline now timeout_ms = Inr d" by (cases "call_deadline now timeout_ms") (simp_all add: af_mcp_request_def)
  obtain q s1 where a: "af_mcp_call_alloc kind d s = (q, s1)" by fastforce
  with assms(2) d obtain k where k: "q = Some k" by (cases q) (simp_all add: af_mcp_request_def)
  obtain b where b: "af_buf_init AF_MCP_INVENTORY_MAX = Inr b" by (simp add: af_buf_init_def AF_MCP_INVENTORY_MAX_def)
  obtain st w where w: "af_jw_finish (write_request (env_realloc env) (call_id s1 k) method params (af_jw_init b)) = (st, w)" by fastforce
  with assms(2) d a k b have st: "st = None" by (cases st) (simp_all add: af_mcp_request_def)
  have t: "ms_transport s1 = AF_TRANSPORT_STDIO" using alloc_call [OF a] k assms(1) by simp
  obtain x p where x: "af_mcp_transport_request env k method (line_of w) (s1, c) = (x, p)"
    by (cases "af_mcp_transport_request env k method (line_of w) (s1, c)")
  with assms(2) d a k b w st have "x = None" "p = (s', c')" "k = i" by (cases x; auto simp: af_mcp_request_def split: prod.splits)+
  with x t obtain body where "line_of w = Some body" "stdio_send env body (s1, c) = (AF_OK, (s', c'))"
    by (auto simp: af_mcp_transport_request_def split: option.splits)
  moreover from this have "s' = s1" by (auto simp: stdio_send_def split: prod.splits)
  ultimately show ?thesis using a b w st k \<open>k = i\<close> by blast
qed

text \<open>
  What a notice adds to the stream: its line when it was sent; its line or nothing when sending it
  failed, since a line that is queued may still meet an error of the pipe.
\<close>

lemma stdio_adds:
  assumes "realloc_law (env_realloc env)" "out_wf c" "buf_wf (jw_out w)" "line_of w = Some b"
    "stdio_send env b (s, c) = (st, (s', c'))"
  shows "s' = s \<and> out_wf c' \<and> (to_server c' = to_server c @ contents (jw_out w) @ [10] \<or> st \<noteq> AF_OK \<and> to_server c' = to_server c)"
proof -
  have b: "b = contents (jw_out w)" using assms(4) by (simp add: line_of_def split: if_splits)
  have "af_mcp_send (env_realloc env) (env_writes env) b c = (st, c')" "s' = s"
    using assms(5) by (simp_all add: stdio_send_def split: prod.splits)
  with send_ok [OF assms(1,2) _ this(1)] contents_length_bound [OF assms(3)] b show ?thesis by auto
qed

lemma emit_adds:
  assumes "realloc_law (env_realloc env)" "out_wf c" "ms_transport s = AF_TRANSPORT_STDIO"
    "af_mcp_emit_cancelled env i (s, c) = (st, (s', c'))"
  shows "s' = s \<and> out_wf c' \<and> ((\<exists>line. to_server c' = to_server c @ line @ [10] \<and>
    wire line = utf8_text (jw.text_of (message_doc None m_cancelled
      (Some (JObj [(str ''requestId'', JInt (uint (call_id s i))), (str ''reason'', JStr (str ''request timeout''))]))))) \<or>
    st \<noteq> AF_OK \<and> to_server c' = to_server c)"
proof -
  obtain b where b: "af_buf_init AF_MCP_CANCEL_FRAME_MAX = Inr b" by (simp add: af_buf_init_def AF_MCP_CANCEL_FRAME_MAX_def)
  obtain f w where w: "af_jw_finish (write_cancelled (env_realloc env) (call_id s i) (af_jw_init b)) = (f, w)" by fastforce
  show ?thesis
  proof (cases "f = AF_OK \<and> line_of w \<noteq> None")
    case False
    with assms(2,4) b w show ?thesis
      by (cases f) (auto simp: af_mcp_emit_cancelled_def af_mcp_transport_notify_def)
  next
    case True
    then obtain body where body: "line_of w = Some body" by blast
    with assms(3,4) b w True have sent: "stdio_send env body (s, c) = (st, (s', c'))"
      by (simp add: af_mcp_emit_cancelled_def af_mcp_transport_notify_def)
    from w True have "af_jw_finish (write_cancelled (env_realloc env) (call_id s i) (af_jw_init b)) = (AF_OK, w)" by simp
    note t = cancelled_written [OF assms(1) b this]
    from stdio_adds [OF assms(1,2) conjunct2 [OF t] body sent] t show ?thesis by blast
  qed
qed

text \<open>A line that cancels a call.\<close>

definition cancels :: "u8 list \<Rightarrow> mcp_call \<Rightarrow> bool" where
  "cancels line c \<longleftrightarrow> 10 \<notin> set line \<and> (\<exists>t. utf8_decode (wire line) = Some t \<and>
     loads t = Some (message_doc None m_cancelled
       (Some (JObj [(str ''requestId'', JInt (uint (cl_id c))), (str ''reason'', JStr (str ''request timeout''))]))))"

lemma emit_cancels:
  assumes "wire line = utf8_text (jw.text_of (message_doc None m_cancelled
      (Some (JObj [(str ''requestId'', JInt (uint (cl_id c))), (str ''reason'', JStr (str ''request timeout''))]))))"
  shows "cancels line c"
proof -
  let ?w = "JObj [(str ''requestId'', JInt (uint (cl_id c))), (str ''reason'', JStr (str ''request timeout''))]"
  have "list_all scalar (str ''requestId'')" "list_all scalar (str ''reason'')" "list_all scalar (str ''request timeout'')"
    by code_simp+
  then have p: "printable ?w" by simp
  have "collapse ?w = ?w" by (simp add: dict_of_distinct str_def)
  with line_decodes [OF assms] p show ?thesis by (auto simp: cancels_def)
qed

definition overdue :: "u64 \<Rightarrow> mcp_call \<Rightarrow> bool" where
  "overdue now c \<longleftrightarrow> cl_state c = CALL_PENDING \<and> 0 < uint (cl_deadline c) \<and> uint (cl_deadline c) \<le> uint now"

lemma expired_overdue: "expired = overdue"
proof (intro ext)
  fix now :: u64 and c :: mcp_call
  have "cl_deadline c \<noteq> 0 \<longleftrightarrow> 0 < uint (cl_deadline c)" using uint_0_iff [of "cl_deadline c"] by (simp add: order_less_le)
  then show "expired now c = overdue now c" by (simp add: expired_def overdue_def not_less word_le_def)
qed

definition needs_cancel :: "u64 \<Rightarrow> mcp_call \<Rightarrow> bool" where
  "needs_cancel now c \<longleftrightarrow> overdue now c \<and> cl_kind c \<noteq> AF_MCP_CALL_INITIALIZE"

lemma cancel_adds:
  assumes "realloc_law (env_realloc env)" "out_wf c" "ms_transport s = AF_TRANSPORT_STDIO"
    "af_mcp_cancel_timed_out env i (s, c) = (st, (s', c'))"
  shows "s' = s \<and> out_wf c' \<and>
    (cl_kind (ms_calls s ! i) \<noteq> AF_MCP_CALL_INITIALIZE \<and>
       (\<exists>line. to_server c' = to_server c @ line @ [10] \<and> cancels line (ms_calls s ! i)) \<or>
     (cl_kind (ms_calls s ! i) = AF_MCP_CALL_INITIALIZE \<or> st \<noteq> AF_OK) \<and> to_server c' = to_server c)"
proof (cases "cl_kind (ms_calls s ! i) \<noteq> AF_MCP_CALL_INITIALIZE \<and> af_mcp_emit_cancelled env i (s, c) = (st, (s', c'))")
  case True
  with emit_adds [OF assms(1-3), of i st s' c'] emit_cancels [where c = "ms_calls s ! i"] show ?thesis by blast
next
  case False
  with assms show ?thesis
    by (auto simp: af_mcp_cancel_timed_out_def af_mcp_cancel_modern_def af_mcp_cancel_legacy_def Let_def
        AF_TRANSPORT_STDIO_def AF_TRANSPORT_STREAMABLE_HTTP_def split: if_splits)
qed

lemma sweep_error_kept: "sweep_loop env now is n (Some e) p = (n', err, q) \<Longrightarrow> err = Some e"
  by (induction env now "is" n "Some e" p rule: sweep_loop.induct) (auto split: if_splits prod.splits)

text \<open>The calls the server is told of: all that must be cancelled, or some of them when a notice failed.\<close>

lemma sweep_tells:
  "sweep_loop env now is n err (s, c) = (n', err', (s', c')) \<Longrightarrow> (\<And>i. realloc_law (env_realloc (env i))) \<Longrightarrow>
   ms_transport s = AF_TRANSPORT_STDIO \<Longrightarrow> out_wf c \<Longrightarrow> distinct is \<Longrightarrow> list_all (\<lambda>i. i < length (ms_calls s)) is \<Longrightarrow>
   \<exists>lines told. to_server c' = to_server c @ concat (map (\<lambda>l. l @ [10]) lines) \<and> list_all2 cancels lines told \<and>
     subseq told (filter (needs_cancel now) (map (\<lambda>i. ms_calls s ! i) is)) \<and>
     (err' = None \<longrightarrow> told = filter (needs_cancel now) (map (\<lambda>i. ms_calls s ! i) is))"
proof (induction "is" arbitrary: n err s c)
  case Nil
  then show ?case by (intro exI [of _ "[]"]) simp
next
  case (Cons i "is")
  let ?due = "\<lambda>s is. filter (needs_cancel now) (map (\<lambda>i. ms_calls s ! i) is)"
  show ?case
  proof (cases "expired now (ms_calls s ! i)")
    case False
    with Cons.IH [of n err s c] Cons.prems show ?thesis by (simp add: needs_cancel_def expired_overdue)
  next
    case True
    obtain st s1 c1 where r: "af_mcp_cancel_timed_out (env i) i (s, c) = (st, (s1, c1))" by (metis prod_cases3)
    note added = cancel_adds [OF Cons.prems(2,4,3) r]
    let ?err = "if err = None then st else err"
    have l: "sweep_loop env now is (n + 1) ?err (retire_call i s, c1) = (n', err', (s', c'))"
      using True Cons.prems(1) r added by simp
    have i: "i < length (ms_calls s)" "i \<notin> set is" using Cons.prems by simp_all
    have same: "map (\<lambda>j. ms_calls (retire_call i s) ! j) is = map (\<lambda>j. ms_calls s ! j) is"
      using i by (auto simp: retire_call_def)
    have "\<exists>lines told. to_server c' = to_server c1 @ concat (map (\<lambda>l. l @ [10]) lines) \<and> list_all2 cancels lines told \<and>
        subseq told (?due (retire_call i s) is) \<and> (err' = None \<longrightarrow> told = ?due (retire_call i s) is)"
      by (rule Cons.IH [OF l Cons.prems(2)]) (use Cons.prems added in \<open>simp_all add: retire_call_def\<close>)
    then obtain lines told where lines: "to_server c' = to_server c1 @ concat (map (\<lambda>l. l @ [10]) lines)"
      "list_all2 cancels lines told" "subseq told (?due s is)" "err' = None \<longrightarrow> told = ?due s is"
      unfolding same by blast
    have due: "?due s (i # is) = (if cl_kind (ms_calls s ! i) = AF_MCP_CALL_INITIALIZE then [] else [ms_calls s ! i]) @ ?due s is"
      using True by (simp add: needs_cancel_def expired_overdue)
    have failed: "err' \<noteq> None" if "st \<noteq> AF_OK"
    proof -
      from that obtain e where e: "?err = Some e" by (cases err; cases st) simp_all
      from sweep_error_kept [OF l [unfolded e]] show ?thesis by simp
    qed
    from added consider
        (told) line where "cl_kind (ms_calls s ! i) \<noteq> AF_MCP_CALL_INITIALIZE" "to_server c1 = to_server c @ line @ [10]"
          "cancels line (ms_calls s ! i)"
      | (quiet) "cl_kind (ms_calls s ! i) = AF_MCP_CALL_INITIALIZE \<or> st \<noteq> AF_OK" "to_server c1 = to_server c" by blast
    then show ?thesis
    proof cases
      case (told line)
      then show ?thesis unfolding due using lines
        by (intro exI [of _ "line # lines"] exI [of _ "ms_calls s ! i # told"]) simp
    next
      case quiet
      have "subseq told (pre @ ?due s is)" for pre using lines(3) by (rule subseq_drop_many)
      moreover have "err' = None \<Longrightarrow> cl_kind (ms_calls s ! i) = AF_MCP_CALL_INITIALIZE" using quiet(1) failed by blast
      ultimately show ?thesis unfolding due using lines(1,2,4) quiet(2)
        by (intro exI [of _ lines] exI [of _ told]) simp
    qed
  qed
qed

section \<open>Properties\<close>

text \<open>
  What the client finds in a call after its response: the result or the error object as text, with
  its status, or no text and the status of the storage that failed, and why it failed.
\<close>

definition answered :: "json_lib \<Rightarrow> allocator \<Rightarrow> reply \<Rightarrow> mcp_call \<Rightarrow> mcp_call \<Rightarrow> bool" where
  "answered lib ra r c d \<longleftrightarrow> cl_state d = CALL_DONE \<and> cl_id d = cl_id c \<and> cl_kind d = cl_kind c \<and> cl_deadline d = cl_deadline c \<and>
     (let (v, status, code) = (case r of Answer v \<Rightarrow> (v, AF_OK, cl_error_code c) | Failure v code \<Rightarrow> (v, Some AF_E_MCP_PROTOCOL, code))
      in cl_error_code d = code \<and>
        (case jl_dump lib v of
           None \<Rightarrow> cl_status d = Some AF_E_NOMEM \<and> contents (cl_result d) = []
         | Some p \<Rightarrow>
             cl_status d = status \<and> contents (cl_result d) = p \<or>
             contents (cl_result d) = [] \<and>
               (cl_status d = Some AF_E_LIMIT \<and> unat (buf_max (cl_result c)) < length p \<or>
                cl_status d = Some AF_E_NOMEM \<and> (\<exists>b n. ra b n = None))))"

definition results_wf :: "mcp_session \<Rightarrow> bool" where
  "results_wf s \<longleftrightarrow> list_all (\<lambda>c. cl_state c = CALL_PENDING \<longrightarrow> buf_wf (cl_result c) \<and> buf_max (cl_result c) < 2 ^ 63) (ms_calls s)"

text \<open>What Jansson prints fits in the address space.\<close>

definition dumps_fit :: "json_lib \<Rightarrow> bool" where
  "dumps_fit lib \<longleftrightarrow> (\<forall>v p. jl_dump lib v = Some p \<longrightarrow> length p < 2 ^ 64)"

lemma results_wf_update:
  assumes "results_wf s" "ms_calls s' = (ms_calls s)[i := c]"
    "cl_state c = CALL_PENDING \<Longrightarrow> buf_wf (cl_result c) \<and> buf_max (cl_result c) < 2 ^ 63"
  shows "results_wf s'"
  using assms set_update_subset_insert [of "ms_calls s" i c] by (auto simp: results_wf_def list_all_iff)

text \<open>The calls of a session start with an empty result, and only a completed call has another.\<close>

lemma results_wf_alloc: "results_wf s \<Longrightarrow> results_wf (snd (af_mcp_call_alloc kind deadline s))"
  by (cases "af_buf_init AF_MCP_INVENTORY_MAX")
    (auto simp: af_mcp_call_alloc_def set_call_def Let_def AF_MCP_INVENTORY_MAX_def dest!: init_wf
      split: option.splits intro: results_wf_update)

lemma results_wf_steps:
  assumes "results_wf s"
  shows "results_wf (release_call i s)" "results_wf (retire_call i s)" "results_wf (correlate lib ra n r s)"
    "results_wf (af_mcp_calls_release s)"
proof -
  show "results_wf (release_call i s)"
    by (rule results_wf_update [OF assms, where i = i and c = "af_mcp_call_release (ms_calls s ! i)"])
      (auto simp: release_call_def set_call_def af_mcp_call_release_def zero_call_def)
  show "results_wf (retire_call i s)"
    by (rule results_wf_update [OF assms, where i = i]) (auto simp: retire_call_def set_call_def)
  show "results_wf (correlate lib ra n r s)"
  proof (cases "af_mcp_call_find s n")
    case None
    with assms show ?thesis by (simp add: correlate_def unmatched_def results_wf_def)
  next
    case (Some k)
    have "results_wf (set_call k (complete_call lib ra r (ms_calls s ! k)) s)"
      by (rule results_wf_update [OF assms, where i = k]) (auto simp: set_call_def)
    with Some assms show ?thesis by (simp add: correlate_def unmatched_def results_wf_def)
  qed
  show "results_wf (af_mcp_calls_release s)"
    by (auto simp: results_wf_def af_mcp_calls_release_def list_all_iff af_mcp_call_release_def zero_call_def)
qed

lemma clear_wf: "buf_wf b \<Longrightarrow> buf_wf (af_buf_clear b) \<and> contents (af_buf_clear b) = [] \<and> buf_max (af_buf_clear b) = buf_max b"
  by (auto simp: af_buf_clear_def buf_wf_def contents_def split: option.splits)

text \<open>Storing a value in a cleared result.\<close>

lemma store_result:
  assumes "realloc_law ra" "dumps_fit lib" "buf_wf (cl_result c)" "buf_max (cl_result c) < 2 ^ 63"
    "af_mcp_store_result lib ra v c = (st, d)"
  shows "\<exists>b. d = c\<lparr>cl_result := b\<rparr> \<and>
    (case jl_dump lib v of
       None \<Rightarrow> st = Some AF_E_NOMEM \<and> contents b = []
     | Some p \<Rightarrow> st = None \<and> contents b = p \<or> contents b = [] \<and>
         (st = Some AF_E_LIMIT \<and> unat (buf_max (cl_result c)) < length p \<or> st = Some AF_E_NOMEM \<and> (\<exists>b n. ra b n = None)))"
proof (cases "jl_dump lib v")
  case None
  with assms clear_wf [OF assms(3)] show ?thesis by (auto simp: af_mcp_store_result_def Let_def)
next
  case (Some p)
  let ?b = "af_buf_clear (cl_result c)"
  note w = clear_wf [OF assms(3)]
  from Some assms(2) have "length p < 2 ^ 64" by (auto simp: dumps_fit_def)
  then have n: "unat (of_nat (length p) :: u64) = length p" by (rule unat_of_length)
  obtain r b where a: "af_buf_append ra ?b (Some p) (of_nat (length p)) = (r, b)" by fastforce
  then have d: "st = r" "d = c\<lparr>cl_result := b\<rparr>" using Some assms(5) by (simp_all add: af_mcp_store_result_def)
  show ?thesis
  proof (cases r)
    case None
    have "contents b = p" using append_ok [OF _ assms(1) n [symmetric] a [unfolded None]] w by simp
    with None Some d show ?thesis by (intro exI [of _ b]) simp
  next
    case e: (Some e)
    have "unat (buf_cap ?b) < 2 ^ 63"
      using w assms(4) by (auto simp: buf_wf_def word_le_nat_alt word_less_nat_alt)
    moreover have "buf_len ?b = 0" by (simp add: af_buf_clear_def)
    ultimately have "e = AF_E_LIMIT \<and> unat (buf_max ?b) < length p \<or> e = AF_E_NOMEM \<and> (\<exists>b n. ra b n = None)"
      using append_status [OF a [unfolded e]] n \<open>length p < 2 ^ 64\<close> by auto
    with append_fail [OF a [unfolded e]] e w Some d show ?thesis by auto
  qed
qed

lemma complete_answered:
  assumes "realloc_law ra" "dumps_fit lib" "buf_wf (cl_result c)" "buf_max (cl_result c) < 2 ^ 63"
  shows "answered lib ra r c (complete_call lib ra r c)"
proof (cases r)
  case (Answer v)
  obtain st d where s: "af_mcp_store_result lib ra v c = (st, d)" by fastforce
  from store_result [OF assms s] Answer s show ?thesis
    by (cases st; cases "jl_dump lib v") (auto simp: answered_def complete_call_def)
next
  case (Failure v code)
  let ?c = "c\<lparr>cl_error_code := code\<rparr>"
  obtain st d where s: "af_mcp_store_result lib ra v ?c = (st, d)" by fastforce
  from store_result [of ra lib ?c, OF assms(1,2) _ _ s] assms(3,4) Failure s show ?thesis
    by (cases st; cases "jl_dump lib v") (auto simp: answered_def complete_call_def)
qed

text \<open>A response and the table: it completes the pending call of its identifier, or none.\<close>

definition matched :: "json_lib \<Rightarrow> allocator \<Rightarrow> int \<Rightarrow> reply \<Rightarrow> mcp_session \<Rightarrow> mcp_session \<Rightarrow> bool" where
  "matched lib ra n r s s' \<longleftrightarrow>
     (\<exists>i < AF_MCP_MAX_CALLS. \<exists>d. call_pending s i \<and> sint (call_id s i) = n \<and>
        s' = s\<lparr>ms_calls := (ms_calls s)[i := d]\<rparr> \<and> answered lib ra r (ms_calls s ! i) d) \<or>
     (\<forall>i < AF_MCP_MAX_CALLS. call_pending s i \<longrightarrow> sint (call_id s i) \<noteq> n) \<and> s' = s\<lparr>ms_unmatched := ms_unmatched s + 1\<rparr>"

lemma correlate_matched:
  assumes "realloc_law ra" "dumps_fit lib" "results_wf s" "calls_inv s"
  shows "matched lib ra (sint x) r s (correlate lib ra x r s)"
proof (cases "\<exists>i < AF_MCP_MAX_CALLS. call_pending s i \<and> call_id s i = x")
  case True
  then obtain i where i: "i < AF_MCP_MAX_CALLS" "call_pending s i" "call_id s i = x" by blast
  then have "ms_calls s ! i \<in> set (ms_calls s)" using assms(4) by (simp add: calls_inv_def)
  then have "answered lib ra r (ms_calls s ! i) (complete_call lib ra r (ms_calls s ! i))"
    using i(2) assms(3) by (intro complete_answered [OF assms(1,2)]) (auto simp: results_wf_def list_all_iff call_pending_def)
  with i correlate_pending [OF assms(4) i(1,2), of lib ra r] show ?thesis by (auto simp: matched_def set_call_def)
next
  case False
  then have "correlate lib ra x r s = unmatched s" using correlate_unmatched [OF assms(4)] by auto
  with False show ?thesis by (auto simp: matched_def unmatched_def sint_inject)
qed

text \<open>
  C9: Every line is judged by the rules of JSON-RPC, as a document. A line that is empty or cannot be
  parsed within the limits, or whose document is no valid message, is counted as contamination
  and ends the session; a request or notification is counted and not answered; a response with a
  result, or with an error object, completes the pending call with its identifier, which then holds
  the printed result or error object and its status, or the reason why it could not be kept, and
  is counted as unmatched when there is none. Nothing else of the session changes.
\<close>

theorem message_by_meaning:
  assumes "reads_json (jl_load lib)" "finds_members (jl_get lib)" "dumps_fit lib" "realloc_law ra" "calls_inv s" "results_wf s"
  shows "let (st, s') = af_mcp_on_message lib ra frame_max line s;
      bad = (st = Some AF_E_MCP_PROTOCOL \<and> s' = s\<lparr>ms_contaminated := ms_contaminated s + 1\<rparr>)
    in if line = [] \<or> fst (af_json_parse (jl_room lib) (jl_load lib) line (message_limits frame_max line)) \<noteq> AF_OK then bad
       else \<exists>t j. utf8_decode (wire line) = Some t \<and> loads t = Some j \<and>
         (if rpc_request j then st = AF_OK \<and> s' = s\<lparr>ms_notifications := ms_notifications s + 1\<rparr>
          else if \<exists>n w. rpc_answer j n w
          then \<exists>n w m. rpc_answer j n w \<and> agrees m w \<and> st = AF_OK \<and> matched lib ra n (Answer m) s s'
          else if \<exists>n w c. rpc_failure j n w c
          then \<exists>n w m c. rpc_failure j n w (sint c) \<and> agrees m w \<and> st = AF_OK \<and> matched lib ra n (Failure m c) s s'
          else bad)"
proof -
  obtain st s' where r: "af_mcp_on_message lib ra frame_max line s = (st, s')" by fastforce
  obtain pst d where p: "af_json_parse (jl_room lib) (jl_load lib) line (message_limits frame_max line) = (pst, d)" by fastforce
  show ?thesis
  proof (cases "line = [] \<or> pst \<noteq> AF_OK")
    case True
    with unparsed_message [of lib line frame_max _ d ra s] r p show ?thesis by (cases pst) auto
  next
    case False
    then have ok: "pst = AF_OK" and line: "line \<noteq> []" by simp_all
    from parsed_document [OF assms(1) p [unfolded ok]] obtain v t j
      where v: "doc_root d = Some v" "utf8_decode (wire line) = Some t" "loads t = Some j" "agrees v j" by blast
    have h: "handled lib ra j s (st, s')"
      using tree_handled [OF assms(2) v(4) line v(1) p [unfolded ok], of ra s] r by simp
    note m = correlate_matched [OF assms(4,3,6,5)]
    have "if rpc_request j then st = AF_OK \<and> s' = s\<lparr>ms_notifications := ms_notifications s + 1\<rparr>
          else if \<exists>n w. rpc_answer j n w
          then \<exists>n w m. rpc_answer j n w \<and> agrees m w \<and> st = AF_OK \<and> matched lib ra n (Answer m) s s'
          else if \<exists>n w c. rpc_failure j n w c
          then \<exists>n w m c. rpc_failure j n w (sint c) \<and> agrees m w \<and> st = AF_OK \<and> matched lib ra n (Failure m c) s s'
          else st = Some AF_E_MCP_PROTOCOL \<and> s' = s\<lparr>ms_contaminated := ms_contaminated s + 1\<rparr>"
    proof -
      consider "rpc_request j" | n w where "\<not> rpc_request j" "rpc_answer j n w"
        | n w c where "\<not> rpc_request j" "\<nexists>n w. rpc_answer j n w" "rpc_failure j n w c" | "\<not> valid_message j"
        unfolding valid_message_def by blast
      then show ?thesis
      proof cases
        case 1
        with h show ?thesis by (simp add: handled_def)
      next
        case (2 n w)
        with h obtain q x where "agrees q w" "n = sint x" "s' = correlate lib ra x (Answer q) s" "st = AF_OK"
          unfolding handled_def by blast
        with 2 m [of x "Answer q"] show ?thesis by auto
      next
        case (3 n w c)
        with h obtain q x y where "agrees q w" "n = sint x" "c = sint y" "s' = correlate lib ra x (Failure q y) s" "st = AF_OK"
          unfolding handled_def by blast
        with 3 m [of x "Failure q y"] show ?thesis by auto
      next
        case 4
        with h show ?thesis unfolding handled_def valid_message_def by auto
      qed
    qed
    with r p v(2,3) False show ?thesis by auto
  qed
qed

text \<open>An instance of Jansson, which knows one response.\<close>

definition demo_line :: "u8 list" where
  "demo_line = [123, 34, 106, 115, 111, 110, 114, 112, 99, 34, 58, 34, 50, 46, 48, 34, 44, 34, 105, 100, 34, 58, 49, 44, 34, 114, 101, 115, 117, 108, 116, 34, 58, 91, 93, 125]"

definition demo_tree :: jnode where
  "demo_tree = JN_Object [([106, 115, 111, 110, 114, 112, 99], JN_String [50, 46, 48]), ([105, 100], JN_Integer 1),
     ([114, 101, 115, 117, 108, 116], JN_Array [])]"

definition demo_lib :: json_lib where
  "demo_lib = \<lparr>jl_room = True,
     jl_load = (\<lambda>p. if p = demo_line then Inr demo_tree else Inl \<lparr>err_line = 1, err_column = 1, err_position = 0\<rparr>),
     jl_get = (\<lambda>v key. case v of JN_Object ms \<Rightarrow> map_of ms (c_bytes key) | _ \<Rightarrow> None),
     jl_dump = (\<lambda>v. Some [91, 93])\<rparr>"

definition demo_session :: mcp_session where
  "demo_session = \<lparr>ms_calls = zero_call\<lparr>cl_state := CALL_PENDING, cl_id := 1, cl_kind := 2, cl_deadline := 50,
      cl_result := \<lparr>buf_data = None, buf_len = 0, buf_cap = 0, buf_max = 100\<rparr>\<rparr> # replicate 7 zero_call,
     ms_next_id = 1, ms_notifications = 0, ms_unmatched = 0, ms_contaminated = 0,
     ms_transport = AF_TRANSPORT_STDIO, ms_era = AF_ERA_MODERN\<rparr>"

definition demo_json :: json where
  "demo_json = JObj [(str ''jsonrpc'', JStr (str ''2.0'')), (str ''id'', JInt 1), (str ''result'', JArr [])]"

lemma demo_reads: "reads_json (jl_load demo_lib)"
proof -
  have "utf8_decode (wire demo_line) = Some (map uint demo_line)" by code_simp
  moreover have "loads (map uint demo_line) = Some demo_json" by code_simp
  moreover have "agrees demo_tree demo_json" by code_simp
  moreover have "sized demo_tree" by (simp add: sized_def node_within_def demo_tree_def)
  ultimately show ?thesis unfolding reads_json_def demo_lib_def by (auto split: if_splits)
qed

lemma demo_finds: "finds_members (jl_get demo_lib)"
  by (simp add: finds_members_def demo_lib_def)

lemma demo_calls: "calls_inv demo_session"
proof -
  have "list_all (\<lambda>i. busy demo_session i \<longrightarrow> call_id demo_session i \<le> ms_next_id demo_session \<and>
     list_all (\<lambda>j. busy demo_session j \<longrightarrow> call_id demo_session j = call_id demo_session i \<longrightarrow> j = i) [0..<AF_MCP_MAX_CALLS])
     [0..<AF_MCP_MAX_CALLS]" "length (ms_calls demo_session) = AF_MCP_MAX_CALLS" by code_simp+
  then show ?thesis by (auto simp: calls_inv_def list_all_iff)
qed

lemma demo_results: "results_wf demo_session" "dumps_fit demo_lib"
  by code_simp (simp add: dumps_fit_def demo_lib_def)

theorem message_by_meaning_witness:
  "let (st, s') = af_mcp_on_message demo_lib plain_realloc 100 demo_line demo_session;
      bad = (st = Some AF_E_MCP_PROTOCOL \<and> s' = demo_session\<lparr>ms_contaminated := ms_contaminated demo_session + 1\<rparr>)
    in if demo_line = [] \<or> fst (af_json_parse (jl_room demo_lib) (jl_load demo_lib) demo_line (message_limits 100 demo_line)) \<noteq> AF_OK then bad
       else \<exists>t j. utf8_decode (wire demo_line) = Some t \<and> loads t = Some j \<and>
         (if rpc_request j then st = AF_OK \<and> s' = demo_session\<lparr>ms_notifications := ms_notifications demo_session + 1\<rparr>
          else if \<exists>n w. rpc_answer j n w
          then \<exists>n w m. rpc_answer j n w \<and> agrees m w \<and> st = AF_OK \<and> matched demo_lib plain_realloc n (Answer m) demo_session s'
          else if \<exists>n w c. rpc_failure j n w c
          then \<exists>n w m c. rpc_failure j n w (sint c) \<and> agrees m w \<and> st = AF_OK \<and>
            matched demo_lib plain_realloc n (Failure m c) demo_session s'
          else bad)"
  by (rule message_by_meaning [OF demo_reads demo_finds demo_results(2) plain_realloc_law demo_calls demo_results(1)])

text \<open>
  C5: A call is written at most once between its request and its release. Over any sequence of
  requests, notifications, received lines, sweeps for timeouts and releases, on the pipes, with
  every allocator, kernel and Jansson, and while the identifiers do not wrap around, log the
  identifier of a call in use each time an operation changes its entry: its state, result, status
  or anything else, whether the call was pending or done already. The identifiers logged are
  distinct: the answer, the failure or the timeout that ends a call is the only change it sees, and
  neither a repeated response, nor a late one, nor the reuse of an entry writes a call again. Calls
  in use keep identifiers of their own.
\<close>

theorem call_completed_once:
  assumes "calls_inv (fst p)" "ms_transport (fst p) = AF_TRANSPORT_STDIO"
    "unat (ms_next_id (fst p)) + length xs < 2 ^ 64" "rpc_run xs p = (ns, q)"
  shows "distinct ns \<and> calls_inv (fst q)"
proof -
  have "log_inv [] (fst p)" using assms(1,2) by (simp add: log_inv_def)
  from run_log [OF this assms(3,4)] show ?thesis by (simp add: log_inv_def)
qed

definition demo_http :: mcp_http where
  "demo_http = \<lparr>http_request = (\<lambda>i m b p. (Some AF_E_CLOSED, p)), http_notify = (\<lambda>m b p. (Some AF_E_CLOSED, p)),
     http_cancel = (\<lambda>i p. (Some AF_E_CLOSED, p))\<rparr>"

definition demo_env :: mcp_env where
  "demo_env = \<lparr>env_http = demo_http, env_realloc = plain_realloc, env_writes = []\<rparr>"

definition demo_pipe :: mcp_child where
  "demo_pipe = sample_child\<lparr>mc_frame_max := 100, mc_outbox := \<lparr>buf_data = Some (replicate 1000 0), buf_len = 0, buf_cap = 1000, buf_max = 1000\<rparr>\<rparr>"

text \<open>The response, the same response again, and a timeout of the same call.\<close>

lemma demo_answers: "fst (rpc_run [Receive demo_lib plain_realloc demo_line, Receive demo_lib plain_realloc demo_line,
    Sweep (\<lambda>i. demo_env) 60] (demo_session, demo_pipe)) = [1]"
  by code_simp

theorem call_completed_once_witness:
  "let xs = [Receive demo_lib plain_realloc demo_line, Receive demo_lib plain_realloc demo_line, Sweep (\<lambda>i. demo_env) 60];
     (ns, q) = rpc_run xs (demo_session, demo_pipe)
   in distinct ns \<and> calls_inv (fst q) \<and> ns = [1]"
proof -
  let ?xs = "[Receive demo_lib plain_realloc demo_line, Receive demo_lib plain_realloc demo_line, Sweep (\<lambda>i. demo_env) 60]"
  obtain ns q where r: "rpc_run ?xs (demo_session, demo_pipe) = (ns, q)" by (metis surj_pair)
  have "ms_transport demo_session = AF_TRANSPORT_STDIO" "ms_next_id demo_session = 1" by (simp_all add: demo_session_def)
  with call_completed_once [OF _ _ _ r] demo_calls have "distinct ns \<and> calls_inv (fst q)" by simp
  with r demo_answers show ?thesis by simp
qed

text \<open>
  C18: A request that is made is on the wire, and its identifier is that of the pending call. If a
  request is granted on the pipes, its entry is pending and the stream to the server has grown by
  exactly one line, valid UTF-8 without a line feed inside, which a JSON decoder reads as a request
  by the rules for received messages, with the identifier of the entry and the method asked for.
\<close>

theorem request_on_the_wire:
  assumes "realloc_law (env_realloc env)" "out_wf c" "ms_transport s = AF_TRANSPORT_STDIO" "params_text params v"
    "af_mcp_request env now method params kind timeout_ms (s, c) = (Some i, (s', c'))"
  shows "call_pending s' i \<and> (\<exists>line t j. to_server c' = to_server c @ line @ [10] \<and> 10 \<notin> set line \<and>
    utf8_decode (wire line) = Some t \<and> loads t = Some j \<and> rpc_request j \<and>
    member_of j (str ''id'') = Inr (JInt (uint (call_id s' i))) \<and> member_of j (str ''method'') = Inr (cstr_value (Some method)))"
proof -
  from request_sent [OF assms(3,5)] obtain d b w body where a: "af_mcp_call_alloc kind d s = (Some i, s')"
    and b: "af_buf_init AF_MCP_INVENTORY_MAX = Inr b"
    and w: "af_jw_finish (write_request (env_realloc env) (call_id s' i) method params (af_jw_init b)) = (AF_OK, w)"
    and body: "line_of w = Some body" "stdio_send env body (s', c) = (AF_OK, (s', c'))" by blast
  note wr = request_written [OF assms(1) b assms(4) w]
  from stdio_line [OF assms(1,2) _ body] wr have line: "body = contents (jw_out w)" "to_server c' = to_server c @ body @ [10]" by simp_all
  have v: "case v of None \<Rightarrow> True | Some w \<Rightarrow> printable w" "case map_option collapse v of None \<Rightarrow> True | Some w \<Rightarrow> structured w"
    using assms(4) collapse_structured by (cases params; auto)+
  note dec = line_decodes [OF _ v(1), of body "Some (uint (call_id s' i))" "method"]
  have "call_pending s' i" using alloc_call [OF a] by (auto simp: call_pending_def)
  moreover have "rpc_request (message_doc (Some (uint (call_id s' i))) method (map_option collapse v))"
    using message_doc_request [OF v(2)] .
  ultimately show ?thesis using line dec wr message_doc_members by blast
qed

text \<open>A message for which the outbox has room is sent.\<close>

lemma send_room:
  assumes "out_wf c" "mc_stdin_open c" "unat (buf_len (mc_outbox c)) + length line + 1 \<le> unat (buf_cap (mc_outbox c))"
  shows "fst (af_mcp_send ra [] line c) = AF_OK"
proof -
  let ?b = "mc_outbox c" and ?n = "of_nat (length line) :: u64"
  have l: "length line + 1 < 2 ^ 64" using assms(3) unat_u64_bound [of "buf_cap ?b"] by simp
  then have n: "unat ?n = length line" by (intro unat_of_length) simp
  then have "\<not> add_carry ?n 1" "unat (?n + 1) = length line + 1"
    using l by (auto simp: unat_word_ariths dest: carry_nat)
  then have "af_add_size ?n 1 = Inr (?n + 1)" "af_buf_reserve ra ?b (?n + 1) = (AF_OK, ?b)"
    using assms(3) reserve_within [of ?b "?n + 1" ra] by (simp_all add: af_add_size_def)
  moreover have wf: "buf_wf ?b" using assms(1) by (simp add: out_wf_def)
  obtain b where b: "af_buf_append ra ?b (Some line) ?n = (AF_OK, b)" "buf_wf b" "contents b = contents ?b @ line" "buf_cap b = buf_cap ?b"
    using append_within [OF wf, of ?n line ra] assms(3) n by auto
  have "unat (buf_len b) + unat (1 :: u64) \<le> unat (buf_cap b)"
    using assms(3) contents_wf [OF wf] contents_wf [OF b(2)] b(3,4) by simp
  then obtain b' where "af_buf_append ra b (Some [10]) 1 = (AF_OK, b')" using append_within [OF b(2), of 1 "[10]" ra] by auto
  ultimately show ?thesis using assms(2)
    using b(1) by (simp add: af_mcp_send_def af_mcp_write_stdin_def mcp_write_loop.simps)
qed

lemma demo_pipe_wf: "out_wf demo_pipe"
  by (simp add: out_wf_def demo_pipe_def sample_child_def buf_wf_def)

lemma demo_send: "length line < 900 \<Longrightarrow> fst (af_mcp_send plain_realloc [] line demo_pipe) = AF_OK"
  by (rule send_room [OF demo_pipe_wf]) (simp_all add: demo_pipe_def sample_child_def)

lemma demo_realloc: "env_realloc demo_env = plain_realloc" "env_writes demo_env = []"
  by (simp_all add: demo_env_def)

text \<open>The length of a line, by its document.\<close>

lemma line_length: "wire line = utf8_text t \<Longrightarrow> length line = length (utf8_text t)"
  by (metis wire_def length_map)

lemma demo_transport:
  assumes "ms_transport s = AF_TRANSPORT_STDIO" "wire (contents (jw_out w)) = utf8_text t" "length (utf8_text t) < 900" "utf8_text t \<noteq> []"
  shows "fst (af_mcp_transport_request demo_env i m (line_of w) (s, demo_pipe)) = AF_OK"
    "fst (af_mcp_transport_notify demo_env m (line_of w) (s, demo_pipe)) = AF_OK"
proof -
  have "contents (jw_out w) \<noteq> []" using assms(2,4) by (auto simp: wire_def)
  then have "line_of w = Some (contents (jw_out w))" by (auto simp: line_of_def contents_def split: option.splits)
  moreover have "fst (af_mcp_send plain_realloc [] (contents (jw_out w)) demo_pipe) = AF_OK"
    using line_length [OF assms(2)] assms(3) by (intro demo_send) simp
  ultimately show "fst (af_mcp_transport_request demo_env i m (line_of w) (s, demo_pipe)) = AF_OK"
    "fst (af_mcp_transport_notify demo_env m (line_of w) (s, demo_pipe)) = AF_OK"
    using assms(1) by (simp_all add: af_mcp_transport_request_def af_mcp_transport_notify_def stdio_send_def demo_realloc
        case_prod_beta)
qed

definition demo_method :: "u8 list" where "demo_method = [116, 111, 111, 108, 115, 47, 108, 105, 115, 116, 0]"

lemma request_granted:
  assumes "call_deadline now timeout_ms = Inr d" "fst (af_mcp_call_alloc kind d (fst p)) = Some i"
    "af_buf_init AF_MCP_INVENTORY_MAX = Inr b" "s = snd (af_mcp_call_alloc kind d (fst p))"
    "f = af_jw_finish (write_request (env_realloc env) (call_id s i) method params (af_jw_init b))" "fst f = AF_OK"
    "fst (af_mcp_transport_request env i method (line_of (snd f)) (s, snd p)) = AF_OK"
  shows "fst (af_mcp_request env now method params kind timeout_ms p) = Some i"
  using assms by (auto simp: af_mcp_request_def prod_eq_iff split: prod.splits)

abbreviation demo_buffer :: af_buffer where
  "demo_buffer \<equiv> \<lparr>buf_data = None, buf_len = 0, buf_cap = 0, buf_max = 1048576\<rparr>"

lemma demo_alloc:
  "call_deadline 5 7 = Inr 7000005" "fst (af_mcp_call_alloc 2 7000005 demo_session) = Some 1"
  "call_id (snd (af_mcp_call_alloc 2 7000005 demo_session)) 1 = 2"
  "ms_transport (snd (af_mcp_call_alloc 2 7000005 demo_session)) = AF_TRANSPORT_STDIO"
  by code_simp+

lemma demo_params: "params_text (Some [123, 125, 0]) (Some (JObj []))"
proof -
  have "wire (c_bytes [123, 125, 0]) = utf8_text (jw.text_of (JObj []))" "length (c_bytes [123, 125, 0]) = 2" by code_simp+
  then show ?thesis by (simp add: structured_def)
qed

lemma demo_written:
  "fst (af_jw_finish (write_request plain_realloc 2 demo_method (Some [123, 125, 0]) (af_jw_init demo_buffer))) = AF_OK"
  "length (utf8_text (jw.text_of (message_doc (Some (uint (2 :: u64))) demo_method (Some (JObj []))))) = 58"
  by code_simp+

lemma demo_request: "fst (af_mcp_request demo_env 5 demo_method (Some [123, 125, 0]) 2 7 (demo_session, demo_pipe)) = Some 1"
proof -
  let ?f = "af_jw_finish (write_request plain_realloc 2 demo_method (Some [123, 125, 0]) (af_jw_init demo_buffer))"
    and ?s = "snd (af_mcp_call_alloc 2 7000005 demo_session)"
  have b: "af_buf_init AF_MCP_INVENTORY_MAX = Inr demo_buffer" by (simp add: af_buf_init_def AF_MCP_INVENTORY_MAX_def)
  have "?f = (AF_OK, snd ?f)" using demo_written(1) by (metis prod.collapse)
  from request_written [OF plain_realloc_law b demo_params this]
  have "fst (af_mcp_transport_request demo_env 1 demo_method (line_of (snd ?f)) (?s, demo_pipe)) = AF_OK"
    using demo_written(2) demo_alloc(4) by (intro demo_transport(1)) force+
  then show ?thesis
    using request_granted [OF demo_alloc(1), where p = "(demo_session, demo_pipe)" and env = demo_env, OF _ b refl refl]
      demo_alloc demo_written(1) by (simp add: demo_realloc del: One_nat_def)
qed

theorem request_on_the_wire_witness:
  "case af_mcp_request demo_env 5 demo_method (Some [123, 125, 0]) 2 7 (demo_session, demo_pipe) of
    (r, q) \<Rightarrow> r = Some 1 \<and> call_pending (fst q) 1 \<and> (\<exists>line t j. to_server (snd q) = to_server demo_pipe @ line @ [10] \<and> 10 \<notin> set line \<and>
      utf8_decode (wire line) = Some t \<and> loads t = Some j \<and> rpc_request j \<and>
      member_of j (str ''id'') = Inr (JInt (uint (call_id (fst q) 1))) \<and> member_of j (str ''method'') = Inr (cstr_value (Some demo_method)))"
proof -
  obtain r s c where q: "af_mcp_request demo_env 5 demo_method (Some [123, 125, 0]) 2 7 (demo_session, demo_pipe) = (r, (s, c))"
    by (metis prod_cases3)
  with demo_request have r: "r = Some 1" by simp
  have t: "ms_transport demo_session = AF_TRANSPORT_STDIO" by (simp add: demo_session_def)
  have l: "realloc_law (env_realloc demo_env)" by (simp add: demo_env_def plain_realloc_law)
  from request_on_the_wire [OF l demo_pipe_wf t demo_params q [unfolded r]] show ?thesis unfolding q r by simp
qed

text \<open>
  C16: A call that is not answered ends at its deadline, on the pipes, whatever the allocators and
  the kernel answer. After a sweep, also one that reports an error, exactly the pending calls whose
  deadline has come are done, with the status of a timeout, and every other call is as it was; no
  call is left waiting past its deadline. The server has been sent, in the order of the table and
  nothing else between, notices that cancel such calls by their identifiers, at most one for each
  and none for the handshake. When the sweep reports no error, every such call has its notice and
  the number returned is that of the calls that ended.
\<close>

theorem sweep_times_out:
  assumes "\<And>i. realloc_law (env_realloc (env i))" "out_wf c" "ms_transport s = AF_TRANSPORT_STDIO"
    "length (ms_calls s) = AF_MCP_MAX_CALLS" "af_mcp_sweep_calls env now (s, c) = (r, (s', c'))"
  shows "s' = s\<lparr>ms_calls := map (\<lambda>c. if overdue now c then retired c else c) (ms_calls s)\<rparr> \<and>
    list_all (\<lambda>c. \<not> overdue now c) (ms_calls s') \<and>
    (\<exists>lines told. to_server c' = to_server c @ concat (map (\<lambda>l. l @ [10]) lines) \<and> list_all2 cancels lines told \<and>
      subseq told (filter (needs_cancel now) (ms_calls s)) \<and>
      (case r of Inl e \<Rightarrow> True
       | Inr n \<Rightarrow> unat n = length (filter (overdue now) (ms_calls s)) \<and> told = filter (needs_cancel now) (ms_calls s)))"
proof -
  note sweep = sweep_calls [of "(s, c)", OF _ _ assms(5)]
  have s: "s' = s\<lparr>ms_calls := map (\<lambda>c. if expired now c then retired c else c) (ms_calls s)\<rparr>" using sweep(1) assms(3,4) by simp
  have e: "list_all (\<lambda>c. \<not> expired now c) (ms_calls s')"
    unfolding s by (auto simp: list_all_iff expired_def retired_def)
  obtain m err where l: "sweep_loop env now [0..<AF_MCP_MAX_CALLS] 0 None (s, c) = (m, err, (s', c'))"
    and r: "r = (case err of Some e \<Rightarrow> Inl e | None \<Rightarrow> Inr m)"
    using assms(5) by (auto simp: af_mcp_sweep_calls_def split: prod.splits option.splits)
  have "map (\<lambda>i. ms_calls s ! i) [0..<AF_MCP_MAX_CALLS] = ms_calls s" using map_nth [of "ms_calls s"] assms(4) by simp
  with sweep_tells [OF l assms(1,3,2)] assms(4)
  have "\<exists>lines told. to_server c' = to_server c @ concat (map (\<lambda>l. l @ [10]) lines) \<and> list_all2 cancels lines told \<and>
      subseq told (filter (needs_cancel now) (ms_calls s)) \<and> (err = None \<longrightarrow> told = filter (needs_cancel now) (ms_calls s))"
    by (simp add: list_all_iff)
  moreover have "err = None \<Longrightarrow> unat m = length (filter (expired now) (ms_calls s))" using sweep(2) [of m] r assms(3,4) by simp
  ultimately show ?thesis using s e r unfolding expired_overdue by (cases err) auto
qed

lemma emit_granted:
  assumes "af_buf_init AF_MCP_CANCEL_FRAME_MAX = Inr b"
    "f = af_jw_finish (write_cancelled (env_realloc env) (call_id (fst p) i) (af_jw_init b))" "fst f = AF_OK"
    "fst (af_mcp_transport_notify env m_cancelled (line_of (snd f)) p) = AF_OK"
  shows "fst (af_mcp_emit_cancelled env i p) = AF_OK"
  using assms by (auto simp: af_mcp_emit_cancelled_def prod_eq_iff split: prod.splits)

abbreviation demo_cancel_buffer :: af_buffer where
  "demo_cancel_buffer \<equiv> \<lparr>buf_data = None, buf_len = 0, buf_cap = 0, buf_max = 512\<rparr>"

lemma demo_cancelled:
  "fst (af_jw_finish (write_cancelled plain_realloc 1 (af_jw_init demo_cancel_buffer))) = AF_OK"
  by code_simp

lemma demo_cancelled_text:
  "length (utf8_text (jw.text_of (message_doc None m_cancelled
     (Some (JObj [(str ''requestId'', JInt (uint (1 :: u64))), (str ''reason'', JStr (str ''request timeout''))]))))) = 104"
  by code_simp

lemma demo_noticed:
  "fst (af_mcp_transport_notify demo_env m_cancelled (line_of (snd (af_jw_finish (write_cancelled plain_realloc 1
     (af_jw_init demo_cancel_buffer))))) (demo_session, demo_pipe)) = AF_OK"
proof -
  let ?f = "af_jw_finish (write_cancelled plain_realloc 1 (af_jw_init demo_cancel_buffer))"
  have b: "af_buf_init AF_MCP_CANCEL_FRAME_MAX = Inr demo_cancel_buffer" by (simp add: af_buf_init_def AF_MCP_CANCEL_FRAME_MAX_def)
  have "?f = (AF_OK, snd ?f)" using demo_cancelled by (metis prod.collapse)
  from cancelled_written [OF plain_realloc_law b this] show ?thesis
    using demo_cancelled_text by (intro demo_transport(2)) (force simp: demo_session_def)+
qed

lemma demo_expired:
  "expired 60 (ms_calls demo_session ! 0)" "call_id demo_session 0 = 1" "cl_kind (ms_calls demo_session ! 0) = 2"
  "list_all (\<lambda>i. \<not> expired 60 (ms_calls (retire_call 0 demo_session) ! i)) [1, 2, 3, 4, 5, 6, 7]"
  by code_simp+

lemma demo_emitted: "fst (af_mcp_cancel_timed_out demo_env 0 (demo_session, demo_pipe)) = AF_OK"
proof -
  have "ms_transport demo_session = AF_TRANSPORT_STDIO" "ms_era demo_session = AF_ERA_MODERN" by (simp_all add: demo_session_def)
  then have "af_mcp_cancel_timed_out demo_env 0 (demo_session, demo_pipe) = af_mcp_emit_cancelled demo_env 0 (demo_session, demo_pipe)"
    by (simp add: af_mcp_cancel_timed_out_def demo_expired Let_def AF_TRANSPORT_STDIO_def AF_TRANSPORT_STREAMABLE_HTTP_def
        AF_MCP_CALL_INITIALIZE_def AF_MCP_CALL_DISCOVER_def AF_MCP_CALL_COUNT_def af_mcp_cancel_modern_def)
  moreover have "fst (af_mcp_emit_cancelled demo_env 0 (demo_session, demo_pipe)) = AF_OK"
    by (rule emit_granted [OF _ refl, where b = demo_cancel_buffer])
      (simp_all add: demo_cancelled demo_noticed demo_realloc demo_expired af_buf_init_def AF_MCP_CANCEL_FRAME_MAX_def)
  ultimately show ?thesis by simp
qed

lemma demo_sweep: "fst (af_mcp_sweep_calls (\<lambda>i. demo_env) 60 (demo_session, demo_pipe)) = Inr 1"
proof -
  obtain s c where r: "af_mcp_cancel_timed_out demo_env 0 (demo_session, demo_pipe) = (AF_OK, (s, c))"
    using demo_emitted by (metis prod_cases3 fst_conv)
  have "ms_transport demo_session = AF_TRANSPORT_STDIO" by (simp add: demo_session_def)
  then have "s = demo_session" using cancel_session [of "(demo_session, demo_pipe)" demo_env 0] r by simp
  moreover have "[0..<AF_MCP_MAX_CALLS] = [0, 1, 2, 3, 4, 5, 6, 7]" by (simp add: AF_MCP_MAX_CALLS_def upt_rec)
  ultimately show ?thesis using r demo_expired by (simp add: af_mcp_sweep_calls_def)
qed

definition mute_env :: mcp_env where
  "mute_env = demo_env\<lparr>env_realloc := refusing_realloc\<rparr>"

lemma mute_sweep: "fst (af_mcp_sweep_calls (\<lambda>i. mute_env) 60 (demo_session, demo_pipe)) = Inl AF_E_NOMEM"
  by code_simp

text \<open>A sweep that sends its notice, and one that has no memory for it.\<close>

theorem sweep_times_out_witness:
  "case af_mcp_sweep_calls (\<lambda>i. demo_env) 60 (demo_session, demo_pipe) of (r, q) \<Rightarrow> r = Inr 1 \<and>
    list_all (\<lambda>c. \<not> overdue 60 c) (ms_calls (fst q)) \<and>
    (\<exists>lines. to_server (snd q) = to_server demo_pipe @ concat (map (\<lambda>l. l @ [10]) lines) \<and>
      list_all2 cancels lines (filter (needs_cancel 60) (ms_calls demo_session))) \<and>
    (case af_mcp_sweep_calls (\<lambda>i. mute_env) 60 (demo_session, demo_pipe) of (r, q) \<Rightarrow> r = Inl AF_E_NOMEM \<and>
      list_all (\<lambda>c. \<not> overdue 60 c) (ms_calls (fst q)))"
proof -
  obtain r s c where q: "af_mcp_sweep_calls (\<lambda>i. demo_env) 60 (demo_session, demo_pipe) = (r, (s, c))"
    by (metis prod_cases3)
  with demo_sweep have r: "r = Inr 1" by simp
  obtain r' s' c' where q': "af_mcp_sweep_calls (\<lambda>i. mute_env) 60 (demo_session, demo_pipe) = (r', (s', c'))"
    by (metis prod_cases3)
  with mute_sweep have r': "r' = Inl AF_E_NOMEM" by simp
  note demo_pipe_wf
  moreover have "ms_transport demo_session = AF_TRANSPORT_STDIO" "length (ms_calls demo_session) = AF_MCP_MAX_CALLS"
    by (simp_all add: demo_session_def AF_MCP_MAX_CALLS_def)
  moreover have "realloc_law (env_realloc demo_env)" "realloc_law (env_realloc mute_env)"
    by (simp_all add: mute_env_def demo_env_def plain_realloc_law refusing_realloc_law)
  ultimately show ?thesis
    using sweep_times_out [OF _ _ _ _ q [unfolded r]] sweep_times_out [OF _ _ _ _ q' [unfolded r']]
    unfolding q r q' r' prod.case fst_conv snd_conv sum.case by blast
qed

text \<open>
  The status of a notification that could not be written is lost: the buffer is freed before the
  status is read, so the caller is told whatever the free routine left in the register.
\<close>

lemma notify_status_lost:
  assumes "env_realloc env = refusing_realloc"
  shows "af_mcp_notify env after_free method params p = (after_free, p)"
proof -
  let ?b = "\<lparr>buf_data = None, buf_len = 0, buf_cap = 0, buf_max = 1048576\<rparr>"
  define w where "w = snd (jw_step refusing_realloc Begin_Object (af_jw_init ?b))"
  have w: "jw_status w = Some AF_E_NOMEM" unfolding w_def by code_simp
  have run: "jw_run refusing_realloc (Begin_Object # cs) (af_jw_init ?b) = w" for cs
    using run_failed [OF w] by (simp add: w_def [symmetric] del: jw_step.simps)
  have "write_params refusing_realloc params w = w"
    using run_failed [OF w, of refusing_realloc "[Put_Key k_params]"] w
    by (simp add: write_params_def af_jw_raw_def af_jw_literal_def prepare_failed split: option.splits del: jw_run.simps)
  then have "write_notice refusing_realloc method params (af_jw_init ?b) = w"
    using run_failed [OF w] run by (simp add: write_notice_def del: jw_run.simps)
  then show ?thesis
    using w assms by (simp add: af_mcp_notify_def af_buf_init_def AF_MCP_INVENTORY_MAX_def af_jw_finish_def)
qed

end
