(* ===== verification/Spec2Isabelle.thy ===== *)
theory Spec2Isabelle
  imports Abi_Audit Source_Text Validate_Repo Gate_M1 Gate_M3 Gate_M4 Gate_M5
    Gate_M6 Gate_M7 Gate_M8 Gate_M9 Gate_M10 Gate_M11
    Fallback Provider_Sse Http_Request Control_Frame Json_Reader Mcp_Restart Mcp_Rpc
begin

text \<open>
  AsmFlow is a local gateway for language-model providers: a daemon and a terminal client written
  in NASM assembly (\<open>src/\<close>), and a repository process written in Python (\<open>scripts/\<close>) that decides
  whether the tree and its build may be released. This library models both: the Python scripts
  completely, and of the assembly the path of a request: how its headers and credential are
  read, where it goes, what happens when a provider fails, and how the provider's events reach
  the client; the conversation with a supervised MCP server over its pipes; the JSON boundary,
  which every reply is written and every document read through; and the buffers, byte strings
  and size arithmetic all of it rests on.

  \<^bold>\<open>The scripts.\<close> Each script is a function of a world \<open>repo\<close> (theory \<open>Repo_Model\<close>): the checked-out
  tree, the build directory and the external programs, which are one function \<open>proc\<close> from command
  lines to results. A check returns an \<open>outcome\<close>: the lines it prints, failures among them, and the
  exception that ended it, if one did; every \<open>raise\<close>, early return and uncaught traceback is a
  branch. Two locales say how a script ends: \<open>accumulating_gate\<close> (a flag \<open>FAILED\<close>, all checks run;
  milestones 5 to 11) and \<open>fail_fast_gate\<close> (the first violation stops it; \<open>validate_repo.py\<close> and
  milestones 1, 3 and 4), each interpreted on every script that has that form. The runners of
  the unit tests have contracts of their own, \<open>strict_suite\<close> and \<open>floor_suite\<close>.

  \<^item> \<open>Py_Text\<close>, \<open>Py_Regex\<close>, \<open>Utf8\<close>, \<open>Json\<close>, \<open>Json_Text\<close>, \<open>Json_Dumps\<close>, \<open>Py_Value\<close>: the Python the
    scripts use. Texts are lists of code points. The backtracking matcher of \<open>Py_Regex\<close> is total
    and returns exactly the matches of the relation \<open>rx_rel\<close>; UTF-8 decodes what it encodes. The
    locale \<open>json_printer\<close> of \<open>Json_Text\<close> asks of a printer only that the decoder reads back its
    strings and skips its gaps, and gives that the decoder reads back every value; it is
    interpreted for \<open>json.dumps\<close> (\<open>py\<close>) and for the daemon's writer (\<open>jw\<close>).
  \<^item> \<open>Source_Text\<close>: the comment strippers, function bodies and Makefile recipes the gates share, in
    all their variants, with what each returns and where the variants agree.
  \<^item> \<open>Gate_Core\<close>: what the gates share, and whole-word searches as statements about texts.
  \<^item> \<open>Abi_Audit\<close> (\<open>scripts/abi_audit.py\<close>): the disassembly, its functions, the prologue and epilogue
    rules and the verdict, with a small machine of pushes and pops that says what an accepted
    epilogue restores.
  \<^item> \<open>Validate_Repo\<close> (\<open>scripts/validate_repo.py\<close>), \<open>Gate_M1\<close> and \<open>Gate_M3\<close> to \<open>Gate_M11\<close>
    (\<open>scripts/gate_m1.py\<close> and so on): every check, every suite runner and \<open>main\<close>. A function of the
    source keeps its name; a suffix \<open>_m9\<close> tells the variants of the milestones apart, and a name
    without a source function is a step of the function its map entry names. \<open>Gate_M3\<close> includes
    the documents and mutations of \<open>tests/config_corpus.py\<close> that the gate uses, and
    \<open>only_differs\<close> says what a mutation changes.

  \<^bold>\<open>The assembly.\<close> A C structure is a record, a register a \<open>64 word\<close>, and a pointer into a table the
  index of its entry; every function follows the branches of its routine, wrap-around, carry and
  overflow included.

  \<^item> \<open>Checked\<close> (\<open>src/memory/checked.asm\<close>): size arithmetic, exact or refused.
  \<^item> \<open>Cstr\<close> (\<open>src/core/cstr.asm\<close>): comparisons, copies, wipes and decimals over lists of bytes; each
    comparison has a closed form, and the decimal parser is exact and inverts the printer.
  \<^item> \<open>Buffer\<close> (\<open>src/memory/buffer.asm\<close>): the bounded buffer, whose abstraction is the list of its
    contents. Every sequence of operations is one on a bounded queue of bytes, a failed append
    changes nothing, and the secure operations leave no old byte behind. The locale \<open>byte_sink\<close>
    is what the writers of a stream rely on (a put appends all its bytes, or fails and changes
    nothing) and is interpreted on the buffer as \<open>outbox\<close>.
  \<^item> \<open>Http_Outbox\<close> (\<open>af_http_conn_flush\<close> of \<open>src/http/http_server.asm\<close>, \<open>af_prov_conn_drained\<close>): the
    bytes on the wire followed by the pending ones are unchanged by a flush, whatever the
    kernel answers, and a kernel that takes bytes empties the outbox.
  \<^item> \<open>Provider_Sse\<close> (\<open>src/providers/provider_sse.asm\<close> and the chunks of \<open>provider_exchange.asm\<close>): where
    an event ends, that fragments do not matter, that a client which decodes the chunks gets
    the provider's bytes, and what the limit on an event refuses.
  \<^item> \<open>Utf8_Check\<close> (\<open>af_utf8_validate\<close> of \<open>src/json/json_write.asm\<close>) against the codec of \<open>Utf8\<close>, and
    \<open>Control_Frame\<close> (\<open>src/control/control_frame.asm\<close>), the lines of the control protocol.
  \<^item> \<open>Json_Writer\<close> (\<open>src/json/json_write.asm\<close>): the writer with its stack of levels and its sticky
    status. Its specification is a document under construction (\<open>doc\<close>, the open containers with
    their values); \<open>represents\<close> relates a writer to it, and every call, and so every run of calls,
    simulates the step of the document or records why it could not. What it finishes is JSON
    without control bytes.
  \<^item> \<open>Json_Reader\<close> (\<open>src/json/json.asm\<close>): the scan of the nesting on raw bytes, shown against the
    decoder of \<open>Json\<close>; the parse under limits, with Jansson as a parameter and \<open>reads_json\<close> its
    documented contract; the accessors. Writer and reader meet in \<open>written_documents_scan\<close>.
  \<^item> \<open>Mcp_Frame\<close> (\<open>src/mcp/mcp_frame.asm\<close>): the three pipes of a supervised MCP server. Every line
    of its output reaches the message layer once, however the reads cut it; of its error output
    the newest is kept within bounds, exactly when memory suffices (the locale \<open>captured\<close> carries
    an invariant through the reads, once for any allocator and once for one that refuses
    nothing); messages to it are queued whole or not at all.
  \<^item> \<open>Mcp_Rpc\<close> (\<open>src/mcp/mcp_rpc.asm\<close>, \<open>mcp_transport.asm\<close>): JSON-RPC over those pipes. \<open>calls_inv\<close> is
    the invariant of the table of calls and \<open>rpc_run\<close> a run of requests, notifications, received
    lines, sweeps and releases in any order, of which \<open>log_inv\<close> gives that the entry of a call is
    written at most once between its request and its release. Received lines are judged as documents (\<open>rpc_request\<close>, \<open>rpc_answer\<close>, \<open>rpc_failure\<close>);
    what is sent decodes as a request or a notice of cancellation by the same rules.
  \<^item> \<open>Mcp_Restart\<close> (\<open>af_mcp_schedule_restart\<close> and \<open>af_mcp_reset\<close> of \<open>src/mcp/mcp_supervisor.asm\<close>): the
    sliding window of restarts, compacted in place, against the budget over any run of failures,
    and the backoff and deadline of the next start.
  \<^item> \<open>Http_Request\<close> (the callbacks of \<open>src/http/http_parse.asm\<close>, \<open>http_auth.asm\<close>): \<open>deliver_all\<close> is what
    llhttp calls for a header section, \<open>framed\<close> the rules of a section as a whole, and
    \<open>section_inv\<close> the invariant that ties them; the credential check is characterised.
  \<^item> \<open>Circuit_Breaker\<close> (\<open>src/routing/routing_health.asm\<close>): a provider's health, its slots, probes,
    backoff and latency estimate. \<open>breaker_step\<close> is the step relation of requests that start and
    end at any time, \<open>breaker_reach\<close> what it reaches, and \<open>breaker_exec\<close> an executable run used for
    the witnesses. Invariants: slots, concurrency, probe counter, backoff; edges; recovery.
  \<^item> \<open>Routing_Oracle\<close> (\<open>tests/route_oracle.py\<close>) is the reference of the routing policies, and
    \<open>Routing_Select\<close> (\<open>src/routing/routing_select.asm\<close> and the tables of \<open>routing_health.asm\<close>) the
    assembly; a refinement connects them. The locale \<open>selection_policy\<close> holds what
    selection by any strict order gives, interpreted for priority and latency.
  \<^item> \<open>Fallback\<close> (parts of \<open>src/providers/provider_exchange.asm\<close> and \<open>provider_error.asm\<close>): which
    errors may go to another target, the choice of a target with its bookkeeping, and the
    release of an attempt.

  The parts meet in \<open>Fallback\<close>: \<open>choose_target\<close> runs the candidate walk of \<open>Routing_Select\<close>, takes a
  slot of \<open>Circuit_Breaker\<close> and marks the target as tried; \<open>af_prov_attempt_release\<close> records the
  outcome in the health of the provider; the properties bound the attempts of a request and
  show that each slot is given back once. On the way back \<open>af_prov_on_write\<close> feeds \<open>sse_drain\<close>, which
  writes chunks into the outbox of the connection and flushes it; the flush clears the flag
  that paused the transfer. They meet again in \<open>Mcp_Rpc\<close>: \<open>af_mcp_request\<close> writes its line with
  \<open>Json_Writer\<close> and queues it with \<open>af_mcp_send\<close>, \<open>af_mcp_frame_lines\<close> hands each line of the server to
  \<open>af_mcp_on_message\<close>, which reads it with \<open>Json_Reader\<close>, and \<open>Buffer\<close> carries all of it.

  \<^bold>\<open>Bounds and fuel.\<close> The JSON decoder recurses with fuel; \<open>loads\<close> gives twice the length of the
  text and two, and \<open>jvalue_fuel\<close> shows that more changes nothing. All other recursion ends by a
  measure. The breaker bounds the attempts in flight by \<open>AF_PROV_MAX_EXCHANGES\<close>, the size of the
  daemon's exchange table, so the slot counters cannot wrap.

  \<^bold>\<open>Limits of the Python model.\<close> \<open>\w\<close>, \<open>\d\<close> and matching in any case are those of ASCII; floats of a
  JSON document are compared by their decimal value; the nesting limit of the JSON decoder is
  left out. A printed line is its constant text with the values it shows.

  \<^bold>\<open>Parameters.\<close> Programs the scripts run (\<open>objdump\<close>, \<open>nm\<close>, \<open>readelf\<close>, \<open>git\<close>, \<open>make\<close>, the built binaries,
  the unit tests) are \<open>proc\<close>; \<open>ast\<close>, \<open>unicodedata\<close>, \<open>os.access\<close>, the pseudo-terminal run and the
  daemon under test are arguments of the checks that use them. The assembly takes the monotonic
  clock, \<open>realloc\<close>, what the kernel answers to each read and write, what llhttp and Jansson report,
  and what the MCP transport over HTTP does with a message as arguments; \<open>finds_members\<close> is what a
  lookup in a document promises, \<open>dumps_fit\<close> that a printed document fits in the address space,
  \<open>realloc_law\<close> the documented contract of \<open>realloc\<close>, and \<open>plain_realloc\<close> an instance of it.

  \<^bold>\<open>Not modelled.\<close> Of the assembly, the dispatcher and the sockets of the HTTP server,
  configuration, storage, TUI, the control methods and the platform layer, which is not
  Python and which the scripts see as text; of MCP the processes themselves, the probe of the
  protocol era, the rest of the supervisor and the engine of the HTTP transport; of
  \<open>provider_exchange.asm\<close> the transfer through libcurl; the checks for a null structure, since a record is a value; the C shims, which only
  pass calls to libraries; the tests other than the oracle and the corpus documents.
\<close>

end
